(* ===== verification/XM_Prelude.thy ===== *)
theory XM_Prelude
  imports Main "HOL-Library.Sublist"
begin

text \<open>
  Shared vocabulary of the development: byte strings, results with errors, splitting and
  joining of separated text, and the two interfaces (\<open>byte_machine\<close>, \<open>invariant_system\<close>)
  that several components implement. A C++ \<open>std::string\<close> is a list of \<open>char\<close>, one
  element per byte; \<open>byte\<close> reads an element as an unsigned char.
\<close>

named_theorems result_simps \<open>inversion of computations that may fail\<close>

type_synonym bytes = string

abbreviation byte :: "char \<Rightarrow> nat" where
  "byte c \<equiv> of_char c"

abbreviation starts_with :: "'a list \<Rightarrow> 'a list \<Rightarrow> bool" where
  "starts_with s p \<equiv> prefix p s"

section \<open>Computations that may fail\<close>

text \<open>A C++ function that may throw returns \<open>Inl\<close> of the exception or \<open>Inr\<close> of its value.\<close>

definition bindE :: "'e + 'a \<Rightarrow> ('a \<Rightarrow> 'e + 'b) \<Rightarrow> 'e + 'b" where
  "bindE m f = (case m of Inl e \<Rightarrow> Inl e | Inr x \<Rightarrow> f x)"

definition guardE :: "bool \<Rightarrow> 'e \<Rightarrow> 'e + unit" where
  "guardE b e = (if b then Inr () else Inl e)"

fun mapE :: "('a \<Rightarrow> 'e + 'b) \<Rightarrow> 'a list \<Rightarrow> 'e + 'b list" where
  "mapE f [] = Inr []"
| "mapE f (x # xs) = bindE (f x) (\<lambda>y. bindE (mapE f xs) (\<lambda>ys. Inr (y # ys)))"

fun foldE :: "('s \<Rightarrow> 'a \<Rightarrow> 'e + 's) \<Rightarrow> 's \<Rightarrow> 'a list \<Rightarrow> 'e + 's" where
  "foldE f s [] = Inr s"
| "foldE f s (x # xs) = bindE (f s x) (\<lambda>t. foldE f t xs)"

lemma bindE_simps [simp, code]:
  "bindE (Inl e) f = Inl e"
  "bindE (Inr x) f = f x"
  by (simp_all add: bindE_def)

lemma bindE_Inr [result_simps]: "bindE m f = Inr y \<longleftrightarrow> (\<exists>x. m = Inr x \<and> f x = Inr y)"
  by (cases m) auto

lemma bindE_Inl [result_simps]:
  "bindE m f = Inl e \<longleftrightarrow> m = Inl e \<or> (\<exists>x. m = Inr x \<and> f x = Inl e)"
  by (cases m) auto

lemma guardE_Inr [simp]: "guardE b e = Inr u \<longleftrightarrow> b"
  by (simp add: guardE_def)

lemma guardE_Inl [simp]: "guardE b e = Inl e' \<longleftrightarrow> \<not> b \<and> e' = e"
  by (auto simp: guardE_def)

lemma bindE_guardE [simp]: "bindE (guardE b e) f = (if b then f () else Inl e)"
  by (simp add: guardE_def)

lemma bindE_assoc: "bindE (bindE m f) g = bindE m (\<lambda>x. bindE (f x) g)"
  by (cases m) auto

lemma bindE_return: "bindE m Inr = m"
  by (cases m) auto

lemma bindE_cong [fundef_cong]:
  "m = m' \<Longrightarrow> (\<And>x. m' = Inr x \<Longrightarrow> f x = f' x) \<Longrightarrow> bindE m f = bindE m' f'"
  by (cases m') auto

lemma foldE_append: "foldE f s (xs @ ys) = bindE (foldE f s xs) (\<lambda>t. foldE f t ys)"
  by (induction xs arbitrary: s) (auto simp: bindE_assoc)

lemma foldE_invariant:
  assumes "\<And>s x t. P s \<Longrightarrow> f s x = Inr t \<Longrightarrow> P t" and "P s" and "foldE f s xs = Inr t"
  shows "P t"
  using assms(2,3) by (induction xs arbitrary: s) (auto simp: result_simps dest: assms(1))

lemma mapE_length: "mapE f xs = Inr ys \<Longrightarrow> length ys = length xs"
  by (induction xs arbitrary: ys) (auto simp: result_simps)

lemma mapE_Inr_iff: "mapE f xs = Inr ys \<longleftrightarrow> list_all2 (\<lambda>x y. f x = Inr y) xs ys"
  by (induction xs arbitrary: ys) (auto simp: result_simps list_all2_Cons1)

text \<open>A loop that only checks its elements; both loops may recurse through their function.\<close>

fun forE :: "('a \<Rightarrow> 'e + unit) \<Rightarrow> 'a list \<Rightarrow> 'e + unit" where
  "forE f [] = Inr ()"
| "forE f (x # xs) = bindE (f x) (\<lambda>_. forE f xs)"

lemma mapE_cong [fundef_cong]:
  "xs = ys \<Longrightarrow> (\<And>x. x \<in> set ys \<Longrightarrow> f x = g x) \<Longrightarrow> mapE f xs = mapE g ys"
  by (induction ys arbitrary: xs) (auto cong: bindE_cong)

lemma forE_cong [fundef_cong]:
  "xs = ys \<Longrightarrow> (\<And>x. x \<in> set ys \<Longrightarrow> f x = g x) \<Longrightarrow> forE f xs = forE g ys"
  by (induction ys arbitrary: xs) (auto cong: bindE_cong)

lemma forE_Inr: "forE f xs = Inr () \<longleftrightarrow> (\<forall>x \<in> set xs. f x = Inr ())"
  by (induction xs) (auto simp: result_simps)

section \<open>Separated text\<close>

text \<open>The loops \<open>find(separator, start)\<close>: the pieces between separators, at least one.\<close>

fun split_on :: "'a \<Rightarrow> 'a list \<Rightarrow> 'a list list" where
  "split_on c [] = [[]]"
| "split_on c (x # xs) =
     (if x = c then [] # split_on c xs
      else (case split_on c xs of [] \<Rightarrow> [[x]] | p # ps \<Rightarrow> (x # p) # ps))"

fun join_with :: "'a \<Rightarrow> 'a list list \<Rightarrow> 'a list" where
  "join_with c [] = []"
| "join_with c [p] = p"
| "join_with c (p # q # ps) = p @ c # join_with c (q # ps)"

lemma split_on_nonempty [simp]: "split_on c xs \<noteq> []"
  by (induction xs) (auto split: list.splits)

lemma split_on_pieces: "p \<in> set (split_on c xs) \<Longrightarrow> c \<notin> set p"
  by (induction xs arbitrary: p) (auto split: list.splits if_splits)

lemma join_with_Cons: "ps \<noteq> [] \<Longrightarrow> join_with c (p # ps) = p @ c # join_with c ps"
  by (cases ps) auto

lemma join_split: "join_with c (split_on c xs) = xs"
proof (induction xs)
  case Nil
  then show ?case by simp
next
  case (Cons x xs)
  obtain p ps where eq: "split_on c xs = p # ps" by (cases "split_on c xs") auto
  show ?case using Cons eq by (cases ps) auto
qed

lemma split_on_prefix: "c \<notin> set p \<Longrightarrow> split_on c (p @ c # xs) = p # split_on c xs"
  by (induction p) auto

lemma split_on_plain: "c \<notin> set p \<Longrightarrow> split_on c p = [p]"
  by (induction p) auto

lemma split_join:
  "ps \<noteq> [] \<Longrightarrow> \<forall>p \<in> set ps. c \<notin> set p \<Longrightarrow> split_on c (join_with c ps) = ps"
proof (induction ps)
  case Nil
  then show ?case by simp
next
  case (Cons p ps)
  then show ?case
    by (cases "ps = []") (auto simp: join_with_Cons split_on_prefix split_on_plain)
qed

section \<open>Decimal digits\<close>

text \<open>\<open>std::to_string\<close> of an unsigned number.\<close>

function decimal :: "nat \<Rightarrow> bytes" where
  "decimal n = (if n < 10 then [''0123456789'' ! n] else decimal (n div 10) @ [''0123456789'' ! (n mod 10)])"
  by pat_completeness auto
termination
  by (relation "measure id") auto

declare decimal.simps [simp del]

lemma decimal_nonempty: "decimal n \<noteq> []"
  by (subst decimal.simps) simp

lemma digit_inj: "''0123456789'' ! a = ''0123456789'' ! b \<Longrightarrow> a < 10 \<Longrightarrow> b < 10 \<Longrightarrow> a = b"
  using nth_eq_iff_index_eq [of "''0123456789''" a b] by simp

lemma decimal_inj: "decimal m = decimal n \<Longrightarrow> m = n"
proof (induction m arbitrary: n rule: less_induct)
  case (less m)
  have big: "\<not> k < 10 \<Longrightarrow> decimal k = decimal (k div 10) @ [''0123456789'' ! (k mod 10)]" for k
    by (subst decimal.simps) simp
  have one: "k < 10 \<Longrightarrow> decimal k = [''0123456789'' ! k]" for k
    by (subst decimal.simps) simp
  show ?case
  proof (cases "m < 10"; cases "n < 10")
    assume *: "m < 10" "n < 10"
    then have "''0123456789'' ! m = ''0123456789'' ! n" using less.prems unfolding one [OF *(1)] one [OF *(2)] by blast
    then show ?thesis using * by (rule digit_inj)
  next
    assume *: "m < 10" "\<not> n < 10"
    then show ?thesis using less.prems decimal_nonempty [of "n div 10"] unfolding one [OF *(1)] big [OF *(2)] by simp
  next
    assume *: "\<not> m < 10" "n < 10"
    then show ?thesis using less.prems decimal_nonempty [of "m div 10"] unfolding one [OF *(2)] big [OF *(1)] by simp
  next
    assume *: "\<not> m < 10" "\<not> n < 10"
    then have "decimal (m div 10) = decimal (n div 10)"
      and last: "''0123456789'' ! (m mod 10) = ''0123456789'' ! (n mod 10)"
      using less.prems unfolding big [OF *(1)] big [OF *(2)] by blast+
    then have "m div 10 = n div 10" using less.IH [of "m div 10"] * by simp
    moreover have "m mod 10 = n mod 10" by (rule digit_inj [OF last]) simp_all
    ultimately show ?thesis by (metis div_mult_mod_eq)
  qed
qed

lemma decimal_chars: "set (decimal n) \<subseteq> set ''0123456789''"
proof (induction n rule: decimal.induct)
  case (1 n)
  have digit: "''0123456789'' ! k \<in> set ''0123456789''" if "k < 10" for k
    using that by (intro nth_mem) simp
  show ?case
  proof (cases "n < 10")
    case True
    then have "decimal n = [''0123456789'' ! n]" by (subst decimal.simps) simp
    then show ?thesis using digit [OF True] by (simp only: list.set insert_subset empty_subsetI simp_thms)
  next
    case False
    then have "decimal n = decimal (n div 10) @ [''0123456789'' ! (n mod 10)]" by (subst decimal.simps) simp
    then show ?thesis using digit [of "n mod 10"] 1 [OF False]
      by (simp only: list.set set_append Un_subset_iff insert_subset empty_subsetI simp_thms)
  qed
qed

lemma decimal_length: "n < 100 \<Longrightarrow> length (decimal n) \<le> 2"
  by (subst decimal.simps, subst decimal.simps) auto

section \<open>Machines fed with bytes\<close>

text \<open>
  A decoder that consumes its input one byte at a time may be fed in pieces of any size. The
  contract \<open>byte_machine\<close>: feeding a piece consumes its bytes in order from the current
  state, and nothing else about the cut reaches the state. Every incremental decoder of the
  program (the MCP line stream, the model event stream) is shown to satisfy it, and inherits
  that the cuts of its input cannot be observed.
\<close>

locale byte_machine =
  fixes feed :: "'s \<Rightarrow> 'b list \<Rightarrow> 'e + 's"
    and step :: "'s \<Rightarrow> 'b \<Rightarrow> 'e + 's"
  assumes feed_steps: "feed s bs = foldE step s bs"
begin

lemma feed_nil: "feed s [] = Inr s"
  by (simp add: feed_steps)

lemma feed_append: "feed s (bs @ cs) = bindE (feed s bs) (\<lambda>t. feed t cs)"
  by (simp add: feed_steps foldE_append)

lemma feed_chunks: "foldE feed s pieces = feed s (concat pieces)"
  by (induction pieces arbitrary: s) (simp_all add: feed_nil feed_append)

lemma feed_cuts_irrelevant:
  "concat pieces = concat pieces' \<Longrightarrow> foldE feed s pieces = foldE feed s pieces'"
  by (simp add: feed_chunks)

lemma feed_keeps:
  assumes "\<And>s b t. P s \<Longrightarrow> step s b = Inr t \<Longrightarrow> P t" and "P s" and "feed s bs = Inr t"
  shows "P t"
  using foldE_invariant [of P step s bs t] assms by (simp add: feed_steps)

end

section \<open>Transition systems with an invariant\<close>

text \<open>
  The contract of a component whose operations are atomic sections under a mutex: start states
  satisfy the invariant and every atomic step keeps it. Then every state that any interleaving
  of any number of threads can reach satisfies it.
\<close>

locale invariant_system =
  fixes start :: "'s \<Rightarrow> bool"
    and step :: "'s \<Rightarrow> 's \<Rightarrow> bool"
    and inv :: "'s \<Rightarrow> bool"
  assumes start_inv: "start s \<Longrightarrow> inv s"
    and step_inv: "inv s \<Longrightarrow> step s t \<Longrightarrow> inv t"
begin

lemma steps_inv: "step\<^sup>*\<^sup>* s t \<Longrightarrow> inv s \<Longrightarrow> inv t"
  by (induction rule: rtranclp_induct) (auto intro: step_inv)

lemma reachable_inv: "start s \<Longrightarrow> step\<^sup>*\<^sup>* s t \<Longrightarrow> inv t"
  by (blast intro: steps_inv start_inv)

lemma reachable_keeps:
  assumes "start s" and "step\<^sup>*\<^sup>* s t" and "P s"
    and "\<And>u v. inv u \<Longrightarrow> P u \<Longrightarrow> step u v \<Longrightarrow> P v"
  shows "P t"
  using assms(2)
proof (induction rule: rtranclp_induct)
  case base
  then show ?case by (rule assms(3))
next
  case (step u v)
  have "inv u" using reachable_inv [OF assms(1) step.hyps(1)] .
  then show ?case using step assms(4) by blast
qed

end

end
