(* ===== verification/Agent_Permissions.thy ===== *)
theory Agent_Permissions
  imports XM_Prelude
begin

text \<open>
  The agent permission policy: \<open>agent_definition_records.hpp\<close> (rules and their validation)
  and \<open>agent_permissions.hpp\<close> (the resource glob with its memo table, the normaliser, the
  last-match rule and the directory-enumeration checks), and the policy check of the read tool
  host (\<open>agent_read_tool_host.cpp\<close>). A pattern or resource is a byte string.
\<close>

section \<open>Rules and their validation\<close>

record permission_rule =
  action :: bytes
  resource :: bytes
  effect :: bytes

datatype policy_error = Rules_exceed_limits | Invalid_rule | Allowlist_exceeds_limits
  | Invalid_tool_binding | Invalid_placement

definition word_chars :: bytes where
  "word_chars = ''abcdefghijklmnopqrstuvwxyzABCDEFGHIJKLMNOPQRSTUVWXYZ0123456789_.-''"

definition dotdot_component :: "bytes \<Rightarrow> bool" where
  "dotdot_component r = list_ex (\<lambda>p. p = ''..'') (split_on CHR ''/'' r)"

definition invalid_rule :: "permission_rule \<Rightarrow> bool" where
  "invalid_rule r \<longleftrightarrow>
     action r = [] \<or> length (action r) > 128 \<or>
     (action r \<noteq> ''*'' \<and> list_ex (\<lambda>c. c \<notin> set (word_chars @ ''*'')) (action r)) \<or>
     resource r = [] \<or> length (resource r) > 1024 \<or> CHR 0x00 \<in> set (resource r) \<or>
     CHR '':'' \<in> set (resource r) \<or> CHR 0x5C \<in> set (resource r) \<or>
     hd (resource r) = CHR ''/'' \<or> dotdot_component (resource r) \<or>
     (effect r \<noteq> ''deny'' \<and> effect r \<noteq> ''allow'' \<and> effect r \<noteq> ''ask'')"

definition validate_agent_permission_rules :: "permission_rule list \<Rightarrow> policy_error + unit" where
  "validate_agent_permission_rules rules =
     (if length rules > 128 then Inl Rules_exceed_limits
      else if list_ex invalid_rule rules then Inl Invalid_rule else Inr ())"

fun allowlist_loop :: "bytes set \<Rightarrow> bytes list \<Rightarrow> policy_error + unit" where
  "allowlist_loop unique [] = Inr ()"
| "allowlist_loop unique (tool # tools) =
     (if tool = [] \<or> length tool > 128 \<or> list_ex (\<lambda>c. c \<notin> set word_chars) tool \<or> tool \<in> unique
      then Inl Invalid_tool_binding else allowlist_loop (insert tool unique) tools)"

definition validate_agent_tool_allowlist :: "bytes list option \<Rightarrow> policy_error + unit" where
  "validate_agent_tool_allowlist tools =
     (case tools of None \<Rightarrow> Inr ()
      | Some ts \<Rightarrow> if length ts > 64 then Inl Allowlist_exceeds_limits else allowlist_loop {} ts)"

record agent_definition =
  agent_id :: bytes
  agent_revision :: int
  agent_model_id :: bytes
  agent_instructions :: bytes
  agent_tools :: "bytes list option"
  agent_permissions :: "permission_rule list"
  agent_name :: bytes
  agent_description :: bytes
  agent_mode :: bytes
  agent_hidden :: bool
  agent_is_default :: bool
  agent_placement :: bytes

definition validate_agent_placement :: "agent_definition \<Rightarrow> policy_error + unit" where
  "validate_agent_placement a =
     (if (agent_placement a \<noteq> [] \<and> agent_placement a \<noteq> ''thread'' \<and> agent_placement a \<noteq> ''process'')
         \<or> (agent_placement a = ''process'' \<and> agent_mode a \<noteq> ''primary'')
      then Inl Invalid_placement else Inr ())"

lemma allowlist_loop_ok:
  "allowlist_loop unique tools = Inr () \<longleftrightarrow>
     distinct tools \<and> set tools \<inter> unique = {} \<and>
     (\<forall>t \<in> set tools. t \<noteq> [] \<and> length t \<le> 128 \<and> set t \<subseteq> set word_chars)"
  by (induction tools arbitrary: unique) (auto simp: list_ex_iff)

section \<open>The resource glob\<close>

text \<open>
  \<open>agent_permission_glob\<close>: the recursion over pattern offset \<open>p\<close> and value offset \<open>v\<close>
  with its table \<open>memo\<close> of \<open>int8_t\<close> entries, one per pair of offsets, \<open>-1\<close> for unknown.
\<close>

definition or_try ::
    "bool \<Rightarrow> (int list \<Rightarrow> bool \<times> int list) \<Rightarrow> bool \<times> int list \<Rightarrow> bool \<times> int list" where
  \<comment> \<open>\<open>if(!result && guard) result = self(...)\<close>, the table threaded through\<close>
  "or_try guard self rm = (if \<not> fst rm \<and> guard then self (snd rm) else rm)"

lemma or_try_cong [fundef_cong]:
  "guard = guard' \<Longrightarrow> rm = rm' \<Longrightarrow> (\<And>m. guard' \<Longrightarrow> self m = self' m) \<Longrightarrow>
   or_try guard self rm = or_try guard' self' rm'"
  by (simp add: or_try_def)

definition or_else :: "(int list \<Rightarrow> bool \<times> int list) \<Rightarrow> bool \<times> int list \<Rightarrow> bool \<times> int list" where
  \<comment> \<open>\<open>if(!result) result = self(...)\<close>\<close>
  "or_else self rm = (if \<not> fst rm then self (snd rm) else rm)"

lemma or_else_cong [fundef_cong]:
  "rm = rm' \<Longrightarrow> (\<And>m. self m = self' m) \<Longrightarrow> or_else self rm = or_else self' rm'"
  by (simp add: or_else_def)

function glob_at :: "bytes \<Rightarrow> bytes \<Rightarrow> nat \<Rightarrow> nat \<Rightarrow> int list \<Rightarrow> bool \<times> int list" where
  "glob_at pat val p v memo =
     (let width = length val + 1; slot = p * width + v; cached = memo ! slot in
      if cached \<noteq> -1 then (cached \<noteq> 0, memo)
      else
        let computed =
          (if p \<ge> length pat then (v = length val, memo)
           else if pat ! p = CHR ''*'' then
             let doublestar = (p + 1 < length pat \<and> pat ! (p + 1) = CHR ''*'');
                 after = p + (if doublestar then 2 else 1)
             in or_else (\<lambda>m. glob_at pat val after v m)
                  (or_try (doublestar \<and> v < length val \<and> val ! v = CHR ''/'')
                    (\<lambda>m. glob_at pat val p (v + 1) m)
                    (or_try (v < length val \<and> (doublestar \<or> val ! v \<noteq> CHR ''/''))
                      (\<lambda>m. glob_at pat val p (v + 1) m)
                      (or_try (doublestar \<and> after < length pat \<and> pat ! after = CHR ''/'')
                        (\<lambda>m. glob_at pat val (after + 1) v m) (False, memo))))
           else or_try (v < length val \<and>
                   (if pat ! p = CHR ''?'' then val ! v \<noteq> CHR ''/'' else pat ! p = val ! v))
                 (\<lambda>m. glob_at pat val (p + 1) (v + 1) m) (False, memo))
        in (fst computed, (snd computed)[slot := (if fst computed then 1 else 0)]))"
  by pat_completeness auto
termination
  by (relation "measure (\<lambda>(pat, val, p, v, memo). (length pat - p) + (length val - v))")
    (auto split: if_splits)

declare glob_at.simps [simp del]

definition agent_permission_glob :: "bytes \<Rightarrow> bytes \<Rightarrow> bool" where
  "agent_permission_glob pattern subject =
     (if length subject > 8192 then pattern = ''*'' \<or> pattern = ''**''
      else fst (glob_at pattern subject 0 0
                  (replicate ((length pattern + 1) * (length subject + 1)) (-1))))"

subsection \<open>What a pattern means\<close>

text \<open>
  The declarative reading, free of offsets and tables: a star is any run without a slash, a
  double star any run at all, and a slash right after a double star adds nothing, because the
  run may swallow it.
\<close>

datatype gtok = GLit char | GAny | GStar | GDeep

fun gtokens :: "bytes \<Rightarrow> gtok list" where
  "gtokens [] = []"
| "gtokens (c # cs) =
     (if c = CHR ''*'' then
        (case cs of
           d # ds \<Rightarrow>
             if d = CHR ''*'' then
               (case ds of e # es \<Rightarrow> GDeep # gtokens (if e = CHR ''/'' then es else e # es)
                         | [] \<Rightarrow> [GDeep])
             else GStar # gtokens (d # ds)
         | [] \<Rightarrow> [GStar])
      else (if c = CHR ''?'' then GAny else GLit c) # gtokens cs)"

fun gmatch :: "gtok list \<Rightarrow> bytes \<Rightarrow> bool" where
  "gmatch [] s = (s = [])"
| "gmatch (GLit c # ts) s = (case s of [] \<Rightarrow> False | x # xs \<Rightarrow> x = c \<and> gmatch ts xs)"
| "gmatch (GAny # ts) s = (case s of [] \<Rightarrow> False | x # xs \<Rightarrow> x \<noteq> CHR ''/'' \<and> gmatch ts xs)"
| "gmatch (GStar # ts) s =
     (\<exists>k \<in> {..length s}. CHR ''/'' \<notin> set (take k s) \<and> gmatch ts (drop k s))"
| "gmatch (GDeep # ts) s = (\<exists>k \<in> {..length s}. gmatch ts (drop k s))"

lemma bex_atMost_shift:
  "(\<exists>k \<in> {..Suc n}. P k) \<longleftrightarrow> P 0 \<or> (\<exists>k \<in> {..n}. P (Suc k))"
  by (metis atMost_iff le0 Suc_le_mono not0_implies_Suc)

lemma gmatch_star_Nil [simp]: "gmatch (GStar # ts) [] = gmatch ts []"
  by simp

lemma gmatch_star_Cons [simp]:
  "gmatch (GStar # ts) (x # xs) \<longleftrightarrow>
     gmatch ts (x # xs) \<or> (x \<noteq> CHR ''/'' \<and> gmatch (GStar # ts) xs)"
  by (auto simp: bex_atMost_shift)

lemma gmatch_deep_Nil [simp]: "gmatch (GDeep # ts) [] = gmatch ts []"
  by simp

lemma gmatch_deep_Cons [simp]:
  "gmatch (GDeep # ts) (x # xs) \<longleftrightarrow> gmatch ts (x # xs) \<or> gmatch (GDeep # ts) xs"
  by (auto simp: bex_atMost_shift)

declare gmatch.simps(4,5) [simp del]

lemma gmatch_literal: "gmatch (map GLit p @ ts) s \<longleftrightarrow> (\<exists>r. s = p @ r \<and> gmatch ts r)"
  by (induction p arbitrary: s) (auto split: list.splits)

lemma gmatch_deepI: "gmatch ts s \<Longrightarrow> gmatch (GDeep # ts) s"
  by (cases s) auto

lemma gmatch_deep_slash: "gmatch (GLit c # ts) s \<Longrightarrow> gmatch (GDeep # ts) s"
  by (cases s) (auto intro: gmatch_deepI)

subsection \<open>The table is sound\<close>

definition glob_spec :: "bytes \<Rightarrow> bytes \<Rightarrow> nat \<Rightarrow> nat \<Rightarrow> bool" where
  "glob_spec pat val p v \<longleftrightarrow> gmatch (gtokens (drop p pat)) (drop v val)"

definition glob_slot :: "bytes \<Rightarrow> nat \<Rightarrow> nat \<Rightarrow> nat" where
  "glob_slot val p v = p * (length val + 1) + v"

definition glob_slots :: "bytes \<Rightarrow> bytes \<Rightarrow> nat" where
  "glob_slots pat val = (length pat + 1) * (length val + 1)"

definition memo_ok :: "bytes \<Rightarrow> bytes \<Rightarrow> int list \<Rightarrow> bool" where
  "memo_ok pat val memo \<longleftrightarrow>
     length memo = glob_slots pat val \<and>
     (\<forall>p \<le> length pat. \<forall>v \<le> length val.
        memo ! glob_slot val p v \<noteq> -1 \<longrightarrow>
        (memo ! glob_slot val p v \<noteq> 0) = glob_spec pat val p v)"

lemma glob_slot_less:
  assumes "p \<le> length pat" and "v \<le> length val"
  shows "glob_slot val p v < glob_slots pat val"
proof -
  have "glob_slot val p v < (p + 1) * (length val + 1)" using assms by (simp add: glob_slot_def)
  also have "\<dots> \<le> glob_slots pat val"
    unfolding glob_slots_def using assms by (intro mult_right_mono) auto
  finally show ?thesis .
qed

lemma glob_slot_eq:
  assumes "v \<le> length val" and "v' \<le> length val"
  shows "glob_slot val p v = glob_slot val p' v' \<longleftrightarrow> p = p' \<and> v = v'"
proof -
  have quotient: "(u + q * (length val + 1)) div (length val + 1) = q" if "u \<le> length val" for u q
    using that by (subst div_mult_self1) auto
  show ?thesis
    using quotient [OF assms(1), of p] quotient [OF assms(2), of p']
    by (auto simp: glob_slot_def add.commute)
qed

lemma memo_ok_update:
  assumes ok: "memo_ok pat val memo" and "p \<le> length pat" and "v \<le> length val"
    and r: "r = glob_spec pat val p v"
  shows "memo_ok pat val (memo[glob_slot val p v := (if r then 1 else 0)])"
  using assms glob_slot_less [OF assms(2,3)]
  by (simp add: memo_ok_def nth_list_update glob_slot_eq)

lemma memo_ok_initial: "memo_ok pat val (replicate (glob_slots pat val) (-1))"
  by (simp add: memo_ok_def glob_slot_less)

subsection \<open>The recursion computes the meaning\<close>

lemma drop_nth: "i < length xs \<Longrightarrow> drop i xs = xs ! i # drop (Suc i) xs"
  by (simp add: Cons_nth_drop_Suc)

lemma glob_spec_end: "v \<le> length val \<Longrightarrow> glob_spec pat val (length pat) v \<longleftrightarrow> v = length val"
  by (auto simp: glob_spec_def)

lemma glob_spec_plain:
  assumes "p < length pat" and "pat ! p \<noteq> CHR ''*''" and "v \<le> length val"
  shows "glob_spec pat val p v \<longleftrightarrow>
     v < length val \<and> (if pat ! p = CHR ''?'' then val ! v \<noteq> CHR ''/'' else pat ! p = val ! v)
     \<and> glob_spec pat val (p + 1) (v + 1)"
  using assms drop_nth [OF assms(1)] drop_nth [of v val]
  by (cases "v < length val") (auto simp: glob_spec_def)

lemma glob_spec_star:
  assumes "p < length pat" and "pat ! p = CHR ''*''"
    and "\<not> (p + 1 < length pat \<and> pat ! (p + 1) = CHR ''*'')" and "v \<le> length val"
  shows "glob_spec pat val p v \<longleftrightarrow>
     (v < length val \<and> val ! v \<noteq> CHR ''/'' \<and> glob_spec pat val p (v + 1)) \<or>
     glob_spec pat val (p + 1) v"
proof -
  have "gtokens (drop p pat) = GStar # gtokens (drop (p + 1) pat)"
    using assms(1-3) drop_nth [OF assms(1)] drop_nth [of "p + 1" pat]
    by (cases "p + 1 < length pat") auto
  then show ?thesis
    using assms(4) drop_nth [of v val] by (cases "v < length val") (auto simp: glob_spec_def)
qed

lemma glob_spec_deep:
  assumes "p + 1 < length pat" and "pat ! p = CHR ''*''" and "pat ! (p + 1) = CHR ''*''"
    and "v \<le> length val"
  defines "slash \<equiv> p + 2 < length pat \<and> pat ! (p + 2) = CHR ''/''"
  shows "glob_spec pat val p v \<longleftrightarrow>
     (slash \<and> glob_spec pat val (p + 3) v) \<or>
     (v < length val \<and> glob_spec pat val p (v + 1)) \<or> glob_spec pat val (p + 2) v"
proof -
  have head: "drop p pat = CHR ''*'' # CHR ''*'' # drop (p + 2) pat"
    using assms(1-3) drop_nth [of p pat] drop_nth [of "p + 1" pat] by simp
  show ?thesis
  proof (cases slash)
    case True
    then have tail: "drop (p + 2) pat = CHR ''/'' # drop (p + 3) pat"
      using drop_nth [of "p + 2" pat] by (simp add: slash_def eval_nat_numeral)
    show ?thesis
      using True assms(4) drop_nth [of v val] head tail
      by (cases "v < length val") (auto simp: glob_spec_def intro: gmatch_deepI)
  next
    case False
    then have "gtokens (drop p pat) = GDeep # gtokens (drop (p + 2) pat)"
      using head drop_nth [of "p + 2" pat] by (cases "p + 2 < length pat") (auto simp: slash_def)
    then show ?thesis
      using False assms(4) drop_nth [of v val]
      by (cases "v < length val") (auto simp: glob_spec_def)
  qed
qed

definition computes :: "bytes \<Rightarrow> bytes \<Rightarrow> bool \<Rightarrow> bool \<times> int list \<Rightarrow> bool" where
  "computes pat val r rm \<longleftrightarrow> fst rm = r \<and> memo_ok pat val (snd rm)"

lemma computes_start: "memo_ok pat val m \<Longrightarrow> computes pat val r (r, m)"
  by (simp add: computes_def)

lemma computes_or_try:
  assumes "computes pat val r rm"
    and "\<And>m. guard \<Longrightarrow> memo_ok pat val m \<Longrightarrow> computes pat val q (self m)"
  shows "computes pat val (r \<or> guard \<and> q) (or_try guard self rm)"
  using assms by (auto simp: or_try_def computes_def)

lemma computes_or_else:
  assumes "computes pat val r rm" and "\<And>m. memo_ok pat val m \<Longrightarrow> computes pat val q (self m)"
  shows "computes pat val (r \<or> q) (or_else self rm)"
  using assms by (auto simp: or_else_def computes_def)

lemma glob_at_correct:
  "memo_ok pat val memo \<Longrightarrow> p \<le> length pat \<Longrightarrow> v \<le> length val \<Longrightarrow>
   computes pat val (glob_spec pat val p v) (glob_at pat val p v memo)"
proof (induction "(length pat - p) + (length val - v)" arbitrary: p v memo rule: less_induct)
  case less
  note ok = less.prems(1) and p = less.prems(2) and v = less.prems(3)
  have call: "computes pat val (glob_spec pat val p' v') (glob_at pat val p' v' m)"
    if "memo_ok pat val m" "p' \<le> length pat" "v' \<le> length val"
      "(length pat - p') + (length val - v') < (length pat - p) + (length val - v)" for p' v' m
    using less.hyps that by blast
  have slot: "p * (length val + 1) + v = glob_slot val p v" by (simp add: glob_slot_def)
  show ?case
  proof (cases "memo ! glob_slot val p v = -1")
    case False
    then have "glob_at pat val p v memo = (memo ! glob_slot val p v \<noteq> 0, memo)"
      by (simp add: glob_at.simps [of pat val p v memo] Let_def slot [simplified])
    then show ?thesis using False ok p v by (simp add: memo_ok_def computes_def)
  next
    case True
    consider (last) "p = length pat" | (plain) "p < length pat" "pat ! p \<noteq> CHR ''*''"
      | (star) "p < length pat" "pat ! p = CHR ''*''"
          "\<not> (p + 1 < length pat \<and> pat ! (p + 1) = CHR ''*'')"
      | (deep) "p + 1 < length pat" "pat ! p = CHR ''*''" "pat ! (p + 1) = CHR ''*''"
      using p by fastforce
    then obtain computed where
      unfold: "glob_at pat val p v memo =
        (fst computed, (snd computed)[glob_slot val p v := (if fst computed then 1 else 0)])"
      and correct: "computes pat val (glob_spec pat val p v) computed"
    proof cases
      case last
      then have "length pat \<le> p" by simp
      then have "glob_at pat val p v memo =
          (v = length val, memo[glob_slot val p v := (if v = length val then 1 else 0)])"
        using True by (subst glob_at.simps) (simp add: Let_def slot [simplified])
      then show ?thesis
        using that [of "(v = length val, memo)"] last ok v glob_spec_end
        by (simp add: computes_start)
    next
      case plain
      let ?guard = "v < length val \<and>
        (if pat ! p = CHR ''?'' then val ! v \<noteq> CHR ''/'' else pat ! p = val ! v)"
      let ?c = "or_try ?guard (\<lambda>m. glob_at pat val (p + 1) (v + 1) m) (False, memo)"
      have "computes pat val (False \<or> ?guard \<and> glob_spec pat val (p + 1) (v + 1)) ?c"
        by (intro computes_or_try computes_start) (use ok plain call in auto)
      then show ?thesis
        using that [of ?c] True plain v glob_spec_plain [OF plain v]
        by (simp add: glob_at.simps [of pat val p v memo] Let_def slot [simplified])
    next
      case star
      let ?c = "or_else (\<lambda>m. glob_at pat val (p + 1) v m)
        (or_try False (\<lambda>m. glob_at pat val p (v + 1) m)
          (or_try (v < length val \<and> val ! v \<noteq> CHR ''/'') (\<lambda>m. glob_at pat val p (v + 1) m)
            (or_try False (\<lambda>m. glob_at pat val (p + 2) v m) (False, memo))))"
      have "computes pat val ((((False \<or> False \<and> True) \<or>
          (v < length val \<and> val ! v \<noteq> CHR ''/'') \<and> glob_spec pat val p (v + 1)) \<or>
          False \<and> True) \<or> glob_spec pat val (p + 1) v) ?c"
        by (intro computes_or_try computes_or_else computes_start) (use ok star call v in auto)
      then show ?thesis
        using that [of ?c] True star v glob_spec_star [OF star v]
        by (auto simp: glob_at.simps [of pat val p v memo] Let_def slot [simplified])
    next
      case deep
      let ?slash = "p + 2 < length pat \<and> pat ! (p + 2) = CHR ''/''"
      let ?c = "or_else (\<lambda>m. glob_at pat val (p + 2) v m)
        (or_try (v < length val \<and> val ! v = CHR ''/'') (\<lambda>m. glob_at pat val p (v + 1) m)
          (or_try (v < length val) (\<lambda>m. glob_at pat val p (v + 1) m)
            (or_try ?slash (\<lambda>m. glob_at pat val (p + 3) v m) (False, memo))))"
      let ?r = "(((False \<or> ?slash \<and> glob_spec pat val (p + 3) v) \<or>
          v < length val \<and> glob_spec pat val p (v + 1)) \<or>
          (v < length val \<and> val ! v = CHR ''/'') \<and> glob_spec pat val p (v + 1)) \<or>
          glob_spec pat val (p + 2) v"
      have "computes pat val ?r ?c"
        by (intro computes_or_try computes_or_else computes_start) (use ok deep call v in auto)
      moreover have "?r = glob_spec pat val p v" using glob_spec_deep [OF deep v] by blast
      ultimately have "computes pat val (glob_spec pat val p v) ?c" by (simp only:)
      moreover have three: "Suc (Suc (Suc p)) = p + 3" by simp
      have "glob_at pat val p v memo =
          (fst ?c, (snd ?c)[glob_slot val p v := (if fst ?c then 1 else 0)])"
        using True deep
        by (simp add: glob_at.simps [of pat val p v memo] Let_def slot [simplified] three)
      ultimately show ?thesis using that by blast
    qed
    then show ?thesis using memo_ok_update [OF _ p v] by (simp add: unfold computes_def)
  qed
qed

lemma agent_permission_glob_meaning_iff:
  "agent_permission_glob pattern subject \<longleftrightarrow>
     (if length subject > 8192 then pattern = ''*'' \<or> pattern = ''**''
      else gmatch (gtokens pattern) subject)"
  using glob_at_correct [OF memo_ok_initial, of 0 pattern 0 subject]
  by (simp add: agent_permission_glob_def computes_def glob_spec_def glob_slots_def)

lemma glob_meaning:
  "length subject \<le> 8192 \<Longrightarrow>
   agent_permission_glob pattern subject = gmatch (gtokens pattern) subject"
  by (simp add: agent_permission_glob_meaning_iff)

text \<open>
  C1. The memoised recursion of \<open>agent_permission_glob\<close> decides exactly the declarative
  meaning of the pattern for every value of at most 8192 bytes; a longer value is matched by
  the two universal patterns only. In particular a slash after a double star is optional.
\<close>
theorem agent_permission_glob_meaning:
  "agent_permission_glob pattern subject \<longleftrightarrow>
     (if length subject > 8192 then pattern = ''*'' \<or> pattern = ''**''
      else gmatch (gtokens pattern) subject)"
  by (rule agent_permission_glob_meaning_iff)

section \<open>Normalised resources\<close>

definition normalize_step :: "bytes list \<Rightarrow> bytes \<Rightarrow> bytes list" where
  "normalize_step parts part =
     (if part = [] \<or> part = ''.'' then parts
      else if part = ''..'' then (if parts \<noteq> [] then butlast parts else parts @ [''..''])
      else parts @ [part])"

definition agent_permission_normalize_resource :: "bytes \<Rightarrow> bytes" where
  "agent_permission_normalize_resource input =
     (let parts = foldl normalize_step [] (split_on CHR ''/'' input);
          result = foldl (\<lambda>r part. (if r \<noteq> [] then r @ ''/'' else r) @ part) [] parts
      in if result = [] then ''.'' else result)"

text \<open>What the loop keeps on its stack: real names, below at most one leading double dot.\<close>

definition plain_name :: "bytes \<Rightarrow> bool" where
  "plain_name p \<longleftrightarrow> p \<noteq> [] \<and> p \<noteq> ''.'' \<and> p \<noteq> ''..'' \<and> CHR ''/'' \<notin> set p"

definition normal_parts :: "bytes list \<Rightarrow> bool" where
  "normal_parts ps \<longleftrightarrow>
     list_all plain_name (if ps \<noteq> [] \<and> hd ps = ''..'' then tl ps else ps)"

lemma plain_nameD:
  "plain_name p \<Longrightarrow> p \<noteq> []" "plain_name p \<Longrightarrow> p \<noteq> ''.''" "plain_name p \<Longrightarrow> p \<noteq> ''..''"
  "plain_name p \<Longrightarrow> CHR ''/'' \<notin> set p"
  by (simp_all add: plain_name_def)

lemma normal_parts_Nil [simp]: "normal_parts []"
  by (simp add: normal_parts_def)

lemma normal_parts_snoc:
  assumes "normal_parts ps"
  shows "plain_name p \<Longrightarrow> normal_parts (ps @ [p])"
  using assms by (cases ps) (auto simp: normal_parts_def dest: plain_nameD split: if_splits)

lemma normal_parts_butlast: "normal_parts ps \<Longrightarrow> normal_parts (butlast ps)"
  by (cases ps) (auto simp: normal_parts_def list_all_iff dest: in_set_butlastD split: if_splits)

lemma normal_parts_step:
  assumes "normal_parts ps" and "CHR ''/'' \<notin> set part"
  shows "normal_parts (normalize_step ps part)"
proof -
  consider (skip) "part = [] \<or> part = ''.''" | (up) "part = ''..''" | (name) "plain_name part"
    using assms(2) unfolding plain_name_def by blast
  then show ?thesis
  proof cases
    case skip
    then show ?thesis using assms(1) by (simp add: normalize_step_def)
  next
    case up
    have "normal_parts [''..'']" by (simp add: normal_parts_def)
    then show ?thesis
      using up normal_parts_butlast [OF assms(1)] by (simp add: normalize_step_def)
  next
    case name
    then show ?thesis
      using plain_nameD [OF name] normal_parts_snoc [OF assms(1) name]
      by (simp add: normalize_step_def)
  qed
qed

lemma normal_parts_fold:
  "normal_parts ps \<Longrightarrow> \<forall>p \<in> set parts. CHR ''/'' \<notin> set p \<Longrightarrow>
   normal_parts (foldl normalize_step ps parts)"
  by (induction parts arbitrary: ps) (simp_all add: normal_parts_step)

lemma normalize_step_plain: "plain_name p \<Longrightarrow> normalize_step ps p = ps @ [p]"
  using plain_nameD [of p] by (simp add: normalize_step_def)

lemma normalize_plain: "list_all plain_name qs \<Longrightarrow> foldl normalize_step ps qs = ps @ qs"
  by (induction qs arbitrary: ps) (simp_all add: normalize_step_plain)

lemma normalize_normal: "normal_parts ps \<Longrightarrow> foldl normalize_step [] ps = ps"
proof (cases "ps \<noteq> [] \<and> hd ps = ''..''")
  case True
  then obtain qs where ps: "ps = ''..'' # qs" by (cases ps) auto
  moreover assume "normal_parts ps"
  ultimately have "list_all plain_name qs" by (simp add: normal_parts_def)
  then show ?thesis by (simp add: ps normalize_step_def normalize_plain)
next
  case False
  moreover assume "normal_parts ps"
  ultimately have "list_all plain_name ps" by (simp only: normal_parts_def if_False)
  then show ?thesis by (simp add: normalize_plain)
qed

lemma normal_parts_pieces:
  assumes "normal_parts ps" and "p \<in> set ps"
  shows "p \<noteq> [] \<and> CHR ''/'' \<notin> set p"
proof -
  have "p = ''..'' \<or> plain_name p"
    using assms by (cases ps) (auto simp: normal_parts_def list_all_iff split: if_splits)
  then show ?thesis using plain_nameD(1,4) by auto
qed

lemma join_loop:
  assumes "r \<noteq> []"
  shows "foldl (\<lambda>r part. (if r \<noteq> [] then r @ ''/'' else r) @ part) r parts =
    (if parts = [] then r else r @ CHR ''/'' # join_with CHR ''/'' parts)"
  using assms by (induction parts arbitrary: r) (auto simp: join_with_Cons)

lemma join_loop_start:
  assumes "normal_parts ps"
  shows "foldl (\<lambda>r part. (if r \<noteq> [] then r @ ''/'' else r) @ part) [] ps = join_with CHR ''/'' ps"
proof (cases ps)
  case (Cons p qs)
  then have "p \<noteq> []" using normal_parts_pieces [OF assms, of p] by simp
  then show ?thesis using Cons by (simp add: join_loop join_with_Cons)
qed simp

lemma join_normal_nonempty:
  assumes "normal_parts ps" and "ps \<noteq> []"
  shows "join_with CHR ''/'' ps \<noteq> []"
proof (cases ps)
  case (Cons p qs)
  then have "p \<noteq> []" using normal_parts_pieces [OF assms(1), of p] by simp
  then show ?thesis using Cons by (cases qs) auto
qed (use assms in simp)

lemma normalized_parts: "normal_parts (foldl normalize_step [] (split_on CHR ''/'' input))"
  by (rule normal_parts_fold) (auto simp: normal_parts_def dest: split_on_pieces)

lemma normalize_cases:
  obtains (dot) "agent_permission_normalize_resource input = ''.''"
  | (parts) ps where "normal_parts ps" "ps \<noteq> []"
      "agent_permission_normalize_resource input = join_with CHR ''/'' ps"
proof -
  let ?ps = "foldl normalize_step [] (split_on CHR ''/'' input)"
  have "agent_permission_normalize_resource input =
      (if ?ps = [] then ''.'' else join_with CHR ''/'' ?ps)"
    using normalized_parts [of input] join_normal_nonempty [of ?ps]
    by (auto simp: agent_permission_normalize_resource_def join_loop_start Let_def)
  then show thesis
    using that normalized_parts [of input] by (cases "?ps = []") auto
qed

lemma normalize_join:
  assumes "normal_parts ps" and "ps \<noteq> []"
  shows "agent_permission_normalize_resource (join_with CHR ''/'' ps) = join_with CHR ''/'' ps"
proof -
  have "split_on CHR ''/'' (join_with CHR ''/'' ps) = ps"
    using assms normal_parts_pieces by (intro split_join) auto
  then show ?thesis
    using assms join_normal_nonempty [OF assms]
    by (simp add: agent_permission_normalize_resource_def normalize_normal join_loop_start Let_def)
qed

lemma normalize_idempotent:
  "agent_permission_normalize_resource (agent_permission_normalize_resource r) =
   agent_permission_normalize_resource r"
  by (cases r rule: normalize_cases)
    (auto simp: normalize_join, simp add: agent_permission_normalize_resource_def normalize_step_def)

lemma last_join:
  "ps \<noteq> [] \<Longrightarrow> last ps \<noteq> [] \<Longrightarrow>
   join_with c ps \<noteq> [] \<and> last (join_with c ps) = last (last ps)"
proof (induction ps)
  case (Cons p ps)
  then show ?case by (cases "ps = []") (simp_all add: join_with_Cons)
qed simp

lemma normalized_last:
  "agent_permission_normalize_resource r \<noteq> [] \<and>
   last (agent_permission_normalize_resource r) \<noteq> CHR ''/''"
proof (cases r rule: normalize_cases)
  case (parts ps)
  have "last ps \<noteq> []" "CHR ''/'' \<notin> set (last ps)"
    using parts normal_parts_pieces [OF parts(1), of "last ps"] by auto
  then show ?thesis
    using parts join_normal_nonempty [OF parts(1,2)] last_join [of ps "CHR ''/''"]
    by (metis last_in_set)
qed simp

section \<open>The effect of an ordered rule list\<close>

datatype permission_effect = No_match | Allow | Ask | Deny

definition rule_applies :: "permission_rule \<Rightarrow> bytes \<Rightarrow> bytes \<Rightarrow> bool" where
  "rule_applies rule act normalized \<longleftrightarrow>
     (action rule = ''*'' \<or> action rule = act) \<and>
     agent_permission_glob (resource rule) normalized"

definition rule_effect :: "permission_rule \<Rightarrow> permission_effect" where
  "rule_effect rule =
     (if effect rule = ''allow'' then Allow else if effect rule = ''ask'' then Ask else Deny)"

fun effect_loop :: "permission_rule list \<Rightarrow> bytes \<Rightarrow> bytes \<Rightarrow> permission_effect" where
  "effect_loop [] act normalized = No_match"
| "effect_loop (rule # rules) act normalized =
     (if rule_applies rule act normalized then rule_effect rule
      else effect_loop rules act normalized)"

definition agent_permission_effect ::
    "permission_rule list \<Rightarrow> bytes \<Rightarrow> bytes \<Rightarrow> permission_effect" where
  "agent_permission_effect rules act res =
     effect_loop (rev rules) act (agent_permission_normalize_resource res)"

definition agent_permission_denies :: "permission_rule list \<Rightarrow> bytes \<Rightarrow> bytes \<Rightarrow> bool" where
  "agent_permission_denies rules act res \<longleftrightarrow> agent_permission_effect rules act res = Deny"

lemma effect_loop_append:
  "effect_loop (rs @ qs) act n =
     (if list_ex (\<lambda>r. rule_applies r act n) rs then effect_loop rs act n
      else effect_loop qs act n)"
  by (induction rs) auto



section \<open>Enumerating a directory\<close>

definition wildcard_free_prefix :: "bytes \<Rightarrow> bytes" where
  "wildcard_free_prefix r = takeWhile (\<lambda>c. c \<notin> {CHR ''*'', CHR ''?''}) r"

definition strip_slashes :: "bytes \<Rightarrow> bytes" where
  "strip_slashes s = rev (dropWhile (\<lambda>c. c = CHR ''/'') (rev s))"

definition agent_permission_may_cover_directory ::
    "permission_rule \<Rightarrow> bytes \<Rightarrow> bytes \<Rightarrow> bool" where
  "agent_permission_may_cover_directory rule act directory =
     (if action rule \<noteq> ''*'' \<and> action rule \<noteq> act then False
      else
        let pre = strip_slashes (wildcard_free_prefix (resource rule)) in
        if pre = [] then True
        else
          let normalized = agent_permission_normalize_resource directory in
          if normalized = ''.'' then True
          else pre = normalized \<or> starts_with pre (normalized @ ''/'') \<or>
               starts_with normalized (pre @ ''/'') \<or>
               agent_permission_glob (resource rule) normalized)"

definition agent_permission_denies_directory_enumeration ::
    "permission_rule list \<Rightarrow> bytes \<Rightarrow> bytes \<Rightarrow> bool" where
  "agent_permission_denies_directory_enumeration rules act directory =
     list_ex (\<lambda>rule. effect rule = ''deny'' \<and>
       agent_permission_may_cover_directory rule act directory) rules"

definition agent_permission_asks_directory_enumeration ::
    "permission_rule list \<Rightarrow> bytes \<Rightarrow> bytes \<Rightarrow> bool" where
  "agent_permission_asks_directory_enumeration rules act directory =
     list_ex (\<lambda>rule. effect rule = ''ask'' \<and>
       agent_permission_may_cover_directory rule act directory) rules"

text \<open>
  A resource lies below a directory, and a rule is \<open>component_aligned\<close> when its first wildcard
  starts a path component.
\<close>

definition lies_below :: "bytes \<Rightarrow> bytes \<Rightarrow> bool" where
  "lies_below directory res \<longleftrightarrow>
     agent_permission_normalize_resource directory = ''.'' \<or>
     starts_with res (agent_permission_normalize_resource directory @ ''/'')"

definition component_aligned :: "bytes \<Rightarrow> bool" where
  "component_aligned r \<longleftrightarrow>
     wildcard_free_prefix r = r \<or> wildcard_free_prefix r = [] \<or>
     last (wildcard_free_prefix r) = CHR ''/''"

lemma gtokens_literal:
  "\<forall>c \<in> set p. c \<notin> {CHR ''*'', CHR ''?''} \<Longrightarrow> gtokens (p @ w) = map GLit p @ gtokens w"
  by (induction p) auto

lemma wildcard_free_prefix_split:
  obtains w where "r = wildcard_free_prefix r @ w"
    and "\<forall>c \<in> set (wildcard_free_prefix r). c \<notin> {CHR ''*'', CHR ''?''}"
proof
  show "r = wildcard_free_prefix r @ dropWhile (\<lambda>c. c \<notin> {CHR ''*'', CHR ''?''}) r"
    unfolding wildcard_free_prefix_def by (rule takeWhile_dropWhile_id [symmetric])
  show "\<forall>c \<in> set (wildcard_free_prefix r). c \<notin> {CHR ''*'', CHR ''?''}"
    unfolding wildcard_free_prefix_def by (blast dest: set_takeWhileD)
qed

lemma glob_has_literal_prefix:
  assumes "agent_permission_glob r res"
  shows "starts_with res (wildcard_free_prefix r)"
    and "wildcard_free_prefix r = r \<Longrightarrow> res = r"
proof -
  obtain w where r: "r = wildcard_free_prefix r @ w"
    and plain: "\<forall>c \<in> set (wildcard_free_prefix r). c \<notin> {CHR ''*'', CHR ''?''}"
    by (rule wildcard_free_prefix_split)
  consider (long) "length res > 8192" "r = ''*'' \<or> r = ''**''"
    | (short) "gmatch (gtokens r) res"
    using assms by (auto simp: agent_permission_glob_meaning_iff split: if_splits)
  then have "starts_with res (wildcard_free_prefix r) \<and>
      (wildcard_free_prefix r = r \<longrightarrow> res = r)"
  proof cases
    case long
    have "wildcard_free_prefix r = [] \<and> r \<noteq> []"
      using long(2) by (auto simp: wildcard_free_prefix_def)
    then show ?thesis by auto
  next
    case short
    then have "gmatch (map GLit (wildcard_free_prefix r) @ gtokens w) res"
      using gtokens_literal [OF plain, of w] r by simp
    then obtain q where "res = wildcard_free_prefix r @ q" "gmatch (gtokens w) q"
      by (auto simp: gmatch_literal)
    then show ?thesis using r by (cases w) auto
  qed
  then show "starts_with res (wildcard_free_prefix r)"
    and "wildcard_free_prefix r = r \<Longrightarrow> res = r" by blast+
qed

lemma strip_slashes_split:
  obtains k where "s = strip_slashes s @ replicate k CHR ''/''"
    and "strip_slashes s = [] \<or> last (strip_slashes s) \<noteq> CHR ''/''"
proof
  let ?t = "takeWhile (\<lambda>c. c = CHR ''/'') (rev s)"
  have "?t = replicate (length ?t) CHR ''/''"
    by (rule replicate_eqI) (auto dest: set_takeWhileD)
  then have "rev ?t = replicate (length ?t) CHR ''/''" by (metis rev_replicate)
  then show "s = strip_slashes s @ replicate (length ?t) CHR ''/''"
    unfolding strip_slashes_def
    by (metis rev_append rev_rev_ident takeWhile_dropWhile_id)
  show "strip_slashes s = [] \<or> last (strip_slashes s) \<noteq> CHR ''/''"
    unfolding strip_slashes_def using hd_dropWhile [of "\<lambda>c. c = CHR ''/''" "rev s"]
    by (metis last_rev rev_is_Nil_conv)
qed

lemma prefixes_with_separator:
  assumes "starts_with r (p @ [c])" and "starts_with r (d @ [c])"
  shows "p = d \<or> starts_with p (d @ [c]) \<or> starts_with d (p @ [c])"
  using prefix_same_cases [OF assms] by auto

lemma covered_resource_below:
  assumes glob: "agent_permission_glob r res" and aligned: "component_aligned r"
    and normal: "agent_permission_normalize_resource res = res"
    and below: "starts_with res (d @ ''/'')"
  defines "pre \<equiv> strip_slashes (wildcard_free_prefix r)"
  shows "pre = [] \<or> pre = d \<or> starts_with pre (d @ ''/'') \<or> starts_with d (pre @ ''/'')"
proof -
  let ?lit = "wildcard_free_prefix r"
  have lit: "starts_with res ?lit" by (rule glob_has_literal_prefix(1) [OF glob])
  obtain k where k: "?lit = pre @ replicate k CHR ''/''"
    unfolding pre_def by (rule strip_slashes_split)
  consider (whole) "?lit = r" | (empty) "?lit = []" | (slash) "?lit \<noteq> []" "last ?lit = CHR ''/''"
    using aligned by (auto simp: component_aligned_def)
  then show ?thesis
  proof cases
    case whole
    then have "?lit = res" using glob_has_literal_prefix(2) [OF glob] by simp
    moreover have "last res \<noteq> CHR ''/''" using normalized_last [of res] normal by simp
    ultimately have "k = 0" using k by (cases k rule: nat.exhaust) (auto simp: replicate_append_same [symmetric])
    then have "pre = res" using k \<open>?lit = res\<close> by simp
    then show ?thesis using below by simp
  next
    case empty
    then show ?thesis using k by simp
  next
    case slash
    show ?thesis
    proof (cases k)
      case 0
      then have "pre = ?lit" using k by simp
      moreover have "pre = [] \<or> last pre \<noteq> CHR ''/''"
        unfolding pre_def by (rule strip_slashes_split [of ?lit]) simp
      ultimately show ?thesis using slash by simp
    next
      case (Suc j)
      then have "starts_with ?lit (pre @ ''/'')" using k by simp
      then have "starts_with res (pre @ ''/'')" using lit by (rule prefix_order.trans)
      then show ?thesis 
        using prefixes_with_separator [where p = pre and d = d and c = "CHR ''/''"] below
        by blast
    qed
  qed
qed

text \<open>
  C3. Enumeration is conservative for aligned rules: when a deny rule whose first wildcard starts
  a path component denies some resource below a directory, listing or searching the directory is
  denied as well, so a denied descendant is not exposed through its parent.
\<close>
theorem denied_descendant_denies_enumeration:
  assumes "rule \<in> set rules" and "effect rule = ''deny''"
    and "rule_applies rule act res" and "agent_permission_normalize_resource res = res"
    and "lies_below directory res" and "component_aligned (resource rule)"
  shows "agent_permission_denies_directory_enumeration rules act directory"
proof -
  have glob: "agent_permission_glob (resource rule) res"
    and act: "action rule = ''*'' \<or> action rule = act"
    using assms(3) by (simp_all add: rule_applies_def)
  have "agent_permission_may_cover_directory rule act directory"
    using act assms(5) covered_resource_below [OF glob assms(6,4)]
    by (auto simp: agent_permission_may_cover_directory_def lies_below_def Let_def)
  then show ?thesis
    using assms(1,2) by (auto simp: agent_permission_denies_directory_enumeration_def list_ex_iff)
qed

theorem denied_descendant_denies_enumeration_witness:
  "agent_permission_denies_directory_enumeration
     [\<lparr>action = ''*'', resource = ''src/*.key'', effect = ''deny''\<rparr>] ''search_files'' ''./src''"
proof -
  let ?rule = "\<lparr>action = ''*'', resource = ''src/*.key'', effect = ''deny''\<rparr>"
  have norm: "agent_permission_normalize_resource ''src/a.key'' = ''src/a.key''"
      "agent_permission_normalize_resource ''./src'' = ''src''" by code_simp+
  have "rule_applies ?rule ''search_files'' ''src/a.key''"
    by (simp add: rule_applies_def glob_meaning)
  then show ?thesis
    by (rule denied_descendant_denies_enumeration [rotated 2])
      (simp_all add: norm lies_below_def component_aligned_def wildcard_free_prefix_def)
qed


section \<open>The policy check of the read tool host\<close>

text \<open>
  \<open>agent_read_tool_host.cpp\<close>: the resource a read call names, then every inherited layer and the
  agent's own rules in turn; a denial by any layer stops the call, and \<open>asks\<close> accumulates.
\<close>

fun drop_dot_slash :: "bytes \<Rightarrow> bytes" where
  "drop_dot_slash (a # b # r) = (if a = CHR ''.'' \<and> b = CHR ''/'' then drop_dot_slash r else a # b # r)"
| "drop_dot_slash r = r"

definition read_resource :: "bytes \<Rightarrow> bytes option \<Rightarrow> bytes" where
  "read_resource tool path =
     (let r = (case path of None \<Rightarrow> ''*''
         | Some p \<Rightarrow>
             let q = drop_dot_slash (map (\<lambda>c. if c = CHR 0x5C then CHR ''/'' else c) p)
             in if q = [] then ''.'' else q)
      in if r = ''*'' \<and> tool \<in> {''search_files'', ''find_files'', ''glob_files''} then ''.'' else r)"

definition read_enumerates :: "bytes \<Rightarrow> bool" where
  "read_enumerates tool \<longleftrightarrow> tool \<noteq> ''read_file'' \<and> tool \<noteq> ''language_server''"

datatype read_error = Agent_permission_denied

definition check_layer :: "bytes \<Rightarrow> bytes \<Rightarrow> bool \<Rightarrow> permission_rule list \<Rightarrow> read_error + bool" where
  "check_layer tool res asks rules =
     (if agent_permission_denies rules tool res \<or>
         (read_enumerates tool \<and> agent_permission_denies_directory_enumeration rules tool res)
      then Inl Agent_permission_denied
      else Inr (asks \<or> agent_permission_effect rules tool res = Ask \<or>
        (read_enumerates tool \<and> agent_permission_asks_directory_enumeration rules tool res)))"

definition read_policy ::
    "permission_rule list list \<Rightarrow> permission_rule list \<Rightarrow> bytes \<Rightarrow> bytes option \<Rightarrow> read_error + bool"
  where
  "read_policy inherited own tool path =
     foldE (check_layer tool (read_resource tool path)) False (inherited @ [own])"

definition layer_denies :: "bytes \<Rightarrow> bytes \<Rightarrow> permission_rule list \<Rightarrow> bool" where
  "layer_denies tool res rules \<longleftrightarrow> check_layer tool res False rules = Inl Agent_permission_denied"

definition layer_asks :: "bytes \<Rightarrow> bytes \<Rightarrow> permission_rule list \<Rightarrow> bool" where
  "layer_asks tool res rules \<longleftrightarrow> check_layer tool res False rules = Inr True"

lemma check_layers:
  "foldE (check_layer tool res) asks layers =
     (if list_ex (layer_denies tool res) layers then Inl Agent_permission_denied
      else Inr (asks \<or> list_ex (layer_asks tool res) layers))"
  by (induction layers arbitrary: asks)
    (auto simp: layer_denies_def layer_asks_def check_layer_def)


end
