(* ===== verification/Slot_Pools.thy ===== *)
theory Slot_Pools
  imports XM_Prelude
begin

text \<open>
  The contract of a bounded set of interchangeable slots: an acquisition succeeds exactly when a
  slot is free, a release returns one, and the capacity never changes. The lease counter and the
  execution slots of \<open>RootAdmissionPool\<close> and the leaf slots of \<open>RootExecutionBudget\<close> satisfy
  it; what every client may rely on is proved here once.
\<close>

datatype slot_op = Acquire | Release

locale slot_pool =
  fixes capacity_of :: "'p \<Rightarrow> nat"
    and used_of :: "'p \<Rightarrow> nat"
    and acquire :: "'p \<Rightarrow> bool \<times> 'p"
    and release :: "'p \<Rightarrow> 'p"
  assumes acquire_granted: "fst (acquire p) \<longleftrightarrow> used_of p < capacity_of p"
    and acquire_used: "used_of (snd (acquire p)) = used_of p + (if fst (acquire p) then 1 else 0)"
    and acquire_capacity: "capacity_of (snd (acquire p)) = capacity_of p"
    and release_used: "0 < used_of p \<Longrightarrow> used_of (release p) = used_of p - 1"
    and release_capacity: "capacity_of (release p) = capacity_of p"
begin

lemma acquire_bounded: "used_of p \<le> capacity_of p \<Longrightarrow> used_of (snd (acquire p)) \<le> capacity_of p"
  using acquire_granted [of p] acquire_used [of p] by auto

lemma release_bounded:
  "0 < used_of p \<Longrightarrow> used_of p \<le> capacity_of p \<Longrightarrow> used_of (release p) \<le> capacity_of p"
  using release_used [of p] by auto

text \<open>
  Clients holding \<open>held\<close> slots run any sequence of acquisitions and of releases of slots they
  hold; a release without a held slot does not occur.
\<close>

fun run :: "slot_op list \<Rightarrow> nat \<Rightarrow> 'p \<Rightarrow> nat \<times> 'p" where
  "run [] held p = (held, p)"
| "run (Acquire # ops) held p =
     (let (ok, q) = acquire p in run ops (if ok then held + 1 else held) q)"
| "run (Release # ops) held p =
     (if held = 0 then run ops held p else run ops (held - 1) (release p))"

lemma run_accounts:
  assumes "used_of p = held" and "held \<le> capacity_of p" and "run ops held p = (held', p')"
  shows "used_of p' = held' \<and> held' \<le> capacity_of p' \<and> capacity_of p' = capacity_of p"
  using assms
proof (induction ops held p rule: run.induct)
  case (2 ops held p)
  obtain ok q where q: "acquire p = (ok, q)" by (cases "acquire p") auto
  have "used_of q = (if ok then held + 1 else held)" "capacity_of q = capacity_of p"
    using 2(2) acquire_used [of p] acquire_capacity [of p] q by auto
  moreover have "used_of q \<le> capacity_of q"
    using 2(2,3) acquire_bounded [of p] q calculation(2) by simp
  ultimately show ?case using 2(1) [of "(ok, q)" ok q] 2(4) q by auto
next
  case (3 ops held p)
  show ?case
  proof (cases "held = 0")
    case True
    then show ?thesis using 3 by simp
  next
    case False
    then have "held - 1 \<le> capacity_of (release p)"
      using 3(4) release_capacity [of p] by simp
    then show ?thesis
      using False 3 release_used [of p] release_capacity [of p] by simp
  qed
qed simp

lemma refused_only_when_full:
  "used_of p \<le> capacity_of p \<Longrightarrow> \<not> fst (acquire p) \<longleftrightarrow> used_of p = capacity_of p"
  using acquire_granted [of p] by auto

end

end
