(* ===== verification/Root_Pool.thy ===== *)
theory Root_Pool
  imports Slot_Pools
begin

text \<open>
  \<open>root_admission_pool.hpp\<close>: the shared bounded pool of top-level roots. A \<open>Lease\<close> is a durable
  root reservation, a \<open>DispatchTicket\<close> a place in the FIFO queue, an \<open>Execution\<close> a running slot.
  Every operation is a function on the mutex-protected \<open>State\<close>; the sections of an operation
  between which the mutex is released (an allocation, the wait of \<open>acquire_execution\<close>) are
  separate functions. \<open>pool_world\<close> adds the objects that callers hold, and \<open>pool_step\<close> lets any
  number of threads interleave.
\<close>

section \<open>The state and its operations\<close>

record root_pool =
  capacity :: nat
  occupied :: nat
  execution_capacity :: nat
  running :: nat
  blocked :: nat
  waiting :: "nat list"

datatype pool_error = Invalid_capacity | Foreign_ticket | Already_consumed

definition root_pool_new :: "nat \<Rightarrow> nat \<Rightarrow> pool_error + root_pool" where
  "root_pool_new cap exec =
     (let slots = (if exec \<noteq> 0 then exec else cap) in
      if cap = 0 \<or> slots > cap then Inl Invalid_capacity
      else Inr \<lparr>capacity = cap, occupied = 0, execution_capacity = slots, running = 0,
                blocked = 0, waiting = []\<rparr>)"

definition try_reserve :: "root_pool \<Rightarrow> bool \<times> root_pool" where
  "try_reserve p =
     (if occupied p \<ge> capacity p then (False, p) else (True, p\<lparr>occupied := occupied p + 1\<rparr>))"

definition reserve_abort :: "root_pool \<Rightarrow> root_pool" where
  "reserve_abort p = p\<lparr>occupied := occupied p - 1\<rparr>"

definition lease_release :: "root_pool \<Rightarrow> root_pool" where
  "lease_release p = (if occupied p > 0 then p\<lparr>occupied := occupied p - 1\<rparr> else p)"

definition queue_execution :: "nat \<Rightarrow> root_pool \<Rightarrow> root_pool" where
  "queue_execution ticket p = p\<lparr>waiting := waiting p @ [ticket]\<rparr>"

definition remove_ticket :: "nat \<Rightarrow> root_pool \<Rightarrow> root_pool" where
  "remove_ticket ticket p = p\<lparr>waiting := remove1 ticket (waiting p)\<rparr>"

datatype acquire_entry = Returned_empty | Waits

definition acquire_enter ::
    "nat \<Rightarrow> bool \<Rightarrow> bool \<Rightarrow> bool \<Rightarrow> root_pool \<Rightarrow> pool_error + acquire_entry \<times> root_pool" where
  "acquire_enter ticket own consumed cancel p =
     (if \<not> own then Inl Foreign_ticket
      else if consumed then Inl Already_consumed
      else if cancel then Inr (Returned_empty, remove_ticket ticket p)
      else Inr (Waits, p\<lparr>blocked := blocked p + 1\<rparr>))"

definition dispatch_ready :: "nat \<Rightarrow> root_pool \<Rightarrow> bool" where
  "dispatch_ready ticket p \<longleftrightarrow>
     waiting p \<noteq> [] \<and> hd (waiting p) = ticket \<and> running p < execution_capacity p"

definition acquire_wake :: "nat \<Rightarrow> bool \<Rightarrow> root_pool \<Rightarrow> bool \<times> root_pool" where
  "acquire_wake ticket cancel p =
     (let p = p\<lparr>blocked := blocked p - 1\<rparr> in
      if cancel then (False, remove_ticket ticket p)
      else (True, p\<lparr>waiting := tl (waiting p), running := running p + 1\<rparr>))"

definition execution_release :: "root_pool \<Rightarrow> root_pool" where
  "execution_release p = p\<lparr>running := running p - 1\<rparr>"

interpretation lease_slots: slot_pool capacity occupied try_reserve lease_release
  by unfold_locales (auto simp: try_reserve_def lease_release_def)

section \<open>Threads and the objects they hold\<close>

datatype ticket_phase = Queued | Blocked_in_acquire | Consumed

record pool_world =
  pool :: root_pool
  reserving :: nat
  leases :: nat
  executions :: nat
  tickets :: "nat \<rightharpoonup> ticket_phase"
  fresh :: nat

definition world_of :: "root_pool \<Rightarrow> pool_world" where
  "world_of p = \<lparr>pool = p, reserving = 0, leases = 0, executions = 0, tickets = Map.empty, fresh = 0\<rparr>"

inductive pool_step :: "pool_world \<Rightarrow> pool_world \<Rightarrow> bool" where
  reserve: "try_reserve (pool w) = (True, p) \<Longrightarrow>
    pool_step w (w\<lparr>pool := p, reserving := reserving w + 1\<rparr>)"
| refused: "try_reserve (pool w) = (False, p) \<Longrightarrow> pool_step w (w\<lparr>pool := p\<rparr>)"
| leased: "reserving w > 0 \<Longrightarrow>
    pool_step w (w\<lparr>reserving := reserving w - 1, leases := leases w + 1\<rparr>)"
| lease_failed: "reserving w > 0 \<Longrightarrow>
    pool_step w (w\<lparr>pool := reserve_abort (pool w), reserving := reserving w - 1\<rparr>)"
| lease_destroyed: "leases w > 0 \<Longrightarrow>
    pool_step w (w\<lparr>pool := lease_release (pool w), leases := leases w - 1\<rparr>)"
| queued: "pool_step w (w\<lparr>pool := queue_execution (fresh w) (pool w),
      tickets := (tickets w)(fresh w \<mapsto> Queued), fresh := fresh w + 1\<rparr>)"
| ticket_destroyed: "tickets w t = Some ph \<Longrightarrow> ph \<noteq> Blocked_in_acquire \<Longrightarrow>
    pool_step w (w\<lparr>pool := remove_ticket t (pool w), tickets := (tickets w)(t := None)\<rparr>)"
| enters: "tickets w t = Some ph \<Longrightarrow> ph \<noteq> Blocked_in_acquire \<Longrightarrow>
    acquire_enter t True (ph = Consumed) cancel (pool w) = Inr (entry, p) \<Longrightarrow>
    pool_step w (w\<lparr>pool := p, tickets := (tickets w)(t \<mapsto>
      (if entry = Waits then Blocked_in_acquire else Consumed))\<rparr>)"
| granted: "tickets w t = Some Blocked_in_acquire \<Longrightarrow> dispatch_ready t (pool w) \<Longrightarrow>
    acquire_wake t False (pool w) = (True, p) \<Longrightarrow>
    pool_step w (w\<lparr>pool := p, executions := executions w + 1,
      tickets := (tickets w)(t \<mapsto> Consumed)\<rparr>)"
| cancelled: "tickets w t = Some Blocked_in_acquire \<Longrightarrow>
    acquire_wake t True (pool w) = (False, p) \<Longrightarrow>
    pool_step w (w\<lparr>pool := p, tickets := (tickets w)(t \<mapsto> Consumed)\<rparr>)"
| execution_destroyed: "executions w > 0 \<Longrightarrow>
    pool_step w (w\<lparr>pool := execution_release (pool w), executions := executions w - 1\<rparr>)"

definition pool_start :: "pool_world \<Rightarrow> bool" where
  "pool_start w \<longleftrightarrow> (\<exists>cap exec p. root_pool_new cap exec = Inr p \<and> w = world_of p)"

text \<open>
  The queue holds exactly the tickets not yet consumed, in the order they were queued, and
  \<open>blocked\<close> counts those whose owner waits.
\<close>

definition tickets_ok :: "nat list \<Rightarrow> (nat \<rightharpoonup> ticket_phase) \<Rightarrow> nat \<Rightarrow> nat \<Rightarrow> bool" where
  "tickets_ok ts m nx b \<longleftrightarrow>
     sorted_wrt (<) ts \<and>
     (\<forall>t. t \<in> set ts \<longleftrightarrow> m t = Some Queued \<or> m t = Some Blocked_in_acquire) \<and>
     (\<forall>t. m t \<noteq> None \<longrightarrow> t < nx) \<and>
     b = card {t. m t = Some Blocked_in_acquire}"

definition counters_ok :: "pool_world \<Rightarrow> bool" where
  "counters_ok w \<longleftrightarrow>
     0 < execution_capacity (pool w) \<and> execution_capacity (pool w) \<le> capacity (pool w) \<and>
     occupied (pool w) = leases w + reserving w \<and> occupied (pool w) \<le> capacity (pool w) \<and>
     running (pool w) = executions w \<and> running (pool w) \<le> execution_capacity (pool w)"

definition pool_inv :: "pool_world \<Rightarrow> bool" where
  "pool_inv w \<longleftrightarrow> counters_ok w \<and>
     tickets_ok (waiting (pool w)) (tickets w) (fresh w) (blocked (pool w))"

lemmas pool_defs = try_reserve_def reserve_abort_def lease_release_def queue_execution_def
  remove_ticket_def acquire_enter_def dispatch_ready_def acquire_wake_def execution_release_def

lemma sorted_remove1: "sorted_wrt (<) (ts :: nat list) \<Longrightarrow> sorted_wrt (<) (remove1 t ts)"
  by (simp add: strict_sorted_iff sorted_remove1)

lemma set_remove1_sorted: "sorted_wrt (<) (ts :: nat list) \<Longrightarrow> set (remove1 t ts) = set ts - {t}"
  by (simp add: strict_sorted_iff)

lemma card_leave_blocked:
  assumes "m t = Some Blocked_in_acquire" and "v \<noteq> Some Blocked_in_acquire"
  shows "card {u. (m(t := v)) u = Some Blocked_in_acquire} =
    card {u. m u = Some Blocked_in_acquire} - 1"
proof -
  have "{u. (m(t := v)) u = Some Blocked_in_acquire} = {u. m u = Some Blocked_in_acquire} - {t}"
    using assms(2) by auto
  then show ?thesis using assms(1) by (simp add: card_Diff_singleton)
qed

lemma card_stay_unblocked:
  assumes "m t \<noteq> Some Blocked_in_acquire" and "v \<noteq> Some Blocked_in_acquire"
  shows "{u. (m(t := v)) u = Some Blocked_in_acquire} = {u. m u = Some Blocked_in_acquire}"
  using assms by auto

lemma card_block:
  fixes m :: "nat \<rightharpoonup> ticket_phase" and nx :: nat
  assumes "\<forall>t. m t \<noteq> None \<longrightarrow> t < nx" and "m t \<noteq> Some Blocked_in_acquire"
  shows "card {u. (m(t \<mapsto> Blocked_in_acquire)) u = Some Blocked_in_acquire} =
    card {u. m u = Some Blocked_in_acquire} + 1"
proof -
  have "finite {u. m u = Some Blocked_in_acquire}"
    by (rule finite_subset [of _ "{..< nx}"]) (use assms(1) in auto)
  moreover have "{u. (m(t \<mapsto> Blocked_in_acquire)) u = Some Blocked_in_acquire} =
      insert t {u. m u = Some Blocked_in_acquire}" by auto
  ultimately show ?thesis using assms(2) by simp
qed

lemma tickets_queue:
  assumes "tickets_ok ts m nx b"
  shows "tickets_ok (ts @ [nx]) (m(nx \<mapsto> Queued)) (Suc nx) b"
proof -
  have new: "m nx = None" using assms unfolding tickets_ok_def by blast
  have "\<forall>t \<in> set ts. t < nx" using assms unfolding tickets_ok_def by blast
  moreover have "{u. (m(nx \<mapsto> Queued)) u = Some Blocked_in_acquire} =
      {u. m u = Some Blocked_in_acquire}"
    using new by (intro card_stay_unblocked) auto
  ultimately show ?thesis
    using assms unfolding tickets_ok_def by (auto simp: sorted_wrt_append less_Suc_eq)
qed

lemma tickets_leave:
  assumes ok: "tickets_ok ts m nx b" and "m t = Some ph" and "ph \<noteq> Blocked_in_acquire"
    and "v = None \<or> v = Some Consumed"
  shows "tickets_ok (remove1 t ts) (m(t := v)) nx b"
proof -
  have "{u. (m(t := v)) u = Some Blocked_in_acquire} = {u. m u = Some Blocked_in_acquire}"
    using assms by (intro card_stay_unblocked) auto
  then show ?thesis
    using assms unfolding tickets_ok_def by (auto simp: sorted_remove1 set_remove1_sorted)
qed

lemma tickets_block:
  assumes "tickets_ok ts m nx b" and "m t = Some Queued"
  shows "tickets_ok ts (m(t \<mapsto> Blocked_in_acquire)) nx (b + 1)"
  using assms card_block [of m nx t] unfolding tickets_ok_def by auto

lemma tickets_unblock:
  assumes "tickets_ok ts m nx b" and "m t = Some Blocked_in_acquire"
  shows "tickets_ok (remove1 t ts) (m(t \<mapsto> Consumed)) nx (b - 1)"
  using assms card_leave_blocked [of m t "Some Consumed"] unfolding tickets_ok_def
  by (auto simp: sorted_remove1 set_remove1_sorted)

lemma tickets_grant:
  assumes "tickets_ok ts m nx b" and "m t = Some Blocked_in_acquire" and "ts \<noteq> []" and "hd ts = t"
  shows "tickets_ok (tl ts) (m(t \<mapsto> Consumed)) nx (b - 1)"
proof -
  have "tl ts = remove1 t ts" using assms(3,4) by (cases ts) auto
  then show ?thesis using tickets_unblock [OF assms(1,2)] by simp
qed

lemma pool_step_inv: "pool_inv w \<Longrightarrow> pool_step w w' \<Longrightarrow> pool_inv w'"
proof (erule pool_step.cases, goal_cases)
  case (6 w)
  then show ?case
    by (auto simp: pool_inv_def counters_ok_def pool_defs tickets_queue)
next
  case (7 w t ph)
  then show ?case
    by (auto simp: pool_inv_def counters_ok_def pool_defs intro: tickets_leave)
next
  case (8 w t ph cancel entry p)
  then show ?case
    by (cases ph; cases cancel)
      (auto simp: pool_inv_def counters_ok_def pool_defs tickets_block [simplified]
        intro: tickets_leave)
next
  case (9 w t p)
  then show ?case
    by (auto simp: pool_inv_def counters_ok_def pool_defs tickets_grant [simplified] Let_def)
next
  case (10 w t p)
  then show ?case
    by (auto simp: pool_inv_def counters_ok_def pool_defs tickets_unblock [simplified] Let_def)
qed (auto simp: pool_inv_def counters_ok_def pool_defs split: if_splits)

lemma pool_start_inv: "pool_start w \<Longrightarrow> pool_inv w"
  by (auto simp: pool_start_def root_pool_new_def pool_inv_def counters_ok_def world_of_def
      tickets_ok_def Let_def split: if_splits)

interpretation pool_system: invariant_system pool_start pool_step pool_inv
  by unfold_locales (auto intro: pool_start_inv pool_step_inv)

lemma pool_capacity_constant:
  assumes "pool_start w" and "pool_step\<^sup>*\<^sup>* w w'"
  shows "capacity (pool w') = capacity (pool w) \<and>
    execution_capacity (pool w') = execution_capacity (pool w)"
proof (rule pool_system.reachable_keeps [OF assms])
  fix u v
  assume "pool_step u v" "capacity (pool u) = capacity (pool w) \<and>
    execution_capacity (pool u) = execution_capacity (pool w)"
  then show "capacity (pool v) = capacity (pool w) \<and>
      execution_capacity (pool v) = execution_capacity (pool w)"
    by (cases rule: pool_step.cases) (auto simp: pool_defs Let_def split: if_splits)
qed simp

text \<open>A small reachable pool_world: one slot, ticket 0 waiting for it, ticket 1 behind it.\<close>

definition demo_start :: pool_world where
  "demo_start = world_of \<lparr>capacity = 2, occupied = 0, execution_capacity = 1, running = 0,
     blocked = 0, waiting = []\<rparr>"

definition demo_waiting :: pool_world where
  "demo_waiting = \<lparr>pool = \<lparr>capacity = 2, occupied = 0, execution_capacity = 1, running = 0,
      blocked = 1, waiting = [0, 1]\<rparr>, reserving = 0, leases = 0, executions = 0,
     tickets = [0 \<mapsto> Blocked_in_acquire, 1 \<mapsto> Queued], fresh = 2\<rparr>"

lemma demo_start: "pool_start demo_start"
  unfolding pool_start_def demo_start_def
  by (rule exI [of _ 2], rule exI [of _ 1]) (simp add: root_pool_new_def)

lemma demo_reachable: "pool_step\<^sup>*\<^sup>* demo_start demo_waiting"
proof -
  define w1 where "w1 = demo_start\<lparr>pool := queue_execution 0 (pool demo_start),
    tickets := [0 \<mapsto> Queued], fresh := 1\<rparr>"
  define w2 where "w2 = w1\<lparr>pool := queue_execution 1 (pool w1),
    tickets := [0 \<mapsto> Queued, 1 \<mapsto> Queued], fresh := 2\<rparr>"
  have "pool_step demo_start w1"
    using pool_step.queued [of demo_start] by (simp add: w1_def demo_start_def world_of_def)
  moreover have "pool_step w1 w2"
    using pool_step.queued [of w1]
    by (simp add: w1_def w2_def demo_start_def world_of_def numeral_2_eq_2)
  moreover have "pool_step w2 demo_waiting"
    using pool_step.enters [of w2 0 Queued False Waits
        "(pool w2)\<lparr>blocked := 1\<rparr>"]
    by (simp add: w1_def w2_def demo_start_def world_of_def demo_waiting_def acquire_enter_def
        queue_execution_def fun_upd_twist)
  ultimately show ?thesis by (meson rtranclp.rtrancl_into_rtrancl rtranclp.rtrancl_refl)
qed

text \<open>
  C6. Whatever the interleaving of reservations, lease and ticket destructions, waits,
  cancellations and finished executions, the counters equal the objects actually held and neither
  roots nor executions ever exceed the capacities the pool was built with.
\<close>
theorem pool_never_oversubscribed:
  assumes "pool_start w" and "pool_step\<^sup>*\<^sup>* w w'"
  shows "occupied (pool w') = leases w' + reserving w' \<and> occupied (pool w') \<le> capacity (pool w) \<and>
    running (pool w') = executions w' \<and> running (pool w') \<le> execution_capacity (pool w) \<and>
    blocked (pool w') = card {t. tickets w' t = Some Blocked_in_acquire}"
  using pool_system.reachable_inv [OF assms] pool_capacity_constant [OF assms]
  by (simp add: pool_inv_def counters_ok_def tickets_ok_def)

theorem pool_never_oversubscribed_witness:
  "running (pool demo_waiting) = executions demo_waiting \<and>
   blocked (pool demo_waiting) = card {t. tickets demo_waiting t = Some Blocked_in_acquire}"
  using pool_never_oversubscribed [OF demo_start demo_reachable] by simp

text \<open>
  C7. Execution slots are granted in queue order: when a waiting ticket may proceed, every other
  ticket still in the queue was queued after it.
\<close>
theorem grants_in_queue_order:
  assumes "pool_start w" and "pool_step\<^sup>*\<^sup>* w w'" and "dispatch_ready t (pool w')"
    and "tickets w' u = Some Queued \<or> tickets w' u = Some Blocked_in_acquire"
  shows "t \<le> u"
proof -
  have inv: "tickets_ok (waiting (pool w')) (tickets w') (fresh w') (blocked (pool w'))"
    using pool_system.reachable_inv [OF assms(1,2)] by (simp add: pool_inv_def)
  then have "u \<in> set (waiting (pool w'))" using assms(4) by (simp add: tickets_ok_def)
  moreover have "sorted_wrt (<) (waiting (pool w'))" using inv by (simp add: tickets_ok_def)
  ultimately show ?thesis
    using assms(3) by (cases "waiting (pool w')") (auto simp: dispatch_ready_def)
qed

theorem grants_in_queue_order_witness: "(0::nat) \<le> 1 \<and> dispatch_ready 0 (pool demo_waiting)"
proof -
  have ready: "dispatch_ready 0 (pool demo_waiting)"
    by (simp add: dispatch_ready_def demo_waiting_def)
  have "tickets demo_waiting 1 = Some Queued \<or> tickets demo_waiting 1 = Some Blocked_in_acquire"
    by (simp add: demo_waiting_def)
  then show ?thesis using grants_in_queue_order [OF demo_start demo_reachable ready] ready by blast
qed

text \<open>
  No slot is lost: whenever the owner of the first queued ticket waits and a slot is free, its
  grant is enabled, and the grant takes exactly that ticket and one slot.
\<close>
theorem head_waiter_progresses:
  assumes "pool_start w" and "pool_step\<^sup>*\<^sup>* w w'"
    and "waiting (pool w') = t # rest" and "tickets w' t = Some Blocked_in_acquire"
    and "executions w' < execution_capacity (pool w)"
  shows "\<exists>w''. pool_step w' w'' \<and> executions w'' = executions w' + 1 \<and>
    waiting (pool w'') = rest \<and> tickets w'' t = Some Consumed"
proof -
  have "running (pool w') < execution_capacity (pool w')"
    using pool_system.reachable_inv [OF assms(1,2)] pool_capacity_constant [OF assms(1,2)] assms(5)
    by (simp add: pool_inv_def counters_ok_def)
  then have "dispatch_ready t (pool w')" using assms(3) by (simp add: dispatch_ready_def)
  moreover obtain p where p: "acquire_wake t False (pool w') = (True, p)" "waiting p = rest"
    using assms(3) by (auto simp: acquire_wake_def)
  ultimately show ?thesis
    using pool_step.granted [of w' t p] assms(4) by (intro exI conjI) (assumption | simp)+
qed

theorem head_waiter_progresses_witness:
  "\<exists>w''. pool_step demo_waiting w'' \<and> executions w'' = 1 \<and> waiting (pool w'') = [1] \<and>
     tickets w'' 0 = Some Consumed"
  using head_waiter_progresses [OF demo_start demo_reachable, of 0 "[1]"]
  by (simp add: demo_waiting_def demo_start_def world_of_def)

end
