(* ===== verification/Work_Executor.thy ===== *)
theory Work_Executor
  imports XM_Prelude "HOL-Library.Multiset"
begin

text \<open>
  \<open>root_work_executor.hpp\<close>: the physical root workers. A job is staged, committed, taken by a
  worker, retired and finally published through its promise; its ticket may withdraw it, and
  \<open>close\<close> withdraws what was never committed. The mutex-protected sections are functions on
  \<open>executor\<close>, which holds the shared \<open>State\<close> and the heap of \<open>Job\<close> objects; \<open>executor_world\<close> adds the
  worker threads and the tickets their owners hold.
\<close>

section \<open>The shared state and its operations\<close>

datatype phase = Staged | Ready | Running | Retired

datatype outcome = Done | Failed | Withdrawn_before_dispatch | Closed_before_commit

record job =
  phase :: phase
  stop_requested :: bool
  result :: "outcome option"

record executor =
  queue :: "nat list"
  running :: "nat list"
  capacity :: nat
  accepting :: bool
  jobs :: "nat \<rightharpoonup> job"

datatype executor_error = Invalid_worker_capacity | No_action | Executor_closed | Queue_full
  | Closed_or_committed | Cannot_detach_uncommitted | Unknown_job

definition executor_new :: "nat \<Rightarrow> nat \<Rightarrow> executor_error + executor" where
  "executor_new workers cap =
     (if workers < 1 \<or> workers > 16 \<or> cap < 1 \<or> cap > 8192 then Inl Invalid_worker_capacity
      else Inr \<lparr>queue = [], running = [], capacity = cap, accepting = True, jobs = Map.empty\<rparr>)"

definition upd_job :: "nat \<Rightarrow> (job \<Rightarrow> job) \<Rightarrow> executor \<Rightarrow> executor" where
  "upd_job i f s = s\<lparr>jobs := (jobs s)(i := map_option f (jobs s i))\<rparr>"

definition stage :: "bool \<Rightarrow> nat \<Rightarrow> executor \<Rightarrow> executor_error + executor" where
  "stage has_action i s =
     (if \<not> has_action then Inl No_action
      else if \<not> accepting s then Inl Executor_closed
      else if length (queue s) \<ge> capacity s then Inl Queue_full
      else Inr (s\<lparr>queue := queue s @ [i],
        jobs := (jobs s)(i \<mapsto> \<lparr>phase = Staged, stop_requested = False, result = None\<rparr>)\<rparr>))"

definition commit :: "nat \<Rightarrow> executor \<Rightarrow> executor_error + executor" where
  "commit i s =
     (case jobs s i of None \<Rightarrow> Inl Unknown_job
      | Some j \<Rightarrow>
          if \<not> accepting s \<or> phase j \<noteq> Staged then Inl Closed_or_committed
          else Inr (upd_job i (phase_update (\<lambda>_. Ready)) s))"

definition request_stop :: "nat \<Rightarrow> executor \<Rightarrow> executor" where
  "request_stop i = upd_job i (stop_requested_update (\<lambda>_. True))"

definition detach :: "nat \<Rightarrow> executor \<Rightarrow> executor_error + unit" where
  "detach i s =
     (case jobs s i of None \<Rightarrow> Inl Unknown_job
      | Some j \<Rightarrow> if phase j = Staged then Inl Cannot_detach_uncommitted else Inr ())"

text \<open>The locked section of \<open>~Ticket\<close>: withdraw, or report whether the job was dispatched.\<close>

definition ticket_withdraw :: "bool \<Rightarrow> nat \<Rightarrow> executor \<Rightarrow> bool \<times> executor" where
  "ticket_withdraw drain i s =
     (case jobs s i of None \<Rightarrow> (False, s)
      | Some j \<Rightarrow>
          if phase j = Staged \<or> (\<not> drain \<and> phase j = Ready) then
            (False, upd_job i (\<lambda>j. j\<lparr>phase := Retired, result := Some Withdrawn_before_dispatch\<rparr>)
               (s\<lparr>queue := removeAll i (queue s)\<rparr>))
          else (phase j \<noteq> Retired, s))"

definition front_ready :: "executor \<Rightarrow> bool" where
  "front_ready s \<longleftrightarrow>
     (case queue s of [] \<Rightarrow> False
      | i # _ \<Rightarrow> (case jobs s i of None \<Rightarrow> False | Some j \<Rightarrow> phase j = Ready))"

text \<open>The worker's locked sections: its wait condition, taking the front job, retiring it.\<close>

definition worker_wakes :: "executor \<Rightarrow> bool" where
  "worker_wakes s \<longleftrightarrow> front_ready s \<or> (\<not> accepting s \<and> queue s = [])"

definition worker_take :: "executor \<Rightarrow> nat option \<times> executor" where
  "worker_take s =
     (case queue s of [] \<Rightarrow> (None, s)
      | i # rest \<Rightarrow>
          (Some i, upd_job i (phase_update (\<lambda>_. Running))
             (s\<lparr>queue := rest, running := running s @ [i]\<rparr>)))"

definition worker_retire :: "nat \<Rightarrow> executor \<Rightarrow> executor" where
  "worker_retire i s =
     upd_job i (phase_update (\<lambda>_. Retired)) (s\<lparr>running := removeAll i (running s)\<rparr>)"

definition worker_publish :: "nat \<Rightarrow> bool \<Rightarrow> executor \<Rightarrow> executor" where
  "worker_publish i failure =
     upd_job i (result_update (\<lambda>_. Some (if failure then Failed else Done)))"

definition is_staged :: "executor \<Rightarrow> nat \<Rightarrow> bool" where
  "is_staged s i \<longleftrightarrow> (case jobs s i of None \<Rightarrow> False | Some j \<Rightarrow> phase j = Staged)"

text \<open>
  \<open>close\<close>: stop accepting and withdraw every staged job under the lock, then request a stop of
  every job that was queued or running.
\<close>

definition close_withdraw :: "nat \<Rightarrow> executor \<Rightarrow> executor" where
  "close_withdraw i =
     upd_job i (\<lambda>j. j\<lparr>phase := Retired, result := Some Closed_before_commit\<rparr>)"

definition close_lock :: "executor \<Rightarrow> nat list \<times> executor" where
  "close_lock s =
     (let staged = filter (is_staged s) (queue s) in
      (queue s @ running s,
       fold close_withdraw staged
         (s\<lparr>accepting := False, queue := filter (\<lambda>i. \<not> is_staged s i) (queue s)\<rparr>)))"

definition close_stop :: "nat list \<Rightarrow> executor \<Rightarrow> executor" where
  "close_stop stopped = fold request_stop stopped"

section \<open>Workers, tickets and their interleaving\<close>

datatype worker = Idle | Busy nat | Publishing nat bool | Exited

datatype ticket = Held bool | Draining | Dropped bool

text \<open>
  \<open>Held drain\<close> is a live ticket, \<open>Draining\<close> a destructor waiting for the result, \<open>Dropped drained\<close>
  a destroyed one. \<open>started\<close> records the jobs whose action was ever invoked, in that order.
\<close>

record executor_world =
  ex :: executor
  workers :: "worker list"
  tickets :: "nat \<rightharpoonup> ticket"
  stopping :: "nat list"
  fresh :: nat
  started :: "nat list"

inductive work_step :: "executor_world \<Rightarrow> executor_world \<Rightarrow> bool" where
  stages: "stage True (fresh w) (ex w) = Inr s \<Longrightarrow>
    work_step w (w\<lparr>ex := s, tickets := (tickets w)(fresh w \<mapsto> Held True), fresh := fresh w + 1\<rparr>)"
| commits: "tickets w i = Some (Held d) \<Longrightarrow> commit i (ex w) = Inr s \<Longrightarrow> work_step w (w\<lparr>ex := s\<rparr>)"
| stops: "tickets w i = Some (Held d) \<Longrightarrow> work_step w (w\<lparr>ex := request_stop i (ex w)\<rparr>)"
| detaches: "tickets w i = Some (Held d) \<Longrightarrow> detach i (ex w) = Inr () \<Longrightarrow>
    work_step w (w\<lparr>tickets := (tickets w)(i \<mapsto> Held False)\<rparr>)"
| drops: "tickets w i = Some (Held d) \<Longrightarrow>
    ticket_withdraw d i (if d then request_stop i (ex w) else ex w) = (dispatched, s) \<Longrightarrow>
    work_step w (w\<lparr>ex := s, tickets := (tickets w)(i \<mapsto>
      (if dispatched \<and> d then Draining else Dropped d))\<rparr>)"
| drained: "tickets w i = Some Draining \<Longrightarrow> jobs (ex w) i = Some j \<Longrightarrow> result j \<noteq> None \<Longrightarrow>
    work_step w (w\<lparr>tickets := (tickets w)(i \<mapsto> Dropped True)\<rparr>)"
| takes: "n < length (workers w) \<Longrightarrow> workers w ! n = Idle \<Longrightarrow> worker_wakes (ex w) \<Longrightarrow>
    worker_take (ex w) = (Some i, s) \<Longrightarrow>
    work_step w (w\<lparr>ex := s, workers := (workers w)[n := Busy i], started := started w @ [i]\<rparr>)"
| exits: "n < length (workers w) \<Longrightarrow> workers w ! n = Idle \<Longrightarrow> worker_wakes (ex w) \<Longrightarrow>
    worker_take (ex w) = (None, s) \<Longrightarrow> work_step w (w\<lparr>workers := (workers w)[n := Exited]\<rparr>)"
| retires: "n < length (workers w) \<Longrightarrow> workers w ! n = Busy i \<Longrightarrow>
    work_step w (w\<lparr>ex := worker_retire i (ex w),
      workers := (workers w)[n := Publishing i failure]\<rparr>)"
| publishes: "n < length (workers w) \<Longrightarrow> workers w ! n = Publishing i failure \<Longrightarrow>
    work_step w (w\<lparr>ex := worker_publish i failure (ex w), workers := (workers w)[n := Idle]\<rparr>)"
| closes: "close_lock (ex w) = (stopped, s) \<Longrightarrow> work_step w (w\<lparr>ex := s, stopping := stopping w @ stopped\<rparr>)"
| close_stops: "stopping w = i # rest \<Longrightarrow>
    work_step w (w\<lparr>ex := request_stop i (ex w), stopping := rest\<rparr>)"

definition work_start :: "executor_world \<Rightarrow> bool" where
  "work_start w \<longleftrightarrow> (\<exists>n cap s. executor_new n cap = Inr s \<and>
     w = \<lparr>ex = s, workers = replicate n Idle, tickets = Map.empty, stopping = [], fresh = 0,
          started = []\<rparr>)"


section \<open>The invariant\<close>

fun busy :: "worker list \<Rightarrow> nat list" where
  "busy [] = []"
| "busy (Busy i # ws) = i # busy ws"
| "busy (_ # ws) = busy ws"

fun publishing :: "worker list \<Rightarrow> nat list" where
  "publishing [] = []"
| "publishing (Publishing i failure # ws) = i # publishing ws"
| "publishing (_ # ws) = publishing ws"

definition finished :: "outcome option \<Rightarrow> bool" where
  "finished r \<longleftrightarrow> r \<in> {None, Some Done, Some Failed}"

text \<open>What the phase of a job says about the lists, the workers and the promise.\<close>

definition job_ok :: "executor_world \<Rightarrow> nat \<Rightarrow> job \<Rightarrow> bool" where
  "job_ok w i j \<longleftrightarrow>
     (i \<in> set (queue (ex w)) \<longleftrightarrow> phase j = Staged \<or> phase j = Ready) \<and>
     (i \<in> set (busy (workers w)) \<longleftrightarrow> phase j = Running) \<and>
     (i \<in> set (publishing (workers w)) \<longleftrightarrow> phase j = Retired \<and> result j = None) \<and>
     (result j \<noteq> None \<longrightarrow> phase j = Retired) \<and>
     (i \<in> set (started w) \<longleftrightarrow> phase j = Running \<or> (phase j = Retired \<and> finished (result j))) \<and>
     (phase j = Staged \<longrightarrow> accepting (ex w))"

definition ticket_ok :: "job \<Rightarrow> ticket \<Rightarrow> bool" where
  "ticket_ok j t \<longleftrightarrow>
     (case t of Held d \<Rightarrow> True | Draining \<Rightarrow> phase j \<noteq> Staged
      | Dropped drained \<Rightarrow> phase j = Retired \<or> (\<not> drained \<and> phase j = Running))"

definition lists_ok :: "executor_world \<Rightarrow> bool" where
  "lists_ok w \<longleftrightarrow>
     mset (running (ex w)) = mset (busy (workers w)) \<and>
     distinct (busy (workers w) @ publishing (workers w)) \<and>
     sorted_wrt (<) (started w @ queue (ex w)) \<and>
     length (queue (ex w)) \<le> capacity (ex w) \<and>
     (Exited \<in> set (workers w) \<longrightarrow> \<not> accepting (ex w) \<and> queue (ex w) = [])"

definition names_ok :: "executor_world \<Rightarrow> bool" where
  "names_ok w \<longleftrightarrow>
     (\<forall>i. jobs (ex w) i \<noteq> None \<longleftrightarrow> i < fresh w) \<and> (\<forall>i. tickets w i \<noteq> None \<longleftrightarrow> i < fresh w) \<and>
     (\<forall>i \<in> set (queue (ex w)) \<union> set (busy (workers w)) \<union> set (publishing (workers w)) \<union>
        set (started w). i < fresh w)"

definition work_inv :: "executor_world \<Rightarrow> bool" where
  "work_inv w \<longleftrightarrow> names_ok w \<and> lists_ok w \<and>
     (\<forall>i j. jobs (ex w) i = Some j \<longrightarrow> job_ok w i j) \<and>
     (\<forall>i j t. jobs (ex w) i = Some j \<longrightarrow> tickets w i = Some t \<longrightarrow> ticket_ok j t)"

lemma busy_append [simp]: "busy (us @ vs) = busy us @ busy vs"
  by (induction us rule: busy.induct) auto

lemma publishing_append [simp]: "publishing (us @ vs) = publishing us @ publishing vs"
  by (induction us rule: publishing.induct) auto

lemma worker_split:
  assumes "n < length ws" and "ws ! n = x"
  obtains us vs where "ws = us @ x # vs" and "\<And>y. ws[n := y] = us @ y # vs"
proof
  show "ws = take n ws @ x # drop (Suc n) ws"
    using assms id_take_nth_drop by blast
  show "ws[n := y] = take n ws @ y # drop (Suc n) ws" for y
    using assms(1) by (rule upd_conv_take_nth_drop)
qed

lemma upd_job_simps [simp]:
  "queue (upd_job i f s) = queue s" "running (upd_job i f s) = running s"
  "capacity (upd_job i f s) = capacity s" "accepting (upd_job i f s) = accepting s"
  "jobs (upd_job i f s) k = (if k = i then map_option f (jobs s k) else jobs s k)"
  by (simp_all add: upd_job_def)

lemma fold_close_withdraw [simp]:
  "queue (fold close_withdraw is s) = queue s" "running (fold close_withdraw is s) = running s"
  "capacity (fold close_withdraw is s) = capacity s"
  "accepting (fold close_withdraw is s) = accepting s"
  "jobs (fold close_withdraw is s) k =
     (if k \<in> set is then map_option (\<lambda>j. j\<lparr>phase := Retired, result := Some Closed_before_commit\<rparr>)
        (jobs s k) else jobs s k)"
  by (induction "is" arbitrary: s)
    (auto simp: close_withdraw_def option.map_comp comp_def option.map_id0)

lemma sorted_shift: "sorted_wrt (<) (xs @ i # ys) \<Longrightarrow> sorted_wrt (<) ((xs @ [i]) @ ys)"
  by simp

lemma sorted_filter_tail:
  "sorted_wrt (<) (xs @ ys) \<Longrightarrow> sorted_wrt (<) (xs @ filter P (ys :: nat list))"
  by (auto simp: sorted_wrt_append sorted_wrt_filter)

lemma sorted_removeAll_tail:
  "sorted_wrt (<) (xs @ ys) \<Longrightarrow> sorted_wrt (<) (xs @ removeAll i (ys :: nat list))"
  unfolding removeAll_filter_not_eq by (rule sorted_filter_tail)

section \<open>Every step keeps the invariant\<close>

lemma work_invI:
  assumes "names_ok w" and "lists_ok w" and "\<And>i j. jobs (ex w) i = Some j \<Longrightarrow> job_ok w i j"
    and "\<And>i j t. jobs (ex w) i = Some j \<Longrightarrow> tickets w i = Some t \<Longrightarrow> ticket_ok j t"
  shows "work_inv w"
  using assms by (simp add: work_inv_def)

lemma inv_names: "work_inv w \<Longrightarrow> names_ok w" and inv_lists: "work_inv w \<Longrightarrow> lists_ok w"
  and inv_job: "work_inv w \<Longrightarrow> jobs (ex w) i = Some j \<Longrightarrow> job_ok w i j"
  and inv_ticket: "work_inv w \<Longrightarrow> jobs (ex w) i = Some j \<Longrightarrow> tickets w i = Some t \<Longrightarrow> ticket_ok j t"
  by (simp_all add: work_inv_def)

lemma ticket_job:
  assumes "work_inv w" and "tickets w i = Some t"
  obtains j where "jobs (ex w) i = Some j"
  using inv_names [OF assms(1)] assms(2) unfolding names_ok_def by fastforce

lemma named_job: "work_inv w \<Longrightarrow> i < fresh w \<Longrightarrow> \<exists>j. jobs (ex w) i = Some j"
  using inv_names [of w] by (auto simp: names_ok_def)

lemma ticket_simps:
  "ticket_ok j (Held d)" "ticket_ok j Draining \<longleftrightarrow> phase j \<noteq> Staged"
  "ticket_ok j (Dropped d) \<longleftrightarrow> phase j = Retired \<or> (\<not> d \<and> phase j = Running)"
  by (simp_all add: ticket_ok_def)

lemmas job_defs = job_ok_def finished_def

lemma step_stages:
  assumes "work_inv w" and "stage True (fresh w) (ex w) = Inr s"
  shows "work_inv (w\<lparr>ex := s, tickets := (tickets w)(fresh w \<mapsto> Held True), fresh := fresh w + 1\<rparr>)"
proof -
  have new: "fresh w \<notin> set (busy (workers w))" "fresh w \<notin> set (publishing (workers w))"
    "fresh w \<notin> set (started w)" "fresh w \<notin> set (queue (ex w))" and
    old: "\<And>i. i \<in> set (started w) \<union> set (queue (ex w)) \<Longrightarrow> i < fresh w"
    using inv_names [OF assms(1)] by (auto simp: names_ok_def)
  have s: "s = (ex w)\<lparr>queue := queue (ex w) @ [fresh w],
      jobs := (jobs (ex w))(fresh w \<mapsto> \<lparr>phase = Staged, stop_requested = False, result = None\<rparr>)\<rparr>"
    "accepting (ex w)" "length (queue (ex w)) < capacity (ex w)"
    using assms(2) by (auto simp: stage_def split: if_splits)
  show ?thesis
  proof (rule work_invI, goal_cases)
    case 1 show ?case using inv_names [OF assms(1)] s
      by (auto simp: names_ok_def less_Suc_eq)
  next
    case 2 show ?case using inv_lists [OF assms(1)] s old by (auto simp: lists_ok_def sorted_wrt_append)
  next
    case (3 i j) then show ?case using inv_job [OF assms(1), of i j] new s
      by (cases "i = fresh w") (auto simp: job_defs)
  next
    case (4 i j t) then show ?case using inv_ticket [OF assms(1), of i j t] s
      by (cases "i = fresh w") (auto simp: ticket_ok_def)
  qed
qed

lemma step_commits:
  assumes "work_inv w" and "commit i (ex w) = Inr s"
  shows "work_inv (w\<lparr>ex := s\<rparr>)"
proof -
  obtain j where j: "jobs (ex w) i = Some j" "phase j = Staged" "accepting (ex w)"
    "s = upd_job i (phase_update (\<lambda>_. Ready)) (ex w)"
    using assms(2) by (auto simp: commit_def split: option.splits if_splits)
  show ?thesis
  proof (rule work_invI, goal_cases)
    case 1 show ?case using inv_names [OF assms(1)] j by (auto simp: names_ok_def)
  next
    case 2 show ?case using inv_lists [OF assms(1)] j by (auto simp: lists_ok_def)
  next
    case (3 k l) then show ?case using inv_job [OF assms(1) j(1)] inv_job [OF assms(1), of k l] j
      by (cases "k = i") (auto simp: job_defs)
  next
    case (4 k l t) then show ?case using inv_ticket [OF assms(1) j(1), of t] inv_ticket [OF assms(1), of k l t] j
      by (cases "k = i"; cases t) (auto simp: ticket_simps split: ticket.splits)
  qed
qed

lemma step_stops:
  assumes "work_inv w"
  shows "work_inv (w\<lparr>ex := request_stop i (ex w), stopping := st\<rparr>)"
proof (rule work_invI, goal_cases)
    case 1 show ?case using inv_names [OF assms] by (auto simp: names_ok_def request_stop_def)
  next
    case 2 show ?case using inv_lists [OF assms] by (auto simp: lists_ok_def request_stop_def)
  next
    case (3 k l) then obtain j where j: "jobs (ex w) k = Some j" by (auto simp: request_stop_def split: if_splits)
    with 3 show ?case using inv_job [OF assms j]
      by (clarsimp simp: job_defs request_stop_def split: if_splits)
  next
    case (4 k l t) then obtain j where j: "jobs (ex w) k = Some j" by (auto simp: request_stop_def split: if_splits)
    with 4 show ?case using inv_ticket [OF assms j, of t]
      by (cases t) (auto simp: ticket_simps request_stop_def split: ticket.splits if_splits)
qed

lemma step_ticket:
  assumes "work_inv w" and "tickets w i = Some t"
    and "\<And>j. jobs (ex w) i = Some j \<Longrightarrow> ticket_ok j t'"
  shows "work_inv (w\<lparr>tickets := (tickets w)(i \<mapsto> t')\<rparr>)"
proof (rule work_invI, goal_cases)
    case 1 show ?case using inv_names [OF assms(1)] assms(2) by (auto simp: names_ok_def)
  next
    case 2 show ?case using inv_lists [OF assms(1)] by (auto simp: lists_ok_def)
  next
    case (3 k l) then show ?case using inv_job [OF assms(1), of k l] by (auto simp: job_defs)
  next
    case (4 k l t) then show ?case using inv_ticket [OF assms(1), of k l t] assms(3)
      by (auto split: if_splits)
qed

lemma step_withdraw:
  assumes "work_inv w" and "tickets w i = Some (Held d)"
    and "ticket_withdraw d i (ex w) = (dispatched, s)"
  shows "work_inv (w\<lparr>ex := s, tickets := (tickets w)(i \<mapsto>
      (if dispatched \<and> d then Draining else Dropped d))\<rparr>)"
proof -
  obtain j where j: "jobs (ex w) i = Some j"
    using assms(1,2) by (rule ticket_job)
  show ?thesis
  proof (cases "phase j = Staged \<or> (\<not> d \<and> phase j = Ready)")
    case True
    then have s: "\<not> dispatched" "s = upd_job i (\<lambda>j. j\<lparr>phase := Retired, result := Some Withdrawn_before_dispatch\<rparr>)
               ((ex w)\<lparr>queue := removeAll i (queue (ex w))\<rparr>)"
      using assms(3) j by (auto simp: ticket_withdraw_def)
    have i: "i \<notin> set (busy (workers w))" "i \<notin> set (publishing (workers w))" "i \<notin> set (started w)"
      using inv_job [OF assms(1) j] True by (auto simp: job_defs)
    show ?thesis
    proof (rule work_invI, goal_cases)
      case 1 show ?case using inv_names [OF assms(1)] s assms(2) by (auto simp: names_ok_def)
    next
      case 2 show ?case using inv_lists [OF assms(1)] s
        by (auto simp: lists_ok_def intro: sorted_removeAll_tail order.trans [OF length_removeAll_less_eq])
    next
      case (3 k l) then show ?case using inv_job [OF assms(1), of k l] i j s
        by (cases "k = i") (clarsimp simp: job_defs)+
    next
      case (4 k l t) then show ?case using inv_ticket [OF assms(1) j, of t] inv_ticket [OF assms(1), of k l t] j s True
        by (cases "k = i"; cases t) (auto simp: ticket_simps split: ticket.splits)
    qed
  next
    case False
    then have s: "s = ex w" "dispatched = (phase j \<noteq> Retired)"
      using assms(3) j by (auto simp: ticket_withdraw_def)
    show ?thesis
      using step_ticket [OF assms(1,2), of "if dispatched \<and> d then Draining else Dropped d"] s j False
      by (cases "phase j") (auto simp: ticket_ok_def)
  qed
qed

lemma step_takes:
  assumes "work_inv w" and "workers w = us @ Idle # vs" and "worker_wakes (ex w)"
    and "worker_take (ex w) = (Some i, s)"
  shows "work_inv (w\<lparr>ex := s, workers := us @ Busy i # vs, started := started w @ [i]\<rparr>)"
proof -
  obtain rest where q: "queue (ex w) = i # rest" and s: "s = upd_job i (phase_update (\<lambda>_. Running))
             ((ex w)\<lparr>queue := rest, running := running (ex w) @ [i]\<rparr>)"
    using assms(4) by (auto simp: worker_take_def split: list.splits)
  obtain j where j: "jobs (ex w) i = Some j" "phase j = Ready"
    using assms(3) q by (auto simp: worker_wakes_def front_ready_def split: option.splits)
  have i: "i \<notin> set rest" "i \<notin> set (busy (workers w))" "i \<notin> set (publishing (workers w))"
    using inv_lists [OF assms(1)] inv_job [OF assms(1) j(1)] q j 
    by (auto simp: lists_ok_def sorted_wrt_append job_ok_def)
  show ?thesis
  proof (rule work_invI, goal_cases)
    case 1 show ?case using inv_names [OF assms(1)] s q assms(2) by (auto simp: names_ok_def)
  next
    case 2 show ?case using inv_lists [OF assms(1)] s q assms(2) i by (auto simp: lists_ok_def)
  next
    case (3 k l) then show ?case using inv_job [OF assms(1) j(1)] inv_job [OF assms(1), of k l] j s q i assms(2)
      by (cases "k = i") (auto simp: job_defs)
  next
    case (4 k l t) then show ?case using inv_ticket [OF assms(1) j(1), of t] inv_ticket [OF assms(1), of k l t] j s
      by (cases "k = i"; cases t) (auto simp: ticket_simps split: ticket.splits)
  qed
qed

lemma step_exits:
  assumes "work_inv w" and "workers w = us @ Idle # vs" and "worker_wakes (ex w)"
    and "worker_take (ex w) = (None, s)"
  shows "work_inv (w\<lparr>workers := us @ Exited # vs\<rparr>)"
proof -
  have q: "queue (ex w) = []" "\<not> accepting (ex w)"
    using assms(3,4)
    by (auto simp: worker_take_def worker_wakes_def front_ready_def split: list.splits)
  show ?thesis
  proof (rule work_invI, goal_cases)
    case 1 show ?case using inv_names [OF assms(1)] assms(2) by (auto simp: names_ok_def)
  next
    case 2 show ?case using inv_lists [OF assms(1)] q assms(2) by (auto simp: lists_ok_def)
  next
    case (3 k l) then show ?case using inv_job [OF assms(1), of k l] assms(2)
      by (auto simp: job_defs)
  next
    case (4 k l t) then show ?case using inv_ticket [OF assms(1), of k _ t] by auto
  qed
qed

lemma step_retires:
  assumes "work_inv w" and "workers w = us @ Busy i # vs"
  shows "work_inv (w\<lparr>ex := worker_retire i (ex w), workers := us @ Publishing i failure # vs\<rparr>)"
proof -
  have m: "mset (running (ex w)) = mset (busy us @ i # busy vs)"
    and d: "i \<notin> set (busy us)" "i \<notin> set (busy vs)" "i \<notin> set (publishing us @ publishing vs)"
    using inv_lists [OF assms(1)] assms(2) by (auto simp: lists_ok_def)
  have "mset (removeAll i (running (ex w))) = mset (removeAll i (busy us @ i # busy vs))"
    using m by (metis mset_filter removeAll_filter_not_eq)
  then have r: "mset (removeAll i (running (ex w))) = mset (busy us) + mset (busy vs)"
    using d by simp
  have i: "i < fresh w" using inv_names [OF assms(1)] assms(2) by (auto simp: names_ok_def)
  then obtain j where j: "jobs (ex w) i = Some j"
    using assms(1) named_job by blast
  have ph: "phase j = Running" "i \<in> set (started w)" "i \<notin> set (queue (ex w))" "result j = None"
    using inv_job [OF assms(1) j] assms(2) by (auto simp: job_defs)
  show ?thesis
  proof (rule work_invI, goal_cases)
    case 1 show ?case using inv_names [OF assms(1)] assms(2) by (auto simp: names_ok_def worker_retire_def)
  next
    case 2 show ?case using inv_lists [OF assms(1)] r assms(2) 
       by (auto simp: lists_ok_def worker_retire_def)
  next
    case (3 k l) show ?case
    proof (cases "k = i")
      case True
      then show ?thesis using 3 ph j d assms(2)
        by (clarsimp simp: job_defs worker_retire_def)
    next
      case False
      then show ?thesis using 3 inv_job [OF assms(1), of k l] assms(2)
        by (simp add: job_defs worker_retire_def)
    qed
  next
    case (4 k l t) show ?case
    proof (cases "k = i")
      case True
      then show ?thesis using 4 ph j inv_ticket [OF assms(1) j, of t]
        by (cases t) (clarsimp simp: ticket_simps worker_retire_def)+
    next
      case False
      then show ?thesis using 4 inv_ticket [OF assms(1), of k l t] by (simp add: worker_retire_def)
    qed
  qed
qed

lemma step_publishes:
  assumes "work_inv w" and "workers w = us @ Publishing i failure # vs"
  shows "work_inv (w\<lparr>ex := worker_publish i failure (ex w), workers := us @ Idle # vs\<rparr>)"
proof -
  have d: "i \<notin> set (busy us)" "i \<notin> set (busy vs)" "i \<notin> set (publishing us @ publishing vs)"
    using inv_lists [OF assms(1)] assms(2) by (auto simp: lists_ok_def)
  have i: "i < fresh w" using inv_names [OF assms(1)] assms(2) by (auto simp: names_ok_def)
  then obtain j where j: "jobs (ex w) i = Some j"
    using assms(1) named_job by blast
  have ph: "phase j = Retired" "i \<in> set (started w)" "i \<notin> set (queue (ex w))" "result j = None"
    using inv_job [OF assms(1) j] assms(2) by (auto simp: job_defs)
  show ?thesis
  proof (rule work_invI, goal_cases)
    case 1 show ?case using inv_names [OF assms(1)] assms(2) by (auto simp: names_ok_def worker_publish_def)
  next
    case 2 show ?case using inv_lists [OF assms(1)] assms(2) 
       by (auto simp: lists_ok_def worker_publish_def)
  next
    case (3 k l) show ?case
    proof (cases "k = i")
      case True
      then show ?thesis using 3 ph j d assms(2)
        by (cases failure; clarsimp simp: job_defs worker_publish_def)
    next
      case False
      then show ?thesis using 3 inv_job [OF assms(1), of k l] assms(2)
        by (simp add: job_defs worker_publish_def)
    qed
  next
    case (4 k l t) show ?case
    proof (cases "k = i")
      case True
      then show ?thesis using 4 ph j inv_ticket [OF assms(1) j, of t]
        by (cases t) (clarsimp simp: ticket_simps worker_publish_def)+
    next
      case False
      then show ?thesis using 4 inv_ticket [OF assms(1), of k l t] by (simp add: worker_publish_def)
    qed
  qed
qed

lemma step_closes:
  assumes "work_inv w" and "close_lock (ex w) = (stopped, s)"
  shows "work_inv (w\<lparr>ex := s, stopping := st\<rparr>)"
proof -
  have s: "s = fold close_withdraw (filter (is_staged (ex w)) (queue (ex w)))
      ((ex w)\<lparr>accepting := False, queue := filter (\<lambda>i. \<not> is_staged (ex w) i) (queue (ex w))\<rparr>)"
    using assms(2) by (simp add: close_lock_def Let_def)
  show ?thesis
  proof (rule work_invI, goal_cases)
    case 1 show ?case using inv_names [OF assms(1)] s by (auto simp: names_ok_def)
  next
    case 2 show ?case using inv_lists [OF assms(1)] s
       by (auto simp: lists_ok_def intro: sorted_filter_tail order.trans [OF length_filter_le])
  next
    case (3 k l) then obtain j where j: "jobs (ex w) k = Some j" using s by (auto split: if_splits)
    with 3 show ?case using inv_job [OF assms(1) j] s
      by (auto simp: job_defs is_staged_def split: if_splits)
  next
    case (4 k l t) then obtain j where j: "jobs (ex w) k = Some j" using s by (auto split: if_splits)
    with 4 show ?case using inv_ticket [OF assms(1) j, of t] s
      by (cases t) (auto simp: ticket_simps is_staged_def split: ticket.splits if_splits)
  qed
qed

lemma work_step_inv: "work_inv w \<Longrightarrow> work_step w w' \<Longrightarrow> work_inv w'"
proof (erule work_step.cases, goal_cases)
  case (1 w s) then show ?case using step_stages by blast
next
  case (2 w i d s) then show ?case using step_commits by blast
next
  case (3 w i d) then show ?case using step_stops [of w "stopping w" i] by simp
next
  case (4 w i d) then show ?case by (auto intro!: step_ticket simp: ticket_ok_def)
next
  case (5 w i d dispatched s)
  define w1 where "w1 = (if d then w\<lparr>ex := request_stop i (ex w)\<rparr> else w)"
  have "work_inv w1" using 5 step_stops [of w "stopping w" i] by (simp add: w1_def)
  from step_withdraw [OF this, of i d dispatched s] show ?case using 5
    by (simp add: w1_def split: if_splits)
next
  case (6 w i j)
  then show ?case by (auto intro!: step_ticket simp: ticket_ok_def dest: inv_job simp: job_ok_def)
next
  case (7 n w i s)
  from worker_split [OF 7(4,5)] obtain us vs where "workers w = us @ Idle # vs" 
    "\<And>y. (workers w)[n := y] = us @ y # vs" by metis
  then show ?case using 7 step_takes [of w us vs i s] by simp
next
  case (8 n w s)
  from worker_split [OF 8(4,5)] obtain us vs where "workers w = us @ Idle # vs" 
    "\<And>y. (workers w)[n := y] = us @ y # vs" by metis
  then show ?case using 8 step_exits [of w us vs s] by simp
next
  case (9 n w i failure)
  from worker_split [OF 9(4,5)] obtain us vs where "workers w = us @ Busy i # vs" 
    "\<And>y. (workers w)[n := y] = us @ y # vs" by metis
  then show ?case using 9 step_retires [of w us i vs failure] by simp
next
  case (10 n w i failure)
  from worker_split [OF 10(4,5)] obtain us vs where "workers w = us @ Publishing i failure # vs" 
    "\<And>y. (workers w)[n := y] = us @ y # vs" by metis
  then show ?case using 10 step_publishes [of w us i failure vs] by simp
next
  case (11 w stopped s) then show ?case using step_closes by blast
next
  case (12 w i rest) then show ?case using step_stops by blast
qed

lemma busy_replicate [simp]: "busy (replicate n Idle) = []" "publishing (replicate n Idle) = []"
  by (induction n) auto

lemma work_start_inv: "work_start w \<Longrightarrow> work_inv w"
  by (auto simp: work_start_def executor_new_def work_inv_def names_ok_def lists_ok_def
      split: if_splits)

interpretation work_system: invariant_system work_start work_step work_inv
  by unfold_locales (auto intro: work_start_inv work_step_inv)

section \<open>What the executor promises\<close>

lemma work_bounds_constant:
  assumes "work_start w" and "work_step\<^sup>*\<^sup>* w w'"
  shows "capacity (ex w') = capacity (ex w) \<and> length (workers w') = length (workers w)"
proof (rule work_system.reachable_keeps [OF assms])
  fix u v
  assume "work_step u v" "capacity (ex u) = capacity (ex w) \<and>
    length (workers u) = length (workers w)"
  then show "capacity (ex v) = capacity (ex w) \<and> length (workers v) = length (workers w)"
    by (cases rule: work_step.cases)
      (auto simp: stage_def commit_def request_stop_def ticket_withdraw_def worker_take_def
        worker_retire_def worker_publish_def close_lock_def Let_def
        split: if_splits option.splits list.splits)
qed simp

lemma length_busy: "length (busy ws) \<le> length ws"
  by (induction ws rule: busy.induct) auto

lemma outcome_kept:
  assumes "work_inv u" and "work_step u v" and "jobs (ex u) i = Some j" and "result j = Some r"
  shows "\<exists>j'. jobs (ex v) i = Some j' \<and> result j' = Some r"
proof -
  have ph: "phase j = Retired" "i \<notin> set (publishing (workers u))" "i < fresh u"
    "i \<notin> set (queue (ex u))"
    using inv_job [OF assms(1,3)] assms(4) inv_names [OF assms(1)] assms(3)
    by (auto simp: job_ok_def names_ok_def)
  show ?thesis
    using assms(2)
  proof (cases rule: work_step.cases)
    case (publishes n k failure)
    then have "k \<in> set (publishing (workers u))"
      by (metis in_set_conv_decomp publishing.simps(2) publishing_append worker_split)
    then have "k \<noteq> i" using ph by auto
    then show ?thesis using publishes assms(3,4) by (simp add: worker_publish_def)
  next
    case (closes stopped s)
    then show ?thesis using ph assms(3,4) by (auto simp: close_lock_def Let_def)
  qed (use ph assms(3,4) in \<open>auto simp: stage_def commit_def request_stop_def ticket_withdraw_def
        worker_take_def worker_retire_def
        split: if_splits option.splits list.splits\<close>)
qed

lemma publishing_none: "set ws \<subseteq> {Exited} \<Longrightarrow> busy ws = [] \<and> publishing ws = []"
  by (induction ws rule: busy.induct) auto

text \<open>A reachable run: one worker runs job 0, then the executor closes and the worker exits.\<close>

definition demo0 :: executor_world where
  "demo0 = \<lparr>ex = \<lparr>queue = [], running = [], capacity = 1, accepting = True, jobs = Map.empty\<rparr>,
     workers = [Idle], tickets = Map.empty, stopping = [], fresh = 0, started = []\<rparr>"

definition demo_end :: executor_world where
  "demo_end = \<lparr>ex = \<lparr>queue = [], running = [], capacity = 1, accepting = False,
       jobs = [0 \<mapsto> \<lparr>phase = Retired, stop_requested = True, result = Some Done\<rparr>]\<rparr>,
     workers = [Exited], tickets = [0 \<mapsto> Dropped True], stopping = [], fresh = 1, started = [0]\<rparr>"

lemma demo0_starts: "work_start demo0"
  unfolding work_start_def demo0_def
  by (rule exI [of _ 1], rule exI [of _ 1]) (simp add: executor_new_def)

lemma demo_run: "work_step\<^sup>*\<^sup>* demo0 demo_end"
proof -
  define j where "j p st r = \<lparr>phase = p, stop_requested = st, result = r\<rparr>" for p st r
  define s where "s q r a p st o' = \<lparr>queue = q, running = r, capacity = 1, accepting = a,
    jobs = [0::nat \<mapsto> j p st o']\<rparr>" for q r a p st o'
  define v where "v e ws t sd = \<lparr>ex = e, workers = ws, tickets = [0 \<mapsto> t], stopping = [],
    fresh = 1, started = sd\<rparr>" for e ws t sd
  note defs = v_def s_def j_def upd_job_def
  have "work_step demo0 (v (s [0] [] True Staged False None) [Idle] (Held True) [])"
    using work_step.stages [of demo0] by (simp add: demo0_def defs stage_def)
  moreover have "work_step (v (s [0] [] True Staged False None) [Idle] (Held True) [])
      (v (s [0] [] True Ready False None) [Idle] (Held True) [])"
    using work_step.commits [of "v (s [0] [] True Staged False None) [Idle] (Held True) []" 0]
    by (simp add: defs commit_def)
  moreover have "work_step (v (s [0] [] True Ready False None) [Idle] (Held True) [])
      (v (s [] [0] True Running False None) [Busy 0] (Held True) [0])"
    using work_step.takes [of 0 "v (s [0] [] True Ready False None) [Idle] (Held True) []" 0]
    by (simp add: defs worker_take_def worker_wakes_def front_ready_def)
  moreover have "work_step (v (s [] [0] True Running False None) [Busy 0] (Held True) [0])
      (v (s [] [0] True Running True None) [Busy 0] Draining [0])"
    using work_step.drops [of "v (s [] [0] True Running False None) [Busy 0] (Held True) [0]" 0
        True True]
    by (simp add: defs ticket_withdraw_def request_stop_def)
  moreover have "work_step (v (s [] [0] True Running True None) [Busy 0] Draining [0])
      (v (s [] [] True Retired True None) [Publishing 0 False] Draining [0])"
    using work_step.retires [of 0 "v (s [] [0] True Running True None) [Busy 0] Draining [0]" 0
        False]
    by (simp add: defs worker_retire_def)
  moreover have "work_step (v (s [] [] True Retired True None) [Publishing 0 False] Draining [0])
      (v (s [] [] True Retired True (Some Done)) [Idle] Draining [0])"
    using work_step.publishes [of 0 "v (s [] [] True Retired True None) [Publishing 0 False]
        Draining [0]" 0 False]
    by (simp add: defs worker_publish_def)
  moreover have "work_step (v (s [] [] True Retired True (Some Done)) [Idle] Draining [0])
      (v (s [] [] True Retired True (Some Done)) [Idle] (Dropped True) [0])"
    using work_step.drained [of "v (s [] [] True Retired True (Some Done)) [Idle] Draining [0]" 0]
    by (simp add: defs)
  moreover have "work_step (v (s [] [] True Retired True (Some Done)) [Idle] (Dropped True) [0])
      (v (s [] [] False Retired True (Some Done)) [Idle] (Dropped True) [0])"
    using work_step.closes [of "v (s [] [] True Retired True (Some Done)) [Idle] (Dropped True) [0]"]
    by (simp add: defs close_lock_def)
  moreover have "work_step (v (s [] [] False Retired True (Some Done)) [Idle] (Dropped True) [0])
      demo_end"
    using work_step.exits [of 0 "v (s [] [] False Retired True (Some Done)) [Idle] (Dropped True) [0]"]
    by (simp add: defs worker_wakes_def worker_take_def demo_end_def)
  ultimately show ?thesis by (meson rtranclp.rtrancl_into_rtrancl rtranclp.rtrancl_refl)
qed



text \<open>
  C10. The outcome of a job is final: no later step of any thread sets its promise again, so
  a waiter of the shared result never sees two outcomes and no promise is satisfied twice.
\<close>
theorem outcome_is_final:
  assumes "work_start w" and "work_step\<^sup>*\<^sup>* w u" and "work_step\<^sup>*\<^sup>* u v"
    and "jobs (ex u) i = Some j" and "result j = Some r"
  shows "\<exists>j'. jobs (ex v) i = Some j' \<and> result j' = Some r"
proof -
  have "work_inv u" using work_system.reachable_inv [OF assms(1,2)] .
  then have "work_inv v \<and> (\<exists>j'. jobs (ex v) i = Some j' \<and> result j' = Some r)"
    using assms(3)
  proof (induction rule: rtranclp_induct [OF assms(3)])
    case 1
    then show ?case using assms(4,5) by simp
  next
    case (2 x y)
    then show ?case using work_step_inv [of x y] outcome_kept [of x y i _ r] by blast
  qed
  then show ?thesis by blast
qed

theorem outcome_is_final_witness:
  "\<exists>j'. jobs (ex demo_end) 0 = Some j' \<and> result j' = Some Done"
  using outcome_is_final [OF demo0_starts demo_run rtranclp.rtrancl_refl, of 0 _ Done]
  by (simp add: demo_end_def)

text \<open>
  C11. Shutdown strands nobody: once every worker thread has left its loop the executor is closed,
  its lists are empty, and every job ever staged has its outcome.
\<close>
theorem shutdown_settles_every_job:
  assumes "work_start w" and "work_step\<^sup>*\<^sup>* w w'" and "set (workers w') = {Exited}"
  shows "\<not> accepting (ex w') \<and> queue (ex w') = [] \<and> running (ex w') = [] \<and>
    (\<forall>i < fresh w'. \<exists>j. jobs (ex w') i = Some j \<and> phase j = Retired \<and> result j \<noteq> None)"
proof -
  have inv: "work_inv w'" using work_system.reachable_inv [OF assms(1,2)] .
  have none: "busy (workers w') = []" "publishing (workers w') = []"
    using publishing_none [of "workers w'"] assms(3) by auto
  have q: "\<not> accepting (ex w')" "queue (ex w') = []" "running (ex w') = []"
    using inv_lists [OF inv] none assms(3) by (auto simp: lists_ok_def)
  have "\<exists>j. jobs (ex w') i = Some j \<and> phase j = Retired \<and> result j \<noteq> None" if "i < fresh w'" for i
  proof -
    obtain j where j: "jobs (ex w') i = Some j" using named_job [OF inv] \<open>i < fresh w'\<close> by blast
    then show ?thesis using inv_job [OF inv j] none q(2) by (cases "phase j") (auto simp: job_ok_def)
  qed
  then show ?thesis using q by blast
qed

theorem shutdown_settles_every_job_witness:
  "\<exists>j. jobs (ex demo_end) 0 = Some j \<and> phase j = Retired \<and> result j \<noteq> None"
  using shutdown_settles_every_job [OF demo0_starts demo_run] by (simp add: demo_end_def)

text \<open>
  C12. Owner destruction cannot abandon a committed action: when the destructor of an attached
  ticket has returned, its job is neither queued nor
  running on any worker.
\<close>
theorem drained_ticket_outlives_action:
  assumes "work_start w" and "work_step\<^sup>*\<^sup>* w w'" and "tickets w' i = Some (Dropped True)"
  shows "i \<notin> set (queue (ex w')) \<and> i \<notin> set (running (ex w')) \<and> Busy i \<notin> set (workers w')"
proof -
  have inv: "work_inv w'" using work_system.reachable_inv [OF assms(1,2)] .
  obtain j where j: "jobs (ex w') i = Some j" using ticket_job [OF inv assms(3)] .
  have "phase j = Retired" using inv_ticket [OF inv j assms(3)] by (simp add: ticket_simps)
  then have i: "i \<notin> set (queue (ex w'))" "i \<notin> set (busy (workers w'))"
    using inv_job [OF inv j] by (auto simp: job_ok_def)
  moreover have "set (running (ex w')) = set (busy (workers w'))"
    using inv_lists [OF inv] by (metis lists_ok_def set_mset_mset)
  moreover have "Busy i \<notin> set (workers w')"
  proof
    assume "Busy i \<in> set (workers w')"
    then obtain us vs where "workers w' = us @ Busy i # vs" by (meson split_list)
    then show False using i(2) by simp
  qed
  ultimately show ?thesis by simp
qed

theorem drained_ticket_outlives_action_witness:
  "tickets demo_end 0 = Some (Dropped True) \<and> Busy 0 \<notin> set (workers demo_end)"
  using drained_ticket_outlives_action [OF demo0_starts demo_run, of 0]
  by (simp add: demo_end_def)

end
