(* ===== verification/Json_Values.thy ===== *)
theory Json_Values
  imports XM_Prelude
begin

text \<open>
  JSON documents as the program sees them through its vendored library: the value type, the
  accessors the program uses, and the library itself as a parameter. Parsing is a stream of
  events handed to the caller's callback followed by the document, or by nothing when the text
  is not JSON; dumping may fail on a string that is not UTF-8; \<open>same\<close> is its equality of documents,
  which compares numbers across their representations.
\<close>

datatype json =
    JNull
  | JBool bool
  | JInt int
  | JFloat bytes
  | JStr bytes
  | JArr "json list"
  | JObj "(bytes \<times> json) list"

text \<open>An object keeps one value per key; \<open>contains\<close> and \<open>operator[]\<close> look it up.\<close>

fun members :: "json \<Rightarrow> (bytes \<times> json) list" where
  "members (JObj ms) = ms"
| "members v = []"

definition member :: "json \<Rightarrow> bytes \<Rightarrow> json option" where
  "member v k = map_of (members v) k"

definition has_member :: "json \<Rightarrow> bytes \<Rightarrow> bool" where
  "has_member v k \<longleftrightarrow> member v k \<noteq> None"

definition at_key :: "json \<Rightarrow> bytes \<Rightarrow> json" where
  "at_key v k = (case member v k of None \<Rightarrow> JNull | Some x \<Rightarrow> x)"

fun is_object :: "json \<Rightarrow> bool" where
  "is_object (JObj _) = True" | "is_object _ = False"

fun is_array :: "json \<Rightarrow> bool" where
  "is_array (JArr _) = True" | "is_array _ = False"

fun is_string :: "json \<Rightarrow> bool" where
  "is_string (JStr _) = True" | "is_string _ = False"

fun is_integer :: "json \<Rightarrow> bool" where
  "is_integer (JInt _) = True" | "is_integer _ = False"

fun is_boolean :: "json \<Rightarrow> bool" where
  "is_boolean (JBool _) = True" | "is_boolean _ = False"

fun is_null :: "json \<Rightarrow> bool" where
  "is_null JNull = True" | "is_null _ = False"

fun str_of :: "json \<Rightarrow> bytes" where
  "str_of (JStr s) = s" | "str_of _ = []"

fun elements :: "json \<Rightarrow> json list" where
  "elements (JArr xs) = xs" | "elements _ = []"

lemma is_string_iff: "is_string v \<longleftrightarrow> (\<exists>s. v = JStr s)"
  by (cases v) auto

lemma is_object_iff: "is_object v \<longleftrightarrow> (\<exists>ms. v = JObj ms)"
  by (cases v) auto

lemma at_key_Some: "member v k = Some x \<Longrightarrow> at_key v k = x"
  by (simp add: at_key_def)

text \<open>The library keeps the members of an object in the order of their keys' bytes.\<close>

fun bytes_less :: "bytes \<Rightarrow> bytes \<Rightarrow> bool" where
  "bytes_less s [] = False"
| "bytes_less [] (y # ys) = True"
| "bytes_less (x # xs) (y # ys) = (byte x < byte y \<or> (x = y \<and> bytes_less xs ys))"

fun put_member :: "bytes \<Rightarrow> json \<Rightarrow> (bytes \<times> json) list \<Rightarrow> (bytes \<times> json) list" where
  "put_member k v [] = [(k, v)]"
| "put_member k v ((k', v') # ms) =
     (if k = k' then (k, v) # ms
      else if bytes_less k k' then (k, v) # (k', v') # ms
      else (k', v') # put_member k v ms)"

lemma map_of_put_member [simp]: "map_of (put_member k v ms) = (map_of ms)(k \<mapsto> v)"
  by (induction ms) (auto simp: fun_eq_iff)

section \<open>The library\<close>

datatype sax_event = Object_start | Object_end | Key bytes | Array_start | Array_end | Value

record json_lib =
  sax :: "bytes \<Rightarrow> (nat \<times> sax_event) list \<times> json option"
  dump :: "json \<Rightarrow> bytes option"
  same :: "json \<Rightarrow> json \<Rightarrow> bool"

definition json_text :: "json_lib \<Rightarrow> bytes \<Rightarrow> json option" where
  "json_text lib bs = snd (sax lib bs)"

section \<open>Separators and literals of JSON text\<close>

definition json_space :: "char \<Rightarrow> bool" where
  "json_space c \<longleftrightarrow> c = CHR '' '' \<or> c = CHR 0x09 \<or> c = CHR 0x0D \<or> c = CHR 0x0A"

definition trim_end :: "bytes \<Rightarrow> bytes" where
  "trim_end s = rev (dropWhile json_space (rev s))"

definition skip_space :: "bytes \<Rightarrow> bytes" where
  "skip_space = dropWhile json_space"

lemma dropWhile_all: "\<forall>c \<in> set w. P c \<Longrightarrow> dropWhile P (w @ s) = dropWhile P s"
  by (induction w) auto

lemma trim_end_spaces: "\<forall>c \<in> set w. json_space c \<Longrightarrow> trim_end (s @ w) = trim_end s"
  by (simp add: trim_end_def dropWhile_all)

lemma trim_end_id: "s = [] \<or> \<not> json_space (last s) \<Longrightarrow> trim_end s = s"
  by (cases s rule: rev_cases) (auto simp: trim_end_def)

lemma skip_space_append: "\<forall>c \<in> set w. json_space c \<Longrightarrow> skip_space (w @ s) = skip_space s"
  by (simp add: skip_space_def dropWhile_all)

lemma skip_space_id: "s \<noteq> [] \<Longrightarrow> \<not> json_space (hd s) \<Longrightarrow> skip_space s = s"
  by (cases s) (auto simp: skip_space_def)

section \<open>The parse callback\<close>

text \<open>
  The callback both wire decoders hand to the library: bounded nesting, and no key twice in an
  object. Its state is the stack of the keys seen in each open object, innermost first; an event
  that would read an empty stack is undefined in C++.
\<close>

datatype event_error = Too_deep | Duplicate_key | No_open_object

fun parse_event :: "bytes set list \<Rightarrow> nat \<times> sax_event \<Rightarrow> event_error + bytes set list" where
  "parse_event open_keys (depth, ev) =
     (if depth > 64 then Inl Too_deep
      else case ev of
        Object_start \<Rightarrow> Inr ({} # open_keys)
      | Object_end \<Rightarrow> (case open_keys of [] \<Rightarrow> Inl No_open_object | _ # rest \<Rightarrow> Inr rest)
      | Key k \<Rightarrow> (case open_keys of [] \<Rightarrow> Inl No_open_object
          | seen # rest \<Rightarrow> if k \<in> seen then Inl Duplicate_key else Inr (insert k seen # rest))
      | _ \<Rightarrow> Inr open_keys)"

definition map_error :: "('e \<Rightarrow> 'f) \<Rightarrow> 'e + 'a \<Rightarrow> 'f + 'a" where
  "map_error f r = (case r of Inl e \<Rightarrow> Inl (f e) | Inr x \<Rightarrow> Inr x)"

lemma map_error_simps [simp]: "map_error f (Inl e) = Inl (f e)" "map_error f (Inr x) = Inr x"
  by (simp_all add: map_error_def)

lemma map_error_Inr [result_simps]: "map_error f r = Inr x \<longleftrightarrow> r = Inr x"
  by (cases r) auto

text \<open>A document with the members of its objects as written, and the events of the library for it.\<close>

datatype raw_tree = Raw_scalar | Raw_array "raw_tree list" | Raw_object "(bytes \<times> raw_tree) list"

fun events :: "nat \<Rightarrow> raw_tree \<Rightarrow> (nat \<times> sax_event) list" where
  "events d Raw_scalar = [(d, Value)]"
| "events d (Raw_array ts) = (d, Array_start) # concat (map (events (d + 1)) ts) @ [(d, Array_end)]"
| "events d (Raw_object kvs) = (d, Object_start) #
     concat (map (\<lambda>(k, t). (d + 1, Key k) # events (d + 1) t) kvs) @ [(d, Object_end)]"

fun tree_fits :: "nat \<Rightarrow> raw_tree \<Rightarrow> bool" where
  "tree_fits d Raw_scalar \<longleftrightarrow> d \<le> 64"
| "tree_fits d (Raw_array ts) \<longleftrightarrow> d \<le> 64 \<and> (\<forall>t \<in> set ts. tree_fits (d + 1) t)"
| "tree_fits d (Raw_object kvs) \<longleftrightarrow> d \<le> 64 \<and> distinct (map fst kvs) \<and>
     (\<forall>(k, t) \<in> set kvs. tree_fits (d + 1) t)"

lemma fits_depth: "tree_fits d t \<Longrightarrow> d \<le> 64"
  by (cases t) auto

lemma parse_events_fit: "tree_fits d t \<Longrightarrow> foldE parse_event ks (events d t) = Inr ks"
proof (induction d t arbitrary: ks rule: events.induct)
  case (1 d)
  then show ?case by simp
next
  case (2 d ts)
  have "foldE parse_event ks (concat (map (events (d + 1)) us)) = Inr ks" if "set us \<subseteq> set ts" for us
    using that 2 by (induction us) (simp_all add: foldE_append)
  then show ?case using 2(2) by (simp add: foldE_append)
next
  case (3 d kvs)
  have members: "foldE parse_event (seen # ks)
      (concat (map (\<lambda>(k, t). (d + 1, Key k) # events (d + 1) t) us)) =
      Inr ((seen \<union> set (map fst us)) # ks)"
    if "set us \<subseteq> set kvs" "distinct (map fst us)" "seen \<inter> set (map fst us) = {}" for us seen
    using that
  proof (induction us arbitrary: seen)
    case Nil
    then show ?case by simp
  next
    case (Cons kt us)
    obtain k t where kt: "kt = (k, t)" by (cases kt)
    have fits: "tree_fits (d + 1) t" using Cons.prems(1) 3(2) by (auto simp: kt)
    have "foldE parse_event ((insert k seen) # ks) (events (d + 1) t) = Inr (insert k seen # ks)"
      using 3(1) [OF _ kt [symmetric] fits] Cons.prems(1) by simp
    moreover have "d + 1 \<le> 64" using fits_depth [OF fits] .
    ultimately show ?case using Cons by (simp add: kt foldE_append)
  qed
  show ?case using 3(2) members [of kvs "{}"] by (simp add: foldE_append)
qed

lemma parse_events_reject:
  "\<not> tree_fits d t \<Longrightarrow> \<exists>e. foldE parse_event ks (events d t) = Inl e"
proof (induction d t arbitrary: ks rule: events.induct)
  case (1 d)
  then show ?case by auto
next
  case (2 d ts)
  show ?case
  proof (cases "d \<le> 64")
    case True
    then obtain us t vs where ts: "ts = us @ t # vs" "\<not> tree_fits (d + 1) t" "\<forall>u \<in> set us. tree_fits (d + 1) u"
      using 2(2) split_list_first_prop [of ts "\<lambda>t. \<not> tree_fits (d + 1) t"] by auto
    have "foldE parse_event ks (concat (map (events (d + 1)) us)) = Inr ks"
      using ts(3) by (induction us) (simp_all add: foldE_append parse_events_fit)
    moreover obtain e where "foldE parse_event ks (events (d + 1) t) = Inl e"
      using 2(1) [of t ks] ts by auto
    ultimately show ?thesis using True by (simp add: ts(1) foldE_append)
  qed simp
next
  case (3 d kvs)
  have members: "\<exists>e. foldE parse_event (seen # ks)
      (concat (map (\<lambda>(k, t). (d + 1, Key k) # events (d + 1) t) us)) = Inl e"
    if "set us \<subseteq> set kvs" "\<not> (distinct (map fst us) \<and> seen \<inter> set (map fst us) = {} \<and>
      (\<forall>(k, t) \<in> set us. tree_fits (d + 1) t))" for us seen
    using that
  proof (induction us arbitrary: seen)
    case Nil
    then show ?case by simp
  next
    case (Cons kt us)
    obtain k t where kt: "kt = (k, t)" by (cases kt)
    show ?case
    proof (cases "d + 1 \<le> 64 \<and> k \<notin> seen \<and> tree_fits (d + 1) t")
      case True
      then have "foldE parse_event (insert k seen # ks) (events (d + 1) t) = Inr (insert k seen # ks)"
        by (simp add: parse_events_fit)
      moreover have "\<exists>e. foldE parse_event (insert k seen # ks)
          (concat (map (\<lambda>(k, t). (d + 1, Key k) # events (d + 1) t) us)) = Inl e"
        using Cons True by (intro Cons.IH) (auto simp: kt)
      ultimately show ?thesis using True by (simp add: kt foldE_append)
    next
      case False
      have "\<not> tree_fits (d + 1) t \<Longrightarrow>
          \<exists>e. foldE parse_event (insert k seen # ks) (events (d + 1) t) = Inl e"
        using 3(1) [OF _ kt [symmetric]] Cons.prems(1) by simp
      then show ?thesis using False by (auto simp: kt foldE_append)
    qed
  qed
  show ?case
  proof (cases "d \<le> 64")
    case True
    then have "\<not> (distinct (map fst kvs) \<and> (\<forall>(k, t) \<in> set kvs. tree_fits (d + 1) t))"
      using 3(2) by auto
    then show ?thesis using True members [of kvs "{}"] by (auto simp: foldE_append)
  qed simp
qed

end
