(* ===== verification/Mcp_Wire.thy ===== *)
theory Mcp_Wire
  imports Json_Values
begin

text \<open>
  \<open>mcp_wire.cpp\<close>: the JSON-RPC envelope of the Model Context Protocol, its newline framing and
  the raw scanners that keep argument and number spellings untouched. A cursor into a
  \<open>string_view\<close> is the suffix it points at; reading past its end,
  undefined in C++, is the error \<open>Out_of_range\<close>. The JSON library is the parameter \<open>lib\<close>.
\<close>

section \<open>Validated parsing\<close>

datatype mcp_error = Message_size | Nesting | Duplicate_field | Invalid_json | Not_text
  | Invalid_id | Invalid_envelope | Ambiguous_kind | Invalid_method | Params_not_object
  | Response_with_params | Invalid_result | Invalid_error | Error_description | Not_array
  | Collection_limit | Modern_metadata | Peer_modern | Invalid_peer_request | No_client_handler
  | Json_exception | Out_of_range | Line_limit | Stream_unusable | Stream_failed
  | Incomplete_line | Sink_exception | Missing_member | Outgoing_size | Outgoing_utf8
  | Invalid_identity

definition message_limit :: nat where
  "message_limit = 1024 * 1024"

fun event_error_of :: "event_error \<Rightarrow> mcp_error" where
  "event_error_of Too_deep = Nesting"
| "event_error_of Duplicate_key = Duplicate_field"
| "event_error_of No_open_object = Out_of_range"

definition mcp_parse :: "json_lib \<Rightarrow> bytes \<Rightarrow> mcp_error + json" where
  "mcp_parse lib bs =
     (if bs = [] \<or> length bs > message_limit then Inl Message_size
      else bindE (map_error event_error_of (foldE parse_event [] (fst (sax lib bs))))
        (\<lambda>_. case snd (sax lib bs) of None \<Rightarrow> Inl Invalid_json | Some v \<Rightarrow> Inr v))"

definition check_text :: "bytes \<Rightarrow> nat \<Rightarrow> mcp_error \<Rightarrow> mcp_error + unit" where
  "check_text v limit e = guardE (\<not> (v = [] \<or> length v > limit \<or> CHR 0x00 \<in> set v)) e"

definition dumpE :: "json_lib \<Rightarrow> json \<Rightarrow> mcp_error + bytes" where
  "dumpE lib v = (case dump lib v of None \<Rightarrow> Inl Json_exception | Some s \<Rightarrow> Inr s)"

definition id_json :: "json_lib \<Rightarrow> json \<Rightarrow> bool \<Rightarrow> mcp_error + bytes" where
  "id_json lib v diagnostic =
     (if is_null v \<and> diagnostic then Inr ''null''
      else if is_string v then
        bindE (check_text (str_of v) 128 Invalid_id) (\<lambda>_. dumpE lib v)
      else if \<not> is_integer v then Inl Invalid_id
      else dumpE lib v)"

definition parameters :: "json_lib \<Rightarrow> bytes \<Rightarrow> mcp_error + json" where
  "parameters lib source =
     bindE (mcp_parse lib source) (\<lambda>v. if is_object v then Inr v else Inl Params_not_object)"

section \<open>Raw scanners\<close>

definition opens :: "char \<Rightarrow> bool" where
  "opens c \<longleftrightarrow> c = CHR ''{'' \<or> c = CHR ''[''"

definition closes :: "char \<Rightarrow> bool" where
  "closes c \<longleftrightarrow> c = CHR ''}'' \<or> c = CHR '']''"

text \<open>
  The loop of \<open>raw_value\<close>. \<open>raw_next\<close> is one turn: the new depth and the two flags, or nothing
  where the loop breaks. \<open>raw_scan\<close> gives the characters consumed and the suffix it stops at.
\<close>

type_synonym raw_state = "nat \<times> bool \<times> bool"

fun raw_next :: "raw_state \<Rightarrow> char \<Rightarrow> raw_state option" where
  "raw_next (depth, quoted, escaped) c =
     (if quoted then
        (if escaped then Some (depth, True, False)
         else if c = CHR 0x5C then Some (depth, True, True)
         else Some (depth, c \<noteq> CHR 0x22, False))
      else if c = CHR 0x22 then Some (depth, True, escaped)
      else if opens c then Some (depth + 1, quoted, escaped)
      else if closes c then (if depth = 0 then None else Some (depth - 1, quoted, escaped))
      else if c = CHR '','' \<and> depth = 0 then None
      else Some (depth, quoted, escaped))"

fun raw_scan :: "raw_state \<Rightarrow> bytes \<Rightarrow> bytes \<times> bytes" where
  "raw_scan st [] = ([], [])"
| "raw_scan st (c # cs) =
     (case raw_next st c of None \<Rightarrow> ([], c # cs)
      | Some st' \<Rightarrow> map_prod ((#) c) id (raw_scan st' cs))"

definition raw_value :: "bytes \<Rightarrow> bytes \<times> bytes" where
  "raw_value source = map_prod trim_end id (raw_scan (0, False, False) (skip_space source))"

text \<open>The loop that reads a member name after its first quote: the characters and the rest.\<close>

fun name_scan :: "bool \<Rightarrow> bytes \<Rightarrow> bytes \<times> bytes" where
  "name_scan escaped [] = ([], [])"
| "name_scan escaped (c # cs) =
     (if \<not> escaped \<and> c = CHR 0x22 then ([c], cs)
      else map_prod ((#) c) id (name_scan (\<not> escaped \<and> c = CHR 0x5C) cs))"

lemma raw_scan_split: "fst (raw_scan st s) @ snd (raw_scan st s) = s"
  by (induction st s rule: raw_scan.induct) (auto split: option.split)

lemma name_scan_split: "fst (name_scan e s) @ snd (name_scan e s) = s"
  by (induction e s rule: name_scan.induct) auto

lemma raw_scan_length: "length (snd (raw_scan st s)) \<le> length s"
  using arg_cong [OF raw_scan_split [of st s], of length] by simp

lemma name_scan_length: "length (snd (name_scan e s)) \<le> length s"
  using arg_cong [OF name_scan_split [of e s], of length] by simp

lemma skip_space_length: "length (skip_space s) \<le> length s"
  by (simp add: skip_space_def length_dropWhile_le)

definition advance :: "bytes \<Rightarrow> mcp_error + bytes" where
  "advance s = (case s of [] \<Rightarrow> Inl Out_of_range | _ # cs \<Rightarrow> Inr cs)"

lemma advance_simps [simp]: "advance [] = Inl Out_of_range" "advance (c # cs) = Inr cs"
  by (simp_all add: advance_def)

lemma advance_Inr [result_simps]: "advance s = Inr r \<longleftrightarrow> (\<exists>c. s = c # r)"
  by (cases s) auto

text \<open>The loop over the members of an object text, at a name or at the closing brace.\<close>

function object_members :: "json_lib \<Rightarrow> bytes \<Rightarrow> bytes \<Rightarrow> mcp_error + bytes option" where
  "object_members lib k cursor =
     (case cursor of [] \<Rightarrow> Inl Out_of_range
      | c # after \<Rightarrow>
        if c = CHR ''}'' then Inr None
        else let scanned = name_scan False after in
          (case json_text lib (c # fst scanned) of None \<Rightarrow> Inl Json_exception
          | Some n \<Rightarrow>
            if \<not> is_string n then Inl Json_exception
            else bindE (advance (skip_space (snd scanned))) (\<lambda>rest.
              let value = raw_value rest; stop = skip_space (snd value) in
              if str_of n = k then Inr (Some (fst value))
              else (case stop of [] \<Rightarrow> Inl Out_of_range
                | d # onward \<Rightarrow> if d = CHR ''}'' then Inr None
                    else object_members lib k (skip_space onward)))))"
  by pat_completeness auto
termination
proof (relation "measure (\<lambda>(lib, k, cursor). length cursor)", simp, goal_cases)
  case (1 lib k cursor c after scanned n rest v stop d onward)
  have "length (snd scanned) \<le> length after"
    using 1 name_scan_length [of False after] by simp
  moreover have "Suc (length rest) \<le> length (snd scanned)"
    using 1(6) skip_space_length [of "snd scanned"] by (auto simp: result_simps)
  moreover have "length (snd v) \<le> length rest"
    using 1(7) raw_scan_length [of "(0, False, False)" "skip_space rest"] skip_space_length [of rest]
    by (simp add: raw_value_def)
  moreover have "Suc (length onward) \<le> length (snd v)"
    using arg_cong [OF 1(10), of length] 1(8) skip_space_length [of "snd v"] by simp
  ultimately show ?case using 1(1) skip_space_length [of onward] by simp
qed

declare object_members.simps [simp del]

definition mcp_object_member :: "json_lib \<Rightarrow> bytes \<Rightarrow> bytes \<Rightarrow> mcp_error + bytes option" where
  "mcp_object_member lib source k =
     bindE (parameters lib source) (\<lambda>_. bindE (advance (skip_space source))
       (\<lambda>rest. object_members lib k (skip_space rest)))"

text \<open>The loop over the elements of an array text.\<close>

function array_elements :: "bytes list \<Rightarrow> bytes \<Rightarrow> mcp_error + bytes list" where
  "array_elements found cursor =
     (case cursor of [] \<Rightarrow> Inl Out_of_range
      | c # _ \<Rightarrow>
        if c = CHR '']'' then Inr found
        else if length found \<ge> 128 then Inl Collection_limit
        else let value = raw_value cursor; stop = skip_space (snd value) in
          (case stop of [] \<Rightarrow> Inl Out_of_range
          | d # onward \<Rightarrow> if d = CHR '']'' then Inr (found @ [fst value])
              else array_elements (found @ [fst value]) (skip_space onward)))"
  by pat_completeness auto
termination
proof (relation "measure (\<lambda>(found, cursor). length cursor)", simp, goal_cases)
  case (1 found cursor c cs v stop d onward)
  have "length (snd v) \<le> length cursor"
    using 1 raw_scan_length [of "(0, False, False)" "skip_space cursor"] skip_space_length [of cursor]
    by (simp add: raw_value_def)
  moreover have "Suc (length onward) \<le> length (snd v)"
    using arg_cong [OF 1(6), of length] 1(5) skip_space_length [of "snd v"] by simp
  ultimately show ?case using skip_space_length [of onward] by simp
qed

declare array_elements.simps [simp del]

definition mcp_array_values :: "json_lib \<Rightarrow> bytes \<Rightarrow> mcp_error + bytes list" where
  "mcp_array_values lib source =
     bindE (mcp_parse lib source) (\<lambda>v. if \<not> is_array v then Inl Not_array
       else bindE (advance (skip_space source)) (\<lambda>rest. array_elements [] (skip_space rest)))"

text \<open>
  The loop of \<open>mcp_compact_object\<close>: one turn gives the two flags and whether the character is kept.
\<close>

fun compact_next :: "bool \<times> bool \<Rightarrow> char \<Rightarrow> (bool \<times> bool) \<times> bool" where
  "compact_next (quoted, escaped) c =
     (if quoted then
        (if escaped then ((True, False), True)
         else if c = CHR 0x5C then ((True, True), True)
         else ((c \<noteq> CHR 0x22, False), True))
      else if c = CHR 0x22 then ((True, escaped), True)
      else ((quoted, escaped), \<not> json_space c))"

fun compact_scan :: "bool \<times> bool \<Rightarrow> bytes \<Rightarrow> bytes" where
  "compact_scan st [] = []"
| "compact_scan st (c # cs) =
     (let (st', keep) = compact_next st c; rest = compact_scan st' cs in
      if keep then c # rest else rest)"

definition mcp_compact_object :: "json_lib \<Rightarrow> bytes \<Rightarrow> mcp_error + bytes" where
  "mcp_compact_object lib source =
     bindE (parameters lib source) (\<lambda>_. Inr (compact_scan (False, False) source))"

section \<open>Messages\<close>

datatype mcp_kind = Request | Notification | Result | Error

datatype mcp_era = Modern | Legacy

record mcp_message =
  kind :: mcp_kind
  msg_id :: bytes
  msg_method :: bytes
  payload :: bytes
  raw :: bytes

text \<open>\<open>*mcp_object_member(bytes, key)\<close>: the optional is dereferenced unchecked.\<close>

definition raw_member :: "json_lib \<Rightarrow> bytes \<Rightarrow> bytes \<Rightarrow> mcp_error + bytes" where
  "raw_member lib bs k =
     bindE (mcp_object_member lib bs k)
       (\<lambda>r. case r of None \<Rightarrow> Inl Missing_member | Some v \<Rightarrow> Inr v)"

definition decode_call :: "json_lib \<Rightarrow> bytes \<Rightarrow> json \<Rightarrow> mcp_error + mcp_message" where
  "decode_call lib bs v =
     (if \<not> is_string (at_key v ''method'') then Inl Invalid_method
      else let m = str_of (at_key v ''method'') in
        bindE (check_text m 256 Invalid_method) (\<lambda>_.
          if has_member v ''params'' \<and> \<not> is_object (at_key v ''params'') then Inl Params_not_object
          else bindE (if has_member v ''params'' then raw_member lib bs ''params'' else Inr ''{}'')
            (\<lambda>pl. if has_member v ''id''
               then bindE (id_json lib (at_key v ''id'') False) (\<lambda>i.
                 Inr \<lparr>kind = Request, msg_id = i, msg_method = m, payload = pl, raw = bs\<rparr>)
               else Inr \<lparr>kind = Notification, msg_id = [], msg_method = m, payload = pl,
                          raw = bs\<rparr>)))"

definition decode_result :: "json_lib \<Rightarrow> bytes \<Rightarrow> json \<Rightarrow> mcp_error + mcp_message" where
  "decode_result lib bs v =
     (if \<not> has_member v ''id'' \<or> \<not> is_object (at_key v ''result'') then Inl Invalid_result
      else bindE (id_json lib (at_key v ''id'') False) (\<lambda>i.
        bindE (raw_member lib bs ''result'') (\<lambda>pl.
          Inr \<lparr>kind = Result, msg_id = i, msg_method = [], payload = pl, raw = bs\<rparr>)))"

definition decode_error :: "json_lib \<Rightarrow> bytes \<Rightarrow> json \<Rightarrow> mcp_error + mcp_message" where
  "decode_error lib bs v =
     (let failure = at_key v ''error''; description = str_of (at_key failure ''message'') in
      if \<not> is_object failure \<or> \<not> is_integer (at_key failure ''code'')
        \<or> \<not> is_string (at_key failure ''message'') then Inl Invalid_error
      else if length description > 65536 \<or> CHR 0x00 \<in> set description then Inl Error_description
      else bindE (raw_member lib bs ''error'') (\<lambda>pl.
        bindE (if has_member v ''id'' then id_json lib (at_key v ''id'') True else Inr []) (\<lambda>i.
          Inr \<lparr>kind = Error, msg_id = i, msg_method = [], payload = pl, raw = bs\<rparr>)))"

definition decode :: "json_lib \<Rightarrow> bytes \<Rightarrow> mcp_error + mcp_message" where
  "decode lib bs = bindE (mcp_parse lib bs) (\<lambda>v.
     if \<not> is_object v \<or> \<not> has_member v ''jsonrpc'' \<or> at_key v ''jsonrpc'' \<noteq> JStr ''2.0''
     then Inl Invalid_envelope
     else if length (filter (has_member v) [''method'', ''result'', ''error'']) \<noteq> 1
     then Inl Ambiguous_kind
     else if has_member v ''method'' then decode_call lib bs v
     else if has_member v ''params'' then Inl Response_with_params
     else if has_member v ''result'' then decode_result lib bs v
     else decode_error lib bs v)"

section \<open>Outgoing messages\<close>

definition newline :: char where
  "newline = CHR 0x0A"

definition catch_json :: "mcp_error + 'a \<Rightarrow> mcp_error + 'a" where
  "catch_json r = (if r = Inl Json_exception then Inl Outgoing_utf8 else r)"

definition frame :: "json_lib \<Rightarrow> json \<Rightarrow> mcp_error + bytes" where
  "frame lib v = catch_json (bindE (dumpE lib v) (\<lambda>encoded.
     if length encoded > message_limit then Inl Outgoing_size
     else bindE (decode lib encoded) (\<lambda>_. Inr (encoded @ [newline]))))"

record client_identity =
  client_name :: bytes
  client_version :: bytes
  capabilities :: bytes

definition request_metadata :: "json_lib \<Rightarrow> client_identity \<Rightarrow> mcp_error + json" where
  "request_metadata lib ident =
     bindE (check_text (client_name ident) 128 Invalid_identity) (\<lambda>_.
     bindE (check_text (client_version ident) 64 Invalid_identity) (\<lambda>_.
     bindE (parameters lib (capabilities ident)) (\<lambda>caps.
       Inr (JObj [
         (''io.modelcontextprotocol/clientCapabilities'', caps),
         (''io.modelcontextprotocol/clientInfo'',
            JObj [(''name'', JStr (client_name ident)), (''version'', JStr (client_version ident))]),
         (''io.modelcontextprotocol/protocolVersion'', JStr ''2026-07-28'')]))))"

definition request_params ::
    "json_lib \<Rightarrow> json \<Rightarrow> bytes \<Rightarrow> mcp_era \<Rightarrow> client_identity \<Rightarrow> mcp_error + bytes" where
  "request_params lib params encoded era ident =
     (if era = Modern then
        (if has_member params ''_meta'' then Inl Modern_metadata
         else bindE (request_metadata lib ident) (\<lambda>meta.
           catch_json (bindE (dumpE lib meta) (\<lambda>dumped.
             Inr (butlast encoded @ (if members params = [] then [] else '','')
               @ [CHR 0x22] @ ''_meta'' @ [CHR 0x22] @ '':'' @ dumped @ ''}'')))))
      else Inr encoded)"

definition quoted :: "bytes \<Rightarrow> bytes" where
  "quoted s = CHR 0x22 # s @ [CHR 0x22]"

definition request_text :: "bytes \<Rightarrow> bytes \<Rightarrow> bytes \<Rightarrow> bytes" where
  "request_text i m params =
     ''{'' @ quoted ''jsonrpc'' @ '':'' @ quoted ''2.0'' @ '','' @ quoted ''id'' @ '':'' @ i
     @ '','' @ quoted ''method'' @ '':'' @ m @ '','' @ quoted ''params'' @ '':'' @ params @ ''}''"

definition mcp_request ::
    "json_lib \<Rightarrow> bytes \<Rightarrow> bytes \<Rightarrow> bytes \<Rightarrow> mcp_era \<Rightarrow> client_identity \<Rightarrow> mcp_error + bytes" where
  "mcp_request lib i m source era ident =
     bindE (check_text i 128 Invalid_id) (\<lambda>_.
     bindE (check_text m 256 Invalid_method) (\<lambda>_.
     bindE (parameters lib source) (\<lambda>params.
     bindE (mcp_compact_object lib source) (\<lambda>compact.
     bindE (request_params lib params compact era ident) (\<lambda>encoded.
     catch_json (
       bindE (dumpE lib (JStr i)) (\<lambda>i'.
       bindE (dumpE lib (JStr m)) (\<lambda>m'.
       bindE (decode lib (request_text i' m' encoded)) (\<lambda>_.
         Inr (request_text i' m' encoded @ [newline]))))))))))"

definition mcp_notification :: "json_lib \<Rightarrow> bytes \<Rightarrow> bytes \<Rightarrow> mcp_error + bytes" where
  "mcp_notification lib m source =
     bindE (check_text m 256 Invalid_method) (\<lambda>_. bindE (parameters lib source) (\<lambda>params.
       frame lib (JObj [(''jsonrpc'', JStr ''2.0''), (''method'', JStr m), (''params'', params)])))"

text \<open>The revalidation both peer replies start with: the envelope is decoded again.\<close>

definition peer_request :: "json_lib \<Rightarrow> mcp_message \<Rightarrow> mcp_era \<Rightarrow> mcp_error + mcp_message" where
  "peer_request lib request era =
     (if era \<noteq> Legacy then Inl Peer_modern
      else bindE (decode lib (raw request)) (\<lambda>d.
        if kind d \<noteq> Request \<or> kind request \<noteq> kind d \<or> msg_id request \<noteq> msg_id d
          \<or> msg_method request \<noteq> msg_method d \<or> payload request \<noteq> payload d
        then Inl Invalid_peer_request else Inr d))"

definition mcp_peer_reply :: "json_lib \<Rightarrow> mcp_message \<Rightarrow> mcp_era \<Rightarrow> mcp_error + bytes" where
  "mcp_peer_reply lib request era =
     bindE (peer_request lib request era) (\<lambda>d.
     bindE (mcp_parse lib (msg_id d)) (\<lambda>i.
       frame lib (JObj (if msg_method d = ''ping''
         then [(''id'', i), (''jsonrpc'', JStr ''2.0''), (''result'', JObj [])]
         else [(''error'', JObj [(''code'', JInt (- 32601)),
                 (''message'', JStr ''Client method is not supported'')]),
               (''id'', i), (''jsonrpc'', JStr ''2.0'')]))))"

definition mcp_peer_result :: "json_lib \<Rightarrow> mcp_message \<Rightarrow> mcp_era \<Rightarrow> bytes \<Rightarrow> mcp_error + bytes" where
  "mcp_peer_result lib request era result_json =
     bindE (peer_request lib request era) (\<lambda>d.
       if msg_method d \<noteq> ''elicitation/create'' \<and> msg_method d \<noteq> ''roots/list''
       then Inl No_client_handler
       else bindE (mcp_compact_object lib result_json) (\<lambda>compact.
         let response = ''{'' @ quoted ''jsonrpc'' @ '':'' @ quoted ''2.0'' @ '','' @ quoted ''id''
           @ '':'' @ msg_id d @ '','' @ quoted ''result'' @ '':'' @ compact @ ''}'' in
         bindE (decode lib response) (\<lambda>_. Inr (response @ [newline]))))"

section \<open>The line stream\<close>

text \<open>
  \<open>sink\<close> is the owner's callback: its new state, and whether it returned rather than threw. An
  exception of \<open>feed\<close> carries the state the stream is left in.
\<close>

record 'k line_stream =
  sink_state :: 'k
  pending :: bytes
  failed :: bool
  closed :: bool

type_synonym 'k line_result = "(mcp_error \<times> 'k line_stream) + 'k line_stream"

definition line_stream_new :: "'k \<Rightarrow> 'k line_stream" where
  "line_stream_new k = \<lparr>sink_state = k, pending = [], failed = False, closed = False\<rparr>"

definition fail_stream :: "mcp_error \<Rightarrow> 'k line_stream \<Rightarrow> 'k line_result" where
  "fail_stream e s = Inl (e, s\<lparr>failed := True, pending := []\<rparr>)"

definition append_pending :: "'k line_stream \<Rightarrow> bytes \<Rightarrow> 'k line_result" where
  "append_pending s bs =
     (if length bs > message_limit - length (pending s) then fail_stream Line_limit s
      else Inr (s\<lparr>pending := pending s @ bs\<rparr>))"

definition complete_line ::
    "json_lib \<Rightarrow> ('k \<Rightarrow> mcp_message \<Rightarrow> 'k \<times> bool) \<Rightarrow> 'k line_stream \<Rightarrow> 'k line_result" where
  "complete_line lib sink s =
     (let line = (if pending s \<noteq> [] \<and> last (pending s) = CHR 0x0D then butlast (pending s)
                  else pending s) in
      case decode lib line of Inl e \<Rightarrow> fail_stream e s
      | Inr msg \<Rightarrow>
          let (k, returned) = sink (sink_state s) msg; t = s\<lparr>sink_state := k, pending := []\<rparr> in
          if returned then Inr t else fail_stream Sink_exception t)"

function line_loop ::
    "json_lib \<Rightarrow> ('k \<Rightarrow> mcp_message \<Rightarrow> 'k \<times> bool) \<Rightarrow> 'k line_stream \<Rightarrow> bytes \<Rightarrow> 'k line_result" where
  "line_loop lib sink s bs =
     (if bs = [] then Inr s
      else if newline \<notin> set bs then append_pending s bs
      else bindE (append_pending s (takeWhile (\<lambda>c. c \<noteq> newline) bs)) (\<lambda>t.
        bindE (complete_line lib sink t) (\<lambda>u.
          line_loop lib sink u (tl (dropWhile (\<lambda>c. c \<noteq> newline) bs)))))"
  by pat_completeness auto
termination
  by (relation "measure (\<lambda>(lib, sink, s, bs). length bs)")
    (auto intro: order.strict_trans1 [OF _ diff_less] simp: less_Suc_eq_le
      length_dropWhile_le diff_le_mono intro!: le_less_trans [OF diff_le_mono [OF length_dropWhile_le]])

declare line_loop.simps [simp del]

definition mcp_feed ::
    "json_lib \<Rightarrow> ('k \<Rightarrow> mcp_message \<Rightarrow> 'k \<times> bool) \<Rightarrow> 'k line_stream \<Rightarrow> bytes \<Rightarrow> 'k line_result" where
  "mcp_feed lib sink s bs =
     (if failed s \<or> closed s then Inl (Stream_unusable, s) else line_loop lib sink s bs)"

definition mcp_finish :: "'k line_stream \<Rightarrow> 'k line_result" where
  "mcp_finish s =
     (if failed s then Inl (Stream_failed, s)
      else if pending s \<noteq> [] then fail_stream Incomplete_line s
      else Inr (s\<lparr>closed := True\<rparr>))"

section \<open>The text the scanners read\<close>

lemma map_prod_pair: "map_prod f g p = (f (fst p), g (snd p))"
  by (cases p) simp

text \<open>The texts of JSON values with any white space between tokens.\<close>

definition spaces :: "bytes \<Rightarrow> bool" where
  "spaces w \<longleftrightarrow> (\<forall>c \<in> set w. json_space c)"

definition plain_char :: "char \<Rightarrow> bool" where
  "plain_char c \<longleftrightarrow> \<not> json_space c \<and> \<not> opens c \<and> \<not> closes c \<and> c \<noteq> CHR 0x22 \<and> c \<noteq> CHR '',''"

inductive string_body :: "bytes \<Rightarrow> bool" where
  empty: "string_body []"
| plain: "c \<noteq> CHR 0x22 \<Longrightarrow> c \<noteq> CHR 0x5C \<Longrightarrow> string_body b \<Longrightarrow> string_body (c # b)"
| escape: "string_body b \<Longrightarrow> string_body (CHR 0x5C # c # b)"

inductive value_text :: "bytes \<Rightarrow> bool" and items_text :: "bytes list \<Rightarrow> bytes \<Rightarrow> bool"
  and fields_text :: "(bytes \<times> bytes) list \<Rightarrow> bytes \<Rightarrow> bool" where
  scalar: "s \<noteq> [] \<Longrightarrow> list_all plain_char s \<Longrightarrow> value_text s"
| string: "string_body b \<Longrightarrow> value_text (quoted b)"
| empty_array: "spaces w \<Longrightarrow> value_text (''['' @ w @ '']'')"
| array: "items_text vs t \<Longrightarrow> value_text (''['' @ t @ '']'')"
| empty_object: "spaces w \<Longrightarrow> value_text (''{'' @ w @ ''}'')"
| object: "fields_text kvs t \<Longrightarrow> value_text (''{'' @ t @ ''}'')"
| item: "spaces w \<Longrightarrow> value_text v \<Longrightarrow> spaces w' \<Longrightarrow> items_text [v] (w @ v @ w')"
| items: "spaces w \<Longrightarrow> value_text v \<Longrightarrow> spaces w' \<Longrightarrow> items_text vs t \<Longrightarrow>
    items_text (v # vs) (w @ v @ w' @ '','' @ t)"
| field: "spaces w \<Longrightarrow> string_body b \<Longrightarrow> spaces w1 \<Longrightarrow> spaces w2 \<Longrightarrow> value_text v \<Longrightarrow> spaces w' \<Longrightarrow>
    fields_text [(b, v)] (w @ quoted b @ w1 @ '':'' @ w2 @ v @ w')"
| fields: "spaces w \<Longrightarrow> string_body b \<Longrightarrow> spaces w1 \<Longrightarrow> spaces w2 \<Longrightarrow> value_text v \<Longrightarrow> spaces w' \<Longrightarrow>
    fields_text kvs t \<Longrightarrow>
    fields_text ((b, v) # kvs) (w @ quoted b @ w1 @ '':'' @ w2 @ v @ w' @ '','' @ t)"

text \<open>A text the scan passes without stopping, from the depths \<open>D\<close>.\<close>

definition passes :: "nat \<Rightarrow> bytes \<Rightarrow> bool" where
  "passes D t \<longleftrightarrow> (\<forall>d \<ge> D. \<forall>rest. raw_scan (d, False, False) (t @ rest) =
     (t @ fst (raw_scan (d, False, False) rest), snd (raw_scan (d, False, False) rest)))"

lemma passesD: "passes D t \<Longrightarrow> D \<le> d \<Longrightarrow>
  raw_scan (d, False, False) (t @ rest) = (t @ fst (raw_scan (d, False, False) rest), snd (raw_scan (d, False, False) rest))"
  by (simp add: passes_def)

lemma passes_append: "passes D s \<Longrightarrow> passes D t \<Longrightarrow> passes D (s @ t)"
  by (simp add: passes_def map_prod_pair)

lemma passes_le: "passes D t \<Longrightarrow> D \<le> D' \<Longrightarrow> passes D' t"
  by (auto simp: passes_def)

lemma passes_nil: "passes D []"
  by (simp add: passes_def)

lemma passes_char: "(\<And>d. D \<le> d \<Longrightarrow> raw_next (d, False, False) c = Some (d, False, False)) \<Longrightarrow> passes D [c]"
  by (simp add: passes_def map_prod_pair)

lemma passes_Cons: "passes D [c] \<Longrightarrow> passes D t \<Longrightarrow> passes D (c # t)"
  using passes_append [of D "[c]" t] by simp

lemma passes_plain: "list_all plain_char s \<Longrightarrow> passes D s"
  by (induction s) (auto simp: passes_nil plain_char_def intro!: passes_Cons passes_char)

lemma space_plain:
  assumes "json_space c"
  shows "\<not> opens c" "\<not> closes c" "c \<noteq> CHR 0x22" "c \<noteq> CHR '',''"
  using assms by (auto simp: json_space_def opens_def closes_def)

lemma passes_spaces: "spaces w \<Longrightarrow> passes D w"
  by (induction w)
    (auto simp: passes_nil spaces_def space_plain intro!: passes_Cons passes_char)

lemma scan_body: "string_body b \<Longrightarrow>
  raw_scan (d, True, False) (b @ CHR 0x22 # rest) =
    (b @ CHR 0x22 # fst (raw_scan (d, False, False) rest), snd (raw_scan (d, False, False) rest))"
  by (induction rule: string_body.induct) (simp_all add: map_prod_pair)

lemma passes_quoted: "string_body b \<Longrightarrow> passes D (quoted b)"
  by (simp add: passes_def quoted_def scan_body map_prod_pair)

lemma passes_nested:
  assumes "opens p" and "closes q" and "passes (Suc 0) t" and "p \<noteq> CHR 0x22"
  shows "passes D ([p] @ t @ [q])"
proof -
  have "q \<noteq> CHR 0x22" "\<not> opens q" using assms(2) by (auto simp: opens_def closes_def)
  then show ?thesis
    using assms by (simp add: passes_def map_prod_pair)
qed

lemma passes_comma: "passes (Suc 0) t \<Longrightarrow> passes (Suc 0) (CHR '','' # t)"
  by (rule passes_Cons [OF passes_char]) (auto simp: opens_def closes_def)

lemma passes_colon: "passes D t \<Longrightarrow> passes D (CHR '':'' # t)"
  by (rule passes_Cons [OF passes_char]) (auto simp: opens_def closes_def)

lemma texts_pass:
  "value_text v \<Longrightarrow> passes 0 v"
  "items_text vs t \<Longrightarrow> passes (Suc 0) t"
  "fields_text kvs u \<Longrightarrow> passes (Suc 0) u"
proof (induction rule: value_text_items_text_fields_text.inducts)
  case (item w v w')
  then show ?case using passes_le [of 0 v "Suc 0"] by (simp add: passes_append passes_spaces)
next
  case (items w v w' vs t)
  then show ?case using passes_le [of 0 v "Suc 0"]
    by (simp add: passes_append passes_spaces passes_comma)
next
  case (field w b w1 w2 v w')
  then show ?case using passes_le [of 0 v "Suc 0"]
    by (simp add: passes_append passes_spaces passes_colon passes_quoted)
next
  case (fields w b w1 w2 v w' kvs t)
  then show ?case using passes_le [of 0 v "Suc 0"]
    by (simp add: passes_append passes_spaces passes_colon passes_quoted passes_comma)
next
  case (empty_array w)
  then show ?case using passes_nested [of "CHR ''[''" "CHR '']''" w 0]
    by (simp add: opens_def closes_def passes_spaces)
next
  case (array vs t)
  then show ?case using passes_nested [of "CHR ''[''" "CHR '']''" t 0]
    by (simp add: opens_def closes_def)
next
  case (empty_object w)
  then show ?case using passes_nested [of "CHR ''{''" "CHR ''}''" w 0]
    by (simp add: opens_def closes_def passes_spaces)
next
  case (object kvs t)
  then show ?case using passes_nested [of "CHR ''{''" "CHR ''}''" t 0]
    by (simp add: opens_def closes_def)
qed (simp_all add: passes_plain passes_quoted)

lemma no_space_quote: "\<not> json_space (CHR 0x22)" "\<not> json_space (CHR ''['')" "\<not> json_space (CHR '']'')"
  "\<not> json_space (CHR ''{'')" "\<not> json_space (CHR ''}'')" "\<not> json_space (CHR '','')"
  "\<not> json_space (CHR '':'')"
  by (simp_all add: json_space_def)

lemma value_ends:
  assumes "value_text v"
  shows "v \<noteq> [] \<and> \<not> json_space (hd v) \<and> \<not> json_space (last v) \<and> hd v \<noteq> CHR '']'' \<and> hd v \<noteq> CHR ''}''"
  using assms
proof (cases rule: value_text.cases)
  case scalar
  then show ?thesis
    by (auto simp: list_all_iff plain_char_def closes_def dest: hd_in_set last_in_set)
qed (auto simp: quoted_def no_space_quote)

text \<open>A value followed by what may follow it is read whole, its trailing white space dropped.\<close>

lemma raw_value_reads:
  assumes "spaces w" and "value_text v" and "spaces w'" and "rest \<noteq> []"
    and "hd rest = CHR '','' \<or> closes (hd rest)"
  shows "raw_value (w @ v @ w' @ rest) = (v, rest)"
proof -
  obtain c cs where rest: "rest = c # cs" using assms(4) by (cases rest) auto
  have stop: "raw_scan (0, False, False) rest = ([], rest)"
    using assms(5) by (auto simp: rest opens_def closes_def)
  have "skip_space (w @ v @ w' @ rest) = v @ w' @ rest"
    using assms(1) value_ends [OF assms(2)]
    by (simp add: skip_space_append spaces_def skip_space_id)
  moreover have "raw_scan (0, False, False) (v @ w' @ rest) = (v @ w', rest)"
    using passesD [OF texts_pass(1) [OF assms(2)], of 0]
      passesD [OF passes_spaces [OF assms(3)], of 0 0] by (simp add: stop)
  moreover have "trim_end (v @ w') = v"
    using assms(3) value_ends [OF assms(2)] by (simp add: trim_end_spaces spaces_def trim_end_id)
  ultimately show ?thesis by (simp add: raw_value_def)
qed

lemma raw_value_reads_trimmed:
  assumes "value_text v" and "spaces w'" and "rest \<noteq> []" and "hd rest = CHR '','' \<or> closes (hd rest)"
  shows "raw_value (v @ w' @ rest) = (v, rest)"
  using raw_value_reads [of "[]" v w' rest] assms by (simp add: spaces_def)

lemma array_elements_reads:
  "items_text vs t \<Longrightarrow> length found + length vs \<le> 128 \<Longrightarrow>
   array_elements found (skip_space (t @ CHR '']'' # rest)) = Inr (found @ vs)"
proof (induction vs arbitrary: t found)
  case Nil
  then show ?case by (auto elim: items_text.cases)
next
  case (Cons v vs)
  from Cons.prems(1) show ?case
  proof (cases rule: items_text.cases)
    case (item w w')
    have start: "skip_space (t @ CHR '']'' # rest) = v @ w' @ CHR '']'' # rest"
      using item value_ends [of v] by (simp add: skip_space_append spaces_def skip_space_id)
    have "raw_value (v @ w' @ CHR '']'' # rest) = (v, CHR '']'' # rest)"
      using item by (intro raw_value_reads_trimmed) (auto simp: closes_def)
    then show ?thesis
      using item Cons.prems(2) value_ends [of v] unfolding start
      by (cases v) (auto simp: array_elements.simps [of found] skip_space_id no_space_quote)
  next
    case (items w w' u)
    have start: "skip_space (t @ CHR '']'' # rest) = v @ w' @ CHR '','' # u @ CHR '']'' # rest"
      using items value_ends [of v] by (simp add: skip_space_append spaces_def skip_space_id)
    have "raw_value (v @ w' @ CHR '','' # u @ CHR '']'' # rest) = (v, CHR '','' # u @ CHR '']'' # rest)"
      using items by (intro raw_value_reads_trimmed) auto
    moreover have "array_elements (found @ [v]) (skip_space (u @ CHR '']'' # rest)) =
        Inr ((found @ [v]) @ vs)"
      using items Cons.prems(2) by (intro Cons.IH) auto
    ultimately show ?thesis
      using items Cons.prems(2) value_ends [of v] unfolding start
      by (cases v) (auto simp: array_elements.simps [of found] skip_space_id no_space_quote)
  qed
qed

lemma name_scan_body: "string_body b \<Longrightarrow>
  name_scan False (b @ CHR 0x22 # rest) = (b @ [CHR 0x22], rest)"
  by (induction rule: string_body.induct) simp_all

definition names :: "json_lib \<Rightarrow> (bytes \<Rightarrow> bytes) \<Rightarrow> (bytes \<times> bytes) list \<Rightarrow> bool" where
  "names lib name kvs \<longleftrightarrow> (\<forall>(b, v) \<in> set kvs. json_text lib (quoted b) = Some (JStr (name b)))"

lemma object_step:
  assumes "string_body b" and "spaces w1" and "spaces w2" and "value_text v" and "spaces w'"
    and "rest \<noteq> []" and "hd rest = CHR '','' \<or> hd rest = CHR ''}''"
    and "json_text lib (quoted b) = Some (JStr n)"
  shows "object_members lib k (quoted b @ w1 @ '':'' @ w2 @ v @ w' @ rest) =
    (if n = k then Inr (Some v)
     else if hd rest = CHR ''}'' then Inr None
     else object_members lib k (skip_space (tl rest)))"
proof -
  let ?after = "b @ CHR 0x22 # w1 @ CHR '':'' # w2 @ v @ w' @ rest"
  have cursor: "quoted b @ w1 @ '':'' @ w2 @ v @ w' @ rest = CHR 0x22 # ?after"
    by (simp add: quoted_def)
  have scan: "name_scan False ?after = (b @ [CHR 0x22], w1 @ CHR '':'' # w2 @ v @ w' @ rest)"
    using assms(1) by (rule name_scan_body)
  have colon: "skip_space (w1 @ CHR '':'' # w2 @ v @ w' @ rest) = CHR '':'' # w2 @ v @ w' @ rest"
    using assms(2) by (simp add: skip_space_append spaces_def skip_space_id no_space_quote)
  have read: "raw_value (w2 @ v @ w' @ rest) = (v, rest)"
    using assms(3-7) by (intro raw_value_reads) (auto simp: closes_def)
  have stop: "skip_space rest = rest"
    using assms(6,7) by (auto simp: skip_space_id no_space_quote)
  have name: "json_text lib (CHR 0x22 # b @ [CHR 0x22]) = Some (JStr n)"
    using assms(8) by (simp add: quoted_def)
  show ?thesis
    unfolding cursor using assms(6)
    by (subst object_members.simps) (auto simp: scan colon read stop name Let_def split: list.split)
qed

lemma object_members_reads:
  "fields_text kvs t \<Longrightarrow> names lib name kvs \<Longrightarrow>
   object_members lib k (skip_space (t @ CHR ''}'' # rest)) =
     Inr (map_of (map (map_prod name id) kvs) k)"
proof (induction kvs arbitrary: t)
  case Nil
  then show ?case by (auto elim: fields_text.cases)
next
  case (Cons kv kvs)
  have start: "skip_space (w @ quoted b @ s) = quoted b @ s" if "spaces w" for w b s
    using that by (simp add: skip_space_append spaces_def skip_space_id quoted_def no_space_quote)
  from Cons.prems(1) show ?case
  proof (cases rule: fields_text.cases)
    case (field w b w1 w2 v w')
    have "json_text lib (quoted b) = Some (JStr (name b))"
      using Cons.prems(2) field by (simp add: names_def)
    from object_step [OF _ _ _ _ _ _ _ this, of w1 w2 v w' "CHR ''}'' # rest" k]
    show ?thesis using field by (simp add: start [simplified])
  next
    case (fields w b w1 w2 v w' u)
    have "json_text lib (quoted b) = Some (JStr (name b))"
      using Cons.prems(2) fields by (simp add: names_def)
    from object_step [OF _ _ _ _ _ _ _ this, of w1 w2 v w' "CHR '','' # u @ CHR ''}'' # rest" k]
    show ?thesis using fields Cons by (simp add: start [simplified] names_def)
  qed
qed

section \<open>Compaction\<close>

text \<open>Every character of a text with whether it lies in a string, escapes counted.\<close>

fun string_marks :: "bool \<Rightarrow> bytes \<Rightarrow> (bool \<times> char) list" where
  "string_marks inside [] = []"
| "string_marks False (c # cs) = (False, c) # string_marks (c = CHR 0x22) cs"
| "string_marks True [c] = [(True, c)]"
| "string_marks True (c # d # cs) =
     (if c = CHR 0x5C then (True, c) # (True, d) # string_marks True cs
      else (True, c) # string_marks (c \<noteq> CHR 0x22) (d # cs))"

lemma string_marks_plain:
  "c \<noteq> CHR 0x5C \<Longrightarrow> string_marks True (c # s) = (True, c) # string_marks (c \<noteq> CHR 0x22) s"
  by (cases s) auto

lemma compact_scan_quoted:
  "c \<noteq> CHR 0x5C \<Longrightarrow>
   compact_scan (True, False) (c # s) = c # compact_scan (c \<noteq> CHR 0x22, False) s"
  by simp

lemma compact_scan_marks:
  "string_marks inside (compact_scan (inside, False) s) =
     filter (\<lambda>(inside, c). inside \<or> \<not> json_space c) (string_marks inside s)"
proof (induction inside s rule: string_marks.induct)
  case (2 c cs)
  then show ?case by (auto simp: no_space_quote)
next
  case (3 c)
  then show ?case by (simp add: Let_def)
next
  case (4 c d cs)
  show ?case
  proof (cases "c = CHR 0x5C")
    case True
    then show ?thesis using 4 by simp
  next
    case False
    then show ?thesis
      using 4(2) by (simp add: string_marks_plain compact_scan_quoted del: compact_scan.simps)
  qed
qed simp_all

section \<open>Feeding the line stream\<close>

lemma line_loop_nil: "line_loop lib sink s [] = Inr s"
  by (simp add: line_loop.simps)

lemma append_pending_Cons:
  "append_pending s (c # cs) = bindE (append_pending s [c]) (\<lambda>t. append_pending t cs)"
  by (auto simp: append_pending_def fail_stream_def)

lemma append_pending_nil: "append_pending s [] = Inr s"
  by (simp add: append_pending_def)

lemma line_loop_Cons:
  "line_loop lib sink s (c # cs) = bindE (line_loop lib sink s [c]) (\<lambda>t. line_loop lib sink t cs)"
proof (cases "c = newline")
  case True
  have "line_loop lib sink s [c] = complete_line lib sink s"
    using True
    by (subst line_loop.simps) (simp add: append_pending_nil line_loop_nil bindE_return)
  moreover have "line_loop lib sink s (c # cs) =
      bindE (complete_line lib sink s) (\<lambda>t. line_loop lib sink t cs)"
    using True by (subst line_loop.simps) (simp add: append_pending_nil)
  ultimately show ?thesis by simp
next
  case False
  have one: "line_loop lib sink s [c] = append_pending s [c]"
    using False by (subst line_loop.simps) simp
  show ?thesis
  proof (cases "newline \<in> set cs")
    case True
    have "line_loop lib sink s (c # cs) =
        bindE (append_pending s (c # takeWhile (\<lambda>c. c \<noteq> newline) cs)) (\<lambda>t.
          bindE (complete_line lib sink t) (\<lambda>u.
            line_loop lib sink u (tl (dropWhile (\<lambda>c. c \<noteq> newline) cs))))"
      using True False by (subst line_loop.simps) simp
    moreover have "line_loop lib sink t cs =
        bindE (append_pending t (takeWhile (\<lambda>c. c \<noteq> newline) cs)) (\<lambda>t.
          bindE (complete_line lib sink t) (\<lambda>u.
            line_loop lib sink u (tl (dropWhile (\<lambda>c. c \<noteq> newline) cs))))" for t
      using True by (subst line_loop.simps) auto
    ultimately show ?thesis
      by (simp add: one bindE_assoc append_pending_Cons [of s c "takeWhile (\<lambda>c. c \<noteq> newline) cs"])
  next
    case none: False
    have "line_loop lib sink t cs = append_pending t cs" for t
      using none by (subst line_loop.simps) (simp add: append_pending_nil)
    moreover have "line_loop lib sink s (c # cs) = append_pending s (c # cs)"
      using none False by (subst line_loop.simps) simp
    ultimately show ?thesis by (simp add: one append_pending_Cons [of s c cs])
  qed
qed

lemma line_loop_steps:
  "line_loop lib sink s bs = foldE (\<lambda>s b. line_loop lib sink s [b]) s bs"
proof (induction bs arbitrary: s)
  case (Cons c cs)
  show ?case by (simp add: line_loop_Cons [of lib sink s c cs] Cons.IH)
qed (simp add: line_loop_nil)

interpretation line_bytes:
  byte_machine "line_loop lib sink" "\<lambda>s b. line_loop lib sink s [b]" for lib sink
  by unfold_locales (rule line_loop_steps)

lemma line_loop_live:
  "line_loop lib sink s bs = Inr t \<Longrightarrow> \<not> failed s \<and> \<not> closed s \<Longrightarrow> \<not> failed t \<and> \<not> closed t"
proof (induction lib sink s bs rule: line_loop.induct)
  case (1 lib sink s bs)
  have keep: "append_pending s p = Inr v \<Longrightarrow> failed v = failed s \<and> closed v = closed s" for p v
    by (auto simp: append_pending_def fail_stream_def split: if_splits)
  have ended: "complete_line lib sink v = Inr u \<Longrightarrow> failed u = failed v \<and> closed u = closed v" for v u
    by (auto simp: complete_line_def Let_def fail_stream_def split: if_splits sum.splits prod.splits)
  show ?case
  proof (cases "bs = [] \<or> newline \<notin> set bs")
    case True
    then show ?thesis using 1(2,3) keep by (subst (asm) line_loop.simps) (auto split: if_splits)
  next
    case False
    then obtain v u where "append_pending s (takeWhile (\<lambda>c. c \<noteq> newline) bs) = Inr v"
      "complete_line lib sink v = Inr u"
      "line_loop lib sink u (tl (dropWhile (\<lambda>c. c \<noteq> newline) bs)) = Inr t"
      using 1(2) by (subst (asm) line_loop.simps) (auto simp: result_simps)
    then show ?thesis using 1(1) [of v u] 1(3) False keep ended by metis
  qed
qed

text \<open>One complete line, then any others: the line's message reaches the sink first.\<close>

lemma feed_line:
  assumes "\<not> failed s" and "\<not> closed s" and "pending s = []" and "newline \<notin> set line"
    and "decode lib line = Inr msg" and "sink (sink_state s) msg = (k, True)"
    and "line = [] \<or> last line \<noteq> CHR 0x0D"
  shows "mcp_feed lib sink s (line @ newline # rest) = mcp_feed lib sink (s\<lparr>sink_state := k\<rparr>) rest"
proof -
  have "length line \<le> message_limit"
    using assms(5) by (auto simp: decode_def mcp_parse_def result_simps split: if_splits)
  then have "append_pending s line = Inr (s\<lparr>pending := line\<rparr>)"
    using assms(3) by (simp add: append_pending_def)
  moreover have "complete_line lib sink (s\<lparr>pending := line\<rparr>) = Inr (s\<lparr>sink_state := k, pending := []\<rparr>)"
    using assms(5-7) by (auto simp: complete_line_def)
  moreover have "s\<lparr>sink_state := k, pending := []\<rparr> = s\<lparr>sink_state := k\<rparr>"
    using assms(3) by simp
  moreover have "takeWhile (\<lambda>c. c \<noteq> newline) (line @ newline # rest) = line"
    "dropWhile (\<lambda>c. c \<noteq> newline) (line @ newline # rest) = newline # rest"
    using assms(4) by (auto simp: takeWhile_tail dropWhile_append takeWhile_append)
  ultimately have "line_loop lib sink s (line @ newline # rest) =
      line_loop lib sink (s\<lparr>sink_state := k\<rparr>) rest"
    by (subst line_loop.simps) simp
  then show ?thesis using assms(1,2) by (simp add: mcp_feed_def)
qed

section \<open>Framing\<close>

text \<open>
  What the program relies on in the library: the strings of a text it accepts hold no raw line
  feed, and a text it dumps holds none at all, control characters being escaped.
\<close>

definition escapes_newlines :: "json_lib \<Rightarrow> bool" where
  "escapes_newlines lib \<longleftrightarrow>
     (\<forall>bs v. json_text lib bs = Some v \<longrightarrow> (True, newline) \<notin> set (string_marks False bs)) \<and>
     (\<forall>v s. dump lib v = Some s \<longrightarrow> newline \<notin> set s)"

lemma snd_string_marks: "map snd (string_marks inside s) = s"
  by (induction inside s rule: string_marks.induct) auto

lemma compact_one_line:
  assumes "escapes_newlines lib" and "mcp_compact_object lib source = Inr out"
  shows "newline \<notin> set out"
proof
  assume "newline \<in> set out"
  then obtain q where "(q, newline) \<in> set (string_marks False out)"
    using snd_string_marks [of False out] by (metis (no_types) imageE list.set_map prod.collapse)
  moreover obtain v where v: "json_text lib source = Some v"
    and out: "out = compact_scan (False, False) source"
    using assms(2) by (auto simp: mcp_compact_object_def parameters_def mcp_parse_def json_text_def
        result_simps split: if_splits option.splits)
  ultimately have "(q, newline) \<in> set (string_marks False source) \<and> q"
    using compact_scan_marks [of False source] by (auto simp: newline_def json_space_def)
  then show False using assms(1) v by (auto simp: escapes_newlines_def)
qed

lemma dump_one_line: "escapes_newlines lib \<Longrightarrow> dumpE lib v = Inr s \<Longrightarrow> newline \<notin> set s"
  by (auto simp: escapes_newlines_def dumpE_def split: option.splits)

lemma catch_json_Inr [result_simps]: "catch_json r = Inr x \<longleftrightarrow> r = Inr x"
  by (cases r) (auto simp: catch_json_def)

lemma params_one_line:
  assumes "escapes_newlines lib" and "newline \<notin> set compact"
    and "request_params lib params compact era ident = Inr encoded"
  shows "newline \<notin> set encoded"
  using assms dump_one_line [OF assms(1)]
  by (auto simp: request_params_def result_simps newline_def dest: in_set_butlastD split: if_splits)

lemma request_text_one_line:
  "newline \<notin> set i \<Longrightarrow> newline \<notin> set m \<Longrightarrow> newline \<notin> set p \<Longrightarrow> newline \<notin> set (request_text i m p)"
  by (simp add: request_text_def quoted_def newline_def)

lemma request_line:
  assumes "escapes_newlines lib" and "mcp_request lib i m source era ident = Inr out"
  shows "\<exists>line msg. out = line @ [newline] \<and> newline \<notin> set line \<and> last line = CHR ''}'' \<and>
    decode lib line = Inr msg"
proof -
  obtain params compact encoded i' m' msg where
    compact: "mcp_compact_object lib source = Inr compact" and
    encoded: "request_params lib params compact era ident = Inr encoded" and
    parts: "dumpE lib (JStr i) = Inr i'" "dumpE lib (JStr m) = Inr m'"
      "decode lib (request_text i' m' encoded) = Inr msg" and
    out: "out = request_text i' m' encoded @ [newline]"
    using assms(2) unfolding mcp_request_def result_simps by blast
  have "newline \<notin> set (request_text i' m' encoded)"
    using params_one_line [OF assms(1) compact_one_line [OF assms(1) compact] encoded]
      dump_one_line [OF assms(1) parts(1)] dump_one_line [OF assms(1) parts(2)]
    by (intro request_text_one_line)
  moreover have "last (request_text i' m' encoded) = CHR ''}''" by (simp add: request_text_def)
  ultimately show ?thesis using parts out by blast
qed

section \<open>What the wire layer promises\<close>

text \<open>A small library for the examples: the empty object, one request, one array, plain strings.\<close>

definition wire_request :: bytes where
  "wire_request = request_text (quoted ''7'') (quoted ''ping'') ''{}''"

definition wire_members :: "(bytes \<times> json) list" where
  "wire_members = [(''id'', JStr ''7''), (''jsonrpc'', JStr ''2.0''), (''method'', JStr ''ping''),
     (''params'', JObj [])]"

definition wire_tree :: raw_tree where
  "wire_tree = Raw_object [(''jsonrpc'', Raw_scalar), (''id'', Raw_scalar), (''method'', Raw_scalar),
     (''params'', Raw_object [])]"

definition simple_string :: "bytes \<Rightarrow> bool" where
  "simple_string bs \<longleftrightarrow> length bs \<ge> 2 \<and> hd bs = CHR 0x22 \<and> last bs = CHR 0x22 \<and>
     CHR 0x22 \<notin> set (butlast (tl bs)) \<and> CHR 0x5C \<notin> set bs \<and> newline \<notin> set bs"

definition wire_lib :: json_lib where
  "wire_lib = \<lparr>
     sax = (\<lambda>bs.
       if bs = ''{}'' then (events 0 (Raw_object []), Some (JObj []))
       else if bs = wire_request then (events 0 wire_tree, Some (JObj wire_members))
       else if bs = ''[1 , 2]'' then (events 0 (Raw_array [Raw_scalar, Raw_scalar]),
         Some (JArr [JInt 1, JInt 2]))
       else if bs = ''{ }'' then (events 0 (Raw_object []), Some (JObj []))
       else if simple_string bs then ([(0, Value)], Some (JStr (butlast (tl bs))))
       else ([], None)),
     dump = (\<lambda>v. if v = JStr ''7'' \<or> v = JStr ''ping'' then Some (quoted (str_of v)) else None),
     same = (=)\<rparr>"

definition wire_ident :: client_identity where
  "wire_ident = \<lparr>client_name = ''xMind'', client_version = ''0.1.0'', capabilities = ''{}''\<rparr>"

lemma marks_subset: "(True, c) \<in> set (string_marks q bs) \<Longrightarrow> c \<in> set bs"
  using snd_string_marks [of q bs] by (metis in_set_conv_nth length_map nth_map nth_mem snd_conv)

lemma wire_request_eq: "wire_request = ''{\"jsonrpc\":\"2.0\",\"id\":\"7\",\"method\":\"ping\",\"params\":{}}''"
  by code_simp

lemma wire_texts: "newline \<notin> set wire_request" "newline \<notin> set ''{}''" "newline \<notin> set ''[1 , 2]''"
  "newline \<notin> set ''{ }''" "newline \<notin> set (quoted ''7'')" "newline \<notin> set (quoted ''ping'')"
  by code_simp+

lemma wire_accepts: "json_text wire_lib bs = Some v \<Longrightarrow>
  bs = ''{}'' \<or> bs = wire_request \<or> bs = ''[1 , 2]'' \<or> bs = ''{ }'' \<or> simple_string bs"
  unfolding json_text_def wire_lib_def by (auto simp del: list.inject split: if_splits)

lemma wire_escapes: "escapes_newlines wire_lib"
  unfolding escapes_newlines_def
proof (intro conjI allI impI)
  fix bs v
  assume "json_text wire_lib bs = Some v"
  then have "newline \<notin> set bs"
    using wire_texts(1-4) by (elim wire_accepts [THEN disjE] disjE) (simp_all only: simple_string_def simp_thms)
  then show "(True, newline) \<notin> set (string_marks False bs)" using marks_subset by blast
next
  fix v s
  assume "dump wire_lib v = Some s"
  then have "s = quoted ''7'' \<or> s = quoted ''ping''"
    unfolding wire_lib_def by (auto split: if_splits)
  then show "newline \<notin> set s" using wire_texts by blast
qed

lemma wire_request_facts: "wire_request \<noteq> []" "length wire_request < 100" "wire_request \<noteq> ''{}''"
  "\<not> 1048576 < length wire_request"
proof -
  show "wire_request \<noteq> []" "length wire_request < 100" "wire_request \<noteq> ''{}''" by code_simp+
  then show "\<not> 1048576 < length wire_request" by simp
qed

lemma wire_sax: "sax wire_lib wire_request = (events 0 wire_tree, Some (JObj wire_members))"
  "sax wire_lib ''{}'' = (events 0 (Raw_object []), Some (JObj []))"
  "sax wire_lib ''{ }'' = (events 0 (Raw_object []), Some (JObj []))"
  by (simp_all add: wire_lib_def wire_request_facts wire_request_def request_text_def quoted_def)

lemma wire_sax_array: "sax wire_lib ''[1 , 2]'' =
    (events 0 (Raw_array [Raw_scalar, Raw_scalar]), Some (JArr [JInt 1, JInt 2]))"
  by (simp add: wire_lib_def wire_request_def request_text_def quoted_def)

lemma wire_parse: "mcp_parse wire_lib wire_request = Inr (JObj wire_members)"
  "mcp_parse wire_lib ''{}'' = Inr (JObj [])" "mcp_parse wire_lib ''{ }'' = Inr (JObj [])"
  "mcp_parse wire_lib ''[1 , 2]'' = Inr (JArr [JInt 1, JInt 2])"
  by (simp_all add: mcp_parse_def message_limit_def wire_sax wire_sax_array wire_request_facts
      wire_tree_def)

lemma wire_string: "simple_string (quoted b) \<Longrightarrow> json_text wire_lib (quoted b) = Some (JStr b)"
  by (simp add: json_text_def wire_lib_def quoted_def wire_request_def request_text_def)

lemma value_one: "value_text ''1''" "value_text ''2''"
  by (auto intro!: scalar simp: plain_char_def json_space_def opens_def closes_def)

lemma wire_items: "items_text [''1'', ''2''] ''1 , 2''"
  using value_text_items_text_fields_text.items [of "[]" "''1''" "'' ''" "[''2'']" "'' 2''"]
    value_text_items_text_fields_text.item [of "'' ''" "''2''" "[]"]
  by (simp add: spaces_def json_space_def value_one)

lemma wire_fields: "fields_text [(''jsonrpc'', quoted ''2.0''), (''id'', quoted ''7''),
    (''method'', quoted ''ping''), (''params'', ''{}'')] (butlast (tl wire_request))"
proof -
  have body: "string_body b" if "CHR 0x22 \<notin> set b" "CHR 0x5C \<notin> set b" for b
    using that by (induction b) (auto intro: string_body.intros)
  have str: "value_text (quoted b)" if "CHR 0x22 \<notin> set b" "CHR 0x5C \<notin> set b" for b
    using body [OF that] by (rule string)
  have no: "spaces []" by (simp add: spaces_def)
  have "value_text ''{}''" using empty_object [OF no] by simp
  from field [OF no body no no this no, of "''params''"]
  have 1: "fields_text [(''params'', ''{}'')] (quoted ''params'' @ '':'' @ ''{}'')" by simp
  from fields [OF no body no no str no 1, of "''method''" "''ping''"]
  have 2: "fields_text [(''method'', quoted ''ping''), (''params'', ''{}'')]
      (quoted ''method'' @ '':'' @ quoted ''ping'' @ '','' @ quoted ''params'' @ '':'' @ ''{}'')"
    by simp
  from fields [OF no body no no str no 2, of "''id''" "''7''"]
  have 3: "fields_text [(''id'', quoted ''7''), (''method'', quoted ''ping''), (''params'', ''{}'')]
      (quoted ''id'' @ '':'' @ quoted ''7'' @ '','' @ quoted ''method'' @ '':'' @ quoted ''ping'' @
       '','' @ quoted ''params'' @ '':'' @ ''{}'')"
    by simp
  from fields [OF no body no no str no 3, of "''jsonrpc''" "''2.0''"]
  show ?thesis by (simp add: wire_request_def request_text_def quoted_def)
qed

lemma wire_names: "names wire_lib id [(''jsonrpc'', quoted ''2.0''), (''id'', quoted ''7''),
    (''method'', quoted ''ping''), (''params'', ''{}'')]"
proof -
  have "simple_string (quoted ''jsonrpc'')" "simple_string (quoted ''id'')"
    "simple_string (quoted ''method'')" "simple_string (quoted ''params'')" by code_simp+
  then show ?thesis by (simp add: names_def wire_string)
qed

lemma wire_split: "CHR ''{'' # butlast (tl wire_request) @ ''}'' = wire_request"
  by code_simp

lemma wire_params: "mcp_object_member wire_lib wire_request ''params'' = Inr (Some ''{}'')"
proof -
  have "advance (skip_space wire_request) = Inr (butlast (tl wire_request) @ ''}'')"
    by (subst wire_split [symmetric]) (simp add: skip_space_id no_space_quote)
  then show ?thesis
    using object_members_reads [OF wire_fields wire_names, of "''params''" "[]"]
    by (simp add: mcp_object_member_def parameters_def wire_parse)
qed

definition wire_message :: mcp_message where
  "wire_message = \<lparr>kind = Request, msg_id = quoted ''7'', msg_method = ''ping'', payload = ''{}'',
     raw = wire_request\<rparr>"

lemma wire_dump: "dump wire_lib (JStr ''7'') = Some (quoted ''7'')"
  "dump wire_lib (JStr ''ping'') = Some (quoted ''ping'')"
  by (simp_all add: wire_lib_def)

lemma wire_decode: "decode wire_lib wire_request = Inr wire_message"
  by (simp add: decode_def wire_parse wire_members_def has_member_def member_def at_key_def
      decode_call_def check_text_def raw_member_def wire_params id_json_def dumpE_def wire_dump
      wire_message_def)

lemma wire_made:
  "mcp_request wire_lib ''7'' ''ping'' ''{ }'' Legacy wire_ident = Inr (wire_request @ [newline])"
proof -
  have "mcp_compact_object wire_lib ''{ }'' = Inr ''{}''"
    by (simp add: mcp_compact_object_def parameters_def wire_parse json_space_def)
  moreover have "request_text (quoted ''7'') (quoted ''ping'') ''{}'' = wire_request"
    by (simp add: wire_request_def)
  ultimately show ?thesis
    by (simp add: mcp_request_def check_text_def parameters_def wire_parse request_params_def
        catch_json_def dumpE_def wire_dump wire_decode)
qed

text \<open>
  C13. The cuts of the input cannot be observed: feeding any number of pieces gives the messages,
  the state or the error that feeding their concatenation at once gives.
\<close>
theorem pieces_unobservable:
  "foldE (mcp_feed lib sink) s (p # ps) = mcp_feed lib sink s (concat (p # ps))"
proof (cases "failed s \<or> closed s")
  case True
  then show ?thesis by (simp add: mcp_feed_def)
next
  case False
  have same: "foldE (mcp_feed lib sink) u qs = foldE (line_loop lib sink) u qs"
    if "\<not> failed u \<and> \<not> closed u" for u qs
    using that
  proof (induction qs arbitrary: u)
    case (Cons q qs)
    then show ?case
      using line_loop_live [of lib sink u q] by (auto simp: mcp_feed_def intro: bindE_cong)
  qed simp
  have "foldE (mcp_feed lib sink) s (p # ps) = foldE (line_loop lib sink) s (p # ps)"
    using False by (intro same) simp
  also have "\<dots> = line_loop lib sink s (concat (p # ps))" by (rule line_bytes.feed_chunks)
  also have "\<dots> = mcp_feed lib sink s (concat (p # ps))" using False by (simp add: mcp_feed_def)
  finally show ?thesis .
qed

text \<open>
  C14. An encoded request is one line: what \<open>mcp_request\<close> returns is a valid message without
  line feeds followed by one, and a peer's live stream that is fed it, whatever follows, hands
  exactly that message to its sink before it reads on.
\<close>
theorem request_reaches_peer:
  assumes "escapes_newlines lib" and "mcp_request lib i m source era ident = Inr out"
    and "\<not> failed s" and "\<not> closed s" and "pending s = []"
    and "\<And>msg. snd (sink (sink_state s) msg)"
  shows "\<exists>line msg. out = line @ [newline] \<and> newline \<notin> set line \<and> decode lib line = Inr msg \<and>
    (\<forall>rest. mcp_feed lib sink s (out @ rest) =
       mcp_feed lib sink (s\<lparr>sink_state := fst (sink (sink_state s) msg)\<rparr>) rest)"
proof -
  obtain line msg where line: "out = line @ [newline]" "newline \<notin> set line"
    "last line = CHR ''}''" "decode lib line = Inr msg"
    using request_line [OF assms(1,2)] by blast
  have "sink (sink_state s) msg = (fst (sink (sink_state s) msg), True)"
    using assms(6) [of msg] by (simp add: prod_eq_iff)
  then have "mcp_feed lib sink s (line @ newline # rest) =
      mcp_feed lib sink (s\<lparr>sink_state := fst (sink (sink_state s) msg)\<rparr>) rest" for rest
    using feed_line [OF assms(3-5) line(2,4)] line(3) by auto
  then show ?thesis using line by auto
qed

theorem request_reaches_peer_witness:
  "\<exists>line msg. wire_request @ [newline] = line @ [newline] \<and> decode wire_lib line = Inr msg \<and>
    (\<forall>rest. mcp_feed wire_lib (\<lambda>k m. (k @ [m], True)) (line_stream_new [])
       ((wire_request @ [newline]) @ rest) =
     mcp_feed wire_lib (\<lambda>k m. (k @ [m], True)) (line_stream_new [msg]) rest)"
  using request_reaches_peer [OF wire_escapes wire_made, of "line_stream_new []"
      "\<lambda>k m. (k @ [m], True)"]
  by (auto simp: line_stream_new_def)

text \<open>
  The array scanner returns exactly the element texts, each as written, for every text of
  at most 128 values whatever white space, nesting and escapes they hold.
\<close>
theorem array_values_exact:
  assumes "items_text vs t" and "length vs \<le> 128" and "spaces w"
    and "mcp_parse lib (w @ ''['' @ t @ '']'' @ w') = Inr (JArr xs)"
  shows "mcp_array_values lib (w @ ''['' @ t @ '']'' @ w') = Inr vs"
proof -
  have "skip_space (w @ ''['' @ t @ '']'' @ w') = ''['' @ t @ '']'' @ w'"
    using assms(3) by (simp add: skip_space_append spaces_def skip_space_id no_space_quote)
  then show ?thesis
    using array_elements_reads [OF assms(1), of "[]" w'] assms(2,4)
    by (simp add: mcp_array_values_def)
qed

theorem array_values_exact_witness: "mcp_array_values wire_lib ''[1 , 2]'' = Inr [''1'', ''2'']"
  using array_values_exact [OF wire_items, of "[]" wire_lib "[]" "[JInt 1, JInt 2]"]
  by (simp add: spaces_def wire_parse)

text \<open>
  The member scanner returns exactly the text of the first member whose decoded name is the
  key, and nothing when no member has that name.
\<close>
theorem object_member_exact:
  assumes "fields_text kvs t" and "spaces w" and "parameters lib (w @ ''{'' @ t @ ''}'' @ w') = Inr v"
    and "\<forall>(b, v) \<in> set kvs. json_text lib (quoted b) = Some (JStr (name b))"
  shows "mcp_object_member lib (w @ ''{'' @ t @ ''}'' @ w') k =
    Inr (map_of (map (map_prod name id) kvs) k)"
proof -
  have "skip_space (w @ ''{'' @ t @ ''}'' @ w') = ''{'' @ t @ ''}'' @ w'"
    using assms(2) by (simp add: skip_space_append spaces_def skip_space_id no_space_quote)
  then show ?thesis
    using object_members_reads [OF assms(1), of lib name k w'] assms(3,4)
    by (simp add: mcp_object_member_def names_def)
qed

theorem object_member_exact_witness:
  "mcp_object_member wire_lib wire_request ''method'' = Inr (Some (quoted ''ping'')) \<and>
   mcp_object_member wire_lib wire_request ''_meta'' = Inr None"
  using object_member_exact [OF wire_fields, of "[]" wire_lib "[]" "JObj wire_members" id] wire_names
  by (simp add: spaces_def wire_split parameters_def wire_parse names_def)

text \<open>
  Compaction drops white space outside strings and nothing else: read with their string
  status, the characters of the result are those of the source without that white space.
\<close>
theorem compact_keeps_tokens:
  assumes "mcp_compact_object lib source = Inr out"
  shows "string_marks False out =
    filter (\<lambda>(inside, c). inside \<or> \<not> json_space c) (string_marks False source)"
  using assms compact_scan_marks [of False source]
  by (auto simp: mcp_compact_object_def result_simps)

theorem compact_keeps_tokens_witness: "string_marks False ''{}'' =
    filter (\<lambda>(inside, c). inside \<or> \<not> json_space c) (string_marks False ''{ }'')"
  by (rule compact_keeps_tokens [of wire_lib])
    (simp add: mcp_compact_object_def parameters_def wire_parse json_space_def)

text \<open>
  On a syntactically valid document the parse callback accepts exactly those within the byte
  limit whose objects have distinct keys and whose nesting is at most 64.
\<close>
theorem parse_accepts_iff:
  assumes "sax lib bs = (events 0 t, Some v)"
  shows "mcp_parse lib bs = Inr v \<longleftrightarrow> bs \<noteq> [] \<and> length bs \<le> message_limit \<and> tree_fits 0 t"
proof (cases "tree_fits 0 t")
  case True
  then show ?thesis using assms by (auto simp: mcp_parse_def parse_events_fit)
next
  case False
  then obtain e where "foldE parse_event [] (events 0 t) = Inl e" using parse_events_reject by blast
  then show ?thesis using assms False by (simp add: mcp_parse_def)
qed

theorem parse_accepts_iff_witness:
  "mcp_parse wire_lib ''{}'' = Inr (JObj []) \<longleftrightarrow> tree_fits 0 (Raw_object [])"
  using parse_accepts_iff [OF wire_sax(2)] by (simp add: message_limit_def)

end
