(* ===== verification/Chat_Stream.thy ===== *)
theory Chat_Stream
  imports Json_Values
begin

text \<open>
  \<open>model_stream.cpp\<close>: the incremental decoder of streamed Chat Completions (server-sent events
  in three dialects) and the table of diagnostics. The exceptions thrown keep their message, which
  is what the table maps. An event sink is a function on its owner's state that also says whether
  it returned; a failing operation carries the state it leaves behind.
\<close>

section \<open>Diagnostics\<close>

definition diagnostic_table :: "(bytes \<times> bytes) list" where
  "diagnostic_table = [
     (''Responses final function differs from stream'',
      ''responses_function_final_mismatch''),
     (''Responses final arguments differ from deltas'',
      ''responses_arguments_mismatch''),
     (''Responses terminal output differs from completed items'',
      ''responses_terminal_mismatch''),
     (''Unsupported Responses event'',
      ''responses_event_unsupported''),
     (''Unsupported Responses output item'',
      ''responses_item_unsupported''),
     (''Responses reasoning lacks stateless continuation'',
      ''responses_reasoning_continuation_missing''),
     (''Unsupported or incomplete Responses reasoning'',
      ''responses_reasoning_incomplete''),
     (''Responses item did not complete'',
      ''responses_item_incomplete''),
     (''Responses turn did not complete'',
      ''responses_turn_incomplete''),
     (''Responses event has no active item'',
      ''responses_item_lifecycle_invalid''),
     (''Invalid Responses function lifecycle'',
      ''responses_function_lifecycle_invalid''),
     (''Responses function starts with unexpected arguments'',
      ''responses_function_start_invalid''),
     (''Invalid provider JSON event'',
      ''provider_json_invalid''),
     (''Invalid Responses JSON event'',
      ''responses_json_invalid''),
     (''Incomplete Responses stream'',
      ''responses_stream_incomplete''),
     (''Provider response failed or was incomplete'',
      ''responses_provider_incomplete''),
     (''Responses output token limit reached'',
      ''responses_output_token_limit''),
     (''Responses provider content filter stopped output'',
      ''responses_content_filter''),
     (''Responses provider server error'',
      ''responses_server_error''),
     (''Responses provider rate limit reached'',
      ''responses_rate_limit''),
     (''Invalid Responses failure event'',
      ''responses_failure_event_invalid''),
     (''Invalid Responses event sequence'',
      ''responses_sequence_invalid''),
     (''Responses SSE event type differs from payload'',
      ''responses_event_type_mismatch''),
     (''Responses item identity changed'',
      ''responses_item_identity_mismatch''),
     (''Responses response identity changed'',
      ''responses_identity_mismatch''),
     (''Responses model identity changed'',
      ''responses_model_identity_mismatch''),
     (''Responses final item identity changed'',
      ''responses_final_identity_mismatch''),
     (''Responses final message differs from stream'',
      ''responses_message_mismatch''),
     (''Responses final text differs from stream'',
      ''responses_text_mismatch''),
     (''Responses summary differs from stream'',
      ''responses_summary_mismatch''),
     (''Invalid Responses usage'',
      ''responses_usage_invalid''),
     (''Invalid Responses token count'',
      ''responses_usage_invalid''),
     (''Invalid Responses token details'',
      ''responses_usage_invalid''),
     (''Responses stream exceeds limits'',
      ''responses_limit_exceeded''),
     (''Responses continuation exceeds limits'',
      ''responses_limit_exceeded''),
     (''Claude provider overloaded'',
      ''anthropic_overloaded_error''),
     (''Claude provider rate limited'',
      ''anthropic_rate_limit_error''),
     (''Claude provider server error'',
      ''anthropic_server_error''),
     (''Claude provider stream failed'',
      ''anthropic_stream_error''),
     (''Claude stream exceeds limits'',
      ''anthropic_stream_limit_exceeded''),
     (''Claude JSON nesting exceeds limits'',
      ''anthropic_json_nesting_exceeded''),
     (''Duplicate Claude JSON field'',
      ''anthropic_json_duplicate_field''),
     (''Invalid Claude string field'',
      ''anthropic_string_field_invalid''),
     (''Invalid Claude identity'',
      ''anthropic_identity_invalid''),
     (''Invalid Claude block object'',
      ''anthropic_block_invalid''),
     (''Unsupported Claude block field'',
      ''anthropic_block_field_unsupported''),
     (''Invalid Claude opaque content'',
      ''anthropic_opaque_content_invalid''),
     (''Invalid Claude token boundary'',
      ''anthropic_token_boundary_invalid''),
     (''Claude tool input exceeds limits'',
      ''anthropic_tool_input_limit_exceeded''),
     (''Claude tool input is not an object'',
      ''anthropic_tool_input_not_object''),
     (''Invalid Claude usage'',
      ''anthropic_usage_invalid''),
     (''Invalid Claude cumulative usage'',
      ''anthropic_usage_counter_invalid''),
     (''Invalid Claude block index'',
      ''anthropic_block_index_invalid''),
     (''Claude block is not active'',
      ''anthropic_block_inactive''),
     (''Claude SSE type differs from payload'',
      ''anthropic_event_type_mismatch''),
     (''Claude data follows terminal event'',
      ''anthropic_data_after_terminal''),
     (''Invalid Claude message start'',
      ''anthropic_message_start_invalid''),
     (''Claude initial usage is missing'',
      ''anthropic_initial_usage_missing''),
     (''Claude message has not started'',
      ''anthropic_message_not_started''),
     (''Claude terminal update repeated'',
      ''anthropic_terminal_update_repeated''),
     (''Claude message update is invalid'',
      ''anthropic_message_update_invalid''),
     (''Claude terminal update has active text block'',
      ''anthropic_terminal_text_block_active''),
     (''Claude terminal update has active tool block'',
      ''anthropic_terminal_tool_block_active''),
     (''Claude terminal update has active thinking block'',
      ''anthropic_terminal_thinking_block_active''),
     (''Claude terminal update has active redacted block'',
      ''anthropic_terminal_redacted_block_active''),
     (''Claude terminal update has active unknown block'',
      ''anthropic_terminal_unknown_block_active''),
     (''Model output token limit reached before completing the agent turn'',
      ''model_output_limit''),
     (''Unsupported Claude stop reason'',
      ''anthropic_stop_reason_unsupported''),
     (''Incomplete Claude message lifecycle'',
      ''anthropic_message_lifecycle_incomplete''),
     (''Claude tool stop has no calls'',
      ''anthropic_tool_stop_without_calls''),
     (''Claude tool calls have incompatible stop reason'',
      ''anthropic_tool_stop_reason_mismatch''),
     (''Claude receipt exceeds limits'',
      ''anthropic_receipt_limit_exceeded''),
     (''Claude content follows terminal update'',
      ''anthropic_content_after_terminal''),
     (''Claude block sequence is invalid'',
      ''anthropic_block_sequence_invalid''),
     (''Claude content exceeds limits'',
      ''anthropic_content_limit_exceeded''),
     (''Unsupported Claude tool caller'',
      ''anthropic_tool_caller_unsupported''),
     (''Invalid Claude tool block'',
      ''anthropic_tool_block_invalid''),
     (''Claude thinking exceeds limits'',
      ''anthropic_thinking_limit_exceeded''),
     (''Unsupported Claude content block'',
      ''anthropic_content_block_unsupported''),
     (''Claude tool input has conflicting initial content'',
      ''anthropic_tool_input_conflict''),
     (''Claude thinking follows signature'',
      ''anthropic_thinking_signature_order_invalid''),
     (''Invalid Claude signature delta'',
      ''anthropic_signature_delta_invalid''),
     (''Unsupported Claude block delta'',
      ''anthropic_block_delta_unsupported''),
     (''Unsupported Claude stream event'',
      ''anthropic_stream_event_unsupported''),
     (''Claude SSE event name exceeds limits'',
      ''anthropic_event_name_too_long''),
     (''Claude stream is invalid'',
      ''anthropic_stream_invalid''),
     (''Invalid Claude JSON event'',
      ''anthropic_json_event_invalid''),
     (''Incomplete Claude stream'',
      ''anthropic_stream_incomplete''),
     (''Incomplete or invalid model stream'',
      ''chat_stream_incomplete''),
     (''Tool finish without tool calls'',
      ''chat_tool_finish_without_calls''),
     (''Incomplete or duplicate model tool identity'',
      ''chat_tool_identity_invalid''),
     (''Tool arguments must be a JSON object'',
      ''chat_tool_arguments_not_object''),
     (''Tool calls with an inconsistent finish reason'',
      ''chat_tool_finish_reason_mismatch''),
     (''Model data after end marker'',
      ''chat_data_after_end''),
     (''Model end marker without a finish reason'',
      ''chat_finish_reason_missing''),
     (''Provider returned an invalid or error event'',
      ''chat_provider_error_event''),
     (''Invalid model usage'',
      ''chat_usage_invalid''),
     (''Invalid model token count'',
      ''chat_usage_invalid''),
     (''Choice data after its finish reason'',
      ''chat_data_after_finish''),
     (''Tool identity changed'',
      ''chat_tool_identity_changed''),
     (''Unsupported model finish reason'',
      ''chat_finish_reason_unsupported''),
     (''Model did not produce a complete supported turn'',
      ''model_turn_incomplete'')]"

definition model_protocol_diagnostic :: "bytes \<Rightarrow> bytes" where
  "model_protocol_diagnostic message =
     (case map_of diagnostic_table message of Some code \<Rightarrow> code | None \<Rightarrow> ''model_response_invalid'')"

section \<open>Helpers\<close>

datatype stream_error = Protocol bytes | Json_failure | Sink_failure

definition protocol :: "bytes \<Rightarrow> stream_error + 'a" where
  "protocol message = Inl (Protocol message)"

definition demand :: "bool \<Rightarrow> bytes \<Rightarrow> stream_error + unit" where
  "demand b message = guardE b (Protocol message)"

definition max_line :: nat where "max_line = 1024 * 1024"
definition max_event :: nat where "max_event = 4 * 1024 * 1024"
definition max_stream :: nat where "max_stream = 64 * 1024 * 1024"
definition max_value :: nat where "max_value = 4 * 1024 * 1024"

fun protocol_event :: "event_error \<Rightarrow> stream_error" where
  "protocol_event Too_deep = Protocol ''Model JSON nesting exceeds configured limits''"
| "protocol_event Duplicate_key = Protocol ''Duplicate model JSON field''"
| "protocol_event No_open_object = Json_failure"

definition protocol_json :: "json_lib \<Rightarrow> bytes \<Rightarrow> stream_error + json" where
  "protocol_json lib source =
     bindE (map_error protocol_event (foldE parse_event [] (fst (sax lib source))))
       (\<lambda>_. case snd (sax lib source) of None \<Rightarrow> Inl Json_failure | Some v \<Rightarrow> Inr v)"

definition dump_value :: "json_lib \<Rightarrow> json \<Rightarrow> stream_error + bytes" where
  "dump_value lib v = (case dump lib v of None \<Rightarrow> Inl Json_failure | Some s \<Rightarrow> Inr s)"

definition bounded_append :: "bytes \<Rightarrow> bytes \<Rightarrow> nat \<Rightarrow> stream_error + bytes" where
  "bounded_append target appended limit =
     (if length appended > limit - length target
      then protocol ''Model stream exceeds configured limits'' else Inr (target @ appended))"

definition optional_string :: "json \<Rightarrow> bytes \<Rightarrow> stream_error + bytes" where
  "optional_string v k =
     (if \<not> has_member v k \<or> is_null (at_key v k) then Inr []
      else if \<not> is_string (at_key v k) then protocol ''Invalid model string field''
      else Inr (str_of (at_key v k)))"

fun int_of :: "json \<Rightarrow> int" where
  "int_of (JInt i) = i" | "int_of _ = 0"

section \<open>DeepSeek usage\<close>

definition deepseek_scalars :: "bytes list" where
  "deepseek_scalars = [''prompt_tokens'', ''completion_tokens'', ''total_tokens'',
     ''prompt_cache_hit_tokens'', ''prompt_cache_miss_tokens'']"

definition is_count :: "json \<Rightarrow> bool" where
  "is_count v \<longleftrightarrow> is_integer v \<and> 0 \<le> int_of v \<and> int_of v \<le> 9007199254740991"

definition usage_detail :: "bytes \<Rightarrow> bytes option" where
  "usage_detail k = (if k = ''prompt_tokens_details'' then Some ''cached_tokens''
     else if k = ''completion_tokens_details'' then Some ''reasoning_tokens'' else None)"

definition usage_field_ok :: "bytes \<times> json \<Rightarrow> bool" where
  "usage_field_ok = (\<lambda>(k, v).
     if k \<in> set deepseek_scalars then is_count v
     else case usage_detail k of None \<Rightarrow> False
       | Some detail \<Rightarrow> is_object v \<and> length (members v) \<le> 1 \<and>
           (\<forall>(field, n) \<in> set (members v). field = detail \<and> is_count n))"

definition usage_number :: "json \<Rightarrow> bytes \<Rightarrow> int" where
  "usage_number v k = int_of (at_key v k)"

definition usage_totals_ok :: "json \<Rightarrow> bool" where
  "usage_totals_ok v \<longleftrightarrow>
     (let prompt = usage_number v ''prompt_tokens''; completion = usage_number v ''completion_tokens'';
          hit = ''prompt_cache_hit_tokens''; miss = ''prompt_cache_miss_tokens'';
          input = at_key v ''prompt_tokens_details''; output = at_key v ''completion_tokens_details'' in
      usage_number v ''total_tokens'' = prompt + completion \<and>
      (has_member v hit \<longrightarrow> usage_number v hit \<le> prompt) \<and>
      (has_member v miss \<longrightarrow> usage_number v miss \<le> prompt) \<and>
      (has_member v hit \<and> has_member v miss \<longrightarrow> usage_number v hit + usage_number v miss = prompt) \<and>
      (has_member v ''prompt_tokens_details'' \<and> has_member input ''cached_tokens'' \<longrightarrow>
         usage_number input ''cached_tokens'' \<le> prompt \<and>
         (has_member v hit \<longrightarrow> usage_number v hit = usage_number input ''cached_tokens'')) \<and>
      (has_member v ''completion_tokens_details'' \<and> has_member output ''reasoning_tokens'' \<longrightarrow>
         usage_number output ''reasoning_tokens'' \<le> completion))"

definition deepseek_usage :: "json_lib \<Rightarrow> json \<Rightarrow> stream_error + json" where
  "deepseek_usage lib v =
     bindE (demand (is_object v) ''Invalid DeepSeek usage'') (\<lambda>_.
     bindE (dump_value lib v) (\<lambda>text'.
     bindE (demand (length text' \<le> 4096 \<and> list_all usage_field_ok (members v) \<and>
         list_all (has_member v) [''prompt_tokens'', ''completion_tokens'', ''total_tokens''] \<and>
         usage_totals_ok v) ''Invalid DeepSeek usage'') (\<lambda>_. Inr v)))"

section \<open>The decoder state\<close>

datatype chat_dialect = Openai | Deepseek | Mistral

record tool_call =
  call_id :: bytes
  call_name :: bytes
  arguments_json :: bytes

record completion =
  content :: bytes
  refusal :: bytes
  finish_reason :: bytes
  usage_json :: bytes
  tool_calls :: "tool_call list"
  provider_items_json :: bytes

record model_event =
  ev_kind :: bytes
  ev_json :: bytes

record 'k chat =
  sink_state :: 'k
  dialect :: chat_dialect
  expected_model :: bytes
  reasoning :: bytes
  has_reasoning :: bool
  reasoning_seen :: bool
  has_usage :: bool
  answer :: completion
  calls :: "nat \<rightharpoonup> tool_call"
  line :: bytes
  data :: bytes
  response_id :: bytes
  model :: bytes
  skip_lf :: bool
  first_line :: bool
  has_data :: bool
  chat_done :: bool
  finished :: bool

type_synonym 'k chat_sink = "'k \<Rightarrow> model_event \<Rightarrow> 'k \<times> bool"

type_synonym 'k chat_result = "(stream_error \<times> 'k chat) + 'k chat"

definition empty_completion :: completion where
  "empty_completion = \<lparr>content = [], refusal = [], finish_reason = [], usage_json = ''null'',
     tool_calls = [], provider_items_json = ''[]''\<rparr>"

definition decoder_new :: "'k \<Rightarrow> chat_dialect \<Rightarrow> bytes \<Rightarrow> unit + 'k chat" where
  "decoder_new k d expected =
     (if d = Deepseek \<and> (expected = [] \<or> length expected > 512 \<or> CHR 0x00 \<in> set expected) then Inl ()
      else Inr \<lparr>sink_state = k, dialect = d, expected_model = expected, reasoning = [],
        has_reasoning = False, reasoning_seen = False, has_usage = False, answer = empty_completion,
        calls = Map.empty, line = [], data = [], response_id = [], model = [],
        skip_lf = False, first_line = True, has_data = False, chat_done = False, finished = False\<rparr>)"

text \<open>Running a check or a read that does not touch the state, inside a state that may fail.\<close>

definition reading :: "'k chat \<Rightarrow> stream_error + 'a \<Rightarrow> ('a \<Rightarrow> 'k chat_result) \<Rightarrow> 'k chat_result" where
  "reading s r f = (case r of Inl e \<Rightarrow> Inl (e, s) | Inr x \<Rightarrow> f x)"

definition emit :: "json_lib \<Rightarrow> 'k chat_sink \<Rightarrow> bytes \<Rightarrow> json \<Rightarrow> 'k chat \<Rightarrow> 'k chat_result" where
  "emit lib sink k v s = reading s (dump_value lib v) (\<lambda>dumped.
     let (state, returned) = sink (sink_state s) \<lparr>ev_kind = k, ev_json = dumped\<rparr>;
         t = s\<lparr>sink_state := state\<rparr>
     in if returned then Inr t else Inl (Sink_failure, t))"

text \<open>The tool calls in the order of their indices; an index is below 64.\<close>

definition indexed_calls :: "(nat \<rightharpoonup> tool_call) \<Rightarrow> tool_call list" where
  "indexed_calls m = map (\<lambda>i. the (m i)) (filter (\<lambda>i. m i \<noteq> None) [0..<64])"

fun call_loop :: "json_lib \<Rightarrow> bytes \<Rightarrow> bytes set \<Rightarrow> tool_call list \<Rightarrow> stream_error + unit" where
  "call_loop lib reason identities [] = Inr ()"
| "call_loop lib reason identities (c # cs) =
     bindE (demand (\<not> (call_id c = [] \<or> length (call_id c) > 256 \<or> call_name c = [] \<or>
         length (call_name c) > 256 \<or> call_id c \<in> identities))
       ''Incomplete or duplicate model tool identity'') (\<lambda>_.
     bindE (if reason = ''tool_calls'' then
         bindE (protocol_json lib (arguments_json c)) (\<lambda>v.
           demand (is_object v) ''Tool arguments must be a JSON object'')
         else Inr ()) (\<lambda>_.
     call_loop lib reason (insert (call_id c) identities) cs))"

definition validate_calls :: "json_lib \<Rightarrow> 'k chat \<Rightarrow> stream_error + unit" where
  "validate_calls lib s =
     (let reason = finish_reason (answer s); cs = indexed_calls (calls s) in
      bindE (demand (\<not> (reason = ''tool_calls'' \<and> cs = [])) ''Tool finish without tool calls'') (\<lambda>_.
      bindE (call_loop lib reason {} cs) (\<lambda>_.
      demand (\<not> (cs \<noteq> [] \<and> reason = ''stop'')) ''Tool calls with an inconsistent finish reason'')))"

section \<open>The end marker\<close>

definition call_json :: "tool_call \<Rightarrow> json" where
  "call_json c = JObj [
     (''function'', JObj [(''arguments'', JStr (arguments_json c)), (''name'', JStr (call_name c))]),
     (''id'', JStr (call_id c)), (''type'', JStr ''function'')]"

definition deepseek_message :: "'k chat \<Rightarrow> json" where
  "deepseek_message s = JObj (
     [(''content'', JStr (content (answer s)))] @
     (if reasoning_seen s
      then [(''reasoning_content'', if has_reasoning s then JStr (reasoning s) else JNull)] else []) @
     [(''role'', JStr ''assistant'')] @
     (if finish_reason (answer s) = ''tool_calls''
      then [(''tool_calls'', JArr (map call_json (indexed_calls (calls s))))] else []))"

definition deepseek_items :: "'k chat \<Rightarrow> json" where
  "deepseek_items s = JArr [JObj [(''message'', deepseek_message s), (''model'', JStr (model s)),
     (''type'', JStr ''deepseek_assistant'')]]"

definition deepseek_finish :: "json_lib \<Rightarrow> 'k chat \<Rightarrow> 'k chat_result" where
  "deepseek_finish lib s =
     reading s (demand (has_usage s) ''DeepSeek terminal usage is missing'') (\<lambda>_.
     reading s (dump_value lib (deepseek_items s)) (\<lambda>items.
       let t = s\<lparr>answer := (answer s)\<lparr>provider_items_json := items\<rparr>\<rparr> in
       reading t (demand (length items \<le> max_value) ''DeepSeek continuation exceeds limits'')
         (\<lambda>_. Inr t)))"

definition end_marker :: "json_lib \<Rightarrow> 'k chat_sink \<Rightarrow> 'k chat \<Rightarrow> 'k chat_result" where
  "end_marker lib sink s =
     reading s (demand (finished s) ''Model end marker without a finish reason'') (\<lambda>_.
     reading s (validate_calls lib s) (\<lambda>_.
     bindE (if dialect s = Deepseek then deepseek_finish lib s else Inr s) (\<lambda>t.
     emit lib sink ''model.done'' (JObj []) (t\<lparr>chat_done := True\<rparr>))))"

section \<open>A data chunk\<close>

text \<open>The identity of a DeepSeek chunk; \<open>object.value\<close> throws on a value of another type.\<close>

definition deepseek_identity :: "'k chat \<Rightarrow> json \<Rightarrow> stream_error + unit" where
  "deepseek_identity s v =
     (let bad = ''Invalid DeepSeek chunk identity'' in
      bindE (demand (\<not> finished s) bad) (\<lambda>_.
      if has_member v ''object'' \<and> \<not> is_string (at_key v ''object'') then Inl Json_failure
      else bindE (demand (str_of (at_key v ''object'') = ''chat.completion.chunk'') bad) (\<lambda>_.
        bindE (optional_string v ''id'') (\<lambda>i.
        bindE (demand (i \<noteq> [] \<and> length i \<le> 256) bad) (\<lambda>_.
        bindE (optional_string v ''model'') (\<lambda>m. demand (m = expected_model s) bad))))))"

definition same_identity :: "bytes \<Rightarrow> bytes \<Rightarrow> stream_error + bytes" where
  "same_identity known current =
     (if current = [] then Inr known
      else if known \<noteq> [] \<and> current \<noteq> known then protocol ''Model response identity changed''
      else Inr current)"

definition chunk_identity :: "json \<Rightarrow> 'k chat \<Rightarrow> 'k chat_result" where
  "chunk_identity v s =
     reading s (optional_string v ''id'') (\<lambda>i.
     reading s (same_identity (response_id s) i) (\<lambda>i'.
       let t = s\<lparr>response_id := i'\<rparr> in
       reading t (optional_string v ''model'') (\<lambda>m.
       reading t (same_identity (model t) m) (\<lambda>m'. Inr (t\<lparr>model := m'\<rparr>)))))"

definition present :: "json \<Rightarrow> bytes \<Rightarrow> bool" where
  "present v k \<longleftrightarrow> has_member v k \<and> \<not> is_null (at_key v k)"

text \<open>
  Usage: recorded at once, except DeepSeek's, which is kept until the end of the chunk. The library
  compares an unsigned number from \<open>2 ^ 63\<close> on with a signed one as if it were negative.
\<close>

definition plain_usage_ok :: "json \<Rightarrow> bool" where
  "plain_usage_ok u \<longleftrightarrow> (\<forall>k \<in> {''prompt_tokens'', ''completion_tokens'', ''total_tokens''}.
     has_member u k \<longrightarrow> is_integer (at_key u k) \<and> 0 \<le> int_of (at_key u k) \<and> int_of (at_key u k) < 2 ^ 63)"

definition record_usage :: "json_lib \<Rightarrow> 'k chat_sink \<Rightarrow> json \<Rightarrow> 'k chat \<Rightarrow> 'k chat_result" where
  "record_usage lib sink u s = reading s (dump_value lib u) (\<lambda>dumped.
     emit lib sink ''model.usage'' u (s\<lparr>answer := (answer s)\<lparr>usage_json := dumped\<rparr>\<rparr>))"

definition chunk_usage ::
    "json_lib \<Rightarrow> 'k chat_sink \<Rightarrow> json \<Rightarrow> 'k chat \<Rightarrow> (json \<Rightarrow> 'k chat \<Rightarrow> 'k chat_result) \<Rightarrow> 'k chat_result" where
  "chunk_usage lib sink v s continue =
     (if \<not> present v ''usage'' then continue JNull s
      else let u = at_key v ''usage'' in
        if dialect s = Deepseek then reading s (deepseek_usage lib u) (\<lambda>p. continue p s)
        else reading s (demand (is_object u) ''Invalid model usage'') (\<lambda>_.
          reading s (demand (plain_usage_ok u) ''Invalid model token count'') (\<lambda>_.
          bindE (record_usage lib sink u s) (continue JNull))))"

text \<open>The parts of a choice: reasoning, text and refusal, tool deltas, extensions, finish reason.\<close>

definition text_event :: "bytes \<Rightarrow> json" where
  "text_event t = JObj [(''text'', JStr t)]"

definition deepseek_reasoning :: "json_lib \<Rightarrow> 'k chat_sink \<Rightarrow> json \<Rightarrow> 'k chat \<Rightarrow> 'k chat_result" where
  "deepseek_reasoning lib sink delta s =
     reading s (demand (set (map fst (members delta)) \<subseteq>
         {''role'', ''content'', ''tool_calls'', ''reasoning_content''}) ''Unsupported DeepSeek delta'') (\<lambda>_.
       let t = (if has_member delta ''reasoning_content'' then s\<lparr>reasoning_seen := True\<rparr> else s) in
       if \<not> present delta ''reasoning_content'' then Inr t
       else reading t (optional_string delta ''reasoning_content'') (\<lambda>r.
         let u = t\<lparr>has_reasoning := True\<rparr> in
         reading u (bounded_append (reasoning u) r max_value) (\<lambda>all.
           let w = u\<lparr>reasoning := all\<rparr> in
           if r = [] then Inr w else emit lib sink ''model.reasoning'' (text_event r) w)))"

definition append_content :: "json_lib \<Rightarrow> 'k chat_sink \<Rightarrow> json \<Rightarrow> 'k chat \<Rightarrow> 'k chat_result" where
  "append_content lib sink delta s = reading s (optional_string delta ''content'') (\<lambda>t.
     if t = [] then Inr s
     else reading s (bounded_append (content (answer s)) t max_value) (\<lambda>all.
       emit lib sink ''model.text'' (text_event t) (s\<lparr>answer := (answer s)\<lparr>content := all\<rparr>\<rparr>)))"

definition append_refusal :: "json_lib \<Rightarrow> 'k chat_sink \<Rightarrow> json \<Rightarrow> 'k chat \<Rightarrow> 'k chat_result" where
  "append_refusal lib sink delta s = reading s (optional_string delta ''refusal'') (\<lambda>t.
     if t = [] then Inr s
     else reading s (bounded_append (refusal (answer s)) t max_value) (\<lambda>all.
       emit lib sink ''model.refusal'' (text_event t) (s\<lparr>answer := (answer s)\<lparr>refusal := all\<rparr>\<rparr>)))"

definition known_call :: "'k chat \<Rightarrow> nat \<Rightarrow> tool_call" where
  "known_call s n = (case calls s n of None \<Rightarrow> \<lparr>call_id = [], call_name = [], arguments_json = []\<rparr>
     | Some c \<Rightarrow> c)"

definition put_call :: "nat \<Rightarrow> tool_call \<Rightarrow> 'k chat \<Rightarrow> 'k chat" where
  "put_call n c s = s\<lparr>calls := (calls s)(n \<mapsto> c)\<rparr>"

definition tool_delta :: "json_lib \<Rightarrow> 'k chat_sink \<Rightarrow> 'k chat \<Rightarrow> json \<Rightarrow> 'k chat_result" where
  "tool_delta lib sink s tool =
     reading s (demand (is_object tool \<and> is_integer (at_key tool ''index'')) ''Missing tool index'') (\<lambda>_.
       let number = int_of (at_key tool ''index''); n = nat number in
       reading s (demand (0 \<le> number \<and> number < 64) ''Tool index exceeds configured limits'') (\<lambda>_.
       reading s (optional_string tool ''type'') (\<lambda>type.
       reading s (demand (type = [] \<or> type = ''function'') ''Unsupported tool type'') (\<lambda>_.
         let c = known_call s n; t = put_call n c s in
         reading t (optional_string tool ''id'') (\<lambda>i.
         reading t (demand (i = [] \<or> call_id c = [] \<or> call_id c = i) ''Tool identity changed'') (\<lambda>_.
           let c = (if i = [] then c else c\<lparr>call_id := i\<rparr>); t = put_call n c t;
               function = (if has_member tool ''function'' then at_key tool ''function'' else JObj []) in
           reading t (demand (is_object function) ''Invalid tool function'') (\<lambda>_.
           reading t (optional_string function ''name'') (\<lambda>nm.
           reading t (optional_string function ''arguments'') (\<lambda>args.
           reading t (bounded_append (call_name c) nm 256) (\<lambda>nm'.
             let c = c\<lparr>call_name := nm'\<rparr>; t = put_call n c t in
             reading t (bounded_append (arguments_json c) args max_value) (\<lambda>args'.
               emit lib sink ''model.tool_delta''
                 (JObj [(''arguments'', JStr args), (''id'', JStr i), (''index'', JInt number),
                   (''name'', JStr nm)])
                 (put_call n (c\<lparr>arguments_json := args'\<rparr>) t))))))))))))"

definition tool_deltas :: "json_lib \<Rightarrow> 'k chat_sink \<Rightarrow> json \<Rightarrow> 'k chat \<Rightarrow> 'k chat_result" where
  "tool_deltas lib sink delta s =
     (if \<not> present delta ''tool_calls'' then Inr s
      else reading s (demand (is_array (at_key delta ''tool_calls'')) ''Invalid model tool delta'') (\<lambda>_.
        foldE (tool_delta lib sink) s (elements (at_key delta ''tool_calls''))))"

definition extension_members :: "chat_dialect \<Rightarrow> json \<Rightarrow> (bytes \<times> json) list" where
  "extension_members d delta = filter (\<lambda>(k, v).
     k \<notin> set ([''role'', ''content'', ''refusal'', ''tool_calls''] @
       (if d = Deepseek then [''reasoning_content''] else []))) (members delta)"

definition extensions :: "json_lib \<Rightarrow> 'k chat_sink \<Rightarrow> json \<Rightarrow> 'k chat \<Rightarrow> 'k chat_result" where
  "extensions lib sink delta s =
     (let rest = extension_members (dialect s) delta in
      if rest = [] then Inr s else emit lib sink ''model.extension'' (JObj rest) s)"

definition finish_choice :: "json_lib \<Rightarrow> 'k chat_sink \<Rightarrow> json \<Rightarrow> 'k chat \<Rightarrow> 'k chat_result" where
  "finish_choice lib sink choice s = reading s (optional_string choice ''finish_reason'') (\<lambda>reason.
     if reason = [] then Inr s
     else reading s (demand (reason \<in> {''stop'', ''tool_calls'', ''length'', ''content_filter''})
         ''Unsupported model finish reason'') (\<lambda>_.
       emit lib sink ''model.finish'' (JObj [(''reason'', JStr reason)])
         (s\<lparr>answer := (answer s)\<lparr>finish_reason := reason\<rparr>, finished := True\<rparr>)))"

definition choice_step :: "json_lib \<Rightarrow> 'k chat_sink \<Rightarrow> 'k chat \<Rightarrow> json \<Rightarrow> 'k chat_result" where
  "choice_step lib sink s choice =
     reading s (demand (is_object choice \<and> at_key choice ''index'' = JInt 0)
       ''This request supports one completion choice'') (\<lambda>_.
     reading s (demand (\<not> finished s) ''Choice data after its finish reason'') (\<lambda>_.
       let delta = (if has_member choice ''delta'' then at_key choice ''delta'' else JObj []) in
       reading s (demand (is_object delta) ''Invalid model delta'') (\<lambda>_.
       reading s (optional_string delta ''role'') (\<lambda>role.
       reading s (demand (role = [] \<or> role = ''assistant'') ''Invalid model response role'') (\<lambda>_.
       bindE (if dialect s = Deepseek then deepseek_reasoning lib sink delta s else Inr s)
         (\<lambda>s. bindE (append_content lib sink delta s)
         (\<lambda>s. bindE (append_refusal lib sink delta s)
         (\<lambda>s. bindE (tool_deltas lib sink delta s)
         (\<lambda>s. bindE (extensions lib sink delta s)
         (\<lambda>s. finish_choice lib sink choice s)))))))))) "

definition late_usage :: "json_lib \<Rightarrow> 'k chat_sink \<Rightarrow> json \<Rightarrow> 'k chat \<Rightarrow> 'k chat_result" where
  "late_usage lib sink pending s =
     (if dialect s = Deepseek \<and> \<not> is_null pending then
        reading s (demand (finished s \<and> \<not> has_usage s) ''Invalid DeepSeek terminal usage lifecycle'') (\<lambda>_.
        reading s (dump_value lib pending) (\<lambda>dumped.
          emit lib sink ''model.usage'' pending
            (s\<lparr>answer := (answer s)\<lparr>usage_json := dumped\<rparr>, has_usage := True\<rparr>)))
      else Inr s)"

definition chunk_choices :: "json_lib \<Rightarrow> 'k chat_sink \<Rightarrow> json \<Rightarrow> json \<Rightarrow> 'k chat \<Rightarrow> 'k chat_result" where
  "chunk_choices lib sink v pending s =
     reading s (demand (is_array (at_key v ''choices'')) ''Missing model choices'') (\<lambda>_.
       let choices = elements (at_key v ''choices'') in
       reading s (if dialect s \<noteq> Deepseek then Inr ()
         else if length choices \<noteq> 1 then protocol ''Invalid DeepSeek terminal usage lifecycle''
         else if is_null pending then Inr ()
         else bindE (optional_string (hd choices) ''finish_reason'') (\<lambda>r.
           demand (r \<noteq> []) ''Invalid DeepSeek terminal usage lifecycle'')) (\<lambda>_.
       bindE (foldE (choice_step lib sink) s choices) (late_usage lib sink pending)))"

definition chunk_object :: "json_lib \<Rightarrow> 'k chat_sink \<Rightarrow> json \<Rightarrow> 'k chat \<Rightarrow> 'k chat_result" where
  "chunk_object lib sink v s =
     reading s (demand (is_object v \<and> \<not> has_member v ''error'')
       ''Provider returned an invalid or error event'') (\<lambda>_.
     reading s (if dialect s = Deepseek then deepseek_identity s v else Inr ()) (\<lambda>_.
     bindE (chunk_identity v s) (\<lambda>t.
     chunk_usage lib sink v t (chunk_choices lib sink v))))"

definition chunk :: "json_lib \<Rightarrow> 'k chat_sink \<Rightarrow> bytes \<Rightarrow> 'k chat \<Rightarrow> 'k chat_result" where
  "chunk lib sink d s =
     reading s (demand (\<not> chat_done s) ''Model data after end marker'') (\<lambda>_.
       if d = ''[DONE]'' then end_marker lib sink s
       else reading s (protocol_json lib d) (\<lambda>v. chunk_object lib sink v s))"

section \<open>Lines\<close>

definition byte_order_mark :: bytes where
  "byte_order_mark = [CHR 0xEF, CHR 0xBB, CHR 0xBF]"

definition data_field :: "bytes \<Rightarrow> 'k chat \<Rightarrow> 'k chat_result" where
  "data_field d s =
     reading s (bounded_append (data s) d max_event) (\<lambda>d1.
       let t = s\<lparr>data := d1\<rparr> in
       reading t (bounded_append (data t) [CHR 0x0A] max_event) (\<lambda>d2.
         Inr (t\<lparr>data := d2, has_data := True\<rparr>)))"

definition dispatch_event :: "json_lib \<Rightarrow> 'k chat_sink \<Rightarrow> 'k chat \<Rightarrow> 'k chat_result" where
  "dispatch_event lib sink s =
     (if \<not> has_data s then Inr s
      else let t = s\<lparr>data := butlast (data s)\<rparr> in
        bindE (chunk lib sink (data t) t) (\<lambda>u. Inr (u\<lparr>data := [], has_data := False\<rparr>)))"

definition field_of :: "bytes \<Rightarrow> bytes \<times> bytes" where
  "field_of l =
     (let name = takeWhile (\<lambda>c. c \<noteq> CHR '':'') l; value = tl (dropWhile (\<lambda>c. c \<noteq> CHR '':'') l) in
      (name, if value \<noteq> [] \<and> hd value = CHR '' '' then tl value else value))"

definition end_line :: "json_lib \<Rightarrow> 'k chat_sink \<Rightarrow> 'k chat \<Rightarrow> 'k chat_result" where
  "end_line lib sink s =
     (let s = (if first_line s then s\<lparr>first_line := False, line :=
          (if starts_with (line s) byte_order_mark then drop 3 (line s) else line s)\<rparr> else s) in
      bindE (if line s = [] then dispatch_event lib sink s
             else if hd (line s) \<noteq> CHR '':'' \<and> fst (field_of (line s)) = ''data''
             then data_field (snd (field_of (line s))) s
             else Inr s)
        (\<lambda>t. Inr (t\<lparr>line := []\<rparr>)))"

definition feed_byte :: "json_lib \<Rightarrow> 'k chat_sink \<Rightarrow> 'k chat \<Rightarrow> char \<Rightarrow> 'k chat_result" where
  "feed_byte lib sink s c =
     (let skipping = skip_lf s; s = s\<lparr>skip_lf := False\<rparr> in
      if skipping \<and> c = CHR 0x0A then Inr s
      else if c = CHR 0x0D then bindE (end_line lib sink s) (\<lambda>t. Inr (t\<lparr>skip_lf := True\<rparr>))
      else if c = CHR 0x0A then end_line lib sink s
      else reading s (bounded_append (line s) [c] max_line) (\<lambda>l. Inr (s\<lparr>line := l\<rparr>)))"

fun feed_bytes :: "json_lib \<Rightarrow> 'k chat_sink \<Rightarrow> 'k chat \<Rightarrow> bytes \<Rightarrow> 'k chat_result" where
  "feed_bytes lib sink s [] = Inr s"
| "feed_bytes lib sink s (c # cs) = bindE (feed_byte lib sink s c) (\<lambda>t. feed_bytes lib sink t cs)"

text \<open>
  The whole \<open>Impl\<close>: the decoder above, which only the byte loop changes, and the two members that
  the guards of \<open>feed\<close> read.
\<close>

record 'k chat_stream =
  decoder :: "'k chat"
  total :: nat
  failed :: bool

type_synonym 'k stream_result = "(stream_error \<times> 'k chat_stream) + 'k chat_stream"

definition chat_new :: "'k \<Rightarrow> chat_dialect \<Rightarrow> bytes \<Rightarrow> unit + 'k chat_stream" where
  "chat_new k d expected = bindE (decoder_new k d expected)
     (\<lambda>c. Inr \<lparr>decoder = c, total = 0, failed = False\<rparr>)"

definition stream_feed :: "json_lib \<Rightarrow> 'k chat_sink \<Rightarrow> 'k chat_stream \<Rightarrow> bytes \<Rightarrow> 'k stream_result" where
  "stream_feed lib sink s bs =
     (if failed s then Inl (Protocol ''Model stream is invalid'', s)
      else if length bs > max_stream - total s
      then Inl (Protocol ''Model stream exceeds configured limits'', s)
      else let t = s\<lparr>total := total s + length bs\<rparr> in
        case feed_bytes lib sink (decoder t) bs of
          Inl (e, c) \<Rightarrow> Inl (e, t\<lparr>decoder := c\<rparr>)
        | Inr c \<Rightarrow> Inr (t\<lparr>decoder := c\<rparr>))"

definition visible_error :: "stream_error \<Rightarrow> stream_error" where
  "visible_error e = (if e = Json_failure then Protocol ''Invalid provider JSON event'' else e)"

definition chat_feed :: "json_lib \<Rightarrow> 'k chat_sink \<Rightarrow> 'k chat_stream \<Rightarrow> bytes \<Rightarrow> 'k stream_result" where
  "chat_feed lib sink s bs =
     (case stream_feed lib sink s bs of
        Inl (e, t) \<Rightarrow> Inl (visible_error e, t\<lparr>failed := True\<rparr>)
      | Inr t \<Rightarrow> Inr t)"

definition chat_finish :: "'k chat_stream \<Rightarrow> stream_error + completion" where
  "chat_finish s =
     (let c = decoder s in
      if failed s \<or> \<not> chat_done c \<or> line c \<noteq> [] \<or> has_data c
      then protocol ''Incomplete or invalid model stream''
      else Inr ((answer c)\<lparr>tool_calls := (if finish_reason (answer c) = ''tool_calls''
        then indexed_calls (calls c) else [])\<rparr>))"



section \<open>Inversion of successful operations\<close>

lemma reading_Inr [result_simps]: "reading s r f = Inr t \<longleftrightarrow> (\<exists>x. r = Inr x \<and> f x = Inr t)"
  by (cases r) (auto simp: reading_def)

lemma demand_Inr [simp]: "demand b m = Inr u \<longleftrightarrow> b"
  by (simp add: demand_def)

lemma protocol_Inr [simp]: "protocol m \<noteq> Inr x"
  by (simp add: protocol_def)

lemma bounded_append_Inr [result_simps]:
  "bounded_append a b n = Inr c \<longleftrightarrow> length b \<le> n - length a \<and> c = a @ b"
  by (auto simp: bounded_append_def)

lemma emit_Inr [result_simps]:
  "emit lib sink k v s = Inr t \<longleftrightarrow> (\<exists>d st. dump lib v = Some d \<and>
     sink (sink_state s) \<lparr>ev_kind = k, ev_json = d\<rparr> = (st, True) \<and> t = s\<lparr>sink_state := st\<rparr>)"
  by (auto simp: emit_def dump_value_def result_simps Let_def split: option.splits prod.splits if_splits)

section \<open>The invariant\<close>

definition call_ok :: "tool_call \<Rightarrow> bool" where
  "call_ok c \<longleftrightarrow> length (call_name c) \<le> 256 \<and> length (arguments_json c) \<le> max_value"

definition reasons :: "bytes set" where
  "reasons = {''stop'', ''tool_calls'', ''length'', ''content_filter''}"

text \<open>What holds while a turn is open, and of any stream that has not failed.\<close>

definition open_inv :: "'k chat \<Rightarrow> bool" where
  "open_inv s \<longleftrightarrow>
     (\<forall>n c. calls s n = Some c \<longrightarrow> n < 64 \<and> call_ok c) \<and>
     length (content (answer s)) \<le> max_value \<and> length (refusal (answer s)) \<le> max_value \<and>
     length (reasoning s) \<le> max_value \<and> length (line s) \<le> max_line \<and> length (data s) \<le> max_event \<and>
     (if finished s then finish_reason (answer s) \<in> reasons else finish_reason (answer s) = [])"

definition chat_inv :: "json_lib \<Rightarrow> 'k chat \<Rightarrow> bool" where
  "chat_inv lib s \<longleftrightarrow> open_inv s \<and> (chat_done s \<longrightarrow> finished s \<and> validate_calls lib s = Inr ())"

lemma known_call_ok: "open_inv s \<Longrightarrow> call_ok (known_call s n)"
  by (auto simp: open_inv_def known_call_def call_ok_def split: option.split)

lemma open_sink [simp]: "open_inv (s\<lparr>sink_state := k\<rparr>) = open_inv s"
  by (simp add: open_inv_def)

lemma open_put_call: "open_inv s \<Longrightarrow> n < 64 \<Longrightarrow> call_ok c \<Longrightarrow> open_inv (put_call n c s)"
  by (auto simp: open_inv_def put_call_def)

lemma done_put_call [simp]: "chat_done (put_call n c s) = chat_done s"
  by (simp add: put_call_def)

lemma put_call_twice [simp]: "put_call n c (put_call n d s) = put_call n c s"
  by (simp add: put_call_def)

definition with_id :: "bytes \<Rightarrow> tool_call \<Rightarrow> tool_call" where
  "with_id i c = (if i = [] then c else c\<lparr>call_id := i\<rparr>)"

lemma with_id_simps [simp]: "call_name (with_id i c) = call_name c"
  "arguments_json (with_id i c) = arguments_json c"
  by (simp_all add: with_id_def)

lemma tool_delta_Inr:
  assumes "tool_delta lib sink s tool = Inr t"
  obtains n c k where "n < 64" and "t = put_call n c s\<lparr>sink_state := k\<rparr>"
    and "call_ok (known_call s n) \<Longrightarrow> call_ok c"
proof -
  let ?n = "nat (int_of (at_key tool ''index''))"
  let ?c = "known_call s ?n"
  obtain i nm args d k where
    range: "0 \<le> int_of (at_key tool ''index'')" "int_of (at_key tool ''index'') < 64" and
    name: "length nm \<le> 256 - length (call_name ?c)" and
    args: "length args \<le> max_value - length (arguments_json ?c)" and
    t: "t = (put_call ?n ((with_id i ?c)\<lparr>call_name := call_name ?c @ nm,
        arguments_json := arguments_json ?c @ args\<rparr>) s)\<lparr>sink_state := k\<rparr>"
    using assms unfolding tool_delta_def Let_def result_simps demand_Inr with_id_def [symmetric]
    by auto
  have "call_ok ?c \<Longrightarrow> call_ok ((with_id i ?c)\<lparr>call_name := call_name ?c @ nm,
        arguments_json := arguments_json ?c @ args\<rparr>)"
    using name args by (auto simp: call_ok_def)
  then show ?thesis using that [of ?n] range t by simp
qed

definition live :: "'k chat \<Rightarrow> bool" where
  "live s \<longleftrightarrow> open_inv s \<and> \<not> chat_done s"

lemma foldE_keeps: "foldE f s xs = Inr t \<Longrightarrow> P s \<Longrightarrow> (\<And>s x t. P s \<Longrightarrow> f s x = Inr t \<Longrightarrow> P t) \<Longrightarrow> P t"
  using foldE_invariant [of P f s xs t] by blast

lemma tool_delta_live: "tool_delta lib sink s tool = Inr t \<Longrightarrow> live s \<Longrightarrow> live t"
  by (erule tool_delta_Inr) (simp add: live_def open_put_call known_call_ok)

lemma tool_deltas_live: "tool_deltas lib sink delta s = Inr t \<Longrightarrow> live s \<Longrightarrow> live t"
  by (auto simp: tool_deltas_def result_simps split: if_splits elim: foldE_keeps intro: tool_delta_live)

lemma open_fields [simp]:
  "open_inv (s\<lparr>has_reasoning := b\<rparr>) = open_inv s" "open_inv (s\<lparr>reasoning_seen := b\<rparr>) = open_inv s"
  "open_inv (s\<lparr>has_usage := b\<rparr>) = open_inv s" "open_inv (s\<lparr>response_id := x\<rparr>) = open_inv s"
  "open_inv (s\<lparr>model := x\<rparr>) = open_inv s"
  "open_inv (s\<lparr>skip_lf := b\<rparr>) = open_inv s" "open_inv (s\<lparr>first_line := b\<rparr>) = open_inv s"
  "open_inv (s\<lparr>has_data := b\<rparr>) = open_inv s" "open_inv (s\<lparr>chat_done := b\<rparr>) = open_inv s"
  "open_inv (s\<lparr>answer := (answer s)\<lparr>usage_json := x\<rparr>\<rparr>) = open_inv s"
  "open_inv (s\<lparr>answer := (answer s)\<lparr>provider_items_json := x\<rparr>\<rparr>) = open_inv s"
  by (simp_all add: open_inv_def)

lemma open_reasoning:
  "open_inv s \<Longrightarrow> length r \<le> max_value - length (reasoning s) \<Longrightarrow>
   open_inv (s\<lparr>has_reasoning := True, reasoning := reasoning s @ r\<rparr>)"
  by (auto simp: open_inv_def)

lemma deepseek_reasoning_live: "deepseek_reasoning lib sink delta s = Inr t \<Longrightarrow> live s \<Longrightarrow> live t"
  using open_reasoning [of s] open_reasoning [of "s\<lparr>reasoning_seen := True\<rparr>"]
  by (auto simp: deepseek_reasoning_def result_simps Let_def live_def split: if_splits)

lemma append_content_live: "append_content lib sink delta s = Inr t \<Longrightarrow> live s \<Longrightarrow> live t"
  by (auto simp: append_content_def result_simps live_def open_inv_def split: if_splits)

lemma append_refusal_live: "append_refusal lib sink delta s = Inr t \<Longrightarrow> live s \<Longrightarrow> live t"
  by (auto simp: append_refusal_def result_simps live_def open_inv_def split: if_splits)

lemma extensions_live: "extensions lib sink delta s = Inr t \<Longrightarrow> live s \<Longrightarrow> live t"
  by (auto simp: extensions_def result_simps Let_def live_def split: if_splits)

lemma finish_choice_live: "finish_choice lib sink choice s = Inr t \<Longrightarrow> live s \<Longrightarrow> live t"
proof -
  assume "finish_choice lib sink choice s = Inr t" and live: "live s"
  then have "t = s \<or> (\<exists>r k. r \<in> reasons \<and>
      t = s\<lparr>answer := (answer s)\<lparr>finish_reason := r\<rparr>, finished := True, sink_state := k\<rparr>)"
    unfolding finish_choice_def result_simps
    by (fastforce simp: result_simps reasons_def split: if_splits)
  then show "live t" using live by (auto simp: live_def open_inv_def)
qed

lemma choice_step_live: "choice_step lib sink s choice = Inr t \<Longrightarrow> live s \<Longrightarrow> live t"
  unfolding choice_step_def Let_def result_simps
  by (elim exE conjE, drule finish_choice_live)
    (auto dest: append_content_live append_refusal_live tool_deltas_live extensions_live
      deepseek_reasoning_live split: if_splits)

lemma late_usage_live: "late_usage lib sink p s = Inr t \<Longrightarrow> live s \<Longrightarrow> live t"
  by (auto simp: late_usage_def result_simps live_def open_inv_def split: if_splits)

lemma chunk_choices_live: "chunk_choices lib sink v p s = Inr t \<Longrightarrow> live s \<Longrightarrow> live t"
  unfolding chunk_choices_def Let_def result_simps
  by (elim exE conjE, erule late_usage_live, erule foldE_keeps) (auto intro: choice_step_live)

lemma chunk_usage_live:
  assumes "chunk_usage lib sink v s continue = Inr t" and "live s"
    and "\<And>p u. continue p u = Inr t \<Longrightarrow> live u \<Longrightarrow> live t"
  shows "live t"
proof -
  have usage: "live (s\<lparr>answer := (answer s)\<lparr>usage_json := x\<rparr>, sink_state := k\<rparr>)" for x k
    using assms(2) by (simp add: live_def)
  obtain p u where "continue p u = Inr t" "live u"
    using assms(1,2) usage
    by (auto simp: chunk_usage_def record_usage_def result_simps Let_def split: if_splits)
  then show ?thesis by (rule assms(3))
qed

lemma chunk_identity_live: "chunk_identity v s = Inr t \<Longrightarrow> live s \<Longrightarrow> live t"
  by (auto simp: chunk_identity_def result_simps Let_def live_def)

lemma chunk_object_live: "chunk_object lib sink v s = Inr t \<Longrightarrow> live s \<Longrightarrow> live t"
  unfolding chunk_object_def result_simps
  by (elim exE conjE, erule chunk_usage_live) (auto intro: chunk_identity_live chunk_choices_live)

lemma validate_irrelevant [simp]:
  "validate_calls lib (s\<lparr>sink_state := k\<rparr>) = validate_calls lib s"
  "validate_calls lib (s\<lparr>chat_done := b\<rparr>) = validate_calls lib s"
  "validate_calls lib (s\<lparr>data := x\<rparr>) = validate_calls lib s"
  "validate_calls lib (s\<lparr>line := x\<rparr>) = validate_calls lib s"
  "validate_calls lib (s\<lparr>has_data := b\<rparr>) = validate_calls lib s"
  "validate_calls lib (s\<lparr>first_line := b\<rparr>) = validate_calls lib s"
  "validate_calls lib (s\<lparr>skip_lf := b\<rparr>) = validate_calls lib s"
  "validate_calls lib (s\<lparr>answer := (answer s)\<lparr>provider_items_json := x\<rparr>\<rparr>) = validate_calls lib s"
  by (simp_all add: validate_calls_def)

lemma end_marker_inv: "end_marker lib sink s = Inr t \<Longrightarrow> live s \<Longrightarrow> chat_inv lib t"
  by (auto simp: end_marker_def deepseek_finish_def result_simps Let_def live_def chat_inv_def
      split: if_splits)

lemma chunk_inv: "chunk lib sink d s = Inr t \<Longrightarrow> chat_inv lib s \<Longrightarrow> chat_inv lib t"
  using chunk_object_live [of lib sink _ s t] end_marker_inv [of lib sink s t]
  by (auto simp: chunk_def result_simps chat_inv_def live_def split: if_splits)

lemma chat_inv_data: "chat_inv lib s \<Longrightarrow> length d \<le> max_event \<Longrightarrow> chat_inv lib (s\<lparr>data := d\<rparr>)"
  by (simp add: chat_inv_def open_inv_def)

lemma chat_inv_line: "chat_inv lib s \<Longrightarrow> length l \<le> max_line \<Longrightarrow> chat_inv lib (s\<lparr>line := l\<rparr>)"
  by (simp add: chat_inv_def open_inv_def)

lemma chat_inv_flags [simp]: "chat_inv lib (s\<lparr>has_data := b\<rparr>) = chat_inv lib s"
  "chat_inv lib (s\<lparr>first_line := b\<rparr>) = chat_inv lib s"
  "chat_inv lib (s\<lparr>skip_lf := b\<rparr>) = chat_inv lib s"
  by (simp_all add: chat_inv_def)

lemma dispatch_event_inv:
  assumes "dispatch_event lib sink s = Inr t" and "chat_inv lib s"
  shows "chat_inv lib t"
proof (cases "has_data s")
  case True
  then obtain u where u: "chunk lib sink (butlast (data s)) (s\<lparr>data := butlast (data s)\<rparr>) = Inr u"
    and t: "t = u\<lparr>data := [], has_data := False\<rparr>"
    using assms(1) by (auto simp: dispatch_event_def result_simps Let_def)
  have "length (data s) \<le> max_event" using assms(2) unfolding chat_inv_def open_inv_def by blast
  then have "length (butlast (data s)) \<le> max_event" by simp
  then have "chat_inv lib u" using chunk_inv [OF u] chat_inv_data [OF assms(2)] by blast
  then show ?thesis using t chat_inv_data [of lib u "[]"] by simp
next
  case False
  then show ?thesis using assms by (simp add: dispatch_event_def)
qed

lemma data_field_inv: "data_field d s = Inr t \<Longrightarrow> chat_inv lib s \<Longrightarrow> chat_inv lib t"
  by (auto simp: data_field_def result_simps Let_def chat_inv_def open_inv_def)

lemma end_line_inv:
  assumes "end_line lib sink s = Inr t" and "chat_inv lib s"
  shows "chat_inv lib t"
proof -
  define u where "u = (if first_line s then s\<lparr>first_line := False, line :=
          (if starts_with (line s) byte_order_mark then drop 3 (line s) else line s)\<rparr> else s)"
  have "length (line s) \<le> max_line" using assms(2) by (simp add: chat_inv_def open_inv_def)
  then have u: "chat_inv lib u"
    using assms(2) chat_inv_line [of lib "s\<lparr>first_line := False\<rparr>"] by (simp add: u_def)
  obtain v where "v = u \<or> dispatch_event lib sink u = Inr v \<or>
      (\<exists>d. data_field d u = Inr v)" and t: "t = v\<lparr>line := []\<rparr>"
    using assms(1) unfolding end_line_def Let_def u_def [symmetric] result_simps
    by (auto split: if_splits)
  then have "chat_inv lib v" using u dispatch_event_inv data_field_inv by blast
  then show ?thesis using t chat_inv_line [of lib v "[]"] by simp
qed

lemma feed_byte_inv:
  assumes "feed_byte lib sink s c = Inr t" and "chat_inv lib s"
  shows "chat_inv lib t"
proof -
  define u where "u = s\<lparr>skip_lf := False\<rparr>"
  have u: "chat_inv lib u" using assms(2) by (simp add: u_def)
  consider (skip) "skip_lf s \<and> c = CHR 0x0A" | (cr) "c = CHR 0x0D" | (lf) "c = CHR 0x0A" "\<not> skip_lf s"
    | (other) "c \<noteq> CHR 0x0A" "c \<noteq> CHR 0x0D" by blast
  then show ?thesis
  proof cases
    case skip
    then show ?thesis using assms u by (simp add: feed_byte_def u_def)
  next
    case cr
    then obtain v where "end_line lib sink u = Inr v" "t = v\<lparr>skip_lf := True\<rparr>"
      using assms(1) by (auto simp: feed_byte_def u_def result_simps)
    then show ?thesis using u end_line_inv by auto
  next
    case lf
    then have "end_line lib sink u = Inr t" using assms(1) by (simp add: feed_byte_def u_def)
    then show ?thesis using u end_line_inv by blast
  next
    case other
    then have "t = u\<lparr>line := line u @ [c]\<rparr>" "length (line u @ [c]) \<le> max_line"
      using assms(1) by (auto simp: feed_byte_def u_def result_simps Let_def)
    then show ?thesis using u chat_inv_line by blast
  qed
qed

lemma feed_bytes_steps: "feed_bytes lib sink s bs = foldE (feed_byte lib sink) s bs"
  by (induction bs arbitrary: s) simp_all

interpretation chat_bytes: byte_machine "feed_bytes lib sink" "feed_byte lib sink" for lib sink
  by unfold_locales (rule feed_bytes_steps)

lemma chat_feed_inv:
  assumes "chat_feed lib sink s bs = Inr t" and "chat_inv lib (decoder s)"
  shows "chat_inv lib (decoder t)"
proof (rule chat_bytes.feed_keeps)
  show "feed_bytes lib sink (decoder s) bs = Inr (decoder t)"
    using assms(1) by (auto simp: chat_feed_def stream_feed_def Let_def split: sum.splits if_splits)
  show "chat_inv lib (decoder s)" by (rule assms(2))
qed (rule feed_byte_inv)

lemma chat_new_inv: "chat_new k d expected = Inr s \<Longrightarrow> chat_inv lib (decoder s)"
  by (auto simp: chat_new_def decoder_new_def chat_inv_def open_inv_def empty_completion_def
      result_simps split: if_splits)

lemma feeds_inv:
  "foldE (chat_feed lib sink) s ps = Inr t \<Longrightarrow> chat_inv lib (decoder s) \<Longrightarrow> chat_inv lib (decoder t)"
  by (erule foldE_keeps) (auto intro: chat_feed_inv)

lemma call_loop_Inr: "call_loop lib reason ids cs = Inr () \<longleftrightarrow>
   (\<forall>c \<in> set cs. call_id c \<noteq> [] \<and> length (call_id c) \<le> 256 \<and> call_name c \<noteq> [] \<and>
      length (call_name c) \<le> 256 \<and>
      (reason = ''tool_calls'' \<longrightarrow> (\<exists>v. protocol_json lib (arguments_json c) = Inr v \<and> is_object v))) \<and>
   distinct (map call_id cs) \<and> ids \<inter> call_id ` set cs = {}"
proof (induction cs arbitrary: ids)
  case (Cons c cs)
  show ?case
    by (simp add: result_simps Cons.IH split: if_splits) (auto simp: not_le)
qed simp

section \<open>Feeding in pieces\<close>

text \<open>What an owner can observe of a result: the state, or the error and what its sink was told.\<close>

definition observe :: "'k stream_result \<Rightarrow> stream_error \<times> 'k + 'k chat_stream" where
  "observe r = map_error (\<lambda>(e, s). (e, sink_state (decoder s))) r"

lemma chat_feed_live:
  assumes "\<not> failed s" and "length bs \<le> max_stream - total s"
  shows "chat_feed lib sink s bs =
    (case feed_bytes lib sink (decoder s) bs of
       Inl (e, c) \<Rightarrow> Inl (visible_error e, s\<lparr>decoder := c, total := total s + length bs, failed := True\<rparr>)
     | Inr c \<Rightarrow> Inr (s\<lparr>decoder := c, total := total s + length bs\<rparr>))"
  using assms by (auto simp: chat_feed_def stream_feed_def Let_def split: sum.splits prod.splits)

lemma feed_pieces:
  "\<not> failed s \<Longrightarrow> total s + length (concat ps) \<le> max_stream \<Longrightarrow>
   observe (foldE (chat_feed lib sink) s ps) =
   (case feed_bytes lib sink (decoder s) (concat ps) of
       Inl (e, c) \<Rightarrow> Inl (visible_error e, sink_state c)
     | Inr c \<Rightarrow> Inr (s\<lparr>decoder := c, total := total s + length (concat ps)\<rparr>))"
proof (induction ps arbitrary: s)
  case Nil
  then show ?case by (simp add: observe_def)
next
  case (Cons p ps)
  have "length p \<le> max_stream - total s" using Cons.prems(2) by simp
  note first = chat_feed_live [OF Cons.prems(1) this, of lib sink]
  show ?case
  proof (cases "feed_bytes lib sink (decoder s) p")
    case (Inl ec)
    then show ?thesis using first by (cases ec) (simp add: observe_def chat_bytes.feed_append)
  next
    case (Inr c)
    then have "observe (foldE (chat_feed lib sink) s (p # ps)) =
        observe (foldE (chat_feed lib sink) (s\<lparr>decoder := c, total := total s + length p\<rparr>) ps)"
      using first by simp
    also have "\<dots> = (case feed_bytes lib sink c (concat ps) of
       Inl (e, c) \<Rightarrow> Inl (visible_error e, sink_state c)
     | Inr c \<Rightarrow> Inr (s\<lparr>decoder := c, total := total s + length p + length (concat ps)\<rparr>))"
      using Cons.IH [of "s\<lparr>decoder := c, total := total s + length p\<rparr>"] Cons.prems
      by (cases s, cases "feed_bytes lib sink c (concat ps)") simp_all
    also have "total s + length p + length (concat ps) = total s + length (concat (p # ps))"
      by simp
    finally show ?thesis using Inr by (simp add: chat_bytes.feed_append del: foldE.simps)
  qed
qed

section \<open>The text a sink is told\<close>

definition record_sink :: "model_event list chat_sink" where
  "record_sink k e = (k @ [e], True)"

definition told_text :: "json_lib \<Rightarrow> model_event list \<Rightarrow> bytes \<Rightarrow> bool" where
  "told_text lib evs txt \<longleftrightarrow> (\<exists>ts. concat ts = txt \<and>
     list_all2 (\<lambda>e t. dump lib (text_event t) = Some (ev_json e))
       (filter (\<lambda>e. ev_kind e = ''model.text'') evs) ts)"

definition told :: "json_lib \<Rightarrow> model_event list chat \<Rightarrow> bool" where
  "told lib s \<longleftrightarrow> told_text lib (sink_state s) (content (answer s))"

lemma told_other [simp]: "k \<noteq> ''model.text'' \<Longrightarrow>
  told_text lib (evs @ [\<lparr>ev_kind = k, ev_json = d\<rparr>]) txt = told_text lib evs txt"
  by (simp add: told_text_def)

lemma told_more:
  assumes "told_text lib evs txt" and "dump lib (text_event t) = Some d"
  shows "told_text lib (evs @ [\<lparr>ev_kind = ''model.text'', ev_json = d\<rparr>]) (txt @ t)"
proof -
  obtain ts where "concat ts = txt" "list_all2 (\<lambda>e t. dump lib (text_event t) = Some (ev_json e))
       (filter (\<lambda>e. ev_kind e = ''model.text'') evs) ts"
    using assms(1) unfolding told_text_def by blast
  then show ?thesis
    unfolding told_text_def using assms(2)
    by (intro exI [of _ "ts @ [t]"]) (simp add: list_all2_appendI)
qed

lemma record_emit:
  "emit lib record_sink k v s = Inr t \<longleftrightarrow> (\<exists>d. dump lib v = Some d \<and>
     t = s\<lparr>sink_state := sink_state s @ [\<lparr>ev_kind = k, ev_json = d\<rparr>]\<rparr>)"
  by (simp add: emit_Inr record_sink_def)

lemma record_delta_told: "tool_delta lib record_sink s tool = Inr t \<Longrightarrow> told lib s \<Longrightarrow> told lib t"
  unfolding tool_delta_def Let_def reading_Inr demand_Inr record_emit
  by (elim exE conjE) (simp add: told_def put_call_def)

lemma record_deltas_told: "tool_deltas lib record_sink delta s = Inr t \<Longrightarrow> told lib s \<Longrightarrow> told lib t"
  by (auto simp: tool_deltas_def reading_Inr split: if_splits elim: foldE_keeps intro: record_delta_told)

lemma record_reasoning_told:
  "deepseek_reasoning lib record_sink delta s = Inr t \<Longrightarrow> told lib s \<Longrightarrow> told lib t"
  by (auto simp: deepseek_reasoning_def reading_Inr record_emit Let_def told_def split: if_splits)

lemma record_content_told:
  "append_content lib record_sink delta s = Inr t \<Longrightarrow> told lib s \<Longrightarrow> told lib t"
  by (auto simp: append_content_def reading_Inr bounded_append_Inr record_emit told_def intro: told_more split: if_splits)

lemma record_refusal_told:
  "append_refusal lib record_sink delta s = Inr t \<Longrightarrow> told lib s \<Longrightarrow> told lib t"
  by (auto simp: append_refusal_def reading_Inr record_emit told_def split: if_splits)

lemma record_extensions_told:
  "extensions lib record_sink delta s = Inr t \<Longrightarrow> told lib s \<Longrightarrow> told lib t"
  by (auto simp: extensions_def record_emit Let_def told_def split: if_splits)

lemma record_finish_told:
  "finish_choice lib record_sink choice s = Inr t \<Longrightarrow> told lib s \<Longrightarrow> told lib t"
  by (auto simp: finish_choice_def reading_Inr record_emit told_def split: if_splits)

lemma record_choice_told:
  "choice_step lib record_sink s choice = Inr t \<Longrightarrow> told lib s \<Longrightarrow> told lib t"
  unfolding choice_step_def Let_def reading_Inr bindE_Inr
  by (elim exE conjE, drule record_finish_told)
    (auto dest: record_content_told record_refusal_told record_deltas_told record_extensions_told
      record_reasoning_told split: if_splits)

lemma record_object_told:
  assumes "chunk_object lib record_sink v s = Inr t" and "told lib s"
  shows "told lib t"
proof -
  obtain i where i: "chunk_identity v s = Inr i"
    and u: "chunk_usage lib record_sink v i (chunk_choices lib record_sink v) = Inr t"
    using assms(1) by (auto simp: chunk_object_def result_simps)
  have "told lib i" using i assms(2) by (auto simp: chunk_identity_def reading_Inr Let_def told_def)
  then obtain p w where w: "chunk_choices lib record_sink v p w = Inr t" "told lib w"
    using u by (auto simp: chunk_usage_def record_usage_def reading_Inr bindE_Inr record_emit Let_def
        told_def split: if_splits)
  then obtain x where x: "foldE (choice_step lib record_sink) w (elements (at_key v ''choices'')) = Inr x"
    "late_usage lib record_sink p x = Inr t"
    unfolding chunk_choices_def Let_def reading_Inr bindE_Inr by blast
  have "told lib x" using x(1) w(2) by (rule foldE_keeps) (auto intro: record_choice_told)
  then show ?thesis using x(2)
    by (auto simp: late_usage_def reading_Inr record_emit told_def split: if_splits)
qed

lemma record_marker_told: "end_marker lib record_sink s = Inr t \<Longrightarrow> told lib s \<Longrightarrow> told lib t"
  by (auto simp: end_marker_def deepseek_finish_def reading_Inr bindE_Inr record_emit Let_def told_def split: if_splits)

lemma record_chunk_told: "chunk lib record_sink d s = Inr t \<Longrightarrow> told lib s \<Longrightarrow> told lib t"
  using record_object_told [of lib _ s t] record_marker_told [of lib s t]
  by (auto simp: chunk_def reading_Inr split: if_splits)

lemma told_fields [simp]: "told lib (s\<lparr>data := x\<rparr>) = told lib s" "told lib (s\<lparr>line := x\<rparr>) = told lib s"
  "told lib (s\<lparr>has_data := b\<rparr>) = told lib s" "told lib (s\<lparr>first_line := b\<rparr>) = told lib s"
  "told lib (s\<lparr>skip_lf := b\<rparr>) = told lib s"
  by (simp_all add: told_def)

lemma record_event_told: "dispatch_event lib record_sink s = Inr t \<Longrightarrow> told lib s \<Longrightarrow> told lib t"
  by (auto simp: dispatch_event_def bindE_Inr Let_def dest: record_chunk_told split: if_splits)

lemma record_line_told:
  assumes "end_line lib record_sink s = Inr t" and "told lib s"
  shows "told lib t"
proof -
  define u where "u = (if first_line s then s\<lparr>first_line := False, line :=
          (if starts_with (line s) byte_order_mark then drop 3 (line s) else line s)\<rparr> else s)"
  have u: "told lib u" using assms(2) by (simp add: u_def)
  obtain v where "v = u \<or> dispatch_event lib record_sink u = Inr v \<or> (\<exists>d. data_field d u = Inr v)"
    and t: "t = v\<lparr>line := []\<rparr>"
    using assms(1) unfolding end_line_def Let_def u_def [symmetric] bindE_Inr
    by (auto split: if_splits)
  moreover have "data_field d u = Inr v \<Longrightarrow> told lib v" for d
    using u by (auto simp: data_field_def reading_Inr Let_def)
  ultimately show ?thesis using u t record_event_told by auto
qed

lemma record_byte_told: "feed_byte lib record_sink s c = Inr t \<Longrightarrow> told lib s \<Longrightarrow> told lib t"
  using record_line_told [of lib "s\<lparr>skip_lf := False\<rparr>"]
  by (auto simp: feed_byte_def result_simps Let_def split: if_splits)

lemma record_feeds_told:
  "foldE (chat_feed lib record_sink) s ps = Inr t \<Longrightarrow> told lib (decoder s) \<Longrightarrow> told lib (decoder t)"
proof (erule foldE_keeps [where P = "\<lambda>s. told lib (decoder s)"], assumption)
  fix s bs and t :: "model_event list chat_stream"
  assume s: "told lib (decoder s)" and feed: "chat_feed lib record_sink s bs = Inr t"
  show "told lib (decoder t)"
  proof (rule chat_bytes.feed_keeps)
    show "feed_bytes lib record_sink (decoder s) bs = Inr (decoder t)"
      using feed by (auto simp: chat_feed_def stream_feed_def Let_def split: sum.splits if_splits)
  qed (rule record_byte_told, assumption+, rule s)
qed

section \<open>What the decoder promises\<close>

text \<open>A library of three texts and a stream of one chunk with one tool call and the end marker.\<close>

definition sample_chunk :: json where
  "sample_chunk = JObj [(''choices'', JArr [JObj [(''index'', JInt 0), (''finish_reason'', JStr ''tool_calls''),
     (''delta'', JObj [(''content'', JStr ''hi''), (''tool_calls'', JArr [JObj [(''index'', JInt 0),
        (''id'', JStr ''i''), (''function'', JObj [(''name'', JStr ''f''), (''arguments'', JStr ''B'')])]])])]])]"

definition sample_lib :: json_lib where
  "sample_lib = \<lparr>sax = (\<lambda>bs. if bs = ''A'' then ([(0, Object_start), (0, Object_end)], Some sample_chunk)
       else if bs = ''B'' then ([(0, Object_start), (0, Object_end)], Some (JObj [])) else ([], None)),
     dump = (\<lambda>v. Some ''d''), same = (=)\<rparr>"

definition sample_new :: "model_event list chat_stream" where
  "sample_new = \<lparr>decoder = \<lparr>sink_state = [], dialect = Openai, expected_model = [], reasoning = [],
        has_reasoning = False, reasoning_seen = False, has_usage = False, answer = empty_completion,
        calls = Map.empty, line = [], data = [], response_id = [], model = [],
        skip_lf = False, first_line = True, has_data = False, chat_done = False, finished = False\<rparr>,
     total = 0, failed = False\<rparr>"

definition nl :: bytes where "nl = [CHR 0x0A]"

lemma sample_new: "chat_new [] Openai [] = Inr sample_new"
  by (simp add: chat_new_def decoder_new_def sample_new_def)

lemmas chat_defs = chat_feed_def stream_feed_def max_line_def max_event_def max_stream_def max_value_def
  feed_byte_def end_line_def dispatch_event_def data_field_def field_of_def byte_order_mark_def
  bounded_append_def reading_def demand_def guardE_def chunk_def

lemma sample_data: "chat_feed sample_lib record_sink sample_new (''data:A'' @ nl) = Inr (sample_new\<lparr>
   decoder := (decoder sample_new)\<lparr>data := ''A'' @ nl, has_data := True, first_line := False\<rparr>,
   total := 7\<rparr>)"
  by (simp add: chat_defs sample_new_def nl_def)

definition sample_call :: tool_call where
  "sample_call = \<lparr>call_id = ''i'', call_name = ''f'', arguments_json = ''B''\<rparr>"

definition sample_event :: "bytes \<Rightarrow> model_event" where
  "sample_event k = \<lparr>ev_kind = k, ev_json = ''d''\<rparr>"

definition sample_turn :: "model_event list chat" where
  "sample_turn = (decoder sample_new)\<lparr>
     sink_state := map sample_event [''model.text'', ''model.tool_delta'', ''model.finish''],
     answer := empty_completion\<lparr>content := ''hi'', finish_reason := ''tool_calls''\<rparr>,
     calls := [0 \<mapsto> sample_call], first_line := False, finished := True\<rparr>"

lemma sample_dump: "dump sample_lib v = Some ''d''"
  by (simp add: sample_lib_def)

lemma sample_json: "protocol_json sample_lib ''A'' = Inr sample_chunk" "protocol_json sample_lib ''B'' = Inr (JObj [])"
  by (simp_all add: protocol_json_def sample_lib_def)

lemma sample_chunk_done: "chunk sample_lib record_sink ''A''
    ((decoder sample_new)\<lparr>data := ''A'', has_data := True, first_line := False\<rparr>) =
  Inr (sample_turn\<lparr>data := ''A'', has_data := True\<rparr>)"
    unfolding chunk_def
    by (simp add: sample_json sample_dump reading_def demand_def guardE_def sample_new_def sample_turn_def chunk_object_def
        sample_chunk_def has_member_def member_def at_key_def chunk_identity_def optional_string_def
        same_identity_def chunk_usage_def present_def chunk_choices_def choice_step_def
        append_content_def append_refusal_def tool_deltas_def tool_delta_def extensions_def
        extension_members_def finish_choice_def bounded_append_def max_value_def emit_def
        dump_value_def record_sink_def known_call_def put_call_def Let_def late_usage_def
        sample_call_def sample_event_def empty_completion_def)

lemma sample_blank: "chat_feed sample_lib record_sink (sample_new\<lparr>
   decoder := (decoder sample_new)\<lparr>data := ''A'' @ nl, has_data := True, first_line := False\<rparr>,
   total := 7\<rparr>) nl = Inr (sample_new\<lparr>decoder := sample_turn, total := 8\<rparr>)"
  using sample_chunk_done
  by (simp add: chat_feed_def stream_feed_def max_stream_def feed_byte_def end_line_def
      dispatch_event_def sample_new_def nl_def sample_turn_def)

lemma sample_mark: "chat_feed sample_lib record_sink (sample_new\<lparr>decoder := sample_turn, total := 8\<rparr>)
    (''data:[DONE]'' @ nl @ nl) =
  Inr (sample_new\<lparr>decoder := sample_turn\<lparr>chat_done := True,
     sink_state := sink_state sample_turn @ [sample_event ''model.done'']\<rparr>, total := 21\<rparr>)"
proof -
  have valid: "validate_calls sample_lib (sample_turn\<lparr>data := ''[DONE]'', has_data := True\<rparr>) = Inr ()"
    by (simp add: validate_calls_def indexed_calls_def sample_turn_def sample_new_def sample_call_def
        demand_def sample_json upt_rec Let_def)
  have "end_marker sample_lib record_sink (sample_turn\<lparr>data := ''[DONE]'', has_data := True\<rparr>) =
      Inr (sample_turn\<lparr>data := ''[DONE]'', has_data := True, chat_done := True,
        sink_state := sink_state sample_turn @ [sample_event ''model.done'']\<rparr>)"
    using valid
    by (simp add: end_marker_def reading_def demand_def guardE_def sample_turn_def sample_new_def emit_def
        dump_value_def sample_dump record_sink_def sample_event_def)
  then show ?thesis by (simp add: chat_defs sample_new_def nl_def sample_turn_def)
qed

definition sample_pieces :: "bytes list" where
  "sample_pieces = [''data:A'' @ nl, nl, ''data:[DONE]'' @ nl @ nl]"

definition sample_end :: "model_event list chat_stream" where
  "sample_end = sample_new\<lparr>decoder := sample_turn\<lparr>chat_done := True,
     sink_state := sink_state sample_turn @ [sample_event ''model.done'']\<rparr>, total := 21\<rparr>"

lemma sample_feeds: "foldE (chat_feed sample_lib record_sink) sample_new sample_pieces = Inr sample_end"
  by (simp only: sample_pieces_def sample_end_def foldE.simps sample_data sample_blank sample_mark bindE_simps)

lemma sample_finish: "chat_finish sample_end = Inr ((answer sample_turn)\<lparr>tool_calls := [sample_call]\<rparr>)"
  by (simp add: chat_finish_def sample_end_def sample_turn_def sample_new_def indexed_calls_def upt_rec)

text \<open>
  C19. A completion is only ever returned for a complete turn: its finish reason is one of the
  four supported ones, tool calls are returned exactly for the reason \<open>tool_calls\<close>, at least one,
  with distinct bounded identities, names, and arguments that parse to an object.
\<close>
theorem finished_turn_is_sound:
  assumes "chat_new k d expected = Inr s0" and "foldE (chat_feed lib sink) s0 pieces = Inr s"
    and "chat_finish s = Inr c"
  shows "finish_reason c \<in> {''stop'', ''tool_calls'', ''length'', ''content_filter''} \<and>
    (tool_calls c \<noteq> [] \<longleftrightarrow> finish_reason c = ''tool_calls'') \<and>
    distinct (map call_id (tool_calls c)) \<and> length (content c) \<le> max_value \<and>
    (\<forall>t \<in> set (tool_calls c). call_id t \<noteq> [] \<and> length (call_id t) \<le> 256 \<and> call_name t \<noteq> [] \<and>
       length (call_name t) \<le> 256 \<and> length (arguments_json t) \<le> max_value \<and>
       (\<exists>v. protocol_json lib (arguments_json t) = Inr v \<and> is_object v))"
proof -
  let ?s = "decoder s"
  have inv: "chat_inv lib ?s" using feeds_inv [OF assms(2) chat_new_inv [OF assms(1)]] .
  have c: "c = (answer ?s)\<lparr>tool_calls := (if finish_reason (answer ?s) = ''tool_calls''
        then indexed_calls (calls ?s) else [])\<rparr>" and "chat_done ?s"
    using assms(3) by (auto simp: chat_finish_def Let_def split: if_splits)
  then have fin: "finish_reason (answer ?s) \<in> reasons" and valid: "validate_calls lib ?s = Inr ()"
    and size: "length (content (answer ?s)) \<le> max_value"
    and calls: "\<forall>n t. calls ?s n = Some t \<longrightarrow> call_ok t"
    using inv by (auto simp: chat_inv_def open_inv_def)
  have "\<forall>t \<in> set (indexed_calls (calls ?s)). call_ok t"
    using calls by (auto simp: indexed_calls_def)
  then show ?thesis
    using fin valid size
    by (auto simp: c reasons_def validate_calls_def Let_def result_simps call_loop_Inr call_ok_def)
qed

theorem finished_turn_is_sound_witness:
  "finish_reason (answer sample_turn) = ''tool_calls'' \<and>
   (\<exists>v. protocol_json sample_lib (arguments_json sample_call) = Inr v \<and> is_object v)"
  using finished_turn_is_sound [OF sample_new sample_feeds sample_finish] by (simp add: sample_turn_def)

text \<open>
  Network chunking cannot be observed: up to the stream limit, feeding any pieces gives the
  state, or the error and the events, that feeding their concatenation gives.
\<close>
theorem chat_pieces_unobservable:
  assumes "\<not> failed s" and "total s + length (concat ps) \<le> max_stream"
  shows "observe (foldE (chat_feed lib sink) s ps) = observe (chat_feed lib sink s (concat ps))"
proof -
  have one: "concat [concat ps] = concat ps" by simp
  have "chat_feed lib sink s (concat ps) = foldE (chat_feed lib sink) s [concat ps]"
    by (simp add: bindE_return)
  also have "observe \<dots> = observe (foldE (chat_feed lib sink) s ps)"
    using feed_pieces [OF assms, of lib sink] feed_pieces [of s "[concat ps]" lib sink] assms
    unfolding one by simp
  finally show ?thesis ..
qed

theorem chat_pieces_unobservable_witness:
  "observe (foldE (chat_feed sample_lib record_sink) sample_new sample_pieces) =
   observe (chat_feed sample_lib record_sink sample_new (concat sample_pieces))"
  by (rule chat_pieces_unobservable)
    (simp_all add: sample_new_def sample_pieces_def nl_def max_stream_def)

text \<open>
  The answer is what the owner was told: after any input, the text of the completion is the
  concatenation of the texts of the \<open>model.text\<close> events, in order, none lost or repeated.
\<close>
theorem answer_is_emitted_text:
  assumes "chat_new [] d expected = Inr s0" and "foldE (chat_feed lib record_sink) s0 pieces = Inr s"
  shows "\<exists>ts. concat ts = content (answer (decoder s)) \<and>
    list_all2 (\<lambda>e t. dump lib (text_event t) = Some (ev_json e))
      (filter (\<lambda>e. ev_kind e = ''model.text'') (sink_state (decoder s))) ts"
proof -
  have "told lib (decoder s0)"
    using assms(1) by (auto simp: chat_new_def decoder_new_def told_def told_text_def
        empty_completion_def result_simps split: if_splits)
  then show ?thesis using record_feeds_told [OF assms(2)] by (simp add: told_def told_text_def)
qed

theorem answer_is_emitted_text_witness:
  "\<exists>ts. concat ts = content (answer (decoder sample_end)) \<and>
    list_all2 (\<lambda>e t. dump sample_lib (text_event t) = Some (ev_json e))
      (filter (\<lambda>e. ev_kind e = ''model.text'') (sink_state (decoder sample_end))) ts"
  using answer_is_emitted_text [OF sample_new sample_feeds] .

text \<open>A hash that tells the table's messages apart, so that their distinctness evaluates quickly.\<close>

fun low_bits :: "char \<Rightarrow> int" where
  "low_bits (Char a b c d e f g h) = (if a then 1 else 0) + (if b then 2 else 0) + (if c then 4 else 0)
    + (if d then 8 else 0) + (if e then 16 else 0) + (if f then 32 else 0) + (if g then 64 else 0)"

fun text_hash :: "int \<Rightarrow> bytes \<Rightarrow> int" where
  "text_hash h [] = h"
| "text_hash h (c # cs) = text_hash ((h * 5 + low_bits c) mod 65537) cs"

lemma diagnostic_messages_distinct: "distinct (map fst diagnostic_table)"
proof -
  have "distinct (map (text_hash 0 o fst) diagnostic_table)" by code_simp
  then show ?thesis by (metis distinct_map map_map)
qed

text \<open>
  Diagnostics never reflect provider text: every message of the table gives its own code, and
  any other message gives the one generic code.
\<close>
theorem diagnostics_closed:
  "(\<forall>(message, code) \<in> set diagnostic_table. model_protocol_diagnostic message = code) \<and>
   (\<forall>message. message \<notin> fst ` set diagnostic_table \<longrightarrow>
      model_protocol_diagnostic message = ''model_response_invalid'')"
  using diagnostic_messages_distinct
  by (auto simp: model_protocol_diagnostic_def map_of_eq_None_iff [THEN iffD2])

theorem diagnostics_closed_witness:
  "model_protocol_diagnostic ''Responses final function differs from stream'' =
     ''responses_function_final_mismatch'' \<and>
   model_protocol_diagnostic [] = ''model_response_invalid''"
proof
  have listed: "(''Responses final function differs from stream'', ''responses_function_final_mismatch'')
      \<in> set diagnostic_table"
    by (subst diagnostic_table_def, rule list.set_intros(1))
  show "model_protocol_diagnostic ''Responses final function differs from stream'' =
     ''responses_function_final_mismatch''"
    using bspec [OF conjunct1 [OF diagnostics_closed] listed] by simp
  have "list_all (\<lambda>(m, c). m \<noteq> []) diagnostic_table" by code_simp
  then have "[] \<notin> fst ` set diagnostic_table" by (auto simp: list_all_iff)
  then show "model_protocol_diagnostic [] = ''model_response_invalid''"
    using spec [OF conjunct2 [OF diagnostics_closed], of "[]"] by simp
qed

end
