(* ===== verification/Graph_Plan.thy ===== *)
theory Graph_Plan
  imports Mcp_Wire Agent_Permissions
begin

text \<open>
  \<open>graph.cpp\<close>, the immutable plan: validation of a graph specification into nodes and a
  topological order, nested snapshots within their shared budget, references into the outputs
  of dependencies and their resolution, also inside the raw text of MCP arguments. Exceptions
  keep their message; \<open>object_text\<close> is the file's strict parser over the wire layer's.
\<close>

section \<open>Validation helpers\<close>

datatype graph_error = Invalid bytes | Bad_policy policy_error | Conflict bytes | Node_not_found
  | Json_failure | Past_end

definition invalid :: "bytes \<Rightarrow> graph_error + 'a" where
  "invalid message = Inl (Invalid message)"

definition need :: "bool \<Rightarrow> bytes \<Rightarrow> graph_error + unit" where
  "need b message = guardE b (Invalid message)"

definition parse_object :: "json_lib \<Rightarrow> bytes \<Rightarrow> nat \<Rightarrow> graph_error + json" where
  "parse_object lib source limit =
     bindE (need (length source \<le> limit) ''Graph JSON exceeds limits'') (\<lambda>_.
       case mcp_compact_object lib source of Inl _ \<Rightarrow> invalid ''Invalid graph JSON''
       | Inr compact \<Rightarrow> (case json_text lib compact of None \<Rightarrow> invalid ''Invalid graph JSON''
           | Some v \<Rightarrow> Inr v))"

definition dumpG :: "json_lib \<Rightarrow> json \<Rightarrow> graph_error + bytes" where
  "dumpG lib v = (case dump lib v of None \<Rightarrow> Inl Json_failure | Some s \<Rightarrow> Inr s)"

definition parseG :: "json_lib \<Rightarrow> bytes \<Rightarrow> graph_error + json" where
  "parseG lib s = (case json_text lib s of None \<Rightarrow> Inl Json_failure | Some v \<Rightarrow> Inr v)"

definition only_fields :: "json \<Rightarrow> bytes list \<Rightarrow> graph_error + unit" where
  "only_fields v allowed =
     bindE (need (is_object v) ''Graph value must be an object'') (\<lambda>_.
       need (list_all (\<lambda>(k, x). k \<in> set allowed) (members v)) ''Unknown graph field'')"

definition text_field :: "json \<Rightarrow> bytes \<Rightarrow> nat \<Rightarrow> graph_error + bytes" where
  "text_field v k limit =
     bindE (need (is_string (at_key v k)) ''Missing graph text field'') (\<lambda>_.
       let s = str_of (at_key v k) in
       bindE (need (s \<noteq> [] \<and> length s \<le> limit \<and> CHR 0x00 \<notin> set s) ''Invalid graph text field'')
         (\<lambda>_. Inr s))"

definition optional_field :: "json \<Rightarrow> bytes \<Rightarrow> nat \<Rightarrow> graph_error + bytes" where
  "optional_field v k limit = (if has_member v k then text_field v k limit else Inr [])"

definition graph_identifier :: "bytes \<Rightarrow> bool" where
  "graph_identifier s \<longleftrightarrow> s \<noteq> [] \<and> length s \<le> 64 \<and> set s \<subseteq> set word_chars"

definition mcp_alias :: "bytes \<Rightarrow> bool" where
  "mcp_alias s \<longleftrightarrow> length s = 52 \<and> starts_with s ''mcp_'' \<and>
     set (drop 4 s) \<subseteq> set ''0123456789abcdef''"

section \<open>References\<close>

fun int_value :: "json \<Rightarrow> int" where
  "int_value (JInt i) = i" | "int_value _ = 0"

text \<open>\<open>get<std::size_t>\<close> of an integer wraps.\<close>

definition index_of :: "json \<Rightarrow> nat" where
  "index_of part = nat (int_value part mod 2 ^ 64)"

definition path_item_ok :: "json \<Rightarrow> bool" where
  "path_item_ok item \<longleftrightarrow>
     (is_string item \<and> length (str_of item) \<le> 256 \<and> CHR 0x00 \<notin> set (str_of item)) \<or>
     (is_integer item \<and> 0 \<le> int_value item \<and> int_value item \<le> 65535)"

definition check_path :: "json \<Rightarrow> graph_error + unit" where
  "check_path v =
     bindE (need (is_array v \<and> length (elements v) \<le> 32) ''Invalid graph value path'') (\<lambda>_.
       need (list_all path_item_ok (elements v)) ''Invalid graph path component'')"

definition check_reference :: "json \<Rightarrow> bytes list \<Rightarrow> bool \<Rightarrow> graph_error + unit" where
  "check_reference ref dependencies condition =
     bindE (only_fields ref (if condition then [''node'', ''path'', ''equals''] else [''node'', ''path'']))
       (\<lambda>_. bindE (text_field ref ''node'' 64) (\<lambda>i.
       bindE (need (i \<in> set dependencies) ''Graph reference must name a declared dependency'') (\<lambda>_.
       bindE (if has_member ref ''path'' then check_path (at_key ref ''path'') else Inr ()) (\<lambda>_.
       need (condition \<longrightarrow> has_member ref ''equals'') ''Graph condition requires equals''))))"

fun check_references :: "bytes list \<Rightarrow> json \<Rightarrow> graph_error + unit" where
  "check_references deps (JObj ms) =
     (if has_member (JObj ms) ''$ref'' then
        bindE (need (length ms = 1) ''Graph reference cannot include literal fields'') (\<lambda>_.
          check_reference (at_key (JObj ms) ''$ref'') deps False)
      else forE (\<lambda>(k, v). check_references deps v) ms)"
| "check_references deps (JArr vs) = forE (check_references deps) vs"
| "check_references deps v = Inr ()"

fun at_path :: "json \<Rightarrow> json list \<Rightarrow> graph_error + json" where
  "at_path v [] = Inr v"
| "at_path v (part # parts) =
     (if is_string part then
        (if is_object v \<and> has_member v (str_of part) then at_path (at_key v (str_of part)) parts
         else invalid ''Graph output path is unavailable'')
      else if \<not> is_integer part then Inl Json_failure
      else if is_array v \<and> index_of part < length (elements v)
      then at_path (elements v ! index_of part) parts
      else invalid ''Graph output index is unavailable'')"

text \<open>\<open>ref.value("path", [])\<close> and \<open>outputs.at(id)\<close>; the outputs are an object.\<close>

definition ref_path :: "json \<Rightarrow> json list" where
  "ref_path ref = (if has_member ref ''path'' then elements (at_key ref ''path'') else [])"

definition referenced :: "json \<Rightarrow> json \<Rightarrow> graph_error + json" where
  "referenced ref outputs =
     (if \<not> is_string (at_key ref ''node'') then Inl Json_failure
      else bindE (need (has_member outputs (str_of (at_key ref ''node'')))
          ''Graph dependency output is unavailable'') (\<lambda>_.
        at_path (at_key outputs (str_of (at_key ref ''node''))) (ref_path ref)))"

fun resolve :: "json \<Rightarrow> json \<Rightarrow> graph_error + json" where
  "resolve outputs (JObj ms) =
     (if has_member (JObj ms) ''$ref'' then referenced (at_key (JObj ms) ''$ref'') outputs
      else bindE (mapE (\<lambda>(k, v). bindE (resolve outputs v) (\<lambda>r. Inr (k, r))) ms) (\<lambda>rs. Inr (JObj rs)))"
| "resolve outputs (JArr vs) = bindE (mapE (resolve outputs) vs) (\<lambda>rs. Inr (JArr rs))"
| "resolve outputs v = Inr v"

fun exact_value :: "json \<Rightarrow> graph_error + unit" where
  "exact_value (JFloat s) =
     invalid ''MCP graph references require exactly representable dependency numbers''"
| "exact_value (JInt i) = need (- 9007199254740991 \<le> i \<and> i \<le> 9007199254740991)
     ''MCP graph references require exactly representable dependency numbers''"
| "exact_value (JArr vs) = forE exact_value vs"
| "exact_value (JObj ms) = forE (\<lambda>(k, v). exact_value v) ms"
| "exact_value v = Inr ()"

section \<open>References inside the raw text of MCP arguments\<close>

text \<open>\<open>value_end\<close> from an offset: how many bytes of the text after it belong to the value.\<close>

fun value_end :: "nat \<Rightarrow> bool \<Rightarrow> bool \<Rightarrow> bytes \<Rightarrow> nat" where
  "value_end depth q e [] = 0"
| "value_end depth q e (c # cs) =
     (if q then
        (if e then Suc (value_end depth True False cs)
         else if c = CHR 0x5C then Suc (value_end depth True True cs)
         else if c = CHR 0x22 then (if depth = 0 then 1 else Suc (value_end depth False False cs))
         else Suc (value_end depth True False cs))
      else if c = CHR 0x22 then Suc (value_end depth True False cs)
      else if opens c then Suc (value_end (Suc depth) False False cs)
      else if closes c then
        (if depth = 0 then 0 else if depth = 1 then 1 else Suc (value_end (depth - 1) False False cs))
      else if depth = 0 \<and> (c = CHR '','' \<or> json_space c) then 0
      else Suc (value_end depth False False cs))"

lemma value_end_le: "value_end d q e s \<le> length s"
  by (induction s arbitrary: d q e) simp_all

definition leading_spaces :: "bytes \<Rightarrow> bytes" where
  "leading_spaces = takeWhile json_space"

lemma leading_spaces_skip: "leading_spaces s @ skip_space s = s"
  by (simp add: leading_spaces_def skip_space_def)

lemma skip_space_le: "length (skip_space s) \<le> length s"
  by (simp add: skip_space_def length_dropWhile_le)

definition append_resolved :: "bytes \<Rightarrow> bytes \<Rightarrow> graph_error + bytes" where
  "append_resolved result bs =
     bindE (need (length bs \<le> 65536 - length result) ''Resolved MCP graph arguments exceed limits'')
       (\<lambda>_. Inr (result @ bs))"

text \<open>
  The key of a member and the colon after it, kept as they are: the text up to the value and the
  text from it. Reading behind the end cannot happen for text the library accepted.
\<close>

definition after_byte :: "bytes \<Rightarrow> graph_error + bytes \<times> bytes" where
  "after_byte rest = (case rest of [] \<Rightarrow> Inl Past_end
     | c # cs \<Rightarrow> Inr (c # leading_spaces cs, skip_space cs))"

definition skip_key :: "bytes \<Rightarrow> graph_error + bytes \<times> bytes" where
  "skip_key rest =
     (let n = value_end 0 False False rest; tail = drop n rest in
      bindE (after_byte (skip_space tail)) (\<lambda>(colon, rest1).
        Inr (take n rest @ leading_spaces tail @ colon, rest1)))"

text \<open>
  \<open>resolve_mcp\<close>: a reference is replaced by the text of the dependency's value; an array or an
  object keeps every byte around its elements. In \<open>resolve_items\<close>, \<open>kept\<close> is the text
  between \<open>retained\<close> and \<open>offset\<close>, \<open>rest\<close> the text from \<open>offset\<close>.
\<close>

lemma after_byte_shorter: "after_byte (skip_space s) = Inr (a, b) \<Longrightarrow> length b < length s"
  using skip_space_le [of s] skip_space_le [of "tl (skip_space s)"]
  by (auto simp: after_byte_def split: list.splits)

lemma skip_key_shorter: "skip_key s = Inr (a, b) \<Longrightarrow> length b < length s"
  unfolding skip_key_def Let_def result_simps
  by (auto dest!: after_byte_shorter)

definition closing :: "bool \<Rightarrow> char" where
  "closing obj = (if obj then CHR ''}'' else CHR '']'')"

definition item_key :: "bool \<Rightarrow> bytes \<Rightarrow> graph_error + bytes \<times> bytes" where
  "item_key obj rest = (if obj then skip_key rest else Inr ([], rest))"

lemma item_key_le: "item_key obj s = Inr (a, b) \<Longrightarrow> length b \<le> length s"
  by (auto simp: item_key_def dest: skip_key_shorter split: if_splits)

definition closed_by :: "bool \<Rightarrow> bytes \<Rightarrow> bool" where
  "closed_by obj rest \<longleftrightarrow> rest \<noteq> [] \<and> hd rest = closing obj"

function (sequential) resolve_mcp :: "json_lib \<Rightarrow> json \<Rightarrow> bytes \<Rightarrow> graph_error + bytes"
  and resolve_items :: "json_lib \<Rightarrow> json \<Rightarrow> bool \<Rightarrow> bytes \<Rightarrow> bytes \<Rightarrow> bytes \<Rightarrow> graph_error + bytes" where
  "resolve_mcp lib outputs source =
     bindE (parseG lib source) (\<lambda>v.
       if is_object v \<and> has_member v ''$ref'' then
         bindE (referenced (at_key v ''$ref'') outputs) (\<lambda>actual.
         bindE (exact_value actual) (\<lambda>_. dumpG lib actual))
       else if \<not> is_object v \<and> \<not> is_array v then Inr source
       else bindE (after_byte (skip_space source)) (\<lambda>(open_text, rest).
         resolve_items lib outputs (is_object v) (leading_spaces source @ open_text) rest []))"
| "resolve_items lib outputs obj kept rest result =
     (if rest = [] then Inl Past_end
      else if closed_by obj rest then append_resolved result (kept @ rest)
      else
        bindE (item_key obj rest) (\<lambda>(key, rest1).
        bindE (append_resolved result (kept @ key)) (\<lambda>result1.
        bindE (resolve_mcp lib outputs (take (value_end 0 False False rest1) rest1)) (\<lambda>text.
        bindE (append_resolved result1 text) (\<lambda>result2.
        let rest2 = drop (value_end 0 False False rest1) rest1 in
        if closed_by obj (skip_space rest2) then append_resolved result2 rest2
        else bindE (after_byte (skip_space rest2)) (\<lambda>(comma, rest3).
          resolve_items lib outputs obj (leading_spaces rest2 @ comma) rest3 result2))))))"
  by pat_completeness auto

termination
  by (relation "measure (case_sum (\<lambda>(lib, outputs, source). 2 * length source + 1)
      (\<lambda>(lib, outputs, obj, kept, rest, result). 2 * length rest + 2))")
    (auto dest!: after_byte_shorter item_key_le)

declare resolve_mcp.simps [simp del] resolve_items.simps [simp del]

section \<open>Nodes\<close>

datatype node_kind = Agent_node | Tool_node | Human_node | Graph_node

record mcp_binding =
  server_id :: bytes
  config_revision :: int

record graph_invocation =
  graph_id :: bytes
  graph_revision :: int
  specification_json :: bytes

record graph_node =
  node_id :: bytes
  node_kind :: node_kind
  node_deps :: "bytes list"
  node_prompt :: bytes
  node_model_id :: bytes
  node_instructions :: bytes
  node_tool :: bytes
  arguments_json :: bytes
  node_agent_id :: bytes
  node_tools :: "bytes list option"
  node_permissions :: "permission_rule list"
  node_agent_revision :: int
  condition_json :: bytes
  node_mcp :: "mcp_binding option"
  node_graph :: "graph_invocation option"

definition blank_node :: "bytes \<Rightarrow> node_kind \<Rightarrow> graph_node" where
  "blank_node i k = \<lparr>node_id = i, node_kind = k, node_deps = [], node_prompt = [],
     node_model_id = [], node_instructions = [], node_tool = [], arguments_json = [],
     node_agent_id = [], node_tools = None, node_permissions = [], node_agent_revision = 0,
     condition_json = [], node_mcp = None, node_graph = None\<rparr>"

record parse_budget =
  total_nodes :: nat
  pinned :: "graph_invocation list"

definition revision_ok :: "json \<Rightarrow> bytes \<Rightarrow> bool" where
  "revision_ok v k \<longleftrightarrow> is_integer (at_key v k) \<and> 1 \<le> int_value (at_key v k) \<and>
     int_value (at_key v k) \<le> 9007199254740991"

definition policy :: "policy_error + unit \<Rightarrow> graph_error + unit" where
  "policy = map_error Bad_policy"

text \<open>The optional tool allowlist and permission rules of an agent node, and its pinned definition.\<close>

definition agent_tools :: "json \<Rightarrow> graph_error + bytes list option" where
  "agent_tools v =
     (if \<not> has_member v ''tools'' then Inr None
      else bindE (need (is_array (at_key v ''tools'')) ''Graph agent tool bindings must be an array'') (\<lambda>_.
        bindE (need (list_all is_string (elements (at_key v ''tools'')))
          ''Graph agent tool bindings must contain names'') (\<lambda>_.
        let names = map str_of (elements (at_key v ''tools'')) in
        bindE (policy (validate_agent_tool_allowlist (Some names))) (\<lambda>_. Inr (Some names)))))"

definition rule_shape :: "json \<Rightarrow> bool" where
  "rule_shape r \<longleftrightarrow> is_object r \<and> length (members r) = 3 \<and> is_string (at_key r ''action'') \<and>
     is_string (at_key r ''resource'') \<and> is_string (at_key r ''effect'')"

definition rule_of :: "json \<Rightarrow> permission_rule" where
  "rule_of r = \<lparr>action = str_of (at_key r ''action''), resource = str_of (at_key r ''resource''),
     effect = str_of (at_key r ''effect'')\<rparr>"

definition agent_rules :: "json \<Rightarrow> graph_error + permission_rule list" where
  "agent_rules v =
     (if \<not> has_member v ''permissions'' then Inr []
      else bindE (need (is_array (at_key v ''permissions''))
          ''Graph agent permission rules must be an array'') (\<lambda>_.
        bindE (need (list_all rule_shape (elements (at_key v ''permissions'')))
          ''Malformed graph agent permission rule'') (\<lambda>_.
        let rules = map rule_of (elements (at_key v ''permissions'')) in
        bindE (policy (validate_agent_permission_rules rules)) (\<lambda>_. Inr rules))))"

definition agent_identity :: "json \<Rightarrow> graph_node \<Rightarrow> graph_error + graph_node" where
  "agent_identity v node =
     (if has_member v ''agent_id'' then
        bindE (text_field v ''agent_id'' 64) (\<lambda>i.
        bindE (need (graph_identifier i \<and> revision_ok v ''agent_revision'' \<and> node_instructions node \<noteq> [])
          ''Named graph agent requires a pinned definition revision and instruction snapshot'') (\<lambda>_.
        Inr (node\<lparr>node_agent_id := i,
          node_agent_revision := int_value (at_key v ''agent_revision'')\<rparr>)))
      else bindE (need (\<not> has_member v ''agent_revision'')
        ''Graph agent revision requires a named definition'') (\<lambda>_. Inr node))"

definition agent_node :: "json \<Rightarrow> graph_node \<Rightarrow> graph_error + graph_node" where
  "agent_node v node =
     bindE (only_fields v [''id'', ''type'', ''depends_on'', ''prompt'', ''model_id'', ''instructions'',
       ''agent_id'', ''agent_revision'', ''tools'', ''permissions'', ''when'']) (\<lambda>_.
     bindE (text_field v ''prompt'' 32768) (\<lambda>p.
     bindE (optional_field v ''model_id'' 256) (\<lambda>m.
     bindE (optional_field v ''instructions'' 32768) (\<lambda>ins.
     bindE (agent_tools v) (\<lambda>ts.
     bindE (agent_rules v) (\<lambda>rules.
     agent_identity v (node\<lparr>node_prompt := p, node_model_id := m, node_instructions := ins,
       node_tools := ts, node_permissions := rules\<rparr>)))))))"

definition mcp_tool_node :: "json_lib \<Rightarrow> json \<Rightarrow> graph_node \<Rightarrow> graph_error + graph_node" where
  "mcp_tool_node lib v node =
     bindE (only_fields v [''id'', ''type'', ''depends_on'', ''tool'', ''arguments_json'', ''mcp'', ''when''])
       (\<lambda>_.
     bindE (text_field v ''arguments_json'' 65536) (\<lambda>args.
     bindE (parse_object lib args 65536) (\<lambda>_.
     bindE (need (has_member v ''mcp'') ''MCP graph tool requires a pinned server binding'') (\<lambda>_.
     let b = at_key v ''mcp'' in
     bindE (only_fields b [''server_id'', ''config_revision'']) (\<lambda>_.
     bindE (text_field b ''server_id'' 64) (\<lambda>server.
     bindE (need (graph_identifier server \<and> revision_ok b ''config_revision'')
       ''Invalid MCP graph server binding'') (\<lambda>_.
     Inr (node\<lparr>arguments_json := args, node_mcp :=
       Some \<lparr>server_id = server, config_revision = int_value (at_key b ''config_revision'')\<rparr>\<rparr>))))))))"

definition plain_tool_node :: "json_lib \<Rightarrow> json \<Rightarrow> graph_node \<Rightarrow> graph_error + graph_node" where
  "plain_tool_node lib v node =
     bindE (only_fields v [''id'', ''type'', ''depends_on'', ''tool'', ''arguments'', ''when'']) (\<lambda>_.
     bindE (need (\<not> starts_with (node_tool node) ''mcp_'') ''Invalid MCP graph tool alias'') (\<lambda>_.
     bindE (need (is_object (at_key v ''arguments'')) ''Graph tool arguments must be an object'') (\<lambda>_.
     bindE (dumpG lib (at_key v ''arguments'')) (\<lambda>args.
     bindE (need (length args \<le> 65536) ''Graph tool arguments exceed limits'') (\<lambda>_.
     Inr (node\<lparr>arguments_json := args\<rparr>))))))"

definition tool_node :: "json_lib \<Rightarrow> json \<Rightarrow> graph_node \<Rightarrow> graph_error + graph_node" where
  "tool_node lib v node =
     bindE (text_field v ''tool'' 128) (\<lambda>t.
       if mcp_alias t then mcp_tool_node lib v (node\<lparr>node_tool := t\<rparr>)
       else plain_tool_node lib v (node\<lparr>node_tool := t\<rparr>))"

definition human_node :: "json \<Rightarrow> graph_node \<Rightarrow> graph_error + graph_node" where
  "human_node v node =
     bindE (only_fields v [''id'', ''type'', ''depends_on'', ''prompt'', ''when'']) (\<lambda>_.
     bindE (text_field v ''prompt'' 32768) (\<lambda>p. Inr (node\<lparr>node_prompt := p\<rparr>)))"

text \<open>
  A nested graph pins the identity, revision and text of its snapshot; one identity and revision
  has one text in the whole nest. \<open>nested\<close> is the constructor of the level below.
\<close>

definition pin :: "graph_invocation \<Rightarrow> parse_budget \<Rightarrow> graph_error + parse_budget" where
  "pin g budget =
     (case find (\<lambda>b. graph_id b = graph_id g \<and> graph_revision b = graph_revision g) (pinned budget) of
        Some b \<Rightarrow> bindE (need (specification_json b = specification_json g)
            ''Nested graph identity/revision has conflicting snapshots'') (\<lambda>_. Inr budget)
      | None \<Rightarrow> Inr (budget\<lparr>pinned := pinned budget @ [g]\<rparr>))"

definition nested_node ::
    "json_lib \<Rightarrow> (bytes \<Rightarrow> parse_budget \<Rightarrow> graph_error + bytes \<times> parse_budget) \<Rightarrow> json \<Rightarrow>
     graph_node \<Rightarrow> parse_budget \<Rightarrow> graph_error + graph_node \<times> parse_budget" where
  "nested_node lib nested v node budget =
     bindE (only_fields v [''id'', ''type'', ''depends_on'', ''prompt'', ''graph_id'', ''graph_revision'',
       ''graph_spec'', ''when'']) (\<lambda>_.
     bindE (text_field v ''prompt'' 32768) (\<lambda>p.
     bindE (text_field v ''graph_id'' 64) (\<lambda>g.
     bindE (need (graph_identifier g \<and> revision_ok v ''graph_revision'' \<and>
         is_object (at_key v ''graph_spec''))
       ''Nested graph requires a pinned identity, revision and specification snapshot'') (\<lambda>_.
     bindE (dumpG lib (at_key v ''graph_spec'')) (\<lambda>source.
     bindE (nested source budget) (\<lambda>(spec, budget1).
     let binding = \<lparr>graph_id = g, graph_revision = int_value (at_key v ''graph_revision''),
       specification_json = spec\<rparr> in
     bindE (pin binding budget1) (\<lambda>budget2.
     Inr (node\<lparr>node_prompt := p, node_graph := Some binding\<rparr>, budget2))))))))"

text \<open>Dependencies name other nodes once; the set of the names seen so far is the list itself.\<close>

definition add_dependency :: "bytes \<Rightarrow> bytes list \<Rightarrow> json \<Rightarrow> graph_error + bytes list" where
  "add_dependency self deps d =
     bindE (need (is_string d) ''Graph dependency must be an ID'') (\<lambda>_.
     bindE (need (graph_identifier (str_of d) \<and> str_of d \<noteq> self \<and> str_of d \<notin> set deps)
       ''Invalid graph dependency'') (\<lambda>_. Inr (deps @ [str_of d])))"

definition dependencies_of :: "json \<Rightarrow> bytes \<Rightarrow> graph_error + bytes list" where
  "dependencies_of v self =
     (if \<not> has_member v ''depends_on'' then Inr []
      else let ds = at_key v ''depends_on'' in
        bindE (need (is_array ds \<and> length (elements ds) \<le> 100) ''Invalid graph dependencies'')
          (\<lambda>_. foldE (add_dependency self) [] (elements ds)))"

definition condition_of :: "json_lib \<Rightarrow> json \<Rightarrow> bytes list \<Rightarrow> graph_error + bytes" where
  "condition_of lib v deps =
     (if \<not> has_member v ''when'' then Inr []
      else bindE (check_reference (at_key v ''when'') deps True) (\<lambda>_. dumpG lib (at_key v ''when'')))"

definition tool_references :: "json_lib \<Rightarrow> json \<Rightarrow> graph_node \<Rightarrow> graph_error + unit" where
  "tool_references lib v node =
     (if node_kind node \<noteq> Tool_node then Inr ()
      else bindE (if node_mcp node \<noteq> None then parse_object lib (arguments_json node) 65536
                  else Inr (at_key v ''arguments'')) (\<lambda>args.
        check_references (node_deps node) args))"

definition node_body ::
    "json_lib \<Rightarrow> (bytes \<Rightarrow> parse_budget \<Rightarrow> graph_error + bytes \<times> parse_budget) \<Rightarrow> json \<Rightarrow>
     bytes \<Rightarrow> bytes \<Rightarrow> parse_budget \<Rightarrow> graph_error + graph_node \<times> parse_budget" where
  "node_body lib nested v type i budget =
     (let plain = (\<lambda>r. bindE r (\<lambda>node. Inr (node, budget))) in
      if type = ''agent'' then plain (agent_node v (blank_node i Agent_node))
      else if type = ''tool'' then plain (tool_node lib v (blank_node i Tool_node))
      else if type = ''graph'' then nested_node lib nested v (blank_node i Graph_node) budget
      else if type = ''human'' then plain (human_node v (blank_node i Human_node))
      else invalid ''Unsupported graph node type'')"

definition parse_node ::
    "json_lib \<Rightarrow> (bytes \<Rightarrow> parse_budget \<Rightarrow> graph_error + bytes \<times> parse_budget) \<Rightarrow>
     graph_node list \<times> parse_budget \<Rightarrow> json \<Rightarrow> graph_error + graph_node list \<times> parse_budget" where
  "parse_node lib nested acc v =
     (case acc of (nodes, budget) \<Rightarrow>
       bindE (text_field v ''type'' 16) (\<lambda>type.
       bindE (text_field v ''id'' 64) (\<lambda>i.
       bindE (need (graph_identifier i \<and> i \<notin> node_id ` set nodes)
         ''Invalid or duplicate graph node ID'') (\<lambda>_.
       bindE (node_body lib nested v type i budget) (\<lambda>(node, budget1).
       bindE (dependencies_of v i) (\<lambda>deps.
       bindE (condition_of lib v deps) (\<lambda>condition.
       let node1 = node\<lparr>node_deps := deps, condition_json := condition\<rparr> in
       bindE (tool_references lib v node1) (\<lambda>_. Inr (nodes @ [node1], budget1)))))))))"

section \<open>Plans\<close>

text \<open>
  The topological order: passes over the nodes in their written order, each appending the nodes
  whose dependencies are all visited; a pass without progress is a cycle.
\<close>

definition visit :: "graph_node list \<Rightarrow> nat \<Rightarrow> bytes set \<times> nat list \<Rightarrow> bytes set \<times> nat list" where
  "visit nodes i st = (case st of (visited, order) \<Rightarrow>
     if node_id (nodes ! i) \<in> visited then st
     else if list_all (\<lambda>d. d \<in> visited) (node_deps (nodes ! i))
     then (insert (node_id (nodes ! i)) visited, order @ [i]) else st)"

definition pass :: "graph_node list \<Rightarrow> bytes set \<times> nat list \<Rightarrow> bytes set \<times> nat list" where
  "pass nodes st = fold (visit nodes) [0..<length nodes] st"

lemma visit_extends: "\<exists>extra. snd (visit nodes i st) = snd st @ extra"
  by (auto simp: visit_def split: prod.splits)

lemma fold_visit_extends: "\<exists>extra. snd (fold (visit nodes) is st) = snd st @ extra"
proof (induction "is" arbitrary: st)
  case (Cons i "is")
  then show ?case using visit_extends [of nodes i st] by (metis append.assoc fold_simps(2))
qed simp

lemma pass_grows:
  assumes "snd (pass nodes st) \<noteq> snd st"
  shows "length (snd st) < length (snd (pass nodes st))"
  using assms fold_visit_extends [of nodes "[0..<length nodes]" st] by (auto simp: pass_def)

function topological :: "graph_node list \<Rightarrow> bytes set \<times> nat list \<Rightarrow> graph_error + nat list" where
  "topological nodes st =
     (if length (snd st) < length nodes then
        (if snd (pass nodes st) = snd st
         then invalid ''Graph cycles require a future bounded-loop execution contract''
         else topological nodes (pass nodes st))
      else Inr (snd st))"
  by pat_completeness auto

termination
  by (relation "measure (\<lambda>(nodes, st). length nodes - length (snd st))")
    (auto dest!: pass_grows)

declare topological.simps [simp del]

record graph_plan =
  plan_nodes :: "graph_node list"
  plan_order :: "nat list"
  plan_json :: bytes

definition spec_nodes :: "json_lib \<Rightarrow> bytes \<Rightarrow> graph_error + json \<times> json list" where
  "spec_nodes lib source =
     bindE (parse_object lib source 262144) (\<lambda>spec.
     bindE (only_fields spec [''nodes'']) (\<lambda>_.
     let ns = at_key spec ''nodes'' in
     bindE (need (is_array ns \<and> elements ns \<noteq> [] \<and> length (elements ns) \<le> 100)
       ''A graph requires 1-100 nodes'') (\<lambda>_. Inr (spec, elements ns))))"

text \<open>
  The constructor at nesting level \<open>depth\<close>, by the number \<open>4 - depth\<close> of levels left; the
  shared budget is threaded through.
\<close>

fun plan_at :: "json_lib \<Rightarrow> nat \<Rightarrow> bytes \<Rightarrow> parse_budget \<Rightarrow> graph_error + graph_plan \<times> parse_budget" where
  "plan_at lib 0 source budget = invalid ''Nested graph snapshot depth exceeds three invocation levels''"
| "plan_at lib (Suc levels) source budget =
     bindE (spec_nodes lib source) (\<lambda>(spec, items).
     bindE (need (length items \<le> 256 - total_nodes budget)
       ''Nested graph snapshot exceeds 256 total nodes'') (\<lambda>_.
     bindE (foldE (parse_node lib
         (\<lambda>source b. bindE (plan_at lib levels source b) (\<lambda>(p, b'). Inr (plan_json p, b'))))
       ([], budget\<lparr>total_nodes := total_nodes budget + length items\<rparr>) items) (\<lambda>(nodes, budget1).
     bindE (need (list_all (\<lambda>n. list_all (\<lambda>d. d \<in> node_id ` set nodes) (node_deps n)) nodes)
       ''Unknown graph dependency'') (\<lambda>_.
     bindE (topological nodes ({}, [])) (\<lambda>order.
     bindE (dumpG lib spec) (\<lambda>text.
     Inr (\<lparr>plan_nodes = nodes, plan_order = order, plan_json = text\<rparr>, budget1)))))))"

definition graph_plan_new :: "json_lib \<Rightarrow> bytes \<Rightarrow> graph_error + graph_plan" where
  "graph_plan_new lib source =
     bindE (plan_at lib 4 source \<lparr>total_nodes = 0, pinned = []\<rparr>) (\<lambda>(p, b). Inr p)"

text \<open>The logical paths of the agents of a plan, through its nested snapshots.\<close>

fun agent_paths :: "json_lib \<Rightarrow> nat \<Rightarrow> graph_plan \<Rightarrow> bytes \<Rightarrow> graph_error + (bytes \<times> bytes) list" where
  "agent_paths lib 0 current pre = invalid ''Graph agent path exceeds invocation limits''"
| "agent_paths lib (Suc levels) current pre =
     foldE (\<lambda>result node.
       let path = (if pre = [] then node_id node else pre @ ''/'' @ node_id node) in
       case node_kind node of
         Agent_node \<Rightarrow> Inr (result @ [(path, node_model_id node)])
       | Graph_node \<Rightarrow> (case node_graph node of None \<Rightarrow> Inl Past_end
           | Some g \<Rightarrow> bindE (graph_plan_new lib (specification_json g)) (\<lambda>nested.
               bindE (agent_paths lib levels nested path) (\<lambda>inner. Inr (result @ inner))))
       | _ \<Rightarrow> Inr result) [] (plan_nodes current)"

definition graph_agent_paths :: "json_lib \<Rightarrow> graph_plan \<Rightarrow> graph_error + (bytes \<times> bytes) list" where
  "graph_agent_paths lib plan = agent_paths lib 4 plan []"

section \<open>The order of a plan\<close>

definition node_ids :: "graph_node list \<Rightarrow> bytes list" where
  "node_ids nodes = map node_id nodes"

definition known_dependencies :: "graph_node list \<Rightarrow> bool" where
  "known_dependencies nodes \<longleftrightarrow> (\<forall>n \<in> set nodes. set (node_deps n) \<subseteq> set (node_ids nodes))"

text \<open>Node \<open>i\<close> must come before node \<open>j\<close>.\<close>

definition precedes :: "graph_node list \<Rightarrow> (nat \<times> nat) set" where
  "precedes nodes = {(i, j). i < length nodes \<and> j < length nodes \<and>
     node_id (nodes ! i) \<in> set (node_deps (nodes ! j))}"

definition after_dependencies :: "graph_node list \<Rightarrow> nat list \<Rightarrow> bool" where
  "after_dependencies nodes order \<longleftrightarrow>
     (\<forall>k < length order. \<forall>d \<in> set (node_deps (nodes ! (order ! k))).
        \<exists>j < k. node_id (nodes ! (order ! j)) = d)"

definition visit_inv :: "graph_node list \<Rightarrow> bytes set \<times> nat list \<Rightarrow> bool" where
  "visit_inv nodes st \<longleftrightarrow> distinct (snd st) \<and> set (snd st) \<subseteq> {..<length nodes} \<and>
     fst st = (\<lambda>i. node_id (nodes ! i)) ` set (snd st) \<and> after_dependencies nodes (snd st)"

lemma after_dependencies_snoc:
  assumes "after_dependencies nodes order"
    and "\<forall>d \<in> set (node_deps (nodes ! i)). d \<in> (\<lambda>i. node_id (nodes ! i)) ` set order"
  shows "after_dependencies nodes (order @ [i])"
  unfolding after_dependencies_def
proof (intro allI impI ballI)
  fix k d assume k: "k < length (order @ [i])" and d: "d \<in> set (node_deps (nodes ! ((order @ [i]) ! k)))"
  show "\<exists>j < k. node_id (nodes ! ((order @ [i]) ! j)) = d"
  proof (cases "k < length order")
    case True
    then obtain j where "j < k" "node_id (nodes ! (order ! j)) = d"
      using assms(1) d by (auto simp: after_dependencies_def nth_append)
    then show ?thesis using True by (intro exI [of _ j]) (simp add: nth_append)
  next
    case False
    then have last: "k = length order" using k by simp
    then have "d \<in> (\<lambda>i. node_id (nodes ! i)) ` set order" using d assms(2) by simp
    then obtain i' where "i' \<in> set order" "node_id (nodes ! i') = d" by auto
    then obtain j where "j < length order" "node_id (nodes ! (order ! j)) = d"
      unfolding in_set_conv_nth by blast
    then show ?thesis using last by (intro exI [of _ j]) (simp add: nth_append)
  qed
qed

lemma visit_keeps: "visit_inv nodes st \<Longrightarrow> i < length nodes \<Longrightarrow> visit_inv nodes (visit nodes i st)"
  by (auto simp: visit_inv_def visit_def list_all_iff split: prod.splits intro!: after_dependencies_snoc)

lemma fold_visit_keeps:
  "visit_inv nodes st \<Longrightarrow> set is \<subseteq> {..<length nodes} \<Longrightarrow> visit_inv nodes (fold (visit nodes) is st)"
  by (induction "is" arbitrary: st) (simp_all add: visit_keeps)

lemma pass_keeps: "visit_inv nodes st \<Longrightarrow> visit_inv nodes (pass nodes st)"
  unfolding pass_def by (rule fold_visit_keeps) auto

lemma topological_stop: "\<not> length (snd st) < length nodes \<Longrightarrow> topological nodes st = Inr (snd st)"
  by (subst topological.simps) simp

lemma topological_pass:
  "length (snd st) < length nodes \<Longrightarrow> snd (pass nodes st) \<noteq> snd st \<Longrightarrow>
     topological nodes st = topological nodes (pass nodes st)"
  by (subst topological.simps) simp

lemma topological_cycle:
  "length (snd st) < length nodes \<Longrightarrow> snd (pass nodes st) = snd st \<Longrightarrow>
     topological nodes st = invalid ''Graph cycles require a future bounded-loop execution contract''"
  by (subst topological.simps) simp

text \<open>Induction over the passes.\<close>

lemma passes_induct:
  assumes "\<And>st. (length (snd st) < length nodes \<Longrightarrow> snd (pass nodes st) \<noteq> snd st \<Longrightarrow> P (pass nodes st)) \<Longrightarrow> P st"
  shows "P st"
proof (induction "length nodes - length (snd st)" arbitrary: st rule: less_induct)
  case less
  show ?case
  proof (rule assms)
    assume "length (snd st) < length nodes" "snd (pass nodes st) \<noteq> snd st"
    then show "P (pass nodes st)" using less pass_grows [of nodes st] by simp
  qed
qed

lemma topological_inv:
  "visit_inv nodes st \<Longrightarrow> topological nodes st = Inr order \<Longrightarrow>
     (\<exists>visited. visit_inv nodes (visited, order)) \<and> length nodes \<le> length order"
proof (induction st rule: passes_induct [of nodes])
  case (1 st)
  show ?case
  proof (cases "length (snd st) < length nodes")
    case False
    then have "order = snd st" using 1(3) by (simp add: topological_stop)
    then show ?thesis using False 1(2) by (metis leI prod.collapse)
  next
    case True
    then have grows: "snd (pass nodes st) \<noteq> snd st"
      using 1(3) by (auto simp: topological_cycle invalid_def)
    show ?thesis
      using 1(1) [OF True grows pass_keeps [OF 1(2)]] 1(3) topological_pass [OF True grows] by simp
  qed
qed

lemma visit_inv_start: "visit_inv nodes ({}, [])"
  by (simp add: visit_inv_def after_dependencies_def)

lemma topological_sound:
  assumes "topological nodes ({}, []) = Inr order"
  shows "distinct order" and "set order = {..<length nodes}" and "after_dependencies nodes order"
proof -
  from topological_inv [OF visit_inv_start assms]
  have inv: "distinct order" "set order \<subseteq> {..<length nodes}" "after_dependencies nodes order"
    and len: "length nodes \<le> length order" by (auto simp: visit_inv_def)
  show "distinct order" "after_dependencies nodes order" by fact+
  have "card (set order) \<ge> card {..<length nodes}" using inv(1) len by (simp add: distinct_card)
  then show "set order = {..<length nodes}" using card_seteq [of "{..<length nodes}"] inv(2) by simp
qed

lemma sound_order_acyclic:
  assumes "distinct order" and "set order = {..<length nodes}" and "after_dependencies nodes order"
    and ids: "distinct (node_ids nodes)"
  shows "acyclic (precedes nodes)"
proof -
  define rank where "rank i = (LEAST k. k < length order \<and> order ! k = i)" for i
  have rank: "rank (order ! k) = k" if "k < length order" for k
    unfolding rank_def using that assms(1) by (intro Least_equality) (auto simp: nth_eq_iff_index_eq)
  have "precedes nodes \<subseteq> measure rank"
  proof clarify
    fix i j assume "(i, j) \<in> precedes nodes"
    then have ij: "i < length nodes" "j < length nodes" "node_id (nodes ! i) \<in> set (node_deps (nodes ! j))"
      by (auto simp: precedes_def)
    then obtain k where k: "k < length order" "order ! k = j"
      using assms(2) by (metis in_set_conv_nth lessThan_iff)
    obtain l where l: "l < k" "node_id (nodes ! (order ! l)) = node_id (nodes ! i)"
      using assms(3) ij(3) k by (auto simp: after_dependencies_def)
    have "order ! l \<in> set order" using k(1) l(1) by simp
    then have "order ! l < length nodes" using assms(2) by simp
    then have "order ! l = i" using ids l(2) ij(1) by (auto simp: node_ids_def distinct_conv_nth)
    then show "(i, j) \<in> measure rank" using rank [of l] rank [of k] k l(1) by auto
  qed
  then show ?thesis using acyclic_subset wf_acyclic wf_measure by blast
qed

lemma visit_cases: "visit nodes i st = st \<or> snd (visit nodes i st) = snd st @ [i]"
  by (auto simp: visit_def split: prod.splits)

lemma fold_visit_stuck:
  assumes "snd (fold (visit nodes) is st) = snd st" and "i \<in> set is"
  shows "visit nodes i st = st"
  using assms
proof (induction "is" arbitrary: st)
  case (Cons j js)
  obtain extra where e: "snd (fold (visit nodes) js (visit nodes j st)) = snd (visit nodes j st) @ extra"
    using fold_visit_extends by blast
  have "visit nodes j st = st"
    using visit_cases [of nodes j st] Cons.prems(1) e by auto
  then show ?case using Cons.IH [of st] Cons.prems by (cases "i = j") simp_all
qed simp

lemma stuck_cycle:
  assumes ids: "distinct (node_ids nodes)" and known: "known_dependencies nodes"
    and inv: "visit_inv nodes st" and short: "length (snd st) < length nodes"
    and stuck: "snd (pass nodes st) = snd st"
  shows "\<not> acyclic (precedes nodes)"
proof
  assume "acyclic (precedes nodes)"
  moreover have "finite (precedes nodes)"
    by (rule finite_subset [of _ "{..<length nodes} \<times> {..<length nodes}"]) (auto simp: precedes_def)
  ultimately have wf: "wf (precedes nodes)" by (simp add: finite_acyclic_wf)
  have inside: "set (snd st) \<subseteq> {..<length nodes}" and vis: "fst st = (\<lambda>i. node_id (nodes ! i)) ` set (snd st)"
    using inv by (auto simp: visit_inv_def)
  have "\<exists>i. i < length nodes \<and> i \<notin> set (snd st)"
  proof (rule ccontr)
    assume "\<not> ?thesis"
    then have "{..<length nodes} \<subseteq> set (snd st)" by auto
    then have "length nodes \<le> length (snd st)"
      using card_length [of "snd st"] card_mono [of "set (snd st)" "{..<length nodes}"] by simp
    then show False using short by simp
  qed
  then obtain i where i: "i < length nodes" "i \<notin> set (snd st)"
    and least: "\<And>j. (j, i) \<in> precedes nodes \<Longrightarrow> \<not> (j < length nodes \<and> j \<notin> set (snd st))"
    using wfE_min' [OF wf, of "{i. i < length nodes \<and> i \<notin> set (snd st)}"] by auto
  have unvisited: "node_id (nodes ! i) \<notin> fst st"
    using ids i inside by (auto simp: vis node_ids_def distinct_conv_nth subset_iff)
  have "visit nodes i st = st"
    using fold_visit_stuck [of nodes "[0..<length nodes]" st i] stuck i by (simp add: pass_def)
  then obtain d where d: "d \<in> set (node_deps (nodes ! i))" "d \<notin> fst st"
    using unvisited by (auto simp: visit_def list_all_iff split: prod.splits if_splits)
  then have "d \<in> set (node_ids nodes)" using known i by (auto simp: known_dependencies_def)
  then obtain j where j: "j < length nodes" "node_id (nodes ! j) = d"
    by (auto simp: node_ids_def in_set_conv_nth)
  then have "(j, i) \<in> precedes nodes" using d i by (auto simp: precedes_def)
  then have "j \<in> set (snd st)" using least j by auto
  then show False using d j vis by auto
qed

lemma topological_complete:
  assumes ids: "distinct (node_ids nodes)" and known: "known_dependencies nodes"
    and acyclic: "acyclic (precedes nodes)"
  shows "visit_inv nodes st \<Longrightarrow> \<exists>order. topological nodes st = Inr order"
proof (induction st rule: passes_induct [of nodes])
  case (1 st)
  show ?case
  proof (cases "length (snd st) < length nodes")
    case True
    then have grows: "snd (pass nodes st) \<noteq> snd st"
      using stuck_cycle [OF ids known 1(2)] acyclic by blast
    show ?thesis
      using 1(1) [OF True grows pass_keeps [OF 1(2)]] topological_pass [OF True grows] by simp
  qed (simp add: topological_stop)
qed

section \<open>What the parser establishes\<close>

definition pin_key :: "graph_invocation \<Rightarrow> bytes \<times> int" where
  "pin_key g = (graph_id g, graph_revision g)"

definition budget_ok :: "parse_budget \<Rightarrow> bool" where
  "budget_ok b \<longleftrightarrow> total_nodes b \<le> 256 \<and> distinct (map pin_key (pinned b))"

definition budget_grows :: "parse_budget \<Rightarrow> parse_budget \<Rightarrow> bool" where
  "budget_grows b b' \<longleftrightarrow> budget_ok b' \<and> total_nodes b \<le> total_nodes b' \<and> set (pinned b) \<subseteq> set (pinned b')"

definition node_ok :: "parse_budget \<Rightarrow> graph_node \<Rightarrow> bool" where
  "node_ok b n \<longleftrightarrow> graph_identifier (node_id n) \<and> distinct (node_deps n) \<and>
     node_id n \<notin> set (node_deps n) \<and>
     (case node_graph n of None \<Rightarrow> node_kind n \<noteq> Graph_node
      | Some g \<Rightarrow> node_kind n = Graph_node \<and> g \<in> set (pinned b))"

definition nodes_ok :: "parse_budget \<Rightarrow> graph_node list \<Rightarrow> bool" where
  "nodes_ok b nodes \<longleftrightarrow> distinct (node_ids nodes) \<and> (\<forall>n \<in> set nodes. node_ok b n)"

lemma need_Inr [simp]: "need b m = Inr u \<longleftrightarrow> b"
  by (simp add: need_def)

lemma invalid_simps [simp]: "invalid m = Inr x \<longleftrightarrow> False" "invalid m = Inl e \<longleftrightarrow> e = Invalid m"
  by (auto simp: invalid_def)

lemma budget_grows_refl: "budget_ok b \<Longrightarrow> budget_grows b b"
  by (simp add: budget_grows_def)

lemma budget_grows_trans: "budget_grows a b \<Longrightarrow> budget_grows b c \<Longrightarrow> budget_grows a c"
  by (auto simp: budget_grows_def)

lemma node_ok_grows: "node_ok b n \<Longrightarrow> budget_grows b b' \<Longrightarrow> node_ok b' n"
  by (auto simp: node_ok_def budget_grows_def split: option.splits)

lemma pin_grows:
  assumes "pin g b = Inr b'" and "budget_ok b"
  shows "budget_grows b b'" and "g \<in> set (pinned b')"
proof -
  let ?p = "\<lambda>b. graph_id b = graph_id g \<and> graph_revision b = graph_revision g"
  have "budget_grows b b' \<and> g \<in> set (pinned b')"
  proof (cases "find ?p (pinned b)")
    case None
    then have fresh: "pin_key g \<notin> pin_key ` set (pinned b)"
      unfolding find_None_iff pin_key_def by (auto simp: image_iff)
    have b': "b' = b\<lparr>pinned := pinned b @ [g]\<rparr>" using assms(1) None by (simp add: pin_def)
    show ?thesis using assms(2) fresh by (simp add: b' budget_grows_def budget_ok_def) blast
  next
    case (Some h)
    then have h: "h \<in> set (pinned b)" "?p h" by (auto simp: find_Some_iff)
    have "specification_json h = specification_json g" and b': "b' = b"
      using assms(1) Some by (auto simp: pin_def need_def split: if_splits)
    then have "h = g" using h(2) by simp
    then show ?thesis using h(1) assms(2) by (simp add: b' budget_grows_refl)
  qed
  then show "budget_grows b b'" "g \<in> set (pinned b')" by auto
qed

text \<open>What a constructor of the level below keeps.\<close>

definition nested_keeps :: "(bytes \<Rightarrow> parse_budget \<Rightarrow> graph_error + bytes \<times> parse_budget) \<Rightarrow> bool" where
  "nested_keeps nested \<longleftrightarrow> (\<forall>source b spec b'. nested source b = Inr (spec, b') \<longrightarrow> budget_ok b \<longrightarrow>
     budget_grows b b')"

definition fresh_body :: "bytes \<Rightarrow> node_kind \<Rightarrow> graph_node \<Rightarrow> bool" where
  "fresh_body i k n \<longleftrightarrow> node_id n = i \<and> node_kind n = k \<and> node_graph n = None"

lemma agent_node_body: "agent_node v (blank_node i k) = Inr n \<Longrightarrow> fresh_body i k n"
  by (auto simp: agent_node_def agent_identity_def blank_node_def fresh_body_def result_simps
      split: if_splits)

lemma tool_node_body: "tool_node lib v (blank_node i k) = Inr n \<Longrightarrow> fresh_body i k n"
  by (auto simp: tool_node_def mcp_tool_node_def plain_tool_node_def Let_def blank_node_def
      fresh_body_def result_simps split: if_splits)

lemma human_node_body: "human_node v (blank_node i k) = Inr n \<Longrightarrow> fresh_body i k n"
  by (auto simp: human_node_def blank_node_def fresh_body_def result_simps)

lemma nested_node_body:
  assumes "nested_node lib nested v (blank_node i Graph_node) b = Inr (n, b')"
    and "nested_keeps nested" and "budget_ok b"
  shows "budget_grows b b'" and "\<exists>g \<in> set (pinned b'). node_id n = i \<and> node_kind n = Graph_node \<and>
    node_graph n = Some g"
proof -
  obtain source spec b1 g where nested: "nested source b = Inr (spec, b1)" and pin: "pin g b1 = Inr b'"
    and n: "node_id n = i" "node_kind n = Graph_node" "node_graph n = Some g"
    using assms(1) by (auto simp: nested_node_def Let_def blank_node_def result_simps)
  have b1: "budget_grows b b1" using assms(2,3) nested by (auto simp: nested_keeps_def)
  then have "budget_ok b1" by (simp add: budget_grows_def)
  from pin_grows [OF pin this] b1 n
  show "budget_grows b b'" "\<exists>g \<in> set (pinned b'). node_id n = i \<and> node_kind n = Graph_node \<and>
    node_graph n = Some g" by (auto intro: budget_grows_trans)
qed

lemma node_body_keeps:
  assumes "node_body lib nested v type i b = Inr (n, b')" and "nested_keeps nested" and "budget_ok b"
  shows "budget_grows b b'" and "node_id n = i"
    and "case node_graph n of None \<Rightarrow> node_kind n \<noteq> Graph_node
      | Some g \<Rightarrow> node_kind n = Graph_node \<and> g \<in> set (pinned b')"
proof -
  have "(b' = b \<and> (\<exists>k. k \<noteq> Graph_node \<and> fresh_body i k n)) \<or>
      nested_node lib nested v (blank_node i Graph_node) b = Inr (n, b')"
    using assms(1)
    by (auto simp: node_body_def Let_def result_simps dest: agent_node_body tool_node_body
        human_node_body split: if_splits)
  then have "budget_grows b b' \<and> node_id n = i \<and> (case node_graph n of None \<Rightarrow> node_kind n \<noteq> Graph_node
      | Some g \<Rightarrow> node_kind n = Graph_node \<and> g \<in> set (pinned b'))"
  proof (elim disjE exE conjE)
    fix k assume "b' = b" "k \<noteq> Graph_node" "fresh_body i k n"
    then show ?thesis using assms(3) by (auto simp: fresh_body_def budget_grows_refl)
  next
    assume "nested_node lib nested v (blank_node i Graph_node) b = Inr (n, b')"
    from nested_node_body [OF this assms(2,3)] show ?thesis by auto
  qed
  then show "budget_grows b b'" "node_id n = i" "case node_graph n of None \<Rightarrow> node_kind n \<noteq> Graph_node
      | Some g \<Rightarrow> node_kind n = Graph_node \<and> g \<in> set (pinned b')" by auto
qed

lemma add_dependencies_ok:
  "foldE (add_dependency self) deps ds = Inr deps' \<Longrightarrow> distinct deps \<and> self \<notin> set deps \<Longrightarrow>
     distinct deps' \<and> self \<notin> set deps'"
  by (erule foldE_invariant [rotated 2]) (auto simp: add_dependency_def result_simps)

lemma dependencies_ok:
  "dependencies_of v self = Inr deps \<Longrightarrow> distinct deps \<and> self \<notin> set deps"
  by (auto simp: dependencies_of_def Let_def result_simps dest: add_dependencies_ok split: if_splits)

lemma parse_node_keeps:
  assumes "parse_node lib nested (nodes, b) v = Inr (nodes', b')" and "nested_keeps nested"
    and "budget_ok b" and "nodes_ok b nodes"
  shows "budget_grows b b'" and "nodes_ok b' nodes'" and "length nodes' = Suc (length nodes)"
proof -
  obtain type i n deps condition where id: "graph_identifier i" "i \<notin> node_id ` set nodes"
    and body: "node_body lib nested v type i b = Inr (n, b')" and deps: "dependencies_of v i = Inr deps"
    and nodes': "nodes' = nodes @ [n\<lparr>node_deps := deps, condition_json := condition\<rparr>]"
    using assms(1) by (auto simp: parse_node_def Let_def result_simps)
  from node_body_keeps [OF body assms(2,3)] have grows: "budget_grows b b'" and n: "node_id n = i"
    "case node_graph n of None \<Rightarrow> node_kind n \<noteq> Graph_node
      | Some g \<Rightarrow> node_kind n = Graph_node \<and> g \<in> set (pinned b')" .
  have "node_ok b' (n\<lparr>node_deps := deps, condition_json := condition\<rparr>)"
    using id n dependencies_ok [OF deps] by (simp add: node_ok_def split: option.splits)
  then show "nodes_ok b' nodes'"
    using assms(4) grows id n by (auto simp: nodes_ok_def nodes' node_ids_def intro: node_ok_grows)
  show "budget_grows b b'" "length nodes' = Suc (length nodes)" by (fact grows) (simp add: nodes')
qed

lemma parse_nodes_keep:
  "foldE (parse_node lib nested) (nodes, b) items = Inr (nodes', b') \<Longrightarrow> nested_keeps nested \<Longrightarrow>
     budget_ok b \<Longrightarrow> nodes_ok b nodes \<Longrightarrow>
     budget_grows b b' \<and> nodes_ok b' nodes' \<and> length nodes' = length nodes + length items"
proof (induction items arbitrary: nodes b)
  case (Cons v vs)
  then obtain nodes1 b1 where head: "parse_node lib nested (nodes, b) v = Inr (nodes1, b1)"
    and rest: "foldE (parse_node lib nested) (nodes1, b1) vs = Inr (nodes', b')"
    by (auto simp: result_simps)
  from parse_node_keeps [OF head Cons.prems(2-4)] have *: "budget_grows b b1" "nodes_ok b1 nodes1"
    "length nodes1 = Suc (length nodes)" .
  then show ?case using Cons.IH [OF rest Cons.prems(2)] by (auto simp: budget_grows_def)
qed (simp add: budget_grows_refl)

definition plan_ok :: "graph_plan \<Rightarrow> bool" where
  "plan_ok p \<longleftrightarrow> 1 \<le> length (plan_nodes p) \<and> length (plan_nodes p) \<le> 100 \<and>
     distinct (node_ids (plan_nodes p)) \<and> known_dependencies (plan_nodes p) \<and>
     distinct (plan_order p) \<and> set (plan_order p) = {..<length (plan_nodes p)} \<and>
     after_dependencies (plan_nodes p) (plan_order p) \<and>
     (\<forall>n \<in> set (plan_nodes p). graph_identifier (node_id n))"

lemma plan_at_keeps:
  "plan_at lib levels source b = Inr (p, b') \<Longrightarrow> budget_ok b \<Longrightarrow>
     plan_ok p \<and> budget_grows b b' \<and> nodes_ok b' (plan_nodes p) \<and>
     total_nodes b + length (plan_nodes p) \<le> total_nodes b'"
proof (induction levels arbitrary: source b p b')
  case (Suc levels)
  let ?nested = "\<lambda>source b. bindE (plan_at lib levels source b) (\<lambda>(p, b'). Inr (plan_json p, b'))"
  obtain spec items nodes order out where spec: "spec_nodes lib source = Inr (spec, items)"
    and room: "length items \<le> 256 - total_nodes b"
    and fold: "foldE (parse_node lib ?nested)
      ([], b\<lparr>total_nodes := total_nodes b + length items\<rparr>) items = Inr (nodes, b')"
    and known: "list_all (\<lambda>n. list_all (\<lambda>d. d \<in> node_id ` set nodes) (node_deps n)) nodes"
    and order: "topological nodes ({}, []) = Inr order"
    and p: "p = \<lparr>plan_nodes = nodes, plan_order = order, plan_json = out\<rparr>"
    using Suc.prems(1) by (auto simp: result_simps)
  have some: "1 \<le> length items" "length items \<le> 100"
    using spec by (auto simp: spec_nodes_def Let_def result_simps Suc_le_eq)
  have nested: "nested_keeps ?nested" using Suc.IH by (auto simp: nested_keeps_def result_simps)
  have "budget_ok (b\<lparr>total_nodes := total_nodes b + length items\<rparr>)"
    using Suc.prems(2) room by (auto simp: budget_ok_def)
  from parse_nodes_keep [OF fold nested this]
  have keep: "budget_grows (b\<lparr>total_nodes := total_nodes b + length items\<rparr>) b'" "nodes_ok b' nodes"
    "length nodes = length items" by (auto simp: nodes_ok_def node_ids_def)
  have "plan_ok p"
    using topological_sound [OF order] some keep known
    by (auto simp: p plan_ok_def nodes_ok_def node_ok_def known_dependencies_def node_ids_def list_all_iff)
  then show ?case using keep by (auto simp: p budget_grows_def)
qed simp

section \<open>What reference resolution changes\<close>

text \<open>
  The specification of \<open>resolve_mcp\<close>: stretches of the text are kept, or are a reference
  object that is replaced by the exact text of the dependency's value.
\<close>

inductive substituted :: "json_lib \<Rightarrow> json \<Rightarrow> bytes \<Rightarrow> bytes \<Rightarrow> bool" for lib outputs where
  keep: "substituted lib outputs s s"
| replace: "json_text lib s = Some v \<Longrightarrow> has_member v ''$ref'' \<Longrightarrow>
     referenced (at_key v ''$ref'') outputs = Inr actual \<Longrightarrow> exact_value actual = Inr () \<Longrightarrow>
     dump lib actual = Some t \<Longrightarrow> substituted lib outputs s t"
| join: "substituted lib outputs a a' \<Longrightarrow> substituted lib outputs b b' \<Longrightarrow>
     substituted lib outputs (a @ b) (a' @ b')"

lemma after_byte_text: "after_byte (skip_space s) = Inr (a, b) \<Longrightarrow> leading_spaces s @ a @ b = s"
  using leading_spaces_skip [of s] leading_spaces_skip [of "tl (skip_space s)"]
  by (auto simp: after_byte_def split: list.splits)

lemma skip_key_text: "skip_key s = Inr (a, b) \<Longrightarrow> a @ b = s"
  by (auto simp: skip_key_def Let_def result_simps dest!: after_byte_text)

lemma item_key_text: "item_key obj s = Inr (a, b) \<Longrightarrow> a @ b = s"
  by (auto simp: item_key_def dest: skip_key_text split: if_splits)

lemma append_resolved_Inr [result_simps]:
  "append_resolved r bs = Inr r' \<longleftrightarrow> r' = r @ bs \<and> length bs \<le> 65536 - length r"
  by (auto simp: append_resolved_def result_simps)

lemma parseG_Inr [result_simps]: "parseG lib s = Inr v \<longleftrightarrow> json_text lib s = Some v"
  by (auto simp: parseG_def split: option.splits)

lemma dumpG_Inr [result_simps]: "dumpG lib v = Inr s \<longleftrightarrow> dump lib v = Some s"
  by (auto simp: dumpG_def split: option.splits)

definition ref_free :: "json_lib \<Rightarrow> bytes \<Rightarrow> bool" where
  "ref_free lib source \<longleftrightarrow> (\<forall>s v. sublist s source \<longrightarrow> json_text lib s = Some v \<longrightarrow>
     \<not> has_member v ''$ref'')"

lemma ref_free_part: "ref_free lib s \<Longrightarrow> sublist t s \<Longrightarrow> ref_free lib t"
  unfolding ref_free_def by (meson sublist_order.order_trans)

lemma ref_free_append: "ref_free lib (a @ b) \<Longrightarrow> ref_free lib a \<and> ref_free lib b"
  by (meson ref_free_part sublist_appendI sublist_append_leftI sublist_append_rightI)

lemma resolve_mcp_substitutes:
  shows "resolve_mcp lib outputs source = Inr r \<Longrightarrow>
      substituted lib outputs source r \<and> (ref_free lib source \<longrightarrow> r = source)"
    and "resolve_items lib outputs obj kept rest result = Inr r \<Longrightarrow>
      \<exists>t. r = result @ kept @ t \<and> substituted lib outputs rest t \<and> (ref_free lib rest \<longrightarrow> t = rest)"
proof (induction lib outputs source and lib outputs obj kept rest result arbitrary: r and r
    rule: resolve_mcp_resolve_items.induct)
  case (1 lib outputs source)
  obtain v where v: "json_text lib source = Some v"
    using 1(2) by (auto simp: resolve_mcp.simps [of lib outputs source] result_simps)
  consider (ref) "is_object v \<and> has_member v ''$ref''"
    | (scalar) "\<not> is_object v" "\<not> is_array v"
    | (items) "\<not> (is_object v \<and> has_member v ''$ref'')" "is_object v \<or> is_array v" by blast
  then show ?case
  proof cases
    case ref
    then show ?thesis
      using 1(2) v by (auto simp: resolve_mcp.simps [of lib outputs source] result_simps ref_free_def
        intro: substituted.replace)
  next
    case scalar
    then show ?thesis
      using 1(2) v by (auto simp: resolve_mcp.simps [of lib outputs source] result_simps
        intro: substituted.keep)
  next
    case items
    then obtain a b where ab: "after_byte (skip_space source) = Inr (a, b)"
      and r: "resolve_items lib outputs (is_object v) (leading_spaces source @ a) b [] = Inr r"
      using 1(2) v
      by (auto simp: resolve_mcp.simps [of lib outputs source] result_simps split: if_splits)
    obtain t where t: "r = (leading_spaces source @ a) @ t" "substituted lib outputs b t"
        "ref_free lib b \<longrightarrow> t = b"
      using 1(1) [OF _ _ _ ab refl r] v items by (auto simp: parseG_Inr)
    have source: "source = (leading_spaces source @ a) @ b" using after_byte_text [OF ab] by simp
    have "substituted lib outputs ((leading_spaces source @ a) @ b) ((leading_spaces source @ a) @ t)"
      using t(2) by (intro substituted.join substituted.keep)
    moreover have "ref_free lib source \<Longrightarrow> ref_free lib b"
      using ref_free_append [of lib "leading_spaces source @ a" b] source by simp
    ultimately show ?thesis using t source by auto
  qed
next
  case (2 lib outputs obj kept rest result)
  note step = 2(3) [unfolded resolve_items.simps [of lib outputs obj kept rest result]]
  show ?case
  proof (cases "closed_by obj rest")
    case True
    then show ?thesis using step by (auto simp: result_simps intro: substituted.keep split: if_splits)
  next
    case False
    then have ne: "rest \<noteq> []" using step by auto
    obtain key rest1 where key: "item_key obj rest = Inr (key, rest1)"
      using step False ne by (auto simp: result_simps)
    define slice where "slice = take (value_end 0 False False rest1) rest1"
    define rest2 where "rest2 = drop (value_end 0 False False rest1) rest1"
    obtain out where pre: "append_resolved result (kept @ key) = Inr (result @ kept @ key)"
      and slice: "resolve_mcp lib outputs slice = Inr out"
      and val: "append_resolved (result @ kept @ key) out = Inr (result @ kept @ key @ out)"
      and tail: "(if closed_by obj (skip_space rest2) then append_resolved (result @ kept @ key @ out) rest2
        else bindE (after_byte (skip_space rest2)) (\<lambda>(comma, rest3).
          resolve_items lib outputs obj (leading_spaces rest2 @ comma) rest3 (result @ kept @ key @ out))) = Inr r"
      using step False ne key unfolding slice_def rest2_def Let_def
      by (auto simp only: result_simps append_assoc if_False bindE_simps prod.case)
    have parts: "rest = key @ slice @ rest2"
      using item_key_text [OF key] by (simp add: slice_def rest2_def)
    have sub: "substituted lib outputs slice out \<and> (ref_free lib slice \<longrightarrow> out = slice)"
      using 2(1) [OF ne False key refl pre slice [unfolded slice_def]] by (simp add: slice_def)
    obtain t where t: "r = (result @ kept @ key @ out) @ t" "substituted lib outputs rest2 t"
        "ref_free lib rest2 \<longrightarrow> t = rest2"
    proof (cases "closed_by obj (skip_space rest2)")
      case True
      then show ?thesis using tail that [of rest2] by (auto simp: result_simps intro: substituted.keep)
    next
      case open_rest: False
      then obtain comma rest3 where comma: "after_byte (skip_space rest2) = Inr (comma, rest3)"
        and more: "resolve_items lib outputs obj (leading_spaces rest2 @ comma) rest3
          (result @ kept @ key @ out) = Inr r"
        using tail by (auto simp: result_simps)
      obtain u where u: "r = (result @ kept @ key @ out) @ (leading_spaces rest2 @ comma) @ u"
          "substituted lib outputs rest3 u" "ref_free lib rest3 \<longrightarrow> u = rest3"
        using 2(2) [OF ne False key refl pre slice [unfolded slice_def] val
            rest2_def open_rest comma refl more] by auto
      have rest2: "rest2 = (leading_spaces rest2 @ comma) @ rest3" using after_byte_text [OF comma] by simp
      have "substituted lib outputs ((leading_spaces rest2 @ comma) @ rest3)
          ((leading_spaces rest2 @ comma) @ u)"
        using u(2) by (intro substituted.join substituted.keep)
      moreover have "ref_free lib rest2 \<Longrightarrow> ref_free lib rest3"
        using ref_free_append [of lib "leading_spaces rest2 @ comma" rest3] rest2 by simp
      ultimately show ?thesis using u rest2 that [of "(leading_spaces rest2 @ comma) @ u"] by auto
    qed
    have "substituted lib outputs rest (key @ out @ t)"
      unfolding parts using sub t(2) by (intro substituted.join substituted.keep) auto
    moreover have "ref_free lib rest \<Longrightarrow> key @ out @ t = rest"
      using ref_free_append [of lib key "slice @ rest2"] ref_free_append [of lib slice rest2] sub t(3)
      by (auto simp: parts)
    ultimately show ?thesis using t(1) by (intro exI [of _ "key @ out @ t"]) auto
  qed
qed

section \<open>Properties\<close>

text \<open>
  C23. An accepted specification gives a plan of 1 to 100 nodes with distinct identifiers and
  dependencies among them, and an order that lists every node once, each after all the nodes it
  depends on; in particular the dependencies have no cycle.
\<close>

theorem accepted_plan_is_ordered:
  assumes "graph_plan_new lib source = Inr plan"
  shows "1 \<le> length (plan_nodes plan) \<and> length (plan_nodes plan) \<le> 100 \<and>
    distinct (node_ids (plan_nodes plan)) \<and> known_dependencies (plan_nodes plan) \<and>
    distinct (plan_order plan) \<and> set (plan_order plan) = {..<length (plan_nodes plan)} \<and>
    after_dependencies (plan_nodes plan) (plan_order plan) \<and> acyclic (precedes (plan_nodes plan))"
proof -
  obtain b where "plan_at lib 4 source \<lparr>total_nodes = 0, pinned = []\<rparr> = Inr (plan, b)"
    using assms by (auto simp: graph_plan_new_def result_simps)
  from plan_at_keeps [OF this] have "plan_ok plan" by (simp add: budget_ok_def)
  then show ?thesis using sound_order_acyclic by (auto simp: plan_ok_def)
qed

text \<open>
  C24. For nodes with distinct identifiers and known dependencies, the passes end with an order
  exactly when the dependencies have no cycle.
\<close>

theorem order_iff_acyclic:
  assumes "distinct (node_ids nodes)" and "known_dependencies nodes"
  shows "(\<exists>order. topological nodes ({}, []) = Inr order) \<longleftrightarrow> acyclic (precedes nodes)"
proof
  assume "\<exists>order. topological nodes ({}, []) = Inr order"
  then obtain order where order: "topological nodes ({}, []) = Inr order" ..
  show "acyclic (precedes nodes)"
    using sound_order_acyclic [OF topological_sound [OF order] assms(1)] .
next
  assume "acyclic (precedes nodes)"
  then show "\<exists>order. topological nodes ({}, []) = Inr order"
    using topological_complete [OF assms _ visit_inv_start] by simp
qed



section \<open>Witnesses\<close>

definition graph_text :: bytes where
  "graph_text = ''{\"nodes\":[{\"id\":\"b\",\"type\":\"human\",\"prompt\":\"q\",\"depends_on\":[\"a\"]},'' @
     ''{\"id\":\"a\",\"type\":\"human\",\"prompt\":\"p\"}]}''"

definition graph_doc :: json where
  "graph_doc = JObj [(''nodes'', JArr [
     JObj [(''id'', JStr ''b''), (''type'', JStr ''human''), (''prompt'', JStr ''q''),
       (''depends_on'', JArr [JStr ''a''])],
     JObj [(''id'', JStr ''a''), (''type'', JStr ''human''), (''prompt'', JStr ''p'')]])]"

definition graph_tree :: raw_tree where
  "graph_tree = Raw_object [(''nodes'', Raw_array [
     Raw_object [(''id'', Raw_scalar), (''type'', Raw_scalar), (''prompt'', Raw_scalar),
       (''depends_on'', Raw_array [Raw_scalar])],
     Raw_object [(''id'', Raw_scalar), (''type'', Raw_scalar), (''prompt'', Raw_scalar)]])]"

definition refs_text :: bytes where
  "refs_text = ''[ {\"$ref\":{\"node\":\"a\"}} , 1.50]''"

definition refs_item :: bytes where
  "refs_item = ''{\"$ref\":{\"node\":\"a\"}}''"

definition graph_lib :: json_lib where
  "graph_lib = \<lparr>
     sax = (\<lambda>bs. if bs = graph_text then (events 0 graph_tree, Some graph_doc)
       else if bs = refs_text then ([], Some (JArr [JObj [(''$ref'', JObj [(''node'', JStr ''a'')])],
         JFloat ''1.50'']))
       else if bs = refs_item then ([], Some (JObj [(''$ref'', JObj [(''node'', JStr ''a'')])]))
       else if bs = ''1.50'' then ([], Some (JFloat ''1.50''))
       else ([], None)),
     dump = (\<lambda>v. if v = graph_doc then Some graph_text else if v = JInt 7 then Some ''7'' else None),
     same = (=)\<rparr>"

definition sample_plan :: graph_plan where
  "sample_plan = \<lparr>plan_nodes = [
       (blank_node ''b'' Human_node)\<lparr>node_prompt := ''q'', node_deps := [''a'']\<rparr>,
       (blank_node ''a'' Human_node)\<lparr>node_prompt := ''p''\<rparr>],
     plan_order = [1, 0], plan_json = graph_text\<rparr>"

lemma graph_text_small: "length graph_text \<le> 200" "graph_text \<noteq> []"
  by (simp_all add: graph_text_def)

lemma graph_text_compact: "compact_scan (False, False) graph_text = graph_text"
  by code_simp

lemma graph_events: "foldE parse_event [] (events 0 graph_tree) = Inr []"
  by (simp add: graph_tree_def)

lemma graph_sax: "sax graph_lib graph_text = (events 0 graph_tree, Some graph_doc)"
  by (simp add: graph_lib_def)

lemma graph_compact: "mcp_compact_object graph_lib graph_text = Inr graph_text"
  using graph_text_small
  by (simp add: mcp_compact_object_def parameters_def mcp_parse_def graph_sax graph_events
    graph_text_compact message_limit_def graph_doc_def)

lemma graph_parsed: "parse_object graph_lib graph_text 262144 = Inr graph_doc"
  using graph_text_small
  by (simp add: parse_object_def need_def graph_compact json_text_def graph_sax)

lemma sample_topological: "topological (plan_nodes sample_plan) ({}, []) = Inr [1, 0]"
  by (simp add: topological.simps pass_def visit_def sample_plan_def blank_node_def upt_rec)

definition sample_b :: graph_node where
  "sample_b = (blank_node ''b'' Human_node)\<lparr>node_prompt := ''q'', node_deps := [''a'']\<rparr>"

definition sample_a :: graph_node where
  "sample_a = (blank_node ''a'' Human_node)\<lparr>node_prompt := ''p''\<rparr>"

definition doc_b :: json where
  "doc_b = JObj [(''id'', JStr ''b''), (''type'', JStr ''human''), (''prompt'', JStr ''q''),
       (''depends_on'', JArr [JStr ''a''])]"

definition doc_a :: json where
  "doc_a = JObj [(''id'', JStr ''a''), (''type'', JStr ''human''), (''prompt'', JStr ''p'')]"

lemmas json_access = has_member_def member_def at_key_def

lemma graph_identifier_small: "graph_identifier ''a''" "graph_identifier ''b''"
  by (simp_all add: graph_identifier_def word_chars_def)

lemma doc_fields:
  "only_fields doc_b [''id'', ''type'', ''depends_on'', ''prompt'', ''when''] = Inr ()"
  "only_fields doc_a [''id'', ''type'', ''depends_on'', ''prompt'', ''when''] = Inr ()"
  by (simp_all add: only_fields_def need_def doc_a_def doc_b_def)

lemma doc_texts:
  "text_field doc_b ''type'' 16 = Inr ''human''" "text_field doc_b ''id'' 64 = Inr ''b''"
  "text_field doc_b ''prompt'' 32768 = Inr ''q''"
  "text_field doc_a ''type'' 16 = Inr ''human''" "text_field doc_a ''id'' 64 = Inr ''a''"
  "text_field doc_a ''prompt'' 32768 = Inr ''p''"
  by (simp_all add: text_field_def need_def doc_a_def doc_b_def json_access)

lemma doc_dependencies: "dependencies_of doc_b ''b'' = Inr [''a'']" "dependencies_of doc_a ''a'' = Inr []"
  by (simp_all add: dependencies_of_def add_dependency_def need_def doc_a_def doc_b_def json_access
    graph_identifier_small)

lemma doc_conditions: "condition_of lib doc_b deps = Inr []" "condition_of lib doc_a deps = Inr []"
  by (simp_all add: condition_of_def doc_a_def doc_b_def json_access)

lemma parse_b: "parse_node lib nested ([], b) doc_b = Inr ([sample_b], b)"
  by (simp add: parse_node_def doc_texts need_def graph_identifier_small node_body_def human_node_def
    doc_fields doc_dependencies doc_conditions tool_references_def sample_b_def blank_node_def)

lemma parse_a: "parse_node lib nested ([sample_b], b) doc_a = Inr ([sample_b, sample_a], b)"
  by (simp add: parse_node_def doc_texts need_def graph_identifier_small node_body_def human_node_def
    doc_fields doc_dependencies doc_conditions tool_references_def sample_b_def sample_a_def
    blank_node_def)

lemma graph_doc_eq: "graph_doc = JObj [(''nodes'', JArr [doc_b, doc_a])]"
  by (simp add: graph_doc_def doc_b_def doc_a_def)

lemma sample_plan_at_lib:
  assumes "parse_object lib graph_text 262144 = Inr graph_doc" and "dump lib graph_doc = Some graph_text"
  shows "plan_at lib 4 graph_text \<lparr>total_nodes = 0, pinned = []\<rparr> =
     Inr (sample_plan, \<lparr>total_nodes = 2, pinned = []\<rparr>)"
proof -
  have four: "(4 :: nat) = Suc 3" by simp
  have spec: "spec_nodes lib graph_text = Inr (graph_doc, [doc_b, doc_a])"
    unfolding spec_nodes_def assms(1) by (simp add: graph_doc_eq only_fields_def need_def json_access)
  have nodes: "plan_nodes sample_plan = [sample_b, sample_a]"
    by (simp add: sample_plan_def sample_b_def sample_a_def)
  have known: "list_all (\<lambda>n. list_all (\<lambda>d. d \<in> node_id ` set [sample_b, sample_a]) (node_deps n))
      [sample_b, sample_a]" by (simp add: sample_b_def sample_a_def blank_node_def)
  show ?thesis
    unfolding four plan_at.simps spec
    using sample_topological [unfolded nodes] known
    by (simp add: need_def parse_a parse_b dumpG_def assms(2) sample_plan_def sample_b_def [symmetric]
      sample_a_def [symmetric])
qed

lemma sample_plan_at:
  "plan_at graph_lib 4 graph_text \<lparr>total_nodes = 0, pinned = []\<rparr> =
     Inr (sample_plan, \<lparr>total_nodes = 2, pinned = []\<rparr>)"
  by (rule sample_plan_at_lib [OF graph_parsed]) (simp add: graph_lib_def)

theorem accepted_plan_is_ordered_witness:
  "after_dependencies (plan_nodes sample_plan) [1, 0]"
proof -
  have "graph_plan_new graph_lib graph_text = Inr sample_plan"
    by (simp add: graph_plan_new_def sample_plan_at)
  from accepted_plan_is_ordered [OF this] show ?thesis by (simp add: sample_plan_def)
qed

theorem order_iff_acyclic_witness: "acyclic (precedes (plan_nodes sample_plan))"
  using order_iff_acyclic [of "plan_nodes sample_plan"] sample_topological
  by (simp add: node_ids_def known_dependencies_def sample_plan_def blank_node_def)


lemma refs_texts:
  "json_text graph_lib ''[ {\"$ref\":{\"node\":\"a\"}} , 1.50]'' =
     Some (JArr [JObj [(''$ref'', JObj [(''node'', JStr ''a'')])], JFloat ''1.50''])"
  "json_text graph_lib ''{\"$ref\":{\"node\":\"a\"}}'' = Some (JObj [(''$ref'', JObj [(''node'', JStr ''a'')])])"
  "json_text graph_lib ''1.50'' = Some (JFloat ''1.50'')"
  "dump graph_lib (JInt 7) = Some ''7''"
  by (simp_all add: graph_lib_def json_text_def graph_text_def refs_text_def refs_item_def graph_doc_def)


end
