(* ===== verification/Graph_Coordinator.thy ===== *)
theory Graph_Coordinator
  imports Graph_Plan
begin

text \<open>
  \<open>graph.cpp\<close>, the coordinator: the state of every node of an immutable plan, the decisions
  a scheduler reads from it and the transitions it makes, checkpoints and their restoration. An
  operation that throws after it has changed the state returns the changed state beside its error.
\<close>

section \<open>State\<close>

datatype node_state = Pending | Running | Waiting_human | Completed | Skipped | Failed | Uncertain
  | Cancelled

datatype restore_mode = Recover | Live

fun state_text :: "node_state \<Rightarrow> bytes" where
  "state_text Pending = ''pending''" | "state_text Running = ''running''"
| "state_text Waiting_human = ''waiting_human''" | "state_text Completed = ''completed''"
| "state_text Skipped = ''skipped''" | "state_text Failed = ''failed''"
| "state_text Uncertain = ''uncertain''" | "state_text Cancelled = ''cancelled''"

definition state_name :: "bytes \<Rightarrow> graph_error + node_state" where
  "state_name v =
     (case find (\<lambda>s. state_text s = v)
         [Pending, Running, Waiting_human, Completed, Skipped, Failed, Uncertain, Cancelled] of
        Some s \<Rightarrow> Inr s | None \<Rightarrow> invalid ''Unknown graph node state'')"

record node_record =
  state :: node_state
  node_output :: bytes

record coordinator =
  plan :: graph_plan
  states :: "node_record list"

definition at_state :: "coordinator \<Rightarrow> nat \<Rightarrow> node_state" where
  "at_state c i = state (states c ! i)"

definition set_state :: "coordinator \<Rightarrow> nat \<Rightarrow> node_state \<Rightarrow> coordinator" where
  "set_state c i s = c\<lparr>states := (states c)[i := (states c ! i)\<lparr>state := s\<rparr>]\<rparr>"

definition graph_index :: "graph_plan \<Rightarrow> bytes \<Rightarrow> graph_error + nat" where
  "graph_index p i =
     (case find (\<lambda>k. node_id (plan_nodes p ! k) = i) [0..<length (plan_nodes p)] of
        Some k \<Rightarrow> Inr k | None \<Rightarrow> Inl Node_not_found)"

definition output_value :: "json_lib \<Rightarrow> bytes \<Rightarrow> graph_error + json" where
  "output_value lib source =
     bindE (need (length source \<le> 65536) ''Graph output exceeds 64 KiB'') (\<lambda>_.
     bindE (parse_object lib (''{\"value\":'' @ source @ ''}'') 65548) (\<lambda>wrapped.
     bindE (only_fields wrapped [''value'']) (\<lambda>_.
     if has_member wrapped ''value'' then Inr (at_key wrapped ''value'') else Inl Json_failure)))"

section \<open>Decisions\<close>

text \<open>
  The loop of \<open>eligible\<close> over the dependencies: nothing where it returns false, otherwise
  whether one was skipped and the outputs of the completed ones.
\<close>

fun eligible_loop :: "json_lib \<Rightarrow> coordinator \<Rightarrow> bytes list \<Rightarrow> bool \<Rightarrow> (bytes \<times> json) list \<Rightarrow>
    graph_error + (bool \<times> (bytes \<times> json) list) option" where
  "eligible_loop lib c [] skipped outputs = Inr (Some (skipped, outputs))"
| "eligible_loop lib c (d # ds) skipped outputs =
     bindE (graph_index (plan c) d) (\<lambda>k.
       if at_state c k = Skipped then eligible_loop lib c ds True outputs
       else if at_state c k \<noteq> Completed then Inr None
       else bindE (output_value lib (node_output (states c ! k))) (\<lambda>v.
         eligible_loop lib c ds skipped (put_member d v outputs)))"

definition condition_fails :: "json_lib \<Rightarrow> bytes \<Rightarrow> json \<Rightarrow> graph_error + bool" where
  "condition_fails lib source outputs =
     bindE (parseG lib source) (\<lambda>condition.
       if \<not> is_string (at_key condition ''node'') \<or> \<not> has_member condition ''equals'' \<or>
          \<not> has_member outputs (str_of (at_key condition ''node''))
       then Inl Json_failure
       else bindE (at_path (at_key outputs (str_of (at_key condition ''node''))) (ref_path condition))
         (\<lambda>v. Inr (\<not> same lib v (at_key condition ''equals''))))"

definition eligible :: "json_lib \<Rightarrow> coordinator \<Rightarrow> nat \<Rightarrow> graph_error + bool option" where
  "eligible lib c i =
     (let node = plan_nodes (plan c) ! i in
      bindE (eligible_loop lib c (node_deps node) False []) (\<lambda>found.
        case found of None \<Rightarrow> Inr None
        | Some (skipped, outputs) \<Rightarrow>
          if \<not> skipped \<and> condition_json node \<noteq> []
          then bindE (condition_fails lib (condition_json node) (JObj outputs)) (\<lambda>b. Inr (Some b))
          else Inr (Some skipped)))"

record decision =
  ready :: "bytes list"
  skippable :: "bytes list"
  waiting :: "bytes list"
  running :: "bytes list"
  finished :: bool
  halted :: bool

definition halting :: "node_state \<Rightarrow> bool" where
  "halting s \<longleftrightarrow> s = Failed \<or> s = Uncertain \<or> s = Cancelled"

definition is_halted :: "coordinator \<Rightarrow> bool" where
  "is_halted c \<longleftrightarrow> list_ex (\<lambda>r. halting (state r)) (states c)"

definition inspect_node :: "json_lib \<Rightarrow> coordinator \<Rightarrow> decision \<Rightarrow> nat \<Rightarrow> graph_error + decision" where
  "inspect_node lib c d i =
     (let current = at_state c i; name = node_id (plan_nodes (plan c) ! i);
          d1 = d\<lparr>finished := finished d \<and> (current = Completed \<or> current = Skipped),
            waiting := (if current = Waiting_human then waiting d @ [name] else waiting d),
            running := (if current = Running then running d @ [name] else running d)\<rparr> in
      if current = Pending \<and> \<not> halted d
      then bindE (eligible lib c i) (\<lambda>e. case e of None \<Rightarrow> Inr d1
        | Some skipped \<Rightarrow> Inr (if skipped then d1\<lparr>skippable := skippable d @ [name]\<rparr>
            else d1\<lparr>ready := ready d @ [name]\<rparr>))
      else Inr d1)"

definition inspect :: "json_lib \<Rightarrow> coordinator \<Rightarrow> graph_error + decision" where
  "inspect lib c =
     bindE (foldE (inspect_node lib c)
       \<lparr>ready = [], skippable = [], waiting = [], running = [], finished = True,
        halted = is_halted c\<rparr> [0..<length (states c)])
       (\<lambda>d. Inr (if halted d then d\<lparr>ready := [], skippable := []\<rparr> else d))"

section \<open>Transitions\<close>

record prepared_node =
  prepared :: graph_node
  dependency_outputs :: bytes

fun collect_outputs :: "json_lib \<Rightarrow> coordinator \<Rightarrow> (bytes \<times> json) list \<Rightarrow> bytes list \<Rightarrow>
    graph_error + (bytes \<times> json) list" where
  "collect_outputs lib c outputs [] = Inr outputs"
| "collect_outputs lib c outputs (d # ds) =
     bindE (graph_index (plan c) d) (\<lambda>k.
     bindE (output_value lib (node_output (states c ! k))) (\<lambda>v.
       collect_outputs lib c (put_member d v outputs) ds))"

definition resolved_arguments :: "json_lib \<Rightarrow> graph_node \<Rightarrow> json \<Rightarrow> graph_error + graph_node" where
  "resolved_arguments lib node outputs =
     (if node_kind node \<noteq> Tool_node then Inr node
      else if node_mcp node \<noteq> None then
        bindE (resolve_mcp lib outputs (arguments_json node)) (\<lambda>args.
        bindE (parse_object lib args 65536) (\<lambda>_. Inr (node\<lparr>arguments_json := args\<rparr>)))
      else
        bindE (parseG lib (arguments_json node)) (\<lambda>v.
        bindE (resolve outputs v) (\<lambda>args.
        bindE (need (is_object args) ''Resolved graph arguments must be an object'') (\<lambda>_.
        bindE (dumpG lib args) (\<lambda>args_text.
        bindE (need (length args_text \<le> 65536) ''Resolved graph tool arguments exceed limits'') (\<lambda>_.
        Inr (node\<lparr>arguments_json := args_text\<rparr>)))))))"

text \<open>Everything \<open>start_node\<close> does before it changes the state.\<close>

definition admit :: "json_lib \<Rightarrow> coordinator \<Rightarrow> bytes \<Rightarrow> bool \<Rightarrow>
    graph_error + nat \<times> graph_node \<times> (bytes \<times> json) list" where
  "admit lib c name invocation =
     bindE (inspect lib c) (\<lambda>d.
     bindE (guardE (name \<in> set (ready d)) (Conflict ''Graph node is not ready'')) (\<lambda>_.
     bindE (graph_index (plan c) name) (\<lambda>i.
     let node = plan_nodes (plan c) ! i in
     bindE (collect_outputs lib c [] (node_deps node)) (\<lambda>outputs.
     bindE (guardE (node_kind node = Graph_node \<longrightarrow> invocation)
       (Conflict ''Nested graph execution ownership is not implemented'')) (\<lambda>_.
     bindE (resolved_arguments lib node (JObj outputs)) (\<lambda>node1. Inr (i, node1, outputs)))))))"

definition start_node :: "json_lib \<Rightarrow> coordinator \<Rightarrow> bytes \<Rightarrow> bool \<Rightarrow>
    coordinator \<times> (graph_error + prepared_node)" where
  "start_node lib c name invocation =
     (case admit lib c name invocation of
        Inl e \<Rightarrow> (c, Inl e)
      | Inr (i, node, outputs) \<Rightarrow>
        (set_state c i (if node_kind node = Human_node then Waiting_human else Running),
         bindE (dumpG lib (JObj outputs)) (\<lambda>bs.
           Inr \<lparr>prepared = node, dependency_outputs = bs\<rparr>)))"

definition start :: "json_lib \<Rightarrow> coordinator \<Rightarrow> bytes \<Rightarrow> coordinator \<times> (graph_error + prepared_node)" where
  "start lib c name = start_node lib c name False"

definition claim_invocation :: "json_lib \<Rightarrow> coordinator \<Rightarrow> bytes \<Rightarrow>
    coordinator \<times> (graph_error + prepared_node)" where
  "claim_invocation lib c name =
     (case graph_index (plan c) name of Inl e \<Rightarrow> (c, Inl e)
      | Inr i \<Rightarrow> if node_kind (plan_nodes (plan c) ! i) \<noteq> Graph_node
          then (c, Inl (Conflict ''Invocation admission requires a nested graph node''))
          else start_node lib c name True)"

definition skip :: "json_lib \<Rightarrow> coordinator \<Rightarrow> bytes \<Rightarrow> graph_error + coordinator" where
  "skip lib c name =
     bindE (inspect lib c) (\<lambda>d.
     bindE (guardE (name \<in> set (skippable d)) (Conflict ''Graph node is not skippable'')) (\<lambda>_.
     bindE (graph_index (plan c) name) (\<lambda>i. Inr (set_state c i Skipped))))"

definition output_bytes :: "coordinator \<Rightarrow> nat" where
  "output_bytes c = sum_list (map (\<lambda>r. length (node_output r)) (states c))"

definition other_bytes :: "coordinator \<Rightarrow> nat \<Rightarrow> nat" where
  "other_bytes c i = sum_list (map (\<lambda>k. if k = i then 0 else length (node_output (states c ! k)))
     [0..<length (states c)])"

definition put_output :: "json_lib \<Rightarrow> coordinator \<Rightarrow> nat \<Rightarrow> bytes \<Rightarrow> graph_error + coordinator" where
  "put_output lib c i source =
     bindE (output_value lib source) (\<lambda>v.
     bindE (dumpG lib v) (\<lambda>actual.
     bindE (need (length actual + other_bytes c i \<le> 524288) ''Graph output budget exceeded'') (\<lambda>_.
     Inr (c\<lparr>states := (states c)[i := \<lparr>state = Completed, node_output = actual\<rparr>]\<rparr>))))"

definition complete :: "json_lib \<Rightarrow> coordinator \<Rightarrow> bytes \<Rightarrow> bytes \<Rightarrow> graph_error + coordinator" where
  "complete lib c name actual =
     bindE (graph_index (plan c) name) (\<lambda>i.
     bindE (guardE (at_state c i = Running) (Conflict ''Only an owned running graph node can complete''))
       (\<lambda>_. put_output lib c i actual))"

definition provide_human :: "json_lib \<Rightarrow> coordinator \<Rightarrow> bytes \<Rightarrow> bytes \<Rightarrow> graph_error + coordinator" where
  "provide_human lib c name actual =
     bindE (graph_index (plan c) name) (\<lambda>i.
     bindE (guardE (at_state c i = Waiting_human) (Conflict ''Graph node is not waiting for human input''))
       (\<lambda>_. put_output lib c i actual))"

definition fail_node :: "coordinator \<Rightarrow> bytes \<Rightarrow> bool \<Rightarrow> graph_error + coordinator" where
  "fail_node c name uncertain =
     bindE (graph_index (plan c) name) (\<lambda>i.
     bindE (guardE (at_state c i = Running) (Conflict ''Only running work can fail''))
       (\<lambda>_. Inr (set_state c i (if uncertain then Uncertain else Failed))))"

definition cancel_record :: "node_record \<Rightarrow> node_record" where
  "cancel_record r = (if state r = Pending \<or> state r = Waiting_human then r\<lparr>state := Cancelled\<rparr> else r)"

definition cancel_pending :: "coordinator \<Rightarrow> coordinator" where
  "cancel_pending c = c\<lparr>states := map cancel_record (states c)\<rparr>"

definition node_state_of :: "coordinator \<Rightarrow> bytes \<Rightarrow> graph_error + node_state" where
  "node_state_of c name = bindE (graph_index (plan c) name) (\<lambda>i. Inr (at_state c i))"

section \<open>Checkpoints\<close>

text \<open>Objects are built in the order of their keys, as the library keeps them.\<close>

definition node_json :: "json_lib \<Rightarrow> graph_node \<Rightarrow> node_record \<Rightarrow> graph_error + json" where
  "node_json lib n r =
     (if state r = Completed
      then bindE (output_value lib (node_output r)) (\<lambda>v. Inr (JObj [(''id'', JStr (node_id n)),
        (''output'', v), (''state'', JStr (state_text (state r)))]))
      else Inr (JObj [(''id'', JStr (node_id n)), (''state'', JStr (state_text (state r)))]))"

definition checkpoint :: "json_lib \<Rightarrow> coordinator \<Rightarrow> graph_error + bytes" where
  "checkpoint lib c =
     bindE (mapE (\<lambda>(n, r). node_json lib n r) (zip (plan_nodes (plan c)) (states c))) (\<lambda>nodes.
     bindE (parseG lib (plan_json (plan c))) (\<lambda>spec.
     bindE (dumpG lib (JObj [(''nodes'', JArr nodes), (''spec'', spec), (''version'', JInt 1)])) (\<lambda>bs.
     bindE (need (length bs \<le> 1048576) ''Graph checkpoint exceeds limits'') (\<lambda>_. Inr bs))))"

definition restore_record :: "json_lib \<Rightarrow> graph_plan \<Rightarrow> bytes list \<times> node_record list \<Rightarrow> json \<Rightarrow>
    graph_error + bytes list \<times> node_record list" where
  "restore_record lib p acc r =
     (case acc of (seen, records) \<Rightarrow>
     bindE (only_fields r [''id'', ''state'', ''output'']) (\<lambda>_.
     bindE (text_field r ''id'' 64) (\<lambda>name.
     bindE (need (name \<notin> set seen) ''Duplicate checkpoint node'') (\<lambda>_.
     bindE (graph_index p name) (\<lambda>i.
     bindE (text_field r ''state'' 32) (\<lambda>st.
     bindE (state_name st) (\<lambda>s.
     if s = Completed then
       bindE (need (has_member r ''output'') ''Completed graph node has no output'') (\<lambda>_.
       bindE (dumpG lib (at_key r ''output'')) (\<lambda>out.
       bindE (output_value lib out) (\<lambda>_.
       Inr (name # seen, records[i := \<lparr>state = s, node_output = out\<rparr>]))))
     else bindE (need (\<not> has_member r ''output'') ''Non-completed graph node cannot contain an output'')
       (\<lambda>_. Inr (name # seen, records[i := (records ! i)\<lparr>state := s\<rparr>])))))))))"

definition restore_check :: "json_lib \<Rightarrow> coordinator \<Rightarrow> nat \<Rightarrow> graph_error + unit" where
  "restore_check lib c i =
     (if at_state c i = Pending \<or> at_state c i = Cancelled then Inr ()
      else bindE (eligible lib c i) (\<lambda>e.
        bindE (need (e = Some (at_state c i = Skipped))
          ''Graph checkpoint violates dependency or condition order'') (\<lambda>_.
        bindE (need (at_state c i = Waiting_human \<longrightarrow> node_kind (plan_nodes (plan c) ! i) = Human_node)
          ''Only a human node can await input'') (\<lambda>_.
        need (at_state c i = Running \<longrightarrow> node_kind (plan_nodes (plan c) ! i) \<noteq> Human_node)
          ''Human checkpoint must await input''))))"

definition recover_record :: "node_record \<Rightarrow> node_record" where
  "recover_record r = (if state r = Running then r\<lparr>state := Uncertain\<rparr> else r)"

definition checkpoint_matches :: "json_lib \<Rightarrow> graph_plan \<Rightarrow> json \<Rightarrow> graph_error + unit" where
  "checkpoint_matches lib p saved =
     (let mismatch = ''Graph checkpoint does not match its immutable plan'' in
      bindE (only_fields saved [''version'', ''spec'', ''nodes'']) (\<lambda>_.
      bindE (need (at_key saved ''version'' = JInt 1 \<and> has_member saved ''spec'') mismatch) (\<lambda>_.
      bindE (dumpG lib (at_key saved ''spec'')) (\<lambda>spec.
      need (spec = plan_json p \<and> is_array (at_key saved ''nodes'') \<and>
        length (elements (at_key saved ''nodes'')) = length (plan_nodes p)) mismatch))))"

definition coordinator_new :: "json_lib \<Rightarrow> graph_plan \<Rightarrow> bytes \<Rightarrow> restore_mode \<Rightarrow> graph_error + coordinator" where
  "coordinator_new lib p source mode =
     (let blank = replicate (length (plan_nodes p)) \<lparr>state = Pending, node_output = []\<rparr> in
      if source = [] then Inr \<lparr>plan = p, states = blank\<rparr>
      else
        bindE (parse_object lib source 1048576) (\<lambda>saved.
        bindE (checkpoint_matches lib p saved) (\<lambda>_.
        bindE (foldE (restore_record lib p) ([], blank) (elements (at_key saved ''nodes'')))
          (\<lambda>(seen, records). let c = \<lparr>plan = p, states = records\<rparr> in
        bindE (need (output_bytes c \<le> 524288) ''Graph checkpoint output budget exceeded'') (\<lambda>_.
        bindE (forE (restore_check lib c) (plan_order p)) (\<lambda>_.
        Inr (case mode of Recover \<Rightarrow> c\<lparr>states := map recover_record records\<rparr> | Live \<Rightarrow> c)))))))"

section \<open>Steps\<close>

text \<open>The operations a scheduler calls; an operation that throws leaves the state it returns.\<close>

inductive coord_step :: "json_lib \<Rightarrow> coordinator \<Rightarrow> coordinator \<Rightarrow> bool" for lib where
  step_start: "start lib c name = (c', r) \<Longrightarrow> coord_step lib c c'"
| step_claim: "claim_invocation lib c name = (c', r) \<Longrightarrow> coord_step lib c c'"
| step_skip: "skip lib c name = Inr c' \<Longrightarrow> coord_step lib c c'"
| step_complete: "complete lib c name actual = Inr c' \<Longrightarrow> coord_step lib c c'"
| step_provide: "provide_human lib c name actual = Inr c' \<Longrightarrow> coord_step lib c c'"
| step_fail: "fail_node c name uncertain = Inr c' \<Longrightarrow> coord_step lib c c'"
| step_cancel: "coord_step lib c (cancel_pending c)"

definition put_record :: "coordinator \<Rightarrow> nat \<Rightarrow> node_record \<Rightarrow> coordinator" where
  "put_record c i r = c\<lparr>states := (states c)[i := r]\<rparr>"

definition settled :: "node_state \<Rightarrow> bool" where
  "settled s \<longleftrightarrow> s = Completed \<or> s = Skipped"

definition started :: "node_state \<Rightarrow> bool" where
  "started s \<longleftrightarrow> s = Running \<or> s = Waiting_human \<or> s = Completed \<or> s = Failed \<or> s = Uncertain"

text \<open>
  The specification of the operations: what a node may do. A node begins or is skipped only in a
  coordinator that has not halted and when its dependencies decide so.
\<close>

inductive coord_move :: "json_lib \<Rightarrow> coordinator \<Rightarrow> coordinator \<Rightarrow> bool" for lib c where
  stay: "coord_move lib c c"
| begin_node: "i < length (states c) \<Longrightarrow> at_state c i = Pending \<Longrightarrow> \<not> is_halted c \<Longrightarrow>
     eligible lib c i = Inr (Some False) \<Longrightarrow>
     s = (if node_kind (plan_nodes (plan c) ! i) = Human_node then Waiting_human else Running) \<Longrightarrow>
     coord_move lib c (put_record c i ((states c ! i)\<lparr>state := s\<rparr>))"
| skip_node: "i < length (states c) \<Longrightarrow> at_state c i = Pending \<Longrightarrow> \<not> is_halted c \<Longrightarrow>
     eligible lib c i = Inr (Some True) \<Longrightarrow>
     coord_move lib c (put_record c i ((states c ! i)\<lparr>state := Skipped\<rparr>))"
| finish_node: "i < length (states c) \<Longrightarrow> at_state c i = Running \<or> at_state c i = Waiting_human \<Longrightarrow>
     dump lib v = Some out \<Longrightarrow> length out + other_bytes c i \<le> 524288 \<Longrightarrow>
     coord_move lib c (put_record c i \<lparr>state = Completed, node_output = out\<rparr>)"
| break_node: "i < length (states c) \<Longrightarrow> at_state c i = Running \<Longrightarrow> s = Failed \<or> s = Uncertain \<Longrightarrow>
     coord_move lib c (put_record c i ((states c ! i)\<lparr>state := s\<rparr>))"
| cancel: "coord_move lib c (cancel_pending c)"

section \<open>Lookup and decisions\<close>

definition sized :: "coordinator \<Rightarrow> bool" where
  "sized c \<longleftrightarrow> plan_ok (plan c) \<and> length (states c) = length (plan_nodes (plan c))"

lemma graph_index_Inr: "graph_index p d = Inr k \<Longrightarrow> k < length (plan_nodes p) \<and> node_id (plan_nodes p ! k) = d"
  by (auto simp: graph_index_def find_Some_iff split: option.splits)

lemma graph_index_node:
  assumes "plan_ok p" and "k < length (plan_nodes p)"
  shows "graph_index p (node_id (plan_nodes p ! k)) = Inr k"
proof -
  have "distinct (node_ids (plan_nodes p))" using assms(1) by (simp add: plan_ok_def)
  then have "j = k" if "j < length (plan_nodes p)" "node_id (plan_nodes p ! j) = node_id (plan_nodes p ! k)" for j
    using that assms(2) by (auto simp: node_ids_def distinct_conv_nth)
  then have "\<forall>j < k. node_id (plan_nodes p ! j) \<noteq> node_id (plan_nodes p ! k)"
    using assms(2) less_trans by blast
  then have "find (\<lambda>j. node_id (plan_nodes p ! j) = node_id (plan_nodes p ! k)) [0..<length (plan_nodes p)] = Some k"
    using assms(2) unfolding find_Some_iff by (intro exI [of _ k]) simp
  then show ?thesis by (simp add: graph_index_def)
qed

lemma dependency_index:
  assumes "plan_ok p" and "i < length (plan_nodes p)" and "d \<in> set (node_deps (plan_nodes p ! i))"
    and "graph_index p d = Inr k"
  shows "(k, i) \<in> precedes (plan_nodes p)"
  using graph_index_Inr [OF assms(4)] assms(2,3) by (auto simp: precedes_def)

lemma eligible_loop_Some:
  "eligible_loop lib c ds skipped outs = Inr (Some (skipped', outs')) \<Longrightarrow>
     (skipped \<longrightarrow> skipped') \<and> (\<forall>d \<in> set ds. \<exists>k. graph_index (plan c) d = Inr k \<and>
       (at_state c k = Completed \<or> (at_state c k = Skipped \<and> skipped')))"
  by (induction lib c ds skipped outs rule: eligible_loop.induct)
    (auto simp: result_simps split: if_splits)

lemma eligible_dependencies:
  assumes "sized c" and "i < length (states c)" and "eligible lib c i = Inr (Some b)"
    and "(k, i) \<in> precedes (plan_nodes (plan c))"
  shows "settled (at_state c k) \<and> (\<not> b \<longrightarrow> at_state c k = Completed)"
proof -
  let ?node = "plan_nodes (plan c) ! i"
  obtain skipped outs where loop: "eligible_loop lib c (node_deps ?node) False [] = Inr (Some (skipped, outs))"
    and b: "\<not> b \<longrightarrow> \<not> skipped"
    using assms(3) by (auto simp: eligible_def Let_def result_simps split: option.splits if_splits)
  have k: "k < length (plan_nodes (plan c))" "node_id (plan_nodes (plan c) ! k) \<in> set (node_deps ?node)"
    using assms(4) by (auto simp: precedes_def)
  then have "graph_index (plan c) (node_id (plan_nodes (plan c) ! k)) = Inr k"
    using assms(1) graph_index_node by (auto simp: sized_def)
  then show ?thesis using eligible_loop_Some [OF loop] k(2) b by (force simp: settled_def)
qed

definition names_where :: "coordinator \<Rightarrow> (nat \<Rightarrow> bool) \<Rightarrow> nat list \<Rightarrow> bytes list" where
  "names_where c P is = map (\<lambda>i. node_id (plan_nodes (plan c) ! i)) (filter P is)"

lemma names_where_one: "names_where c P [i] = (if P i then [node_id (plan_nodes (plan c) ! i)] else [])"
  by (simp add: names_where_def)

lemma names_where_Cons: "names_where c P (i # is) = names_where c P [i] @ names_where c P is"
  by (simp add: names_where_def)

lemma decision_cases:
  assumes "(if p then bindE m (\<lambda>e. case e of None \<Rightarrow> Inr x
    | Some skipped \<Rightarrow> Inr (if skipped then y else z)) else Inr x) = Inr r"
  shows "(p \<and> m = Inr (Some True) \<and> r = y) \<or> (p \<and> m = Inr (Some False) \<and> r = z) \<or>
    (\<not> (p \<and> (\<exists>b. m = Inr (Some b))) \<and> r = x)"
  using assms by (cases m) (auto split: if_splits option.splits)

lemma inspect_node_Inr:
  assumes "inspect_node lib c d i = Inr d1"
  shows "halted d1 = halted d" and "finished d1 = (finished d \<and> settled (at_state c i))"
    and "waiting d1 = waiting d @ names_where c (\<lambda>i. at_state c i = Waiting_human) [i]"
    and "running d1 = running d @ names_where c (\<lambda>i. at_state c i = Running) [i]"
    and "ready d1 = ready d @ names_where c (\<lambda>i. at_state c i = Pending \<and> \<not> halted d \<and>
       eligible lib c i = Inr (Some False)) [i]"
    and "skippable d1 = skippable d @ names_where c (\<lambda>i. at_state c i = Pending \<and> \<not> halted d \<and>
       eligible lib c i = Inr (Some True)) [i]"
proof -
  let ?d = "d\<lparr>finished := finished d \<and> settled (at_state c i),
    waiting := waiting d @ names_where c (\<lambda>i. at_state c i = Waiting_human) [i],
    running := running d @ names_where c (\<lambda>i. at_state c i = Running) [i]\<rparr>"
  have update: "d\<lparr>finished := finished d \<and> (at_state c i = Completed \<or> at_state c i = Skipped),
      waiting := (if at_state c i = Waiting_human
        then waiting d @ [node_id (plan_nodes (plan c) ! i)] else waiting d),
      running := (if at_state c i = Running
        then running d @ [node_id (plan_nodes (plan c) ! i)] else running d)\<rparr> = ?d"
    by (simp add: names_where_one settled_def)
  have step: "inspect_node lib c d i =
      (if at_state c i = Pending \<and> \<not> halted d
       then bindE (eligible lib c i) (\<lambda>e. case e of None \<Rightarrow> Inr ?d
         | Some skipped \<Rightarrow> Inr (if skipped
             then ?d\<lparr>skippable := skippable d @ [node_id (plan_nodes (plan c) ! i)]\<rparr>
             else ?d\<lparr>ready := ready d @ [node_id (plan_nodes (plan c) ! i)]\<rparr>))
       else Inr ?d)"
    by (simp only: inspect_node_def Let_def update)
  consider (skip) "at_state c i = Pending \<and> \<not> halted d" "eligible lib c i = Inr (Some True)"
      "d1 = ?d\<lparr>skippable := skippable d @ [node_id (plan_nodes (plan c) ! i)]\<rparr>"
    | (ready) "at_state c i = Pending \<and> \<not> halted d" "eligible lib c i = Inr (Some False)"
      "d1 = ?d\<lparr>ready := ready d @ [node_id (plan_nodes (plan c) ! i)]\<rparr>"
    | (other) "\<not> ((at_state c i = Pending \<and> \<not> halted d) \<and> (\<exists>b. eligible lib c i = Inr (Some b)))"
      "d1 = ?d"
    using decision_cases [OF assms [unfolded step]] by blast
  then show "halted d1 = halted d" "finished d1 = (finished d \<and> settled (at_state c i))"
    "waiting d1 = waiting d @ names_where c (\<lambda>i. at_state c i = Waiting_human) [i]"
    "running d1 = running d @ names_where c (\<lambda>i. at_state c i = Running) [i]"
    "ready d1 = ready d @ names_where c (\<lambda>i. at_state c i = Pending \<and> \<not> halted d \<and>
       eligible lib c i = Inr (Some False)) [i]"
    "skippable d1 = skippable d @ names_where c (\<lambda>i. at_state c i = Pending \<and> \<not> halted d \<and>
       eligible lib c i = Inr (Some True)) [i]"
    by (cases; simp add: names_where_one; blast?)+
qed

lemma inspect_fold:
  "foldE (inspect_node lib c) d is = Inr d' \<Longrightarrow>
     halted d' = halted d \<and>
     finished d' = (finished d \<and> (\<forall>i \<in> set is. settled (at_state c i))) \<and>
     waiting d' = waiting d @ names_where c (\<lambda>i. at_state c i = Waiting_human) is \<and>
     running d' = running d @ names_where c (\<lambda>i. at_state c i = Running) is \<and>
     ready d' = ready d @ names_where c (\<lambda>i. at_state c i = Pending \<and> \<not> halted d \<and>
       eligible lib c i = Inr (Some False)) is \<and>
     skippable d' = skippable d @ names_where c (\<lambda>i. at_state c i = Pending \<and> \<not> halted d \<and>
       eligible lib c i = Inr (Some True)) is"
proof (induction "is" arbitrary: d)
  case (Cons i "is")
  then obtain d1 where d1: "inspect_node lib c d i = Inr d1" and rest: "foldE (inspect_node lib c) d1 is = Inr d'"
    by (auto simp: result_simps)
  show ?case
    unfolding inspect_node_Inr [OF d1] Cons.IH [OF rest, THEN conjunct1]
    using Cons.IH [OF rest] inspect_node_Inr [OF d1]
    by (simp add: names_where_Cons [of _ _ i "is"] conj_assoc)
qed (simp add: names_where_def)

lemma inspect_decision:
  assumes "inspect lib c = Inr d"
  shows "halted d = is_halted c"
    and "finished d \<longleftrightarrow> (\<forall>i < length (states c). settled (at_state c i))"
    and "waiting d = names_where c (\<lambda>i. at_state c i = Waiting_human) [0..<length (states c)]"
    and "running d = names_where c (\<lambda>i. at_state c i = Running) [0..<length (states c)]"
    and "ready d = names_where c (\<lambda>i. at_state c i = Pending \<and> \<not> is_halted c \<and>
       eligible lib c i = Inr (Some False)) [0..<length (states c)]"
    and "skippable d = names_where c (\<lambda>i. at_state c i = Pending \<and> \<not> is_halted c \<and>
       eligible lib c i = Inr (Some True)) [0..<length (states c)]"
proof -
  obtain d0 where fold: "foldE (inspect_node lib c)
      \<lparr>ready = [], skippable = [], waiting = [], running = [], finished = True, halted = is_halted c\<rparr>
      [0..<length (states c)] = Inr d0"
    and d: "d = (if halted d0 then d0\<lparr>ready := [], skippable := []\<rparr> else d0)"
    using assms by (auto simp: inspect_def result_simps)
  note facts = inspect_fold [OF fold]
  show "halted d = is_halted c" "finished d \<longleftrightarrow> (\<forall>i < length (states c). settled (at_state c i))"
    "waiting d = names_where c (\<lambda>i. at_state c i = Waiting_human) [0..<length (states c)]"
    "running d = names_where c (\<lambda>i. at_state c i = Running) [0..<length (states c)]"
    "ready d = names_where c (\<lambda>i. at_state c i = Pending \<and> \<not> is_halted c \<and>
       eligible lib c i = Inr (Some False)) [0..<length (states c)]"
    "skippable d = names_where c (\<lambda>i. at_state c i = Pending \<and> \<not> is_halted c \<and>
       eligible lib c i = Inr (Some True)) [0..<length (states c)]"
    using facts by (auto simp: d names_where_def)
qed

lemma names_where_mem: "name \<in> set (names_where c P is) \<longleftrightarrow>
    (\<exists>i \<in> set is. P i \<and> name = node_id (plan_nodes (plan c) ! i))"
  by (auto simp: names_where_def)

section \<open>Operations are moves\<close>

lemma set_state_put: "set_state c i s = put_record c i ((states c ! i)\<lparr>state := s\<rparr>)"
  by (simp add: set_state_def put_record_def)

lemma listed_index:
  assumes "sized c" and "graph_index (plan c) name = Inr i"
    and "name \<in> set (names_where c P [0..<length (states c)])"
  shows "i < length (states c) \<and> P i"
proof -
  obtain j where j: "j < length (states c)" "P j" "name = node_id (plan_nodes (plan c) ! j)"
    using assms(3) by (auto simp: names_where_mem)
  then have "i = j" using assms(1,2) graph_index_node [of "plan c" j] by (simp add: sized_def)
  then show ?thesis using j by simp
qed

lemma admit_facts:
  assumes "sized c" and "admit lib c name invoc = Inr (i, node, outs)"
  shows "i < length (states c)" and "at_state c i = Pending" and "\<not> is_halted c"
    and "eligible lib c i = Inr (Some False)" and "node_kind node = node_kind (plan_nodes (plan c) ! i)"
proof -
  obtain d node0 where d: "inspect lib c = Inr d" "name \<in> set (ready d)" "graph_index (plan c) name = Inr i"
    and node: "resolved_arguments lib (plan_nodes (plan c) ! i) node0 = Inr node"
    using assms(2) by (auto simp: admit_def Let_def result_simps split: if_splits)
  show "i < length (states c)" "at_state c i = Pending" "\<not> is_halted c" "eligible lib c i = Inr (Some False)"
    using listed_index [OF assms(1) d(3) d(2) [unfolded inspect_decision(5) [OF d(1)]]] by auto
  show "node_kind node = node_kind (plan_nodes (plan c) ! i)"
    using node by (auto simp: resolved_arguments_def result_simps split: if_splits)
qed

lemma start_node_moves:
  assumes "sized c" and "start_node lib c name invoc = (c', r)"
  shows "coord_move lib c c'"
proof (cases "admit lib c name invoc")
  case (Inl e)
  then show ?thesis using assms(2) by (simp add: start_node_def coord_move.stay)
next
  case (Inr t)
  obtain i node outs where t: "t = (i, node, outs)" by (cases t)
  then show ?thesis
    using assms(2) Inr admit_facts [OF assms(1) Inr [unfolded t]]
    by (auto simp: start_node_def set_state_put intro: coord_move.begin_node)
qed

lemma put_output_moves:
  assumes "put_output lib c i source = Inr c'" and "i < length (states c)"
    and "at_state c i = Running \<or> at_state c i = Waiting_human"
  shows "coord_move lib c c'"
  using assms by (auto simp: put_output_def result_simps put_record_def [symmetric]
      intro: coord_move.finish_node)

lemma step_moves:
  assumes "coord_step lib c c'" and "sized c"
  shows "coord_move lib c c'"
  using assms(1)
proof cases
  case (step_start name r)
  then show ?thesis using start_node_moves [OF assms(2)] by (simp add: start_def)
next
  case (step_claim name r)
  then show ?thesis using start_node_moves [OF assms(2)]
    by (auto simp: claim_invocation_def coord_move.stay split: sum.splits if_splits)
next
  case (step_skip name)
  then obtain d i where d: "inspect lib c = Inr d" "name \<in> set (skippable d)" "graph_index (plan c) name = Inr i"
    and c': "c' = set_state c i Skipped" by (auto simp: skip_def result_simps split: if_splits)
  show ?thesis
    using listed_index [OF assms(2) d(3) d(2) [unfolded inspect_decision(6) [OF d(1)]]]
    by (auto simp: c' set_state_put intro: coord_move.skip_node)
next
  case (step_complete name actual)
  then show ?thesis using assms(2)
    by (auto simp: complete_def result_simps sized_def dest!: graph_index_Inr intro: put_output_moves
        split: if_splits)
next
  case (step_provide name actual)
  then show ?thesis using assms(2)
    by (auto simp: provide_human_def result_simps sized_def dest!: graph_index_Inr
        intro: put_output_moves split: if_splits)
next
  case (step_fail name uncertain)
  then show ?thesis using assms(2)
    by (auto simp: fail_node_def result_simps sized_def set_state_put dest!: graph_index_Inr
        intro: coord_move.break_node split: if_splits)
next
  case step_cancel
  then show ?thesis by (simp add: coord_move.cancel)
qed

section \<open>The invariant\<close>

definition node_rules :: "coordinator \<Rightarrow> nat \<Rightarrow> node_record \<Rightarrow> bool" where
  "node_rules c i r \<longleftrightarrow>
     (started (state r) \<longrightarrow> (\<forall>k. (k, i) \<in> precedes (plan_nodes (plan c)) \<longrightarrow> at_state c k = Completed)) \<and>
     (state r = Skipped \<longrightarrow> (\<forall>k. (k, i) \<in> precedes (plan_nodes (plan c)) \<longrightarrow> settled (at_state c k))) \<and>
     (state r = Waiting_human \<longrightarrow> node_kind (plan_nodes (plan c) ! i) = Human_node) \<and>
     (state r = Running \<longrightarrow> node_kind (plan_nodes (plan c) ! i) \<noteq> Human_node) \<and>
     (state r \<noteq> Completed \<longrightarrow> node_output r = [])"

definition coord_ok :: "coordinator \<Rightarrow> bool" where
  "coord_ok c \<longleftrightarrow> sized c \<and> output_bytes c \<le> 524288 \<and>
     (\<forall>i < length (states c). node_rules c i (states c ! i))"

lemma coord_okI:
  assumes "sized c" and "output_bytes c \<le> 524288"
    and "\<And>i. i < length (states c) \<Longrightarrow> node_rules c i (states c ! i)"
  shows "coord_ok c"
  using assms by (simp add: coord_ok_def)

lemma at_put_record:
  "at_state (put_record c i r) k = (if k = i \<and> i < length (states c) then state r else at_state c k)"
  by (cases "i < length (states c)") (auto simp: at_state_def put_record_def nth_list_update list_update_beyond)

lemma put_record_simps [simp]:
  "plan (put_record c i r) = plan c" "length (states (put_record c i r)) = length (states c)"
  by (simp_all add: put_record_def)

lemma started_settled: "at_state c k = Completed \<Longrightarrow> settled (at_state c k)"
  by (simp add: settled_def)

lemma precedes_irrefl: "plan_ok p \<Longrightarrow> (i, i) \<notin> precedes (plan_nodes p)"
  using sound_order_acyclic [of "plan_order p" "plan_nodes p"] by (auto simp: plan_ok_def acyclic_def)

lemma node_rules_mono:
  assumes "node_rules c i r" and "plan c' = plan c"
    and "\<And>k. settled (at_state c k) \<Longrightarrow> at_state c' k = at_state c k"
  shows "node_rules c' i r"
  using assms(1) assms(3) unfolding node_rules_def assms(2) by (auto simp: settled_def)

lemma put_record_rules:
  assumes ok: "coord_ok c" and i: "i < length (states c)" and live: "\<not> settled (at_state c i)"
    and r: "node_rules c i r" and bytes: "output_bytes (put_record c i r) \<le> 524288"
  shows "coord_ok (put_record c i r)"
proof (rule coord_okI)
  show "sized (put_record c i r)" using ok by (simp add: coord_ok_def sized_def)
  show "output_bytes (put_record c i r) \<le> 524288" by (fact bytes)
next
  have mono: "at_state (put_record c i r) k = at_state c k" if "settled (at_state c k)" for k
    using that live by (auto simp: at_put_record)
  fix k assume k: "k < length (states (put_record c i r))"
  have "node_rules c k (states (put_record c i r) ! k)"
    using r ok k by (cases "k = i") (auto simp: put_record_def coord_ok_def)
  then show "node_rules (put_record c i r) k (states (put_record c i r) ! k)"
    by (rule node_rules_mono) (simp_all add: mono)
qed

lemma sum_one:
  assumes "i < (n :: nat)"
  shows "(\<Sum>k \<leftarrow> [0..<n]. if k = i then a else f k) = (a :: nat) + (\<Sum>k \<leftarrow> [0..<n]. if k = i then 0 else f k)"
proof -
  have "(\<Sum>k \<in> {0..<n}. if k = i then a else f k) = a + (\<Sum>k \<in> {0..<n} - {i}. f k)"
    "(\<Sum>k \<in> {0..<n}. if k = i then 0 else f k) = (\<Sum>k \<in> {0..<n} - {i}. f k)"
    using assms by (simp_all add: sum.remove [of _ i])
  then show ?thesis by (simp add: interv_sum_list_conv_sum_set_nat)
qed

lemma output_bytes_sum:
  "output_bytes c = (\<Sum>k \<leftarrow> [0..<length (states c)]. length (node_output (states c ! k)))"
  unfolding output_bytes_def by (subst map_nth [of "states c", symmetric]) (simp add: comp_def)

lemma output_bytes_put:
  assumes "i < length (states c)"
  shows "output_bytes (put_record c i r) = length (node_output r) + other_bytes c i"
proof -
  have "map (\<lambda>k. length (node_output (states (put_record c i r) ! k))) [0..<length (states c)] =
      map (\<lambda>k. if k = i then length (node_output r) else length (node_output (states c ! k)))
        [0..<length (states c)]"
    by (auto simp: put_record_def nth_list_update)
  then have "output_bytes (put_record c i r) = (\<Sum>k \<leftarrow> [0..<length (states c)].
      if k = i then length (node_output r) else length (node_output (states c ! k)))"
    by (simp only: output_bytes_sum put_record_simps)
  also have "\<dots> = length (node_output r) + other_bytes c i"
    unfolding other_bytes_def by (rule sum_one [OF assms])
  finally show ?thesis .
qed

lemma output_bytes_kept:
  assumes "i < length (states c)" and "node_output r = node_output (states c ! i)"
  shows "output_bytes (put_record c i r) = output_bytes c"
proof -
  have "put_record c i (states c ! i) = c" by (simp add: put_record_def)
  then show ?thesis using output_bytes_put [OF assms(1), of r] output_bytes_put [OF assms(1), of "states c ! i"]
      assms(2) by simp
qed

lemma coord_ok_node: "coord_ok c \<Longrightarrow> i < length (states c) \<Longrightarrow> node_rules c i (states c ! i)"
  by (simp add: coord_ok_def)

lemma cancel_ok:
  assumes "coord_ok c"
  shows "coord_ok (cancel_pending c)"
proof (rule coord_okI)
  show "sized (cancel_pending c)" using assms by (simp add: coord_ok_def sized_def cancel_pending_def)
  have "map (\<lambda>r. length (node_output r)) (states (cancel_pending c)) =
      map (\<lambda>r. length (node_output r)) (states c)"
    by (simp add: cancel_pending_def cancel_record_def)
  then show "output_bytes (cancel_pending c) \<le> 524288" using assms by (simp add: output_bytes_def coord_ok_def)
next
  fix i assume i: "i < length (states (cancel_pending c))"
  then have i': "i < length (states c)" by (simp add: cancel_pending_def)
  have kept: "at_state (cancel_pending c) k = at_state c k" if "k < length (states c)" "settled (at_state c k)" for k
    using that by (auto simp: at_state_def cancel_pending_def cancel_record_def settled_def)
  have "node_rules c i (cancel_record (states c ! i))"
    using coord_ok_node [OF assms i'] by (auto simp: node_rules_def cancel_record_def started_def)
  then have "node_rules (cancel_pending c) i (cancel_record (states c ! i))"
    using assms kept
    by (auto simp: node_rules_def cancel_pending_def coord_ok_def sized_def precedes_def settled_def)
  then show "node_rules (cancel_pending c) i (states (cancel_pending c) ! i)"
    using i' by (simp add: cancel_pending_def)
qed

lemma eligible_settled:
  assumes "coord_ok c" and "i < length (states c)" and "eligible lib c i = Inr (Some b)"
  shows "\<forall>k. (k, i) \<in> precedes (plan_nodes (plan c)) \<longrightarrow> settled (at_state c k)"
  using eligible_dependencies [of c i lib b] assms by (simp add: coord_ok_def)

lemma eligible_completed:
  assumes "coord_ok c" and "i < length (states c)" and "eligible lib c i = Inr (Some False)"
  shows "\<forall>k. (k, i) \<in> precedes (plan_nodes (plan c)) \<longrightarrow> at_state c k = Completed"
  using eligible_dependencies [of c i lib False] assms by (simp add: coord_ok_def)

lemma pending_output:
  assumes "coord_ok c" and "i < length (states c)" and "at_state c i = Pending"
  shows "node_output (states c ! i) = []"
  using coord_ok_node [OF assms(1,2)] assms(3) by (simp add: node_rules_def at_state_def)

lemma running_output:
  assumes "coord_ok c" and "i < length (states c)" and "at_state c i = Running"
  shows "node_output (states c ! i) = []"
  using coord_ok_node [OF assms(1,2)] assms(3) by (simp add: node_rules_def at_state_def)

lemma started_dependencies:
  assumes "coord_ok c" and "i < length (states c)" and "started (at_state c i)"
  shows "\<forall>k. (k, i) \<in> precedes (plan_nodes (plan c)) \<longrightarrow> at_state c k = Completed"
  using coord_ok_node [OF assms(1,2)] assms(3) by (simp add: node_rules_def at_state_def)

lemma move_ok:
  assumes "coord_move lib c c'" and ok: "coord_ok c"
  shows "coord_ok c'"
  using assms(1)
proof cases
  case stay
  then show ?thesis using ok by simp
next
  case (begin_node i s)
  have r: "node_rules c i ((states c ! i)\<lparr>state := s\<rparr>)"
    unfolding node_rules_def
    using eligible_completed [OF ok begin_node(2,5)] pending_output [OF ok begin_node(2,3)] begin_node(6)
    by simp
  show ?thesis unfolding begin_node(1)
    by (rule put_record_rules [OF ok begin_node(2) _ r])
      (use begin_node(2,3) ok in \<open>auto simp: settled_def output_bytes_kept coord_ok_def\<close>)
next
  case (skip_node i)
  have r: "node_rules c i ((states c ! i)\<lparr>state := Skipped\<rparr>)"
    unfolding node_rules_def
    using eligible_settled [OF ok skip_node(2,5)] pending_output [OF ok skip_node(2,3)]
    by (simp add: started_def)
  show ?thesis unfolding skip_node(1)
    by (rule put_record_rules [OF ok skip_node(2) _ r])
      (use skip_node(2,3) ok in \<open>auto simp: settled_def output_bytes_kept coord_ok_def\<close>)
next
  case (finish_node i v out)
  have st: "started (at_state c i)" "\<not> settled (at_state c i)"
    using finish_node(3) by (auto simp: started_def settled_def)
  have r: "node_rules c i \<lparr>state = Completed, node_output = out\<rparr>"
    unfolding node_rules_def using started_dependencies [OF ok finish_node(2) st(1)] by simp
  show ?thesis unfolding finish_node(1)
    by (rule put_record_rules [OF ok finish_node(2) st(2) r])
      (use finish_node(2,5) in \<open>simp add: output_bytes_put\<close>)
next
  case (break_node i s)
  have st: "started (at_state c i)" using break_node(3) by (simp add: started_def)
  have r: "node_rules c i ((states c ! i)\<lparr>state := s\<rparr>)"
    unfolding node_rules_def
    using started_dependencies [OF ok break_node(2) st] break_node(4) running_output [OF ok break_node(2,3)]
    by (elim disjE) simp_all
  show ?thesis unfolding break_node(1)
    by (rule put_record_rules [OF ok break_node(2) _ r])
      (use break_node(2,3) ok in \<open>auto simp: settled_def output_bytes_kept coord_ok_def\<close>)
next
  case cancel
  then show ?thesis using cancel_ok [OF ok] by simp
qed

lemma step_ok: "coord_ok c \<Longrightarrow> coord_step lib c c' \<Longrightarrow> coord_ok c'"
  using step_moves [of lib c c'] move_ok [of lib c c'] by (auto simp: coord_ok_def)

section \<open>New and restored coordinators\<close>

definition blank_record :: node_record where
  "blank_record = \<lparr>state = Pending, node_output = []\<rparr>"

definition restore_inv :: "graph_plan \<Rightarrow> bytes list \<times> node_record list \<Rightarrow> bool" where
  "restore_inv p acc \<longleftrightarrow> length (snd acc) = length (plan_nodes p) \<and>
     (\<forall>i < length (plan_nodes p). (state (snd acc ! i) \<noteq> Completed \<longrightarrow> node_output (snd acc ! i) = []) \<and>
       (node_id (plan_nodes p ! i) \<notin> set (fst acc) \<longrightarrow> snd acc ! i = blank_record))"

lemma restore_record_inv:
  assumes "restore_record lib p acc v = Inr acc'" and "restore_inv p acc"
  shows "restore_inv p acc'"
proof -
  obtain seen records where acc: "acc = (seen, records)" by (cases acc)
  obtain name i r where name: "name \<notin> set seen" "graph_index p name = Inr i"
    and acc': "acc' = (name # seen, records[i := r])"
    and r: "(\<exists>s. s \<noteq> Completed \<and> r = (records ! i)\<lparr>state := s\<rparr>) \<or>
      (\<exists>out. r = \<lparr>state = Completed, node_output = out\<rparr>)"
    using assms(1) by (auto simp: acc restore_record_def result_simps split: if_splits)
  have i: "i < length (plan_nodes p)" "node_id (plan_nodes p ! i) = name"
    using graph_index_Inr [OF name(2)] by auto
  then have "records ! i = blank_record" using assms(2) name(1) by (auto simp: restore_inv_def acc)
  then have "state r \<noteq> Completed \<longrightarrow> node_output r = []" using r by (auto simp: blank_record_def)
  then show ?thesis
    using assms(2) i by (auto simp: restore_inv_def acc acc' nth_list_update)
qed

definition checked :: "json_lib \<Rightarrow> coordinator \<Rightarrow> nat \<Rightarrow> bool" where
  "checked lib c i \<longleftrightarrow> at_state c i = Pending \<or> at_state c i = Cancelled \<or>
     (eligible lib c i = Inr (Some (at_state c i = Skipped)) \<and>
      (at_state c i = Waiting_human \<longrightarrow> node_kind (plan_nodes (plan c) ! i) = Human_node) \<and>
      (at_state c i = Running \<longrightarrow> node_kind (plan_nodes (plan c) ! i) \<noteq> Human_node))"

lemma restore_check_Inr: "restore_check lib c i = Inr () \<longleftrightarrow> checked lib c i"
  by (auto simp: restore_check_def checked_def result_simps)

lemma checked_rules:
  assumes "sized c" and i: "i < length (states c)" and chk: "checked lib c i"
    and out: "state (states c ! i) \<noteq> Completed \<longrightarrow> node_output (states c ! i) = []"
  shows "node_rules c i (states c ! i)"
proof (cases "at_state c i = Pending \<or> at_state c i = Cancelled")
  case True
  then show ?thesis using out by (auto simp: node_rules_def at_state_def started_def)
next
  case False
  then have e: "eligible lib c i = Inr (Some (at_state c i = Skipped))"
    and k: "at_state c i = Waiting_human \<longrightarrow> node_kind (plan_nodes (plan c) ! i) = Human_node"
      "at_state c i = Running \<longrightarrow> node_kind (plan_nodes (plan c) ! i) \<noteq> Human_node"
    using chk by (auto simp: checked_def)
  have "\<forall>k. (k, i) \<in> precedes (plan_nodes (plan c)) \<longrightarrow>
      settled (at_state c k) \<and> (at_state c i \<noteq> Skipped \<longrightarrow> at_state c k = Completed)"
    using eligible_dependencies [OF assms(1) i e] by blast
  moreover have "started (at_state c i) \<Longrightarrow> at_state c i \<noteq> Skipped" by (auto simp: started_def)
  ultimately show ?thesis unfolding node_rules_def using out k by (auto simp: at_state_def)
qed

lemma recover_rules:
  assumes ok: "coord_ok c"
  shows "coord_ok (c\<lparr>states := map recover_record (states c)\<rparr>)"
proof (rule coord_okI)
  let ?c = "c\<lparr>states := map recover_record (states c)\<rparr>"
  show "sized ?c" using ok by (simp add: coord_ok_def sized_def)
  have "node_output (recover_record r) = node_output r" for r by (simp add: recover_record_def)
  then have "output_bytes ?c = output_bytes c" by (simp add: output_bytes_def comp_def)
  then show "output_bytes ?c \<le> 524288" using ok by (simp add: coord_ok_def)
  fix i assume i: "i < length (states ?c)"
  have kept: "at_state ?c k = at_state c k" if "k < length (states c)" "settled (at_state c k)" for k
    using that by (auto simp: at_state_def recover_record_def settled_def)
  have "node_rules c i (recover_record (states c ! i))"
    using coord_ok_node [OF ok, of i] i unfolding node_rules_def recover_record_def
    by (cases "state (states c ! i) = Running") (simp_all add: started_def)
  then have "node_rules ?c i (recover_record (states c ! i))"
    using ok kept by (auto simp: node_rules_def coord_ok_def sized_def precedes_def settled_def)
  then show "node_rules ?c i (states ?c ! i)" using i by simp
qed

lemma restored_records:
  assumes "coordinator_new lib p source mode = Inr c" and "source \<noteq> []"
  obtains saved seen records where
    "foldE (restore_record lib p) ([], replicate (length (plan_nodes p)) blank_record)
      (elements (at_key saved ''nodes'')) = Inr (seen, records)"
    "output_bytes \<lparr>plan = p, states = records\<rparr> \<le> 524288"
    "forE (restore_check lib \<lparr>plan = p, states = records\<rparr>) (plan_order p) = Inr ()"
    "c = (case mode of Recover \<Rightarrow> \<lparr>plan = p, states = map recover_record records\<rparr>
      | Live \<Rightarrow> \<lparr>plan = p, states = records\<rparr>)"
    "coordinator_new lib p source Live = Inr \<lparr>plan = p, states = records\<rparr>"
  using assms by (cases mode; auto simp: coordinator_new_def Let_def result_simps blank_record_def)

lemma coordinator_new_ok:
  assumes "coordinator_new lib p source mode = Inr c" and "plan_ok p"
  shows "coord_ok c \<and> plan c = p"
proof (cases "source = []")
  case True
  then have c: "c = \<lparr>plan = p, states = replicate (length (plan_nodes p)) blank_record\<rparr>"
    using assms(1) by (simp add: coordinator_new_def blank_record_def)
  have "coord_ok c"
    by (rule coord_okI) (use assms(2) in \<open>auto simp: c sized_def output_bytes_def blank_record_def
        node_rules_def started_def sum_list_replicate\<close>)
  then show ?thesis by (simp add: c)
next
  case False
  from restored_records [OF assms(1) False] obtain saved seen records where
      fold: "foldE (restore_record lib p) ([], replicate (length (plan_nodes p)) blank_record)
        (elements (at_key saved ''nodes'')) = Inr (seen, records)"
    and bytes: "output_bytes \<lparr>plan = p, states = records\<rparr> \<le> 524288"
    and checks: "forE (restore_check lib \<lparr>plan = p, states = records\<rparr>) (plan_order p) = Inr ()"
    and c: "c = (case mode of Recover \<Rightarrow> \<lparr>plan = p, states = map recover_record records\<rparr>
      | Live \<Rightarrow> \<lparr>plan = p, states = records\<rparr>)" .
  let ?c = "\<lparr>plan = p, states = records\<rparr>"
  have inv: "restore_inv p (seen, records)"
  proof (rule foldE_invariant [OF _ _ fold])
    show "restore_inv p ([], replicate (length (plan_nodes p)) blank_record)"
      by (simp add: restore_inv_def blank_record_def)
  qed (rule restore_record_inv)
  have size: "sized ?c" using assms(2) inv by (simp add: sized_def restore_inv_def)
  have "node_rules ?c i (states ?c ! i)" if "i < length (states ?c)" for i
  proof (rule checked_rules [OF size that])
    have "i \<in> set (plan_order p)" using that size by (simp add: sized_def plan_ok_def)
    then show "checked lib ?c i" using checks by (simp add: forE_Inr restore_check_Inr)
    show "state (states ?c ! i) \<noteq> Completed \<longrightarrow> node_output (states ?c ! i) = []"
      using inv that by (simp add: restore_inv_def)
  qed
  then have ok: "coord_ok ?c" using size bytes by (intro coord_okI)
  then show ?thesis using recover_rules [OF ok] by (simp add: c split: restore_mode.splits)
qed

section \<open>Final states, progress and termination\<close>

definition final :: "node_state \<Rightarrow> bool" where
  "final s \<longleftrightarrow> settled s \<or> halting s"

lemma move_final:
  assumes "coord_move lib c c'" and "i < length (states c)" and "final (at_state c i)"
  shows "states c' ! i = states c ! i"
  using assms
  by (cases rule: coord_move.cases)
    (auto simp: final_def settled_def halting_def put_record_def nth_list_update at_state_def
      cancel_pending_def cancel_record_def)

lemma move_length: "coord_move lib c c' \<Longrightarrow> length (states c') = length (states c)"
  by (cases rule: coord_move.cases) (auto simp: cancel_pending_def)

lemma move_plan: "coord_move lib c c' \<Longrightarrow> plan c' = plan c"
  by (cases rule: coord_move.cases) (auto simp: cancel_pending_def)

lemma is_halted_iff: "is_halted c \<longleftrightarrow> (\<exists>i < length (states c). halting (at_state c i))"
  by (simp add: is_halted_def list_ex_length at_state_def)

lemma move_halted:
  assumes "coord_move lib c c'" and "is_halted c"
  shows "is_halted c'"
proof -
  obtain i where i: "i < length (states c)" "halting (at_state c i)"
    using assms(2) by (auto simp: is_halted_iff)
  then have "states c' ! i = states c ! i" using move_final [OF assms(1)] by (simp add: final_def)
  then show ?thesis using i move_length [OF assms(1)] by (auto simp: is_halted_iff at_state_def)
qed

lemma move_halted_pending:
  assumes "coord_move lib c c'" and "is_halted c" and "i < length (states c)" and "at_state c i = Pending"
  shows "at_state c' i = Pending \<or> at_state c' i = Cancelled"
  using assms
  by (cases rule: coord_move.cases)
    (auto simp: put_record_def nth_list_update at_state_def cancel_pending_def cancel_record_def)

fun work_left :: "node_state \<Rightarrow> nat" where
  "work_left Pending = 2" | "work_left Running = 1" | "work_left Waiting_human = 1"
| "work_left _ = 0"

definition work :: "coordinator \<Rightarrow> nat" where
  "work c = sum_list (map (\<lambda>r. work_left (state r)) (states c))"

lemma work_put:
  assumes "i < length (states c)" and "work_left (state r) < work_left (at_state c i)"
  shows "work (put_record c i r) < work c"
proof -
  have "sum_list (map (\<lambda>r. work_left (state r)) (states c)) \<ge> work_left (at_state c i)"
    using assms(1) by (auto simp: at_state_def intro!: member_le_sum_list)
  then show ?thesis
    using assms by (simp add: work_def put_record_def map_update sum_list_update at_state_def)
qed

lemma sum_list_less:
  fixes f g :: "'a \<Rightarrow> nat"
  assumes "\<And>y. f y \<le> g y" and "x \<in> set xs" and "f x < g x"
  shows "sum_list (map f xs) < sum_list (map g xs)"
  using assms(2)
proof (induction xs)
  case (Cons y ys)
  have "sum_list (map f ys) \<le> sum_list (map g ys)" by (intro sum_list_mono assms(1))
  then show ?case using Cons assms(1) [of y] assms(3) by auto
qed simp

lemma work_cancel: "cancel_pending c \<noteq> c \<Longrightarrow> work (cancel_pending c) < work c"
proof -
  have le: "work_left (state (cancel_record r)) \<le> work_left (state r)" for r
    by (simp add: cancel_record_def)
  assume changed: "cancel_pending c \<noteq> c"
  obtain r where r: "r \<in> set (states c)" "cancel_record r \<noteq> r"
  proof (rule ccontr)
    assume "\<not> thesis"
    then have "map cancel_record (states c) = states c" using that by (intro map_idI) blast
    then show False using changed by (simp add: cancel_pending_def)
  qed
  then have "work_left (state (cancel_record r)) < work_left (state r)"
    by (auto simp: cancel_record_def split: if_splits)
  then have "(\<Sum>r \<leftarrow> states c. work_left (state (cancel_record r))) < (\<Sum>r \<leftarrow> states c. work_left (state r))"
    using r(1) le by (intro sum_list_less [OF le r(1)])
  then show ?thesis by (simp add: work_def cancel_pending_def comp_def)
qed

lemma move_work:
  assumes "coord_move lib c c'"
  shows "c' = c \<or> work c' < work c"
  using assms
proof cases
  case cancel
  then show ?thesis using work_cancel [of c] by auto
qed (auto intro!: work_put)

text \<open>Of a graph that is neither finished nor halted some node can be worked on.\<close>

lemma eligible_loop_None:
  "eligible_loop lib c ds skipped outs = Inr None \<Longrightarrow>
     \<exists>d \<in> set ds. \<exists>k. graph_index (plan c) d = Inr k \<and> \<not> settled (at_state c k)"
  by (induction lib c ds skipped outs rule: eligible_loop.induct)
    (auto simp: result_simps settled_def split: if_splits)

lemma eligible_None:
  assumes "sized c" and "i < length (states c)" and "eligible lib c i = Inr None"
  shows "\<exists>k. (k, i) \<in> precedes (plan_nodes (plan c)) \<and> \<not> settled (at_state c k)"
proof -
  obtain found where found: "eligible_loop lib c (node_deps (plan_nodes (plan c) ! i)) False [] = Inr found"
    using assms(3) by (auto simp: eligible_def Let_def result_simps)
  have "found = None"
    using assms(3) by (cases found) (auto simp: eligible_def Let_def found result_simps split: if_splits)
  then have "eligible_loop lib c (node_deps (plan_nodes (plan c) ! i)) False [] = Inr None"
    using found by simp
  then obtain d k where "d \<in> set (node_deps (plan_nodes (plan c) ! i))" "graph_index (plan c) d = Inr k"
      "\<not> settled (at_state c k)" using eligible_loop_None by blast
  then show ?thesis using dependency_index [of "plan c" i d k] assms(1,2) by (auto simp: sized_def)
qed

lemma inspect_fold_eligible:
  "foldE (inspect_node lib c) d is = Inr d' \<Longrightarrow> i \<in> set is \<Longrightarrow> at_state c i = Pending \<Longrightarrow>
     \<not> halted d \<Longrightarrow> \<exists>e. eligible lib c i = Inr e"
proof (induction "is" arbitrary: d)
  case (Cons j "is")
  then obtain d1 where d1: "inspect_node lib c d j = Inr d1" and rest: "foldE (inspect_node lib c) d1 is = Inr d'"
    by (auto simp: result_simps)
  show ?case
  proof (cases "i = j")
    case True
    then show ?thesis using d1 Cons.prems by (auto simp: inspect_node_def Let_def result_simps)
  next
    case False
    then show ?thesis using Cons.IH [OF rest] Cons.prems inspect_node_Inr(1) [OF d1] by auto
  qed
qed simp

lemma inspect_eligible:
  assumes "inspect lib c = Inr d" and "i < length (states c)" and "at_state c i = Pending"
    and "\<not> is_halted c"
  shows "\<exists>e. eligible lib c i = Inr e"
  using assms inspect_fold_eligible [of lib c _ "[0..<length (states c)]" _ i]
  by (fastforce simp: inspect_def result_simps)

lemma minimal_pending:
  assumes "sized c" and "i < length (states c)" and "at_state c i = Pending"
  shows "\<exists>j < length (states c). at_state c j = Pending \<and>
    (\<forall>k. (k, j) \<in> precedes (plan_nodes (plan c)) \<longrightarrow> at_state c k \<noteq> Pending)"
proof -
  let ?r = "precedes (plan_nodes (plan c))"
  have "acyclic ?r" using assms(1) sound_order_acyclic [of "plan_order (plan c)"]
    by (auto simp: sized_def plan_ok_def)
  moreover have "finite ?r"
    by (rule finite_subset [of _ "{..<length (plan_nodes (plan c))} \<times> {..<length (plan_nodes (plan c))}"])
      (auto simp: precedes_def)
  ultimately have "wf ?r" by (simp add: finite_acyclic_wf)
  then obtain j where j: "j < length (states c)" "at_state c j = Pending"
      "\<And>k. (k, j) \<in> ?r \<Longrightarrow> \<not> (k < length (states c) \<and> at_state c k = Pending)"
    using wfE_min' [of ?r "{j. j < length (states c) \<and> at_state c j = Pending}"] assms(2,3) by auto
  have "k < length (states c)" if "(k, j) \<in> ?r" for k
    using that assms(1) by (simp add: precedes_def sized_def)
  then show ?thesis using j by blast
qed

interpretation graph_run: invariant_system
    "\<lambda>c. \<exists>p source mode. plan_ok p \<and> coordinator_new lib p source mode = Inr c"
    "coord_step lib" coord_ok
  by unfold_locales (use coordinator_new_ok step_ok in blast)+

section \<open>Checkpoints restore the state\<close>

text \<open>
  What an accepted checkpoint is checked for is kept by every move: decisions rest on settled
  nodes only, and an output is what the library dumped.
\<close>

definition dumped :: "json_lib \<Rightarrow> node_record \<Rightarrow> bool" where
  "dumped lib r \<longleftrightarrow> (state r = Completed \<longrightarrow> (\<exists>v. dump lib v = Some (node_output r)))"

definition restorable :: "json_lib \<Rightarrow> coordinator \<Rightarrow> bool" where
  "restorable lib c \<longleftrightarrow> (\<forall>i < length (states c). checked lib c i \<and> dumped lib (states c ! i))"

lemma eligible_loop_cong:
  "(\<And>d k. d \<in> set ds \<Longrightarrow> graph_index (plan c) d = Inr k \<Longrightarrow> states c' ! k = states c ! k) \<Longrightarrow>
     plan c' = plan c \<Longrightarrow> eligible_loop lib c' ds skipped outs = eligible_loop lib c ds skipped outs"
proof (induction ds arbitrary: skipped outs)
  case (Cons d ds)
  have IH: "eligible_loop lib c' ds sk out = eligible_loop lib c ds sk out" for sk out
    by (rule Cons.IH) (use Cons.prems in auto)
  show ?case
  proof (cases "graph_index (plan c) d")
    case (Inr k)
    then have "states c' ! k = states c ! k" using Cons.prems(1) [OF _ Inr] by simp
    then show ?thesis using Inr IH Cons.prems(2) by (simp add: at_state_def)
  qed (simp add: Cons.prems(2))
qed simp

lemma eligible_kept:
  assumes ok: "coord_ok c" and i: "i < length (states c)" and e: "eligible lib c i = Inr (Some b)"
    and kept: "\<And>k. k < length (states c) \<Longrightarrow> settled (at_state c k) \<Longrightarrow> states c' ! k = states c ! k"
    and same: "plan c' = plan c"
  shows "eligible lib c' i = Inr (Some b)"
proof -
  have "eligible_loop lib c' (node_deps (plan_nodes (plan c) ! i)) False [] =
      eligible_loop lib c (node_deps (plan_nodes (plan c) ! i)) False []"
  proof (rule eligible_loop_cong [OF _ same])
    fix d k assume d: "d \<in> set (node_deps (plan_nodes (plan c) ! i))" "graph_index (plan c) d = Inr k"
    then have "(k, i) \<in> precedes (plan_nodes (plan c))"
      using dependency_index [of "plan c" i d k] ok i by (simp add: coord_ok_def sized_def)
    then have "settled (at_state c k)" using eligible_settled [OF ok i e] by blast
    moreover have "k < length (states c)" using graph_index_Inr [OF d(2)] ok by (simp add: coord_ok_def sized_def)
    ultimately show "states c' ! k = states c ! k" by (rule kept [rotated])
  qed
  then show ?thesis using e by (simp add: eligible_def same)
qed

lemma checked_kept:
  assumes ok: "coord_ok c" and i: "i < length (states c)" and chk: "checked lib c i"
    and kept: "\<And>k. k < length (states c) \<Longrightarrow> settled (at_state c k) \<Longrightarrow> states c' ! k = states c ! k"
    and same: "plan c' = plan c" "at_state c' i = at_state c i"
  shows "checked lib c' i"
  using chk eligible_kept [OF ok i _ kept same(1)] unfolding checked_def same by blast

lemma checked_put:
  assumes ok: "coord_ok c" and res: "restorable lib c" and i: "i < length (states c)"
    and live: "\<not> settled (at_state c i)" and e: "eligible lib c i = Inr (Some (state r = Skipped))"
    and kinds: "state r = Waiting_human \<longrightarrow> node_kind (plan_nodes (plan c) ! i) = Human_node"
      "state r = Running \<longrightarrow> node_kind (plan_nodes (plan c) ! i) \<noteq> Human_node"
    and r: "dumped lib r"
  shows "restorable lib (put_record c i r)"
  unfolding restorable_def
proof (intro allI impI conjI)
  let ?c = "put_record c i r"
  fix k assume "k < length (states ?c)"
  then have k: "k < length (states c)" by simp
  have kept: "states ?c ! j = states c ! j" if "settled (at_state c j)" for j
    using that live by (cases "j = i") (auto simp: put_record_def)
  show "checked lib ?c k"
  proof (cases "k = i")
    case True
    then show ?thesis
      using eligible_kept [OF ok i e, of ?c] kept kinds i
      by (auto simp: checked_def at_put_record)
  next
    case False
    then show ?thesis
      using checked_kept [OF ok k, of lib ?c] res k kept by (auto simp: restorable_def at_put_record)
  qed
  show "dumped lib (states ?c ! k)"
    using r res k by (cases "k = i") (auto simp: put_record_def restorable_def)
qed

lemma checked_begun:
  assumes "restorable lib c" and "i < length (states c)" and "started (at_state c i)"
  shows "eligible lib c i = Inr (Some False)"
  using assms by (auto simp: restorable_def checked_def started_def)

lemma move_restorable:
  assumes "coord_move lib c c'" and ok: "coord_ok c" and res: "restorable lib c"
  shows "restorable lib c'"
  using assms(1)
proof cases
  case stay
  then show ?thesis using res by simp
next
  case (begin_node i s)
  then show ?thesis
    by (auto simp: settled_def dumped_def intro!: checked_put [OF ok res])
next
  case (skip_node i)
  then show ?thesis
    by (auto simp: settled_def dumped_def intro!: checked_put [OF ok res])
next
  case (finish_node i v out)
  then have "started (at_state c i)" "\<not> settled (at_state c i)" by (auto simp: started_def settled_def)
  then show ?thesis
    using finish_node checked_begun [OF res] by (auto simp: dumped_def intro!: checked_put [OF ok res])
next
  case (break_node i s)
  then have "started (at_state c i)" "\<not> settled (at_state c i)" by (auto simp: started_def settled_def)
  then show ?thesis
    using break_node checked_begun [OF res] by (auto simp: dumped_def intro!: checked_put [OF ok res])
next
  case cancel
  show ?thesis
    unfolding restorable_def
  proof (intro allI impI conjI)
    fix i assume "i < length (states c')"
    then have i: "i < length (states c)" by (simp add: cancel cancel_pending_def)
    have kept: "states c' ! k = states c ! k" if "k < length (states c)" "settled (at_state c k)" for k
      using that by (auto simp: cancel cancel_pending_def cancel_record_def at_state_def settled_def)
    have same: "plan c' = plan c" by (simp add: cancel cancel_pending_def)
    have "at_state c' i = at_state c i \<or> at_state c' i = Cancelled"
      using i by (simp add: cancel cancel_pending_def cancel_record_def at_state_def)
    then show "checked lib c' i"
    proof
      assume "at_state c' i = at_state c i"
      moreover have "checked lib c i" using res i by (simp add: restorable_def)
      ultimately show ?thesis using checked_kept [OF ok i _ kept same] by blast
    qed (simp add: checked_def)
    show "dumped lib (states c' ! i)"
      using res i by (auto simp: cancel cancel_pending_def cancel_record_def restorable_def dumped_def)
  qed
qed

lemma restore_record_dumped:
  assumes "restore_record lib p acc v = Inr acc'" and "\<forall>r \<in> set (snd acc). dumped lib r"
  shows "\<forall>r \<in> set (snd acc'). dumped lib r"
proof -
  obtain seen records where acc: "acc = (seen, records)" by (cases acc)
  consider (other) name i s where "s \<noteq> Completed" "acc' = (name # seen, records[i := (records ! i)\<lparr>state := s\<rparr>])"
    | (out) name i w bs where "dump lib w = Some bs"
      "acc' = (name # seen, records[i := \<lparr>state = Completed, node_output = bs\<rparr>])"
    using assms(1) by (auto simp: acc restore_record_def result_simps split: if_splits)
  then show ?thesis
  proof cases
    case (other name i s)
    then have "dumped lib ((records ! i)\<lparr>state := s\<rparr>)" by (simp add: dumped_def)
    then show ?thesis using assms(2) other(2) set_update_subset_insert [of records i] by (auto simp: acc)
  next
    case (out name i w bs)
    then have "dumped lib \<lparr>state = Completed, node_output = bs\<rparr>" by (auto simp: dumped_def)
    then show ?thesis using assms(2) out(2) set_update_subset_insert [of records i] by (auto simp: acc)
  qed
qed

lemma recover_restorable:
  assumes ok: "coord_ok c" and res: "restorable lib c"
  shows "restorable lib (c\<lparr>states := map recover_record (states c)\<rparr>)"
  unfolding restorable_def
proof (intro allI impI conjI)
  let ?c = "c\<lparr>states := map recover_record (states c)\<rparr>"
  fix i assume "i < length (states ?c)"
  then have i: "i < length (states c)" by simp
  have kept: "states ?c ! k = states c ! k" if "k < length (states c)" "settled (at_state c k)" for k
    using that by (auto simp: recover_record_def at_state_def settled_def)
  have same: "plan ?c = plan c" by simp
  have chk: "checked lib c i" using res i by (simp add: restorable_def)
  show "checked lib ?c i"
  proof (cases "at_state c i = Running")
    case True
    then have "eligible lib c i = Inr (Some False)" "at_state ?c i = Uncertain"
      using chk i by (auto simp: checked_def at_state_def recover_record_def)
    then show ?thesis using eligible_kept [OF ok i _ kept same] by (auto simp: checked_def)
  next
    case False
    then have "at_state ?c i = at_state c i" using i by (simp add: at_state_def recover_record_def)
    then show ?thesis using checked_kept [OF ok i chk kept same] by blast
  qed
  show "dumped lib (states ?c ! i)"
    using res i by (auto simp: restorable_def dumped_def recover_record_def)
qed

lemma coordinator_new_restorable:
  assumes "coordinator_new lib p source mode = Inr c" and "plan_ok p"
  shows "restorable lib c"
proof (cases "source = []")
  case True
  then show ?thesis
    using assms(1) by (auto simp: coordinator_new_def restorable_def checked_def dumped_def at_state_def)
next
  case False
  from restored_records [OF assms(1) False] obtain saved seen records where
      fold: "foldE (restore_record lib p) ([], replicate (length (plan_nodes p)) blank_record)
        (elements (at_key saved ''nodes'')) = Inr (seen, records)"
    and bytes: "output_bytes \<lparr>plan = p, states = records\<rparr> \<le> 524288"
    and checks: "forE (restore_check lib \<lparr>plan = p, states = records\<rparr>) (plan_order p) = Inr ()"
    and c: "c = (case mode of Recover \<Rightarrow> \<lparr>plan = p, states = map recover_record records\<rparr>
      | Live \<Rightarrow> \<lparr>plan = p, states = records\<rparr>)"
    and live: "coordinator_new lib p source Live = Inr \<lparr>plan = p, states = records\<rparr>" .
  let ?c = "\<lparr>plan = p, states = records\<rparr>"
  have ok: "coord_ok ?c" using coordinator_new_ok [OF live assms(2)] by simp
  have "\<forall>r \<in> set (snd (seen, records)). dumped lib r"
    by (rule foldE_invariant [OF _ _ fold, where P = "\<lambda>acc. \<forall>r \<in> set (snd acc). dumped lib r"])
      (auto simp: blank_record_def dumped_def dest: restore_record_dumped)
  moreover have "i \<in> set (plan_order p)" if "i < length records" for i
    using that ok by (simp add: coord_ok_def sized_def plan_ok_def)
  ultimately have "restorable lib ?c"
    using checks by (auto simp: restorable_def forE_Inr restore_check_Inr)
  then show ?thesis using recover_restorable [OF ok] by (simp add: c split: restore_mode.splits)
qed

text \<open>The records of a checkpoint read back one by one.\<close>

definition reads_outputs :: "json_lib \<Rightarrow> bool" where
  "reads_outputs lib \<longleftrightarrow> (\<forall>v s w. dump lib v = Some s \<longrightarrow> output_value lib s = Inr w \<longrightarrow> w = v)"

lemma state_text_field:
  "state_name (state_text s) = Inr s" "state_text s \<noteq> []" "length (state_text s) \<le> 32"
  "CHR 0x00 \<notin> set (state_text s)"
  by (cases s; simp add: state_name_def)+

lemma identifier_field:
  "graph_identifier i \<Longrightarrow> i \<noteq> [] \<and> length i \<le> 64 \<and> CHR 0x00 \<notin> set i"
  by (auto simp: graph_identifier_def word_chars_def)

lemma restore_node_json:
  assumes doc: "node_json lib n r = Inr doc" and read: "reads_outputs lib" and dumped: "dumped lib r"
    and id: "graph_identifier (node_id n)" "node_id n \<notin> set seen" "graph_index p (node_id n) = Inr i"
    and blank: "records ! i = blank_record" and out: "state r \<noteq> Completed \<longrightarrow> node_output r = []"
  shows "restore_record lib p (seen, records) doc = Inr (node_id n # seen, records[i := r])"
proof (cases "state r = Completed")
  case True
  then obtain v w where v: "dump lib v = Some (node_output r)" "output_value lib (node_output r) = Inr w"
    and d: "doc = JObj [(''id'', JStr (node_id n)), (''output'', w), (''state'', JStr (state_text Completed))]"
    using doc dumped by (auto simp: node_json_def dumped_def result_simps)
  have w: "w = v" using read v by (auto simp: reads_outputs_def)
  have r: "\<lparr>state = Completed, node_output = node_output r\<rparr> = r" using True by simp
  show ?thesis
    unfolding restore_record_def d
    using identifier_field [OF id(1)] id v state_text_field(1) [of Completed] r
    by (simp add: only_fields_def text_field_def need_def json_access w dumpG_def)
next
  case False
  then have d: "doc = JObj [(''id'', JStr (node_id n)), (''state'', JStr (state_text (state r)))]"
    using doc by (simp add: node_json_def)
  have r: "blank_record\<lparr>state := state r\<rparr> = r" using False out by (simp add: blank_record_def)
  show ?thesis
    unfolding restore_record_def d
    using identifier_field [OF id(1)] id state_text_field [of "state r"] False r blank
    by (simp add: only_fields_def text_field_def need_def json_access)
qed

lemma extend_records:
  assumes "k < length xs"
  shows "(take k xs @ replicate (length xs - k) b)[k := xs ! k] = take (Suc k) xs @ replicate (length xs - Suc k) b"
proof -
  have "length xs - k = Suc (length xs - Suc k)" using assms by simp
  then show ?thesis using assms by (simp add: list_update_append take_Suc_conv_app_nth)
qed

lemma node_ids_length: "length (node_ids nodes) = length nodes"
  by (simp add: node_ids_def)

lemma restore_prefix:
  assumes ok: "coord_ok c" and res: "restorable lib c" and read: "reads_outputs lib"
    and docs: "mapE (\<lambda>(n, r). node_json lib n r) (zip (plan_nodes (plan c)) (states c)) = Inr docs"
  shows "k \<le> length docs \<Longrightarrow> foldE (restore_record lib (plan c))
      ([], replicate (length docs) blank_record) (take k docs) =
    Inr (rev (take k (node_ids (plan_nodes (plan c)))), take k (states c) @ replicate (length docs - k) blank_record)"
proof (induction k)
  case (Suc k)
  let ?p = "plan c"
  have plan: "plan_ok ?p" "length (states c) = length (plan_nodes ?p)" using ok by (auto simp: coord_ok_def sized_def)
  have len: "length docs = length (states c)" using mapE_length [OF docs] plan by simp
  have k: "k < length docs" using Suc.prems by simp
  then have kn: "k < length (plan_nodes ?p)" "k < length (states c)" using len plan by simp_all
  have doc: "node_json lib (plan_nodes ?p ! k) (states c ! k) = Inr (docs ! k)"
    using docs k kn by (auto simp: mapE_Inr_iff list_all2_conv_all_nth)
  have ids: "node_id (plan_nodes ?p ! k) = node_ids (plan_nodes ?p) ! k" using kn by (simp add: node_ids_def)
  have "distinct (take (Suc k) (node_ids (plan_nodes ?p)))" using plan by (simp add: plan_ok_def)
  then have fresh: "node_id (plan_nodes ?p ! k) \<notin> set (rev (take k (node_ids (plan_nodes ?p))))"
    using kn by (simp add: ids take_Suc_conv_app_nth node_ids_length)
  have "restore_record lib ?p (rev (take k (node_ids (plan_nodes ?p))),
      take k (states c) @ replicate (length docs - k) blank_record) (docs ! k) =
    Inr (node_id (plan_nodes ?p ! k) # rev (take k (node_ids (plan_nodes ?p))),
      (take k (states c) @ replicate (length docs - k) blank_record)[k := states c ! k])"
  proof (rule restore_node_json [OF doc read])
    show "dumped lib (states c ! k)" using res kn by (simp add: restorable_def)
    show "graph_identifier (node_id (plan_nodes ?p ! k))" using plan(1) kn by (simp add: plan_ok_def)
    show "node_id (plan_nodes ?p ! k) \<notin> set (rev (take k (node_ids (plan_nodes ?p))))" by (fact fresh)
    show "graph_index ?p (node_id (plan_nodes ?p ! k)) = Inr k" using graph_index_node plan(1) kn by blast
    show "(take k (states c) @ replicate (length docs - k) blank_record) ! k = blank_record"
      using kn k by (simp add: nth_append)
    show "state (states c ! k) \<noteq> Completed \<longrightarrow> node_output (states c ! k) = []"
      using coord_ok_node [OF ok kn(2)] by (simp add: node_rules_def)
  qed
  moreover have "(take k (states c) @ replicate (length docs - k) blank_record)[k := states c ! k] =
      take (Suc k) (states c) @ replicate (length docs - Suc k) blank_record"
    using extend_records [OF kn(2), of blank_record] len by simp
  moreover have "node_id (plan_nodes ?p ! k) # rev (take k (node_ids (plan_nodes ?p))) =
      rev (take (Suc k) (node_ids (plan_nodes ?p)))"
    using kn by (simp add: ids take_Suc_conv_app_nth node_ids_length)
  moreover have "foldE (restore_record lib ?p) ([], replicate (length docs) blank_record) (take k docs) =
      Inr (rev (take k (node_ids (plan_nodes ?p))), take k (states c) @ replicate (length docs - k) blank_record)"
    using Suc.IH k by simp
  ultimately show ?case
    by (simp only: take_Suc_conv_app_nth [OF k] foldE_append bindE_simps foldE.simps)
qed simp

lemma plan_at_json: "plan_at lib (Suc l) source b = Inr (p, b') \<Longrightarrow> \<exists>v. dump lib v = Some (plan_json p)"
  by (auto simp: result_simps)

lemma plan_json_dumped:
  assumes "graph_plan_new lib source = Inr p"
  shows "\<exists>v. dump lib v = Some (plan_json p)"
proof -
  obtain b where "plan_at lib 4 source \<lparr>total_nodes = 0, pinned = []\<rparr> = Inr (p, b)"
    using assms by (auto simp: graph_plan_new_def result_simps)
  moreover have "(4 :: nat) = Suc 3" by simp
  ultimately show ?thesis using plan_at_json by metis
qed

lemma restore_checkpoint:
  assumes ok: "coord_ok c" and res: "restorable lib c" and read: "reads_outputs lib"
    and spec: "dump lib v = Some (plan_json (plan c))" "json_text lib (plan_json (plan c)) = Some v"
    and reparsed: "\<And>w. dump lib w = Some bs \<Longrightarrow> parse_object lib bs 1048576 = Inr w"
    and cp: "checkpoint lib c = Inr bs"
  shows "coordinator_new lib (plan c) bs Live = Inr c \<and>
    coordinator_new lib (plan c) bs Recover = Inr (c\<lparr>states := map recover_record (states c)\<rparr>)"
proof -
  let ?p = "plan c"
  obtain docs where docs: "mapE (\<lambda>(n, r). node_json lib n r) (zip (plan_nodes ?p) (states c)) = Inr docs"
    and bs: "dump lib (JObj [(''nodes'', JArr docs), (''spec'', v), (''version'', JInt 1)]) = Some bs"
    using cp spec(2) by (auto simp: checkpoint_def parseG_def result_simps)
  have plan: "plan_ok ?p" "length (states c) = length (plan_nodes ?p)" using ok by (auto simp: coord_ok_def sized_def)
  have len: "length docs = length (states c)" using mapE_length [OF docs] plan by simp
  have same: "\<lparr>plan = ?p, states = states c\<rparr> = c" by (cases c) simp
  let ?doc = "JObj [(''nodes'', JArr docs), (''spec'', v), (''version'', JInt 1)]"
  have parsed: "parse_object lib bs 1048576 = Inr ?doc" by (rule reparsed [OF bs])
  then have "bs \<noteq> []"
    by (auto simp: parse_object_def mcp_compact_object_def parameters_def mcp_parse_def result_simps
        split: sum.splits)
  moreover have "checkpoint_matches lib ?p ?doc = Inr ()"
    using spec(1) len plan by (simp add: checkpoint_matches_def only_fields_def need_def json_access dumpG_def)
  moreover have "elements (at_key ?doc ''nodes'') = docs" by (simp add: json_access)
  moreover have "foldE (restore_record lib ?p) ([], replicate (length (plan_nodes ?p)) blank_record) docs =
      Inr (rev (node_ids (plan_nodes ?p)), states c)"
    using restore_prefix [OF ok res read docs, of "length docs"] len plan(2) by (simp add: node_ids_def)
  moreover have "forE (restore_check lib \<lparr>plan = ?p, states = states c\<rparr>) (plan_order ?p) = Inr ()"
    unfolding same using res plan by (auto simp: forE_Inr restore_check_Inr restorable_def plan_ok_def)
  moreover have "output_bytes \<lparr>plan = ?p, states = states c\<rparr> \<le> 524288"
    unfolding same using ok by (simp add: coord_ok_def)
  ultimately show ?thesis
    using parsed unfolding coordinator_new_def blank_record_def [symmetric] by (simp add: need_def)
qed

section \<open>Properties\<close>

text \<open>
  C27. Every operation of the coordinator refines the moves: it leaves the state as it is, or one
  node begins or is skipped in a coordinator that has not halted and where its dependencies and
  condition decide so, or a running or waiting node finishes with a dumped output within the
  budget, or running work breaks, or all work not begun is cancelled.
\<close>

theorem operations_refine_moves:
  assumes "coord_step lib c c'" and "plan_ok (plan c)"
    and "length (states c) = length (plan_nodes (plan c))"
  shows "coord_move lib c c'"
  using step_moves [OF assms(1)] assms(2,3) by (simp add: sized_def)

text \<open>
  C28. In every state a coordinator can reach, new or restored from any accepted checkpoint, a
  node that has begun has only completed dependencies, a skipped node only completed or skipped
  ones, only human nodes wait for input, and the outputs stay within their budget.
\<close>

theorem dependencies_before_work:
  assumes "plan_ok p" and "coordinator_new lib p source mode = Inr c" and "(coord_step lib)\<^sup>*\<^sup>* c c'"
    and "i < length (states c')"
  shows "(started (at_state c' i) \<longrightarrow>
      (\<forall>k. (k, i) \<in> precedes (plan_nodes (plan c')) \<longrightarrow> at_state c' k = Completed)) \<and>
    (at_state c' i = Skipped \<longrightarrow>
      (\<forall>k. (k, i) \<in> precedes (plan_nodes (plan c')) \<longrightarrow> settled (at_state c' k))) \<and>
    (at_state c' i = Waiting_human \<longrightarrow> node_kind (plan_nodes (plan c') ! i) = Human_node) \<and>
    (at_state c' i \<noteq> Completed \<longrightarrow> node_output (states c' ! i) = []) \<and> output_bytes c' \<le> 524288"
proof -
  have ok: "coord_ok c'" using graph_run.reachable_inv [of lib c c'] assms(1-3) by blast
  from coord_ok_node [OF this assms(4)] ok show ?thesis
    unfolding node_rules_def at_state_def coord_ok_def by blast
qed

text \<open>
  C29. A node that has completed, was skipped, failed, has an uncertain effect or was cancelled
  keeps its state and output through every later operation; and once the coordinator has halted
  it stays halted and a pending node can only be cancelled.
\<close>

theorem final_states_stay:
  assumes "plan_ok p" and "coordinator_new lib p source mode = Inr c" and "(coord_step lib)\<^sup>*\<^sup>* c c1"
    and "(coord_step lib)\<^sup>*\<^sup>* c1 c2" and "i < length (states c1)"
  shows "(final (at_state c1 i) \<longrightarrow> states c2 ! i = states c1 ! i) \<and>
    (is_halted c1 \<longrightarrow> is_halted c2 \<and>
      (at_state c1 i = Pending \<longrightarrow> at_state c2 i = Pending \<or> at_state c2 i = Cancelled))"
proof -
  have ok: "coord_ok c1" using graph_run.reachable_inv [of lib c c1] assms(1-3) by blast
  have "length (states c2) = length (states c1) \<and> coord_ok c2 \<and>
      (final (at_state c1 i) \<longrightarrow> states c2 ! i = states c1 ! i) \<and>
      (is_halted c1 \<longrightarrow> is_halted c2 \<and>
        (at_state c1 i = Pending \<longrightarrow> at_state c2 i = Pending \<or> at_state c2 i = Cancelled))"
    using assms(4)
  proof (induction rule: rtranclp_induct)
    case (step u v)
    have m: "coord_move lib u v" using step_moves [OF step.hyps(2)] step.IH by (simp add: coord_ok_def)
    have len: "i < length (states u)" using step.IH assms(5) by simp
    have "at_state u i = Cancelled \<Longrightarrow> at_state v i = Cancelled"
      using move_final [OF m len] by (simp add: final_def halting_def at_state_def)
    moreover have "final (at_state c1 i) \<Longrightarrow> states v ! i = states c1 ! i"
      using move_final [OF m len] step.IH by (simp add: at_state_def)
    ultimately show ?case
      using step.IH move_length [OF m] move_ok [OF m] move_halted [OF m] move_halted_pending [OF m _ len]
      by auto
  qed (use ok in simp)
  then show ?thesis by blast
qed

text \<open>
  C30. A run of the coordinator ends: of the operations called in any order at most two per node
  can change its state.
\<close>

theorem runs_end:
  assumes "plan_ok p" and "coordinator_new lib p source mode = Inr c"
    and "((\<lambda>u v. coord_step lib u v \<and> v \<noteq> u) ^^ n) c c'"
  shows "n \<le> 2 * length (plan_nodes p)"
proof -
  have start: "coord_ok c" "plan c = p" using coordinator_new_ok [OF assms(2,1)] by auto
  have count: "((\<lambda>u v. coord_step lib u v \<and> v \<noteq> u) ^^ n) c c' \<Longrightarrow> coord_ok c' \<and> n + work c' \<le> work c" for n c'
  proof (induction n arbitrary: c')
    case (Suc n)
    then obtain u where u: "((\<lambda>u v. coord_step lib u v \<and> v \<noteq> u) ^^ n) c u"
      and uv: "coord_step lib u c'" "c' \<noteq> u" by auto
    have ok: "coord_ok u" "n + work u \<le> work c" using Suc.IH [OF u] by auto
    then have "coord_move lib u c'" using step_moves [OF uv(1)] by (simp add: coord_ok_def)
    then have "work c' < work u" using move_work uv(2) by blast
    then show ?case using ok step_ok [OF ok(1) uv(1)] by simp
  qed (use start in simp)
  have "work_left s \<le> 2" for s by (cases s) simp_all
  then have "work c \<le> sum_list (map (\<lambda>_. 2) (states c))" unfolding work_def by (intro sum_list_mono)
  then have "work c \<le> 2 * length (states c)" by (simp add: sum_list_triv)
  then show ?thesis using count [OF assms(3)] start by (simp add: coord_ok_def sized_def)
qed



section \<open>Witnesses\<close>

text \<open>
  The plan of two human nodes, \<open>b\<close> after \<open>a\<close>: \<open>a\<close> is asked and answered with 7,
  then \<open>b\<close> is asked. The library reads and dumps the texts of this run.
\<close>

definition value_text :: bytes where
  "value_text = ''{\"value\":7}''"

definition value_doc :: json where
  "value_doc = JObj [(''value'', JInt 7)]"

definition asked_text :: bytes where
  "asked_text = ''{\"nodes\":[{\"id\":\"b\",\"state\":\"pending\"},'' @
     ''{\"id\":\"a\",\"output\":7,\"state\":\"completed\"}],\"spec\":'' @ graph_text @ '',\"version\":1}''"

definition asked_doc :: json where
  "asked_doc = JObj [(''nodes'', JArr [
       JObj [(''id'', JStr ''b''), (''state'', JStr ''pending'')],
       JObj [(''id'', JStr ''a''), (''output'', JInt 7), (''state'', JStr ''completed'')]]),
     (''spec'', graph_doc), (''version'', JInt 1)]"

definition asked_tree :: raw_tree where
  "asked_tree = Raw_object [(''nodes'', Raw_array [
       Raw_object [(''id'', Raw_scalar), (''state'', Raw_scalar)],
       Raw_object [(''id'', Raw_scalar), (''output'', Raw_scalar), (''state'', Raw_scalar)]]),
     (''spec'', graph_tree), (''version'', Raw_scalar)]"

definition coord_lib :: json_lib where
  "coord_lib = \<lparr>
     sax = (\<lambda>bs. if bs = graph_text then (events 0 graph_tree, Some graph_doc)
       else if bs = value_text then (events 0 (Raw_object [(''value'', Raw_scalar)]), Some value_doc)
       else if bs = asked_text then (events 0 asked_tree, Some asked_doc)
       else if bs = ''7'' then ([(0, Value)], Some (JInt 7))
       else if bs = ''{}'' then (events 0 (Raw_object []), Some (JObj []))
       else ([], None)),
     dump = (\<lambda>v. if v = graph_doc then Some graph_text else if v = JInt 7 then Some ''7''
       else if v = JObj [] then Some ''{}'' else if v = asked_doc then Some asked_text else None),
     same = (=)\<rparr>"

definition demo :: "node_state \<Rightarrow> node_record \<Rightarrow> coordinator" where
  "demo s r = \<lparr>plan = sample_plan, states = [\<lparr>state = s, node_output = []\<rparr>, r]\<rparr>"

definition answered :: node_record where
  "answered = \<lparr>state = Completed, node_output = ''7''\<rparr>"

lemma text_heads: "graph_text \<noteq> value_text" "asked_text \<noteq> graph_text" "asked_text \<noteq> value_text"
  "graph_text \<noteq> ''7''" "graph_text \<noteq> ''{}''" "value_text \<noteq> ''7''" "value_text \<noteq> ''{}''"
  "asked_text \<noteq> ''7''" "asked_text \<noteq> ''{}''"
  by (simp_all add: graph_text_def value_text_def asked_text_def)

lemma doc_heads: "graph_doc \<noteq> JInt 7" "graph_doc \<noteq> JObj []" "asked_doc \<noteq> graph_doc"
  "asked_doc \<noteq> JInt 7" "asked_doc \<noteq> JObj []"
  by (simp_all add: graph_doc_def asked_doc_def)

lemma coord_sax: "sax coord_lib graph_text = (events 0 graph_tree, Some graph_doc)"
  "sax coord_lib value_text = (events 0 (Raw_object [(''value'', Raw_scalar)]), Some value_doc)"
  "sax coord_lib asked_text = (events 0 asked_tree, Some asked_doc)"
  "sax coord_lib ''7'' = ([(0, Value)], Some (JInt 7))"
  "sax coord_lib ''{}'' = (events 0 (Raw_object []), Some (JObj []))"
  by (simp_all add: coord_lib_def text_heads text_heads [symmetric])

lemma coord_dump: "dump coord_lib graph_doc = Some graph_text" "dump coord_lib (JInt 7) = Some ''7''"
  "dump coord_lib (JObj []) = Some ''{}''" "dump coord_lib asked_doc = Some asked_text"
  by (simp_all add: coord_lib_def doc_heads doc_heads [symmetric])

lemma coord_dumps: "dump coord_lib v = Some s \<Longrightarrow>
    (v = graph_doc \<and> s = graph_text) \<or> (v = JInt 7 \<and> s = ''7'') \<or> (v = JObj [] \<and> s = ''{}'') \<or>
    (v = asked_doc \<and> s = asked_text)"
  by (auto simp: coord_lib_def split: if_splits)

lemma compact_texts: "compact_scan (False, False) value_text = value_text"
  "compact_scan (False, False) asked_text = asked_text"
  by code_simp+

lemma text_sizes: "length value_text \<le> 1000" "length asked_text \<le> 1000" "value_text \<noteq> []" "asked_text \<noteq> []"
  by (simp_all add: value_text_def asked_text_def graph_text_def)

lemma tree_events: "foldE parse_event [] (events 0 (Raw_object [(''value'', Raw_scalar)])) = Inr []"
  "foldE parse_event [] (events 0 asked_tree) = Inr []"
  by (simp_all add: asked_tree_def graph_tree_def)

lemma coord_parse:
  "limit \<ge> 1000 \<Longrightarrow> parse_object coord_lib graph_text limit = Inr graph_doc"
  "limit \<ge> 1000 \<Longrightarrow> parse_object coord_lib value_text limit = Inr value_doc"
  "limit \<ge> 1000 \<Longrightarrow> parse_object coord_lib asked_text limit = Inr asked_doc"
  using text_sizes graph_text_small
  by (simp_all add: parse_object_def need_def mcp_compact_object_def parameters_def mcp_parse_def
    coord_sax tree_events graph_events graph_text_compact compact_texts message_limit_def json_text_def
    graph_doc_def value_doc_def asked_doc_def)

lemma coord_output: "output_value coord_lib ''7'' = Inr (JInt 7)"
proof -
  have "''{\"value\":'' @ ''7'' @ ''}'' = value_text" by (simp add: value_text_def)
  then show ?thesis
    unfolding output_value_def
    by (simp add: need_def coord_parse) (simp add: value_doc_def only_fields_def json_access need_def)
qed

lemma demo_index: "graph_index sample_plan ''b'' = Inr 0" "graph_index sample_plan ''a'' = Inr 1"
  by (simp_all add: graph_index_def sample_plan_def blank_node_def upt_rec)

lemma demo_new: "coordinator_new coord_lib sample_plan [] mode = Inr (demo Pending \<lparr>state = Pending, node_output = []\<rparr>)"
  by (simp add: coordinator_new_def demo_def sample_plan_def numeral_2_eq_2)

lemmas demo_eval = demo_def at_state_def sample_plan_def blank_node_def answered_def

lemma demo_ready_a: "inspect coord_lib (demo Pending \<lparr>state = Pending, node_output = []\<rparr>) =
    Inr \<lparr>ready = [''a''], skippable = [], waiting = [], running = [], finished = False, halted = False\<rparr>"
proof -
  let ?c = "demo Pending \<lparr>state = Pending, node_output = []\<rparr>"
  have "eligible coord_lib ?c 0 = Inr None" "eligible coord_lib ?c 1 = Inr (Some False)"
    using demo_index by (simp_all add: eligible_def demo_eval Let_def)
  moreover have "is_halted ?c = False" by (simp add: is_halted_def halting_def demo_eval)
  ultimately show ?thesis
    by (simp add: inspect_def inspect_node_def Let_def demo_eval upt_rec)
qed

lemma demo_parts: "plan (demo s r) = sample_plan" "states (demo s r) = [\<lparr>state = s, node_output = []\<rparr>, r]"
  "at_state (demo s r) 0 = s" "at_state (demo s r) (Suc 0) = state r" "at_state (demo s r) 1 = state r"
  by (simp_all add: demo_def at_state_def)

lemma demo_set: "set_state (demo s r) 0 s' = demo s' r" "set_state (demo s r) (Suc 0) s' = demo s (r\<lparr>state := s'\<rparr>)"
  by (simp_all add: demo_def set_state_def)

lemma answered_parts: "state answered = Completed" "node_output answered = ''7''"
  by (simp_all add: answered_def)

lemma demo_nodes: "plan_nodes sample_plan = [sample_b, sample_a]"
  "node_deps sample_b = [''a'']" "node_deps sample_a = []" "node_kind sample_b = Human_node"
  "node_kind sample_a = Human_node" "node_id sample_b = ''b''" "node_id sample_a = ''a''"
  by (simp_all add: sample_plan_def sample_b_def sample_a_def blank_node_def)

lemma demo_start_a: "start coord_lib (demo Pending \<lparr>state = Pending, node_output = []\<rparr>) ''a'' =
    (demo Pending \<lparr>state = Waiting_human, node_output = []\<rparr>,
     Inr \<lparr>prepared = sample_a, dependency_outputs = ''{}''\<rparr>)"
  using demo_index
  by (simp add: start_def start_node_def admit_def demo_ready_a resolved_arguments_def demo_set
    demo_parts demo_nodes dumpG_def coord_dump)

lemma demo_answer: "provide_human coord_lib (demo Pending \<lparr>state = Waiting_human, node_output = []\<rparr>) ''a'' ''7'' =
    Inr (demo Pending answered)"
  using demo_index
  by (simp add: provide_human_def put_output_def coord_output dumpG_def coord_dump need_def
    other_bytes_def demo_parts) (simp add: demo_def answered_def)

lemma demo_ready_b: "inspect coord_lib (demo Pending answered) =
    Inr \<lparr>ready = [''b''], skippable = [], waiting = [], running = [], finished = False, halted = False\<rparr>"
proof -
  have "eligible coord_lib (demo Pending answered) 0 = Inr (Some False)"
    using demo_index coord_output by (simp add: eligible_def demo_eval Let_def)
  moreover have "is_halted (demo Pending answered) = False"
    by (simp add: is_halted_def halting_def demo_eval)
  ultimately show ?thesis
    by (simp add: inspect_def inspect_node_def Let_def demo_eval upt_rec)
qed

lemma demo_start_b: "fst (start coord_lib (demo Pending answered) ''b'') = demo Waiting_human answered"
  using demo_index coord_output
  by (simp add: start_def start_node_def admit_def demo_ready_b resolved_arguments_def demo_set
    demo_parts demo_nodes answered_parts)

lemma demo_steps:
  "coord_step coord_lib (demo Pending \<lparr>state = Pending, node_output = []\<rparr>)
     (demo Pending \<lparr>state = Waiting_human, node_output = []\<rparr>)"
  "coord_step coord_lib (demo Pending \<lparr>state = Waiting_human, node_output = []\<rparr>) (demo Pending answered)"
  "coord_step coord_lib (demo Pending answered) (demo Waiting_human answered)"
  by (rule step_start [OF demo_start_a], rule step_provide [OF demo_answer],
      rule step_start [of _ _ "''b''" _ "snd (start coord_lib (demo Pending answered) ''b'')"],
      simp add: demo_start_b [symmetric])

lemma graph_demo_run:
  "(coord_step coord_lib)\<^sup>*\<^sup>* (demo Pending \<lparr>state = Pending, node_output = []\<rparr>) (demo Pending answered)"
  "(coord_step coord_lib)\<^sup>*\<^sup>* (demo Pending answered) (demo Waiting_human answered)"
  using demo_steps by (blast intro: rtranclp.rtrancl_into_rtrancl)+

lemma graph_demo_run_all:
  "(coord_step coord_lib)\<^sup>*\<^sup>* (demo Pending \<lparr>state = Pending, node_output = []\<rparr>)
     (demo Waiting_human answered)"
  using graph_demo_run by (rule rtranclp_trans)

lemma demo_plan_at: "plan_at coord_lib 4 graph_text \<lparr>total_nodes = 0, pinned = []\<rparr> =
    Inr (sample_plan, \<lparr>total_nodes = 2, pinned = []\<rparr>)"
  by (rule sample_plan_at_lib) (simp_all add: coord_parse coord_dump)

lemma demo_plan_ok: "plan_ok sample_plan"
  using plan_at_keeps [OF demo_plan_at] by (simp add: budget_ok_def)

lemma demo_checkpoint: "checkpoint coord_lib (demo Pending answered) = Inr asked_text"
proof -
  have "JObj [(''nodes'', JArr [
       JObj [(''id'', JStr ''b''), (''state'', JStr ''pending'')],
       JObj [(''id'', JStr ''a''), (''output'', JInt 7), (''state'', JStr ''completed'')]]),
     (''spec'', graph_doc), (''version'', JInt 1)] = asked_doc" by (simp add: asked_doc_def)
  moreover have "length asked_text \<le> 1048576" using text_sizes by simp
  ultimately show ?thesis
    by (simp add: checkpoint_def node_json_def demo_eval coord_output parseG_def json_text_def coord_sax
      dumpG_def coord_dump need_def)
qed

lemma unread_value:
  assumes "sax coord_lib (''{\"value\":'' @ s @ ''}'') = ([], None)"
  shows "output_value coord_lib s \<noteq> Inr w"
  using assms by (auto simp: output_value_def parse_object_def mcp_compact_object_def parameters_def
      mcp_parse_def result_simps split: sum.splits if_splits)

lemma demo_reads: "reads_outputs coord_lib"
proof -
  have "output_value coord_lib graph_text \<noteq> Inr w" "output_value coord_lib ''{}'' \<noteq> Inr w"
    "output_value coord_lib asked_text \<noteq> Inr w" for w
    by (rule unread_value, simp add: coord_lib_def graph_text_def value_text_def asked_text_def)+
  then show ?thesis unfolding reads_outputs_def using coord_dumps coord_output by fastforce
qed

lemma demo_reads_back: "dump coord_lib v = Some s \<Longrightarrow> json_text coord_lib s = Some v"
  by (drule coord_dumps) (auto simp: json_text_def coord_sax)

lemma demo_reparsed: "dump coord_lib v = Some asked_text \<Longrightarrow> parse_object coord_lib asked_text 1048576 = Inr v"
  by (drule coord_dumps) (auto simp: text_heads coord_parse)

theorem operations_refine_moves_witness:
  "coord_move coord_lib (demo Pending answered) (demo Waiting_human answered)"
  by (rule operations_refine_moves [OF demo_steps(3)])
    (use demo_plan_ok in \<open>simp_all add: demo_def sample_plan_def\<close>)

theorem dependencies_before_work_witness:
  "(1, 0) \<in> precedes (plan_nodes sample_plan) \<and> at_state (demo Waiting_human answered) 1 = Completed"
proof -
  have "(1, 0) \<in> precedes (plan_nodes sample_plan)" by (simp add: precedes_def sample_plan_def blank_node_def)
  moreover have "started (at_state (demo Waiting_human answered) 0)" by (simp add: started_def demo_eval)
  ultimately show ?thesis
    using dependencies_before_work [OF demo_plan_ok demo_new graph_demo_run_all, of 0] by (simp add: demo_def)
qed

theorem final_states_stay_witness:
  "states (demo Waiting_human answered) ! 1 = states (demo Pending answered) ! 1"
  using final_states_stay [OF demo_plan_ok demo_new graph_demo_run, of 1]
  by (simp add: final_def settled_def demo_eval)

theorem runs_end_witness: "(1 :: nat) \<le> 2 * length (plan_nodes sample_plan)"
proof (rule runs_end [OF demo_plan_ok demo_new])
  have "demo Pending \<lparr>state = Waiting_human, node_output = []\<rparr> \<noteq>
      demo Pending \<lparr>state = Pending, node_output = []\<rparr>" by (simp add: demo_def)
  then show "((\<lambda>u v. coord_step coord_lib u v \<and> v \<noteq> u) ^^ 1)
      (demo Pending \<lparr>state = Pending, node_output = []\<rparr>)
      (demo Pending \<lparr>state = Waiting_human, node_output = []\<rparr>)"
    unfolding relpowp_1 using demo_steps(1) by blast
qed



end
