(* ===== verification/File_Patch.thy ===== *)
theory File_Patch
  imports XM_Prelude
begin

text \<open>
  \<open>file_patch.cpp\<close>: the parser of the patch language and the preparation of a file update.
  A parse position is the list of the lines before the end marker that are left; a text offset is
  a number. Cancellation is polled: \<open>polls k\<close> is what the \<open>k\<close>-th poll of the stop token
  answers, and the count is threaded through the loops.
\<close>

section \<open>Text\<close>

datatype patch_error = Patch_invalid bytes | Patch_conflict bytes | Patch_cancelled

definition patch_need :: "bool \<Rightarrow> bytes \<Rightarrow> patch_error + unit" where
  "patch_need b message = guardE b (Patch_invalid message)"

text \<open>The lead byte of a sequence: continuation bytes, first bits, least code it may encode.\<close>

definition utf8_lead :: "nat \<Rightarrow> (nat \<times> nat \<times> nat) option" where
  "utf8_lead b =
     (if 0xC2 \<le> b \<and> b \<le> 0xDF then Some (1, b mod 32, 0x80)
      else if 0xE0 \<le> b \<and> b \<le> 0xEF then Some (2, b mod 16, 0x800)
      else if 0xF0 \<le> b \<and> b \<le> 0xF4 then Some (3, b mod 8, 0x10000)
      else None)"

definition code_ok :: "nat \<Rightarrow> nat \<Rightarrow> bool" where
  "code_ok least v \<longleftrightarrow> least \<le> v \<and> v \<le> 0x10FFFF \<and> \<not> (0xD800 \<le> v \<and> v \<le> 0xDFFF)"

text \<open>The loop over the continuation bytes; none where a byte is missing or is not one.\<close>

fun utf8_tail :: "nat \<Rightarrow> nat \<Rightarrow> bytes \<Rightarrow> (nat \<times> bytes) option" where
  "utf8_tail 0 v s = Some (v, s)"
| "utf8_tail (Suc n) v [] = None"
| "utf8_tail (Suc n) v (c # cs) =
     (if byte c div 64 \<noteq> 2 then None else utf8_tail n (v * 64 + byte c mod 64) cs)"

lemma utf8_tail_length: "utf8_tail n v s = Some (w, r) \<Longrightarrow> length r \<le> length s"
  by (induction n v s rule: utf8_tail.induct) (auto split: if_splits)

function text_valid :: "bytes \<Rightarrow> patch_error + unit" where
  "text_valid s =
     (case s of [] \<Rightarrow> Inr ()
      | c # cs \<Rightarrow>
        if byte c = 0 then Inl (Patch_invalid ''Patch text contains a NUL byte'')
        else if byte c < 128 then text_valid cs
        else (case utf8_lead (byte c) of
            None \<Rightarrow> Inl (Patch_invalid ''Patch text is not UTF-8'')
          | Some (extra, v, least) \<Rightarrow>
            (case utf8_tail extra v cs of
              None \<Rightarrow> Inl (Patch_invalid ''Patch text is not UTF-8'')
            | Some (w, rest) \<Rightarrow> if code_ok least w then text_valid rest
                else Inl (Patch_invalid ''Patch text is not UTF-8''))))"
  by pat_completeness auto
termination
  by (relation "measure length") (auto dest!: utf8_tail_length)

declare text_valid.simps [simp del]

abbreviation line_feed :: char where
  "line_feed \<equiv> CHR 0x0A"

record source_line =
  line_text :: bytes
  line_start :: nat
  line_next :: nat

definition strip_return :: "bytes \<Rightarrow> bytes" where
  "strip_return s = (if s \<noteq> [] \<and> last s = CHR 0x0D then butlast s else s)"

lemma dropWhile_shorter: "dropWhile P s = c # cs \<Longrightarrow> length cs < length s"
  using length_dropWhile_le [of P s] by simp

function split_lines :: "nat \<Rightarrow> bytes \<Rightarrow> source_line list" where
  "split_lines start s =
     (if s = [] then []
      else let content = takeWhile (\<lambda>c. c \<noteq> line_feed) s in
        (case dropWhile (\<lambda>c. c \<noteq> line_feed) s of
           [] \<Rightarrow> [\<lparr>line_text = content, line_start = start, line_next = start + length content\<rparr>]
         | c # cs \<Rightarrow> \<lparr>line_text = strip_return content, line_start = start,
               line_next = start + length content + 1\<rparr>
             # split_lines (start + length content + 1) cs))"
  by pat_completeness auto
termination
  by (relation "measure (\<lambda>(start, s). length s)") (auto dest!: dropWhile_shorter)

declare split_lines.simps [simp del]

definition bad_component :: "bytes \<Rightarrow> bool" where
  "bad_component part \<longleftrightarrow> part = [] \<or> part = ''.'' \<or> part = ''..'' \<or> last part = CHR ''.'' \<or> last part = CHR '' ''"

definition path_name :: "bytes \<Rightarrow> patch_error + bytes" where
  "path_name raw =
     bindE (patch_need (raw \<noteq> [] \<and> length raw \<le> 4096) ''Invalid patch path'') (\<lambda>_.
     let path = map (\<lambda>c. if c = CHR 0x5C then CHR ''/'' else c) raw in
     bindE (patch_need (hd path \<noteq> CHR ''/'' \<and> last path \<noteq> CHR ''/'')
       ''Patch paths must name relative files'') (\<lambda>_.
     bindE (patch_need (list_all (\<lambda>c. 32 \<le> byte c \<and> byte c \<noteq> 127 \<and> c \<noteq> CHR '':'') path)
       ''Invalid patch path'') (\<lambda>_.
     bindE (patch_need (list_all (\<lambda>p. \<not> bad_component p) (split_on CHR ''/'' path))
       ''Invalid patch path component'') (\<lambda>_. Inr path))))"

definition fold_char :: "char \<Rightarrow> char" where
  "fold_char c = (if 65 \<le> byte c \<and> byte c \<le> 90 then char_of (byte c - 65 + 97) else c)"

definition folded :: "bytes \<Rightarrow> bytes" where
  "folded = map fold_char"

definition patch_header :: "bytes \<Rightarrow> bool" where
  "patch_header line \<longleftrightarrow> starts_with line ''*** ''"

section \<open>Parsing\<close>

datatype patch_action = Patch_add | Patch_remove | Patch_update

record chunk_line =
  chunk_kind :: char
  chunk_text :: bytes

record patch_chunk =
  anchor :: bytes
  chunk_lines :: "chunk_line list"
  end_of_file :: bool

record file_patch =
  patch_action :: patch_action
  patch_path :: bytes
  move_to :: bytes
  added :: bytes
  chunks :: "patch_chunk list"

fun added_lines :: "bytes \<Rightarrow> bytes list \<Rightarrow> patch_error + bytes \<times> bytes list" where
  "added_lines content [] = Inr (content, [])"
| "added_lines content (line # body) =
     (if patch_header line then Inr (content, line # body)
      else if line = [] \<or> hd line \<noteq> CHR ''+'' then Inl (Patch_invalid ''Invalid added-file line'')
      else added_lines (content @ tl line @ [line_feed]) body)"

definition chunk_start :: "bytes \<Rightarrow> bool" where
  "chunk_start line \<longleftrightarrow> line = ''@@'' \<or> starts_with line ''@@ ''"

fun change_lines :: "chunk_line list \<Rightarrow> bytes list \<Rightarrow> patch_error + chunk_line list \<times> bytes list" where
  "change_lines found [] = Inr (found, [])"
| "change_lines found (line # body) =
     (if patch_header line \<or> chunk_start line then Inr (found, line # body)
      else if line = [] \<or> (hd line \<noteq> CHR '' '' \<and> hd line \<noteq> CHR ''+'' \<and> hd line \<noteq> CHR ''-'')
      then Inl (Patch_invalid ''Invalid update line'')
      else change_lines (found @ [\<lparr>chunk_kind = hd line, chunk_text = tl line\<rparr>]) body)"

definition chunk_anchor :: "bytes list \<Rightarrow> bytes \<times> bytes list" where
  "chunk_anchor body =
     (case body of [] \<Rightarrow> ([], [])
      | line # rest \<Rightarrow> if line = ''@@'' then ([], rest)
          else if starts_with line ''@@ '' then (drop 3 line, rest) else ([], body))"

definition chunk_end :: "bytes list \<Rightarrow> bool \<times> bytes list" where
  "chunk_end body =
     (case body of [] \<Rightarrow> (False, [])
      | line # rest \<Rightarrow> if line = ''*** End of File'' then (True, rest) else (False, body))"

definition parse_chunk :: "bytes list \<Rightarrow> patch_error + patch_chunk \<times> bytes list" where
  "parse_chunk body =
     (let (name, body1) = chunk_anchor body in
      bindE (change_lines [] body1) (\<lambda>(found, body2).
      bindE (patch_need (list_ex (\<lambda>l. chunk_kind l \<noteq> CHR '' '') found) ''Patch chunk has no changes'') (\<lambda>_.
      Inr (\<lparr>anchor = name, chunk_lines = found, end_of_file = fst (chunk_end body2)\<rparr>,
        snd (chunk_end body2)))))"

lemma change_lines_rest:
  "change_lines found body = Inr (found', rest) \<Longrightarrow>
     length rest \<le> length body \<and> (found' \<noteq> found \<longrightarrow> length rest < length body)"
  by (induction found body rule: change_lines.induct) (fastforce split: if_splits)+

lemma parse_chunk_rest:
  assumes "parse_chunk body = Inr (chunk, rest)"
  shows "length rest < length body"
proof -
  obtain name body1 found body2 where a: "chunk_anchor body = (name, body1)"
    and c: "change_lines [] body1 = Inr (found, body2)"
    and some: "list_ex (\<lambda>l. chunk_kind l \<noteq> CHR '' '') found"
    and e: "rest = snd (chunk_end body2)"
    using assms by (auto simp: parse_chunk_def patch_need_def result_simps split: prod.splits if_splits)
  have "length body1 \<le> length body" using a by (auto simp: chunk_anchor_def split: list.splits if_splits)
  moreover have "length body2 < length body1" using change_lines_rest [OF c] some by (cases found) auto
  moreover have "length rest \<le> length body2" by (auto simp: e chunk_end_def split: list.splits)
  ultimately show ?thesis by simp
qed

text \<open>The chunks of an updated file; \<open>count\<close> counts the chunks of the whole patch.\<close>

function update_chunks :: "nat \<Rightarrow> patch_chunk list \<Rightarrow> bytes list \<Rightarrow>
    patch_error + nat \<times> patch_chunk list \<times> bytes list" where
  "update_chunks count found body =
     (if body = [] \<or> patch_header (hd body) then Inr (count, found, body)
      else if length found \<ge> 256 \<or> count + 1 > 1024
      then Inl (Patch_invalid ''Patch contains too many chunks'')
      else bindE (parse_chunk body) (\<lambda>(chunk, rest). update_chunks (count + 1) (found @ [chunk]) rest))"
  by pat_completeness auto
termination
  by (relation "measure (\<lambda>(count, found, body). length body)") (auto dest!: parse_chunk_rest)

declare update_chunks.simps [simp del]

definition reserve_path :: "bytes set \<Rightarrow> bytes \<Rightarrow> patch_error + bytes set" where
  "reserve_path paths path =
     bindE (patch_need (folded path \<notin> paths) ''A patch path is used more than once'')
       (\<lambda>_. Inr (insert (folded path) paths))"

definition file_title :: "bytes \<Rightarrow> patch_error + patch_action \<times> bytes" where
  "file_title title =
     (if starts_with title ''*** Add File: '' then bindE (path_name (drop 14 title)) (\<lambda>p. Inr (Patch_add, p))
      else if starts_with title ''*** Delete File: ''
      then bindE (path_name (drop 17 title)) (\<lambda>p. Inr (Patch_remove, p))
      else if starts_with title ''*** Update File: ''
      then bindE (path_name (drop 17 title)) (\<lambda>p. Inr (Patch_update, p))
      else Inl (Patch_invalid ''Invalid patch file header''))"

definition move_target :: "bytes set \<Rightarrow> bytes list \<Rightarrow> patch_error + bytes \<times> bytes set \<times> bytes list" where
  "move_target paths body =
     (if body \<noteq> [] \<and> starts_with (hd body) ''*** Move to: ''
      then bindE (path_name (drop 13 (hd body))) (\<lambda>p.
        bindE (reserve_path paths p) (\<lambda>paths1. Inr (p, paths1, tl body)))
      else Inr ([], paths, body))"

definition parse_file :: "bytes set \<Rightarrow> nat \<Rightarrow> bytes \<Rightarrow> bytes list \<Rightarrow>
    patch_error + file_patch \<times> bytes set \<times> nat \<times> bytes list" where
  "parse_file paths count title body =
     bindE (file_title title) (\<lambda>(act, p).
     bindE (reserve_path paths p) (\<lambda>paths1.
     let file = \<lparr>patch_action = act, patch_path = p, move_to = [], added = [], chunks = []\<rparr> in
     case act of
       Patch_remove \<Rightarrow> Inr (file, paths1, count, body)
     | Patch_add \<Rightarrow> bindE (added_lines [] body) (\<lambda>(content, rest).
         Inr (file\<lparr>added := content\<rparr>, paths1, count, rest))
     | Patch_update \<Rightarrow> bindE (move_target paths1 body) (\<lambda>(target, paths2, body1).
         bindE (update_chunks count [] body1) (\<lambda>(count1, found, rest).
         bindE (patch_need (found \<noteq> []) ''Updated file has no chunks'') (\<lambda>_.
         Inr (file\<lparr>move_to := target, chunks := found\<rparr>, paths2, count1, rest))))))"

lemma added_lines_rest: "added_lines content body = Inr (out, rest) \<Longrightarrow> length rest \<le> length body"
  by (induction content body rule: added_lines.induct) (auto split: if_splits)

lemma update_chunks_rest:
  "update_chunks count found body = Inr (count', found', rest) \<Longrightarrow> length rest \<le> length body"
proof (induction count found body rule: update_chunks.induct)
  case (1 count found body)
  show ?case
  proof (cases "body = [] \<or> patch_header (hd body)")
    case True
    then show ?thesis using 1(2) by (simp add: update_chunks.simps [of count found body])
  next
    case False
    then obtain chunk rest1 where "parse_chunk body = Inr (chunk, rest1)"
      and "update_chunks (count + 1) (found @ [chunk]) rest1 = Inr (count', found', rest)"
      and "\<not> (length found \<ge> 256 \<or> count + 1 > 1024)"
      using 1(2) by (auto simp: update_chunks.simps [of count found body] result_simps split: if_splits)
    then show ?thesis using 1(1) False parse_chunk_rest [of body chunk rest1] by fastforce
  qed
qed

lemma parse_file_rest: "parse_file paths count title body = Inr (file, paths', count', rest) \<Longrightarrow>
    length rest \<le> length body"
  by (auto simp: parse_file_def move_target_def Let_def result_simps dest!: added_lines_rest
      update_chunks_rest split: patch_action.splits if_splits) (metis patch_action.exhaust)+

function parse_files :: "file_patch list \<Rightarrow> bytes set \<Rightarrow> nat \<Rightarrow> bytes list \<Rightarrow> patch_error + file_patch list" where
  "parse_files found paths count body =
     (case body of [] \<Rightarrow> Inr found
      | title # body1 \<Rightarrow>
        if length found \<ge> 128 then Inl (Patch_invalid ''Patch contains too many files'')
        else bindE (parse_file paths count title body1) (\<lambda>(file, paths1, count1, rest).
          parse_files (found @ [file]) paths1 count1 rest))"
  by pat_completeness auto
termination
  by (relation "measure (\<lambda>(found, paths, count, body). length body)") (auto dest!: parse_file_rest)

declare parse_files.simps [simp del]

definition parse_file_patch :: "bytes \<Rightarrow> patch_error + file_patch list" where
  "parse_file_patch source =
     bindE (patch_need (source \<noteq> [] \<and> length source \<le> 65536) ''Patch exceeds input bounds'') (\<lambda>_.
     bindE (text_valid source) (\<lambda>_.
     let lines = map line_text (split_lines 0 source) in
     bindE (patch_need (length lines \<ge> 3 \<and> hd lines = ''*** Begin Patch'' \<and> last lines = ''*** End Patch'')
       ''Patch envelope is invalid'') (\<lambda>_.
     bindE (parse_files [] {} 0 (butlast (tl lines))) (\<lambda>files.
     bindE (patch_need (files \<noteq> []) ''Patch contains no files'') (\<lambda>_. Inr files)))))"

section \<open>Preparing an update\<close>

text \<open>
  The loop \<open>while (matched && byte != old[matched]) matched = prefix[matched - 1]\<close>. That it ends
  is a property of the table, so a run that does not end is the value \<open>None\<close>, here and in the
  loops that use it.
\<close>

partial_function (option) fall_back :: "'a list \<Rightarrow> nat list \<Rightarrow> 'a \<Rightarrow> nat \<Rightarrow> nat option" where
  "fall_back old table c matched =
     (if matched \<noteq> 0 \<and> c \<noteq> old ! matched then fall_back old table c (table ! (matched - 1))
      else Some matched)"

declare fall_back.simps [code]

definition match_next :: "'a list \<Rightarrow> nat list \<Rightarrow> 'a \<Rightarrow> nat \<Rightarrow> nat option" where
  "match_next old table c matched =
     Option.bind (fall_back old table c matched) (\<lambda>k. Some (if c = old ! k then Suc k else k))"

text \<open>The table of \<open>old\<close>: entry \<open>n\<close> from the entries before it; entry 0 is 0.\<close>

fun table_loop :: "'a list \<Rightarrow> nat list \<Rightarrow> nat \<Rightarrow> 'a list \<Rightarrow> nat list option" where
  "table_loop old table matched [] = Some table"
| "table_loop old table matched (c # cs) =
     Option.bind (match_next old table c matched) (\<lambda>k. table_loop old (table @ [k]) k cs)"

definition prefix_table :: "'a list \<Rightarrow> nat list option" where
  "prefix_table old = table_loop old [0] 0 (tl old)"

definition poll :: "(nat \<Rightarrow> bool) \<Rightarrow> nat \<Rightarrow> patch_error + nat" where
  "poll polls k = (if polls k then Inl Patch_cancelled else Inr (Suc k))"

text \<open>
  The search for the context from a line on: \<open>n\<close> is the index of the next line, \<open>count\<close>
  the number of lines, \<open>found\<close> the location so far.
\<close>

fun search :: "(nat \<Rightarrow> bool) \<Rightarrow> bytes list \<Rightarrow> nat list \<Rightarrow> bool \<Rightarrow> nat \<Rightarrow> nat \<Rightarrow> nat \<Rightarrow> nat \<Rightarrow>
    nat option \<Rightarrow> bytes list \<Rightarrow> (patch_error + nat option \<times> nat) option" where
  "search polls old table eof count k n matched found [] = Some (Inr (found, k))"
| "search polls old table eof count k n matched found (line # lines) =
     (case poll polls k of Inl e \<Rightarrow> Some (Inl e)
      | Inr k1 \<Rightarrow>
        Option.bind (match_next old table line matched) (\<lambda>m.
          if m = length old then
            (if \<not> eof \<or> n + 1 = count then
               (if found \<noteq> None
                then Some (Inl (Patch_conflict ''Patch context matches more than one location''))
                else search polls old table eof count k1 (n + 1) (table ! (m - 1))
                  (Some (n + 1 - length old)) lines)
             else search polls old table eof count k1 (n + 1) (table ! (m - 1)) found lines)
          else search polls old table eof count k1 (n + 1) m found lines))"

definition old_lines :: "patch_chunk \<Rightarrow> bytes list" where
  "old_lines chunk = map chunk_text (filter (\<lambda>l. chunk_kind l \<noteq> CHR ''+'') (chunk_lines chunk))"

text \<open>Where the chunk applies, from line \<open>cursor\<close> on.\<close>

definition locate :: "(nat \<Rightarrow> bool) \<Rightarrow> nat \<Rightarrow> bytes list \<Rightarrow> nat \<Rightarrow> patch_chunk \<Rightarrow>
    (patch_error + nat \<times> nat) option" where
  "locate polls k lines cursor chunk =
     (let old = old_lines chunk in
      if old = [] then
        Some (if end_of_file chunk then Inr (length lines, k)
              else Inl (Patch_conflict ''Insertion requires explicit end-of-file context''))
      else Option.bind (prefix_table old) (\<lambda>table.
        Option.bind (search polls old table (end_of_file chunk) (length lines) k cursor 0 None
            (drop cursor lines)) (\<lambda>result.
          Some (bindE result (\<lambda>(found, k1).
            case found of None \<Rightarrow> Inl (Patch_conflict ''Patch context was not found'')
            | Some place \<Rightarrow> Inr (place, k1))))))"

definition seek_anchor :: "bytes list \<Rightarrow> nat \<Rightarrow> bytes \<Rightarrow> patch_error + nat" where
  "seek_anchor lines cursor name =
     (if name = [] then Inr cursor
      else case find (\<lambda>i. lines ! i = name) [cursor..<length lines] of
        None \<Rightarrow> Inl (Patch_conflict ''Patch anchor was not found'')
      | Some i \<Rightarrow> Inr (i + 1))"

definition append_file :: "bytes \<Rightarrow> bytes \<Rightarrow> patch_error + bytes" where
  "append_file after bs =
     bindE (patch_need (length bs \<le> 1048576 - length after) ''Patched file exceeds bounds'')
       (\<lambda>_. Inr (after @ bs))"

definition cut :: "bytes \<Rightarrow> nat \<Rightarrow> nat \<Rightarrow> bytes" where
  "cut s i j = take (j - i) (drop i s)"

text \<open>The replacement of a chunk placed at line \<open>at\<close>, and the line after the replaced ones.\<close>

fun replacement_loop :: "bytes \<Rightarrow> source_line list \<Rightarrow> bytes \<Rightarrow> bytes \<Rightarrow> nat \<Rightarrow> chunk_line list \<Rightarrow> bytes \<times> nat" where
  "replacement_loop before lines ending out at [] = (out, at)"
| "replacement_loop before lines ending out at (l # ls) =
     (if chunk_kind l = CHR ''+'' then
        replacement_loop before lines ending
          ((if out \<noteq> [] \<and> last out \<noteq> line_feed then out @ ending else out) @ chunk_text l @ ending) at ls
      else if chunk_kind l = CHR '' '' then
        replacement_loop before lines ending
          (out @ cut before (line_start (lines ! at)) (line_next (lines ! at))) (at + 1) ls
      else replacement_loop before lines ending out (at + 1) ls)"

definition ends_with :: "bytes \<Rightarrow> bytes \<Rightarrow> bool" where
  "ends_with s e \<longleftrightarrow> suffix e s"

definition unterminated :: "bytes \<Rightarrow> bool" where
  "unterminated s \<longleftrightarrow> s \<noteq> [] \<and> last s \<noteq> line_feed"

record update_state =
  after_bytes :: bytes
  cursor :: nat
  byte_cursor :: nat
  polled :: nat

definition place_chunk :: "bytes \<Rightarrow> source_line list \<Rightarrow> bytes \<Rightarrow> patch_chunk \<Rightarrow> nat \<Rightarrow> update_state \<Rightarrow>
    patch_error + update_state" where
  "place_chunk before lines ending chunk place st =
     (let start = (if place < length lines then line_start (lines ! place) else length before) in
      bindE (append_file (after_bytes st) (cut before (byte_cursor st) start)) (\<lambda>after.
      let (text, stop) = replacement_loop before lines ending [] place (chunk_lines chunk);
          text1 = (if stop = length lines \<and> unterminated before \<and> ends_with text ending
            then take (length text - length ending) text else text) in
      bindE (if old_lines chunk = [] \<and> unterminated after \<and> text1 \<noteq> []
             then append_file after ending else Inr after) (\<lambda>after1.
      bindE (append_file after1 text1) (\<lambda>after2.
      Inr \<lparr>after_bytes = after2, cursor = stop,
        byte_cursor = (if stop \<noteq> 0 then line_next (lines ! (stop - 1)) else start),
        polled = polled st\<rparr>))))"

definition apply_chunk :: "(nat \<Rightarrow> bool) \<Rightarrow> bytes \<Rightarrow> source_line list \<Rightarrow> bytes \<Rightarrow> patch_chunk \<Rightarrow>
    update_state \<Rightarrow> (patch_error + update_state) option" where
  "apply_chunk polls before lines ending chunk st =
     (case bindE (poll polls (polled st)) (\<lambda>k.
        bindE (seek_anchor (map line_text lines) (cursor st) (anchor chunk)) (\<lambda>i. Inr (k, i))) of
        Inl e \<Rightarrow> Some (Inl e)
      | Inr (k, i) \<Rightarrow>
        Option.bind (locate polls k (map line_text lines) i chunk) (\<lambda>result.
          Some (bindE result (\<lambda>(place, k1).
            place_chunk before lines ending chunk place (st\<lparr>polled := k1\<rparr>)))))"

fun apply_chunks :: "(nat \<Rightarrow> bool) \<Rightarrow> bytes \<Rightarrow> source_line list \<Rightarrow> bytes \<Rightarrow> update_state \<Rightarrow> patch_chunk list \<Rightarrow>
    (patch_error + update_state) option" where
  "apply_chunks polls before lines ending st [] = Some (Inr st)"
| "apply_chunks polls before lines ending st (chunk # rest) =
     Option.bind (apply_chunk polls before lines ending chunk st) (\<lambda>r.
       case r of Inl e \<Rightarrow> Some (Inl e) | Inr st1 \<Rightarrow> apply_chunks polls before lines ending st1 rest)"

definition file_ending :: "bytes \<Rightarrow> bytes" where
  "file_ending before = (if sublist [CHR 0x0D, line_feed] before then [CHR 0x0D, line_feed] else [line_feed])"

definition prepare_patch_update :: "(nat \<Rightarrow> bool) \<Rightarrow> bytes \<Rightarrow> file_patch \<Rightarrow> (patch_error + bytes) option" where
  "prepare_patch_update polls before patch =
     (case bindE (poll polls 0) (\<lambda>k.
        bindE (patch_need (patch_action patch = Patch_update \<and> chunks patch \<noteq> [] \<and>
          length before \<le> 1048576) ''Invalid patch update input'') (\<lambda>_.
        bindE (text_valid before) (\<lambda>_. Inr k))) of
        Inl e \<Rightarrow> Some (Inl e)
      | Inr k \<Rightarrow>
        Option.bind (apply_chunks polls before (split_lines 0 before) (file_ending before)
            \<lparr>after_bytes = [], cursor = 0, byte_cursor = 0, polled = k\<rparr> (chunks patch)) (\<lambda>r.
          Some (bindE r (\<lambda>st. append_file (after_bytes st) (drop (byte_cursor st) before)))))"

section \<open>The search finds the occurrences\<close>

text \<open>
  \<open>best old b s k\<close>: of the prefixes of \<open>old\<close> of length at most \<open>b\<close>, the one of
  length \<open>k\<close> is the longest that the text \<open>s\<close> read so far ends with.
\<close>

definition best :: "'a list \<Rightarrow> nat \<Rightarrow> 'a list \<Rightarrow> nat \<Rightarrow> bool" where
  "best old b s k \<longleftrightarrow> k \<le> b \<and> suffix (take k old) s \<and> (\<forall>j \<le> b. suffix (take j old) s \<longrightarrow> j \<le> k)"

definition table_ok :: "'a list \<Rightarrow> nat list \<Rightarrow> nat \<Rightarrow> bool" where
  "table_ok old table n \<longleftrightarrow> n \<le> length table \<and> (\<forall>t < n. best old t (take (Suc t) old) (table ! t))"

lemma suffix_take_chain:
  assumes "suffix (take i old) s" and "suffix (take k old) s" and "i \<le> k"
  shows "suffix (take i old) (take k old)"
  using suffix_length_suffix [OF assms(1,2)] assms(3) by simp

lemma fall_back_best:
  assumes "table_ok old table k" and "k < length old" and "suffix (take k old) s"
    and "\<forall>i < length old. suffix (take i old) s \<and> old ! i = c \<longrightarrow> i \<le> k"
  shows "\<exists>i. fall_back old table c k = Some i \<and> i \<le> k \<and> suffix (take i old) s \<and> (i = 0 \<or> old ! i = c) \<and>
    (\<forall>j < length old. suffix (take j old) s \<and> old ! j = c \<longrightarrow> j \<le> i)"
  using assms
proof (induction k rule: less_induct)
  case (less k)
  show ?case
  proof (cases "k = 0 \<or> c = old ! k")
    case True
    then have "fall_back old table c k = Some k" by (subst fall_back.simps) auto
    then show ?thesis using less.prems True by auto
  next
    case False
    let ?k = "table ! (k - 1)"
    have "k - 1 < k" using False by simp
    then have "best old (k - 1) (take (Suc (k - 1)) old) ?k" using less.prems(1) unfolding table_ok_def by blast
    then have b: "?k \<le> k - 1" "suffix (take ?k old) (take k old)"
        "\<forall>j \<le> k - 1. suffix (take j old) (take k old) \<longrightarrow> j \<le> ?k"
      using False by (auto simp: best_def)
    have "\<forall>i < length old. suffix (take i old) s \<and> old ! i = c \<longrightarrow> i \<le> ?k"
    proof (intro allI impI)
      fix i assume i: "i < length old" "suffix (take i old) s \<and> old ! i = c"
      then have "i \<le> k" "i \<noteq> k" using less.prems(4) False by auto
      then have "suffix (take i old) (take k old)" using suffix_take_chain i less.prems(3) by auto
      then show "i \<le> ?k" using b(3) \<open>i \<le> k\<close> \<open>i \<noteq> k\<close> by simp
    qed
    moreover have "table_ok old table ?k" using less.prems(1) b(1) False by (auto simp: table_ok_def)
    moreover have "suffix (take ?k old) s" using b(2) less.prems(3) suffix_order.trans by blast
    moreover have "?k < k" using b(1) \<open>k - 1 < k\<close> by linarith
    moreover have "fall_back old table c k = fall_back old table c ?k"
      using False by (subst fall_back.simps) auto
    ultimately show ?thesis using less.IH [of ?k] less.prems(2) by fastforce
  qed
qed

lemma suffix_take_snoc:
  assumes "suffix (take j old) (s @ [c])" and "j \<le> length old" and "j \<noteq> 0"
  shows "suffix (take (j - 1) old) s \<and> old ! (j - 1) = c"
proof -
  have "take j old = take (j - 1) old @ [old ! (j - 1)]"
    using assms(2,3) take_Suc_conv_app_nth [of "j - 1" old] by simp
  then show ?thesis using assms(1) by simp
qed

lemma match_next_best:
  assumes "table_ok old table k" and "k < length old" and "best old (length old - 1) s k"
  shows "\<exists>m. match_next old table c k = Some m \<and> best old (length old) (s @ [c]) m"
proof -
  have cand: "\<forall>i < length old. suffix (take i old) s \<and> old ! i = c \<longrightarrow> i \<le> k"
    and suf: "suffix (take k old) s" using assms(3) by (auto simp: best_def)
  obtain i where i: "fall_back old table c k = Some i" "i \<le> k" "suffix (take i old) s"
      "i = 0 \<or> old ! i = c" "\<forall>j < length old. suffix (take j old) s \<and> old ! j = c \<longrightarrow> j \<le> i"
    using fall_back_best [OF assms(1,2) suf cand] by blast
  let ?m = "if c = old ! i then Suc i else i"
  have upper: "j \<le> ?m" if j: "j \<le> length old" "suffix (take j old) (s @ [c])" for j
  proof (cases j)
    case (Suc n)
    then have n: "suffix (take n old) s" "old ! n = c" using suffix_take_snoc [OF j(2,1)] by auto
    then have le: "n \<le> i" using i(5) Suc j(1) by simp
    show ?thesis
    proof (cases "c = old ! i")
      case False
      then have "i = 0" using i(4) by auto
      then show ?thesis using le n(2) False by simp
    qed (use le Suc in simp)
  qed simp
  have "suffix (take ?m old) (s @ [c])"
    using i assms(2) by (auto simp: take_Suc_conv_app_nth)
  then show ?thesis using i(1,2) assms(2) upper by (auto simp: match_next_def best_def)
qed

lemma best_bound:
  assumes "best old b s k" and "length s \<le> b" and "b' \<le> length old" and "k \<le> b'"
  shows "best old b' s k"
proof -
  have "j \<le> b" if "j \<le> b'" "suffix (take j old) s" for j
    using suffix_length_le [OF that(2)] that(1) assms(2,3) by simp
  then show ?thesis using assms(1,4) by (auto simp: best_def)
qed

lemma best_tail:
  assumes "Suc n \<le> length old"
  shows "best old n (take (Suc n) old) k \<longleftrightarrow> best old n (take n (tl old)) k"
proof -
  obtain x xs where old: "old = x # xs" using assms by (cases old) auto
  have "suffix (take j old) (x # take n xs) \<longleftrightarrow> suffix (take j old) (take n xs)" if "j \<le> n" for j
  proof -
    have "take j old \<noteq> x # take n xs"
    proof
      assume "take j old = x # take n xs"
      from arg_cong [OF this, of length] show False using that assms by (simp add: old)
    qed
    then show ?thesis by (auto simp: suffix_Cons)
  qed
  then show ?thesis by (auto simp: best_def old)
qed

lemma table_loop_ok:
  assumes "table_ok old table (Suc n)" and "length table = Suc n" and "Suc n \<le> length old"
    and "cs = drop (Suc n) old" and "best old n (take n (tl old)) matched"
  shows "\<exists>result. table_loop old table matched cs = Some result \<and> length result = length old \<and>
       table_ok old result (length old)"
  using assms
proof (induction cs arbitrary: n table matched)
  case Nil
  then have "length old = Suc n" by simp
  then show ?case using Nil by simp
next
  case (Cons c cs)
  have len: "Suc n < length old"
  proof (rule ccontr)
    assume "\<not> ?thesis"
    then show False using Cons.prems(4) by simp
  qed
  have c: "c = old ! Suc n" "cs = drop (Suc (Suc n)) old"
    using Cons.prems(4) Cons_nth_drop_Suc [OF len, symmetric] by simp_all
  have m: "matched \<le> n" using Cons.prems(5) by (simp add: best_def)
  have "table_ok old table matched" using Cons.prems(1) m by (auto simp: table_ok_def)
  moreover have "best old (length old - 1) (take n (tl old)) matched"
    by (rule best_bound [OF Cons.prems(5)]) (use m len in auto)
  ultimately obtain k where k: "match_next old table c matched = Some k"
      "best old (length old) (take n (tl old) @ [c]) k"
    using match_next_best [of old table matched "take n (tl old)" c] m len by auto
  have step: "take n (tl old) @ [c] = take (Suc n) (tl old)"
    using len by (simp add: take_Suc_conv_app_nth c nth_tl)
  have "k \<le> Suc n"
    using k(2) suffix_length_le [of "take k old" "take (Suc n) (tl old)"] len
    by (auto simp: best_def step)
  then have b: "best old (Suc n) (take (Suc n) (tl old)) k"
    using k(2) len by (auto simp: best_def step)
  have "best old (Suc n) (take (Suc (Suc n)) old) k" using best_tail [of "Suc n" old k] len b by simp
  then have "table_ok old (table @ [k]) (Suc (Suc n))"
    using Cons.prems(1,2) by (auto simp: table_ok_def nth_append less_Suc_eq)
  then show ?case
    using Cons.IH [OF _ _ _ c(2) b, of "table @ [k]"] Cons.prems(2) len k(1) by simp
qed

lemma prefix_table_ok:
  assumes "old \<noteq> []"
  shows "\<exists>table. prefix_table old = Some table \<and> length table = length old \<and> table_ok old table (length old)"
proof -
  have len: "Suc 0 \<le> length old" using assms by (cases old) auto
  have b: "best old 0 (take 0 (tl old)) 0" by (simp add: best_def)
  then have "best old 0 (take (Suc 0) old) 0" using best_tail [OF len, of 0] by simp
  then have "table_ok old [0] (Suc 0)" by (simp add: table_ok_def)
  from table_loop_ok [OF this _ len _ b] show ?thesis by (auto simp: prefix_table_def drop_Suc)
qed

text \<open>The specification: the lines from \<open>first\<close> on where the context stands.\<close>

definition stands_at :: "bytes list \<Rightarrow> bool \<Rightarrow> bytes list \<Rightarrow> nat \<Rightarrow> bool" where
  "stands_at old eof lines p \<longleftrightarrow> take (length old) (drop p lines) = old \<and>
     (eof \<longrightarrow> p + length old = length lines)"

definition places :: "bytes list \<Rightarrow> bool \<Rightarrow> nat \<Rightarrow> bytes list \<Rightarrow> nat list" where
  "places old eof first lines = filter (stands_at old eof lines) [first..<length lines]"

definition places_to :: "bytes list \<Rightarrow> bool \<Rightarrow> nat \<Rightarrow> bytes list \<Rightarrow> nat \<Rightarrow> nat list" where
  "places_to old eof first lines n = filter (\<lambda>p. stands_at old eof lines p \<and> p + length old \<le> n) [first..<length lines]"

lemma stands_at_inside: "stands_at old eof lines p \<Longrightarrow> p \<le> length lines \<Longrightarrow> p + length old \<le> length lines"
  using length_take [of "length old" "drop p lines"] by (auto simp: stands_at_def min_def split: if_splits)

lemma places_to_end: "places_to old eof first lines (length lines) = places old eof first lines"
  unfolding places_to_def places_def by (rule filter_cong) (auto dest: stands_at_inside)

lemma places_to_start: "old \<noteq> [] \<Longrightarrow> places_to old eof first lines first = []"
  by (cases old) (auto simp: places_to_def filter_empty_conv)

lemma suffix_drop_iff: "suffix xs ys \<longleftrightarrow> length xs \<le> length ys \<and> drop (length ys - length xs) ys = xs"
  by (auto simp: suffix_def) (metis append_take_drop_id)

lemma read_lines_end:
  assumes "first \<le> q" and "q \<le> length lines"
  shows "suffix old (take (q - first) (drop first lines)) \<longleftrightarrow>
    first + length old \<le> q \<and> take (length old) (drop (q - length old) lines) = old"
proof -
  have "drop (q - first - length old) (take (q - first) (drop first lines)) =
      take (length old) (drop (q - length old) lines)" if "first + length old \<le> q"
    using that assms by (simp add: drop_take add.commute)
  moreover have "length (take (q - first) (drop first lines)) = q - first" using assms by simp
  ultimately show ?thesis using assms(1) unfolding suffix_drop_iff by auto
qed

lemma places_to_Suc:
  assumes "old \<noteq> []" and "first \<le> n" and "n < length lines"
  shows "places_to old eof first lines (Suc n) = places_to old eof first lines n @
    (if suffix old (take (Suc n - first) (drop first lines)) \<and> (eof \<longrightarrow> Suc n = length lines)
     then [Suc n - length old] else [])"
proof (cases "first + length old \<le> Suc n")
  case False
  then have "\<not> suffix old (take (Suc n - first) (drop first lines))"
    using read_lines_end [of first "Suc n" lines old] assms by simp
  moreover have "places_to old eof first lines (Suc n) = places_to old eof first lines n"
    unfolding places_to_def using False by (intro filter_cong) auto
  ultimately show ?thesis by simp
next
  case True
  let ?p = "Suc n - length old"
  have m: "1 \<le> length old" using assms(1) by (cases old) auto
  have p: "first \<le> ?p" "?p < length lines" "?p + length old = Suc n" using True m assms(3) by auto
  then have split: "[first..<length lines] = [first..<?p] @ ?p # [Suc ?p..<length lines]"
    using upt_conv_Cons [OF p(2)] upt_add_eq_append [of first ?p "length lines - ?p"] by simp
  have low: "filter (\<lambda>q. stands_at old eof lines q \<and> q + length old \<le> Suc n) [first..<?p] =
      filter (\<lambda>q. stands_at old eof lines q \<and> q + length old \<le> n) [first..<?p]"
    using p(3) by (intro filter_cong) auto
  have high: "filter (\<lambda>q. stands_at old eof lines q \<and> q + length old \<le> Suc n) [Suc ?p..<length lines] = []"
    "filter (\<lambda>q. stands_at old eof lines q \<and> q + length old \<le> n) [Suc ?p..<length lines] = []"
    using p(3) by (auto simp: filter_empty_conv)
  let ?cond = "suffix old (take (Suc n - first) (drop first lines)) \<and> (eof \<longrightarrow> Suc n = length lines)"
  have "stands_at old eof lines ?p \<longleftrightarrow> ?cond"
    using read_lines_end [of first "Suc n" lines old] assms True p(3) by (simp add: stands_at_def)
  then have now: "(stands_at old eof lines ?p \<and> ?p + length old \<le> Suc n) = ?cond"
    "(stands_at old eof lines ?p \<and> ?p + length old \<le> n) = False" using p(3) by auto
  show ?thesis
    unfolding places_to_def split filter_append filter.simps low high now by simp
qed

definition one_place :: "nat list \<Rightarrow> nat \<Rightarrow> patch_error + nat option \<times> nat" where
  "one_place ps k = (case ps of [] \<Rightarrow> Inr (None, k) | [p] \<Rightarrow> Inr (Some p, k)
     | _ \<Rightarrow> Inl (Patch_conflict ''Patch context matches more than one location''))"

lemma places_to_prefix:
  "old \<noteq> [] \<Longrightarrow> first \<le> n \<Longrightarrow> n \<le> length lines \<Longrightarrow>
     prefix (places_to old eof first lines n) (places old eof first lines)"
proof (induction "length lines - n" arbitrary: n)
  case 0
  then show ?case using places_to_end [of old eof first lines] by simp
next
  case (Suc d)
  then have n: "n < length lines" "d = length lines - Suc n" by simp_all
  have "prefix (places_to old eof first lines (Suc n)) (places old eof first lines)"
    using Suc.hyps(1) [OF n(2)] Suc.prems n(1) by simp
  then show ?case using places_to_Suc [OF Suc.prems(1,2) n(1), of eof] append_prefixD by metis
qed

lemma search_places:
  assumes old: "old \<noteq> []" and table: "table_ok old table (length old)" and polls: "\<forall>j. \<not> polls j"
  shows "n \<le> length lines \<Longrightarrow> first \<le> n \<Longrightarrow> best old (length old - 1) (take (n - first) (drop first lines)) matched \<Longrightarrow>
    places_to old eof first lines n = (case found of None \<Rightarrow> [] | Some p \<Rightarrow> [p]) \<Longrightarrow>
    search polls old table eof (length lines) k n matched found (drop n lines) =
      Some (one_place (places old eof first lines) (k + (length lines - n)))"
proof (induction "length lines - n" arbitrary: n k matched found)
  case 0
  then have "n = length lines" by simp
  then show ?case using 0(5) places_to_end [of old eof first lines]
    by (auto simp: one_place_def split: option.splits)
next
  case (Suc d)
  then have n: "n < length lines" by simp
  let ?s = "take (n - first) (drop first lines)" and ?c = "lines ! n"
  have s: "?s @ [?c] = take (Suc n - first) (drop first lines)"
    using n Suc.prems(2) by (simp add: Suc_diff_le take_Suc_conv_app_nth)
  have m: "matched < length old" using Suc.prems(3) old by (cases old) (auto simp: best_def)
  have "table_ok old table matched" using table m by (auto simp: table_ok_def)
  then obtain q where q: "match_next old table ?c matched = Some q" "best old (length old) (?s @ [?c]) q"
    using match_next_best [OF _ m Suc.prems(3)] by blast
  have lines: "drop n lines = ?c # drop (Suc n) lines" using n by (simp add: Cons_nth_drop_Suc)
  have full: "q = length old \<longleftrightarrow> suffix old (take (Suc n - first) (drop first lines))"
  proof
    assume "suffix old (take (Suc n - first) (drop first lines))"
    then have "length old \<le> q" using q(2) unfolding s best_def by (metis order_refl take_all)
    then show "q = length old" using q(2) by (simp add: best_def)
  qed (use q(2) in \<open>simp add: s best_def\<close>)
  let ?found = "if q = length old \<and> (eof \<longrightarrow> n + 1 = length lines) then Some (n + 1 - length old) else found"
  let ?next = "if q = length old then table ! (q - 1) else q"
  have next_best: "best old (length old - 1) (take (Suc n - first) (drop first lines)) ?next"
  proof (cases "q = length old")
    case True
    have "length old - 1 < length old" "Suc (length old - 1) = length old" using old by (cases old; simp)+
    then have "best old (length old - 1) old (table ! (length old - 1))"
      using table unfolding table_ok_def by (metis order_refl take_all)
    moreover have whole: "suffix old (take (Suc n - first) (drop first lines))" using True full by simp
    moreover have "suffix (take j old) old" if "j \<le> length old" "suffix (take j old) (take (Suc n - first) (drop first lines))" for j
      using suffix_length_suffix [OF that(2) whole] that(1) by simp
    ultimately show ?thesis using True by (auto simp: best_def intro: suffix_order.trans)
  next
    case False
    then show ?thesis using q(2) unfolding s by (auto simp: best_def)
  qed
  have step: "places_to old eof first lines (Suc n) = places_to old eof first lines n @
      (if q = length old \<and> (eof \<longrightarrow> Suc n = length lines) then [Suc n - length old] else [])"
    using places_to_Suc [OF old Suc.prems(2) n, of eof] full by simp
  have poll: "poll polls k = Inr (Suc k)" using polls by (simp add: poll_def)
  show ?case
  proof (cases "q = length old \<and> (eof \<longrightarrow> n + 1 = length lines) \<and> found \<noteq> None")
    case True
    then obtain p where p: "found = Some p" by auto
    have "places_to old eof first lines (Suc n) = [p, Suc n - length old]"
      using step True p Suc.prems(4) by simp
    then have "prefix [p, Suc n - length old] (places old eof first lines)"
      using places_to_prefix [of old first "Suc n" lines eof] old Suc.prems(2) n by simp
    then obtain extra where "places old eof first lines = p # (Suc n - length old) # extra"
      by (auto simp: prefix_def)
    then have "one_place (places old eof first lines) (k + (length lines - n)) =
        Inl (Patch_conflict ''Patch context matches more than one location'')"
      by (simp add: one_place_def)
    then show ?thesis using True p q(1) poll by (auto simp: lines)
  next
    case False
    have upto: "places_to old eof first lines (Suc n) = (case ?found of None \<Rightarrow> [] | Some p \<Rightarrow> [p])"
      using step False Suc.prems(4) by (auto split: option.splits)
    have "d = length lines - Suc n" "Suc n \<le> length lines" "first \<le> Suc n"
      using Suc.hyps(2) n Suc.prems(2) by simp_all
    from Suc.hyps(1) [OF this next_best upto, of "Suc k"]
    have "search polls old table eof (length lines) (Suc k) (Suc n) ?next ?found (drop (Suc n) lines) =
        Some (one_place (places old eof first lines) (Suc k + (length lines - Suc n)))" .
    moreover have "search polls old table eof (length lines) k n matched found (drop n lines) =
        search polls old table eof (length lines) (Suc k) (Suc n) ?next ?found (drop (Suc n) lines)"
      using False q(1) poll by (auto simp: lines)
    moreover have "Suc k + (length lines - Suc n) = k + (length lines - n)" using n by simp
    ultimately show ?thesis by (simp only:)
  qed
qed

lemma locate_places:
  assumes old: "old_lines chunk \<noteq> []" and polls: "\<forall>j. \<not> polls j" and first: "first \<le> length lines"
  shows "locate polls k lines first chunk = Some (
    case places (old_lines chunk) (end_of_file chunk) first lines of
      [] \<Rightarrow> Inl (Patch_conflict ''Patch context was not found'')
    | [p] \<Rightarrow> Inr (p, k + (length lines - first))
    | _ \<Rightarrow> Inl (Patch_conflict ''Patch context matches more than one location''))"
proof -
  obtain table where table: "prefix_table (old_lines chunk) = Some table"
      "table_ok (old_lines chunk) table (length (old_lines chunk))"
    using prefix_table_ok [OF old] by blast
  have "best (old_lines chunk) (length (old_lines chunk) - 1) (take (first - first) (drop first lines)) 0"
    using old by (simp add: best_def)
  from search_places [OF old table(2) polls first order_refl this, of "end_of_file chunk" None k]
  have "search polls (old_lines chunk) table (end_of_file chunk) (length lines) k first 0 None (drop first lines) =
      Some (one_place (places (old_lines chunk) (end_of_file chunk) first lines) (k + (length lines - first)))"
    using places_to_start [OF old] by simp
  then show ?thesis
    using old table(1) by (auto simp: locate_def Let_def one_place_def split: list.splits)
qed

section \<open>Preparation ends\<close>

lemma fall_back_ends: "table_ok old table k \<Longrightarrow> \<exists>i \<le> k. fall_back old table c k = Some i"
proof (induction k rule: less_induct)
  case (less k)
  show ?case
  proof (cases "k = 0 \<or> c = old ! k")
    case True
    then show ?thesis by (subst fall_back.simps) auto
  next
    case False
    then have k: "k - 1 < k" by simp
    then have "best old (k - 1) (take (Suc (k - 1)) old) (table ! (k - 1))"
      using less.prems unfolding table_ok_def by blast
    then have le: "table ! (k - 1) < k" using k by (auto simp: best_def)
    then have "table_ok old table (table ! (k - 1))" using less.prems by (auto simp: table_ok_def)
    then obtain i where "i \<le> table ! (k - 1)" "fall_back old table c (table ! (k - 1)) = Some i"
      using less.IH [OF le] by blast
    then show ?thesis using False le by (subst fall_back.simps) auto
  qed
qed

lemma bind_ends: "\<exists>r. m = Some r \<Longrightarrow> \<exists>r. Option.bind m (\<lambda>x. Some (f x)) = Some r"
  by auto

lemma table_ok_le: "table_ok old table n \<Longrightarrow> k \<le> n \<Longrightarrow> table_ok old table k"
  by (auto simp: table_ok_def)

lemma search_ends:
  assumes old: "old \<noteq> []" and table: "table_ok old table (length old)"
  shows "matched < length old \<Longrightarrow> \<exists>r. search polls old table eof count k n matched found lines = Some r"
proof (induction lines arbitrary: k n matched found)
  case (Cons line lines)
  obtain i where i: "i \<le> matched" "fall_back old table line matched = Some i"
    using fall_back_ends [OF table_ok_le [OF table], of matched line] Cons.prems by auto
  then obtain m where m: "match_next old table line matched = Some m" "m \<le> length old"
    using Cons.prems by (auto simp: match_next_def)
  have len: "length old - 1 < length old" using old by (cases old) auto
  then have "best old (length old - 1) (take (Suc (length old - 1)) old) (table ! (length old - 1))"
    using table unfolding table_ok_def by blast
  then have "table ! (length old - 1) < length old" using len by (auto simp: best_def)
  then show ?case
    using Cons.IH m by (cases "m = length old") (auto simp: poll_def)
qed simp

lemma locate_ends: "\<exists>r. locate polls k lines first chunk = Some r"
proof (cases "old_lines chunk = []")
  case False
  obtain table where table: "prefix_table (old_lines chunk) = Some table"
      "table_ok (old_lines chunk) table (length (old_lines chunk))"
    using prefix_table_ok [OF False] by blast
  have "0 < length (old_lines chunk)" using False by simp
  from search_ends [OF False table(2) this] show ?thesis
    using table(1) False by (auto simp: locate_def Let_def intro!: bind_ends)
qed (simp add: locate_def)

lemma apply_chunks_ends: "\<exists>r. apply_chunks polls before lines ending st cs = Some r"
proof (induction cs arbitrary: st)
  case (Cons c cs)
  have "\<exists>r. apply_chunk polls before lines ending c st = Some r"
    using locate_ends by (auto simp: apply_chunk_def intro!: bind_ends split: sum.splits)
  then show ?case using Cons by (auto split: sum.splits)
qed simp

section \<open>Properties\<close>

text \<open>
  C33. Without cancellation the search of a chunk decides exactly its specification: the context
  of the removed and kept lines stands, from the given line on, at one place (at the end of the
  file, if the chunk says so), and that place is returned; at none or at several it is a conflict.
\<close>

theorem context_location_exact:
  assumes "\<forall>j. \<not> polls j" and "old_lines chunk \<noteq> []" and "first \<le> length lines"
  shows "locate polls k lines first chunk = Some (
    case places (old_lines chunk) (end_of_file chunk) first lines of
      [] \<Rightarrow> Inl (Patch_conflict ''Patch context was not found'')
    | [p] \<Rightarrow> Inr (p, k + (length lines - first))
    | _ \<Rightarrow> Inl (Patch_conflict ''Patch context matches more than one location''))"
  using locate_places [OF assms(2,1,3)] .

text \<open>
  C34. The preparation of an update returns for every file, every patch and whatever the stop
  token answers: the loop that falls back along the table of the context always ends.
\<close>

theorem preparation_ends: "\<exists>result. prepare_patch_update polls before patch = Some result"
  using apply_chunks_ends by (auto simp: prepare_patch_update_def intro!: bind_ends split: sum.splits)

definition sample_chunk :: patch_chunk where
  "sample_chunk = \<lparr>anchor = [], chunk_lines = [\<lparr>chunk_kind = CHR '' '', chunk_text = ''a''\<rparr>,
     \<lparr>chunk_kind = CHR ''-'', chunk_text = ''b''\<rparr>], end_of_file = False\<rparr>"

theorem context_location_exact_witness:
  "locate (\<lambda>_. False) 0 [''a'', ''a'', ''b''] 0 sample_chunk = Some (Inr (1, 3))"
proof -
  have old: "old_lines sample_chunk = [''a'', ''b'']" by (simp add: sample_chunk_def old_lines_def)
  then have "places (old_lines sample_chunk) (end_of_file sample_chunk) 0 [''a'', ''a'', ''b''] = [1]"
    by (simp add: places_def stands_at_def sample_chunk_def upt_rec)
  then show ?thesis
    using context_location_exact [of "\<lambda>_. False" sample_chunk 0 "[''a'', ''a'', ''b'']" 0] old by simp
qed

end
