(* ===== verification/Path_Glob.thy ===== *)
theory Path_Glob
  imports File_Patch
begin

text \<open>
  \<open>path_glob.cpp\<close> and \<open>path_ignore.cpp\<close>: compilation of a glob into alternatives of
  component patterns, the tabular matcher with its budget of steps, and ordered ignore rules.
  Text positions are suffixes; code points are numbers. Cancellation is asked as in
  \<open>File_Patch\<close>.
\<close>

section \<open>Scalars\<close>

datatype glob_error = Glob_invalid bytes | Glob_budget | Glob_cancelled

definition glob_need :: "bool \<Rightarrow> bytes \<Rightarrow> glob_error + unit" where
  "glob_need b message = guardE b (Glob_invalid message)"

text \<open>\<open>scalars\<close> is its own copy of the decoder of \<open>text_valid\<close> that also gives the codes.\<close>

function scalars :: "bytes \<Rightarrow> glob_error + nat list" where
  "scalars s =
     (case s of [] \<Rightarrow> Inr []
      | c # cs \<Rightarrow>
        if byte c = 0 then Inl (Glob_invalid ''Glob text cannot contain NUL'')
        else if byte c < 128 then bindE (scalars cs) (\<lambda>r. Inr (byte c # r))
        else (case utf8_lead (byte c) of
            None \<Rightarrow> Inl (Glob_invalid ''Glob text must be UTF-8'')
          | Some (extra, v, least) \<Rightarrow>
            (case utf8_tail extra v cs of
              None \<Rightarrow> Inl (Glob_invalid ''Glob text must be UTF-8'')
            | Some (w, rest) \<Rightarrow> if code_ok least w then bindE (scalars rest) (\<lambda>r. Inr (w # r))
                else Inl (Glob_invalid ''Glob text must be UTF-8''))))"
  by pat_completeness auto
termination
  by (relation "measure length") (auto dest!: utf8_tail_length)

declare scalars.simps [simp del]

text \<open>The components of a path; in a pattern an escaped slash is a slash.\<close>

fun unescape_slash :: "bytes \<Rightarrow> bytes" where
  "unescape_slash (c # d # s) =
     (if c = CHR 0x5C then (if d = CHR ''/'' then d # unescape_slash s else c # d # unescape_slash s)
      else c # unescape_slash (d # s))"
| "unescape_slash s = s"

definition path_parts :: "bytes \<Rightarrow> bytes list" where
  "path_parts s = split_on CHR ''/'' s"

definition pattern_parts :: "bytes \<Rightarrow> bytes list" where
  "pattern_parts s = split_on CHR ''/'' (unescape_slash s)"

section \<open>Brace expansion\<close>

text \<open>The first open brace outside a class: the text before it, reversed, and after it.\<close>

fun find_open :: "bool \<Rightarrow> bytes \<Rightarrow> bytes \<Rightarrow> glob_error + (bytes \<times> bytes) option" where
  "find_open in_class before [] = Inr None"
| "find_open in_class before (c # cs) =
     (if c = CHR 0x5C then
        (case cs of [] \<Rightarrow> Inl (Glob_invalid ''Dangling glob escape'')
         | d # ds \<Rightarrow> find_open in_class (d # c # before) ds)
      else if c = CHR ''['' then find_open True (c # before) cs
      else if c = CHR '']'' then find_open False (c # before) cs
      else if \<not> in_class \<and> c = CHR ''{'' then Inr (Some (before, cs))
      else if \<not> in_class \<and> c = CHR ''}'' then Inl (Glob_invalid ''Unmatched glob brace'')
      else find_open in_class (c # before) cs)"

text \<open>The choices up to the closing brace and the text after it; \<open>current\<close> is reversed.\<close>

fun find_choices :: "nat \<Rightarrow> bool \<Rightarrow> bytes list \<Rightarrow> bytes \<Rightarrow> bytes \<Rightarrow>
    glob_error + (bytes list \<times> bytes) option" where
  "find_choices nesting in_class choices current [] = Inr None"
| "find_choices nesting in_class choices current (c # cs) =
     (if c = CHR 0x5C then
        (case cs of [] \<Rightarrow> Inl (Glob_invalid ''Dangling glob escape'')
         | d # ds \<Rightarrow> find_choices nesting in_class choices (d # c # current) ds)
      else let inside = (if c = CHR ''['' then True else if c = CHR '']'' then False else in_class) in
        if inside then find_choices nesting inside choices (c # current) cs
        else if c = CHR ''{'' then find_choices (Suc nesting) inside choices (c # current) cs
        else if c = CHR ''}'' then
          (if nesting \<noteq> 0 then find_choices (nesting - 1) inside choices (c # current) cs
           else Inr (Some (choices @ [rev current], cs)))
        else if c = CHR '','' \<and> nesting = 0
        then find_choices nesting inside (choices @ [rev current]) [] cs
        else find_choices nesting inside choices (c # current) cs)"

fun expand_braces :: "nat \<Rightarrow> bytes list \<Rightarrow> bytes \<Rightarrow> glob_error + bytes list" where
  "expand_braces 0 expanded input = Inl (Glob_invalid ''Glob brace expansion exceeds four layers'')"
| "expand_braces (Suc layers) expanded input =
     bindE (find_open False [] input) (\<lambda>opening.
       case opening of
         None \<Rightarrow> bindE (glob_need (length expanded \<noteq> 64) ''Glob has more than 64 alternatives'')
           (\<lambda>_. Inr (expanded @ [input]))
       | Some (before, rest) \<Rightarrow>
         bindE (find_choices 0 False [] [] rest) (\<lambda>found.
           case found of
             None \<Rightarrow> Inl (Glob_invalid ''Glob braces require comma-separated alternatives'')
           | Some (choices, after) \<Rightarrow>
             bindE (glob_need (length choices \<ge> 2) ''Glob braces require comma-separated alternatives'')
               (\<lambda>_. foldE (\<lambda>acc choice.
                 bindE (glob_need (choice \<noteq> []) ''Glob alternatives cannot be empty'') (\<lambda>_.
                   expand_braces layers acc (rev before @ choice @ after))) expanded choices)))"

section \<open>Compilation\<close>

datatype token = Literal nat | Star | Any | Class bool "(nat \<times> nat) list"

datatype component = Recursive | Tokens "token list"

definition named_class :: "bytes \<Rightarrow> (nat \<times> nat) list option" where
  "named_class name =
     map_of [(''alnum'', [(48, 57), (65, 90), (97, 122)]), (''alpha'', [(65, 90), (97, 122)]),
       (''ascii'', [(0, 127)]), (''blank'', [(9, 9), (32, 32)]), (''cntrl'', [(0, 31), (127, 127)]),
       (''digit'', [(48, 57)]), (''graph'', [(33, 126)]), (''lower'', [(97, 122)]), (''print'', [(32, 126)]),
       (''punct'', [(33, 47), (58, 64), (91, 96), (123, 126)]), (''space'', [(9, 13), (32, 32)]),
       (''upper'', [(65, 90)]), (''xdigit'', [(48, 57), (65, 70), (97, 102)])] name"

text \<open>After \<open>[:\<close>: the name up to the colon, which a bracket must follow.\<close>

fun class_name :: "bytes \<Rightarrow> nat list \<Rightarrow> glob_error + bytes \<times> nat list" where
  "class_name name [] = Inl (Glob_invalid ''Invalid named glob class'')"
| "class_name name (c # cs) =
     (if c = 58 then
        (case cs of [] \<Rightarrow> Inl (Glob_invalid ''Invalid named glob class'')
         | d # ds \<Rightarrow> if d = 93 then Inr (name, ds) else Inl (Glob_invalid ''Invalid named glob class''))
      else if c > 127 then Inl (Glob_invalid ''Invalid named glob class'')
      else class_name (name @ [char_of c]) cs)"

definition class_item :: "nat list \<Rightarrow> glob_error + bool \<times> nat \<times> nat list" where
  "class_item cs =
     (case cs of [] \<Rightarrow> Inl (Glob_invalid ''Dangling glob class escape'')
      | low # rest \<Rightarrow> if low = 92 then
          (case rest of [] \<Rightarrow> Inl (Glob_invalid ''Dangling glob class escape'')
           | d # ds \<Rightarrow> Inr (True, d, ds))
        else Inr (False, low, rest))"

text \<open>The end of a range after its low end, if a dash and an end follow.\<close>

definition class_high :: "nat \<Rightarrow> nat list \<Rightarrow> glob_error + nat \<times> nat list" where
  "class_high low cs =
     (case cs of
        dash # high # rest \<Rightarrow>
          if dash = 45 \<and> high \<noteq> 93 then
            bindE (if high = 92 then (case rest of [] \<Rightarrow> Inl (Glob_invalid ''Dangling glob range escape'')
                   | d # ds \<Rightarrow> Inr (d, ds)) else Inr (high, rest)) (\<lambda>(h, tail).
            bindE (glob_need (low \<le> h) ''Glob character range is reversed'') (\<lambda>_. Inr (h, tail)))
          else Inr (low, cs)
      | _ \<Rightarrow> Inr (low, cs))"

lemma class_name_length: "class_name name cs = Inr (out, rest) \<Longrightarrow> length rest < length cs"
  by (induction name cs rule: class_name.induct) (auto split: if_splits list.splits)

lemma class_item_length: "class_item cs = Inr (e, low, rest) \<Longrightarrow> length rest < length cs"
  by (auto simp: class_item_def split: list.splits if_splits)

lemma class_high_length: "class_high low cs = Inr (h, rest) \<Longrightarrow> length rest \<le> length cs"
  by (auto simp: class_high_def result_simps split: list.splits if_splits)

text \<open>One item of a class: a named class, or one character or range.\<close>

definition class_entry :: "nat list \<Rightarrow> glob_error + (nat \<times> nat) list \<times> nat list" where
  "class_entry cs =
     bindE (class_item cs) (\<lambda>(escaped, low, rest).
       if \<not> escaped \<and> low = 91 \<and> rest \<noteq> [] \<and> hd rest = 58 then
         bindE (class_name [] (tl rest)) (\<lambda>(name, after).
           case named_class name of None \<Rightarrow> Inl (Glob_invalid ''Unknown named glob class'')
           | Some rs \<Rightarrow> Inr (rs, after))
       else bindE (class_high low rest) (\<lambda>(high, after). Inr ([(low, high)], after)))"

lemma class_entry_length: "class_entry cs = Inr (rs, rest) \<Longrightarrow> length rest < length cs"
  by (auto simp: class_entry_def result_simps dest!: class_item_length class_name_length class_high_length
      split: if_splits option.splits)

text \<open>The loop over the items of a class up to its closing bracket.\<close>

function class_ranges :: "(nat \<times> nat) list \<Rightarrow> nat list \<Rightarrow> glob_error + (nat \<times> nat) list \<times> nat list" where
  "class_ranges ranges cs =
     (case cs of [] \<Rightarrow> Inl (Glob_invalid ''Invalid glob character class'')
      | c # rest \<Rightarrow>
        if c = 93 then
          (if ranges = [] then Inl (Glob_invalid ''Invalid glob character class'') else Inr (ranges, rest))
        else bindE (class_entry cs) (\<lambda>(rs, after).
          bindE (glob_need (length (ranges @ rs) \<le> 32) ''Glob character class exceeds limits'') (\<lambda>_.
            class_ranges (ranges @ rs) after)))"
  by pat_completeness auto
termination
  by (relation "measure (\<lambda>(ranges, cs). length cs)") (auto dest!: class_entry_length)

declare class_ranges.simps [simp del]

definition class_token :: "bool \<Rightarrow> nat list \<Rightarrow> glob_error + token \<times> nat list" where
  "class_token ignore_syntax cs =
     (let negated = cs \<noteq> [] \<and> (hd cs = 33 \<or> hd cs = 94);
          cs1 = (if negated then tl cs else cs);
          bracket = ignore_syntax \<and> cs1 \<noteq> [] \<and> hd cs1 = 93 in
      bindE (class_ranges (if bracket then [(93, 93)] else []) (if bracket then tl cs1 else cs1))
        (\<lambda>(ranges, rest). Inr (Class negated ranges, rest)))"

definition one_token :: "bool \<Rightarrow> nat \<Rightarrow> nat list \<Rightarrow> glob_error + token \<times> nat list" where
  "one_token ignore_syntax c cs =
     (if c = 92 then
        (case cs of [] \<Rightarrow> Inl (Glob_invalid ''Dangling glob escape'') | d # ds \<Rightarrow> Inr (Literal d, ds))
      else if c = 42 then Inr (Star, cs)
      else if c = 63 then Inr (Any, cs)
      else if c = 91 then class_token ignore_syntax cs
      else bindE (glob_need (\<not> ((\<not> ignore_syntax \<and> (c = 93 \<or> c = 123 \<or> c = 125)) \<or> c < 32))
        ''Invalid literal glob character'') (\<lambda>_. Inr (Literal c, cs)))"

lemma class_ranges_length: "class_ranges ranges cs = Inr (out, rest) \<Longrightarrow> length rest < length cs"
proof (induction ranges cs rule: class_ranges.induct)
  case (1 ranges cs)
  note step = 1(2) [unfolded class_ranges.simps [of ranges cs]]
  show ?case
  proof (cases cs)
    case Nil
    then show ?thesis using step by simp
  next
    case (Cons c rest0)
    show ?thesis
    proof (cases "c = 93")
      case True
      then show ?thesis using step Cons by (auto split: if_splits)
    next
      case False
      then obtain rs mid where entry: "class_entry cs = Inr (rs, mid)"
        and rec: "length (ranges @ rs) \<le> 32" "class_ranges (ranges @ rs) mid = Inr (out, rest)"
        using step Cons by (auto simp: result_simps glob_need_def split: if_splits)
      have "length rest < length mid"
        using 1(1) [OF Cons False entry refl] rec by (simp add: glob_need_def)
      then show ?thesis using class_entry_length [OF entry] by simp
    qed
  qed
qed

lemma one_token_length: "one_token ign c cs = Inr (t, rest) \<Longrightarrow> length rest \<le> length cs"
  by (auto simp: one_token_def class_token_def Let_def result_simps dest!: class_ranges_length
      split: list.splits if_splits)

function component_tokens :: "bool \<Rightarrow> token list \<Rightarrow> nat list \<Rightarrow> glob_error + token list" where
  "component_tokens ignore_syntax tokens cs =
     (case cs of [] \<Rightarrow> Inr tokens
      | c # rest \<Rightarrow>
        bindE (one_token ignore_syntax c rest) (\<lambda>(t, after).
          if t = Star \<and> tokens \<noteq> [] \<and> last tokens = Star
          then component_tokens ignore_syntax tokens after
          else bindE (glob_need (length tokens + 1 \<le> 256) ''Glob component exceeds 256 tokens'') (\<lambda>_.
            component_tokens ignore_syntax (tokens @ [t]) after)))"
  by pat_completeness auto
termination
  by (relation "measure (\<lambda>(ign, tokens, cs). length cs)") (auto dest!: one_token_length)

declare component_tokens.simps [simp del]

definition compile_component :: "bool \<Rightarrow> bytes \<Rightarrow> glob_error + component" where
  "compile_component ignore_syntax name =
     bindE (glob_need (name \<noteq> [] \<and> name \<noteq> ''.'' \<and> name \<noteq> ''..'')
       ''Glob path contains an empty or traversal component'') (\<lambda>_.
     if name = ''**'' then Inr Recursive
     else bindE (glob_need (ignore_syntax \<or> \<not> sublist ''**'' name)
         ''Recursive glob stars must occupy a whole component'') (\<lambda>_.
       bindE (scalars name) (\<lambda>cs. bindE (component_tokens ignore_syntax [] cs) (\<lambda>ts. Inr (Tokens ts)))))"

definition compile_alternative :: "bytes \<Rightarrow> bool \<Rightarrow> bool \<Rightarrow> bytes \<Rightarrow> glob_error + component list" where
  "compile_alternative pattern anchored ignore_syntax alternative =
     (let names = pattern_parts alternative in
      bindE (glob_need (length names \<le> 32) ''Glob path exceeds 32 components'') (\<lambda>_.
      bindE (mapE (compile_component ignore_syntax) names) (\<lambda>compiled.
      Inr (if \<not> anchored \<and> CHR ''/'' \<notin> set pattern \<and> hd compiled \<noteq> Recursive
           then Recursive # compiled else compiled))))"

record path_glob =
  patterns :: "component list list"
  tail_requires_child :: bool

definition path_glob_new :: "bytes \<Rightarrow> bool \<Rightarrow> bool \<Rightarrow> glob_error + path_glob" where
  "path_glob_new pattern anchored ignore_syntax =
     bindE (glob_need (pattern \<noteq> [] \<and> length pattern \<le> 1024 \<and> hd pattern \<noteq> CHR ''/'' \<and>
         (ignore_syntax \<or> CHR '':'' \<notin> set pattern))
       ''Use a relative glob pattern of 1-1024 UTF-8 bytes with slash separators'') (\<lambda>_.
     bindE (scalars pattern) (\<lambda>_.
     bindE (if ignore_syntax then Inr [pattern] else expand_braces 5 [] pattern) (\<lambda>expanded.
     bindE (mapE (compile_alternative pattern anchored ignore_syntax) expanded) (\<lambda>ps.
     Inr \<lparr>patterns = ps, tail_requires_child = ignore_syntax\<rparr>))))"

section \<open>Matching\<close>

text \<open>The steps made and the polls of the stop token so far.\<close>

type_synonym meter = "nat \<times> nat"

definition tick :: "meter \<Rightarrow> glob_error + meter" where
  "tick m = (case m of (steps, asked) \<Rightarrow>
     if steps + 1 > 50000000 then Inl Glob_budget else Inr (steps + 1, asked))"

definition glob_poll :: "(nat \<Rightarrow> bool) \<Rightarrow> meter \<Rightarrow> glob_error + meter" where
  "glob_poll polls m = (case m of (steps, asked) \<Rightarrow>
     if polls asked then Inl Glob_cancelled else Inr (steps, asked + 1))"

fun in_ranges :: "bool \<Rightarrow> nat \<Rightarrow> meter \<Rightarrow> (nat \<times> nat) list \<Rightarrow> glob_error + bool \<times> meter" where
  "in_ranges included c m [] = Inr (included, m)"
| "in_ranges included c m ((low, high) # rs) =
     bindE (tick m) (\<lambda>m1. in_ranges (included \<or> (low \<le> c \<and> c \<le> high)) c m1 rs)"

fun token_accepts :: "token \<Rightarrow> nat \<Rightarrow> meter \<Rightarrow> glob_error + bool \<times> meter" where
  "token_accepts (Literal v) c m = Inr (v = c, m)"
| "token_accepts Any c m = Inr (True, m)"
| "token_accepts Star c m = Inr (False, m)"
| "token_accepts (Class negated ranges) c m =
     bindE (in_ranges False c m ranges) (\<lambda>(included, m1). Inr (included \<noteq> negated, m1))"

text \<open>A row of the table after its entry 0: for a star, and for a token that takes a character.\<close>

fun star_row :: "bool \<Rightarrow> bool list \<Rightarrow> meter \<Rightarrow> glob_error + bool list \<times> meter" where
  "star_row previous [] m = Inr ([], m)"
| "star_row previous (b # bs) m =
     bindE (tick m) (\<lambda>m1.
     bindE (star_row (b \<or> previous) bs m1) (\<lambda>(row, m2). Inr ((b \<or> previous) # row, m2)))"

fun char_row :: "token \<Rightarrow> bool list \<Rightarrow> nat list \<Rightarrow> meter \<Rightarrow> glob_error + bool list \<times> meter" where
  "char_row t (b # bs) (c # cs) m =
     bindE (tick m) (\<lambda>m1.
     bindE (token_accepts t c m1) (\<lambda>(accepted, m2).
     bindE (char_row t bs cs m2) (\<lambda>(row, m3). Inr ((b \<and> accepted) # row, m3))))"
| "char_row t bs cs m = Inr ([], m)"

definition token_row :: "(nat \<Rightarrow> bool) \<Rightarrow> nat list \<Rightarrow> bool list \<times> meter \<Rightarrow> token \<Rightarrow>
    glob_error + bool list \<times> meter" where
  "token_row polls name acc t =
     (case acc of (before, m) \<Rightarrow>
      bindE (glob_poll polls m) (\<lambda>m1.
        if t = Star
        then bindE (star_row (hd before) (tl before) m1) (\<lambda>(row, m2). Inr (hd before # row, m2))
        else bindE (char_row t before name m1) (\<lambda>(row, m2). Inr (False # row, m2))))"

definition component_match :: "(nat \<Rightarrow> bool) \<Rightarrow> token list \<Rightarrow> nat list \<Rightarrow> meter \<Rightarrow> glob_error + bool \<times> meter" where
  "component_match polls tokens name m =
     bindE (foldE (token_row polls name) (True # replicate (length name) False, m) tokens)
       (\<lambda>(row, m1). Inr (last row, m1))"

fun name_row :: "(nat \<Rightarrow> bool) \<Rightarrow> token list \<Rightarrow> bool list \<Rightarrow> nat list list \<Rightarrow> meter \<Rightarrow>
    glob_error + bool list \<times> meter" where
  "name_row polls ts (b # bs) (name # names) m =
     bindE (tick m) (\<lambda>m1.
     bindE (if b then component_match polls ts name m1 else Inr (False, m1)) (\<lambda>(x, m2).
     bindE (name_row polls ts bs names m2) (\<lambda>(row, m3). Inr (x # row, m3))))"
| "name_row polls ts bs names m = Inr ([], m)"

definition component_row :: "(nat \<Rightarrow> bool) \<Rightarrow> bool \<Rightarrow> nat list list \<Rightarrow> bool list \<times> meter \<Rightarrow> component \<Rightarrow>
    glob_error + bool list \<times> meter" where
  "component_row polls require_child names acc c =
     (case acc of (before, m) \<Rightarrow>
      bindE (glob_poll polls m) (\<lambda>m1.
        case c of
          Recursive \<Rightarrow>
            (if require_child
             then bindE (star_row False (butlast before) m1) (\<lambda>(row, m2). Inr (False # row, m2))
             else bindE (star_row (hd before) (tl before) m1) (\<lambda>(row, m2). Inr (hd before # row, m2)))
        | Tokens ts \<Rightarrow> bindE (name_row polls ts before names m1) (\<lambda>(row, m2). Inr (False # row, m2))))"

fun pattern_rows :: "(nat \<Rightarrow> bool) \<Rightarrow> bool \<Rightarrow> nat list list \<Rightarrow> bool list \<times> meter \<Rightarrow> component list \<Rightarrow>
    glob_error + bool list \<times> meter" where
  "pattern_rows polls tail_child names acc [] = Inr acc"
| "pattern_rows polls tail_child names acc (c # cs) =
     bindE (component_row polls (tail_child \<and> cs = []) names acc c) (\<lambda>acc1.
       pattern_rows polls tail_child names acc1 cs)"

fun match_patterns :: "(nat \<Rightarrow> bool) \<Rightarrow> bool \<Rightarrow> nat list list \<Rightarrow> meter \<Rightarrow> component list list \<Rightarrow>
    glob_error + bool \<times> meter" where
  "match_patterns polls tail_child names m [] = Inr (False, m)"
| "match_patterns polls tail_child names m (p # ps) =
     bindE (pattern_rows polls tail_child names (True # replicate (length names) False, m) p) (\<lambda>(row, m1).
       if last row then Inr (True, m1) else match_patterns polls tail_child names m1 ps)"

definition glob_matches :: "(nat \<Rightarrow> bool) \<Rightarrow> path_glob \<Rightarrow> bytes \<Rightarrow> meter \<Rightarrow> glob_error + bool \<times> meter" where
  "glob_matches polls g path m =
     bindE (mapE scalars (path_parts path)) (\<lambda>names.
       match_patterns polls (tail_requires_child g) names m (patterns g))"

section \<open>Ignore rules\<close>

datatype ignore_error = Ignore_failed bytes | Ignore_budget

record ignore_rule =
  scope :: bytes
  priority :: int
  directory_only :: bool
  excluded :: bool
  matcher :: path_glob

record path_ignore =
  ignore_rules :: "ignore_rule list"
  ignore_bytes :: nat
  ignore_files :: nat
  total_rules :: nat
  repository :: bytes

definition ignore_checkpoint :: "path_ignore \<Rightarrow> nat \<times> bytes" where
  "ignore_checkpoint ig = (length (ignore_rules ig), repository ig)"

definition ignore_restore :: "nat \<times> bytes \<Rightarrow> path_ignore \<Rightarrow> path_ignore" where
  "ignore_restore cp ig = ig\<lparr>ignore_rules := take (fst cp) (ignore_rules ig), repository := snd cp\<rparr>"

definition begin_repository :: "bytes \<Rightarrow> path_ignore \<Rightarrow> path_ignore" where
  "begin_repository directory ig = ig\<lparr>repository := directory\<rparr>"

text \<open>Trailing spaces go unless an odd number of backslashes stands before one; on the reversed line.\<close>

fun trim_spaces :: "bytes \<Rightarrow> bytes" where
  "trim_spaces (c # cs) =
     (if c = CHR '' '' \<and> even (length (takeWhile (\<lambda>d. d = CHR 0x5C) cs)) then trim_spaces cs else c # cs)"
| "trim_spaces [] = []"

definition ignore_line :: "bytes \<Rightarrow> bytes" where
  "ignore_line line = rev (trim_spaces (rev (strip_return line)))"

text \<open>The flags and the pattern of a line, or nothing for a line that is no rule.\<close>

definition ignore_pattern :: "bytes \<Rightarrow> (bool \<times> bool \<times> bool \<times> bytes) option" where
  "ignore_pattern line =
     (let p = ignore_line line in
      if p = [] \<or> hd p = CHR ''#'' then None
      else let excl = (hd p \<noteq> CHR ''!''); p1 = (if excl then p else tl p) in
        if p1 = [] then None
        else let dirs = (last p1 = CHR ''/''); p2 = (if dirs then butlast p1 else p1);
                 anch = (p2 \<noteq> [] \<and> hd p2 = CHR ''/''); p3 = (if anch then tl p2 else p2) in
          if p3 = [] then None else Some (excl, dirs, anch, p3))"

fun glob_message :: "glob_error \<Rightarrow> bytes" where
  "glob_message (Glob_invalid message) = message"
| "glob_message _ = []"

definition add_rule :: "bytes \<Rightarrow> int \<Rightarrow> path_ignore \<Rightarrow> bytes \<Rightarrow> path_ignore \<times> (ignore_error + unit)" where
  "add_rule directory level ig line =
     (case ignore_pattern line of None \<Rightarrow> (ig, Inr ())
      | Some (excl, dirs, anch, p) \<Rightarrow>
        if length p > 1024 then (ig, Inl (Ignore_failed ''Ignore pattern exceeds the configured limit''))
        else let ig1 = ig\<lparr>total_rules := total_rules ig + 1\<rparr> in
          if total_rules ig1 > 4096 then (ig1, Inl Ignore_budget)
          else (case path_glob_new p anch True of
              Inr g \<Rightarrow> (ig1\<lparr>ignore_rules := ignore_rules ig1 @
                [\<lparr>scope = directory, priority = level, directory_only = dirs, excluded = excl, matcher = g\<rparr>]\<rparr>,
                Inr ())
            | Inl e \<Rightarrow> (ig1, if sublist ''exceeds'' (glob_message e)
                then Inl (Ignore_failed ''Ignore pattern exceeds matching capability'') else Inr ())))"

fun add_rules :: "bytes \<Rightarrow> int \<Rightarrow> path_ignore \<Rightarrow> bytes list \<Rightarrow> path_ignore \<times> (ignore_error + unit)" where
  "add_rules directory level ig [] = (ig, Inr ())"
| "add_rules directory level ig (line # lines) =
     (case add_rule directory level ig line of
        (ig1, Inl e) \<Rightarrow> (ig1, Inl e)
      | (ig1, Inr _) \<Rightarrow> add_rules directory level ig1 lines)"

definition ignore_lines :: "bytes \<Rightarrow> bytes list" where
  "ignore_lines content =
     (let body = (if starts_with content [CHR 0xEF, CHR 0xBB, CHR 0xBF] then drop 3 content else content);
          pieces = split_on line_feed body in
      if last pieces = [] then butlast pieces else pieces)"

definition ignore_add :: "bytes \<Rightarrow> int \<Rightarrow> bytes \<Rightarrow> path_ignore \<Rightarrow> path_ignore \<times> (ignore_error + unit)" where
  "ignore_add directory level content ig =
     (if length content > 32768 then (ig, Inl (Ignore_failed ''Ignore metadata exceeds the per-file limit''))
      else if length content > 262144 - ignore_bytes ig then (ig, Inl Ignore_budget)
      else add_rules directory level
        (ig\<lparr>ignore_bytes := ignore_bytes ig + length content, ignore_files := ignore_files ig + 1\<rparr>)
        (ignore_lines content))"

definition within_scope :: "bytes \<Rightarrow> bytes \<Rightarrow> bytes option" where
  "within_scope area path =
     (if area = ''.'' then Some path
      else if starts_with path (area @ ''/'') then Some (drop (length area + 1) path) else None)"

definition outside_repository :: "bytes \<Rightarrow> bytes \<Rightarrow> bool" where
  "outside_repository repo area \<longleftrightarrow> repo = [] \<or>
     (repo \<noteq> ''.'' \<and> area \<noteq> repo \<and> \<not> starts_with area (repo @ ''/''))"

text \<open>One rule at one priority level: the decision, or none where the rule does not apply.\<close>

definition rule_decides :: "(nat \<Rightarrow> bool) \<Rightarrow> bytes \<Rightarrow> bytes \<Rightarrow> bool \<Rightarrow> int \<Rightarrow> ignore_rule \<Rightarrow> meter \<Rightarrow>
    glob_error + bool option \<times> meter" where
  "rule_decides polls repo path directory level rule m =
     bindE (glob_poll polls m) (\<lambda>m1.
       if priority rule \<noteq> level \<or> (directory_only rule \<and> \<not> directory) then Inr (None, m1)
       else if level \<le> 0 \<and> outside_repository repo (scope rule) then Inr (None, m1)
       else (case within_scope (scope rule) path of None \<Rightarrow> Inr (None, m1)
         | Some relative \<Rightarrow> bindE (glob_matches polls (matcher rule) relative m1) (\<lambda>(b, m2).
             Inr (if b then Some (excluded rule) else None, m2))))"

fun first_decision :: "(nat \<Rightarrow> bool) \<Rightarrow> bytes \<Rightarrow> bytes \<Rightarrow> bool \<Rightarrow> (int \<times> ignore_rule) list \<Rightarrow> meter \<Rightarrow>
    glob_error + bool \<times> meter" where
  "first_decision polls repo path directory [] m = Inr (False, m)"
| "first_decision polls repo path directory ((level, rule) # rules) m =
     bindE (rule_decides polls repo path directory level rule m) (\<lambda>(decided, m1).
       case decided of Some b \<Rightarrow> Inr (b, m1)
       | None \<Rightarrow> first_decision polls repo path directory rules m1)"

definition ignored :: "(nat \<Rightarrow> bool) \<Rightarrow> path_ignore \<Rightarrow> bytes \<Rightarrow> bool \<Rightarrow> meter \<Rightarrow> glob_error + bool \<times> meter" where
  "ignored polls ig path directory m =
     first_decision polls (repository ig) path directory
       (concat (map (\<lambda>level. map (Pair level) (rev (ignore_rules ig))) [2, 1, 0, -1])) m"

section \<open>The meaning of a pattern\<close>

fun takes :: "token \<Rightarrow> nat \<Rightarrow> bool" where
  "takes (Literal v) c \<longleftrightarrow> v = c"
| "takes Any c \<longleftrightarrow> True"
| "takes Star c \<longleftrightarrow> False"
| "takes (Class negated ranges) c \<longleftrightarrow> (\<exists>(low, high) \<in> set ranges. low \<le> c \<and> c \<le> high) \<noteq> negated"

text \<open>
  A list of things to match against a list of items, where some take any run of items and the
  others take one: tokens against the characters of a name, components against names.
\<close>

fun runs :: "('t \<Rightarrow> nat option) \<Rightarrow> ('t \<Rightarrow> 'a \<Rightarrow> bool) \<Rightarrow> 't list \<Rightarrow> 'a list \<Rightarrow> bool" where
  "runs star one [] s \<longleftrightarrow> s = []"
| "runs star one (t # ts) s \<longleftrightarrow>
     (case star t of
        Some least \<Rightarrow> (\<exists>k \<le> length s. least \<le> k \<and> runs star one ts (drop k s))
      | None \<Rightarrow> s \<noteq> [] \<and> one t (hd s) \<and> runs star one ts (tl s))"

definition token_star :: "token \<Rightarrow> nat option" where
  "token_star t = (if t = Star then Some 0 else None)"

definition name_matches :: "token list \<Rightarrow> nat list \<Rightarrow> bool" where
  "name_matches = runs token_star takes"

fun component_takes :: "component \<Rightarrow> nat list \<Rightarrow> bool" where
  "component_takes Recursive name \<longleftrightarrow> False"
| "component_takes (Tokens ts) name \<longleftrightarrow> name_matches ts name"

text \<open>A component of a path pattern with the flag that a recursive one needs a name.\<close>

definition component_star :: "bool \<times> component \<Rightarrow> nat option" where
  "component_star c = (if snd c = Recursive then Some (if fst c then 1 else 0) else None)"

definition with_tail :: "bool \<Rightarrow> component list \<Rightarrow> (bool \<times> component) list" where
  "with_tail tail_child cs = zip (replicate (length cs - 1) False @ [tail_child]) cs"

definition path_matches :: "bool \<Rightarrow> component list \<Rightarrow> nat list list \<Rightarrow> bool" where
  "path_matches tail_child cs names =
     runs component_star (\<lambda>c. component_takes (snd c)) (with_tail tail_child cs) names"

text \<open>What one thing may take, and the language of a list as a concatenation.\<close>

definition fits :: "('t \<Rightarrow> nat option) \<Rightarrow> ('t \<Rightarrow> 'a \<Rightarrow> bool) \<Rightarrow> 't \<Rightarrow> 'a list \<Rightarrow> bool" where
  "fits star one t u \<longleftrightarrow> (case star t of Some least \<Rightarrow> least \<le> length u | None \<Rightarrow> (\<exists>c. u = [c] \<and> one t c))"

lemma runs_Cons: "runs star one (t # ts) s \<longleftrightarrow> (\<exists>u v. s = u @ v \<and> fits star one t u \<and> runs star one ts v)"
proof (cases "star t")
  case None
  have "s \<noteq> [] \<and> one t (hd s) \<and> runs star one ts (tl s) \<longleftrightarrow>
      (\<exists>u v. s = u @ v \<and> (\<exists>c. u = [c] \<and> one t c) \<and> runs star one ts v)"
    by (metis append_Cons append_Nil list.exhaust_sel list.sel(1,3) list.discI)
  then show ?thesis by (simp add: fits_def None)
next
  case (Some least)
  have "(\<exists>k \<le> length s. least \<le> k \<and> runs star one ts (drop k s)) \<longleftrightarrow>
      (\<exists>u v. s = u @ v \<and> least \<le> length u \<and> runs star one ts v)"
  proof
    assume "\<exists>k \<le> length s. least \<le> k \<and> runs star one ts (drop k s)"
    then obtain k where "k \<le> length s" "least \<le> k" "runs star one ts (drop k s)" by blast
    then show "\<exists>u v. s = u @ v \<and> least \<le> length u \<and> runs star one ts v"
      by (intro exI [of _ "take k s"] exI [of _ "drop k s"]) simp
  next
    assume "\<exists>u v. s = u @ v \<and> least \<le> length u \<and> runs star one ts v"
    then obtain u v where "s = u @ v" "least \<le> length u" "runs star one ts v" by blast
    then show "\<exists>k \<le> length s. least \<le> k \<and> runs star one ts (drop k s)"
      by (intro exI [of _ "length u"]) simp
  qed
  then show ?thesis by (simp add: Some fits_def)
qed

lemma runs_append:
  "runs star one (ts @ us) s \<longleftrightarrow> (\<exists>u v. s = u @ v \<and> runs star one ts u \<and> runs star one us v)"
proof (induction ts arbitrary: s)
  case Nil
  then show ?case by simp
next
  case (Cons t ts)
  show ?case unfolding append_Cons runs_Cons Cons.IH by (metis append_assoc)
qed

lemma runs_snoc:
  "runs star one (ts @ [t]) s \<longleftrightarrow> (\<exists>u v. s = u @ v \<and> runs star one ts u \<and> fits star one t v)"
  unfolding runs_append by (simp only: runs_Cons runs.simps) (metis append_Nil2)

lemma runs_snoc_one:
  assumes "star t = None"
  shows "runs star one (ts @ [t]) (s @ [c]) \<longleftrightarrow> runs star one ts s \<and> one t c"
    and "\<not> runs star one (ts @ [t]) []"
  using assms by (auto simp: runs_snoc fits_def)

lemma runs_snoc_star:
  assumes "star t = Some least" and "i \<le> length s"
  shows "runs star one (ts @ [t]) (take i s) \<longleftrightarrow> (\<exists>j. j + least \<le> i \<and> runs star one ts (take j s))"
proof
  assume "runs star one (ts @ [t]) (take i s)"
  then obtain u v where uv: "take i s = u @ v" "runs star one ts u" "least \<le> length v"
    using assms by (auto simp: runs_snoc fits_def)
  have "length u + length v = i" using arg_cong [OF uv(1), of length] assms by simp
  moreover have "u = take (length u) s"
    using uv(1) by (metis append_eq_conv_conj append_take_drop_id append.assoc)
  ultimately show "\<exists>j. j + least \<le> i \<and> runs star one ts (take j s)" using uv
    by (intro exI [of _ "length u"]) simp
next
  assume "\<exists>j. j + least \<le> i \<and> runs star one ts (take j s)"
  then obtain j where j: "j + least \<le> i" "runs star one ts (take j s)" by blast
  have "take i s = take j s @ drop j (take i s)"
    using j by (metis append_take_drop_id min.absorb1 take_take add_leD1)
  moreover have "fits star one t (drop j (take i s))" using j assms by (simp add: fits_def)
  ultimately show "runs star one (ts @ [t]) (take i s)" unfolding runs_snoc using j(2) by blast
qed

text \<open>A row of the table: the prefixes of the items that the things so far can take.\<close>

definition table :: "('t \<Rightarrow> nat option) \<Rightarrow> ('t \<Rightarrow> 'a \<Rightarrow> bool) \<Rightarrow> 't list \<Rightarrow> 'a list \<Rightarrow> bool list \<Rightarrow> bool" where
  "table star one ts s row \<longleftrightarrow> length row = Suc (length s) \<and>
     (\<forall>i \<le> length s. row ! i \<longleftrightarrow> runs star one ts (take i s))"

lemma table_start: "table star one [] s (True # replicate (length s) False)"
  by (auto simp: table_def nth_Cons split: nat.splits)

lemma table_last: "table star one ts s row \<Longrightarrow> last row \<longleftrightarrow> runs star one ts s"
  using last_conv_nth [of row] by (force simp: table_def)

lemma some_entry_Cons: "(\<exists>j \<le> Suc k. (b # bs) ! j) \<longleftrightarrow> b \<or> (\<exists>j \<le> k. bs ! j)"
  by (metis Suc_le_mono nth_Cons_0 nth_Cons_Suc le0 not0_implies_Suc)

lemma table_star:
  assumes "table star one ts s row" and "star t = Some least" and "length row' = Suc (length s)"
    and "\<And>i. i \<le> length s \<Longrightarrow> row' ! i \<longleftrightarrow> (\<exists>j. j + least \<le> i \<and> row ! j)"
  shows "table star one (ts @ [t]) s row'"
  using assms unfolding table_def by (simp add: runs_snoc_star) (meson add_leD1 le_trans)

lemma table_one:
  assumes "table star one ts s row" and "star t = None" and "length row' = length s"
    and "\<And>i. i < length s \<Longrightarrow> row' ! i \<longleftrightarrow> row ! i \<and> one t (s ! i)"
  shows "table star one (ts @ [t]) s (False # row')"
  unfolding table_def
proof (intro conjI allI impI)
  show "length (False # row') = Suc (length s)" using assms(3) by simp
next
  fix i assume "i \<le> length s"
  then show "(False # row') ! i \<longleftrightarrow> runs star one (ts @ [t]) (take i s)"
    using assms by (cases i) (simp_all add: runs_snoc_one table_def take_Suc_conv_app_nth Suc_le_eq)
qed

lemma star_row_entries:
  "star_row b bs m = Inr (row, m') \<Longrightarrow> length row = length bs \<and>
     (\<forall>i < length bs. row ! i \<longleftrightarrow> b \<or> (\<exists>j \<le> i. bs ! j))"
proof (induction b bs m arbitrary: row m' rule: star_row.induct)
  case (2 previous b bs m)
  obtain m1 row1 where t: "tick m = Inr m1" and r: "star_row (b \<or> previous) bs m1 = Inr (row1, m')"
    and row: "row = (b \<or> previous) # row1"
    using 2(2) by (auto simp: result_simps)
  have ih: "length row1 = length bs" "\<And>i. i < length bs \<Longrightarrow> row1 ! i \<longleftrightarrow> (b \<or> previous) \<or> (\<exists>j \<le> i. bs ! j)"
    using 2(1) [OF t r] by auto
  show ?case
  proof (intro conjI allI impI)
    fix i assume i: "i < length (b # bs)"
    show "row ! i \<longleftrightarrow> previous \<or> (\<exists>j \<le> i. (b # bs) ! j)"
    proof (cases i)
      case 0
      then show ?thesis using row by auto
    next
      case (Suc k)
      then show ?thesis using i row ih(2) [of k] by (auto simp: some_entry_Cons)
    qed
  qed (simp add: row ih(1))
qed simp

lemma in_ranges_meaning:
  "in_ranges b c m rs = Inr (x, m') \<Longrightarrow> x \<longleftrightarrow> b \<or> (\<exists>(low, high) \<in> set rs. low \<le> c \<and> c \<le> high)"
  by (induction b c m rs rule: in_ranges.induct) (auto simp: result_simps)

lemma token_accepts_meaning: "token_accepts t c m = Inr (b, m') \<Longrightarrow> b \<longleftrightarrow> takes t c"
  by (cases t) (auto simp: result_simps dest: in_ranges_meaning)

lemma char_row_entries:
  "char_row t bs cs m = Inr (row, m') \<Longrightarrow> length bs = Suc (length cs) \<Longrightarrow>
     length row = length cs \<and> (\<forall>i < length cs. row ! i \<longleftrightarrow> bs ! i \<and> takes t (cs ! i))"
proof (induction t bs cs m arbitrary: row m' rule: char_row.induct)
  case (1 t b bs c cs m)
  then show ?case
    by (fastforce simp: result_simps nth_Cons split: nat.splits dest: token_accepts_meaning)
qed auto

lemma token_row_table:
  assumes "table token_star takes ts name before" and "token_row polls name (before, m) t = Inr (row, m')"
  shows "table token_star takes (ts @ [t]) name row"
proof -
  obtain b bs where bs: "before = b # bs" "length bs = length name"
    using assms(1) by (cases before) (auto simp: table_def)
  show ?thesis
  proof (cases "t = Star")
    case True
    obtain row1 m1 where r: "star_row b bs m1 = Inr (row1, m')" "row = b # row1"
      using assms(2) True bs by (auto simp: token_row_def result_simps)
    note e = star_row_entries [OF r(1)]
    show ?thesis
    proof (rule table_star [OF assms(1)])
      show "token_star t = Some 0" by (simp add: True token_star_def)
      show "length row = Suc (length name)" using r e bs by simp
    next
      fix i assume "i \<le> length name"
      then show "row ! i \<longleftrightarrow> (\<exists>j. j + 0 \<le> i \<and> before ! j)"
        using r e bs by (cases i) (simp_all add: some_entry_Cons)
    qed
  next
    case False
    obtain row1 m1 where r: "char_row t before name m1 = Inr (row1, m')" "row = False # row1"
      using assms(2) False by (auto simp: token_row_def result_simps)
    have "length before = Suc (length name)" using bs by simp
    note e = char_row_entries [OF r(1) this]
    show ?thesis unfolding r(2)
      by (rule table_one [OF assms(1)]) (use e False in \<open>auto simp: token_star_def\<close>)
  qed
qed

lemma component_match_meaning:
  assumes "component_match polls tokens name m = Inr (b, m')"
  shows "b \<longleftrightarrow> name_matches tokens name"
proof -
  have fold: "table token_star takes (ts @ us) name row"
    if "table token_star takes ts name before"
      and "foldE (token_row polls name) (before, k) us = Inr (row, k')" for ts us before k row k'
    using that
  proof (induction us arbitrary: ts before k)
    case (Cons u us)
    obtain before1 k1 where r: "token_row polls name (before, k) u = Inr (before1, k1)"
        "foldE (token_row polls name) (before1, k1) us = Inr (row, k')"
      using Cons.prems(2) by (auto simp: result_simps)
    show ?case using Cons.IH [OF token_row_table [OF Cons.prems(1) r(1)] r(2)] by simp
  qed simp
  obtain row where f: "foldE (token_row polls name) (True # replicate (length name) False, m) tokens = Inr (row, m')"
    and b: "b = last row"
    using assms by (auto simp: component_match_def result_simps)
  show ?thesis using table_last [OF fold [OF table_start f]] by (simp add: b name_matches_def)
qed

lemma name_row_entries:
  "name_row polls ts bs names m = Inr (row, m') \<Longrightarrow> length bs = Suc (length names) \<Longrightarrow>
     length row = length names \<and> (\<forall>i < length names. row ! i \<longleftrightarrow> bs ! i \<and> name_matches ts (names ! i))"
proof (induction polls ts bs names m arbitrary: row m' rule: name_row.induct)
  case (1 polls ts b bs name names m)
  obtain m1 x m2 row1 where s: "tick m = Inr m1"
      "(if b then component_match polls ts name m1 else Inr (False, m1)) = Inr (x, m2)"
      "name_row polls ts bs names m2 = Inr (row1, m')" "row = x # row1"
    using 1(2) by (auto simp: result_simps)
  have "x \<longleftrightarrow> b \<and> name_matches ts name"
    using s(2) by (auto split: if_splits dest: component_match_meaning)
  then show ?case using 1(1) [OF s(1) s(2) refl s(3)] 1(3) s(4) by (auto simp: nth_Cons split: nat.splits)
qed auto

abbreviation path_table :: "(bool \<times> component) list \<Rightarrow> nat list list \<Rightarrow> bool list \<Rightarrow> bool" where
  "path_table \<equiv> table component_star (\<lambda>c. component_takes (snd c))"

lemma component_row_table:
  assumes "path_table cs names before" and "component_row polls child names (before, m) c = Inr (row, m')"
  shows "path_table (cs @ [(child, c)]) names row"
proof -
  obtain b bs where bs: "before = b # bs" "length bs = length names"
    using assms(1) by (cases before) (auto simp: table_def)
  show ?thesis
  proof (cases c)
    case (Tokens ts)
    obtain row1 m1 where r: "name_row polls ts before names m1 = Inr (row1, m')" "row = False # row1"
      using assms(2) Tokens by (auto simp: component_row_def result_simps)
    have "length before = Suc (length names)" using bs by simp
    note e = name_row_entries [OF r(1) this]
    show ?thesis unfolding r(2)
      by (rule table_one [OF assms(1)]) (use e Tokens in \<open>auto simp: component_star_def\<close>)
  next
    case Recursive
    show ?thesis
    proof (cases child)
      case True
      obtain row1 m1 where r: "star_row False (butlast before) m1 = Inr (row1, m')" "row = False # row1"
        using assms(2) True Recursive bs by (auto simp: component_row_def result_simps)
      have len: "length (butlast before) = length names" using bs by (metis length_butlast diff_Suc_1 length_Cons)
      note e = star_row_entries [OF r(1), unfolded len]
      show ?thesis
      proof (rule table_star [OF assms(1)])
        show "component_star (child, c) = Some 1" by (simp add: True Recursive component_star_def)
        show "length row = Suc (length names)" using r e by simp
      next
        fix i assume i: "i \<le> length names"
        show "row ! i \<longleftrightarrow> (\<exists>j. j + 1 \<le> i \<and> before ! j)"
        proof (cases i)
          case (Suc k)
          have "butlast before ! j = before ! j" if "j \<le> k" for j
            by (rule nth_butlast) (use that i Suc len in simp)
          then show ?thesis using r e i Suc by (auto simp: less_Suc_eq_le)
        qed (simp add: r)
      qed
    next
      case False
      obtain row1 m1 where r: "star_row b bs m1 = Inr (row1, m')" "row = b # row1"
        using assms(2) False Recursive bs by (auto simp: component_row_def result_simps)
      note e = star_row_entries [OF r(1)]
      show ?thesis
      proof (rule table_star [OF assms(1)])
        show "component_star (child, c) = Some 0" by (simp add: False Recursive component_star_def)
        show "length row = Suc (length names)" using r e bs by simp
      next
        fix i assume "i \<le> length names"
        then show "row ! i \<longleftrightarrow> (\<exists>j. j + 0 \<le> i \<and> before ! j)"
          using r e bs by (cases i) (simp_all add: some_entry_Cons)
      qed
    qed
  qed
qed

lemma with_tail_Cons:
  "with_tail child (c # cs) = (child \<and> cs = [], c) # with_tail child cs"
  by (cases cs) (auto simp: with_tail_def)

lemma pattern_rows_table:
  "path_table ds names (fst acc) \<Longrightarrow> pattern_rows polls child names acc cs = Inr (row, m') \<Longrightarrow>
     path_table (ds @ with_tail child cs) names row"
proof (induction cs arbitrary: ds acc)
  case Nil
  then show ?case by (simp add: with_tail_def)
next
  case (Cons c cs)
  obtain before m where acc: "acc = (before, m)" by (cases acc)
  obtain before1 m1 where s: "component_row polls (child \<and> cs = []) names (before, m) c = Inr (before1, m1)"
      "pattern_rows polls child names (before1, m1) cs = Inr (row, m')"
    using Cons.prems(2) acc by (auto simp: result_simps)
  have "path_table (ds @ [(child \<and> cs = [], c)]) names (fst (before1, m1))"
    using component_row_table [OF _ s(1)] Cons.prems(1) acc by simp
  from Cons.IH [OF this s(2)] show ?case by (simp add: with_tail_Cons)
qed

lemma match_patterns_meaning:
  "match_patterns polls child names m ps = Inr (b, m') \<Longrightarrow> b \<longleftrightarrow> (\<exists>p \<in> set ps. path_matches child p names)"
proof (induction polls child names m ps arbitrary: b m' rule: match_patterns.induct)
  case (2 polls child names m p ps)
  obtain row m1 where s: "pattern_rows polls child names (True # replicate (length names) False, m) p = Inr (row, m1)"
      "(if last row then Inr (True, m1) else match_patterns polls child names m1 ps) = Inr (b, m')"
    using 2(2) by (auto simp: result_simps)
  have "last row \<longleftrightarrow> path_matches child p names"
    using table_last [OF pattern_rows_table [OF _ s(1), of "[]"]]
    by (simp add: path_matches_def table_start)
  then show ?case using s 2(1) [OF s(1) refl] by (auto split: if_splits)
qed simp

section \<open>The budget that suffices\<close>

fun token_cost :: "token \<Rightarrow> nat" where
  "token_cost (Class negated ranges) = 1 + length ranges"
| "token_cost _ = 1"

definition tokens_cost :: "token list \<Rightarrow> nat" where
  "tokens_cost ts = sum_list (map token_cost ts)"

definition names_cost :: "token list \<Rightarrow> nat list list \<Rightarrow> nat" where
  "names_cost ts names = sum_list (map (\<lambda>name. 1 + tokens_cost ts * length name) names)"

fun component_cost :: "nat list list \<Rightarrow> component \<Rightarrow> nat" where
  "component_cost names Recursive = length names"
| "component_cost names (Tokens ts) = names_cost ts names"

definition glob_cost :: "path_glob \<Rightarrow> nat list list \<Rightarrow> nat" where
  "glob_cost g names = sum_list (map (\<lambda>p. sum_list (map (component_cost names) p)) (patterns g))"

text \<open>A computation over the meter that returns, within a number of steps.\<close>

definition within :: "nat \<Rightarrow> nat \<Rightarrow> glob_error + 'a \<times> meter \<Rightarrow> bool" where
  "within steps cost r \<longleftrightarrow> (\<exists>x steps' asked'. r = Inr (x, (steps', asked')) \<and> steps' \<le> steps + cost)"

abbreviation never :: "nat \<Rightarrow> bool" where "never \<equiv> \<lambda>_. False"

lemma within_bind:
  assumes "within s c r" and "\<And>x s' a'. r = Inr (x, (s', a')) \<Longrightarrow> s' \<le> s + c \<Longrightarrow> within s' d (f (x, (s', a')))"
  shows "within s (c + d) (bindE r f)"
  using assms by (fastforce simp: within_def)

lemma within_return: "within s c (Inr (x, (s, a)))"
  by (simp add: within_def)

lemma within_map: "within s c r \<Longrightarrow> (\<And>x m. f (x, m) = Inr (g x, m)) \<Longrightarrow> within s c (bindE r f)"
  by (auto simp: within_def)

lemma within_tick:
  "s + 1 \<le> 50000000 \<Longrightarrow> within (s + 1) c (f (s + 1, a)) \<Longrightarrow> within s (1 + c) (bindE (tick (s, a)) f)"
  by (auto simp: within_def tick_def)

lemma within_poll: "within s c (f (s, a + 1)) \<Longrightarrow> within s c (bindE (glob_poll never (s, a)) f)"
  by (simp add: glob_poll_def)

lemma in_ranges_within:
  "s + length rs \<le> 50000000 \<Longrightarrow> within s (length rs) (in_ranges b c (s, a) rs)"
proof (induction rs arbitrary: s b)
  case Nil
  then show ?case by (simp add: within_def)
next
  case (Cons r rs)
  obtain low high where r: "r = (low, high)" by (cases r)
  have "within s (1 + length rs) (in_ranges b c (s, a) (r # rs))"
    unfolding r in_ranges.simps by (rule within_tick) (use Cons in auto)
  then show ?case by simp
qed

lemma token_accepts_within:
  "s + token_cost t \<le> 50000001 \<Longrightarrow> within s (token_cost t - 1) (token_accepts t c (s, a))"
proof (cases t)
  case (Class negated ranges)
  assume "s + token_cost t \<le> 50000001"
  then have "within s (length ranges) (in_ranges False c (s, a) ranges)"
    using Class by (intro in_ranges_within) simp
  then show ?thesis using Class by (auto simp: within_def)
qed (simp_all add: within_return)

lemma star_row_within:
  "s + length bs \<le> 50000000 \<Longrightarrow> within s (length bs) (star_row b bs (s, a))"
proof (induction bs arbitrary: s b)
  case Nil
  then show ?case by (simp add: within_def)
next
  case (Cons x xs)
  have "within s (1 + length xs) (star_row b (x # xs) (s, a))" unfolding star_row.simps
    by (rule within_tick) (use Cons.prems Cons.IH [of "s + 1" "x \<or> b"] in \<open>auto simp: within_def\<close>)
  then show ?case by simp
qed

lemma token_cost_pos: "1 \<le> token_cost t"
  by (cases t) auto

lemma char_row_within:
  "s + token_cost t * length cs \<le> 50000000 \<Longrightarrow> length bs = Suc (length cs) \<Longrightarrow>
     within s (token_cost t * length cs) (char_row t bs cs (s, a))"
proof (induction cs arbitrary: s bs a)
  case Nil
  then show ?case by (cases bs) (simp_all add: within_def)
next
  case (Cons c cs)
  obtain b bs1 where bs: "bs = b # bs1" "length bs1 = Suc (length cs)"
    using Cons.prems(2) by (cases bs) auto
  note pos = token_cost_pos [of t]
  have cost: "1 + (token_cost t - 1 + token_cost t * length cs) = token_cost t * length (c # cs)"
    using pos by (simp add: algebra_simps)
  have "within s (1 + (token_cost t - 1 + token_cost t * length cs)) (char_row t bs (c # cs) (s, a))"
    unfolding bs(1) char_row.simps
  proof (rule within_tick)
    show "s + 1 \<le> 50000000" using Cons.prems(1) pos cost by linarith
  next
    show "within (s + 1) (token_cost t - 1 + token_cost t * length cs)
        (bindE (token_accepts t c (s + 1, a)) (\<lambda>(accepted, m2).
          bindE (char_row t bs1 cs m2) (\<lambda>(row, m3). Inr ((b \<and> accepted) # row, m3))))"
    proof (rule within_bind)
      show "within (s + 1) (token_cost t - 1) (token_accepts t c (s + 1, a))"
        by (rule token_accepts_within) (use Cons.prems(1) pos cost in linarith)
    next
      fix x s' a' assume "s' \<le> s + 1 + (token_cost t - 1)"
      then have "s' + token_cost t * length cs \<le> 50000000" using Cons.prems(1) pos cost by linarith
      from Cons.IH [OF this bs(2), of a']
      show "within s' (token_cost t * length cs) (case (x, (s', a')) of (accepted, m2) \<Rightarrow>
          bindE (char_row t bs1 cs m2) (\<lambda>(row, m3). Inr ((b \<and> accepted) # row, m3)))"
        by (auto simp: within_def)
    qed
  qed
  then show ?case unfolding cost .
qed

lemma token_row_within:
  assumes "s + token_cost t * length name \<le> 50000000" and "length before = Suc (length name)"
  shows "within s (token_cost t * length name) (token_row never name (before, (s, a)) t)"
proof (cases "t = Star")
  case True
  have "within s (length (tl before)) (star_row (hd before) (tl before) (s, a + 1))"
    by (rule star_row_within) (use assms True in simp)
  then show ?thesis using True assms(2) by (auto simp: token_row_def glob_poll_def within_def)
next
  case False
  then show ?thesis using char_row_within [OF assms, of "a + 1"]
    by (auto simp: token_row_def glob_poll_def within_def)
qed

lemma token_row_length:
  "token_row polls name (before, m) t = Inr (row, m') \<Longrightarrow> length before = Suc (length name) \<Longrightarrow>
     length row = Suc (length name)"
  by (auto simp: token_row_def result_simps split: if_splits dest!: star_row_entries char_row_entries)

lemma component_match_within:
  assumes "s + tokens_cost tokens * length name \<le> 50000000"
  shows "within s (tokens_cost tokens * length name) (component_match never tokens name (s, a))"
proof -
  have "within s (tokens_cost ts * length name) (foldE (token_row never name) (before, (s, a)) ts)"
    if "s + tokens_cost ts * length name \<le> 50000000" "length before = Suc (length name)" for ts s a before
    using that
  proof (induction ts arbitrary: s a before)
    case Nil
    then show ?case by (simp add: within_def)
  next
    case (Cons t ts)
    have cost: "tokens_cost (t # ts) * length name = token_cost t * length name + tokens_cost ts * length name"
      by (simp add: tokens_cost_def algebra_simps)
    show ?case unfolding cost foldE.simps
    proof (rule within_bind)
      show "within s (token_cost t * length name) (token_row never name (before, s, a) t)"
        by (rule token_row_within) (use Cons.prems cost in linarith)+
    next
      fix row s' a'
      assume r: "token_row never name (before, s, a) t = Inr (row, s', a')"
        and s': "s' \<le> s + token_cost t * length name"
      show "within s' (tokens_cost ts * length name) (foldE (token_row never name) (row, s', a') ts)"
        by (rule Cons.IH [OF _ token_row_length [OF r Cons.prems(2)]]) (use s' Cons.prems(1) cost in linarith)
    qed
  qed
  from this [OF assms, of "True # replicate (length name) False" a] show ?thesis
    by (auto simp: component_match_def within_def)
qed

lemma name_row_within:
  "s + names_cost ts names \<le> 50000000 \<Longrightarrow> length bs = Suc (length names) \<Longrightarrow>
     within s (names_cost ts names) (name_row never ts bs names (s, a))"
proof (induction names arbitrary: s bs a)
  case Nil
  then show ?case by (cases bs) (simp_all add: within_def)
next
  case (Cons name names)
  obtain b bs1 where bs: "bs = b # bs1" "length bs1 = Suc (length names)"
    using Cons.prems(2) by (cases bs) auto
  have cost: "names_cost ts (name # names) = 1 + (tokens_cost ts * length name + names_cost ts names)"
    by (simp add: names_cost_def)
  show ?case unfolding bs(1) name_row.simps cost
  proof (rule within_tick)
    show "s + 1 \<le> 50000000" using Cons.prems(1) cost by linarith
  next
    show "within (s + 1) (tokens_cost ts * length name + names_cost ts names)
        (bindE (if b then component_match never ts name (s + 1, a) else Inr (False, (s + 1, a)))
          (\<lambda>(x, m2). bindE (name_row never ts bs1 names m2) (\<lambda>(row, m3). Inr (x # row, m3))))"
    proof (rule within_bind)
      have "s + 1 + tokens_cost ts * length name \<le> 50000000" using Cons.prems(1) cost by linarith
      from component_match_within [OF this, of a]
      show "within (s + 1) (tokens_cost ts * length name)
          (if b then component_match never ts name (s + 1, a) else Inr (False, (s + 1, a)))"
        by (cases b) (simp_all add: within_return)
    next
      fix x s' a' assume "s' \<le> s + 1 + tokens_cost ts * length name"
      then have "s' + names_cost ts names \<le> 50000000" using Cons.prems(1) cost by linarith
      from Cons.IH [OF this bs(2), of a']
      show "within s' (names_cost ts names) (case (x, (s', a')) of (x, m2) \<Rightarrow>
          bindE (name_row never ts bs1 names m2) (\<lambda>(row, m3). Inr (x # row, m3)))"
        by (auto simp: within_def)
    qed
  qed
qed

lemma component_row_within:
  assumes "s + component_cost names c \<le> 50000000" and "length before = Suc (length names)"
  shows "within s (component_cost names c) (component_row never child names (before, (s, a)) c)"
proof (cases c)
  case (Tokens ts)
  have "within s (names_cost ts names) (name_row never ts before names (s, a + 1))"
    by (rule name_row_within) (use assms Tokens in simp_all)
  then show ?thesis using Tokens by (auto simp: component_row_def glob_poll_def within_def)
next
  case Recursive
  have len: "length (butlast before) = length names" "length (tl before) = length names" using assms(2) by simp_all
  have "within s (length names) (star_row False (butlast before) (s, a + 1))"
    "within s (length names) (star_row (hd before) (tl before) (s, a + 1))"
    using star_row_within [of s "butlast before" False] star_row_within [of s "tl before" "hd before"]
      assms(1) Recursive unfolding len by auto
  then show ?thesis using Recursive by (auto simp: component_row_def glob_poll_def within_def)
qed

lemma component_row_length:
  "component_row polls child names (before, m) c = Inr (row, m') \<Longrightarrow> length before = Suc (length names) \<Longrightarrow>
     length row = Suc (length names)"
  by (auto simp: component_row_def result_simps split: if_splits component.splits
      dest!: star_row_entries name_row_entries)

lemma pattern_rows_within:
  "s + sum_list (map (component_cost names) cs) \<le> 50000000 \<Longrightarrow> length before = Suc (length names) \<Longrightarrow>
     within s (sum_list (map (component_cost names) cs)) (pattern_rows never child names (before, (s, a)) cs)"
proof (induction cs arbitrary: s a before)
  case Nil
  then show ?case by (simp add: within_def)
next
  case (Cons c cs)
  show ?case unfolding pattern_rows.simps list.map sum_list.Cons
  proof (rule within_bind)
    show "within s (component_cost names c) (component_row never (child \<and> cs = []) names (before, s, a) c)"
      by (rule component_row_within) (use Cons.prems in simp_all)
  next
    fix row s' a'
    assume r: "component_row never (child \<and> cs = []) names (before, s, a) c = Inr (row, s', a')"
      and s': "s' \<le> s + component_cost names c"
    show "within s' (sum_list (map (component_cost names) cs)) (pattern_rows never child names (row, s', a') cs)"
      by (rule Cons.IH [OF _ component_row_length [OF r Cons.prems(2)]]) (use s' Cons.prems(1) in simp)
  qed
qed

lemma match_patterns_within:
  "s + sum_list (map (\<lambda>p. sum_list (map (component_cost names) p)) ps) \<le> 50000000 \<Longrightarrow>
     within s (sum_list (map (\<lambda>p. sum_list (map (component_cost names) p)) ps))
       (match_patterns never child names (s, a) ps)"
proof (induction ps arbitrary: s a)
  case Nil
  then show ?case by (simp add: within_return)
next
  case (Cons p ps)
  show ?case unfolding match_patterns.simps list.map sum_list.Cons
  proof (rule within_bind)
    show "within s (sum_list (map (component_cost names) p))
        (pattern_rows never child names (True # replicate (length names) False, s, a) p)"
      by (rule pattern_rows_within) (use Cons.prems in simp_all)
  next
    fix row s' a' assume "s' \<le> s + sum_list (map (component_cost names) p)"
    then show "within s' (sum_list (map (\<lambda>p. sum_list (map (component_cost names) p)) ps))
        (case (row, (s', a')) of (row, m1) \<Rightarrow>
          if last row then Inr (True, m1) else match_patterns never child names m1 ps)"
      using Cons.IH [of s' a'] Cons.prems by (auto simp: within_return)
  qed
qed

section \<open>Properties\<close>

text \<open>
  C35. \<open>PathGlob::matches\<close> decides the meaning of its patterns. Whatever was asked before, an
  answer says exactly whether some alternative of the compiled glob describes the path, where a
  star takes any run of characters of one name, a recursive component any run of names (at least
  one at the end of an ignore pattern), and a class the characters of its ranges; and with no
  cancellation an answer is given whenever the steps left cover the product of tokens and
  characters of the tables.
\<close>

theorem glob_match_denotes:
  assumes "mapE scalars (path_parts path) = Inr names"
  shows "(\<forall>polls m b m'. glob_matches polls g path m = Inr (b, m') \<longrightarrow>
            (b \<longleftrightarrow> (\<exists>p \<in> set (patterns g). path_matches (tail_requires_child g) p names))) \<and>
         (\<forall>steps asked. steps + glob_cost g names \<le> 50000000 \<longrightarrow>
            (\<exists>steps' asked'. glob_matches (\<lambda>_. False) g path (steps, asked) =
               Inr (\<exists>p \<in> set (patterns g). path_matches (tail_requires_child g) p names, (steps', asked')) \<and>
               steps' \<le> steps + glob_cost g names))"
proof (intro conjI allI impI)
  fix polls m b m' assume "glob_matches polls g path m = Inr (b, m')"
  then show "b \<longleftrightarrow> (\<exists>p \<in> set (patterns g). path_matches (tail_requires_child g) p names)"
    using assms by (auto simp: glob_matches_def dest: match_patterns_meaning)
next
  fix steps asked assume "steps + glob_cost g names \<le> 50000000"
  then have "within steps (glob_cost g names)
      (match_patterns never (tail_requires_child g) names (steps, asked) (patterns g))"
    unfolding glob_cost_def by (rule match_patterns_within)
  then obtain b steps' asked' where m: "match_patterns never (tail_requires_child g) names (steps, asked) (patterns g) =
      Inr (b, (steps', asked'))" "steps' \<le> steps + glob_cost g names"
    by (auto simp: within_def)
  then show "\<exists>steps' asked'. glob_matches (\<lambda>_. False) g path (steps, asked) =
      Inr (\<exists>p \<in> set (patterns g). path_matches (tail_requires_child g) p names, (steps', asked')) \<and>
      steps' \<le> steps + glob_cost g names"
    using assms match_patterns_meaning [OF m(1)] by (auto simp: glob_matches_def)
qed

text \<open>The glob \<open>src/**/*.c\<close> on \<open>src/a/b.c\<close>.\<close>

definition sample_path_glob :: path_glob where
  "sample_path_glob = \<lparr>patterns = [[Tokens [Literal 115, Literal 114, Literal 99], Recursive,
     Tokens [Star, Literal 46, Literal 99]]], tail_requires_child = False\<rparr>"

lemma scalars_ascii: "(\<forall>c \<in> set s. 0 < byte c \<and> byte c < 128) \<Longrightarrow> scalars s = Inr (map byte s)"
  by (induction s) (simp_all add: scalars.simps [of "[]"] scalars.simps [of "_ # _"])

lemma sample_path_parts: "path_parts ''src/a/b.c'' = [''src'', ''a'', ''b.c'']"
  by (simp add: path_parts_def)

lemma sample_path_names: "mapE scalars (path_parts ''src/a/b.c'') = Inr [[115, 114, 99], [97], [98, 46, 99]]"
  unfolding sample_path_parts by (simp add: scalars_ascii)

theorem glob_match_denotes_witness:
  "\<exists>steps' asked'. glob_matches (\<lambda>_. False) sample_path_glob ''src/a/b.c'' (0, 0) =
     Inr (\<exists>p \<in> set (patterns sample_path_glob).
       path_matches (tail_requires_child sample_path_glob) p [[115, 114, 99], [97], [98, 46, 99]], (steps', asked')) \<and>
     steps' \<le> 0 + glob_cost sample_path_glob [[115, 114, 99], [97], [98, 46, 99]]"
proof -
  have "0 + glob_cost sample_path_glob [[115, 114, 99], [97], [98, 46, 99]] \<le> 50000000"
    by (simp add: glob_cost_def sample_path_glob_def names_cost_def tokens_cost_def)
  with glob_match_denotes [OF sample_path_names, of sample_path_glob] show ?thesis by blast
qed

end
