(* ===== verification/Json_Schema.thy ===== *)
theory Json_Schema
  imports Mcp_Wire
begin

text \<open>
  \<open>json_schema.cpp\<close>: the adapter over the vendored schema library, which is the parameter
  \<open>schema_lib\<close> (its parser with bounded nesting, its two metaschemas, its compiler). A compiled
  schema is the source with the predicate of the instances it accepts. A failure of the regular
  expression engine for want of resources is not modelled.
\<close>

datatype schema_error = Schema_invalid bytes | Arguments_invalid bytes

record schema_lib =
  nested_parse :: "bytes \<Rightarrow> json option"
  draft2020_name :: bytes
  draft7_name :: bytes
  draft2020_ok :: "json \<Rightarrow> bool"
  draft7_ok :: "json \<Rightarrow> bool"
  make_schema :: "bytes \<Rightarrow> json \<Rightarrow> (json \<Rightarrow> bool) option"

definition schema_version :: "schema_lib \<Rightarrow> json \<Rightarrow> schema_error + bytes" where
  "schema_version sl v =
     (case member v ''$schema'' of
        None \<Rightarrow> Inr (draft2020_name sl)
      | Some d \<Rightarrow>
        if \<not> is_string d then Inl (Schema_invalid ''Invalid MCP schema dialect'')
        else if str_of d \<noteq> draft2020_name sl \<and> str_of d \<noteq> draft7_name sl
        then Inl (Schema_invalid ''Unsupported MCP schema dialect'')
        else Inr (str_of d))"

definition compile_schema :: "json_lib \<Rightarrow> schema_lib \<Rightarrow> bytes \<Rightarrow> schema_error + (json \<Rightarrow> bool)" where
  "compile_schema lib sl source =
     (if source = [] \<or> length source > 262144 then Inl (Schema_invalid ''MCP schema exceeds byte limits'')
      else case mcp_compact_object lib source of
        Inl _ \<Rightarrow> Inl (Schema_invalid ''Invalid MCP schema JSON'')
      | Inr compact \<Rightarrow> (case nested_parse sl compact of
          None \<Rightarrow> Inl (Schema_invalid ''Invalid MCP schema JSON'')
        | Some v \<Rightarrow> bindE (schema_version sl v) (\<lambda>version.
            if \<not> (if version = draft7_name sl then draft7_ok sl v else draft2020_ok sl v)
            then Inl (Schema_invalid ''Invalid JSON Schema document for its declared dialect'')
            else case make_schema sl version v of
              None \<Rightarrow> Inl (Schema_invalid ''MCP schema is invalid or has unresolved references'')
            | Some accepts \<Rightarrow> Inr accepts)))"

definition validate_object :: "json_lib \<Rightarrow> schema_lib \<Rightarrow> (json \<Rightarrow> bool) \<Rightarrow> bytes \<Rightarrow> schema_error + unit" where
  "validate_object lib sl accepts instance_text =
     (if instance_text = [] \<or> length instance_text > 65536
      then Inl (Arguments_invalid ''MCP arguments exceed byte limits'')
      else case mcp_compact_object lib instance_text of
        Inl _ \<Rightarrow> Inl (Arguments_invalid ''Invalid MCP argument JSON'')
      | Inr compact \<Rightarrow> (case nested_parse sl compact of
          None \<Rightarrow> Inl (Arguments_invalid ''Invalid MCP argument JSON'')
        | Some v \<Rightarrow> if accepts v then Inr ()
            else Inl (Arguments_invalid ''Arguments do not match the MCP input schema'')))"

end
