(* ===== verification/Dynamic_Plan.thy ===== *)
theory Dynamic_Plan
  imports Json_Schema "HOL-Library.List_Lexorder" "HOL-Library.Char_ord"
begin

text \<open>
  \<open>dynamic_plan.cpp\<close> and \<open>dynamic_plan_records.hpp\<close>, the data of a plan that a model changes while
  it runs: the parsing of a change, the checks of capabilities and definitions, the sealing of
  the tool catalogue, and the cycle check over task dependencies. The JSON library and the
  schema library are parameters. Exceptions keep their class and message.
\<close>

section \<open>Records\<close>

datatype plan_error = Plan_invalid bytes | Plan_conflict bytes | Plan_unavailable bytes
  | Plan_missing bytes | Plan_json | Plan_stuck

datatype task_kind = Agent_task | Tool_task | Human_task

datatype requirement = On_success | On_observed

datatype task_state = Task_pending | Task_blocked | Task_claimed | Task_waiting_human
  | Task_settled | Task_skipped | Task_cancelled | Task_uncertain

record preset_capability =
  preset_name :: bytes
  preset_rev :: int
  preset_readonly :: bool
  preset_tools :: "bytes list"
  preset_turns :: int
  preset_backend :: bytes

record plan_capabilities =
  max_nodes :: int
  max_revisions :: int
  max_humans :: int
  change_bytes :: int
  human_expiry_ms :: int
  max_parent_turns :: int
  cap_revision :: int
  cap_backend :: bytes
  workspace_identity :: bytes
  provider_identity_json :: bytes
  presets :: "preset_capability list"
  tool_catalog_json :: bytes
  catalogue_finalized :: bool

record task_dependency =
  dep_task :: bytes
  dep_require :: requirement

record task_definition =
  task_label :: bytes
  task_kind_of :: task_kind
  objective :: bytes
  question :: bytes
  preset_id :: bytes
  task_tool :: bytes
  task_arguments :: bytes
  preset_revision :: int
  dependencies :: "task_dependency list"

record task_record =
  task :: task_definition
  backend_node_id :: bytes
  task_state :: task_state
  definition_revision :: int
  claim_revision :: int
  claim_id :: bytes
  child_run_id :: bytes
  human_request_id :: bytes
  child_state :: bytes
  outcome_json :: bytes
  resolved_input_json :: bytes
  settled_event_seq :: "int option"
  effect_state :: bytes
  protected_definition :: bool

record plan_record =
  plan_id :: bytes
  root_run_id :: bytes
  plan_revision :: int
  state_sequence :: int
  lifecycle :: bytes
  plan_caps :: plan_capabilities
  tasks :: "task_record list"
  retired_labels :: "bytes list"
  children_reserved :: int
  humans_reserved :: int
  humans_published :: int

record plan_change =
  expected_revision :: int
  expected_state_sequence :: int
  add_tasks :: "task_definition list"
  replace_tasks :: "task_definition list"
  skip_tasks :: "bytes list"
  change_json :: bytes

record plan_candidate =
  cand_tasks :: "task_record list"
  cand_retired :: "bytes list"
  cand_children :: int
  cand_humans :: int
  newhuman_count :: int
  canonical_spec_json :: bytes

definition plan_rejection :: "bytes \<Rightarrow> plan_error + bytes" where
  "plan_rejection code =
     bindE (guardE (code \<in> {''invalid_plan_arguments'', ''plan_changed'', ''planning_budget_exhausted'',
       ''planning_depth_exhausted''}) (Plan_invalid ''Invalid bounded planning rejection code'')) (\<lambda>_. Inr code)"

record tool_definition =
  tool_name :: bytes
  tool_description :: bytes
  input_schema_json :: bytes

section \<open>Helpers over JSON\<close>

definition plan_need :: "bool \<Rightarrow> bytes \<Rightarrow> plan_error + unit" where
  "plan_need b message = guardE b (Plan_invalid message)"

definition obj :: "(bytes \<times> json) list \<Rightarrow> json" where
  "obj kvs = JObj (fold (\<lambda>(k, v). put_member k v) kvs [])"

text \<open>What a range-for over a value of the library visits.\<close>

fun iter_values :: "json \<Rightarrow> json list" where
  "iter_values JNull = []"
| "iter_values (JArr xs) = xs"
| "iter_values (JObj ms) = map snd ms"
| "iter_values v = [v]"

definition at_member :: "json \<Rightarrow> bytes \<Rightarrow> plan_error + json" where
  "at_member v k = (case member v k of None \<Rightarrow> Inl Plan_json | Some x \<Rightarrow> Inr x)"

fun get_string :: "json \<Rightarrow> plan_error + bytes" where
  "get_string (JStr s) = Inr s"
| "get_string v = Inl Plan_json"

text \<open>\<open>value(key, "")\<close>, which throws on a member that is no string and on a value that is no object.\<close>

definition value_string :: "json \<Rightarrow> bytes \<Rightarrow> plan_error + bytes" where
  "value_string v k =
     (if \<not> is_object v then Inl Plan_json
      else case member v k of None \<Rightarrow> Inr [] | Some x \<Rightarrow> get_string x)"

text \<open>\<open>get<int64_t>\<close> of an integer the library holds unsigned wraps around.\<close>

definition as_int64 :: "int \<Rightarrow> int" where
  "as_int64 i = (if i \<ge> 2 ^ 63 then i - 2 ^ 64 else i)"

fun positive_integer :: "json \<Rightarrow> bool" where
  "positive_integer (JInt i) \<longleftrightarrow> 1 \<le> as_int64 i"
| "positive_integer v \<longleftrightarrow> False"

definition safe_integer :: int where "safe_integer = 9007199254740991"

definition dumpP :: "json_lib \<Rightarrow> json \<Rightarrow> plan_error + bytes" where
  "dumpP lib v = (case dump lib v of None \<Rightarrow> Inl Plan_json | Some s \<Rightarrow> Inr s)"

definition parseP :: "json_lib \<Rightarrow> bytes \<Rightarrow> plan_error + json" where
  "parseP lib s = (case json_text lib s of None \<Rightarrow> Inl Plan_json | Some v \<Rightarrow> Inr v)"

definition plan_object :: "json_lib \<Rightarrow> bytes \<Rightarrow> nat \<Rightarrow> plan_error + json" where
  "plan_object lib source limit =
     bindE (plan_need (source \<noteq> [] \<and> length source \<le> limit) ''Dynamic plan JSON exceeds its byte limit'') (\<lambda>_.
       case mcp_compact_object lib source of
         Inl _ \<Rightarrow> Inl (Plan_invalid ''Invalid dynamic plan JSON, duplicate field or UTF-8'')
       | Inr compact \<Rightarrow> (case json_text lib compact of
           None \<Rightarrow> Inl (Plan_invalid ''Invalid dynamic plan JSON'') | Some v \<Rightarrow> Inr v))"

definition plan_fields :: "json \<Rightarrow> bytes list \<Rightarrow> plan_error + unit" where
  "plan_fields v allowed =
     bindE (plan_need (is_object v) ''Dynamic plan value must be an object'') (\<lambda>_.
       plan_need (list_all (\<lambda>(k, x). k \<in> set allowed) (members v)) ''Unsupported dynamic plan field'')"

definition has_string :: "json \<Rightarrow> bytes \<Rightarrow> bool" where
  "has_string v k \<longleftrightarrow> has_member v k \<and> is_string (at_key v k)"

definition string_field :: "json \<Rightarrow> bytes \<Rightarrow> nat \<Rightarrow> plan_error + bytes" where
  "string_field v key limit =
     bindE (plan_need (has_string v key) ''Dynamic plan requires a string field'') (\<lambda>_.
       let result = str_of (at_key v key) in
       bindE (plan_need (result \<noteq> [] \<and> length result \<le> limit \<and> CHR 0x00 \<notin> set result)
         (''Dynamic plan string field exceeds its bounds: '' @ key)) (\<lambda>_. Inr result))"

definition valid_text :: "json_lib \<Rightarrow> bytes \<Rightarrow> nat \<Rightarrow> plan_error + unit" where
  "valid_text lib s limit =
     bindE (plan_need (s \<noteq> [] \<and> length s \<le> limit \<and> CHR 0x00 \<notin> set s) ''Invalid dynamic plan text'') (\<lambda>_.
       plan_need (dump lib (JStr s) \<noteq> None) ''Invalid dynamic plan UTF-8'')"

definition label_chars :: bytes where
  "label_chars = ''abcdefghijklmnopqrstuvwxyzABCDEFGHIJKLMNOPQRSTUVWXYZ0123456789_.-''"

definition check_label :: "json_lib \<Rightarrow> bytes \<Rightarrow> plan_error + unit" where
  "check_label lib s =
     bindE (valid_text lib s 32) (\<lambda>_. plan_need (set s \<subseteq> set label_chars) ''Invalid dynamic task label'')"

definition identity_chars :: bytes where
  "identity_chars = ''abcdefghijklmnopqrstuvwxyzABCDEFGHIJKLMNOPQRSTUVWXYZ0123456789_-''"

definition check_identity :: "json_lib \<Rightarrow> bytes \<Rightarrow> plan_error + unit" where
  "check_identity lib s =
     bindE (valid_text lib s 128) (\<lambda>_.
       plan_need (set s \<subseteq> set identity_chars) ''Invalid backend dynamic execution identity'')"

definition integer_field :: "json \<Rightarrow> bytes \<Rightarrow> int \<Rightarrow> plan_error + int" where
  "integer_field v key minimum =
     (case member v key of
        Some (JInt i) \<Rightarrow>
          bindE (plan_need (i \<le> safe_integer) ''Dynamic precondition exceeds the exact integer range'') (\<lambda>_.
          bindE (plan_need (minimum \<le> i) ''Dynamic plan precondition is outside its bounds'') (\<lambda>_. Inr i))
      | _ \<Rightarrow> Inl (Plan_invalid ''Dynamic plan requires an exact integer precondition''))"

fun kind_text :: "task_kind \<Rightarrow> bytes" where
  "kind_text Agent_task = ''agent''"
| "kind_text Tool_task = ''tool''"
| "kind_text Human_task = ''human''"

fun requirement_text :: "requirement \<Rightarrow> bytes" where
  "requirement_text On_success = ''success''"
| "requirement_text On_observed = ''observed''"

fun task_state_text :: "task_state \<Rightarrow> bytes" where
  "task_state_text Task_pending = ''pending''"
| "task_state_text Task_blocked = ''blocked''"
| "task_state_text Task_claimed = ''claimed''"
| "task_state_text Task_waiting_human = ''waiting_human''"
| "task_state_text Task_settled = ''settled''"
| "task_state_text Task_skipped = ''skipped''"
| "task_state_text Task_cancelled = ''cancelled''"
| "task_state_text Task_uncertain = ''uncertain''"

section \<open>Definitions of tasks\<close>

definition dependency_json :: "task_dependency \<Rightarrow> json" where
  "dependency_json d = obj [(''task'', JStr (dep_task d)), (''require'', JStr (requirement_text (dep_require d)))]"

definition definition_members :: "task_definition \<Rightarrow> (bytes \<times> json) list" where
  "definition_members t =
     [(''id'', JStr (task_label t)), (''type'', JStr (kind_text (task_kind_of t)))] @
     (case task_kind_of t of
        Agent_task \<Rightarrow> [(''objective'', JStr (objective t)), (''preset'', JStr (preset_id t))]
      | Tool_task \<Rightarrow> [(''tool'', JStr (task_tool t)), (''arguments_json'', JStr (task_arguments t))]
      | Human_task \<Rightarrow> [(''question'', JStr (question t))]) @
     [(''depends_on'', JArr (map dependency_json (dependencies t)))]"

definition definition_json :: "task_definition \<Rightarrow> json" where
  "definition_json t = obj (definition_members t)"

text \<open>On documents of strings the equality of the library is equality.\<close>

definition same_definition :: "task_definition \<Rightarrow> task_definition \<Rightarrow> bool" where
  "same_definition l r \<longleftrightarrow> objective l = objective r \<and> question l = question r \<and>
     preset_id l = preset_id r \<and> preset_revision l = preset_revision r \<and> task_tool l = task_tool r \<and>
     task_arguments l = task_arguments r \<and> definition_json l = definition_json r"

definition parse_dependency :: "json_lib \<Rightarrow> bytes \<Rightarrow> task_dependency list \<Rightarrow> json \<Rightarrow>
    plan_error + task_dependency list" where
  "parse_dependency lib owner ds item =
     bindE (plan_fields item [''task'', ''require'']) (\<lambda>_.
     bindE (string_field item ''task'' 32) (\<lambda>t.
     bindE (check_label lib t) (\<lambda>_.
     bindE (plan_need (t \<noteq> owner \<and> t \<notin> set (map dep_task ds))
       ''Duplicated or self-referential dynamic dependency'') (\<lambda>_.
     bindE (string_field item ''require'' 8) (\<lambda>expected.
     if expected = ''success'' then Inr (ds @ [\<lparr>dep_task = t, dep_require = On_success\<rparr>])
     else if expected = ''observed'' then Inr (ds @ [\<lparr>dep_task = t, dep_require = On_observed\<rparr>])
     else Inl (Plan_invalid ''Unsupported dynamic dependency requirement''))))))"

definition empty_task :: task_definition where
  "empty_task = \<lparr>task_label = [], task_kind_of = Agent_task, objective = [], question = [], preset_id = [],
     task_tool = [], task_arguments = [], preset_revision = 1, dependencies = []\<rparr>"

definition parse_body :: "json_lib \<Rightarrow> json \<Rightarrow> bytes \<Rightarrow> bytes \<Rightarrow> plan_error + task_definition" where
  "parse_body lib v type name =
     (let base = empty_task\<lparr>task_label := name\<rparr> in
      if type = ''agent'' then
        bindE (plan_fields v [''id'', ''type'', ''objective'', ''preset'', ''depends_on'']) (\<lambda>_.
        bindE (string_field v ''objective'' 8192) (\<lambda>goal.
        bindE (string_field v ''preset'' 64) (\<lambda>p.
        bindE (plan_need (p = ''workspace.inspect'' \<or> p = ''workspace.coding'') ''Unsupported dynamic agent preset'')
          (\<lambda>_. Inr (base\<lparr>objective := goal, preset_id := p\<rparr>)))))
      else if type = ''tool'' then
        bindE (plan_fields v [''id'', ''type'', ''tool'', ''arguments_json'', ''depends_on'']) (\<lambda>_.
        bindE (string_field v ''tool'' 128) (\<lambda>t.
        bindE (string_field v ''arguments_json'' 65536) (\<lambda>a.
        bindE (plan_object lib a 65536) (\<lambda>_.
        Inr (base\<lparr>task_kind_of := Tool_task, task_tool := t, task_arguments := a, preset_revision := 0\<rparr>)))))
      else if type = ''human'' then
        bindE (plan_fields v [''id'', ''type'', ''question'', ''depends_on'']) (\<lambda>_.
        bindE (string_field v ''question'' 8192) (\<lambda>q.
        Inr (base\<lparr>task_kind_of := Human_task, question := q, preset_revision := 0\<rparr>)))
      else Inl (Plan_invalid ''Unsupported native dynamic node type''))"

definition parse_task :: "json_lib \<Rightarrow> json \<Rightarrow> plan_error + task_definition" where
  "parse_task lib v =
     bindE (string_field v ''type'' 16) (\<lambda>type.
     bindE (string_field v ''id'' 32) (\<lambda>name.
     bindE (check_label lib name) (\<lambda>_.
     bindE (parse_body lib v type name) (\<lambda>result.
     bindE (plan_need (has_member v ''depends_on'' \<and> is_array (at_key v ''depends_on'') \<and>
         length (elements (at_key v ''depends_on'')) \<le> 32) ''Dynamic dependencies require a bounded array'') (\<lambda>_.
     bindE (foldE (parse_dependency lib name) [] (elements (at_key v ''depends_on''))) (\<lambda>ds.
     Inr (result\<lparr>dependencies := ds\<rparr>)))))))"

section \<open>The sealed catalogue\<close>

definition unavailable :: "bytes \<Rightarrow> plan_error + 'a" where
  "unavailable message = Inl (Plan_unavailable message)"

definition readonly_tools :: "bytes list" where
  "readonly_tools = [''read_file'', ''list_files'', ''search_files'', ''find_files'', ''glob_files'',
     ''read_repository_instructions'', ''list_skills'', ''load_skill'']"

definition orchestration_tools :: "bytes list" where
  "orchestration_tools = [''delegate_tasks'', ''plan_tasks'', ''revise_plan'', ''inspect_plan'']"

definition dynamic_preset_tools :: "preset_capability \<Rightarrow> tool_definition list \<Rightarrow> plan_error + bytes list" where
  "dynamic_preset_tools preset offered =
     (if preset_rev preset \<noteq> 1 \<or>
         (preset_name preset \<noteq> ''workspace.inspect'' \<and> preset_name preset \<noteq> ''workspace.coding'') \<or>
         preset_readonly preset \<noteq> (preset_name preset = ''workspace.inspect'')
      then unavailable ''Unsupported native preset boundary''
      else let result = sort (map tool_name (filter (\<lambda>t. tool_name t \<notin> set orchestration_tools \<and>
                 (preset_readonly preset \<longrightarrow> tool_name t \<in> set readonly_tools)) offered)) in
        if distinct result then Inr result else unavailable ''Duplicate offered preset tool'')"

definition take_binding :: "(bytes \<times> json) list \<Rightarrow> json \<Rightarrow> plan_error + (bytes \<times> json) list" where
  "take_binding bindings b =
     (if \<not> is_object b \<or> \<not> has_string b ''alias'' \<or> str_of (at_key b ''alias'') \<in> set (map fst bindings)
      then unavailable ''Actual external-agent approval bindings contain an invalid or duplicate alias''
      else Inr (bindings @ [(str_of (at_key b ''alias''), b)]))"

definition binding_key :: "tool_definition \<Rightarrow> json \<Rightarrow> plan_error + bytes" where
  "binding_key d b =
     (if member b ''input_schema_json'' \<noteq> Some (JStr (input_schema_json d))
      then unavailable ''Actual external-agent approval binding differs from its native tool schema''
      else bindE (value_string b ''kind'') (\<lambda>kind.
        if kind = ''trusted_xlang3_callable'' then Inr ''xlang3_binding''
        else if starts_with (tool_name d) ''mcp_'' then Inr ''mcp_binding''
        else if starts_with (tool_name d) ''a2a_delegate_'' \<and> kind = ''a2a_remote_agent'' then Inr ''a2a_binding''
        else unavailable ''External-agent binding has an unexpected tool namespace''))"

definition capture_tool :: "(bytes \<times> json) list \<Rightarrow> tool_definition \<Rightarrow> plan_error + json \<times> bool" where
  "capture_tool bindings d =
     (let captured = [(''name'', JStr (tool_name d)), (''description'', JStr (tool_description d)),
            (''input_schema_json'', JStr (input_schema_json d))] in
      case map_of bindings (tool_name d) of
        Some b \<Rightarrow> bindE (binding_key d b) (\<lambda>key. Inr (obj (captured @ [(key, b)]), True))
      | None \<Rightarrow> if starts_with (tool_name d) ''mcp_'' \<or> starts_with (tool_name d) ''a2a_delegate_''
          then unavailable ''External-agent tool has no native approval binding''
          else Inr (obj captured, False))"

fun seal_loop :: "(bytes \<times> json) list \<Rightarrow> bytes \<Rightarrow> tool_definition list \<Rightarrow> plan_error + json list \<times> nat" where
  "seal_loop bindings previous [] = Inr ([], 0)"
| "seal_loop bindings previous (d # ds) =
     (if tool_name d = [] \<or> tool_name d = previous
      then unavailable ''Actual tool catalogue contains duplicate identities''
      else bindE (capture_tool bindings d) (\<lambda>(captured, matched).
        bindE (seal_loop bindings (tool_name d) ds) (\<lambda>(rest, n).
          Inr (captured # rest, (if matched then 1 else 0) + n))))"

definition seal_dynamic_tool_catalogue :: "json_lib \<Rightarrow> tool_definition list \<Rightarrow> bytes \<Rightarrow> plan_error + bytes" where
  "seal_dynamic_tool_catalogue lib definitions approval_bindings_json =
     bindE (parseP lib approval_bindings_json) (\<lambda>actual.
     if \<not> is_array actual
     then unavailable ''Actual external-agent approval bindings are not a native array''
     else bindE (foldE take_binding [] (elements actual)) (\<lambda>bindings.
       bindE (seal_loop bindings [] (sort_key tool_name definitions)) (\<lambda>(tools, matched).
       if matched \<noteq> length bindings
       then unavailable ''Actual MCP approval binding has no discovered native tool''
       else dumpP lib (obj [(''tools'', JArr tools)]))))"

fun keep_allowed :: "bytes set \<Rightarrow> json list \<Rightarrow> plan_error + json list" where
  "keep_allowed allowed [] = Inr []"
| "keep_allowed allowed (d # ds) =
     bindE (at_member d ''name'') (\<lambda>v. bindE (get_string v) (\<lambda>name.
       bindE (keep_allowed allowed ds) (\<lambda>rest. Inr (if name \<in> allowed then d # rest else rest))))"

definition verify_dynamic_child_catalogue :: "json_lib \<Rightarrow> tool_definition list \<Rightarrow> bytes \<Rightarrow>
    plan_capabilities \<Rightarrow> preset_capability \<Rightarrow> plan_error + unit" where
  "verify_dynamic_child_catalogue lib actual bindings caps preset =
     bindE (parseP lib (tool_catalog_json caps)) (\<lambda>sealed.
     bindE (at_member sealed ''tools'') (\<lambda>tools.
     bindE (keep_allowed (set (preset_tools preset)) (iter_values tools)) (\<lambda>kept.
     if length kept \<noteq> length (remdups (preset_tools preset))
     then unavailable ''Actual child catalogue differs from its sealed native preset''
     else bindE (seal_dynamic_tool_catalogue lib actual bindings) (\<lambda>text.
       bindE (parseP lib text) (\<lambda>v.
       if same lib v (obj [(''tools'', JArr kept)]) then Inr ()
       else unavailable ''Actual child catalogue differs from its sealed native preset'')))))"

section \<open>Capabilities\<close>

definition settings_identity :: "bytes \<Rightarrow> bool" where
  "settings_identity s \<longleftrightarrow> length s = 64 \<and> set s \<subseteq> set ''0123456789abcdef''"

definition check_tool :: "json_lib \<Rightarrow> bool \<Rightarrow> bytes list \<Rightarrow> bytes \<Rightarrow> plan_error + bytes list" where
  "check_tool lib readonly seen tool =
     bindE (valid_text lib tool 128) (\<lambda>_.
     bindE (plan_need (tool \<notin> set seen) ''Duplicate registered dynamic tool'') (\<lambda>_.
     bindE (plan_need (\<not> (readonly \<and> tool \<notin> set readonly_tools))
       ''Read-only dynamic preset contains an effect tool'') (\<lambda>_.
     bindE (plan_need (tool \<notin> set orchestration_tools) ''Dynamic child recursion is not supported'') (\<lambda>_.
     Inr (tool # seen)))))"

definition check_preset :: "json_lib \<Rightarrow> bytes list \<Rightarrow> preset_capability \<Rightarrow> plan_error + bytes list" where
  "check_preset lib ids p =
     bindE (plan_need ((preset_name p = ''workspace.inspect'' \<or> preset_name p = ''workspace.coding'') \<and>
         preset_rev p = 1 \<and> preset_name p \<notin> set ids \<and>
         preset_readonly p = (preset_name p = ''workspace.inspect'') \<and> 1 \<le> preset_turns p \<and>
         preset_turns p \<le> (if preset_readonly p then 4 else 16)) ''Invalid registered dynamic preset binding'') (\<lambda>_.
     bindE (plan_need (settings_identity (preset_backend p))
       ''Dynamic preset lacks its private immutable settings identity'') (\<lambda>_.
     bindE (plan_need (length (preset_tools p) \<le> 128) ''Invalid registered dynamic tool catalogue'') (\<lambda>_.
     bindE (foldE (check_tool lib (preset_readonly p)) [] (preset_tools p)) (\<lambda>_.
     Inr (preset_name p # ids)))))"

definition check_capabilities :: "json_lib \<Rightarrow> plan_capabilities \<Rightarrow> plan_error + unit" where
  "check_capabilities lib c =
     bindE (plan_need (1 \<le> cap_revision c \<and> cap_revision c \<le> safe_integer \<and> settings_identity (cap_backend c) \<and>
         1 \<le> max_nodes c \<and> max_nodes c \<le> 32 \<and> 1 \<le> max_revisions c \<and> max_revisions c \<le> 16 \<and>
         1 \<le> max_humans c \<and> max_humans c \<le> 8 \<and> 1 \<le> change_bytes c \<and> change_bytes c \<le> 262144 \<and>
         1 \<le> human_expiry_ms c \<and> human_expiry_ms c \<le> 3600000 \<and>
         1 \<le> max_parent_turns c \<and> max_parent_turns c \<le> 32) ''Invalid admitted dynamic plan policy'') (\<lambda>_.
     bindE (valid_text lib (workspace_identity c) 4096) (\<lambda>_.
     bindE (plan_object lib (provider_identity_json c) 4096) (\<lambda>_.
     bindE (plan_object lib (tool_catalog_json c) 262144) (\<lambda>_.
     bindE (plan_need (presets c \<noteq> [] \<and> length (presets c) \<le> 2) ''Invalid registered dynamic presets'') (\<lambda>_.
     bindE (foldE (check_preset lib) [] (presets c)) (\<lambda>_. Inr ()))))))"

definition same_preset :: "preset_capability \<Rightarrow> preset_capability \<Rightarrow> bool" where
  "same_preset a b \<longleftrightarrow> preset_name a = preset_name b \<and> preset_rev a = preset_rev b \<and>
     preset_readonly a = preset_readonly b \<and> preset_tools a = preset_tools b \<and>
     preset_turns a = preset_turns b \<and> preset_backend a = preset_backend b"

definition same_capabilities :: "plan_capabilities \<Rightarrow> plan_capabilities \<Rightarrow> bool" where
  "same_capabilities l r \<longleftrightarrow> cap_revision l = cap_revision r \<and> cap_backend l = cap_backend r \<and>
     workspace_identity l = workspace_identity r \<and> provider_identity_json l = provider_identity_json r \<and>
     tool_catalog_json l = tool_catalog_json r \<and> max_nodes l = max_nodes r \<and>
     max_revisions l = max_revisions r \<and> max_humans l = max_humans r \<and> change_bytes l = change_bytes r \<and>
     human_expiry_ms l = human_expiry_ms r \<and> max_parent_turns l = max_parent_turns r \<and>
     catalogue_finalized l = catalogue_finalized r \<and> list_all2 same_preset (presets l) (presets r)"

lemma same_preset_eq: "same_preset a b \<longleftrightarrow> a = b"
  unfolding same_preset_def by (metis preset_capability.equality old.unit.exhaust)

lemma same_capabilities_eq: "same_capabilities l r \<longleftrightarrow> l = r"
proof -
  have p: "same_preset = (=)" by (intro ext) (rule same_preset_eq)
  show ?thesis unfolding same_capabilities_def p list.rel_eq
    by (metis plan_capabilities.equality old.unit.exhaust)
qed

section \<open>A definition against the frozen capabilities\<close>

fun schema_message :: "schema_error \<Rightarrow> bytes" where
  "schema_message (Schema_invalid message) = message"
| "schema_message (Arguments_invalid message) = message"

fun find_tool :: "bytes \<Rightarrow> json list \<Rightarrow> plan_error + json option" where
  "find_tool tool [] = Inr None"
| "find_tool tool (item # items) =
     (if \<not> is_object item then find_tool tool items
      else bindE (value_string item ''name'') (\<lambda>name.
        if name = tool then Inr (Some item) else find_tool tool items))"

definition deterministic_reads :: "bytes list" where
  "deterministic_reads = [''read_repository_instructions'', ''read_file'', ''list_files'', ''search_files'',
     ''find_files'', ''glob_files'']"

definition inspector :: "plan_capabilities \<Rightarrow> preset_capability option" where
  "inspector c = find (\<lambda>p. preset_name p = ''workspace.inspect'' \<and> preset_rev p = 1) (presets c)"

definition coding :: "plan_capabilities \<Rightarrow> preset_capability option" where
  "coding c = find (\<lambda>p. preset_name p = ''workspace.coding'' \<and> preset_rev p = 1 \<and> \<not> preset_readonly p) (presets c)"

definition offers :: "preset_capability option \<Rightarrow> bytes \<Rightarrow> bool" where
  "offers p tool \<longleftrightarrow> (case p of None \<Rightarrow> False | Some q \<Rightarrow> tool \<in> set (preset_tools q))"

definition check_read :: "plan_capabilities \<Rightarrow> task_definition \<Rightarrow> plan_error + unit" where
  "check_read c t =
     plan_need (offers (inspector c) (task_tool t) \<and> preset_readonly (the (inspector c)))
       ''Dynamic deterministic tool is outside the admitted read-only preset''"

definition check_process :: "json_lib \<Rightarrow> plan_capabilities \<Rightarrow> json \<Rightarrow> task_definition \<Rightarrow> plan_error + unit" where
  "check_process lib c found t =
     bindE (plan_need (offers (coding c) (task_tool t) \<and> \<not> has_member found ''mcp_binding'')
       ''Dynamic process tool is outside the admitted coding preset'') (\<lambda>_.
     bindE (plan_object lib (task_arguments t) 65536) (\<lambda>args.
     bindE (plan_need (\<not> has_member args ''background'' \<or> at_key args ''background'' = JBool False)
       ''Dynamic process nodes must finish within their owned child'') (\<lambda>_.
     plan_need (\<not> has_member args ''folder_id'' \<or> at_key args ''folder_id'' = JStr (workspace_identity c))
       ''Dynamic process nodes are restricted to the admitted primary workspace folder'')))"

definition has_all :: "json \<Rightarrow> bytes list \<Rightarrow> bool" where
  "has_all v keys \<longleftrightarrow> list_all (has_member v) keys"

definition check_a2a :: "plan_capabilities \<Rightarrow> json \<Rightarrow> task_definition \<Rightarrow> plan_error + unit" where
  "check_a2a c found t =
     bindE (plan_need (offers (coding c) (task_tool t) \<and> has_member found ''a2a_binding'' \<and>
         is_object (at_key found ''a2a_binding''))
       ''Dynamic A2A tool is outside the admitted coding preset'') (\<lambda>_.
     let b = at_key found ''a2a_binding'';
         differs = ''Dynamic A2A binding differs from its sealed tool schema'' in
     bindE (plan_need (has_all b [''kind'', ''alias'', ''input_schema_json'', ''agent_id'', ''agent_revision'',
         ''card_url'', ''protocol_version'', ''endpoint'', ''agent_name'', ''agent_version'', ''skills_json'',
         ''has_bearer'']) ''Dynamic A2A tool lacks its complete sealed binding'') (\<lambda>_.
     bindE (plan_need (at_key b ''kind'' = JStr ''a2a_remote_agent'' \<and> at_key b ''alias'' = JStr (task_tool t) \<and>
         at_key b ''input_schema_json'' = at_key found ''input_schema_json'') differs) (\<lambda>_.
     bindE (get_string (at_key b ''agent_id'')) (\<lambda>agent.
     plan_need (agent \<noteq> [] \<and> positive_integer (at_key b ''agent_revision'') \<and>
       is_boolean (at_key b ''has_bearer'')) differs))))"

definition check_mcp_kind :: "json \<Rightarrow> plan_error + unit" where
  "check_mcp_kind b =
     (if has_member b ''kind'' then
        let k = at_key b ''kind'' in
        bindE (plan_need ((k = JStr ''resource'' \<or> k = JStr ''prompt'') \<and> has_string b ''peer_name'' \<and>
            has_string b ''metadata_json'') ''Dynamic MCP read binding is incomplete or unsupported'') (\<lambda>_.
        bindE (plan_need (\<not> (k = JStr ''resource'' \<and> \<not> has_string b ''resource_uri''))
          ''Dynamic MCP resource binding lacks its exact URI'') (\<lambda>_.
        plan_need (\<not> (k = JStr ''prompt'' \<and> has_member b ''resource_uri''))
          ''Dynamic MCP prompt binding cannot contain a resource URI''))
      else plan_need (has_string b ''peer_tool'') ''Dynamic MCP effect binding lacks its exact peer tool'')"

definition check_mcp :: "plan_capabilities \<Rightarrow> json \<Rightarrow> task_definition \<Rightarrow> plan_error + unit" where
  "check_mcp c found t =
     bindE (plan_need (offers (coding c) (task_tool t) \<and> starts_with (task_tool t) ''mcp_'' \<and>
         has_member found ''mcp_binding'' \<and> is_object (at_key found ''mcp_binding''))
       ''Dynamic MCP node must be sealed in the coding preset'') (\<lambda>_.
     let b = at_key found ''mcp_binding'' in
     bindE (plan_need (has_all b [''server_config_id'', ''config_revision'', ''alias'', ''catalogue_fingerprint'',
         ''protocol_version'', ''input_schema_json'', ''output_schema_json'', ''annotations_json''])
       ''Dynamic MCP tool lacks its complete sealed binding'') (\<lambda>_.
     bindE (plan_need (at_key b ''alias'' = JStr (task_tool t) \<and>
         at_key b ''input_schema_json'' = at_key found ''input_schema_json'')
       ''Dynamic MCP binding differs from its sealed tool schema'') (\<lambda>_. check_mcp_kind b)))"

definition check_sealed_tool :: "json_lib \<Rightarrow> schema_lib \<Rightarrow> plan_capabilities \<Rightarrow> task_definition \<Rightarrow>
    plan_error + unit" where
  "check_sealed_tool lib sl c t =
     bindE (plan_object lib (tool_catalog_json c) 262144) (\<lambda>catalogue.
     bindE (at_member catalogue ''tools'') (\<lambda>tools.
     bindE (find_tool (task_tool t) (iter_values tools)) (\<lambda>sought.
     let found = (case sought of None \<Rightarrow> JNull | Some v \<Rightarrow> v) in
     bindE (plan_need (has_string found ''input_schema_json'')
       ''Dynamic deterministic tool lacks its sealed native schema'') (\<lambda>_.
     bindE (if task_tool t \<in> set deterministic_reads then check_read c t
            else if task_tool t = ''run_process'' then check_process lib c found t
            else if starts_with (task_tool t) ''a2a_delegate_'' then check_a2a c found t
            else check_mcp c found t) (\<lambda>_.
     map_error (\<lambda>e. Plan_invalid (schema_message e))
       (bindE (compile_schema lib sl (str_of (at_key found ''input_schema_json''))) (\<lambda>accepts.
          validate_object lib sl accepts (task_arguments t))))))))"

definition check_definition :: "json_lib \<Rightarrow> schema_lib \<Rightarrow> plan_capabilities \<Rightarrow> task_definition \<Rightarrow>
    plan_error + unit" where
  "check_definition lib sl c t =
     bindE (parse_task lib (definition_json t)) (\<lambda>parsed.
     bindE (plan_need (same_definition parsed t)
       ''Dynamic definition contains unsupported fields or preset revision'') (\<lambda>_.
     bindE (plan_need (\<not> (task_kind_of t = Agent_task \<and>
         list_all (\<lambda>p. \<not> (preset_name p = preset_id t \<and> preset_rev p = preset_revision t)) (presets c)))
       ''Requested dynamic preset is unavailable'') (\<lambda>_.
     if task_kind_of t = Tool_task then check_sealed_tool lib sl c t else Inr ())))"

section \<open>Cycles\<close>

text \<open>
  \<open>topology\<close> finds the node of each label and visits every node with the marks 0 (new), 1 (open)
  and 2 (done). The number bounds the depth of the recursion.
\<close>

definition label_index :: "task_record list \<Rightarrow> bytes \<Rightarrow> nat option" where
  "label_index ts l = map_of (zip (map (\<lambda>t. task_label (task t)) ts) [0..<length ts]) l"

definition edge_indices :: "task_record list \<Rightarrow> nat \<Rightarrow> nat option list" where
  "edge_indices ts i = map (\<lambda>d. label_index ts (dep_task d)) (dependencies (task (ts ! i)))"

fun visit_edges :: "(nat \<Rightarrow> nat list \<Rightarrow> plan_error + nat list) \<Rightarrow> nat list \<Rightarrow> nat option list \<Rightarrow>
    plan_error + nat list" where
  "visit_edges go marks [] = Inr marks"
| "visit_edges go marks (None # es) = Inl (Plan_invalid ''Unknown dynamic dependency'')"
| "visit_edges go marks (Some j # es) = bindE (go j marks) (\<lambda>marks1. visit_edges go marks1 es)"

fun visit_task :: "nat \<Rightarrow> task_record list \<Rightarrow> nat \<Rightarrow> nat list \<Rightarrow> plan_error + nat list" where
  "visit_task 0 ts i marks = Inl Plan_stuck"
| "visit_task (Suc fuel) ts i marks =
     (if marks ! i = 1 then Inl (Plan_invalid ''Dynamic plan dependencies contain a cycle'')
      else if marks ! i = 2 then Inr marks
      else bindE (visit_edges (visit_task fuel ts) (marks[i := 1]) (edge_indices ts i)) (\<lambda>marks1.
        Inr (marks1[i := 2])))"

definition topology :: "task_record list \<Rightarrow> plan_error + unit" where
  "topology ts =
     bindE (plan_need (distinct (map (\<lambda>t. task_label (task t)) ts)) ''Duplicated dynamic task label'') (\<lambda>_.
     bindE (foldE (\<lambda>marks i. visit_task (length ts + 1) ts i marks) (replicate (length ts) 0) [0..<length ts])
       (\<lambda>_. Inr ()))"

text \<open>The dependencies between nodes, by position; what a run of the visits has finished, latest first.\<close>

definition task_edges :: "task_record list \<Rightarrow> (nat \<times> nat) set" where
  "task_edges ts = {(i, j). i < length ts \<and> Some j \<in> set (edge_indices ts i)}"

definition edges_known :: "task_record list \<Rightarrow> bool" where
  "edges_known ts \<longleftrightarrow> (\<forall>i < length ts. None \<notin> set (edge_indices ts i))"

fun after_all :: "task_record list \<Rightarrow> nat list \<Rightarrow> bool" where
  "after_all ts [] \<longleftrightarrow> True"
| "after_all ts (i # fin) \<longleftrightarrow> i \<notin> set fin \<and> set (edge_indices ts i) \<subseteq> Some ` set fin \<and> after_all ts fin"

definition marks_ok :: "task_record list \<Rightarrow> nat list \<Rightarrow> nat list \<Rightarrow> bool" where
  "marks_ok ts marks fin \<longleftrightarrow> length marks = length ts \<and> after_all ts fin \<and>
     set fin = {j. j < length ts \<and> marks ! j = 2}"

definition same_open :: "nat list \<Rightarrow> nat list \<Rightarrow> bool" where
  "same_open marks marks' \<longleftrightarrow> (\<forall>j < length marks. marks' ! j = 1 \<longleftrightarrow> marks ! j = 1)"

lemma label_index_bound: "label_index ts l = Some j \<Longrightarrow> j < length ts"
  unfolding label_index_def by (drule map_of_SomeD) (auto dest: set_zip_rightD)

lemma edge_bound: "Some j \<in> set (edge_indices ts i) \<Longrightarrow> j < length ts"
  by (auto simp: edge_indices_def intro: label_index_bound)

abbreviation visits_on :: "task_record list \<Rightarrow> nat list \<Rightarrow> nat list \<Rightarrow> nat list \<Rightarrow> nat set \<Rightarrow> bool" where
  "visits_on ts marks fin marks' new \<equiv>
     \<exists>fin'. marks_ok ts marks' fin' \<and> same_open marks marks' \<and> set fin \<subseteq> set fin' \<and> new \<subseteq> set fin'"

lemma visit_edges_Cons:
  "visit_edges go m (e # es) = Inr m' \<longleftrightarrow>
     (\<exists>j m1. e = Some j \<and> go j m = Inr m1 \<and> visit_edges go m1 es = Inr m')"
  by (cases e) (auto simp: result_simps)

lemma visit_edges_sound:
  assumes "\<forall>j m m' f. Some j \<in> set es \<longrightarrow> marks_ok ts m f \<longrightarrow> go j m = Inr m' \<longrightarrow> visits_on ts m f m' {j}"
    and "visit_edges go marks es = Inr marks'" and "marks_ok ts marks fin"
  shows "visits_on ts marks fin marks' {j. Some j \<in> set es} \<and> None \<notin> set es"
  using assms
proof (induction es arbitrary: marks fin)
  case Nil
  then show ?case by (auto simp: same_open_def)
next
  case (Cons e es)
  obtain j m1 where e: "e = Some j" and m1: "go j marks = Inr m1" "visit_edges go m1 es = Inr marks'"
    using Cons.prems unfolding visit_edges_Cons by blast
  obtain f1 where f1: "marks_ok ts m1 f1" "same_open marks m1" "set fin \<subseteq> set f1" "j \<in> set f1"
    using Cons.prems(1,3) e m1(1) by (metis insert_subset list.set_intros(1))
  have "visits_on ts m1 f1 marks' {j. Some j \<in> set es} \<and> None \<notin> set es"
    by (rule Cons.IH [OF _ m1(2) f1(1)]) (use Cons.prems(1) in simp)
  then obtain f' where f': "marks_ok ts marks' f'" "same_open m1 marks'" "set f1 \<subseteq> set f'"
      "{j. Some j \<in> set es} \<subseteq> set f'" "None \<notin> set es"
    by blast
  have "same_open marks marks'"
    using f1(1,2) f'(2) Cons.prems(3) by (simp add: same_open_def marks_ok_def)
  moreover have "{j. Some j \<in> set (e # es)} \<subseteq> set f'" using f1(4) f'(3,4) e by auto
  ultimately show ?case using f1(3) f' e by auto
qed

lemma marks_ok_open: "marks_ok ts marks fin \<Longrightarrow> marks ! i \<noteq> 2 \<Longrightarrow> marks_ok ts (marks[i := 1]) fin"
proof -
  assume "marks ! i \<noteq> 2"
  then have "marks[i := 1] ! j = 2 \<longleftrightarrow> marks ! j = 2" for j
    by (cases "i < length marks"; cases "i = j") (simp_all add: list_update_beyond)
  moreover assume "marks_ok ts marks fin"
  ultimately show ?thesis by (simp add: marks_ok_def)
qed

lemma marks_ok_close:
  assumes "marks_ok ts marks fin" and "marks ! i = 1" and "i < length ts"
    and "{j. Some j \<in> set (edge_indices ts i)} \<subseteq> set fin" and "None \<notin> set (edge_indices ts i)"
  shows "marks_ok ts (marks[i := 2]) (i # fin)"
proof -
  have "set (edge_indices ts i) \<subseteq> Some ` set fin"
  proof
    fix e assume "e \<in> set (edge_indices ts i)"
    then obtain j where "e = Some j" "Some j \<in> set (edge_indices ts i)"
      using assms(5) by (metis not_None_eq)
    then show "e \<in> Some ` set fin" using assms(4) by blast
  qed
  moreover have "set (i # fin) = {j. j < length ts \<and> marks[i := 2] ! j = 2}"
    using assms(1,3) by (auto simp: marks_ok_def nth_list_update)
  moreover have "i \<notin> set fin" using assms(1,2) by (simp add: marks_ok_def)
  ultimately show ?thesis using assms(1) by (simp add: marks_ok_def)
qed

lemma visit_task_sound:
  "visit_task fuel ts i marks = Inr marks' \<Longrightarrow> i < length ts \<Longrightarrow> marks_ok ts marks fin \<Longrightarrow>
     visits_on ts marks fin marks' {i}"
proof (induction fuel arbitrary: i marks marks' fin)
  case (Suc fuel)
  show ?case
  proof (cases "marks ! i = 2")
    case True
    then have "marks' = marks" using Suc.prems(1) by simp
    moreover have "i \<in> set fin" using Suc.prems(2,3) True by (simp add: marks_ok_def)
    ultimately show ?thesis using Suc.prems(3) by (auto simp: same_open_def)
  next
    case False
    then obtain m1 where new: "marks ! i \<noteq> 1" and m1: "marks' = m1[i := 2]"
      and run: "visit_edges (visit_task fuel ts) (marks[i := 1]) (edge_indices ts i) = Inr m1"
      using Suc.prems(1) by (auto simp: result_simps split: if_splits)
    have len: "length marks = length ts" using Suc.prems(3) by (simp add: marks_ok_def)
    have edges: "\<forall>j m m' f. Some j \<in> set (edge_indices ts i) \<longrightarrow> marks_ok ts m f \<longrightarrow>
        visit_task fuel ts j m = Inr m' \<longrightarrow> visits_on ts m f m' {j}"
      using Suc.IH edge_bound by blast
    note visits = visit_edges_sound [OF edges run marks_ok_open [OF Suc.prems(3) False]]
    then obtain f1 where f1: "marks_ok ts m1 f1" "same_open (marks[i := 1]) m1" "set fin \<subseteq> set f1"
        "{j. Some j \<in> set (edge_indices ts i)} \<subseteq> set f1" "None \<notin> set (edge_indices ts i)"
      by blast
    have grey: "m1 ! i = 1" and len1: "length m1 = length ts"
      using f1(1,2) Suc.prems(2) len by (simp_all add: same_open_def marks_ok_def)
    have "marks_ok ts marks' (i # f1)"
      unfolding m1 by (rule marks_ok_close) (fact f1(1) grey Suc.prems(2) f1(4,5))+
    moreover have "same_open marks marks'"
      using f1(2) new len len1 Suc.prems(2) unfolding m1 by (simp add: same_open_def nth_list_update)
    ultimately show ?thesis using f1(3) by (intro exI [of _ "i # f1"]) auto
  qed
qed simp

text \<open>How early a node was finished is a measure that dependencies decrease.\<close>

definition finish_rank :: "nat list \<Rightarrow> nat \<Rightarrow> nat" where
  "finish_rank fin i = length (takeWhile (\<lambda>k. k \<noteq> i) (rev fin))"

lemma takeWhile_other_less: "j \<in> set xs \<Longrightarrow> length (takeWhile (\<lambda>k. k \<noteq> j) xs) < length xs"
  by (induction xs) auto

lemma finish_rank_less: "i \<in> set fin \<Longrightarrow> finish_rank fin i < length fin"
  using takeWhile_other_less [of i "rev fin"] by (simp add: finish_rank_def)

lemma finish_rank_Cons:
  "i \<in> set fin \<Longrightarrow> finish_rank (k # fin) i = finish_rank fin i"
  "k \<notin> set fin \<Longrightarrow> finish_rank (k # fin) k = length fin"
proof -
  assume "i \<in> set fin"
  then show "finish_rank (k # fin) i = finish_rank fin i"
    by (simp add: finish_rank_def takeWhile_append1 [of i])
next
  assume "k \<notin> set fin"
  then have "takeWhile (\<lambda>j. j \<noteq> k) (rev fin @ [k]) = rev fin"
    by (subst takeWhile_append2) auto
  then show "finish_rank (k # fin) k = length fin" by (simp add: finish_rank_def)
qed

lemma after_all_closed:
  "after_all ts fin \<Longrightarrow> i \<in> set fin \<Longrightarrow> set (edge_indices ts i) \<subseteq> Some ` set fin"
  by (induction fin) auto

lemma after_all_rank:
  "after_all ts fin \<Longrightarrow> i \<in> set fin \<Longrightarrow> Some j \<in> set (edge_indices ts i) \<Longrightarrow> finish_rank fin j < finish_rank fin i"
proof (induction fin)
  case (Cons k fin)
  show ?case
  proof (cases "i = k")
    case True
    then have "j \<in> set fin" using Cons.prems by auto
    then show ?thesis using Cons.prems(1) True by (simp add: finish_rank_Cons finish_rank_less)
  next
    case False
    then have i: "i \<in> set fin" using Cons.prems by auto
    moreover have "j \<in> set fin" using after_all_closed [of ts fin i] Cons.prems i by auto
    ultimately show ?thesis using Cons by (simp add: finish_rank_Cons)
  qed
qed simp

text \<open>The new nodes; a failing visit has met a cycle or an unknown dependency.\<close>

definition new_tasks :: "task_record list \<Rightarrow> nat list \<Rightarrow> nat set" where
  "new_tasks ts marks = {j. j < length ts \<and> marks ! j \<noteq> 1 \<and> marks ! j \<noteq> 2}"

definition open_tasks :: "task_record list \<Rightarrow> nat list \<Rightarrow> nat set" where
  "open_tasks ts marks = {j. j < length ts \<and> marks ! j = 1}"

lemma finite_new_tasks [simp]: "finite (new_tasks ts marks)"
  by (simp add: new_tasks_def)

abbreviation settles :: "task_record list \<Rightarrow> nat list \<Rightarrow> nat list \<Rightarrow> bool" where
  "settles ts marks marks' \<equiv> length marks' = length ts \<and> open_tasks ts marks' = open_tasks ts marks \<and>
     new_tasks ts marks' \<subseteq> new_tasks ts marks"

lemma settles_trans: "settles ts a b \<Longrightarrow> settles ts b c \<Longrightarrow> settles ts a c"
  by auto

lemma visit_edges_settles:
  assumes "\<forall>j m m'. Some j \<in> set es \<longrightarrow> length m = length ts \<longrightarrow> go j m = Inr m' \<longrightarrow> settles ts m m'"
    and "length marks = length ts" and "visit_edges go marks es = Inr marks'"
  shows "settles ts marks marks'"
  using assms
proof (induction es arbitrary: marks)
  case (Cons e es)
  obtain j m1 where e: "e = Some j" and m1: "go j marks = Inr m1" "visit_edges go m1 es = Inr marks'"
    using Cons.prems unfolding visit_edges_Cons by blast
  have one: "settles ts marks m1" using Cons.prems(1,2) e m1(1) by simp
  have "settles ts m1 marks'"
    by (rule Cons.IH) (use Cons.prems(1) one m1(2) in simp_all)
  with one show ?case by (rule settles_trans)
qed simp

lemma mark_sets:
  assumes "length marks = length ts" and "i < length ts" and "marks ! i \<noteq> 1" and "marks ! i \<noteq> 2"
  shows "open_tasks ts (marks[i := 1]) = insert i (open_tasks ts marks)"
    and "new_tasks ts (marks[i := 1]) = new_tasks ts marks - {i}" and "i \<in> new_tasks ts marks"
  using assms by (auto simp: open_tasks_def new_tasks_def nth_list_update)

lemma close_sets:
  assumes "length marks = length ts" and "i < length ts"
  shows "open_tasks ts (marks[i := 2]) = open_tasks ts marks - {i}"
    and "new_tasks ts (marks[i := 2]) = new_tasks ts marks - {i}"
  using assms by (auto simp: open_tasks_def new_tasks_def nth_list_update)

lemma visit_task_settles:
  "visit_task fuel ts i marks = Inr marks' \<Longrightarrow> i < length ts \<Longrightarrow> length marks = length ts \<Longrightarrow>
     settles ts marks marks'"
proof (induction fuel arbitrary: i marks marks')
  case (Suc fuel)
  show ?case
  proof (cases "marks ! i = 2")
    case True
    then show ?thesis using Suc.prems by simp
  next
    case False
    then obtain m1 where new: "marks ! i \<noteq> 1" and m1: "marks' = m1[i := 2]"
      and run: "visit_edges (visit_task fuel ts) (marks[i := 1]) (edge_indices ts i) = Inr m1"
      using Suc.prems(1) by (auto simp: result_simps split: if_splits)
    have len: "length (marks[i := 1]) = length ts" using Suc.prems(3) by simp
    have "\<forall>j m m'. Some j \<in> set (edge_indices ts i) \<longrightarrow> length m = length ts \<longrightarrow>
        visit_task fuel ts j m = Inr m' \<longrightarrow> settles ts m m'"
      using Suc.IH edge_bound by blast
    from visit_edges_settles [OF this len run]
    have s: "settles ts (marks[i := 1]) m1" .
    note sets = mark_sets [OF Suc.prems(3,2) new False]
    have "i \<notin> open_tasks ts marks" using new by (simp add: open_tasks_def)
    then have "open_tasks ts m1 - {i} = open_tasks ts marks" using s sets(1) by simp
    moreover have "new_tasks ts m1 - {i} \<subseteq> new_tasks ts marks" using s sets(2) by blast
    ultimately show ?thesis using s close_sets [of m1 ts i] Suc.prems(2) by (simp add: m1)
  qed
qed simp

definition found_fault :: "task_record list \<Rightarrow> plan_error \<Rightarrow> bool" where
  "found_fault ts e \<longleftrightarrow>
     (e = Plan_invalid ''Dynamic plan dependencies contain a cycle'' \<and> \<not> acyclic (task_edges ts)) \<or>
     (e = Plan_invalid ''Unknown dynamic dependency'' \<and> \<not> edges_known ts)"

lemma visit_edges_fault:
  assumes "visit_edges go marks es = Inl e" and "length marks = length ts"
    and "\<forall>j m m'. Some j \<in> set es \<longrightarrow> length m = length ts \<longrightarrow> go j m = Inr m' \<longrightarrow> settles ts m m'"
    and "\<forall>j m. Some j \<in> set es \<longrightarrow> settles ts marks0 m \<longrightarrow> go j m = Inl e \<longrightarrow> found_fault ts e"
    and "settles ts marks0 marks" and "None \<in> set es \<Longrightarrow> \<not> edges_known ts"
  shows "found_fault ts e"
  using assms
proof (induction es arbitrary: marks)
  case (Cons x es)
  show ?case
  proof (cases x)
    case None
    then show ?thesis using Cons.prems(1,6) by (simp add: found_fault_def)
  next
    case (Some j)
    show ?thesis
    proof (cases "go j marks")
      case (Inl e')
      then show ?thesis using Cons.prems(1,4,5) Some by simp
    next
      case (Inr m1)
      then have one: "settles ts marks m1" using Cons.prems(2,3) Some by simp
      show ?thesis
      proof (rule Cons.IH)
        show "visit_edges go m1 es = Inl e" using Cons.prems(1) Some Inr by simp
        show "settles ts marks0 m1" using Cons.prems(5) one by (rule settles_trans)
      qed (use Cons.prems one in simp_all)
    qed
  qed
qed simp

lemma visit_task_fault:
  assumes "visit_task fuel ts i marks = Inl e" and "i < length ts" and "length marks = length ts"
    and "\<And>g. g \<in> open_tasks ts marks \<Longrightarrow> (g, i) \<in> (task_edges ts)\<^sup>+" and "card (new_tasks ts marks) < fuel"
  shows "found_fault ts e"
  using assms
proof (induction fuel arbitrary: i marks)
  case (Suc fuel)
  show ?case
  proof (cases "marks ! i = 1")
    case True
    then have "(i, i) \<in> (task_edges ts)\<^sup>+" using Suc.prems(2,4) by (simp add: open_tasks_def)
    then have "\<not> acyclic (task_edges ts)" by (auto simp: acyclic_def)
    then show ?thesis using Suc.prems(1) True by (simp add: found_fault_def)
  next
    case new: False
    then have other: "marks ! i \<noteq> 2" and run:
      "visit_edges (visit_task fuel ts) (marks[i := 1]) (edge_indices ts i) = Inl e"
      using Suc.prems(1) by (auto simp: result_simps split: if_splits)
    note sets = mark_sets [OF Suc.prems(3,2) new other]
    show ?thesis
    proof (rule visit_edges_fault [OF run])
      show "length (marks[i := 1]) = length ts" using Suc.prems(3) by simp
      show "\<forall>j m m'. Some j \<in> set (edge_indices ts i) \<longrightarrow> length m = length ts \<longrightarrow>
          visit_task fuel ts j m = Inr m' \<longrightarrow> settles ts m m'"
        using visit_task_settles edge_bound by blast
      show "settles ts (marks[i := 1]) (marks[i := 1])" using Suc.prems(3) by simp
      show "\<forall>j m. Some j \<in> set (edge_indices ts i) \<longrightarrow> settles ts (marks[i := 1]) m \<longrightarrow>
          visit_task fuel ts j m = Inl e \<longrightarrow> found_fault ts e"
      proof (intro allI impI)
        fix j m assume j: "Some j \<in> set (edge_indices ts i)" and m: "settles ts (marks[i := 1]) m"
          and fails: "visit_task fuel ts j m = Inl e"
        have ij: "(i, j) \<in> task_edges ts" using j Suc.prems(2) by (simp add: task_edges_def)
        show "found_fault ts e"
        proof (rule Suc.IH [OF fails edge_bound [OF j]])
          show "length m = length ts" using m by simp
          show "(g, j) \<in> (task_edges ts)\<^sup>+" if "g \<in> open_tasks ts m" for g
          proof -
            have "g = i \<or> g \<in> open_tasks ts marks" using that m sets(1) by simp
            then show ?thesis using Suc.prems(4) ij by (metis r_into_trancl' trancl_into_trancl)
          qed
          have "card (new_tasks ts m) \<le> card (new_tasks ts marks - {i})"
            using m sets(2) by (intro card_mono) simp_all
          also have "\<dots> < card (new_tasks ts marks)" using sets(3) by (intro card_Diff1_less) simp_all
          finally show "card (new_tasks ts m) < fuel" using Suc.prems(5) by simp
        qed
      qed
      show "None \<in> set (edge_indices ts i) \<Longrightarrow> \<not> edges_known ts"
        using Suc.prems(2) by (auto simp: edges_known_def)
    qed
  qed
qed simp

lemma visit_all_sound:
  "foldE (\<lambda>marks i. visit_task fuel ts i marks) marks js = Inr marks' \<Longrightarrow> \<forall>j \<in> set js. j < length ts \<Longrightarrow>
     marks_ok ts marks fin \<Longrightarrow> visits_on ts marks fin marks' (set js)"
proof (induction js arbitrary: marks fin)
  case Nil
  then show ?case by (auto simp: same_open_def)
next
  case (Cons j js)
  obtain m1 where m1: "visit_task fuel ts j marks = Inr m1"
      "foldE (\<lambda>marks i. visit_task fuel ts i marks) m1 js = Inr marks'"
    using Cons.prems(1) by (auto simp: result_simps)
  obtain f1 where f1: "marks_ok ts m1 f1" "same_open marks m1" "set fin \<subseteq> set f1" "j \<in> set f1"
    using visit_task_sound [OF m1(1) _ Cons.prems(3)] Cons.prems(2) by auto
  obtain f' where f': "marks_ok ts marks' f'" "same_open m1 marks'" "set f1 \<subseteq> set f'" "set js \<subseteq> set f'"
    using Cons.IH [OF m1(2) _ f1(1)] Cons.prems(2) by auto
  have "same_open marks marks'"
    using f1(1,2) f'(2) Cons.prems(3) by (simp add: same_open_def marks_ok_def)
  then show ?case using f1(3,4) f' by (intro exI [of _ f']) auto
qed

lemma visit_all_fault:
  "foldE (\<lambda>marks i. visit_task (length ts + 1) ts i marks) marks js = Inl e \<Longrightarrow> \<forall>j \<in> set js. j < length ts \<Longrightarrow>
     length marks = length ts \<Longrightarrow> open_tasks ts marks = {} \<Longrightarrow> found_fault ts e"
proof (induction js arbitrary: marks)
  case (Cons j js)
  have j: "j < length ts" using Cons.prems(2) by simp
  have "card (new_tasks ts marks) \<le> card {0..<length ts}" by (rule card_mono) (auto simp: new_tasks_def)
  then have fuel: "card (new_tasks ts marks) < length ts + 1" by simp
  show ?case
  proof (cases "visit_task (length ts + 1) ts j marks")
    case (Inl e')
    then have "e' = e" using Cons.prems(1) by (simp del: visit_task.simps)
    then show ?thesis
      using visit_task_fault [OF Inl j Cons.prems(3) _ fuel] Cons.prems(4) by blast
  next
    case (Inr m1)
    have "settles ts marks m1" by (rule visit_task_settles [OF Inr j Cons.prems(3)])
    then show ?thesis
      using Cons.IH [of m1] Cons.prems Inr by (simp del: visit_task.simps)
  qed
qed simp

text \<open>The check passes exactly when labels are distinct, dependencies known and free of cycles.\<close>

abbreviation task_labels :: "task_record list \<Rightarrow> bytes list" where
  "task_labels ts \<equiv> map (\<lambda>t. task_label (task t)) ts"

lemma topology_order:
  assumes "topology ts = Inr ()"
  obtains fin where "after_all ts fin" and "set fin = {0..<length ts}"
proof -
  obtain marks' where run: "foldE (\<lambda>marks i. visit_task (length ts + 1) ts i marks)
      (replicate (length ts) 0) [0..<length ts] = Inr marks'"
    using assms by (auto simp: topology_def plan_need_def result_simps simp del: visit_task.simps split: if_splits)
  have "marks_ok ts (replicate (length ts) 0) []" by (auto simp: marks_ok_def)
  from visit_all_sound [OF run _ this] obtain fin where fin: "marks_ok ts marks' fin" "{0..<length ts} \<subseteq> set fin"
    by auto
  then have all: "set fin = {0..<length ts}" unfolding marks_ok_def by auto
  have "after_all ts fin" using fin(1) by (simp add: marks_ok_def)
  from that [OF this all] show thesis .
qed

lemma topology_sound:
  assumes "topology ts = Inr ()"
  shows "distinct (task_labels ts)" and "edges_known ts" and "acyclic (task_edges ts)"
proof -
  show "distinct (task_labels ts)"
    using assms by (simp add: topology_def plan_need_def split: if_splits)
  obtain fin where fin: "after_all ts fin" "set fin = {0..<length ts}" using topology_order [OF assms] .
  show "edges_known ts" using after_all_closed [OF fin(1)] fin(2) by (fastforce simp: edges_known_def)
  have "task_edges ts \<subseteq> (measure (finish_rank fin))\<inverse>"
    using after_all_rank [OF fin(1)] fin(2) by (auto simp: task_edges_def)
  moreover have "acyclic ((measure (finish_rank fin))\<inverse>)"
    by (simp add: acyclic_converse wf_acyclic)
  ultimately show "acyclic (task_edges ts)" using acyclic_subset by blast
qed

lemma topology_fault:
  assumes "topology ts = Inl e" and "distinct (task_labels ts)"
  shows "found_fault ts e"
proof -
  have run: "foldE (\<lambda>marks i. visit_task (length ts + 1) ts i marks)
      (replicate (length ts) 0) [0..<length ts] = Inl e"
    using assms by (auto simp: topology_def plan_need_def result_simps simp del: visit_task.simps split: if_splits)
  show ?thesis by (rule visit_all_fault [OF run]) (auto simp: open_tasks_def)
qed

lemma topology_iff:
  "topology ts = Inr () \<longleftrightarrow> distinct (task_labels ts) \<and> edges_known ts \<and> acyclic (task_edges ts)"
proof
  assume *: "distinct (task_labels ts) \<and> edges_known ts \<and> acyclic (task_edges ts)"
  show "topology ts = Inr ()"
  proof (cases "topology ts")
    case (Inl e)
    then show ?thesis using topology_fault [OF Inl] * by (auto simp: found_fault_def)
  qed simp
qed (use topology_sound in blast)

end
