(* ===== verification/Dynamic_Frontier.thy ===== *)
theory Dynamic_Frontier
  imports Dynamic_Plan
begin

text \<open>
  \<open>dynamic_plan.cpp\<close>, the immutable view of a plan: the check of a snapshot, the reduction of a
  change, the readiness of tasks with its cache, and the documents made for prepared tasks and
  reports.
\<close>

section \<open>Snapshots\<close>

definition unstarted :: "task_state \<Rightarrow> bool" where
  "unstarted s \<longleftrightarrow> s = Task_pending \<or> s = Task_blocked"

definition no_effect :: "bytes \<Rightarrow> bool" where
  "no_effect e \<longleftrightarrow> e = [] \<or> e = ''none''"

definition has_execution :: "task_record \<Rightarrow> bool" where
  "has_execution r \<longleftrightarrow> claim_revision r \<noteq> 0 \<or> claim_id r \<noteq> [] \<or> human_request_id r \<noteq> [] \<or> child_run_id r \<noteq> [] \<or>
     child_state r \<noteq> [] \<or> outcome_json r \<noteq> [] \<or> settled_event_seq r \<noteq> None \<or> \<not> no_effect (effect_state r)"

definition protected_node :: "task_record \<Rightarrow> bool" where
  "protected_node r \<longleftrightarrow> protected_definition r \<or> has_execution r \<or> \<not> unstarted (task_state r)"

definition nonterminal_effect :: "bytes \<Rightarrow> bool" where
  "nonterminal_effect e \<longleftrightarrow> e = ''awaiting_approval'' \<or> e = ''ready'' \<or> e = ''executing''"

definition human_outcome :: "json_lib \<Rightarrow> task_record \<Rightarrow> plan_error + unit" where
  "human_outcome lib r =
     bindE (plan_object lib (outcome_json r) 32768) (\<lambda>out.
     bindE (string_field out ''human_state'' 16) (\<lambda>s.
     bindE (plan_need (s = ''answered'' \<or> s = ''expired'' \<or> s = ''cancelled'')
       ''Settled human outcome is not an observed terminal request'') (\<lambda>_.
     plan_need (\<not> (has_member out ''input_json'' \<and> \<not> is_string (at_key out ''input_json'')))
       ''Human input observation must remain an exact JSON data string'')))"

definition is_human :: "task_record \<Rightarrow> bool" where
  "is_human r \<longleftrightarrow> task_kind_of (task r) = Human_task"

definition check_settled :: "json_lib \<Rightarrow> task_record \<Rightarrow> plan_error + unit" where
  "check_settled lib r =
     bindE (plan_need (claim_revision r \<noteq> 0 \<and> outcome_json r \<noteq> [] \<and> settled_event_seq r \<noteq> None)
       ''Settled dynamic node lacks its actual outcome'') (\<lambda>_.
     bindE (plan_need (\<not> nonterminal_effect (effect_state r))
       ''Settled dynamic node still owns a nonterminal effect'') (\<lambda>_.
     bindE (plan_need (is_human r \<or> (child_run_id r \<noteq> [] \<and> (child_state r = ''completed'' \<or>
         child_state r = ''failed'' \<or> child_state r = ''cancelled'')))
       ''Settled dynamic child lacks an actual terminal run'') (\<lambda>_.
     bindE (plan_need (\<not> (is_human r \<and> human_request_id r = []))
       ''Settled human node lacks its published request'') (\<lambda>_.
     if is_human r then human_outcome lib r else Inr ()))))"

text \<open>The checks of one node of a snapshot, in two runs around the set of node identities.\<close>

definition check_node_identity :: "json_lib \<Rightarrow> schema_lib \<Rightarrow> plan_capabilities \<Rightarrow> task_record \<Rightarrow>
    plan_error + unit" where
  "check_node_identity lib sl c r =
     bindE (check_definition lib sl c (task r)) (\<lambda>_.
     bindE (check_identity lib (backend_node_id r)) (\<lambda>_.
     forE (\<lambda>i. if i = [] then Inr () else check_identity lib i) [claim_id r, child_run_id r, human_request_id r]))"

definition check_node_state :: "json_lib \<Rightarrow> bytes list \<Rightarrow> task_record \<Rightarrow> plan_error + unit" where
  "check_node_state lib retired r =
     bindE (plan_need ((task_label (task r) \<in> set retired) = (task_state r = Task_skipped))
       ''Dynamic retired label differs from its recorded state'') (\<lambda>_.
     bindE (plan_need (\<not> ((unstarted (task_state r) \<or> task_state r = Task_skipped) \<and> has_execution r))
       ''Unclaimed dynamic node carries actual execution data'') (\<lambda>_.
     bindE (plan_need (\<not> (claim_revision r > 0 \<and> (claim_revision r \<noteq> definition_revision r \<or> claim_id r = [])))
       ''Dynamic claim does not bind its immutable definition'') (\<lambda>_.
     bindE (plan_need (\<not> (task_state r = Task_waiting_human \<and>
         (\<not> is_human r \<or> claim_revision r = 0 \<or> human_request_id r = [])))
       ''Invalid published dynamic human node'') (\<lambda>_.
     bindE (plan_need (\<not> (task_state r = Task_claimed \<and> (is_human r \<or> claim_revision r = 0 \<or> child_run_id r = [])))
       ''Invalid actual dynamic child claim'') (\<lambda>_.
     bindE (plan_need (\<not> (is_human r \<and> (child_run_id r \<noteq> [] \<or> child_state r \<noteq> [] \<or> \<not> no_effect (effect_state r))))
       ''Human input cannot own a child or effect'') (\<lambda>_.
     bindE (plan_need (\<not> (task_kind_of (task r) = Agent_task \<and> human_request_id r \<noteq> []))
       ''Agent node cannot own a human input request'') (\<lambda>_.
     bindE (if task_state r = Task_settled then check_settled lib r else Inr ()) (\<lambda>_.
     bindE (plan_need (case settled_event_seq r of None \<Rightarrow> True | Some q \<Rightarrow> 1 \<le> q \<and> q \<le> safe_integer)
       ''Invalid dynamic settlement event'') (\<lambda>_.
     bindE (if outcome_json r \<noteq> [] then bindE (plan_object lib (outcome_json r) 32768) (\<lambda>_. Inr ()) else Inr ()) (\<lambda>_.
     plan_need (no_effect (effect_state r) \<or> nonterminal_effect (effect_state r) \<or>
         effect_state r \<in> {''succeeded'', ''failed'', ''cancelled'', ''uncertain''})
       ''Invalid dynamic effect state''))))))))))"

definition pending_human :: "task_record \<Rightarrow> bool" where
  "pending_human r \<longleftrightarrow> is_human r \<and> unstarted (task_state r)"

definition pending_child :: "task_record \<Rightarrow> bool" where
  "pending_child r \<longleftrightarrow> \<not> is_human r \<and> unstarted (task_state r)"

text \<open>The identities seen, and the counts of published humans, pending humans and pending children.\<close>

definition check_node :: "json_lib \<Rightarrow> schema_lib \<Rightarrow> plan_record \<Rightarrow> bytes list \<times> int \<times> int \<times> int \<Rightarrow> task_record \<Rightarrow>
    plan_error + bytes list \<times> int \<times> int \<times> int" where
  "check_node lib sl p acc r =
     (case acc of (ids, published, humans, children) \<Rightarrow>
      bindE (check_node_identity lib sl (plan_caps p) r) (\<lambda>_.
      bindE (plan_need (backend_node_id r \<notin> set ids \<and> 1 \<le> definition_revision r \<and>
          definition_revision r \<le> plan_revision p \<and> 0 \<le> claim_revision r \<and> claim_revision r \<le> plan_revision p)
        ''Invalid immutable dynamic node identity'') (\<lambda>_.
      bindE (check_node_state lib (retired_labels p) r) (\<lambda>_.
      Inr (backend_node_id r # ids,
        published + (if is_human r \<and> human_request_id r \<noteq> [] then 1 else 0),
        humans + (if is_human r \<and> human_request_id r = [] \<and> unstarted (task_state r) then 1 else 0),
        children + (if pending_child r then 1 else 0))))))"

definition check_retired :: "json_lib \<Rightarrow> bytes list \<Rightarrow> bytes \<Rightarrow> plan_error + bytes list" where
  "check_retired lib seen l =
     bindE (check_label lib l) (\<lambda>_.
     bindE (plan_need (l \<notin> set seen) ''Duplicate retired dynamic label'') (\<lambda>_. Inr (l # seen)))"

definition initial_ok :: "plan_record \<Rightarrow> bool" where
  "initial_ok p \<longleftrightarrow> state_sequence p = 0 \<and> tasks p = [] \<and> retired_labels p = [] \<and> humans_published p = 0 \<and>
     children_reserved p = 0 \<and> humans_reserved p = 0"

definition snapshot_tasks :: "json_lib \<Rightarrow> schema_lib \<Rightarrow> plan_record \<Rightarrow> plan_error + unit" where
  "snapshot_tasks lib sl p =
     bindE (plan_need (catalogue_finalized (plan_caps p))
       ''Executable dynamic plan lacks its finalized native catalogue'') (\<lambda>_.
     bindE (check_identity lib (plan_id p)) (\<lambda>_.
     bindE (plan_need (1 \<le> state_sequence p) ''Dynamic snapshot lacks its state sequence'') (\<lambda>_.
     bindE (plan_need (tasks p \<noteq> []) ''Dynamic plan has no definitions'') (\<lambda>_.
     bindE (foldE (check_retired lib) [] (retired_labels p)) (\<lambda>_.
     bindE (foldE (check_node lib sl p) ([], 0, 0, 0) (tasks p)) (\<lambda>(ids, published, humans, children).
     bindE (plan_need (published = humans_published p \<and> published + humans \<le> max_humans (plan_caps p) \<and>
         length (retired_labels p) \<le> length (tasks p)) ''Dynamic human or retired-label allowance exceeded'') (\<lambda>_.
     bindE (plan_need (children = children_reserved p \<and> humans = humans_reserved p \<and> children \<le> 8)
       ''Dynamic pending reservations differ from their immutable ledger'') (\<lambda>_.
     bindE (plan_need (\<not> (lifecycle p = ''completed'' \<and> list_ex (\<lambda>r. task_state r \<noteq> Task_settled \<and>
         task_state r \<noteq> Task_skipped \<and> task_state r \<noteq> Task_cancelled) (tasks p)))
       ''Completed dynamic plan still owns unfinished definitions'') (\<lambda>_.
     bindE (plan_need (set (retired_labels p) \<subseteq> set (task_labels (tasks p)))
       ''Retired dynamic label has no immutable definition'') (\<lambda>_.
     topology (tasks p)))))))))))"

definition snapshot :: "json_lib \<Rightarrow> schema_lib \<Rightarrow> bool \<Rightarrow> plan_record \<Rightarrow> plan_error + unit" where
  "snapshot lib sl initial p =
     bindE (check_capabilities lib (plan_caps p)) (\<lambda>_.
     bindE (check_identity lib (root_run_id p)) (\<lambda>_.
     bindE (plan_need (lifecycle p \<in> {''active'', ''waiting_human'', ''completed'', ''failed'', ''cancelled'',
         ''interrupted'', ''uncertain''}) ''Unsupported dynamic plan lifecycle'') (\<lambda>_.
     bindE (plan_need (0 \<le> plan_revision p \<and> plan_revision p \<le> max_revisions (plan_caps p) \<and>
         0 \<le> state_sequence p \<and> state_sequence p \<le> safe_integer \<and>
         int (length (tasks p)) \<le> max_nodes (plan_caps p) \<and>
         0 \<le> humans_published p \<and> humans_published p \<le> max_humans (plan_caps p))
       ''Invalid dynamic plan snapshot bounds'') (\<lambda>_.
     if plan_revision p = 0 then plan_need (initial \<and> initial_ok p) ''Invalid initial dynamic plan snapshot''
     else snapshot_tasks lib sl p))))"

section \<open>Changes\<close>

definition take_label :: "bytes set \<Rightarrow> bytes \<Rightarrow> plan_error + bytes set" where
  "take_label seen l = bindE (plan_need (l \<notin> seen) ''A dynamic change repeats a task label'') (\<lambda>_. Inr (insert l seen))"

definition parse_listed :: "json_lib \<Rightarrow> bytes set \<times> task_definition list \<Rightarrow> json \<Rightarrow>
    plan_error + bytes set \<times> task_definition list" where
  "parse_listed lib acc v =
     bindE (parse_task lib v) (\<lambda>t. bindE (take_label (fst acc) (task_label t)) (\<lambda>seen. Inr (seen, snd acc @ [t])))"

definition parse_list :: "json_lib \<Rightarrow> json \<Rightarrow> bytes \<Rightarrow> bytes set \<Rightarrow> plan_error + bytes set \<times> task_definition list" where
  "parse_list lib input key seen =
     (if \<not> has_member input key then Inr (seen, [])
      else bindE (plan_need (is_array (at_key input key) \<and> length (elements (at_key input key)) \<le> 32)
        ''Dynamic change requires bounded definition arrays'') (\<lambda>_.
        foldE (parse_listed lib) (seen, []) (elements (at_key input key))))"

definition parse_skip :: "json_lib \<Rightarrow> bytes set \<times> bytes list \<Rightarrow> json \<Rightarrow> plan_error + bytes set \<times> bytes list" where
  "parse_skip lib acc v =
     bindE (plan_need (is_string v) ''Dynamic skip requires a task label'') (\<lambda>_.
     bindE (check_label lib (str_of v)) (\<lambda>_.
     bindE (take_label (fst acc) (str_of v)) (\<lambda>seen. Inr (seen, snd acc @ [str_of v]))))"

definition parse_skips :: "json_lib \<Rightarrow> json \<Rightarrow> bytes set \<Rightarrow> plan_error + bytes list" where
  "parse_skips lib input seen =
     (if \<not> has_member input ''skip'' then Inr []
      else bindE (plan_need (is_array (at_key input ''skip'') \<and> length (elements (at_key input ''skip'')) \<le> 32)
        ''Dynamic skips require a bounded label array'') (\<lambda>_.
        bindE (foldE (parse_skip lib) (seen, []) (elements (at_key input ''skip''))) (\<lambda>(s, ls). Inr ls)))"

definition parse_dynamic_plan_change :: "json_lib \<Rightarrow> bytes \<Rightarrow> bool \<Rightarrow> plan_error + plan_change" where
  "parse_dynamic_plan_change lib source initial =
     bindE (plan_object lib source 262144) (\<lambda>input.
     bindE (plan_fields input ([''expected_revision'', ''expected_state_sequence'', ''add''] @
         (if initial then [] else [''replace'', ''skip'']))) (\<lambda>_.
     bindE (integer_field input ''expected_revision'' (if initial then 0 else 1)) (\<lambda>rev.
     bindE (integer_field input ''expected_state_sequence'' (if initial then 0 else 1)) (\<lambda>seq.
     bindE (plan_need (\<not> (initial \<and> (rev \<noteq> 0 \<or> seq \<noteq> 0))) ''Initial dynamic plan requires zero preconditions'') (\<lambda>_.
     bindE (parse_list lib input ''add'' {}) (\<lambda>(seen, add).
     bindE (parse_list lib input ''replace'' seen) (\<lambda>(seen1, rep).
     bindE (parse_skips lib input seen1) (\<lambda>skips.
     bindE (plan_need (add \<noteq> [] \<or> rep \<noteq> [] \<or> skips \<noteq> []) ''Dynamic plan change is empty'') (\<lambda>_.
     Inr \<lparr>expected_revision = rev, expected_state_sequence = seq, add_tasks = add, replace_tasks = rep,
       skip_tasks = skips, change_json = source\<rparr>)))))))))"

section \<open>Reduction of a change\<close>

text \<open>The nodes so far, the retired labels, and how many human tasks are new.\<close>

type_synonym reduction = "task_record list \<times> bytes list \<times> int"

fun task_position :: "bytes \<Rightarrow> task_record list \<Rightarrow> nat option" where
  "task_position l [] = None"
| "task_position l (r # rs) =
     (if task_label (task r) = l then Some 0 else map_option Suc (task_position l rs))"

definition mutable_node :: "task_record list \<Rightarrow> bytes \<Rightarrow> plan_error + nat" where
  "mutable_node rs l =
     (case task_position l rs of
        None \<Rightarrow> Inl (Plan_invalid ''Dynamic revision names an unknown task'')
      | Some i \<Rightarrow> if protected_node (rs ! i)
          then Inl (Plan_conflict ''Claimed, published, settled or retired dynamic work is immutable'') else Inr i)"

definition replace_task :: "json_lib \<Rightarrow> schema_lib \<Rightarrow> plan_capabilities \<Rightarrow> int \<Rightarrow> reduction \<Rightarrow>
    task_definition \<Rightarrow> plan_error + reduction" where
  "replace_task lib sl c revision acc t =
     (case acc of (rs, retired, fresh) \<Rightarrow>
      bindE (check_definition lib sl c t) (\<lambda>_.
      bindE (mutable_node rs (task_label t)) (\<lambda>i.
      bindE (plan_need (\<not> same_definition (task (rs ! i)) t)
        ''Dynamic replacement does not change its definition'') (\<lambda>_.
      Inr (rs[i := (rs ! i)\<lparr>task := t, definition_revision := revision\<rparr>], retired,
        fresh + (if \<not> is_human (rs ! i) \<and> task_kind_of t = Human_task then 1 else 0))))))"

definition skip_task :: "reduction \<Rightarrow> bytes \<Rightarrow> plan_error + reduction" where
  "skip_task acc l =
     (case acc of (rs, retired, fresh) \<Rightarrow>
      bindE (mutable_node rs l) (\<lambda>i.
      Inr (rs[i := (rs ! i)\<lparr>task_state := Task_skipped\<rparr>], retired @ [l], fresh)))"

definition new_record :: "int \<Rightarrow> task_definition \<Rightarrow> task_record" where
  "new_record revision t = \<lparr>task = t, backend_node_id = [], task_state = Task_pending, definition_revision = revision,
     claim_revision = 0, claim_id = [], child_run_id = [], human_request_id = [], child_state = [],
     outcome_json = [], resolved_input_json = [], settled_event_seq = None, effect_state = ''none'',
     protected_definition = False\<rparr>"

definition add_task :: "json_lib \<Rightarrow> schema_lib \<Rightarrow> plan_capabilities \<Rightarrow> int \<Rightarrow> reduction \<Rightarrow>
    task_definition \<Rightarrow> plan_error + reduction" where
  "add_task lib sl c revision acc t =
     (case acc of (rs, retired, fresh) \<Rightarrow>
      bindE (check_definition lib sl c t) (\<lambda>_.
      if task_label t \<in> set (task_labels rs) \<or> task_label t \<in> set retired
      then Inl (Plan_conflict ''Dynamic task label already exists or is permanently retired'')
      else Inr (rs @ [new_record revision t], retired,
        fresh + (if task_kind_of t = Human_task then 1 else 0))))"

definition same_definitions :: "task_definition list \<Rightarrow> task_definition list \<Rightarrow> bool" where
  "same_definitions = list_all2 same_definition"

definition admit_change :: "json_lib \<Rightarrow> schema_lib \<Rightarrow> plan_record \<Rightarrow> plan_change \<Rightarrow> plan_capabilities \<Rightarrow>
    plan_error + unit" where
  "admit_change lib sl p ch frozen =
     bindE (check_capabilities lib frozen) (\<lambda>_.
     bindE (snapshot lib sl True p) (\<lambda>_.
     bindE (plan_need (catalogue_finalized frozen)
       ''Dynamic plan admission requires its finalized native catalogue'') (\<lambda>_.
     bindE (guardE (same_capabilities (plan_caps p) frozen)
       (Plan_conflict ''Dynamic plan capabilities differ from their admitted snapshot'')) (\<lambda>_.
     bindE (plan_need (int (length (change_json ch)) \<le> change_bytes frozen)
       ''Dynamic change exceeds its admitted byte allowance'') (\<lambda>_.
     bindE (parse_dynamic_plan_change lib (change_json ch) (plan_revision p = 0)) (\<lambda>parsed.
     bindE (plan_need (expected_revision parsed = expected_revision ch \<and>
         expected_state_sequence parsed = expected_state_sequence ch \<and>
         same_definitions (add_tasks parsed) (add_tasks ch) \<and>
         same_definitions (replace_tasks parsed) (replace_tasks ch) \<and> skip_tasks parsed = skip_tasks ch)
       ''Dynamic change differs from its exact model request'') (\<lambda>_.
     bindE (guardE (plan_revision p = expected_revision ch \<and> state_sequence p = expected_state_sequence ch)
       (Plan_conflict ''Dynamic plan revision or observed state changed'')) (\<lambda>_.
     bindE (guardE (plan_revision p < max_revisions frozen \<and> state_sequence p < safe_integer)
       (Plan_conflict ''Dynamic plan revision allowance exhausted'')) (\<lambda>_.
     guardE (lifecycle p \<notin> {''completed'', ''failed'', ''cancelled'', ''interrupted'', ''uncertain''})
       (Plan_conflict ''Retired dynamic plan cannot be revised''))))))))))"

definition count_tasks :: "(task_record \<Rightarrow> bool) \<Rightarrow> task_record list \<Rightarrow> int" where
  "count_tasks P rs = int (length (filter P rs))"

definition reduce_tasks :: "json_lib \<Rightarrow> schema_lib \<Rightarrow> plan_record \<Rightarrow> plan_change \<Rightarrow> plan_capabilities \<Rightarrow>
    plan_error + reduction" where
  "reduce_tasks lib sl p ch frozen =
     (let revision = plan_revision p + 1 in
      bindE (foldE (replace_task lib sl frozen revision) (tasks p, retired_labels p, 0) (replace_tasks ch)) (\<lambda>acc1.
      bindE (foldE skip_task acc1 (skip_tasks ch)) (\<lambda>acc2.
      foldE (add_task lib sl frozen revision) acc2 (add_tasks ch))))"

definition reduce_dynamic_plan :: "json_lib \<Rightarrow> schema_lib \<Rightarrow> plan_record \<Rightarrow> plan_change \<Rightarrow> plan_capabilities \<Rightarrow>
    plan_error + plan_candidate" where
  "reduce_dynamic_plan lib sl p ch frozen =
     bindE (admit_change lib sl p ch frozen) (\<lambda>_.
     bindE (reduce_tasks lib sl p ch frozen) (\<lambda>(rs, retired, fresh).
     bindE (plan_need (int (length rs) \<le> max_nodes frozen) ''Dynamic lifetime task-label allowance exceeded'') (\<lambda>_.
     let humans = count_tasks pending_human rs; children = count_tasks pending_child rs in
     bindE (plan_need (humans_published p + humans \<le> max_humans frozen \<and> children \<le> 8)
       ''Dynamic plan cannot preserve its human or executable allowances'') (\<lambda>_.
     bindE (topology rs) (\<lambda>_.
     bindE (dumpP lib (obj [(''nodes'', JArr (map (\<lambda>r. definition_json (task r)) rs))])) (\<lambda>text.
     bindE (plan_need (length text \<le> 262144) ''Dynamic complete definition exceeds its byte limit'') (\<lambda>_.
     Inr \<lparr>cand_tasks = rs, cand_retired = retired, cand_children = children, cand_humans = humans,
       newhuman_count = fresh, canonical_spec_json = text\<rparr>)))))))"

section \<open>Readiness\<close>

datatype readiness_kind = Is_ready | Is_waiting | Is_blocked

definition observed :: "task_record \<Rightarrow> bool" where
  "observed r \<longleftrightarrow> task_state r = Task_settled \<and> effect_state r \<noteq> ''uncertain'' \<and> \<not> nonterminal_effect (effect_state r)"

definition successful :: "json_lib \<Rightarrow> task_record \<Rightarrow> plan_error + bool" where
  "successful lib r =
     (if \<not> observed r then Inr False
      else if is_human r then bindE (plan_object lib (outcome_json r) 32768) (\<lambda>out.
        bindE (at_member out ''human_state'') (\<lambda>v. Inr (v = JStr ''answered'')))
      else Inr (child_state r = ''completed''))"

definition find_task :: "plan_record \<Rightarrow> bytes \<Rightarrow> plan_error + task_record" where
  "find_task p l = (case task_position l (tasks p) of
     None \<Rightarrow> Inl (Plan_missing ''Dynamic task does not belong to this plan'') | Some i \<Rightarrow> Inr (tasks p ! i))"

definition satisfied :: "json_lib \<Rightarrow> requirement \<Rightarrow> task_record \<Rightarrow> plan_error + bool" where
  "satisfied lib req r = (if req = On_success then successful lib r else Inr (observed r))"

definition beyond_hope :: "task_record \<Rightarrow> bool" where
  "beyond_hope r \<longleftrightarrow> observed r \<or> task_state r = Task_skipped \<or> task_state r = Task_cancelled \<or>
     task_state r = Task_uncertain \<or> effect_state r = ''uncertain''"

type_synonym ready_cache = "(bytes \<times> readiness_kind) list"

fun ready_edges :: "(task_record \<Rightarrow> ready_cache \<Rightarrow> plan_error + readiness_kind \<times> ready_cache) \<Rightarrow> json_lib \<Rightarrow>
    plan_record \<Rightarrow> bool \<Rightarrow> ready_cache \<Rightarrow> task_dependency list \<Rightarrow> plan_error + readiness_kind \<times> ready_cache" where
  "ready_edges go lib p waiting cache [] = Inr (if waiting then Is_waiting else Is_ready, cache)"
| "ready_edges go lib p waiting cache (d # ds) =
     bindE (find_task p (dep_task d)) (\<lambda>r.
     bindE (satisfied lib (dep_require d) r) (\<lambda>met.
     if met then ready_edges go lib p waiting cache ds
     else if beyond_hope r then Inr (Is_blocked, cache)
     else if unstarted (task_state r) then bindE (go r cache) (\<lambda>(v, cache1).
       if v = Is_blocked then Inr (Is_blocked, cache1) else ready_edges go lib p True cache1 ds)
     else ready_edges go lib p True cache ds))"

definition remember :: "bytes \<Rightarrow> readiness_kind \<times> ready_cache \<Rightarrow> readiness_kind \<times> ready_cache" where
  "remember l out = (case out of (v, cache) \<Rightarrow>
     (v, if map_of cache l = None then (l, v) # cache else cache))"

fun readiness :: "nat \<Rightarrow> json_lib \<Rightarrow> plan_record \<Rightarrow> task_record \<Rightarrow> ready_cache \<Rightarrow> plan_error + readiness_kind \<times> ready_cache" where
  "readiness 0 lib p r cache = Inl Plan_stuck"
| "readiness (Suc fuel) lib p r cache =
     (case map_of cache (task_label (task r)) of
        Some v \<Rightarrow> Inr (v, cache)
      | None \<Rightarrow> bindE (ready_edges (readiness fuel lib p) lib p False cache (dependencies (task r)))
          (\<lambda>out. Inr (remember (task_label (task r)) out)))"

section \<open>The coordinator's view\<close>

record plan_decision =
  ready_tasks :: "bytes list"
  blocked_tasks :: "bytes list"
  claimed_tasks :: "bytes list"
  waiting_tasks :: "bytes list"
  plan_finished :: bool
  report_ready :: bool
  plan_halted :: bool

definition coordinator_new :: "json_lib \<Rightarrow> schema_lib \<Rightarrow> plan_record \<Rightarrow> plan_error + plan_record" where
  "coordinator_new lib sl p = bindE (snapshot lib sl False p) (\<lambda>_. Inr p)"

definition inspect_task :: "json_lib \<Rightarrow> plan_record \<Rightarrow> plan_decision \<times> bool \<times> ready_cache \<Rightarrow> task_record \<Rightarrow>
    plan_error + plan_decision \<times> bool \<times> ready_cache" where
  "inspect_task lib p acc r =
     (case acc of (d0, unfinished, cache) \<Rightarrow>
      let d = (if task_state r = Task_uncertain \<or> effect_state r = ''uncertain''
               then d0\<lparr>plan_halted := True\<rparr> else d0);
          l = task_label (task r) in
      if task_state r = Task_claimed then Inr (d\<lparr>claimed_tasks := claimed_tasks d @ [l]\<rparr>, unfinished, cache)
      else if task_state r = Task_waiting_human
      then Inr (d\<lparr>waiting_tasks := waiting_tasks d @ [l]\<rparr>, unfinished, cache)
      else if unstarted (task_state r) then
        bindE (readiness (length (tasks p) + 1) lib p r cache) (\<lambda>(v, cache1).
          Inr (if v = Is_ready then d\<lparr>ready_tasks := ready_tasks d @ [l]\<rparr>
               else if v = Is_blocked then d\<lparr>blocked_tasks := blocked_tasks d @ [l]\<rparr> else d, True, cache1))
      else Inr (d, unfinished, cache))"

definition no_decision :: "bool \<Rightarrow> plan_decision" where
  "no_decision halted = \<lparr>ready_tasks = [], blocked_tasks = [], claimed_tasks = [], waiting_tasks = [],
     plan_finished = False, report_ready = False, plan_halted = halted\<rparr>"

definition inspect_plan :: "json_lib \<Rightarrow> plan_record \<Rightarrow> plan_error + plan_decision" where
  "inspect_plan lib p =
     bindE (foldE (inspect_task lib p)
       (no_decision (lifecycle p \<in> {''interrupted'', ''uncertain'', ''failed'', ''cancelled''}), False, []) (tasks p))
       (\<lambda>(d, unfinished, cache).
        let d1 = (if plan_halted d then d\<lparr>ready_tasks := []\<rparr> else d);
            idle = (claimed_tasks d1 = [] \<and> waiting_tasks d1 = []) in
        Inr (d1\<lparr>plan_finished := \<not> unfinished \<and> idle \<and> \<not> plan_halted d1,
               report_ready := idle \<and> ready_tasks d1 = []\<rparr>))"

definition observation :: "plan_record \<Rightarrow> (bytes \<times> json) list \<Rightarrow> task_dependency \<Rightarrow> plan_error + (bytes \<times> json) list" where
  "observation p ms d =
     bindE (find_task p (dep_task d)) (\<lambda>r.
     Inr (put_member (dep_task d) (obj ([(''require'', JStr (requirement_text (dep_require d))),
         (''state'', JStr (task_state_text (task_state r))), (''outcome_json'', JStr (outcome_json r))] @
       (if child_state r \<noteq> [] then [(''child_state'', JStr (child_state r))] else []) @
       (if effect_state r \<noteq> [] then [(''effect_state'', JStr (effect_state r))] else []))) ms))"

definition prepare_task :: "json_lib \<Rightarrow> plan_record \<Rightarrow> bytes \<Rightarrow> plan_error + task_record \<times> bytes" where
  "prepare_task lib p l =
     bindE (inspect_plan lib p) (\<lambda>d.
     bindE (guardE (\<not> plan_halted d \<and> l \<in> set (ready_tasks d))
       (Plan_conflict ''Dynamic task has no executable owned frontier'')) (\<lambda>_.
     bindE (find_task p l) (\<lambda>r.
     bindE (foldE (observation p) [] (dependencies (task r))) (\<lambda>ms.
     bindE (dumpP lib (JObj ms)) (\<lambda>source.
     bindE (plan_need (length source \<le> 65536) ''Dynamic dependency observations exceed their byte limit'') (\<lambda>_.
     Inr (r, source)))))))"

definition opt_member :: "bytes \<Rightarrow> bytes \<Rightarrow> (bytes \<times> json) list" where
  "opt_member k s = (if s = [] then [] else [(k, JStr s)])"

definition history_ref :: "plan_record \<Rightarrow> task_record \<Rightarrow> bytes" where
  "history_ref p r = ''/v1/runs/'' @ root_run_id p @ ''/children/'' @ child_run_id r @ ''/history''"

definition public_node :: "task_record \<Rightarrow> bool \<Rightarrow> (bytes \<times> json) list" where
  "public_node r include_outcome =
     definition_members (task r) @
     [(''definition_revision'', JInt (definition_revision r)), (''state'', JStr (task_state_text (task_state r))),
      (''protected'', JBool (protected_node r))] @
     (if task_kind_of (task r) = Agent_task then [(''preset_revision'', JInt (preset_revision (task r)))] else []) @
     (if claim_revision r > 0 then [(''claim_revision'', JInt (claim_revision r))] else []) @
     opt_member ''human_request_id'' (human_request_id r) @ opt_member ''child_run_id'' (child_run_id r) @
     opt_member ''child_state'' (child_state r) @ opt_member ''effect_state'' (effect_state r) @
     (if include_outcome then opt_member ''outcome_json'' (outcome_json r) else [])"

definition full_node :: "plan_record \<Rightarrow> task_record \<Rightarrow> json" where
  "full_node p r = obj (public_node r True @
     (if child_run_id r \<noteq> [] then [(''history_ref'', JStr (history_ref p r))] else []))"

definition brief_node :: "plan_record \<Rightarrow> task_record \<Rightarrow> json" where
  "brief_node p r = obj ([(''id'', JStr (task_label (task r))), (''type'', JStr (kind_text (task_kind_of (task r)))),
      (''state'', JStr (task_state_text (task_state r))), (''definition_revision'', JInt (definition_revision r)),
      (''protected'', JBool (protected_node r))] @
     opt_member ''human_request_id'' (human_request_id r) @
     (if child_run_id r \<noteq> [] then [(''child_run_id'', JStr (child_run_id r)),
        (''child_state'', JStr (child_state r)), (''history_ref'', JStr (history_ref p r))] else []))"

definition report_head :: "plan_record \<Rightarrow> plan_decision \<Rightarrow> (bytes \<times> json) list" where
  "report_head p d =
     [(''source'', JStr ''native_dynamic_plan''), (''plan_id'', JStr (plan_id p)),
      (''root_run_id'', JStr (root_run_id p)), (''revision'', JInt (plan_revision p)),
      (''state_sequence'', JInt (state_sequence p)), (''finished'', JBool (plan_finished d)),
      (''halted'', JBool (plan_halted d)), (''ready'', JArr (map JStr (ready_tasks d))),
      (''blocked'', JArr (map JStr (blocked_tasks d))), (''waiting_human'', JArr (map JStr (waiting_tasks d)))]"

definition plan_report :: "json_lib \<Rightarrow> plan_record \<Rightarrow> plan_error + bytes" where
  "plan_report lib p =
     bindE (inspect_plan lib p) (\<lambda>d.
     bindE (dumpP lib (obj (report_head p d @ [(''nodes'', JArr (map (full_node p) (tasks p)))]))) (\<lambda>source.
     if length source \<le> 65536 then Inr source
     else bindE (dumpP lib (obj (report_head p d @ [(''error'', obj [(''code'', JStr ''result_limit_exceeded'')]),
         (''nodes'', JArr (map (brief_node p) (tasks p)))]))) (\<lambda>brief.
       bindE (plan_need (length brief \<le> 65536) ''Dynamic plan identity report exceeds its byte limit'') (\<lambda>_.
       Inr brief))))"

definition inspect_dynamic_plan :: "json_lib \<Rightarrow> schema_lib \<Rightarrow> plan_record \<Rightarrow> plan_error + plan_decision" where
  "inspect_dynamic_plan lib sl p = bindE (coordinator_new lib sl p) (inspect_plan lib)"

definition prepare_dynamic_node :: "json_lib \<Rightarrow> schema_lib \<Rightarrow> plan_record \<Rightarrow> bytes \<Rightarrow> plan_error + task_record \<times> bytes" where
  "prepare_dynamic_node lib sl p l = bindE (coordinator_new lib sl p) (\<lambda>q. prepare_task lib q l)"

definition dynamic_plan_report :: "json_lib \<Rightarrow> schema_lib \<Rightarrow> plan_record \<Rightarrow> plan_error + bytes" where
  "dynamic_plan_report lib sl p = bindE (coordinator_new lib sl p) (plan_report lib)"

section \<open>Installation of an accepted candidate\<close>

text \<open>
  What the repository writes back in the transaction that accepts the change: the next revision
  and state sequence, the candidate, and an identity for every node that has none.
\<close>

definition node_identity :: "plan_record \<Rightarrow> nat \<Rightarrow> bytes" where
  "node_identity p i = plan_id p @ ''_n'' @ decimal i"

definition name_nodes :: "plan_record \<Rightarrow> task_record list \<Rightarrow> task_record list" where
  "name_nodes p rs = map (\<lambda>(i, r). if backend_node_id r = [] then r\<lparr>backend_node_id := node_identity p i\<rparr> else r)
     (enumerate 0 rs)"

definition install_candidate :: "plan_record \<Rightarrow> plan_candidate \<Rightarrow> plan_record" where
  "install_candidate p c = p\<lparr>plan_revision := plan_revision p + 1, state_sequence := state_sequence p + 1,
     lifecycle := ''active'', tasks := name_nodes p (cand_tasks c), retired_labels := cand_retired c,
     children_reserved := cand_children c, humans_reserved := cand_humans c\<rparr>"

section \<open>Snapshots by node\<close>

definition node_sound :: "json_lib \<Rightarrow> schema_lib \<Rightarrow> plan_capabilities \<Rightarrow> int \<Rightarrow> bytes list \<Rightarrow> task_record \<Rightarrow> bool" where
  "node_sound lib sl c revision retired r \<longleftrightarrow> check_definition lib sl c (task r) = Inr () \<and>
     (\<forall>i \<in> {claim_id r, child_run_id r, human_request_id r}. i = [] \<or> check_identity lib i = Inr ()) \<and>
     1 \<le> definition_revision r \<and> definition_revision r \<le> revision \<and>
     0 \<le> claim_revision r \<and> claim_revision r \<le> revision \<and> check_node_state lib retired r = Inr ()"

definition published :: "task_record \<Rightarrow> bool" where
  "published r \<longleftrightarrow> is_human r \<and> human_request_id r \<noteq> []"

lemma count_tasks_simps [simp]:
  "count_tasks P [] = 0" "count_tasks P (r # rs) = (if P r then 1 else 0) + count_tasks P rs"
  "count_tasks P (rs @ ss) = count_tasks P rs + count_tasks P ss"
  by (simp_all add: count_tasks_def)

lemma plan_need_Inr [simp]: "plan_need b m = Inr u \<longleftrightarrow> b"
  by (simp add: plan_need_def)

lemma bind_plan_need [simp]: "bindE (plan_need b m) f = Inr y \<longleftrightarrow> b \<and> f () = Inr y"
  by (simp add: plan_need_def)

lemma unstarted_clear:
  "check_node_state lib retired r = Inr () \<Longrightarrow> unstarted (task_state r) \<Longrightarrow> \<not> has_execution r"
  by (simp add: check_node_state_def split: if_splits)

lemma check_node_Inr:
  "check_node lib sl p (ids, a, b, c) r = Inr out \<longleftrightarrow>
     node_sound lib sl (plan_caps p) (plan_revision p) (retired_labels p) r \<and>
     check_identity lib (backend_node_id r) = Inr () \<and> backend_node_id r \<notin> set ids \<and>
     out = (backend_node_id r # ids, a + (if published r then 1 else 0),
       b + (if pending_human r then 1 else 0), c + (if pending_child r then 1 else 0))"
proof -
  have "check_node_state lib (retired_labels p) r = Inr () \<Longrightarrow>
      is_human r \<and> human_request_id r = [] \<and> unstarted (task_state r) \<longleftrightarrow> pending_human r"
    using unstarted_clear [of lib "retired_labels p" r] by (auto simp: pending_human_def has_execution_def)
  then show ?thesis
    unfolding check_node_def check_node_identity_def node_sound_def published_def
    by (simp add: result_simps) auto
qed

lemma check_nodes:
  "foldE (check_node lib sl p) (ids, a, b, c) rs = Inr out \<longleftrightarrow>
     (\<forall>r \<in> set rs. node_sound lib sl (plan_caps p) (plan_revision p) (retired_labels p) r \<and>
        check_identity lib (backend_node_id r) = Inr ()) \<and>
     distinct (map backend_node_id rs) \<and> set ids \<inter> set (map backend_node_id rs) = {} \<and>
     out = (rev (map backend_node_id rs) @ ids, a + count_tasks published rs,
       b + count_tasks pending_human rs, c + count_tasks pending_child rs)"
proof (induction rs arbitrary: ids a b c)
  case (Cons r rs)
  show ?case by (simp add: result_simps check_node_Inr Cons.IH) auto
qed auto

lemma check_retired_Inr:
  "check_retired lib seen l = Inr out \<longleftrightarrow> check_label lib l = Inr () \<and> l \<notin> set seen \<and> out = l # seen"
  by (auto simp: check_retired_def result_simps)

lemma check_retired_all:
  "foldE (check_retired lib) seen ls = Inr out \<longleftrightarrow>
     (\<forall>l \<in> set ls. check_label lib l = Inr ()) \<and> distinct ls \<and> set seen \<inter> set ls = {} \<and> out = rev ls @ seen"
proof (induction ls arbitrary: seen)
  case (Cons l ls)
  show ?case by (simp add: result_simps check_retired_Inr Cons.IH) auto
qed auto

text \<open>What the snapshot check of an executable plan says.\<close>

definition plan_sound :: "json_lib \<Rightarrow> schema_lib \<Rightarrow> plan_record \<Rightarrow> bool" where
  "plan_sound lib sl p \<longleftrightarrow>
     catalogue_finalized (plan_caps p) \<and> check_identity lib (plan_id p) = Inr () \<and> 1 \<le> state_sequence p \<and>
     tasks p \<noteq> [] \<and> (\<forall>l \<in> set (retired_labels p). check_label lib l = Inr ()) \<and> distinct (retired_labels p) \<and>
     (\<forall>r \<in> set (tasks p). node_sound lib sl (plan_caps p) (plan_revision p) (retired_labels p) r \<and>
        check_identity lib (backend_node_id r) = Inr ()) \<and>
     distinct (map backend_node_id (tasks p)) \<and>
     count_tasks published (tasks p) = humans_published p \<and>
     count_tasks pending_human (tasks p) = humans_reserved p \<and>
     count_tasks pending_child (tasks p) = children_reserved p \<and>
     humans_published p + humans_reserved p \<le> max_humans (plan_caps p) \<and> children_reserved p \<le> 8 \<and>
     (lifecycle p = ''completed'' \<longrightarrow> (\<forall>r \<in> set (tasks p).
        task_state r \<in> {Task_settled, Task_skipped, Task_cancelled})) \<and>
     set (retired_labels p) \<subseteq> set (task_labels (tasks p)) \<and> topology (tasks p) = Inr ()"

lemma retired_count:
  "distinct ls \<Longrightarrow> set ls \<subseteq> set (task_labels rs) \<Longrightarrow> length ls \<le> length rs"
  by (metis card_mono distinct_card finite_set length_map card_length le_trans)

lemma snapshot_tasks_iff: "snapshot_tasks lib sl p = Inr () \<longleftrightarrow> plan_sound lib sl p"
proof -
  have "distinct (retired_labels p) \<Longrightarrow> set (retired_labels p) \<subseteq> set (task_labels (tasks p)) \<Longrightarrow>
      length (retired_labels p) \<le> length (tasks p)"
    by (rule retired_count)
  moreover have "list_ex P xs = (\<exists>x \<in> set xs. P x)" for P :: "task_record \<Rightarrow> bool" and xs
    by (simp add: list_ex_iff)
  ultimately show ?thesis
    unfolding snapshot_tasks_def plan_sound_def
    by (simp add: result_simps check_nodes check_retired_all list_ex_iff) auto
qed

section \<open>The reduction keeps plans sound\<close>

definition reduction_sound :: "json_lib \<Rightarrow> schema_lib \<Rightarrow> plan_record \<Rightarrow> task_record list \<Rightarrow> bytes list \<Rightarrow> bool" where
  "reduction_sound lib sl p rs retired \<longleftrightarrow>
     (\<forall>r \<in> set rs. node_sound lib sl (plan_caps p) (plan_revision p + 1) retired r) \<and>
     distinct (task_labels rs) \<and> distinct retired \<and> (\<forall>l \<in> set retired. check_label lib l = Inr ()) \<and>
     set retired \<subseteq> set (task_labels rs) \<and> length (tasks p) \<le> length rs \<and>
     (\<forall>i < length rs. backend_node_id (rs ! i) =
        (if i < length (tasks p) then backend_node_id (tasks p ! i) else [])) \<and>
     (\<forall>i < length (tasks p). task_label (task (rs ! i)) = task_label (task (tasks p ! i)) \<and>
        (protected_node (tasks p ! i) \<longrightarrow> rs ! i = tasks p ! i)) \<and>
     count_tasks published rs = humans_published p \<and> prefix (retired_labels p) retired"

lemma reduction_soundD:
  assumes "reduction_sound lib sl p rs retired"
  shows "\<forall>r \<in> set rs. node_sound lib sl (plan_caps p) (plan_revision p + 1) retired r"
    and "distinct (task_labels rs)" and "distinct retired" and "\<forall>l \<in> set retired. check_label lib l = Inr ()"
    and "set retired \<subseteq> set (task_labels rs)" and "length (tasks p) \<le> length rs"
    and "\<forall>i < length rs. backend_node_id (rs ! i) =
        (if i < length (tasks p) then backend_node_id (tasks p ! i) else [])"
    and "\<forall>i < length (tasks p). task_label (task (rs ! i)) = task_label (task (tasks p ! i)) \<and>
        (protected_node (tasks p ! i) \<longrightarrow> rs ! i = tasks p ! i)"
    and "count_tasks published rs = humans_published p" and "prefix (retired_labels p) retired"
  using assms unfolding reduction_sound_def by blast+

lemma node_state_cong:
  "(task_label (task r) \<in> set a \<longleftrightarrow> task_label (task r) \<in> set b) \<Longrightarrow>
     check_node_state lib a r = check_node_state lib b r"
  by (simp add: check_node_state_def)

lemma node_sound_cong:
  "(task_label (task r) \<in> set a \<longleftrightarrow> task_label (task r) \<in> set b) \<Longrightarrow>
     node_sound lib sl c n a r = node_sound lib sl c n b r"
  using node_state_cong [of r a b] by (simp add: node_sound_def)

lemma node_sound_mono: "node_sound lib sl c n a r \<Longrightarrow> n \<le> m \<Longrightarrow> node_sound lib sl c m a r"
  by (auto simp: node_sound_def)

lemma node_sound_retired:
  "node_sound lib sl c n a r \<Longrightarrow> task_label (task r) \<in> set a \<longleftrightarrow> task_state r = Task_skipped"
  by (simp add: node_sound_def check_node_state_def)

lemma fresh_node_state:
  assumes "\<not> has_execution r" and "task_label (task r) \<in> set a \<longleftrightarrow> task_state r = Task_skipped"
    and "unstarted (task_state r) \<or> task_state r = Task_skipped"
  shows "check_node_state lib a r = Inr ()"
  using assms by (auto simp: check_node_state_def has_execution_def unstarted_def)

lemma unprotected: "\<not> protected_node r \<Longrightarrow> \<not> has_execution r \<and> unstarted (task_state r)"
  by (simp add: protected_node_def)

lemma fresh_node_sound:
  assumes "\<not> has_execution r" and "task_label (task r) \<in> set a \<longleftrightarrow> task_state r = Task_skipped"
    and "unstarted (task_state r) \<or> task_state r = Task_skipped"
    and "check_definition lib sl c (task r) = Inr ()" and "1 \<le> definition_revision r"
    and "definition_revision r \<le> n" and "0 \<le> n"
  shows "node_sound lib sl c n a r"
  using assms fresh_node_state [OF assms(1-3)] by (simp add: node_sound_def has_execution_def)

lemma task_position_Some:
  "task_position l rs = Some i \<Longrightarrow> i < length rs \<and> task_label (task (rs ! i)) = l"
  by (induction rs arbitrary: i) (auto split: if_splits)

lemma mutable_node_Inr:
  "mutable_node rs l = Inr i \<Longrightarrow> i < length rs \<and> task_label (task (rs ! i)) = l \<and> \<not> protected_node (rs ! i)"
  by (auto simp: mutable_node_def dest: task_position_Some split: option.splits if_splits)

lemma count_update:
  "i < length rs \<Longrightarrow> P r = P (rs ! i) \<Longrightarrow> count_tasks P (rs[i := r]) = count_tasks P rs"
  by (induction rs arbitrary: i) (auto split: nat.splits)

lemma labels_update:
  "i < length rs \<Longrightarrow> task_label (task r) = task_label (task (rs ! i)) \<Longrightarrow> task_labels (rs[i := r]) = task_labels rs"
  by (simp add: map_update) (metis list_update_id nth_map)

lemma reduction_update:
  assumes sound: "reduction_sound lib sl p rs retired" and i: "i < length rs" "\<not> protected_node (rs ! i)"
    and r: "task_label (task r) = task_label (task (rs ! i))" "backend_node_id r = backend_node_id (rs ! i)"
      "\<not> has_execution r" "node_sound lib sl (plan_caps p) (plan_revision p + 1) retired' r"
    and retired': "prefix retired retired'" "distinct retired'" "\<forall>l \<in> set retired'. check_label lib l = Inr ()"
      "set retired' \<subseteq> insert (task_label (task r)) (set retired)"
  shows "reduction_sound lib sl p (rs[i := r]) retired'"
proof -
  note s = reduction_soundD [OF sound]
  have labels: "task_labels (rs[i := r]) = task_labels rs" by (rule labels_update [OF i(1) r(1)])
  note dist = s(2)
  have other: "task_label (task (rs ! j)) \<noteq> task_label (task r)" if "j < length rs" "j \<noteq> i" for j
    using nth_eq_iff_index_eq [OF dist, of j i] that i(1) r(1) by simp
  have nodes: "node_sound lib sl (plan_caps p) (plan_revision p + 1) retired' (rs[i := r] ! j)"
    if "j < length rs" for j
  proof (cases "j = i")
    case False
    have "set retired \<subseteq> set retired'" using retired'(1) by (simp add: set_mono_prefix)
    then have "task_label (task (rs ! j)) \<in> set retired \<longleftrightarrow> task_label (task (rs ! j)) \<in> set retired'"
      using other [OF that False] retired'(4) by blast
    moreover have "node_sound lib sl (plan_caps p) (plan_revision p + 1) retired (rs ! j)"
      using s(1) that by simp
    ultimately show ?thesis using node_sound_cong [of "rs ! j" retired retired'] False by simp
  qed (use r(4) i(1) in simp)
  have all: "\<forall>x \<in> set (rs[i := r]). node_sound lib sl (plan_caps p) (plan_revision p + 1) retired' x"
    using nodes by (metis in_set_conv_nth length_list_update)
  have sub: "set retired' \<subseteq> set (task_labels (rs[i := r]))"
  proof -
    have "task_label (task r) \<in> set (task_labels rs)" using i(1) r(1) by (metis length_map nth_map nth_mem)
    then show ?thesis using retired'(4) s(5) labels by (metis insert_subset subset_trans)
  qed
  have ids: "\<forall>j < length (rs[i := r]). backend_node_id (rs[i := r] ! j) =
      (if j < length (tasks p) then backend_node_id (tasks p ! j) else [])"
    using s(7) r(2) i(1) by (simp add: nth_list_update)
  have keeps: "\<forall>j < length (tasks p). task_label (task (rs[i := r] ! j)) = task_label (task (tasks p ! j)) \<and>
      (protected_node (tasks p ! j) \<longrightarrow> rs[i := r] ! j = tasks p ! j)"
    using s(8) r(1) i by (metis nth_list_update_eq nth_list_update_neq)
  have "published (rs ! i) = published r"
    using r(3) unprotected [OF i(2)] by (simp add: published_def has_execution_def)
  then have pub: "count_tasks published (rs[i := r]) = humans_published p"
    using count_update [OF i(1), of published r] s(9) by simp
  have pre: "prefix (retired_labels p) retired'" using s(10) retired'(1) by (rule prefix_order.order_trans)
  show ?thesis unfolding reduction_sound_def
    using s(6) all dist [folded labels] retired'(2,3) sub ids keeps pub pre by (metis length_list_update)
qed

lemma replace_task_sound:
  assumes "reduction_sound lib sl p rs retired" and "0 \<le> plan_revision p"
    and "replace_task lib sl (plan_caps p) (plan_revision p + 1) (rs, retired, k) t = Inr (rs', retired', k')"
  shows "reduction_sound lib sl p rs' retired'"
proof -
  obtain i where def_ok: "check_definition lib sl (plan_caps p) t = Inr ()"
    and m: "mutable_node rs (task_label t) = Inr i" and out: "retired' = retired"
      "rs' = rs[i := (rs ! i)\<lparr>task := t, definition_revision := plan_revision p + 1\<rparr>]"
    using assms(3) by (auto simp: replace_task_def result_simps)
  note i = mutable_node_Inr [OF m] and s = reduction_soundD [OF assms(1)]
  let ?r = "(rs ! i)\<lparr>task := t, definition_revision := plan_revision p + 1\<rparr>"
  have clear: "\<not> has_execution ?r" "unstarted (task_state ?r)"
    using unprotected [of "rs ! i"] i by (simp_all add: has_execution_def)
  have "task_label (task (rs ! i)) \<in> set retired \<longleftrightarrow> task_state (rs ! i) = Task_skipped"
    using s(1) i by (intro node_sound_retired) (auto intro: nth_mem)
  then have "node_sound lib sl (plan_caps p) (plan_revision p + 1) retired ?r"
    using clear i def_ok assms(2) by (intro fresh_node_sound) simp_all
  then show ?thesis unfolding out
    using i clear s(3,4) by (intro reduction_update [OF assms(1)]) auto
qed

lemma skip_task_sound:
  assumes "reduction_sound lib sl p rs retired" and "0 \<le> plan_revision p" and "check_label lib l = Inr ()"
    and "skip_task (rs, retired, k) l = Inr (rs', retired', k')"
  shows "reduction_sound lib sl p rs' retired'"
proof -
  obtain i where m: "mutable_node rs l = Inr i" and out: "retired' = retired @ [l]"
      "rs' = rs[i := (rs ! i)\<lparr>task_state := Task_skipped\<rparr>]"
    using assms(4) by (auto simp: skip_task_def result_simps)
  note i = mutable_node_Inr [OF m] and s = reduction_soundD [OF assms(1)]
  let ?r = "(rs ! i)\<lparr>task_state := Task_skipped\<rparr>"
  have clear: "\<not> has_execution ?r" "unstarted (task_state (rs ! i))"
    using unprotected [of "rs ! i"] i by (simp_all add: has_execution_def)
  have old: "node_sound lib sl (plan_caps p) (plan_revision p + 1) retired (rs ! i)" using s(1) i by simp
  have "l \<notin> set retired"
    using node_sound_retired [OF old] clear(2) i by (auto simp: unstarted_def)
  have "node_sound lib sl (plan_caps p) (plan_revision p + 1) (retired @ [l]) ?r"
    using clear i old assms(2) by (intro fresh_node_sound) (simp_all add: node_sound_def)
  then show ?thesis unfolding out
    using i clear s(3,4) assms(3) \<open>l \<notin> set retired\<close> by (intro reduction_update [OF assms(1)]) auto
qed

lemma add_task_sound:
  assumes "reduction_sound lib sl p rs retired" and "0 \<le> plan_revision p"
    and "add_task lib sl (plan_caps p) (plan_revision p + 1) (rs, retired, k) t = Inr (rs', retired', k')"
  shows "reduction_sound lib sl p rs' retired'"
proof -
  let ?r = "new_record (plan_revision p + 1) t"
  have def_ok: "check_definition lib sl (plan_caps p) t = Inr ()"
    and new: "task_label t \<notin> set (task_labels rs)" "task_label t \<notin> set retired"
    and out: "retired' = retired" "rs' = rs @ [?r]"
    using assms(3) by (auto simp: add_task_def result_simps split: if_splits)
  note s = reduction_soundD [OF assms(1)]
  have r: "task ?r = t" "backend_node_id ?r = []" "\<not> published ?r"
    by (simp_all add: new_record_def published_def)
  have "node_sound lib sl (plan_caps p) (plan_revision p + 1) retired ?r"
    using def_ok new(2) assms(2)
    by (intro fresh_node_sound) (simp_all add: new_record_def has_execution_def no_effect_def unstarted_def)
  then have nodes: "\<forall>r \<in> set rs'. node_sound lib sl (plan_caps p) (plan_revision p + 1) retired' r"
    using s(1) out by simp
  have ids: "\<forall>i < length rs'. backend_node_id (rs' ! i) =
      (if i < length (tasks p) then backend_node_id (tasks p ! i) else [])"
    using s(6,7) r(2) out by (auto simp: nth_append less_Suc_eq)
  have keeps: "\<forall>i < length (tasks p). task_label (task (rs' ! i)) = task_label (task (tasks p ! i)) \<and>
      (protected_node (tasks p ! i) \<longrightarrow> rs' ! i = tasks p ! i)"
    using s(6,8) out by (simp add: nth_append)
  show ?thesis unfolding reduction_sound_def
    using nodes ids keeps s(2-6,9,10) new(1) r out by auto
qed

lemma foldE_invariant_on:
  assumes "\<And>s x t. x \<in> set xs \<Longrightarrow> P s \<Longrightarrow> f s x = Inr t \<Longrightarrow> P t" and "P s" and "foldE f s xs = Inr t"
  shows "P t"
  using assms by (induction xs arbitrary: s) (auto simp: result_simps)

lemma parsed_skips:
  assumes "parse_dynamic_plan_change lib source initial = Inr ch"
  shows "\<forall>l \<in> set (skip_tasks ch). check_label lib l = Inr ()"
    and "add_tasks ch \<noteq> [] \<or> replace_tasks ch \<noteq> [] \<or> skip_tasks ch \<noteq> []"
proof -
  obtain input seen ls where ls: "parse_skips lib input seen = Inr ls" "skip_tasks ch = ls"
    and some: "add_tasks ch \<noteq> [] \<or> replace_tasks ch \<noteq> [] \<or> ls \<noteq> []"
    using assms unfolding parse_dynamic_plan_change_def by (auto simp: result_simps)
  show "add_tasks ch \<noteq> [] \<or> replace_tasks ch \<noteq> [] \<or> skip_tasks ch \<noteq> []" using some ls(2) by simp
  have step: "\<forall>l \<in> set (snd acc'). check_label lib l = Inr ()"
    if "\<forall>l \<in> set (snd acc). check_label lib l = Inr ()" "parse_skip lib acc v = Inr acc'" for acc v acc'
    using that by (auto simp: parse_skip_def result_simps)
  show "\<forall>l \<in> set (skip_tasks ch). check_label lib l = Inr ()"
  proof (cases "has_member input ''skip''")
    case False
    then show ?thesis using ls by (simp add: parse_skips_def)
  next
    case True
    then obtain s where "foldE (parse_skip lib) (seen, []) (elements (at_key input ''skip'')) = Inr (s, ls)"
      using ls(1) by (auto simp: parse_skips_def result_simps)
    from foldE_invariant [where P = "\<lambda>acc. \<forall>l \<in> set (snd acc). check_label lib l = Inr ()", OF step _ this]
    show ?thesis using ls(2) by simp
  qed
qed

lemma reduction_start:
  assumes "snapshot lib sl True p = Inr ()"
  shows "reduction_sound lib sl p (tasks p) (retired_labels p)" and "0 \<le> plan_revision p"
proof -
  show revision: "0 \<le> plan_revision p" using assms by (simp add: snapshot_def result_simps)
  show "reduction_sound lib sl p (tasks p) (retired_labels p)"
  proof (cases "plan_revision p = 0")
    case True
    then have "initial_ok p" using assms by (simp add: snapshot_def result_simps)
    then show ?thesis by (simp add: reduction_sound_def initial_ok_def)
  next
    case False
    then have sound: "plan_sound lib sl p"
      using assms by (simp add: snapshot_def result_simps flip: snapshot_tasks_iff)
    then have "distinct (task_labels (tasks p))" using topology_sound(1) by (simp add: plan_sound_def)
    moreover have "\<forall>r \<in> set (tasks p). node_sound lib sl (plan_caps p) (plan_revision p + 1) (retired_labels p) r"
      using sound unfolding plan_sound_def by (metis node_sound_mono zle_add1_eq_le zless_add1_eq)
    ultimately show ?thesis using sound unfolding reduction_sound_def plan_sound_def by auto
  qed
qed

abbreviation acc_sound :: "json_lib \<Rightarrow> schema_lib \<Rightarrow> plan_record \<Rightarrow> reduction \<Rightarrow> bool" where
  "acc_sound lib sl p acc \<equiv> reduction_sound lib sl p (fst acc) (fst (snd acc))"

lemma reduce_tasks_sound:
  assumes "snapshot lib sl True p = Inr ()" and "\<forall>l \<in> set (skip_tasks ch). check_label lib l = Inr ()"
    and "reduce_tasks lib sl p ch (plan_caps p) = Inr (rs, retired, k)"
  shows "reduction_sound lib sl p rs retired"
proof -
  note start = reduction_start [OF assms(1)]
  obtain acc1 acc2 where
    f1: "foldE (replace_task lib sl (plan_caps p) (plan_revision p + 1)) (tasks p, retired_labels p, 0)
      (replace_tasks ch) = Inr acc1" and
    f2: "foldE skip_task acc1 (skip_tasks ch) = Inr acc2" and
    f3: "foldE (add_task lib sl (plan_caps p) (plan_revision p + 1)) acc2 (add_tasks ch) = Inr (rs, retired, k)"
    using assms(3) by (auto simp: reduce_tasks_def Let_def result_simps)
  have s1: "acc_sound lib sl p acc1"
    by (rule foldE_invariant [where P = "acc_sound lib sl p", OF _ _ f1])
      (use start replace_task_sound in \<open>auto split: prod.splits\<close>)
  have s2: "acc_sound lib sl p acc2"
    by (rule foldE_invariant_on [where P = "acc_sound lib sl p", OF _ s1 f2])
      (use start(2) skip_task_sound assms(2) in \<open>auto split: prod.splits\<close>)
  have "acc_sound lib sl p (rs, retired, k)"
    by (rule foldE_invariant [where P = "acc_sound lib sl p", OF _ s2 f3])
      (use start(2) add_task_sound in \<open>auto split: prod.splits\<close>)
  then show ?thesis by simp
qed

lemma reduced_nonempty:
  assumes "reduce_tasks lib sl p ch c = Inr (rs, retired, k)"
    and "add_tasks ch \<noteq> [] \<or> replace_tasks ch \<noteq> [] \<or> skip_tasks ch \<noteq> []"
  shows "rs \<noteq> []"
proof -
  have fold: "fst acc' \<noteq> []" if "foldE f acc xs = Inr acc'" "xs \<noteq> [] \<or> fst acc \<noteq> []"
    "\<And>s x t. f s x = Inr t \<Longrightarrow> fst t \<noteq> []" for f and acc acc' :: reduction and xs
    using that
  proof (induction xs arbitrary: acc)
    case (Cons x xs)
    obtain acc1 where "f acc x = Inr acc1" "foldE f acc1 xs = Inr acc'"
      using Cons.prems(1) by (auto simp: result_simps)
    then show ?case using Cons.IH [of acc1] Cons.prems(3) by blast
  qed simp
  have steps: "replace_task lib sl c n s t = Inr u \<Longrightarrow> fst u \<noteq> []" "skip_task s l = Inr u \<Longrightarrow> fst u \<noteq> []"
    "add_task lib sl c n s t = Inr u \<Longrightarrow> fst u \<noteq> []" for n s t u l
    by (auto simp: replace_task_def skip_task_def add_task_def result_simps split: prod.splits if_splits
        dest!: mutable_node_Inr)
  obtain acc1 acc2 where
    f: "foldE (replace_task lib sl c (plan_revision p + 1)) (tasks p, retired_labels p, 0)
      (replace_tasks ch) = Inr acc1"
      "foldE skip_task acc1 (skip_tasks ch) = Inr acc2"
      "foldE (add_task lib sl c (plan_revision p + 1)) acc2 (add_tasks ch) = Inr (rs, retired, k)"
    using assms(1) by (auto simp: reduce_tasks_def Let_def result_simps)
  show ?thesis
    using fold [OF f(1) _ steps(1)] fold [OF f(2) _ steps(2)] fold [OF f(3) _ steps(3)] assms(2) by auto
qed

text \<open>The nodes with their identities: everything else is as in the candidate.\<close>

lemma name_nodes_length [simp]: "length (name_nodes p rs) = length rs"
  by (simp add: name_nodes_def)

lemma name_nodes_nth:
  "i < length rs \<Longrightarrow> name_nodes p rs ! i =
     (if backend_node_id (rs ! i) = [] then (rs ! i)\<lparr>backend_node_id := node_identity p i\<rparr> else rs ! i)"
  by (simp add: name_nodes_def nth_enumerate_eq)

lemma renamed_node [simp]:
  "node_sound lib sl c n a (r\<lparr>backend_node_id := x\<rparr>) = node_sound lib sl c n a r"
  "published (r\<lparr>backend_node_id := x\<rparr>) = published r"
  "pending_human (r\<lparr>backend_node_id := x\<rparr>) = pending_human r"
  "pending_child (r\<lparr>backend_node_id := x\<rparr>) = pending_child r"
  by (simp_all add: node_sound_def check_node_state_def check_settled_def human_outcome_def has_execution_def
      is_human_def published_def pending_human_def pending_child_def)

lemma count_tasks_cong:
  "length rs = length ss \<Longrightarrow> (\<And>i. i < length ss \<Longrightarrow> P (rs ! i) = P (ss ! i)) \<Longrightarrow> count_tasks P rs = count_tasks P ss"
  by (induction rs ss rule: list_induct2) (force simp: nth_Cons split: nat.splits)+

lemma topology_cong:
  assumes "length rs = length ss" and "\<And>i. i < length ss \<Longrightarrow> task (rs ! i) = task (ss ! i)"
  shows "topology rs = Inr () \<longleftrightarrow> topology ss = Inr ()"
proof -
  have labels: "task_labels rs = task_labels ss" by (rule nth_equalityI) (use assms in simp_all)
  then have index: "label_index rs = label_index ss" using assms(1) by (simp add: label_index_def fun_eq_iff)
  then have "edge_indices rs i = edge_indices ss i" if "i < length ss" for i
    using that assms(2) by (simp add: edge_indices_def)
  then show ?thesis
    using assms(1) labels by (auto simp: topology_iff edges_known_def task_edges_def cong: conj_cong)
qed

lemma check_identity_Inr:
  "check_identity lib s = Inr () \<longleftrightarrow> s \<noteq> [] \<and> length s \<le> 128 \<and> CHR 0x00 \<notin> set s \<and>
     dump lib (JStr s) \<noteq> None \<and> set s \<subseteq> set identity_chars"
  by (auto simp: check_identity_def valid_text_def result_simps)

lemma node_identity_valid:
  assumes "check_identity lib (plan_id p) = Inr ()" and "length (plan_id p) \<le> 124" and "i < 100"
    and "\<forall>s. set s \<subseteq> set identity_chars \<longrightarrow> dump lib (JStr s) \<noteq> None"
  shows "check_identity lib (node_identity p i) = Inr ()"
proof -
  have sub: "set (node_identity p i) \<subseteq> set identity_chars"
  proof -
    have "set ''0123456789'' \<subseteq> set identity_chars" "set ''_n'' \<subseteq> set identity_chars"
      by (simp_all add: identity_chars_def)
    then show ?thesis using assms(1) decimal_chars [of i]
      unfolding node_identity_def check_identity_Inr set_append by blast
  qed
  have "CHR 0x00 \<notin> set identity_chars" by (simp add: identity_chars_def)
  then have "CHR 0x00 \<notin> set (node_identity p i)" using sub by blast
  moreover have "length (node_identity p i) \<le> 128"
    using assms(2) decimal_length [OF assms(3)] by (simp add: node_identity_def)
  ultimately show ?thesis using sub assms(4) by (simp add: check_identity_Inr node_identity_def)
qed

lemma node_identity_inj: "node_identity p i = node_identity p j \<Longrightarrow> i = j"
  using decimal_inj by (simp add: node_identity_def)

lemma snapshot_running:
  "plan_revision p \<noteq> 0 \<Longrightarrow> snapshot lib sl initial p = Inr () \<longleftrightarrow>
     check_capabilities lib (plan_caps p) = Inr () \<and> check_identity lib (root_run_id p) = Inr () \<and>
     lifecycle p \<in> {''active'', ''waiting_human'', ''completed'', ''failed'', ''cancelled'', ''interrupted'',
       ''uncertain''} \<and>
     0 \<le> plan_revision p \<and> plan_revision p \<le> max_revisions (plan_caps p) \<and> 0 \<le> state_sequence p \<and>
     state_sequence p \<le> safe_integer \<and> int (length (tasks p)) \<le> max_nodes (plan_caps p) \<and>
     0 \<le> humans_published p \<and> humans_published p \<le> max_humans (plan_caps p) \<and> plan_sound lib sl p"
  by (simp add: snapshot_def result_simps snapshot_tasks_iff)

lemma admitted:
  assumes "admit_change lib sl p ch frozen = Inr ()"
  shows "snapshot lib sl True p = Inr ()" and "catalogue_finalized frozen" and "frozen = plan_caps p"
    and "plan_revision p < max_revisions frozen" and "state_sequence p < safe_integer"
    and "\<forall>l \<in> set (skip_tasks ch). check_label lib l = Inr ()"
    and "add_tasks ch \<noteq> [] \<or> replace_tasks ch \<noteq> [] \<or> skip_tasks ch \<noteq> []"
proof -
  obtain parsed where parsed: "parse_dynamic_plan_change lib (change_json ch) (plan_revision p = 0) = Inr parsed"
    and same: "same_definitions (add_tasks parsed) (add_tasks ch)"
      "same_definitions (replace_tasks parsed) (replace_tasks ch)" "skip_tasks parsed = skip_tasks ch"
    using assms by (auto simp: admit_change_def result_simps split: if_splits)
  show "snapshot lib sl True p = Inr ()" "catalogue_finalized frozen" "frozen = plan_caps p"
    "plan_revision p < max_revisions frozen" "state_sequence p < safe_integer"
    using assms by (auto simp: admit_change_def result_simps same_capabilities_eq split: if_splits)
  show "\<forall>l \<in> set (skip_tasks ch). check_label lib l = Inr ()"
    using parsed_skips(1) [OF parsed] same(3) by simp
  show "add_tasks ch \<noteq> [] \<or> replace_tasks ch \<noteq> [] \<or> skip_tasks ch \<noteq> []"
    using parsed_skips(2) [OF parsed] same unfolding same_definitions_def by auto
qed

lemma snapshot_bounds:
  assumes "snapshot lib sl initial p = Inr ()"
  shows "check_capabilities lib (plan_caps p) = Inr ()" and "check_identity lib (root_run_id p) = Inr ()"
    and "0 \<le> plan_revision p" and "0 \<le> state_sequence p"
    and "0 \<le> humans_published p" and "humans_published p \<le> max_humans (plan_caps p)"
  using assms by (auto simp: snapshot_def result_simps)

lemma max_nodes_bound: "check_capabilities lib c = Inr () \<Longrightarrow> max_nodes c \<le> 32"
  by (simp add: check_capabilities_def)

lemma installed_nodes:
  assumes ids: "\<forall>i < length (tasks p). backend_node_id (tasks p ! i) = node_identity p i"
    and sound: "reduction_sound lib sl p rs retired" and i: "i < length rs"
  shows "backend_node_id (name_nodes p rs ! i) = node_identity p i"
    and "task (name_nodes p rs ! i) = task (rs ! i)"
    and "i < length (tasks p) \<Longrightarrow> protected_node (tasks p ! i) \<Longrightarrow> name_nodes p rs ! i = tasks p ! i"
proof -
  have "node_identity p i \<noteq> []" by (simp add: node_identity_def)
  then show "backend_node_id (name_nodes p rs ! i) = node_identity p i"
    using name_nodes_nth [OF i, of p] reduction_soundD(7) [OF sound] ids i by (cases "i < length (tasks p)") auto
  show "task (name_nodes p rs ! i) = task (rs ! i)" by (simp add: name_nodes_nth [OF i])
  assume "i < length (tasks p)" "protected_node (tasks p ! i)"
  then have "rs ! i = tasks p ! i" using reduction_soundD(8) [OF sound] by blast
  then show "name_nodes p rs ! i = tasks p ! i"
    using name_nodes_nth [OF i, of p] ids \<open>i < length (tasks p)\<close> \<open>node_identity p i \<noteq> []\<close> by simp
qed

lemma reduce_Inr:
  assumes "reduce_dynamic_plan lib sl p ch frozen = Inr c"
  shows "admit_change lib sl p ch frozen = Inr ()"
    and "\<exists>k. reduce_tasks lib sl p ch frozen = Inr (cand_tasks c, cand_retired c, k)"
    and "int (length (cand_tasks c)) \<le> max_nodes frozen"
    and "cand_humans c = count_tasks pending_human (cand_tasks c)"
    and "cand_children c = count_tasks pending_child (cand_tasks c)"
    and "humans_published p + cand_humans c \<le> max_humans frozen" and "cand_children c \<le> 8"
    and "topology (cand_tasks c) = Inr ()"
  using assms by (auto simp: reduce_dynamic_plan_def result_simps Let_def)

lemma installed_sound:
  assumes reduce: "reduce_dynamic_plan lib sl p ch frozen = Inr c"
    and id: "check_identity lib (plan_id p) = Inr ()" "length (plan_id p) \<le> 124"
    and ids: "\<forall>i < length (tasks p). backend_node_id (tasks p ! i) = node_identity p i"
    and ascii: "\<forall>s. set s \<subseteq> set identity_chars \<longrightarrow> dump lib (JStr s) \<noteq> None"
    and sound: "reduction_sound lib sl p (cand_tasks c) (cand_retired c)"
  shows "plan_sound lib sl (install_candidate p c)"
proof -
  let ?rs = "cand_tasks c" and ?ss = "name_nodes p (cand_tasks c)"
  note r = reduce_Inr [OF reduce]
  note a = admitted [OF r(1)] and s = reduction_soundD [OF sound]
  note b = snapshot_bounds [OF a(1)]
  obtain k where tasks: "reduce_tasks lib sl p ch frozen = Inr (?rs, cand_retired c, k)" using r(2) by blast
  have len: "length ?rs \<le> 32" using r(3) max_nodes_bound [OF b(1)] a(3) by simp
  have same: "?ss ! i = (?rs ! i)\<lparr>backend_node_id := backend_node_id (?ss ! i)\<rparr>" if "i < length ?rs" for i
    by (simp add: name_nodes_nth [OF that])
  have at: "node_sound lib sl (plan_caps p) (plan_revision p + 1) (cand_retired c) (?ss ! i) \<and>
      check_identity lib (backend_node_id (?ss ! i)) = Inr ()" if "i < length ?rs" for i
  proof
    have "node_sound lib sl (plan_caps p) (plan_revision p + 1) (cand_retired c) (?rs ! i)"
      using s(1) that by simp
    then show "node_sound lib sl (plan_caps p) (plan_revision p + 1) (cand_retired c) (?ss ! i)"
      by (subst same [OF that]) simp
    show "check_identity lib (backend_node_id (?ss ! i)) = Inr ()"
      unfolding installed_nodes(1) [OF ids sound that]
      by (rule node_identity_valid [OF id _ ascii]) (use that len in simp)
  qed
  then have nodes: "\<forall>r \<in> set ?ss. node_sound lib sl (plan_caps p) (plan_revision p + 1) (cand_retired c) r \<and>
      check_identity lib (backend_node_id r) = Inr ()"
    by (metis in_set_conv_nth name_nodes_length)
  have "map backend_node_id ?ss = map (node_identity p) [0..<length ?rs]"
    by (rule nth_equalityI) (simp_all add: installed_nodes(1) [OF ids sound])
  then have dist: "distinct (map backend_node_id ?ss)"
    using node_identity_inj by (simp add: distinct_map inj_on_def)
  have counts: "count_tasks published ?ss = count_tasks published ?rs"
    "count_tasks pending_human ?ss = count_tasks pending_human ?rs"
    "count_tasks pending_child ?ss = count_tasks pending_child ?rs"
    by (rule count_tasks_cong; simp add: name_nodes_nth)+
  have labels: "task_labels ?ss = task_labels ?rs"
    by (rule nth_equalityI) (simp_all add: name_nodes_nth)
  have top: "topology ?ss = Inr ()"
    using topology_cong [of ?ss ?rs] installed_nodes(2) [OF ids sound] r(8) by simp
  have "?rs \<noteq> []" by (rule reduced_nonempty [OF tasks a(7)])
  then have nonempty: "?ss \<noteq> []" by (metis length_0_conv name_nodes_length)
  have "1 \<le> state_sequence p + 1" using b(4) by simp
  then show ?thesis
    using a(2,3) id(1) nonempty s(3,4) nodes dist counts r(4,5,6,7) s(5,9) labels top
    unfolding plan_sound_def by (simp add: install_candidate_def)
qed

section \<open>What readiness decides\<close>

text \<open>
  A task is without hope when a dependency has settled against its requirement, or is itself
  unstarted and without hope. It is free when every requirement is met.
\<close>

inductive hopeless :: "json_lib \<Rightarrow> plan_record \<Rightarrow> nat \<Rightarrow> bool" for lib p where
  hopelessI: "d \<in> set (dependencies (task (tasks p ! i))) \<Longrightarrow> label_index (tasks p) (dep_task d) = Some j \<Longrightarrow>
    satisfied lib (dep_require d) (tasks p ! j) \<noteq> Inr True \<Longrightarrow>
    beyond_hope (tasks p ! j) \<or> (unstarted (task_state (tasks p ! j)) \<and> hopeless lib p j) \<Longrightarrow> hopeless lib p i"

definition free_task :: "json_lib \<Rightarrow> plan_record \<Rightarrow> nat \<Rightarrow> bool" where
  "free_task lib p i \<longleftrightarrow> (\<forall>d \<in> set (dependencies (task (tasks p ! i))).
     \<exists>j. label_index (tasks p) (dep_task d) = Some j \<and> satisfied lib (dep_require d) (tasks p ! j) = Inr True)"

definition verdict :: "json_lib \<Rightarrow> plan_record \<Rightarrow> nat \<Rightarrow> readiness_kind" where
  "verdict lib p i = (if hopeless lib p i then Is_blocked else if free_task lib p i then Is_ready else Is_waiting)"

definition cache_ok :: "json_lib \<Rightarrow> plan_record \<Rightarrow> ready_cache \<Rightarrow> bool" where
  "cache_ok lib p cache \<longleftrightarrow> (\<forall>l v. map_of cache l = Some v \<longrightarrow>
     (\<exists>i. label_index (tasks p) l = Some i \<and> v = verdict lib p i))"

lemma label_index_position: "label_index ts l = task_position l ts"
proof -
  have "map_of (zip (task_labels ts) [k..<k + length ts]) l = map_option ((+) k) (task_position l ts)" for k
  proof (induction ts arbitrary: k)
    case (Cons t ts)
    have "[k..<k + length (t # ts)] = k # [Suc k..<Suc k + length ts]"
      using upt_conv_Cons [of k "k + length (t # ts)"] by simp
    then show ?case using Cons [of "Suc k"] by (cases "task_position l ts") auto
  qed simp
  from this [of 0] show ?thesis by (cases "task_position l ts") (simp_all add: label_index_def)
qed

lemma find_task_index: "label_index (tasks p) l = Some j \<Longrightarrow> find_task p l = Inr (tasks p ! j)"
  by (simp add: find_task_def label_index_position)

lemma label_index_self:
  "distinct (task_labels ts) \<Longrightarrow> i < length ts \<Longrightarrow> label_index ts (task_label (task (ts ! i))) = Some i"
proof -
  assume d: "distinct (task_labels ts)" and i: "i < length ts"
  have "(task_label (task (ts ! i)), i) \<in> set (zip (task_labels ts) [0..<length ts])"
    using i by (auto simp: set_zip intro!: exI [of _ i])
  then show ?thesis unfolding label_index_def using d by (intro map_of_is_SomeI) simp_all
qed

lemma satisfied_known:
  assumes "check_node_state lib a r = Inr ()"
  shows "\<exists>b. satisfied lib req r = Inr b"
proof (cases "observed r \<and> is_human r")
  case True
  then have "task_state r = Task_settled" by (simp add: observed_def)
  then have "check_settled lib r = Inr ()" using assms by (simp add: check_node_state_def bindE_Inr)
  then have "human_outcome lib r = Inr ()" using True by (simp add: check_settled_def)
  then obtain out where out: "plan_object lib (outcome_json r) 32768 = Inr out" "has_string out ''human_state''"
    by (auto simp: human_outcome_def string_field_def Let_def result_simps)
  then obtain v where "member out ''human_state'' = Some v"
    by (auto simp: has_string_def has_member_def)
  then show ?thesis using True out(1) by (auto simp: satisfied_def successful_def at_member_def)
next
  case False
  then show ?thesis by (auto simp: satisfied_def successful_def)
qed

definition edge_hopeless :: "json_lib \<Rightarrow> plan_record \<Rightarrow> task_dependency \<Rightarrow> bool" where
  "edge_hopeless lib p d \<longleftrightarrow> (\<exists>j. label_index (tasks p) (dep_task d) = Some j \<and>
     satisfied lib (dep_require d) (tasks p ! j) \<noteq> Inr True \<and>
     (beyond_hope (tasks p ! j) \<or> (unstarted (task_state (tasks p ! j)) \<and> hopeless lib p j)))"

definition edge_met :: "json_lib \<Rightarrow> plan_record \<Rightarrow> task_dependency \<Rightarrow> bool" where
  "edge_met lib p d \<longleftrightarrow> (\<exists>j. label_index (tasks p) (dep_task d) = Some j \<and>
     satisfied lib (dep_require d) (tasks p ! j) = Inr True)"

lemma hopeless_edges: "hopeless lib p i \<longleftrightarrow> (\<exists>d \<in> set (dependencies (task (tasks p ! i))). edge_hopeless lib p d)"
  by (subst hopeless.simps) (auto simp: edge_hopeless_def)

lemma free_edges: "free_task lib p i \<longleftrightarrow> (\<forall>d \<in> set (dependencies (task (tasks p ! i))). edge_met lib p d)"
  by (simp add: free_task_def edge_met_def)

definition edges_verdict :: "json_lib \<Rightarrow> plan_record \<Rightarrow> bool \<Rightarrow> task_dependency list \<Rightarrow> readiness_kind" where
  "edges_verdict lib p waiting ds = (if \<exists>d \<in> set ds. edge_hopeless lib p d then Is_blocked
     else if waiting \<or> (\<exists>d \<in> set ds. \<not> edge_met lib p d) then Is_waiting else Is_ready)"

lemma edges_verdict_Cons:
  "edges_verdict lib p waiting (d # ds) =
     (if edge_hopeless lib p d then Is_blocked else edges_verdict lib p (waiting \<or> \<not> edge_met lib p d) ds)"
  by (cases "\<exists>d \<in> set ds. edge_hopeless lib p d") (simp_all add: edges_verdict_def)

lemma verdict_edges: "verdict lib p i = edges_verdict lib p False (dependencies (task (tasks p ! i)))"
  by (auto simp: verdict_def edges_verdict_def hopeless_edges free_edges)

lemma ready_edges_correct:
  assumes "\<forall>d \<in> set ds. \<exists>j. label_index (tasks p) (dep_task d) = Some j \<and>
      (\<exists>b. satisfied lib (dep_require d) (tasks p ! j) = Inr b) \<and>
      (\<forall>cache. cache_ok lib p cache \<longrightarrow> (\<exists>cache'. go (tasks p ! j) cache = Inr (verdict lib p j, cache') \<and>
         cache_ok lib p cache'))"
    and "cache_ok lib p cache"
  shows "\<exists>cache'. ready_edges go lib p waiting cache ds = Inr (edges_verdict lib p waiting ds, cache') \<and>
    cache_ok lib p cache'"
  using assms
proof (induction ds arbitrary: waiting cache)
  case Nil
  then show ?case by (simp add: edges_verdict_def)
next
  case (Cons d ds)
  obtain j b where j: "label_index (tasks p) (dep_task d) = Some j"
      "satisfied lib (dep_require d) (tasks p ! j) = Inr b"
    using Cons.prems(1) by auto
  obtain cache1 where go: "go (tasks p ! j) cache = Inr (verdict lib p j, cache1)" "cache_ok lib p cache1"
    using Cons.prems j(1) by fastforce
  have met: "edge_met lib p d \<longleftrightarrow> b" using j by (simp add: edge_met_def)
  have hopeless: "edge_hopeless lib p d \<longleftrightarrow> \<not> b \<and> (beyond_hope (tasks p ! j) \<or>
      (unstarted (task_state (tasks p ! j)) \<and> hopeless lib p j))"
    using j by (simp add: edge_hopeless_def)
  have rest: "\<exists>cache'. ready_edges go lib p w c ds = Inr (edges_verdict lib p w ds, cache') \<and> cache_ok lib p cache'"
    if "cache_ok lib p c" for w c
    using Cons.IH [OF _ that] Cons.prems(1) by simp
  note step = find_task_index [OF j(1)] j(2)
  consider "b" | "\<not> b" "beyond_hope (tasks p ! j)"
    | "\<not> b" "\<not> beyond_hope (tasks p ! j)" "unstarted (task_state (tasks p ! j))" "hopeless lib p j"
    | "\<not> b" "\<not> beyond_hope (tasks p ! j)" "unstarted (task_state (tasks p ! j))" "\<not> hopeless lib p j"
    | "\<not> b" "\<not> beyond_hope (tasks p ! j)" "\<not> unstarted (task_state (tasks p ! j))"
    by blast
  then show ?case
  proof cases
    case 1
    then show ?thesis using rest [OF Cons.prems(2), of waiting] met hopeless
      by (simp add: step edges_verdict_Cons)
  next
    case 2
    then show ?thesis using Cons.prems(2) hopeless by (simp add: step edges_verdict_Cons)
  next
    case 3
    then show ?thesis using go hopeless by (simp add: step edges_verdict_Cons verdict_def)
  next
    case 4
    then have "verdict lib p j \<noteq> Is_blocked" by (simp add: verdict_def)
    then show ?thesis using rest [OF go(2), of True] go(1) 4 met hopeless
      by (simp add: step edges_verdict_Cons)
  next
    case 5
    then show ?thesis using rest [OF Cons.prems(2), of True] met hopeless
      by (simp add: step edges_verdict_Cons)
  qed
qed

lemma cache_ok_remember:
  assumes "cache_ok lib p cache" and "label_index (tasks p) l = Some i"
  shows "cache_ok lib p (snd (remember l (verdict lib p i, cache)))"
  using assms by (simp add: cache_ok_def remember_def)

lemma readiness_correct:
  assumes sound: "plan_sound lib sl p" and order: "after_all (tasks p) fin" "set fin = {0..<length (tasks p)}"
  shows "i < length (tasks p) \<Longrightarrow> finish_rank fin i < fuel \<Longrightarrow> cache_ok lib p cache \<Longrightarrow>
    \<exists>cache'. readiness fuel lib p (tasks p ! i) cache = Inr (verdict lib p i, cache') \<and> cache_ok lib p cache'"
proof (induction fuel arbitrary: i cache)
  case (Suc fuel)
  let ?l = "task_label (task (tasks p ! i))"
  have top: "topology (tasks p) = Inr ()" using sound by (simp add: plan_sound_def)
  have self: "label_index (tasks p) ?l = Some i"
    by (rule label_index_self [OF topology_sound(1) [OF top] Suc.prems(1)])
  show ?case
  proof (cases "map_of cache ?l")
    case (Some v)
    then have "v = verdict lib p i" using Suc.prems(3) self unfolding cache_ok_def by (metis option.inject)
    then show ?thesis using Some Suc.prems(3) by simp
  next
    case None
    have edges: "\<forall>d \<in> set (dependencies (task (tasks p ! i))). \<exists>j. label_index (tasks p) (dep_task d) = Some j \<and>
      (\<exists>b. satisfied lib (dep_require d) (tasks p ! j) = Inr b) \<and>
      (\<forall>cache. cache_ok lib p cache \<longrightarrow> (\<exists>cache'. readiness fuel lib p (tasks p ! j) cache =
         Inr (verdict lib p j, cache') \<and> cache_ok lib p cache'))"
    proof
      fix d assume d: "d \<in> set (dependencies (task (tasks p ! i)))"
      then have e: "label_index (tasks p) (dep_task d) \<in> set (edge_indices (tasks p) i)"
        by (simp add: edge_indices_def)
      then obtain j where j: "label_index (tasks p) (dep_task d) = Some j"
        using topology_sound(2) [OF top] Suc.prems(1) unfolding edges_known_def by (metis not_None_eq)
      then have edge: "Some j \<in> set (edge_indices (tasks p) i)" using e by simp
      have len: "j < length (tasks p)" by (rule edge_bound [OF edge])
      have "finish_rank fin j < finish_rank fin i"
        by (rule after_all_rank [OF order(1) _ edge]) (use order(2) Suc.prems(1) in simp)
      then have "\<forall>cache. cache_ok lib p cache \<longrightarrow> (\<exists>cache'. readiness fuel lib p (tasks p ! j) cache =
         Inr (verdict lib p j, cache') \<and> cache_ok lib p cache')"
        using Suc.IH [OF len] Suc.prems(2) by simp
      moreover have "check_node_state lib (retired_labels p) (tasks p ! j) = Inr ()"
        using sound len by (simp add: plan_sound_def node_sound_def)
      ultimately show "\<exists>j. label_index (tasks p) (dep_task d) = Some j \<and>
        (\<exists>b. satisfied lib (dep_require d) (tasks p ! j) = Inr b) \<and>
        (\<forall>cache. cache_ok lib p cache \<longrightarrow> (\<exists>cache'. readiness fuel lib p (tasks p ! j) cache =
           Inr (verdict lib p j, cache') \<and> cache_ok lib p cache'))"
        using j satisfied_known by blast
    qed
    obtain cache' where c: "ready_edges (readiness fuel lib p) lib p False cache
        (dependencies (task (tasks p ! i))) = Inr (verdict lib p i, cache')" "cache_ok lib p cache'"
      using ready_edges_correct [OF edges Suc.prems(3), of False] by (auto simp: verdict_edges)
    show ?thesis using c cache_ok_remember [OF c(2) self] None by (simp add: remember_def)
  qed
qed simp

text \<open>The fold of \<open>inspect_plan\<close> over positions.\<close>

definition labels_where :: "plan_record \<Rightarrow> (nat \<Rightarrow> bool) \<Rightarrow> nat list \<Rightarrow> bytes list" where
  "labels_where p P is = map (\<lambda>i. task_label (task (tasks p ! i))) (filter P is)"

abbreviation open_at :: "plan_record \<Rightarrow> nat \<Rightarrow> bool" where
  "open_at p i \<equiv> unstarted (task_state (tasks p ! i))"

definition uncertain_task :: "task_record \<Rightarrow> bool" where
  "uncertain_task r \<longleftrightarrow> task_state r = Task_uncertain \<or> effect_state r = ''uncertain''"

definition extend_decision :: "json_lib \<Rightarrow> plan_record \<Rightarrow> nat list \<Rightarrow> plan_decision \<Rightarrow> plan_decision" where
  "extend_decision lib p is d = d\<lparr>
     ready_tasks := ready_tasks d @ labels_where p (\<lambda>i. open_at p i \<and> verdict lib p i = Is_ready) is,
     blocked_tasks := blocked_tasks d @ labels_where p (\<lambda>i. open_at p i \<and> verdict lib p i = Is_blocked) is,
     claimed_tasks := claimed_tasks d @ labels_where p (\<lambda>i. task_state (tasks p ! i) = Task_claimed) is,
     waiting_tasks := waiting_tasks d @ labels_where p (\<lambda>i. task_state (tasks p ! i) = Task_waiting_human) is,
     plan_halted := plan_halted d \<or> (\<exists>i \<in> set is. uncertain_task (tasks p ! i))\<rparr>"

lemma extend_decision_Nil: "extend_decision lib p [] d = d"
  by (simp add: extend_decision_def labels_where_def)

lemma extend_decision_append:
  "extend_decision lib p (is @ js) d = extend_decision lib p js (extend_decision lib p is d)"
  by (simp add: extend_decision_def labels_where_def bex_Un disj_assoc)

lemma inspect_task_step:
  assumes sound: "plan_sound lib sl p" and i: "i < length (tasks p)" and c: "cache_ok lib p cache"
  shows "\<exists>cache'. inspect_task lib p (d, u, cache) (tasks p ! i) =
    Inr (extend_decision lib p [i] d, u \<or> open_at p i, cache') \<and> cache_ok lib p cache'"
proof -
  have top: "topology (tasks p) = Inr ()" using sound by (simp add: plan_sound_def)
  obtain fin where fin: "after_all (tasks p) fin" "set fin = {0..<length (tasks p)}"
    by (rule topology_order [OF top])
  have "finish_rank fin i < length fin" by (rule finish_rank_less) (use fin(2) i in simp)
  moreover have "length fin = length (tasks p)"
  proof -
    have "after_all ts f \<Longrightarrow> distinct f" for ts f by (induction f) auto
    then show ?thesis using fin by (metis distinct_card card_atLeastLessThan diff_zero)
  qed
  ultimately obtain cache' where r: "readiness (length (tasks p) + 1) lib p (tasks p ! i) cache =
      Inr (verdict lib p i, cache')" "cache_ok lib p cache'"
    using readiness_correct [OF sound fin i _ c, of "length (tasks p) + 1"] by auto
  show ?thesis
  proof (cases "open_at p i")
    case True
    then have "task_state (tasks p ! i) \<noteq> Task_claimed" "task_state (tasks p ! i) \<noteq> Task_waiting_human"
      by (auto simp: unstarted_def)
    then show ?thesis using r True
      by (cases "verdict lib p i")
        (simp_all add: inspect_task_def extend_decision_def labels_where_def uncertain_task_def Let_def
          del: readiness.simps)
  next
    case False
    then show ?thesis using c
      by (cases "task_state (tasks p ! i)")
        (simp_all add: inspect_task_def extend_decision_def labels_where_def uncertain_task_def Let_def
          unstarted_def)
  qed
qed

lemma decision_fold:
  assumes sound: "plan_sound lib sl p"
  shows "\<forall>i \<in> set is. i < length (tasks p) \<Longrightarrow> cache_ok lib p cache \<Longrightarrow>
    \<exists>cache'. foldE (inspect_task lib p) (d, u, cache) (map (\<lambda>i. tasks p ! i) is) =
      Inr (extend_decision lib p is d, u \<or> (\<exists>i \<in> set is. open_at p i), cache') \<and> cache_ok lib p cache'"
proof (induction "is" arbitrary: d u cache)
  case Nil
  then show ?case by (simp add: extend_decision_Nil)
next
  case (Cons i js)
  obtain c1 where c1: "inspect_task lib p (d, u, cache) (tasks p ! i) =
      Inr (extend_decision lib p [i] d, u \<or> open_at p i, c1)" "cache_ok lib p c1"
    using inspect_task_step [OF sound, of i cache d u] Cons.prems by auto
  have "\<forall>i \<in> set js. i < length (tasks p)" using Cons.prems(1) by simp
  from Cons.IH [OF this c1(2), of "extend_decision lib p [i] d" "u \<or> open_at p i"]
  show ?case using c1(1) extend_decision_append [of lib p "[i]" js d] by (simp add: disj_assoc)
qed

definition stopped_plan :: "plan_record \<Rightarrow> bool" where
  "stopped_plan p \<longleftrightarrow> lifecycle p \<in> {''interrupted'', ''uncertain'', ''failed'', ''cancelled''} \<or>
     (\<exists>r \<in> set (tasks p). uncertain_task r)"

definition idle_plan :: "plan_record \<Rightarrow> bool" where
  "idle_plan p \<longleftrightarrow> (\<forall>r \<in> set (tasks p). task_state r \<noteq> Task_claimed \<and> task_state r \<noteq> Task_waiting_human)"

abbreviation positions :: "plan_record \<Rightarrow> nat list" where
  "positions p \<equiv> [0..<length (tasks p)]"

lemma labels_where_empty: "labels_where p P is = [] \<longleftrightarrow> (\<forall>i \<in> set is. \<not> P i)"
  by (simp add: labels_where_def filter_empty_conv)

lemma positions_bex: "(\<exists>i \<in> set (positions p). P (tasks p ! i)) \<longleftrightarrow> (\<exists>r \<in> set (tasks p). P r)"
proof -
  have "set (tasks p) = (\<lambda>i. tasks p ! i) ` set (positions p)" by (metis map_nth set_map)
  then show ?thesis by simp
qed

lemma idle_positions:
  "idle_plan p \<longleftrightarrow> labels_where p (\<lambda>i. task_state (tasks p ! i) = Task_claimed) (positions p) = [] \<and>
     labels_where p (\<lambda>i. task_state (tasks p ! i) = Task_waiting_human) (positions p) = []"
  by (auto simp: idle_plan_def labels_where_empty all_set_conv_all_nth)

lemma inspect_plan_result:
  assumes sound: "plan_sound lib sl p"
  shows "inspect_plan lib p = Inr \<lparr>
     ready_tasks = (if stopped_plan p then []
       else labels_where p (\<lambda>i. open_at p i \<and> verdict lib p i = Is_ready) (positions p)),
     blocked_tasks = labels_where p (\<lambda>i. open_at p i \<and> verdict lib p i = Is_blocked) (positions p),
     claimed_tasks = labels_where p (\<lambda>i. task_state (tasks p ! i) = Task_claimed) (positions p),
     waiting_tasks = labels_where p (\<lambda>i. task_state (tasks p ! i) = Task_waiting_human) (positions p),
     plan_finished = ((\<forall>r \<in> set (tasks p). \<not> unstarted (task_state r)) \<and> idle_plan p \<and> \<not> stopped_plan p),
     report_ready = (idle_plan p \<and> (stopped_plan p \<or>
       (\<forall>i < length (tasks p). \<not> (open_at p i \<and> verdict lib p i = Is_ready)))),
     plan_halted = stopped_plan p\<rparr>"
proof -
  let ?h = "lifecycle p \<in> {''interrupted'', ''uncertain'', ''failed'', ''cancelled''}"
  have start: "cache_ok lib p []" by (simp add: cache_ok_def)
  have "\<exists>cache'. foldE (inspect_task lib p) (no_decision ?h, False, []) (map (\<lambda>i. tasks p ! i) (positions p)) =
      Inr (extend_decision lib p (positions p) (no_decision ?h),
        False \<or> (\<exists>i \<in> set (positions p). open_at p i), cache') \<and> cache_ok lib p cache'"
    by (rule decision_fold [OF sound _ start]) simp
  then obtain cache' where fold: "foldE (inspect_task lib p) (no_decision ?h, False, []) (tasks p) =
      Inr (extend_decision lib p (positions p) (no_decision ?h), \<exists>i \<in> set (positions p). open_at p i, cache')"
    by (auto simp: map_nth)
  have halted: "plan_halted (extend_decision lib p (positions p) (no_decision ?h)) = stopped_plan p"
    using positions_bex [of p uncertain_task] by (simp add: extend_decision_def no_decision_def stopped_plan_def)
  have stopped: "stopped_plan p \<longleftrightarrow> ?h \<or> (\<exists>i \<in> set (positions p). uncertain_task (tasks p ! i))"
    using positions_bex [of p uncertain_task] by (simp add: stopped_plan_def)
  have "(\<exists>i \<in> set (positions p). open_at p i) \<longleftrightarrow> \<not> (\<forall>r \<in> set (tasks p). \<not> unstarted (task_state r))"
    using positions_bex [of p "\<lambda>r. unstarted (task_state r)"] by simp
  then show ?thesis
    unfolding inspect_plan_def fold bindE_simps prod.case Let_def halted
    using stopped
    by (cases "stopped_plan p")
      (auto simp: extend_decision_def no_decision_def idle_positions labels_where_empty)
qed

lemma snapshot_sound:
  assumes "snapshot lib sl False p = Inr ()"
  shows "plan_sound lib sl p"
  using assms by (cases "plan_revision p = 0") (simp_all add: snapshot_running, simp add: snapshot_def result_simps)

lemma idle_open_hopeless:
  assumes sound: "plan_sound lib sl p" and running: "\<not> stopped_plan p" and idle: "idle_plan p"
    and none: "\<forall>i < length (tasks p). \<not> (open_at p i \<and> verdict lib p i = Is_ready)"
    and order: "after_all (tasks p) fin" "set fin = {0..<length (tasks p)}"
  shows "i < length (tasks p) \<Longrightarrow> open_at p i \<Longrightarrow> hopeless lib p i"
proof (induction "finish_rank fin i" arbitrary: i rule: less_induct)
  case less
  show ?case
  proof (rule ccontr)
    assume hope: "\<not> hopeless lib p i"
    moreover have "verdict lib p i \<noteq> Is_ready" using none less.prems by blast
    ultimately have "\<not> free_task lib p i" by (simp add: verdict_def split: if_splits)
    then obtain d where d: "d \<in> set (dependencies (task (tasks p ! i)))" "\<not> edge_met lib p d"
      by (auto simp: free_edges)
    then have e: "label_index (tasks p) (dep_task d) \<in> set (edge_indices (tasks p) i)"
      by (simp add: edge_indices_def)
    have top: "topology (tasks p) = Inr ()" using sound by (simp add: plan_sound_def)
    obtain j where j: "label_index (tasks p) (dep_task d) = Some j"
      using topology_sound(2) [OF top] less.prems(1) e unfolding edges_known_def by (metis not_None_eq)
    then have edge: "Some j \<in> set (edge_indices (tasks p) i)" using e by simp
    have len: "j < length (tasks p)" by (rule edge_bound [OF edge])
    have unmet: "satisfied lib (dep_require d) (tasks p ! j) \<noteq> Inr True" using d(2) j by (simp add: edge_met_def)
    have "\<not> edge_hopeless lib p d" using hope d(1) unfolding hopeless_edges by blast
    then have no_hope: "\<not> beyond_hope (tasks p ! j)" "\<not> (open_at p j \<and> hopeless lib p j)"
      using j unmet unfolding edge_hopeless_def by blast+
    have "finish_rank fin j < finish_rank fin i"
      by (rule after_all_rank [OF order(1) _ edge]) (use order(2) less.prems(1) in simp)
    then have "\<not> open_at p j" using less.hyps len no_hope(2) by blast
    moreover have "task_state (tasks p ! j) \<noteq> Task_claimed" "task_state (tasks p ! j) \<noteq> Task_waiting_human"
      using idle len by (simp_all add: idle_plan_def)
    ultimately have settled: "task_state (tasks p ! j) = Task_settled" "effect_state (tasks p ! j) \<noteq> ''uncertain''"
      using no_hope(1) by (cases "task_state (tasks p ! j)"; simp add: unstarted_def beyond_hope_def)+
    have "check_node_state lib (retired_labels p) (tasks p ! j) = Inr ()"
      using sound len by (simp add: plan_sound_def node_sound_def)
    then have "check_settled lib (tasks p ! j) = Inr ()" using settled by (simp add: check_node_state_def bindE_Inr)
    then have "observed (tasks p ! j)" using settled by (simp add: check_settled_def observed_def)
    then show False using no_hope(1) by (simp add: beyond_hope_def)
  qed
qed

section \<open>Properties\<close>

text \<open>
  C36. Accepting a change keeps the plan well formed. When a change is reduced and the repository
  writes the candidate back, the new plan passes the snapshot check again: labels and identities
  are distinct, dependencies known and free of cycles, counts and reservations agree. Labels stay
  at their positions, retired labels stay retired, and a node that was claimed, published, settled
  or retired is the same record as before. (Printing of identity text by the library succeeds.)
\<close>

theorem accepted_change_keeps_plan:
  assumes "reduce_dynamic_plan lib sl p ch frozen = Inr c"
    and "check_identity lib (plan_id p) = Inr ()" and "length (plan_id p) \<le> 124"
    and "\<forall>i < length (tasks p). backend_node_id (tasks p ! i) = node_identity p i"
    and "\<forall>s. set s \<subseteq> set identity_chars \<longrightarrow> dump lib (JStr s) \<noteq> None"
  shows "snapshot lib sl False (install_candidate p c) = Inr () \<and>
    (\<forall>i < length (tasks (install_candidate p c)).
       backend_node_id (tasks (install_candidate p c) ! i) = node_identity (install_candidate p c) i) \<and>
    length (tasks p) \<le> length (tasks (install_candidate p c)) \<and>
    (\<forall>i < length (tasks p).
       task_label (task (tasks (install_candidate p c) ! i)) = task_label (task (tasks p ! i)) \<and>
       (protected_node (tasks p ! i) \<longrightarrow> tasks (install_candidate p c) ! i = tasks p ! i)) \<and>
    prefix (retired_labels p) (retired_labels (install_candidate p c))"
proof -
  note r = reduce_Inr [OF assms(1)]
  note a = admitted [OF r(1)]
  obtain k where k: "reduce_tasks lib sl p ch (plan_caps p) = Inr (cand_tasks c, cand_retired c, k)"
    using r(2) a(3) by blast
  have sound: "reduction_sound lib sl p (cand_tasks c) (cand_retired c)"
    by (rule reduce_tasks_sound [OF a(1,6) k])
  note s = reduction_soundD [OF sound] and b = snapshot_bounds [OF a(1)]
  let ?q = "install_candidate p c"
  have q: "tasks ?q = name_nodes p (cand_tasks c)" "retired_labels ?q = cand_retired c"
    "plan_caps ?q = plan_caps p" "plan_revision ?q = plan_revision p + 1" "root_run_id ?q = root_run_id p"
    "lifecycle ?q = ''active''" "state_sequence ?q = state_sequence p + 1"
    "humans_published ?q = humans_published p" "node_identity ?q = node_identity p"
    by (simp_all add: install_candidate_def node_identity_def fun_eq_iff)
  have "plan_sound lib sl ?q" by (rule installed_sound [OF assms sound])
  moreover have "plan_revision ?q \<noteq> 0" using b(3) q(4) by simp
  ultimately have "snapshot lib sl False ?q = Inr ()"
    using b a(3-5) r(3) by (simp add: snapshot_running q)
  moreover have "\<forall>i < length (tasks ?q). backend_node_id (tasks ?q ! i) = node_identity ?q i"
    using installed_nodes(1) [OF assms(4) sound] by (simp add: q)
  moreover have "\<forall>i < length (tasks p). task_label (task (tasks ?q ! i)) = task_label (task (tasks p ! i)) \<and>
      (protected_node (tasks p ! i) \<longrightarrow> tasks ?q ! i = tasks p ! i)"
    using installed_nodes(2,3) [OF assms(4) sound] s(6,8) by (simp add: q)
  ultimately show ?thesis using s(6,10) by (simp add: q)
qed


text \<open>
  A plan never stalls silently. When no task is claimed, none waits for a human, the plan is
  not stopped and nothing is ready, then every unstarted task is reported blocked: some dependency
  of it has ended against its requirement, so the owner can only report or revise.
\<close>

theorem idle_plan_reports_blocked:
  assumes "snapshot lib sl False p = Inr ()" and "inspect_dynamic_plan lib sl p = Inr d"
    and "report_ready d" and "\<not> plan_halted d" and "r \<in> set (tasks p)" and "unstarted (task_state r)"
  shows "task_label (task r) \<in> set (blocked_tasks d)"
proof -
  note sound = snapshot_sound [OF assms(1)]
  have d: "inspect_plan lib p = Inr d" using assms(1,2) by (simp add: inspect_dynamic_plan_def coordinator_new_def)
  note result = d [unfolded inspect_plan_result [OF sound]]
  have running: "\<not> stopped_plan p" using result assms(4) by auto
  then have idle: "idle_plan p" and none: "\<forall>i < length (tasks p). \<not> (open_at p i \<and> verdict lib p i = Is_ready)"
    using result assms(3) by auto
  obtain fin where fin: "after_all (tasks p) fin" "set fin = {0..<length (tasks p)}"
    using topology_order sound by (auto simp: plan_sound_def)
  obtain i where i: "i < length (tasks p)" "r = tasks p ! i" using assms(5) by (metis in_set_conv_nth)
  have "hopeless lib p i"
    by (rule idle_open_hopeless [OF sound running idle none fin i(1)]) (use assms(6) i(2) in simp)
  then show ?thesis using result i assms(6) by (auto simp: labels_where_def verdict_def)
qed

section \<open>Samples\<close>

definition first_question :: task_definition where
  "first_question = empty_task\<lparr>task_label := ''a'', task_kind_of := Human_task, question := ''q'', preset_revision := 0\<rparr>"

definition second_question :: task_definition where
  "second_question = empty_task\<lparr>task_label := ''b'', task_kind_of := Human_task, question := ''q'', preset_revision := 0,
     dependencies := [\<lparr>dep_task = ''a'', dep_require = On_success\<rparr>]\<rparr>"

definition plan_lib :: json_lib where
  "plan_lib = \<lparr>sax = \<lambda>bs. ([],
       if bs = ''C'' then Some (JObj [(''add'', JArr [definition_json first_question]),
         (''expected_revision'', JInt 0), (''expected_state_sequence'', JInt 0)])
       else if bs = ''O'' then Some (JObj [(''human_state'', JStr ''expired'')]) else Some (JObj [])),
     dump = \<lambda>v. Some (str_of v), same = (=)\<rparr>"

definition plan_schemas :: schema_lib where
  "plan_schemas = \<lparr>nested_parse = \<lambda>bs. None, draft2020_name = ''new'', draft7_name = ''old'',
     draft2020_ok = \<lambda>v. False, draft7_ok = \<lambda>v. False, make_schema = \<lambda>n v. None\<rparr>"

definition sample_caps :: plan_capabilities where
  "sample_caps = \<lparr>max_nodes = 32, max_revisions = 16, max_humans = 8, change_bytes = 262144,
     human_expiry_ms = 900000, max_parent_turns = 32, cap_revision = 1, cap_backend = replicate 64 CHR ''a'',
     workspace_identity = ''w'', provider_identity_json = ''P'',
     presets = [\<lparr>preset_name = ''workspace.inspect'', preset_rev = 1, preset_readonly = True,
       preset_tools = [], preset_turns = 4, preset_backend = replicate 64 CHR ''a''\<rparr>],
     tool_catalog_json = ''P'', catalogue_finalized = True\<rparr>"

definition new_plan :: plan_record where
  "new_plan = \<lparr>plan_id = ''p'', root_run_id = ''r'', plan_revision = 0, state_sequence = 0, lifecycle = ''active'',
     plan_caps = sample_caps, tasks = [], retired_labels = [], children_reserved = 0, humans_reserved = 0,
     humans_published = 0\<rparr>"

definition first_change :: plan_change where
  "first_change = \<lparr>expected_revision = 0, expected_state_sequence = 0, add_tasks = [first_question],
     replace_tasks = [], skip_tasks = [], change_json = ''C''\<rparr>"

definition first_candidate :: plan_candidate where
  "first_candidate = \<lparr>cand_tasks = [new_record 1 first_question], cand_retired = [], cand_children = 0,
     cand_humans = 1, newhuman_count = 1, canonical_spec_json = []\<rparr>"

lemma plan_lib_simps [simp]:
  "dump plan_lib v = Some (str_of v)"
  "json_text plan_lib ''P'' = Some (JObj [])"
  "json_text plan_lib ''O'' = Some (JObj [(''human_state'', JStr ''expired'')])"
  "json_text plan_lib ''C'' = Some (JObj [(''add'', JArr [definition_json first_question]),
     (''expected_revision'', JInt 0), (''expected_state_sequence'', JInt 0)])"
  by (simp_all add: plan_lib_def json_text_def)

lemma plan_lib_compact [simp]:
  "mcp_compact_object plan_lib ''P'' = Inr ''P''" "mcp_compact_object plan_lib ''O'' = Inr ''O''"
  "mcp_compact_object plan_lib ''C'' = Inr ''C''"
  by (simp_all add: mcp_compact_object_def parameters_def mcp_parse_def plan_lib_def message_limit_def json_space_def)

lemma plan_lib_object:
  "n \<ge> 1 \<Longrightarrow> plan_object plan_lib ''P'' n = Inr (JObj [])"
  "n \<ge> 1 \<Longrightarrow> plan_object plan_lib ''O'' n = Inr (JObj [(''human_state'', JStr ''expired'')])"
  "n \<ge> 1 \<Longrightarrow> plan_object plan_lib ''C'' n = Inr (JObj [(''add'', JArr [definition_json first_question]),
     (''expected_revision'', JInt 0), (''expected_state_sequence'', JInt 0)])"
  by (simp_all add: plan_object_def plan_need_def)

lemma question_json:
  "definition_json first_question = JObj [(''depends_on'', JArr []), (''id'', JStr ''a''),
     (''question'', JStr ''q''), (''type'', JStr ''human'')]"
  "definition_json second_question = JObj [(''depends_on'', JArr [JObj [(''require'', JStr ''success''),
     (''task'', JStr ''a'')]]), (''id'', JStr ''b''), (''question'', JStr ''q''), (''type'', JStr ''human'')]"
  by (simp_all add: definition_json_def definition_members_def first_question_def second_question_def
      empty_task_def obj_def dependency_json_def)

lemma plan_text_ok:
  "s \<noteq> [] \<Longrightarrow> length s \<le> n \<Longrightarrow> CHR 0x00 \<notin> set s \<Longrightarrow> valid_text plan_lib s n = Inr ()"
  by (simp add: valid_text_def plan_need_def)

lemma plan_label_ok: "check_label plan_lib ''a'' = Inr ()" "check_label plan_lib ''b'' = Inr ()"
  by (simp_all add: check_label_def plan_text_ok plan_need_def label_chars_def)

lemma plan_identity_ok: "check_identity plan_lib ''p'' = Inr ()" "check_identity plan_lib ''r'' = Inr ()"
  "check_identity plan_lib ''h'' = Inr ()" "check_identity plan_lib ''p_n0'' = Inr ()"
  "check_identity plan_lib ''p_n1'' = Inr ()"
  by (simp_all add: check_identity_Inr identity_chars_def)

lemmas field_simps_json = string_field_def has_string_def has_member_def member_def at_key_def plan_fields_def
  plan_need_def

lemma question_parses:
  "parse_task plan_lib (definition_json first_question) = Inr first_question"
  "parse_task plan_lib (definition_json second_question) = Inr second_question"
  unfolding question_json
  by (simp_all add: parse_task_def parse_body_def parse_dependency_def field_simps_json plan_label_ok Let_def
      first_question_def second_question_def empty_task_def)

lemma question_defined:
  "check_definition plan_lib sl c first_question = Inr ()" "check_definition plan_lib sl c second_question = Inr ()"
  by (simp_all add: check_definition_def question_parses same_definition_def plan_need_def)
    (simp_all add: first_question_def second_question_def)

lemma caps_checked: "check_capabilities plan_lib sample_caps = Inr ()"
  by (simp add: check_capabilities_def sample_caps_def plan_need_def plan_text_ok plan_lib_object
      check_preset_def settings_identity_def safe_integer_def)

lemma new_plan_snapshot: "snapshot plan_lib sl True new_plan = Inr ()"
  using caps_checked plan_identity_ok(2)
  by (simp add: snapshot_def new_plan_def plan_need_def initial_ok_def)
    (simp add: sample_caps_def safe_integer_def)

lemma first_change_parses: "parse_dynamic_plan_change plan_lib ''C'' True = Inr first_change"
  by (simp add: parse_dynamic_plan_change_def plan_lib_object field_simps_json integer_field_def safe_integer_def
      parse_list_def parse_listed_def take_label_def parse_skips_def question_parses first_change_def)

lemma first_change_admitted: "admit_change plan_lib sl new_plan first_change sample_caps = Inr ()"
proof -
  have "catalogue_finalized sample_caps" "change_bytes sample_caps = 262144" "max_revisions sample_caps = 16"
    by (simp_all add: sample_caps_def)
  moreover have "plan_caps new_plan = sample_caps" "plan_revision new_plan = 0" "state_sequence new_plan = 0"
    "lifecycle new_plan = ''active''"
    by (simp_all add: new_plan_def)
  moreover have "change_json first_change = ''C''" "same_definitions [first_question] [first_question]"
    by (simp_all add: first_change_def same_definitions_def same_definition_def)
  ultimately show ?thesis
    unfolding admit_change_def
    by (simp add: caps_checked new_plan_snapshot first_change_parses same_capabilities_eq plan_need_def
        safe_integer_def) (simp add: first_change_def same_definitions_def)
qed

lemma first_topology: "topology [new_record 1 first_question] = Inr ()"
  by (simp add: topology_def plan_need_def new_record_def first_question_def empty_task_def edge_indices_def
      numeral_eq_Suc)

lemma first_reduced:
  "reduce_dynamic_plan plan_lib plan_schemas new_plan first_change sample_caps = Inr first_candidate"
proof -
  have tasks: "reduce_tasks plan_lib plan_schemas new_plan first_change sample_caps =
      Inr ([new_record 1 first_question], [], 1)"
    by (simp add: reduce_tasks_def new_plan_def first_change_def add_task_def question_defined)
      (simp add: first_question_def)
  have counts: "pending_human (new_record 1 first_question)" "\<not> pending_child (new_record 1 first_question)"
    by (simp_all add: pending_human_def pending_child_def is_human_def new_record_def first_question_def unstarted_def)
  have caps: "max_nodes sample_caps = 32" "max_humans sample_caps = 8" "humans_published new_plan = 0"
    by (simp_all add: sample_caps_def new_plan_def)
  show ?thesis unfolding reduce_dynamic_plan_def
    by (simp add: first_change_admitted tasks plan_need_def counts caps first_topology dumpP_def obj_def Let_def
        first_candidate_def)
qed

theorem accepted_change_keeps_plan_witness:
  "snapshot plan_lib plan_schemas False (install_candidate new_plan first_candidate) = Inr () \<and>
   length (tasks (install_candidate new_plan first_candidate)) = 1"
proof
  have "tasks new_plan = []" "plan_id new_plan = ''p''" by (simp_all add: new_plan_def)
  with accepted_change_keeps_plan [OF first_reduced] plan_identity_ok(1)
  show "snapshot plan_lib plan_schemas False (install_candidate new_plan first_candidate) = Inr ()" by simp
  show "length (tasks (install_candidate new_plan first_candidate)) = 1"
    by (simp add: install_candidate_def first_candidate_def)
qed

text \<open>The first question has expired, so the second can never be asked.\<close>

definition expired_node :: task_record where
  "expired_node = (new_record 1 first_question)\<lparr>backend_node_id := ''p_n0'', task_state := Task_settled,
     claim_revision := 1, claim_id := ''h'', human_request_id := ''h'', outcome_json := ''O'',
     settled_event_seq := Some 4\<rparr>"

definition waiting_node :: task_record where
  "waiting_node = (new_record 1 second_question)\<lparr>backend_node_id := ''p_n1''\<rparr>"

definition stalled_plan :: plan_record where
  "stalled_plan = new_plan\<lparr>plan_revision := 1, state_sequence := 3, tasks := [expired_node, waiting_node],
     humans_published := 1, humans_reserved := 1\<rparr>"

lemma stalled_topology: "topology [expired_node, waiting_node] = Inr ()"
  by (simp add: topology_def plan_need_def expired_node_def waiting_node_def new_record_def first_question_def
      second_question_def empty_task_def edge_indices_def label_index_def numeral_eq_Suc)

lemma stalled_nodes:
  "check_node plan_lib sl stalled_plan ([], 0, 0, 0) expired_node = Inr ([''p_n0''], 1, 0, 0)"
  "check_node plan_lib sl stalled_plan ([''p_n0''], 1, 0, 0) waiting_node = Inr ([''p_n1'', ''p_n0''], 1, 1, 0)"
proof -
  have tasks: "task expired_node = first_question" "task waiting_node = second_question"
    by (simp_all add: expired_node_def waiting_node_def new_record_def)
  have kinds: "task_kind_of first_question = Human_task" "task_kind_of second_question = Human_task"
    by (simp_all add: first_question_def second_question_def)
  have outcome: "human_outcome plan_lib expired_node = Inr ()"
    by (simp add: human_outcome_def expired_node_def plan_lib_object field_simps_json)
  have "check_node_identity plan_lib sl c expired_node = Inr ()" "check_node_identity plan_lib sl c waiting_node = Inr ()"
    for c
    by (simp_all add: check_node_identity_def tasks question_defined)
      (simp_all add: expired_node_def waiting_node_def new_record_def plan_identity_ok)
  moreover have "check_node_state plan_lib [] expired_node = Inr ()"
    unfolding check_node_state_def
    by (simp add: check_settled_def outcome is_human_def tasks kinds plan_need_def unstarted_def)
      (simp add: expired_node_def new_record_def no_effect_def nonterminal_effect_def safe_integer_def plan_lib_object
        has_execution_def)
  moreover have "check_node_state plan_lib [] waiting_node = Inr ()"
    by (rule fresh_node_state)
      (simp_all add: waiting_node_def new_record_def has_execution_def no_effect_def unstarted_def)
  ultimately show "check_node plan_lib sl stalled_plan ([], 0, 0, 0) expired_node = Inr ([''p_n0''], 1, 0, 0)"
    "check_node plan_lib sl stalled_plan ([''p_n0''], 1, 0, 0) waiting_node = Inr ([''p_n1'', ''p_n0''], 1, 1, 0)"
    by (simp_all add: check_node_def stalled_plan_def new_plan_def plan_need_def pending_child_def is_human_def tasks
        kinds)
      (simp_all add: expired_node_def waiting_node_def new_record_def unstarted_def)
qed

lemma stalled_snapshot: "snapshot plan_lib plan_schemas False stalled_plan = Inr ()"
proof -
  have tasks: "snapshot_tasks plan_lib plan_schemas stalled_plan = Inr ()"
    unfolding snapshot_tasks_def using stalled_nodes [of plan_schemas] stalled_topology plan_identity_ok(1)
    by (simp add: stalled_plan_def new_plan_def plan_need_def sample_caps_def)
  have "check_capabilities plan_lib (plan_caps stalled_plan) = Inr ()"
    "check_identity plan_lib (root_run_id stalled_plan) = Inr ()"
    by (simp_all add: stalled_plan_def new_plan_def caps_checked plan_identity_ok)
  then show ?thesis unfolding snapshot_def using tasks
    by (simp add: plan_need_def) (simp add: stalled_plan_def new_plan_def sample_caps_def safe_integer_def)
qed


lemma stalled_inspected:
  "inspect_dynamic_plan plan_lib plan_schemas stalled_plan = Inr ((no_decision False)\<lparr>blocked_tasks := [''b''],
     report_ready := True\<rparr>)"
proof -
  have tasks: "tasks stalled_plan = [expired_node, waiting_node]" and life: "lifecycle stalled_plan = ''active''"
    by (simp_all add: stalled_plan_def new_plan_def)
  have e: "task_state expired_node = Task_settled" "effect_state expired_node = ''none''"
    "task_label (task expired_node) = ''a''" "outcome_json expired_node = ''O''" "is_human expired_node"
    by (simp_all add: expired_node_def new_record_def first_question_def is_human_def)
  have w: "task_state waiting_node = Task_pending" "effect_state waiting_node = ''none''"
    "task_label (task waiting_node) = ''b''"
    "dependencies (task waiting_node) = [\<lparr>dep_task = ''a'', dep_require = On_success\<rparr>]"
    by (simp_all add: waiting_node_def new_record_def second_question_def)
  have "satisfied plan_lib On_success expired_node = Inr False"
    by (simp add: satisfied_def successful_def observed_def e nonterminal_effect_def plan_lib_object at_member_def
        member_def)
  moreover have "beyond_hope expired_node"
    by (simp add: beyond_hope_def observed_def e nonterminal_effect_def)
  moreover have "find_task stalled_plan ''a'' = Inr expired_node" by (simp add: find_task_def tasks e)
  ultimately have "readiness (length (tasks stalled_plan) + 1) plan_lib stalled_plan waiting_node [] =
      Inr (Is_blocked, [(''b'', Is_blocked)])"
    by (simp add: tasks w remember_def numeral_eq_Suc)
  then show ?thesis
    unfolding inspect_dynamic_plan_def coordinator_new_def inspect_plan_def
    by (simp add: stalled_snapshot life inspect_task_def tasks e w unstarted_def no_decision_def del: readiness.simps)
qed

theorem idle_plan_reports_blocked_witness:
  "\<exists>d. inspect_dynamic_plan plan_lib plan_schemas stalled_plan = Inr d \<and> ''b'' \<in> set (blocked_tasks d)"
proof -
  have "waiting_node \<in> set (tasks stalled_plan)" "unstarted (task_state waiting_node)"
    "task_label (task waiting_node) = ''b''"
    by (simp_all add: stalled_plan_def waiting_node_def new_record_def unstarted_def second_question_def)
  with idle_plan_reports_blocked [OF stalled_snapshot stalled_inspected] stalled_inspected show ?thesis
    by (auto simp: no_decision_def)
qed

end
