(* ===== verification/Dynamic_Tools.thy ===== *)
theory Dynamic_Tools
  imports Dynamic_Plan
begin

text \<open>
  \<open>dynamic_plan.cpp\<close>: the definitions of the planning tools offered to the model, with the JSON
  schemas of their arguments built from the presets and the sealed catalogue.
\<close>

section \<open>The tools a task may name\<close>

fun select_tools :: "(bytes \<Rightarrow> plan_error + bool) \<Rightarrow> bytes list \<Rightarrow> plan_error + bytes list" where
  "select_tools P [] = Inr []"
| "select_tools P (name # ns) =
     bindE (P name) (\<lambda>b. bindE (select_tools P ns) (\<lambda>rest. Inr (if b then name # rest else rest)))"

definition deterministic_offers :: "plan_capabilities \<Rightarrow> bytes list" where
  "deterministic_offers c = filter (\<lambda>name. list_ex (\<lambda>p. preset_name p = ''workspace.inspect'' \<and> preset_readonly p \<and>
     name \<in> set (preset_tools p)) (presets c)) deterministic_reads"

definition writing_presets :: "plan_capabilities \<Rightarrow> preset_capability list" where
  "writing_presets c = filter (\<lambda>p. preset_name p = ''workspace.coding'' \<and> \<not> preset_readonly p) (presets c)"

definition sealed_tools :: "json \<Rightarrow> json list option" where
  "sealed_tools catalog = (if is_object catalog \<and> has_member catalog ''tools'' \<and> is_array (at_key catalog ''tools'')
     then Some (elements (at_key catalog ''tools'')) else None)"

definition kind_is :: "json \<Rightarrow> bytes \<Rightarrow> plan_error + bool" where
  "kind_is b k = bindE (value_string b ''kind'') (\<lambda>s. Inr (s = k))"

definition offers_mcp :: "json list \<Rightarrow> bytes \<Rightarrow> plan_error + bool" where
  "offers_mcp items name =
     (if \<not> starts_with name ''mcp_'' then Inr False
      else bindE (find_tool name items) (\<lambda>found.
        case found of None \<Rightarrow> Inr False
        | Some v \<Rightarrow>
          let b = at_key v ''mcp_binding'' in
          if \<not> (has_member v ''mcp_binding'' \<and> is_object b) then Inr False
          else if \<not> has_member b ''kind'' then Inr True
          else bindE (kind_is b ''resource'') (\<lambda>r. if r then Inr True else kind_is b ''prompt'')))"

definition offers_a2a :: "json list \<Rightarrow> bytes \<Rightarrow> plan_error + bool" where
  "offers_a2a items name =
     (if \<not> starts_with name ''a2a_delegate_'' then Inr False
      else bindE (find_tool name items) (\<lambda>found.
        case found of None \<Rightarrow> Inr False
        | Some v \<Rightarrow>
          let b = at_key v ''a2a_binding'' in
          if \<not> (has_member v ''a2a_binding'' \<and> is_object b) then Inr False
          else kind_is b ''a2a_remote_agent''))"

definition offers_process :: "json list \<Rightarrow> preset_capability \<Rightarrow> plan_error + bytes list" where
  "offers_process items p =
     (if ''run_process'' \<notin> set (preset_tools p) then Inr []
      else bindE (find_tool ''run_process'' items) (\<lambda>found.
        case found of None \<Rightarrow> Inr []
        | Some v \<Rightarrow> Inr (if has_member v ''mcp_binding'' then [] else [''run_process''])))"

definition read_tools :: "plan_capabilities \<Rightarrow> json \<Rightarrow> plan_error + bytes list" where
  "read_tools c catalog =
     (case sealed_tools catalog of
        None \<Rightarrow> Inr (deterministic_offers c)
      | Some items \<Rightarrow>
        bindE (mapE (\<lambda>p. select_tools (offers_mcp items) (preset_tools p)) (writing_presets c)) (\<lambda>mcp.
        bindE (mapE (\<lambda>p. select_tools (offers_a2a items) (preset_tools p)) (writing_presets c)) (\<lambda>a2a.
        bindE (mapE (offers_process items) (writing_presets c)) (\<lambda>process.
        Inr (deterministic_offers c @ concat mcp @ concat a2a @ concat process)))))"

section \<open>Schemas\<close>

definition texts :: "bytes list \<Rightarrow> json" where
  "texts ns = JArr (map JStr ns)"

definition typed :: "bytes \<Rightarrow> (bytes \<times> json) list \<Rightarrow> json" where
  "typed t kvs = obj ((''type'', JStr t) # kvs)"

definition const_schema :: "json \<Rightarrow> json" where
  "const_schema v = obj [(''const'', v)]"

definition closed_object :: "json \<Rightarrow> bytes list \<Rightarrow> json" where
  "closed_object properties needed = typed ''object'' [(''properties'', properties), (''required'', texts needed),
     (''additionalProperties'', JBool False)]"

definition dependency_schema :: json where
  "dependency_schema = closed_object (obj [(''task'', typed ''string'' [(''maxLength'', JInt 32)]),
     (''require'', obj [(''enum'', texts [''success'', ''observed''])])]) [''task'', ''require'']"

definition label_schema :: json where
  "label_schema = typed ''string'' [(''minLength'', JInt 1), (''maxLength'', JInt 32),
     (''pattern'', JStr ''^[A-Za-z0-9_.-]+$'')]"

definition sentence_schema :: json where
  "sentence_schema = typed ''string'' [(''minLength'', JInt 1), (''maxLength'', JInt 8192)]"

definition common_schema :: "bytes \<Rightarrow> (bytes \<times> json) list" where
  "common_schema k = [(''id'', label_schema), (''type'', const_schema (JStr k)),
     (''depends_on'', typed ''array'' [(''maxItems'', JInt 32), (''items'', dependency_schema)])]"

definition agent_schema :: "plan_capabilities \<Rightarrow> json" where
  "agent_schema c = closed_object (obj (common_schema ''agent'' @ [(''objective'', sentence_schema),
     (''preset'', obj [(''enum'', texts (map preset_name (presets c)))])]))
     [''id'', ''type'', ''objective'', ''preset'', ''depends_on'']"

definition human_schema :: json where
  "human_schema = closed_object (obj (common_schema ''human'' @ [(''question'', sentence_schema)]))
     [''id'', ''type'', ''question'', ''depends_on'']"

definition tool_schema :: "bytes list \<Rightarrow> json" where
  "tool_schema ns = closed_object (obj (common_schema ''tool'' @ [(''tool'', obj [(''enum'', texts ns)]),
     (''arguments_json'', typed ''string'' [(''minLength'', JInt 2), (''maxLength'', JInt 65536)])]))
     [''id'', ''type'', ''tool'', ''arguments_json'', ''depends_on'']"

definition definitions_schema :: "plan_capabilities \<Rightarrow> bytes list \<Rightarrow> (bytes \<times> json) list" where
  "definitions_schema c ns = [(''type'', JStr ''array''), (''maxItems'', JInt 32), (''items'', obj [(''oneOf'',
     JArr ([agent_schema c] @ (if ns = [] then [] else [tool_schema ns]) @ [human_schema]))])]"

definition initial_schema :: "plan_capabilities \<Rightarrow> bytes list \<Rightarrow> json" where
  "initial_schema c ns = closed_object (obj [
     (''expected_revision'', typed ''integer'' [(''const'', JInt 0)]),
     (''expected_state_sequence'', typed ''integer'' [(''const'', JInt 0)]),
     (''add'', obj (definitions_schema c ns @ [(''minItems'', JInt 1)]))])
     [''expected_revision'', ''expected_state_sequence'', ''add'']"

definition revised_schema :: "plan_capabilities \<Rightarrow> bytes list \<Rightarrow> json" where
  "revised_schema c ns =
     (let count = typed ''integer'' [(''minimum'', JInt 1), (''maximum'', JInt safe_integer)];
          defs = obj (definitions_schema c ns) in
      closed_object (obj [(''expected_revision'', count), (''expected_state_sequence'', count), (''add'', defs),
        (''replace'', defs), (''skip'', typed ''array'' [(''maxItems'', JInt 32), (''items'', label_schema)])])
        [''expected_revision'', ''expected_state_sequence''])"

section \<open>The tools\<close>

definition plan_tasks_text :: bytes where
  "plan_tasks_text =
     ''Select a native dependency plan for this ordinary Agent. Use agent tasks for model reasoning, read-only tool tasks for deterministic workspace reads and registered MCP resource/prompt reads, MCP and registered A2A tool tasks for external actions, run_process tool tasks for synchronous commands through registered profiles, and human tasks for authenticated input. MCP resource and prompt reads still require their registered controller approval and journal; effects keep their usual exact approval. Human answers are data. This must be the sole tool call in the assistant turn.''"

definition revise_plan_text :: bytes where
  "revise_plan_text =
     ''Revise the same native plan using its observed revision and state sequence. Only never-claimed pending or blocked tasks can change; completed, failed, published and effect-linked work remains immutable. MCP, A2A and process tool tasks keep their frozen bindings and require the usual controller approval. This must be the sole tool call in the assistant turn.''"

definition inspect_plan_text :: bytes where
  "inspect_plan_text =
     ''Read this Agent'' @ [CHR 0x27] @ ''s actual owned dependency plan, revisions and bounded outcomes. This does not dispatch work or grant effect authority.''"

definition inspect_plan_schema :: bytes where
  "inspect_plan_schema = ''{'' @ [CHR 0x22] @ ''type'' @ [CHR 0x22] @ '':'' @ [CHR 0x22] @ ''object'' @ [CHR 0x22] @
     '','' @ [CHR 0x22] @ ''properties'' @ [CHR 0x22] @ '':{},'' @ [CHR 0x22] @ ''additionalProperties'' @ [CHR 0x22] @
     '':false}''"

definition context_dynamic_plan_tool_definitions :: "json_lib \<Rightarrow> plan_capabilities \<Rightarrow>
    plan_error + tool_definition list" where
  "context_dynamic_plan_tool_definitions lib c =
     bindE (check_capabilities lib c) (\<lambda>_.
     bindE (plan_object lib (tool_catalog_json c) 262144) (\<lambda>catalog.
     bindE (read_tools c catalog) (\<lambda>ns.
     bindE (dumpP lib (initial_schema c ns)) (\<lambda>initial.
     bindE (dumpP lib (revised_schema c ns)) (\<lambda>revised.
     Inr [\<lparr>tool_name = ''plan_tasks'', tool_description = plan_tasks_text, input_schema_json = initial\<rparr>,
       \<lparr>tool_name = ''revise_plan'', tool_description = revise_plan_text, input_schema_json = revised\<rparr>,
       \<lparr>tool_name = ''inspect_plan'', tool_description = inspect_plan_text,
         input_schema_json = inspect_plan_schema\<rparr>])))))"

definition dynamic_plan_tool_definitions :: "json_lib \<Rightarrow> plan_capabilities \<Rightarrow> plan_error + tool_definition list" where
  "dynamic_plan_tool_definitions lib c =
     bindE (plan_need (catalogue_finalized c) ''Planning tools require their finalized native catalogue'') (\<lambda>_.
       context_dynamic_plan_tool_definitions lib c)"

text \<open>Every tool a task schema ns is offered by a registered preset.\<close>

lemma select_tools_subset: "select_tools P ns = Inr out \<Longrightarrow> set out \<subseteq> set ns"
proof (induction ns arbitrary: out)
  case (Cons n ns)
  obtain b rest where "select_tools P ns = Inr rest" "out = (if b then n # rest else rest)"
    using Cons.prems by (auto simp: result_simps)
  then show ?case using Cons.IH [of rest] by auto
qed simp

lemma mapE_subset:
  assumes "\<And>p out. f p = Inr out \<Longrightarrow> set out \<subseteq> set (preset_tools p)"
  shows "mapE f ps = Inr outs \<Longrightarrow> set (concat outs) \<subseteq> (\<Union>p \<in> set ps. set (preset_tools p))"
proof (induction ps arbitrary: outs)
  case (Cons p ps)
  obtain out rest where "f p = Inr out" "mapE f ps = Inr rest" "outs = out # rest"
    using Cons.prems by (auto simp: result_simps)
  then show ?case using Cons.IH [of rest] assms [of p out] by auto
qed simp

lemma offers_process_subset: "offers_process items p = Inr out \<Longrightarrow> set out \<subseteq> set (preset_tools p)"
  by (auto simp: offers_process_def result_simps split: if_splits option.splits)

lemma read_tools_registered:
  assumes "read_tools c catalog = Inr ns"
  shows "set ns \<subseteq> (\<Union>p \<in> set (presets c). set (preset_tools p))"
proof -
  let ?all = "\<Union>p \<in> set (presets c). set (preset_tools p)"
  have writers: "(\<Union>p \<in> set (writing_presets c). set (preset_tools p)) \<subseteq> ?all"
    by (auto simp: writing_presets_def)
  have fixed: "set (deterministic_offers c) \<subseteq> ?all"
    by (auto simp: deterministic_offers_def list_ex_iff)
  show ?thesis
  proof (cases "sealed_tools catalog")
    case None
    then show ?thesis using assms fixed by (simp add: read_tools_def)
  next
    case (Some items)
    then obtain mcp a2a process where
      m: "mapE (\<lambda>p. select_tools (offers_mcp items) (preset_tools p)) (writing_presets c) = Inr mcp" and
      a: "mapE (\<lambda>p. select_tools (offers_a2a items) (preset_tools p)) (writing_presets c) = Inr a2a" and
      r: "mapE (offers_process items) (writing_presets c) = Inr process" and
      ns: "ns = deterministic_offers c @ concat mcp @ concat a2a @ concat process"
      using assms by (auto simp: read_tools_def result_simps)
    have "set (concat mcp) \<subseteq> ?all" by (rule subset_trans [OF mapE_subset [OF select_tools_subset m] writers])
    moreover have "set (concat a2a) \<subseteq> ?all" by (rule subset_trans [OF mapE_subset [OF select_tools_subset a] writers])
    moreover have "set (concat process) \<subseteq> ?all"
      by (rule subset_trans [OF mapE_subset [OF offers_process_subset r] writers])
    ultimately show ?thesis unfolding ns set_append using fixed by (metis Un_least)
  qed
qed

end
