(* ===== verification/Event_Stream.thy ===== *)
theory Event_Stream
  imports Chat_Stream
begin

text \<open>
  What the decoders of \<open>anthropic_stream.cpp\<close>, \<open>gemini_stream.cpp\<close> and \<open>responses_stream.cpp\<close> share:
  the framing of server-sent events with names. Each decoder extends the record \<open>sse\<close> with its own
  members and supplies its texts and bounds as \<open>sse_rules\<close> and its \<open>chunk\<close>, the handler of one
  complete event. A failing operation carries the state it leaves behind.
\<close>

named_theorems stream_simps \<open>inversion of the steps of a decoder\<close>

type_synonym ('s, 'a) outcome = "(stream_error \<times> 's) + 'a"

definition reads :: "'s \<Rightarrow> stream_error + 'a \<Rightarrow> ('a \<Rightarrow> ('s, 'b) outcome) \<Rightarrow> ('s, 'b) outcome" where
  "reads s r f = (case r of Inl e \<Rightarrow> Inl (e, s) | Inr x \<Rightarrow> f x)"

lemma reads_Inr [stream_simps]: "reads s r f = Inr t \<longleftrightarrow> (\<exists>x. r = Inr x \<and> f x = Inr t)"
  by (cases r) (auto simp: reads_def)

lemma reads_simps [simp]: "reads s (Inr x) f = f x" "reads s (Inl e) f = Inl (e, s)"
  by (simp_all add: reads_def)

lemma reads_demand: "reads s (demand b m) f = Inr t \<longleftrightarrow> b \<and> f () = Inr t"
  by (auto simp: stream_simps)

lemma bindE_result [stream_simps]: "bindE m f = Inr y \<longleftrightarrow> (\<exists>x. m = Inr x \<and> f x = Inr y)"
  by (rule bindE_Inr)

section \<open>Members of events\<close>

text \<open>The library's \<open>at\<close> and \<open>value(key, null)\<close>: they throw its own exceptions.\<close>

definition must_have :: "json \<Rightarrow> bytes \<Rightarrow> stream_error + json" where
  "must_have v k = (case member v k of None \<Rightarrow> Inl Json_failure | Some x \<Rightarrow> Inr x)"

definition value_or_null :: "json \<Rightarrow> bytes \<Rightarrow> stream_error + json" where
  "value_or_null v k = (if is_object v then Inr (at_key v k) else Inl Json_failure)"

text \<open>Parsing with the callback of the decoder: bounded nesting, and no key twice in an object.\<close>

definition event_within :: "nat \<Rightarrow> bytes set list \<Rightarrow> nat \<times> sax_event \<Rightarrow> event_error + bytes set list" where
  "event_within bound open_keys e =
     (if fst e > bound then Inl Too_deep else parse_event open_keys (min 64 (fst e), snd e))"

fun event_failure :: "bytes \<Rightarrow> bytes \<Rightarrow> event_error \<Rightarrow> stream_error" where
  "event_failure deep twice Too_deep = Protocol deep"
| "event_failure deep twice Duplicate_key = Protocol twice"
| "event_failure deep twice No_open_object = Json_failure"

definition parse_within :: "json_lib \<Rightarrow> nat \<Rightarrow> bytes \<Rightarrow> bytes \<Rightarrow> bytes \<Rightarrow> stream_error + json" where
  "parse_within lib bound deep twice source =
     bindE (map_error (event_failure deep twice) (foldE (event_within bound) [] (fst (sax lib source))))
       (\<lambda>_. case snd (sax lib source) of None \<Rightarrow> Inl Json_failure | Some v \<Rightarrow> Inr v)"

definition parse_name :: "json_lib \<Rightarrow> bytes \<Rightarrow> stream_error + bytes" where
  "parse_name lib source = (case json_text lib source of Some (JStr k) \<Rightarrow> Inr k | _ \<Rightarrow> Inl Json_failure)"

definition ends_scalar :: "char \<Rightarrow> bool" where
  "ends_scalar c \<longleftrightarrow> json_space c \<or> c = CHR '','' \<or> c = CHR '']'' \<or> c = CHR ''}'' \<or> c = CHR '':''"

definition closing :: "char \<Rightarrow> char" where
  "closing c = (if c = CHR ''{'' then CHR ''}'' else CHR '']'')"

lemma skip_space_shorter: "length (skip_space s) \<le> length s"
  by (simp add: skip_space_def length_dropWhile_le)

definition counters_max :: int where "counters_max = 9007199254740991"

section \<open>Framing\<close>

record 'k sse =
  sse_sink :: 'k
  sse_line :: bytes
  sse_data :: bytes
  sse_event :: bytes
  sse_total :: nat
  sse_first :: bool
  sse_skip :: bool
  sse_has_data :: bool
  sse_failed :: bool

record sse_rules =
  grow :: "bytes \<Rightarrow> bytes \<Rightarrow> nat \<Rightarrow> stream_error + bytes"
  data_bound :: nat
  name_too_long :: bytes
  stream_invalid :: bytes
  stream_exceeded :: bytes
  json_invalid :: bytes

definition sse_emit :: "json_lib \<Rightarrow> 'k chat_sink \<Rightarrow> bytes \<Rightarrow> json \<Rightarrow> ('k, 'm) sse_scheme \<Rightarrow>
    (('k, 'm) sse_scheme, ('k, 'm) sse_scheme) outcome" where
  "sse_emit lib sink k v s = reads s (dump_value lib v) (\<lambda>dumped.
     let (told, returned) = sink (sse_sink s) \<lparr>ev_kind = k, ev_json = dumped\<rparr>;
         t = s\<lparr>sse_sink := told\<rparr>
     in if returned then Inr t else Inl (Sink_failure, t))"

lemma sse_emit_Inr: "sse_emit lib sink k v s = Inr t \<Longrightarrow> \<exists>told. t = s\<lparr>sse_sink := told\<rparr>"
  unfolding sse_emit_def stream_simps by (auto simp: split_beta Let_def split: if_splits)

type_synonym ('k, 'm) sse_chunk =
  "('k, 'm) sse_scheme \<Rightarrow> (('k, 'm) sse_scheme, ('k, 'm) sse_scheme) outcome"

definition drop_mark :: "('k, 'm) sse_scheme \<Rightarrow> ('k, 'm) sse_scheme" where
  "drop_mark s = (if sse_first s then s\<lparr>sse_first := False, sse_line :=
     (if starts_with (sse_line s) byte_order_mark then drop 3 (sse_line s) else sse_line s)\<rparr> else s)"

definition sse_dispatch :: "('k, 'm) sse_chunk \<Rightarrow> ('k, 'm) sse_chunk" where
  "sse_dispatch handler s =
     bindE (if sse_has_data s
        then bindE (handler (s\<lparr>sse_data := butlast (sse_data s)\<rparr>))
          (\<lambda>t. Inr (t\<lparr>sse_data := [], sse_has_data := False\<rparr>))
        else Inr s)
       (\<lambda>t. Inr (t\<lparr>sse_event := []\<rparr>))"

definition sse_field :: "sse_rules \<Rightarrow> bytes \<Rightarrow> bytes \<Rightarrow> ('k, 'm) sse_chunk" where
  "sse_field r name v s =
     (if name = ''event'' then
        reads s (demand (length v \<le> 256) (name_too_long r)) (\<lambda>_. Inr (s\<lparr>sse_event := v\<rparr>))
      else if name = ''data'' then
        reads s (grow r (sse_data s) v (data_bound r)) (\<lambda>d.
          let t = s\<lparr>sse_data := d\<rparr> in
          reads t (grow r d [CHR 0x0A] (data_bound r)) (\<lambda>d'.
            Inr (t\<lparr>sse_data := d', sse_has_data := True\<rparr>)))
      else Inr s)"

definition sse_end_line :: "sse_rules \<Rightarrow> ('k, 'm) sse_chunk \<Rightarrow> ('k, 'm) sse_chunk" where
  "sse_end_line r handler s0 =
     (let s = drop_mark s0 in
      bindE (if sse_line s = [] then sse_dispatch handler s
             else if hd (sse_line s) \<noteq> CHR '':''
             then sse_field r (fst (field_of (sse_line s))) (snd (field_of (sse_line s))) s
             else Inr s)
        (\<lambda>t. Inr (t\<lparr>sse_line := []\<rparr>)))"

definition sse_byte :: "sse_rules \<Rightarrow> ('k, 'm) sse_chunk \<Rightarrow> ('k, 'm) sse_scheme \<Rightarrow> char \<Rightarrow>
    (('k, 'm) sse_scheme, ('k, 'm) sse_scheme) outcome" where
  "sse_byte r handler s0 c =
     (let s = s0\<lparr>sse_skip := False\<rparr> in
      if sse_skip s0 \<and> c = CHR 0x0A then Inr s
      else if c = CHR 0x0D then bindE (sse_end_line r handler s) (\<lambda>t. Inr (t\<lparr>sse_skip := True\<rparr>))
      else if c = CHR 0x0A then sse_end_line r handler s
      else reads s (grow r (sse_line s) [c] max_line) (\<lambda>l. Inr (s\<lparr>sse_line := l\<rparr>)))"

fun sse_bytes :: "sse_rules \<Rightarrow> ('k, 'm) sse_chunk \<Rightarrow> ('k, 'm) sse_scheme \<Rightarrow> bytes \<Rightarrow>
    (('k, 'm) sse_scheme, ('k, 'm) sse_scheme) outcome" where
  "sse_bytes r handler s [] = Inr s"
| "sse_bytes r handler s (c # cs) = bindE (sse_byte r handler s c) (\<lambda>t. sse_bytes r handler t cs)"

definition sse_feed :: "sse_rules \<Rightarrow> (('k, 'm) sse_scheme \<Rightarrow> bool) \<Rightarrow> ('k, 'm) sse_chunk \<Rightarrow>
    ('k, 'm) sse_scheme \<Rightarrow> bytes \<Rightarrow> (('k, 'm) sse_scheme, ('k, 'm) sse_scheme) outcome" where
  "sse_feed r closed handler s bs =
     (if sse_failed s \<or> closed s then Inl (Protocol (stream_invalid r), s)
      else if length bs > max_stream - sse_total s then Inl (Protocol (stream_exceeded r), s)
      else sse_bytes r handler (s\<lparr>sse_total := sse_total s + length bs\<rparr>) bs)"

text \<open>The public \<open>feed\<close>: any exception marks the stream, and the library's get one fixed message.\<close>

definition sse_guarded :: "sse_rules \<Rightarrow> (('k, 'm) sse_scheme \<Rightarrow> bool) \<Rightarrow> ('k, 'm) sse_chunk \<Rightarrow>
    ('k, 'm) sse_scheme \<Rightarrow> bytes \<Rightarrow> (('k, 'm) sse_scheme, ('k, 'm) sse_scheme) outcome" where
  "sse_guarded r closed handler s bs =
     map_error (\<lambda>(e, t). (if e = Json_failure then Protocol (json_invalid r) else e, t\<lparr>sse_failed := True\<rparr>))
       (sse_feed r closed handler s bs)"

lemma sse_bytes_steps: "sse_bytes r handler s bs = foldE (sse_byte r handler) s bs"
  by (induction bs arbitrary: s) auto

interpretation sse_pieces: byte_machine "sse_bytes r handler" "sse_byte r handler" for r handler
  by unfold_locales (rule sse_bytes_steps)

section \<open>An event as it is sent\<close>

text \<open>The lines \<open>event:\<close> and \<open>data:\<close> and a blank line hand their values to the handler, once.\<close>

definition plain_line :: "bytes \<Rightarrow> bool" where
  "plain_line l \<longleftrightarrow> CHR 0x0A \<notin> set l \<and> CHR 0x0D \<notin> set l"

definition appends :: "sse_rules \<Rightarrow> bool" where
  "appends r \<longleftrightarrow> (\<forall>a b n. length a + length b \<le> n \<longrightarrow> grow r a b n = Inr (a @ b))"

lemma unskip: "\<not> sse_skip s \<Longrightarrow> s\<lparr>sse_skip := False\<rparr> = s"
  by (cases s) simp

lemma line_grows:
  assumes "appends r" and "plain_line l" and "\<not> sse_skip s" and "length (sse_line s) + length l \<le> max_line"
  shows "sse_bytes r handler s l = Inr (s\<lparr>sse_line := sse_line s @ l\<rparr>)"
  using assms(2-4)
proof (induction l arbitrary: s)
  case (Cons c l)
  have "sse_byte r handler s c = Inr (s\<lparr>sse_line := sse_line s @ [c]\<rparr>)"
    using Cons.prems assms(1) unskip [of s] by (auto simp: sse_byte_def plain_line_def appends_def Let_def)
  then show ?case using Cons by (simp add: plain_line_def)
qed simp

lemma line_ends:
  assumes "appends r" and "plain_line l" and "\<not> sse_skip s" and "sse_line s = []" and "length l \<le> max_line"
  shows "sse_bytes r handler s (l @ CHR 0x0A # rest) =
    bindE (sse_end_line r handler (s\<lparr>sse_line := l\<rparr>)) (\<lambda>t. sse_bytes r handler t rest)"
proof -
  let ?t = "s\<lparr>sse_line := l\<rparr>"
  have "sse_bytes r handler s l = Inr ?t" using line_grows [OF assms(1-3)] assms(4,5) by simp
  moreover have "?t\<lparr>sse_skip := False\<rparr> = ?t" using assms(3) by (intro unskip) simp
  then have "sse_byte r handler ?t (CHR 0x0A) = (if sse_skip ?t then Inr ?t else sse_end_line r handler ?t)"
    unfolding sse_byte_def Let_def by (simp only: char.inject) simp
  then have "sse_byte r handler ?t (CHR 0x0A) = sse_end_line r handler ?t" using assms(3) by simp
  ultimately show ?thesis by (simp only: sse_pieces.feed_append bindE_simps sse_bytes.simps)
qed

definition unspaced :: "bytes \<Rightarrow> bool" where
  "unspaced v \<longleftrightarrow> v = [] \<or> hd v \<noteq> CHR '' ''"

lemma field_of_event: "unspaced v \<Longrightarrow> field_of (''event:'' @ v) = (''event'', v)"
  by (auto simp: field_of_def unspaced_def)

lemma field_of_data: "unspaced v \<Longrightarrow> field_of (''data:'' @ v) = (''data'', v)"
  by (auto simp: field_of_def unspaced_def)

lemma event_line:
  assumes "unspaced name" and "length name \<le> 256"
  shows "sse_end_line r handler (s\<lparr>sse_line := ''event:'' @ name\<rparr>) =
    Inr (s\<lparr>sse_line := [], sse_first := False, sse_event := name\<rparr>)"
  using assms field_of_event [of name]
  by (cases s) (simp add: sse_end_line_def sse_field_def drop_mark_def byte_order_mark_def demand_def guardE_def Let_def)

lemma data_line:
  assumes "appends r" and "unspaced d" and "length d < data_bound r" and "sse_data s = []" and "\<not> sse_first s"
  shows "sse_end_line r handler (s\<lparr>sse_line := ''data:'' @ d\<rparr>) =
    Inr (s\<lparr>sse_line := [], sse_data := d @ [CHR 0x0A], sse_has_data := True\<rparr>)"
  using assms field_of_data [of d]
  by (cases s) (simp add: sse_end_line_def sse_field_def drop_mark_def appends_def Let_def)

definition event_text :: "bytes \<Rightarrow> bytes \<Rightarrow> bytes" where
  "event_text name d = (''event:'' @ name) @ CHR 0x0A # (''data:'' @ d) @ CHR 0x0A # [] @ CHR 0x0A # []"

lemma event_handled:
  assumes rules: "appends r" and name: "plain_line name" "unspaced name" "length name \<le> 256"
    and d: "plain_line d" "unspaced d" "length d < data_bound r" "length d + 5 \<le> max_line"
    and s: "\<not> sse_skip s" "sse_line s = []" "sse_data s = []"
  shows "sse_bytes r handler s (event_text name d) =
    bindE (handler (s\<lparr>sse_first := False, sse_event := name, sse_data := d, sse_has_data := True\<rparr>))
      (\<lambda>t. Inr (t\<lparr>sse_data := [], sse_has_data := False, sse_event := [], sse_line := []\<rparr>))"
proof -
  have lines: "plain_line (''event:'' @ name)" "plain_line (''data:'' @ d)" "plain_line []"
    using name(1) d(1) by (auto simp: plain_line_def)
  have lengths: "length (''event:'' @ name) \<le> max_line" "length (''data:'' @ d) \<le> max_line"
    using name(3) d(4) by (auto simp: max_line_def)
  let ?t = "s\<lparr>sse_line := [], sse_first := False, sse_event := name\<rparr>"
  let ?u = "?t\<lparr>sse_line := [], sse_data := d @ [CHR 0x0A], sse_has_data := True\<rparr>"
  have u: "?u\<lparr>sse_line := []\<rparr> = ?u" "?u\<lparr>sse_data := d\<rparr> =
      s\<lparr>sse_first := False, sse_event := name, sse_data := d, sse_has_data := True\<rparr>"
    using s(2) by (cases s; simp)+
  have "sse_bytes r handler s (event_text name d) =
      bindE (sse_end_line r handler (s\<lparr>sse_line := ''event:'' @ name\<rparr>))
        (\<lambda>t. sse_bytes r handler t ((''data:'' @ d) @ CHR 0x0A # [] @ CHR 0x0A # []))"
    unfolding event_text_def by (rule line_ends [OF rules lines(1) s(1,2) lengths(1)])
  also have "\<dots> = sse_bytes r handler ?t ((''data:'' @ d) @ CHR 0x0A # [] @ CHR 0x0A # [])"
    by (simp only: event_line [OF name(2,3)] bindE_simps)
  also have "\<dots> = bindE (sse_end_line r handler (?t\<lparr>sse_line := ''data:'' @ d\<rparr>))
        (\<lambda>t. sse_bytes r handler t ([] @ CHR 0x0A # []))"
    by (rule line_ends [OF rules lines(2) _ _ lengths(2)]) (use s in simp_all)
  also have "\<dots> = sse_bytes r handler ?u ([] @ CHR 0x0A # [])"
    using data_line [OF rules d(2,3), of ?t handler] s by simp
  also have "\<dots> = bindE (sse_end_line r handler (?u\<lparr>sse_line := []\<rparr>)) (\<lambda>t. sse_bytes r handler t [])"
    by (rule line_ends [OF rules lines(3)]) (use s in \<open>simp_all add: max_line_def\<close>)
  also have "\<dots> = bindE (handler (?u\<lparr>sse_data := d\<rparr>))
      (\<lambda>t. Inr (t\<lparr>sse_data := [], sse_has_data := False, sse_event := [], sse_line := []\<rparr>))"
    unfolding u(1) by (simp add: sse_end_line_def drop_mark_def sse_dispatch_def bindE_assoc bindE_return)
  finally show ?thesis unfolding u(2) .
qed

definition at_rest :: "('k, 'm) sse_scheme \<Rightarrow> bool" where
  "at_rest s \<longleftrightarrow> \<not> sse_failed s \<and> \<not> sse_skip s \<and> sse_line s = [] \<and> sse_data s = []"

lemma guarded_event:
  assumes rules: "appends r" and name: "plain_line name" "unspaced name" "length name \<le> 256"
    and d: "plain_line d" "unspaced d" "length d < data_bound r" "length d + 5 \<le> max_line"
    and s: "at_rest s" "\<not> closed s" "sse_total s + length (event_text name d) \<le> max_stream"
    and handled: "handler (s\<lparr>sse_total := sse_total s + length (event_text name d), sse_first := False,
      sse_event := name, sse_data := d, sse_has_data := True\<rparr>) = Inr t"
  shows "sse_guarded r closed handler s (event_text name d) =
    Inr (t\<lparr>sse_data := [], sse_has_data := False, sse_event := [], sse_line := []\<rparr>)"
proof -
  let ?n = "sse_total s + length (event_text name d)"
  have "sse_bytes r handler (s\<lparr>sse_total := ?n\<rparr>) (event_text name d) =
      bindE (handler (s\<lparr>sse_total := ?n, sse_first := False, sse_event := name, sse_data := d, sse_has_data := True\<rparr>))
        (\<lambda>t. Inr (t\<lparr>sse_data := [], sse_has_data := False, sse_event := [], sse_line := []\<rparr>))"
    using event_handled [OF rules name d, of "s\<lparr>sse_total := ?n\<rparr>" handler] s(1) by (simp add: at_rest_def)
  moreover have "length (event_text name d) \<le> max_stream - sse_total s" using s(3) by simp
  ultimately show ?thesis using s(1,2) handled by (simp add: sse_guarded_def sse_feed_def at_rest_def)
qed

section \<open>Invariants of a decoder\<close>

text \<open>
  A decoder keeps an invariant when its handler of an event does and the invariant looks at nothing
  but the sink and what the decoder adds to the record of the framing, \<open>sse.more\<close>.
\<close>

locale sse_decoder =
  fixes handler :: "('k, 'm) sse_chunk"
    and good :: "('k, 'm) sse_scheme \<Rightarrow> bool"
  assumes own_members: "sse.more s = sse.more t \<Longrightarrow> sse_sink s = sse_sink t \<Longrightarrow> good s \<Longrightarrow> good t"
    and handler_keeps: "good s \<Longrightarrow> handler s = Inr t \<Longrightarrow> good t"
begin

lemma same_members: "sse.more s = sse.more t \<Longrightarrow> sse_sink s = sse_sink t \<Longrightarrow> good s = good t"
  by (metis own_members)

lemma framing [simp]:
  "good (s\<lparr>sse_line := x\<rparr>) = good s" "good (s\<lparr>sse_data := x\<rparr>) = good s"
  "good (s\<lparr>sse_event := x\<rparr>) = good s" "good (s\<lparr>sse_total := n\<rparr>) = good s"
  "good (s\<lparr>sse_first := b\<rparr>) = good s" "good (s\<lparr>sse_skip := b\<rparr>) = good s"
  "good (s\<lparr>sse_has_data := b\<rparr>) = good s" "good (s\<lparr>sse_failed := b\<rparr>) = good s"
  by - (rule same_members; simp)+

lemma dispatch_keeps: "sse_dispatch handler s = Inr t \<Longrightarrow> good s \<Longrightarrow> good t"
  using handler_keeps [of "s\<lparr>sse_data := butlast (sse_data s)\<rparr>"]
  by (auto simp: sse_dispatch_def stream_simps split: if_splits)

lemma field_keeps: "sse_field r name v s = Inr t \<Longrightarrow> good s \<Longrightarrow> good t"
  by (auto simp: sse_field_def stream_simps Let_def split: if_splits)

lemma end_line_keeps: "sse_end_line r handler s = Inr t \<Longrightarrow> good s \<Longrightarrow> good t"
proof -
  assume step: "sse_end_line r handler s = Inr t" and good: "good s"
  have mark: "good (drop_mark s)" using good by (simp add: drop_mark_def)
  obtain u where "u = drop_mark s \<or> sse_dispatch handler (drop_mark s) = Inr u \<or>
      (\<exists>name v. sse_field r name v (drop_mark s) = Inr u)" and t: "t = u\<lparr>sse_line := []\<rparr>"
    using step unfolding sse_end_line_def Let_def stream_simps by (auto split: if_splits)
  then have "good u" using mark dispatch_keeps field_keeps by blast
  then show "good t" using t by simp
qed

lemma byte_keeps: "sse_byte r handler s c = Inr t \<Longrightarrow> good s \<Longrightarrow> good t"
  using end_line_keeps [of r "s\<lparr>sse_skip := False\<rparr>"]
  by (auto simp: sse_byte_def stream_simps Let_def split: if_splits)

lemma bytes_keep: "sse_bytes r handler s bs = Inr t \<Longrightarrow> good s \<Longrightarrow> good t"
  by (rule sse_pieces.feed_keeps [where P = good]) (auto intro: byte_keeps)

lemma guarded_keeps: "sse_guarded r closed handler s bs = Inr t \<Longrightarrow> good s \<Longrightarrow> good t"
  using bytes_keep [of r "s\<lparr>sse_total := sse_total s + length bs\<rparr>"]
  by (auto simp: sse_guarded_def sse_feed_def result_simps split: if_splits)

lemma feeds_keep: "foldE (sse_guarded r closed handler) s pieces = Inr t \<Longrightarrow> good s \<Longrightarrow> good t"
  by (rule foldE_invariant [where P = good]) (auto intro: guarded_keeps)

end

end
