(* ===== verification/Claude_Stream.thy ===== *)
theory Claude_Stream
  imports Event_Stream
begin

text \<open>
  \<open>anthropic_stream.cpp\<close>: the incremental decoder of Claude Messages streams. Content blocks open,
  grow by deltas and close, possibly several at a time; tool inputs are kept as the text they were
  received as, cut out of the validated event by a token walker. The turn's answer exists once
  \<open>message_stop\<close> has been accepted.
\<close>

section \<open>Helpers\<close>

definition claude_limit :: nat where "claude_limit = 4 * 1024 * 1024"
definition object_limit :: nat where "object_limit = 1024 * 1024"
definition receipt_limit :: nat where "receipt_limit = 8 * 1024 * 1024"
definition signature_limit :: nat where "signature_limit = 65536"

definition claude_append :: "bytes \<Rightarrow> bytes \<Rightarrow> nat \<Rightarrow> stream_error + bytes" where
  "claude_append target bs bound =
     (if length target > bound \<or> length bs > bound - length target
      then protocol ''Claude stream exceeds limits'' else Inr (target @ bs))"

definition claude_parse :: "json_lib \<Rightarrow> bytes \<Rightarrow> nat \<Rightarrow> stream_error + json" where
  "claude_parse lib source depth = parse_within lib depth
     ''Claude JSON nesting exceeds limits'' ''Duplicate Claude JSON field'' source"

definition claude_text :: "json \<Rightarrow> bytes \<Rightarrow> stream_error + bytes" where
  "claude_text v k =
     bindE (demand (is_object v \<and> has_member v k \<and> is_string (at_key v k)) ''Invalid Claude string field'')
       (\<lambda>_. Inr (str_of (at_key v k)))"

definition claude_identity :: "bytes \<Rightarrow> stream_error + unit" where
  "claude_identity v = demand (v \<noteq> [] \<and> length v \<le> 256 \<and> CHR 0x00 \<notin> set v) ''Invalid Claude identity''"

definition claude_fields :: "json \<Rightarrow> bytes list \<Rightarrow> stream_error + unit" where
  "claude_fields v allowed =
     bindE (demand (is_object v) ''Invalid Claude block object'') (\<lambda>_.
     demand (list_all (\<lambda>(k, _). k \<in> set allowed) (members v)) ''Unsupported Claude block field'')"

definition claude_opaque :: "bytes \<Rightarrow> nat \<Rightarrow> stream_error + unit" where
  "claude_opaque v bound =
     demand (v \<noteq> [] \<and> length v \<le> bound \<and> CHR 0x00 \<notin> set v) ''Invalid Claude opaque content''"

section \<open>The token walker\<close>

text \<open>
  Positions are the rest of the text; \<open>None\<close> is the error of a token boundary. The walk recurses
  through the rest that a nested value leaves, which is always shorter than the text the value was
  read from (\<open>rest_of_value_shorter\<close>): the comparisons of lengths below never fail.
\<close>

fun rest_of_string :: "bytes \<Rightarrow> bytes option" where
  "rest_of_string [] = None"
| "rest_of_string (c # cs) =
     (if c = CHR 0x5C then (case cs of [] \<Rightarrow> None | _ # ds \<Rightarrow> rest_of_string ds)
      else if c = CHR 0x22 then Some cs else rest_of_string cs)"

definition expect :: "char \<Rightarrow> bytes \<Rightarrow> bytes option" where
  "expect c s = (case skip_space s of [] \<Rightarrow> None | d # ds \<Rightarrow> if d = c then Some ds else None)"

function rest_of_value :: "bytes \<Rightarrow> bytes option"
  and rest_of_items :: "char \<Rightarrow> bytes \<Rightarrow> bytes option" where
  "rest_of_value s =
     (case s of [] \<Rightarrow> None
      | c # cs \<Rightarrow>
          if c = CHR 0x22 then rest_of_string cs
          else if c = CHR ''{'' \<or> c = CHR ''['' then
            (case skip_space cs of [] \<Rightarrow> None
             | d # ds \<Rightarrow> if d = closing c then Some ds else rest_of_items c (d # ds))
          else Some (dropWhile (\<lambda>d. \<not> ends_scalar d) cs))"
| "rest_of_items c s =
     Option.bind (rest_of_value (skip_space s)) (\<lambda>r1.
     Option.bind (if \<not> length r1 < length s then None
        else if c = CHR ''{'' then Option.bind (expect (CHR '':'') r1) (\<lambda>r2.
          if length r2 < length s then rest_of_value (skip_space r2) else None)
        else Some r1) (\<lambda>r3.
     case skip_space r3 of [] \<Rightarrow> None
     | separator # r4 \<Rightarrow>
         if separator = closing c then Some r4
         else if separator \<noteq> CHR '','' then None
         else if length r4 < length s then rest_of_items c r4 else None))"
  by pat_completeness auto
termination
proof (relation "measure (\<lambda>x. case x of Inl s \<Rightarrow> 2 * length s | Inr (c, s) \<Rightarrow> 2 * length s + 1)")
  show "wf (measure (\<lambda>x. case x of Inl s \<Rightarrow> 2 * length s | Inr (c :: char, s :: bytes) \<Rightarrow> 2 * length s + 1))"
    by simp
next
  fix s c cs d ds
  assume "s = c # cs" and "skip_space cs = d # ds"
  moreover have "length (skip_space cs) \<le> length cs" by (rule skip_space_shorter)
  ultimately show "(Inr (c, d # ds), Inl s) \<in> measure (\<lambda>x. case x of Inl s \<Rightarrow> 2 * length s | Inr (c, s) \<Rightarrow> 2 * length s + 1)"
    by simp
next
  fix c s
  show "(Inl (skip_space s), Inr (c, s)) \<in> measure (\<lambda>x. case x of Inl s \<Rightarrow> 2 * length s | Inr (c, s) \<Rightarrow> 2 * length s + 1)"
    using skip_space_shorter [of s] by simp
next
  fix c s and r2 :: bytes
  assume "length r2 < length s"
  then show "(Inl (skip_space r2), Inr (c, s)) \<in> measure (\<lambda>x. case x of Inl s \<Rightarrow> 2 * length s | Inr (c, s) \<Rightarrow> 2 * length s + 1)"
    using skip_space_shorter [of r2] by simp
qed auto

declare rest_of_value.simps [simp del] rest_of_items.simps [simp del]

text \<open>A value with the spaces before it removed, and what follows it.\<close>

definition token :: "bytes \<Rightarrow> (bytes \<times> bytes) option" where
  "token s = (let t = skip_space s in
     map_option (\<lambda>r. (take (length t - length r) t, r)) (rest_of_value t))"

definition bounded_token :: "bytes \<Rightarrow> stream_error + bytes \<times> bytes" where
  "bounded_token s = (case token s of None \<Rightarrow> protocol ''Invalid Claude token boundary'' | Some x \<Rightarrow> Inr x)"

definition expect_token :: "char \<Rightarrow> bytes \<Rightarrow> stream_error + bytes" where
  "expect_token c s = (case expect c s of None \<Rightarrow> protocol ''Invalid Claude token boundary'' | Some x \<Rightarrow> Inr x)"

lemma rest_of_string_shorter: "rest_of_string s = Some r \<Longrightarrow> length r < length s"
  by (induction s rule: rest_of_string.induct) (auto split: if_splits list.splits)

lemma expect_shorter: "expect c s = Some r \<Longrightarrow> length r < length s"
  using skip_space_shorter [of s] by (auto simp: expect_def split: list.splits if_splits)

lemma rest_of_value_shorter: "rest_of_value s = Some r \<Longrightarrow> length r < length s"
  and rest_of_items_shorter: "rest_of_items c s = Some r \<Longrightarrow> length r < length s"
proof (induction s and c s arbitrary: r and r rule: rest_of_value_rest_of_items.induct)
  case (1 s)
  show ?case
  proof (cases s)
    case (Cons c cs)
    show ?thesis
    proof (cases "c = CHR 0x22 \<or> \<not> (c = CHR ''{'' \<or> c = CHR ''['')")
      case True
      then show ?thesis using 1(2) Cons rest_of_string_shorter [of cs r]
          length_dropWhile_le [of "\<lambda>d. \<not> ends_scalar d" cs]
        by (auto simp: rest_of_value.simps less_Suc_eq_le split: if_splits)
    next
      case False
      then obtain d ds where sk: "skip_space cs = d # ds" and
        r: "r = ds \<or> rest_of_items c (d # ds) = Some r \<and> d \<noteq> closing c"
        using 1(2) Cons by (auto simp: rest_of_value.simps split: if_splits list.splits)
      have "length r < Suc (length ds)"
        using r 1(1) [OF Cons _ _ sk] False by (auto simp: less_Suc_eq)
      then show ?thesis using skip_space_shorter [of cs] sk Cons by simp
    qed
  qed (use 1 in \<open>simp add: rest_of_value.simps\<close>)
next
  case (2 c s)
  let ?entry = "\<lambda>r1. if \<not> length r1 < length s then None
        else if c = CHR ''{'' then Option.bind (expect (CHR '':'') r1) (\<lambda>r2.
          if length r2 < length s then rest_of_value (skip_space r2) else None)
        else Some r1"
  obtain r1 r3 where r1: "rest_of_value (skip_space s) = Some r1" and entry: "?entry r1 = Some r3"
    and after: "(case skip_space r3 of [] \<Rightarrow> None
     | separator # r4 \<Rightarrow>
         if separator = closing c then Some r4
         else if separator \<noteq> CHR '','' then None
         else if length r4 < length s then rest_of_items c r4 else None) = Some r"
    using 2(4) unfolding rest_of_items.simps [of c s] Option.bind_eq_Some_conv by blast
  have short: "length r1 < length s" using entry by (simp split: if_splits)
  obtain sep r4 where sep: "skip_space r3 = sep # r4"
    and end': "r = r4 \<or> rest_of_items c r4 = Some r \<and> length r4 < length s \<and>
      sep \<noteq> closing c \<and> sep = CHR '',''"
    using after by (cases "skip_space r3") (auto split: if_splits)
  have "length r3 < length s"
  proof (cases "c = CHR ''{''")
    case True
    then obtain r2 where r2: "expect (CHR '':'') r1 = Some r2" "length r2 < length s"
      "rest_of_value (skip_space r2) = Some r3"
      using entry short by (cases "expect (CHR '':'') r1") (simp_all split: if_splits)
    have "length r3 < length (skip_space r2)" using 2(2) [OF r1 _ True r2] short by simp
    then show ?thesis using r2(2) skip_space_shorter [of r2] by simp
  next
    case False
    then show ?thesis using entry short by simp
  qed
  moreover have "length r4 < length r3" using skip_space_shorter [of r3] sep by simp
  moreover have "length r < length r4" if "rest_of_items c r4 = Some r" "length r4 < length s"
      "sep \<noteq> closing c" "sep = CHR '',''"
    using 2(3) [OF r1 entry sep] that by simp
  ultimately show ?case using end' by auto
qed

lemma token_shorter: "token s = Some (a, r) \<Longrightarrow> length r < length s"
  using rest_of_value_shorter [of "skip_space s" r] skip_space_shorter [of s]
  by (auto simp: token_def Let_def)
function member_loop :: "json_lib \<Rightarrow> bytes \<Rightarrow> bytes \<Rightarrow> stream_error + bytes" where
  "member_loop lib wanted s =
     bindE (bounded_token s) (\<lambda>(name_text, r1).
     bindE (parse_name lib name_text) (\<lambda>name.
     bindE (expect_token (CHR '':'') r1) (\<lambda>r2.
     bindE (bounded_token r2) (\<lambda>(found, r3).
       if name = wanted then Inr found
       else case skip_space r3 of
          [] \<Rightarrow> protocol ''Invalid Claude token boundary''
        | separator # r4 \<Rightarrow>
            if separator = CHR ''}'' then Inr []
            else if separator \<noteq> CHR '','' then protocol ''Invalid Claude token boundary''
            else member_loop lib wanted r4))))"
  by pat_completeness auto
termination
proof (relation "measure (\<lambda>(_, _, s). length s)")
  fix lib :: json_lib and wanted s x name_text r1 name r2 y found r3 separator r4
  assume "bounded_token s = Inr x" "(name_text, r1) = x" "expect_token (CHR '':'') r1 = Inr r2"
    "bounded_token r2 = Inr y" "(found, r3) = y" "skip_space r3 = separator # r4"
  moreover have "length (skip_space r3) \<le> length r3" by (rule skip_space_shorter)
  ultimately have "length r4 < length s"
    by (auto simp: bounded_token_def expect_token_def split: option.splits
        dest!: token_shorter expect_shorter)
  then show "((lib, wanted, r4), lib, wanted, s) \<in> measure (\<lambda>(_, _, s). length s)" by simp
qed simp

declare member_loop.simps [simp del]

definition claude_member :: "json_lib \<Rightarrow> bytes \<Rightarrow> bytes \<Rightarrow> stream_error + bytes" where
  "claude_member lib source wanted =
     bindE (expect_token (CHR ''{'') source) (\<lambda>s.
       case skip_space s of
         [] \<Rightarrow> protocol ''Invalid Claude token boundary''
       | c # _ \<Rightarrow> if c = CHR ''}'' then Inr [] else member_loop lib wanted s)"

definition tool_input :: "json_lib \<Rightarrow> bytes \<Rightarrow> stream_error + json" where
  "tool_input lib source =
     bindE (demand (length source \<le> object_limit) ''Claude tool input exceeds limits'') (\<lambda>_.
     bindE (claude_parse lib source 16) (\<lambda>v.
     bindE (demand (is_object v) ''Claude tool input is not an object'') (\<lambda>_. Inr v)))"

section \<open>The decoder state\<close>

record claude_block =
  bk_type :: bytes
  bk_id :: bytes
  bk_name :: bytes
  bk_value :: bytes
  bk_input :: bytes
  bk_signature :: bytes
  bk_caller :: bytes
  bk_stopped :: bool
  bk_incomplete :: bool
  bk_initial_input_empty :: bool
  bk_input_delta :: bool
  bk_signature_phase :: bool

record 'k claude = "'k sse" +
  cl_blocks :: "claude_block list"
  cl_calls :: "bytes set"
  cl_usage :: json
  cl_result :: completion
  cl_reason :: bytes
  cl_started :: bool
  cl_delta :: bool
  cl_done :: bool
  cl_acknowledged :: bool

type_synonym 'k claude_step = "'k claude \<Rightarrow> ('k claude, 'k claude) outcome"

definition claude_new :: "'k \<Rightarrow> 'k claude" where
  "claude_new k = \<lparr>sse_sink = k, sse_line = [], sse_data = [], sse_event = [], sse_total = 0,
     sse_first = True, sse_skip = False, sse_has_data = False, sse_failed = False,
     cl_blocks = [], cl_calls = {}, cl_usage = JObj [], cl_result = empty_completion, cl_reason = [],
     cl_started = False, cl_delta = False, cl_done = False, cl_acknowledged = False\<rparr>"

definition block_of_type :: "bytes \<Rightarrow> claude_block" where
  "block_of_type ty = \<lparr>bk_type = ty, bk_id = [], bk_name = [], bk_value = [], bk_input = [],
     bk_signature = [], bk_caller = [], bk_stopped = False, bk_incomplete = False,
     bk_initial_input_empty = False, bk_input_delta = False, bk_signature_phase = False\<rparr>"

section \<open>Counters and positions\<close>

definition claude_counters :: "bytes list" where
  "claude_counters = [''input_tokens'', ''output_tokens'', ''cache_creation_input_tokens'',
     ''cache_read_input_tokens'']"

definition counter_ok :: "json \<Rightarrow> bytes \<Rightarrow> json \<Rightarrow> bool" where
  "counter_ok usage k number \<longleftrightarrow> is_integer number \<and> 0 \<le> int_of number \<and> int_of number \<le> counters_max \<and>
     (has_member usage k \<longrightarrow> int_of (at_key usage k) \<le> int_of number)"

definition counter_step :: "json \<Rightarrow> 'k claude \<Rightarrow> bytes \<Rightarrow> ('k claude, 'k claude) outcome" where
  "counter_step v s k =
     (if \<not> has_member v k then Inr s
      else reads s (demand (counter_ok (cl_usage s) k (at_key v k)) ''Invalid Claude cumulative usage'') (\<lambda>_.
        Inr (s\<lparr>cl_usage := JObj (put_member k (at_key v k) (members (cl_usage s)))\<rparr>)))"

definition counters :: "json_lib \<Rightarrow> 'k chat_sink \<Rightarrow> json \<Rightarrow> 'k claude_step" where
  "counters lib sink v s =
     reads s (demand (is_object v) ''Invalid Claude usage'') (\<lambda>_.
     bindE (foldE (counter_step v) s claude_counters) (\<lambda>t.
     reads t (dump_value lib (cl_usage t)) (\<lambda>dumped.
     sse_emit lib sink ''model.usage'' (cl_usage t)
       (t\<lparr>cl_result := (cl_result t)\<lparr>usage_json := dumped\<rparr>\<rparr>))))"

definition claude_position :: "json \<Rightarrow> stream_error + nat" where
  "claude_position v =
     (let i = int_of (at_key v ''index'') in
      bindE (demand (has_member v ''index'' \<and> is_integer (at_key v ''index'') \<and> 0 \<le> i \<and> i < 64)
        ''Invalid Claude block index'') (\<lambda>_. Inr (nat i)))"

definition active :: "'k claude \<Rightarrow> json \<Rightarrow> stream_error + nat" where
  "active s v = bindE (claude_position v) (\<lambda>i.
     bindE (demand (i < length (cl_blocks s) \<and> \<not> bk_stopped (cl_blocks s ! i))
       ''Claude block is not active'') (\<lambda>_. Inr i))"

definition claude_closed :: "'k claude \<Rightarrow> bool" where
  "claude_closed s \<longleftrightarrow> list_all bk_stopped (cl_blocks s)"

definition put_block :: "nat \<Rightarrow> claude_block \<Rightarrow> 'k claude \<Rightarrow> 'k claude" where
  "put_block i b s = s\<lparr>cl_blocks := (cl_blocks s)[i := b]\<rparr>"

section \<open>Events of a message\<close>

definition provider_error :: "json \<Rightarrow> stream_error + unit" where
  "provider_error v =
     bindE (must_have v ''error'') (\<lambda>detail.
     bindE (claude_text detail ''type'') (\<lambda>ty.
       if ty = ''overloaded_error'' then protocol ''Claude provider overloaded''
       else if ty = ''rate_limit_error'' then protocol ''Claude provider rate limited''
       else if ty = ''api_error'' then protocol ''Claude provider server error''
       else protocol ''Claude provider stream failed''))"

definition start_checks :: "bool \<Rightarrow> json \<Rightarrow> stream_error + unit" where
  "start_checks started message =
     (let bad = ''Invalid Claude message start'' in
      bindE (demand (\<not> started) bad) (\<lambda>_.
      bindE (value_or_null message ''type'') (\<lambda>ty. bindE (demand (ty = JStr ''message'') bad) (\<lambda>_.
      bindE (value_or_null message ''role'') (\<lambda>role. bindE (demand (role = JStr ''assistant'') bad) (\<lambda>_.
      bindE (must_have message ''content'') (\<lambda>body.
      bindE (demand (is_array body \<and> elements body = []) bad) (\<lambda>_.
      bindE (must_have message ''stop_reason'') (\<lambda>r. bindE (demand (is_null r) bad) (\<lambda>_.
      bindE (must_have message ''stop_sequence'') (\<lambda>q. demand (is_null q) bad)))))))))))"

definition message_start :: "json_lib \<Rightarrow> 'k chat_sink \<Rightarrow> json \<Rightarrow> 'k claude_step" where
  "message_start lib sink v s =
     reads s (must_have v ''message'') (\<lambda>message.
     reads s (start_checks (cl_started s) message) (\<lambda>_.
     reads s (claude_text message ''id'') (\<lambda>i. reads s (claude_identity i) (\<lambda>_.
     reads s (claude_text message ''model'') (\<lambda>m. reads s (claude_identity m) (\<lambda>_.
     reads s (must_have message ''usage'') (\<lambda>initial.
     reads s (demand (has_member initial ''input_tokens'' \<and> has_member initial ''output_tokens'')
       ''Claude initial usage is missing'') (\<lambda>_.
     bindE (counters lib sink initial s) (\<lambda>t. Inr (t\<lparr>cl_started := True\<rparr>))))))))))"

text \<open>The error for the first block still open at a stop that is not a truncation.\<close>

definition open_block_error :: "claude_block list \<Rightarrow> bytes" where
  "open_block_error bs =
     (case find (\<lambda>b. \<not> bk_stopped b) bs of
        None \<Rightarrow> ''Claude terminal update has active unknown block''
      | Some b \<Rightarrow>
          if bk_type b = ''text'' then ''Claude terminal update has active text block''
          else if bk_type b = ''tool_use'' then ''Claude terminal update has active tool block''
          else if bk_type b = ''thinking'' then ''Claude terminal update has active thinking block''
          else if bk_type b = ''redacted_thinking'' then ''Claude terminal update has active redacted block''
          else ''Claude terminal update has active unknown block'')"

definition cut_off :: "claude_block \<Rightarrow> claude_block" where
  "cut_off b = (if bk_stopped b then b else b\<lparr>bk_stopped := True, bk_incomplete := True\<rparr>)"

definition close_blocks :: "bytes \<Rightarrow> 'k claude_step" where
  "close_blocks stop s =
     (if claude_closed s then Inr s
      else if stop = ''max_tokens'' then Inr (s\<lparr>cl_blocks := map cut_off (cl_blocks s)\<rparr>)
      else Inl (Protocol (open_block_error (cl_blocks s)), s))"

definition plain_reason :: "bytes \<Rightarrow> bytes" where
  "plain_reason stop = (if stop = ''tool_use'' then ''tool_calls''
     else if stop = ''max_tokens'' then ''length'' else ''stop'')"

definition stops :: "bytes set" where
  "stops = {''end_turn'', ''stop_sequence'', ''tool_use'', ''max_tokens''}"

definition message_delta :: "json_lib \<Rightarrow> 'k chat_sink \<Rightarrow> json \<Rightarrow> 'k claude_step" where
  "message_delta lib sink v s =
     reads s (demand (\<not> cl_delta s) ''Claude terminal update repeated'') (\<lambda>_.
     reads s (must_have v ''delta'') (\<lambda>change.
     reads s (must_have v ''usage'') (\<lambda>reported.
     reads s (demand (is_object change \<and> has_member change ''stop_reason'' \<and>
         has_member reported ''output_tokens'') ''Claude message update is invalid'') (\<lambda>_.
     if is_null (at_key change ''stop_reason'') then counters lib sink reported s
     else reads s (claude_text change ''stop_reason'') (\<lambda>stop.
       reads s (demand (stop \<in> stops) ''Unsupported Claude stop reason'') (\<lambda>_.
       bindE (close_blocks stop s) (\<lambda>t.
       bindE (counters lib sink reported (t\<lparr>cl_reason := stop, cl_delta := True\<rparr>)) (\<lambda>u.
       sse_emit lib sink ''model.finish''
         (JObj [(''provider_reason'', JStr stop), (''reason'', JStr (plain_reason stop))])
         (u\<lparr>cl_result := (cl_result u)\<lparr>finish_reason := plain_reason stop\<rparr>\<rparr>)))))))))"

text \<open>\<open>message_stop\<close>: the text, the calls and the receipt of the turn, from the blocks in order.\<close>

definition tool_receipt :: "json_lib \<Rightarrow> claude_block \<Rightarrow> stream_error + bytes" where
  "tool_receipt lib b =
     bindE (dump_value lib (JStr (bk_id b))) (\<lambda>i.
     bindE (dump_value lib (JStr (bk_name b))) (\<lambda>n.
       let encoded = ''{\"type\":\"tool_use\",\"id\":'' @ i @ '',\"name\":'' @ n @ '',\"input\":'' @ bk_input b in
       bindE (if bk_caller b = [] then Inr encoded
         else claude_append encoded ('',\"caller\":'' @ bk_caller b) receipt_limit) (\<lambda>e.
       claude_append e ''}'' receipt_limit)))"

definition block_receipt :: "json_lib \<Rightarrow> claude_block \<Rightarrow> stream_error + bytes" where
  "block_receipt lib b =
     (if bk_type b = ''text'' then
        dump_value lib (JObj [(''text'', JStr (bk_value b)), (''type'', JStr ''text'')])
      else if bk_type b = ''tool_use'' then tool_receipt lib b
      else if bk_type b = ''thinking'' then
        dump_value lib (JObj [(''signature'', JStr (bk_signature b)), (''thinking'', JStr (bk_value b)),
          (''type'', JStr ''thinking'')])
      else if bk_type b = ''redacted_thinking'' then
        dump_value lib (JObj [(''data'', JStr (bk_value b)), (''type'', JStr ''redacted_thinking'')])
      else Inr [])"

definition add_text :: "bytes \<Rightarrow> 'k claude_step" where
  "add_text v s = reads s (claude_append (content (cl_result s)) v claude_limit) (\<lambda>all.
     Inr (s\<lparr>cl_result := (cl_result s)\<lparr>content := all\<rparr>\<rparr>))"

definition add_call :: "claude_block \<Rightarrow> 'k claude \<Rightarrow> 'k claude" where
  "add_call b s = (if cl_reason s = ''tool_use'' then
     s\<lparr>cl_result := (cl_result s)\<lparr>tool_calls := tool_calls (cl_result s) @
       [\<lparr>call_id = bk_id b, call_name = bk_name b, arguments_json = bk_input b\<rparr>]\<rparr>\<rparr> else s)"

fun stop_loop :: "json_lib \<Rightarrow> bytes \<Rightarrow> bool \<Rightarrow> 'k claude \<Rightarrow> claude_block list \<Rightarrow>
    ('k claude, bytes \<times> 'k claude) outcome" where
  "stop_loop lib body first s [] = Inr (body, s)"
| "stop_loop lib body first s (b # bs) =
     (if bk_incomplete b then
        bindE (if bk_type b = ''text'' then add_text (bk_value b) s else Inr s)
          (\<lambda>t. stop_loop lib body first t bs)
      else
        reads s (if first then Inr body else claude_append body '','' receipt_limit) (\<lambda>body1.
        bindE (if bk_type b = ''text'' then add_text (bk_value b) s
               else if bk_type b = ''tool_use'' then Inr (add_call b s) else Inr s) (\<lambda>t.
        reads t (block_receipt lib b) (\<lambda>encoded.
        reads t (claude_append body1 encoded receipt_limit) (\<lambda>body2.
          stop_loop lib body2 False t bs)))))"

definition save_receipt :: "json_lib \<Rightarrow> bytes \<Rightarrow> 'k claude_step" where
  "save_receipt lib body s =
     reads s (dump_value lib (JArr [JObj [(''content_json'', JStr body),
       (''finish_reason'', JStr (finish_reason (cl_result s))),
       (''provider_finish_reason'', JStr (cl_reason s)), (''type'', JStr ''anthropic_content'')]])) (\<lambda>items.
     let t = s\<lparr>cl_result := (cl_result s)\<lparr>provider_items_json := items\<rparr>\<rparr> in
     reads t (demand (length items \<le> receipt_limit) ''Claude receipt exceeds limits'') (\<lambda>_. Inr t))"

definition settle_turn :: "json_lib \<Rightarrow> bytes \<Rightarrow> 'k claude_step" where
  "settle_turn lib body s =
     reads s (claude_append body '']'' receipt_limit) (\<lambda>body'.
     reads s (demand (\<not> (cl_reason s = ''tool_use'' \<and> tool_calls (cl_result s) = []))
       ''Claude tool stop has no calls'') (\<lambda>_.
     reads s (demand (\<not> (cl_reason s \<noteq> ''tool_use'' \<and> cl_reason s \<noteq> ''max_tokens'' \<and> cl_calls s \<noteq> {}))
       ''Claude tool calls have incompatible stop reason'') (\<lambda>_.
     bindE (if cl_reason s \<noteq> ''max_tokens'' \<or> cl_calls s = {} then save_receipt lib body' s else Inr s) (\<lambda>t.
     Inr (t\<lparr>cl_done := True\<rparr>)))))"

definition message_stop :: "json_lib \<Rightarrow> 'k claude_step" where
  "message_stop lib s =
     reads s (demand (cl_delta s \<and> claude_closed s) ''Incomplete Claude message lifecycle'') (\<lambda>_.
     bindE (stop_loop lib ''['' True s (cl_blocks s)) (\<lambda>(body, t). settle_turn lib body t))"

section \<open>Events of a content block\<close>

definition start_text :: "json_lib \<Rightarrow> 'k chat_sink \<Rightarrow> json \<Rightarrow> 'k claude \<Rightarrow>
    ('k claude, claude_block \<times> 'k claude) outcome" where
  "start_text lib sink body s =
     reads s (claude_fields body [''type'', ''text'']) (\<lambda>_.
     reads s (claude_text body ''text'') (\<lambda>v.
     reads s (demand (length v \<le> claude_limit) ''Claude content exceeds limits'') (\<lambda>_.
     bindE (if v = [] then Inr s else sse_emit lib sink ''model.text'' (text_event v) s) (\<lambda>t.
     Inr ((block_of_type ''text'')\<lparr>bk_value := v\<rparr>, t)))))"

definition name_char :: "char \<Rightarrow> bool" where
  "name_char c \<longleftrightarrow> c \<in> set ''abcdefghijklmnopqrstuvwxyzABCDEFGHIJKLMNOPQRSTUVWXYZ0123456789_-''"

definition tool_caller :: "json_lib \<Rightarrow> bytes \<Rightarrow> json \<Rightarrow> stream_error + bytes" where
  "tool_caller lib raw_event body =
     (if \<not> has_member body ''caller'' then Inr []
      else let caller = at_key body ''caller'' in
        bindE (claude_fields caller [''type'']) (\<lambda>_.
        bindE (claude_text caller ''type'') (\<lambda>ty.
        bindE (demand (ty = ''direct'') ''Unsupported Claude tool caller'') (\<lambda>_.
        bindE (claude_member lib raw_event ''content_block'') (\<lambda>b. claude_member lib b ''caller'')))))"

definition tool_header :: "json_lib \<Rightarrow> bytes \<Rightarrow> bytes set \<Rightarrow> json \<Rightarrow> stream_error + bytes \<times> bytes \<times> bytes" where
  "tool_header lib raw_event known body =
     bindE (claude_fields body [''type'', ''id'', ''name'', ''input'', ''caller'']) (\<lambda>_.
     bindE (tool_caller lib raw_event body) (\<lambda>caller.
     bindE (claude_text body ''id'') (\<lambda>i. bindE (claude_identity i) (\<lambda>_.
     bindE (claude_text body ''name'') (\<lambda>n.
     bindE (demand (n \<noteq> [] \<and> length n \<le> 64 \<and> list_all name_char n \<and> i \<notin> known)
       ''Invalid Claude tool block'') (\<lambda>_. Inr (caller, i, n)))))))"

definition initial_input :: "json_lib \<Rightarrow> bytes \<Rightarrow> stream_error + bytes \<times> json" where
  "initial_input lib raw_event =
     bindE (claude_member lib raw_event ''content_block'') (\<lambda>b.
     bindE (claude_member lib b ''input'') (\<lambda>input.
     bindE (tool_input lib input) (\<lambda>v. Inr (input, v))))"

definition start_tool :: "json_lib \<Rightarrow> 'k chat_sink \<Rightarrow> json \<Rightarrow> 'k claude \<Rightarrow>
    ('k claude, claude_block \<times> 'k claude) outcome" where
  "start_tool lib sink body s =
     reads s (tool_header lib (sse_data s) (cl_calls s) body) (\<lambda>(caller, i, n).
     let t = s\<lparr>cl_calls := insert i (cl_calls s)\<rparr> in
     reads t (initial_input lib (sse_data t)) (\<lambda>(input, v).
     bindE (sse_emit lib sink ''model.tool_delta''
       (JObj [(''arguments'', JStr []), (''id'', JStr i), (''index'', JInt (int (length (cl_blocks t)))),
         (''name'', JStr n)]) t) (\<lambda>u.
     Inr ((block_of_type ''tool_use'')\<lparr>bk_id := i, bk_name := n, bk_caller := caller, bk_input := input,
       bk_initial_input_empty := (members v = [])\<rparr>, u))))"

definition start_thinking :: "json \<Rightarrow> stream_error + claude_block" where
  "start_thinking body =
     bindE (claude_fields body [''type'', ''thinking'', ''signature'']) (\<lambda>_.
     bindE (claude_text body ''thinking'') (\<lambda>v.
     bindE (demand (length v \<le> claude_limit) ''Claude thinking exceeds limits'') (\<lambda>_.
     let b = (block_of_type ''thinking'')\<lparr>bk_value := v\<rparr> in
     if \<not> has_member body ''signature'' then Inr b
     else bindE (claude_text body ''signature'') (\<lambda>sig.
       bindE (if sig = [] then Inr () else claude_opaque sig signature_limit) (\<lambda>_.
       Inr (b\<lparr>bk_signature := sig, bk_signature_phase := (sig \<noteq> [])\<rparr>))))))"

definition start_redacted :: "json \<Rightarrow> stream_error + claude_block" where
  "start_redacted body =
     bindE (claude_fields body [''type'', ''data'']) (\<lambda>_.
     bindE (claude_text body ''data'') (\<lambda>v.
     bindE (claude_opaque v claude_limit) (\<lambda>_.
     Inr ((block_of_type ''redacted_thinking'')\<lparr>bk_value := v\<rparr>))))"

definition block_start :: "json_lib \<Rightarrow> 'k chat_sink \<Rightarrow> json \<Rightarrow> 'k claude_step" where
  "block_start lib sink v s =
     reads s (claude_position v) (\<lambda>i.
     reads s (demand (i = length (cl_blocks s)) ''Claude block sequence is invalid'') (\<lambda>_.
     reads s (must_have v ''content_block'') (\<lambda>body.
     reads s (claude_text body ''type'') (\<lambda>ty.
     bindE (if ty = ''text'' then start_text lib sink body s
            else if ty = ''tool_use'' then start_tool lib sink body s
            else if ty = ''thinking'' then reads s (start_thinking body) (\<lambda>b. Inr (b, s))
            else if ty = ''redacted_thinking'' then reads s (start_redacted body) (\<lambda>b. Inr (b, s))
            else Inl (Protocol ''Unsupported Claude content block'', s)) (\<lambda>(b, t).
     Inr (t\<lparr>cl_blocks := cl_blocks t @ [b]\<rparr>))))))"

definition grow_text :: "json_lib \<Rightarrow> 'k chat_sink \<Rightarrow> nat \<Rightarrow> json \<Rightarrow> 'k claude_step" where
  "grow_text lib sink i change s =
     reads s (claude_fields change [''type'', ''text'']) (\<lambda>_.
     reads s (claude_text change ''text'') (\<lambda>added.
     reads s (claude_append (bk_value (cl_blocks s ! i)) added claude_limit) (\<lambda>all.
     sse_emit lib sink ''model.text'' (text_event added)
       (put_block i ((cl_blocks s ! i)\<lparr>bk_value := all\<rparr>) s))))"

definition grow_input :: "json_lib \<Rightarrow> 'k chat_sink \<Rightarrow> nat \<Rightarrow> json \<Rightarrow> 'k claude_step" where
  "grow_input lib sink i change s =
     (let b = cl_blocks s ! i in
      reads s (claude_fields change [''type'', ''partial_json'']) (\<lambda>_.
      reads s (demand (bk_initial_input_empty b) ''Claude tool input has conflicting initial content'') (\<lambda>_.
      reads s (claude_text change ''partial_json'') (\<lambda>added.
      let b1 = b\<lparr>bk_input_delta := True\<rparr>; t = put_block i b1 s in
      reads t (claude_append (bk_value b1) added object_limit) (\<lambda>all.
      sse_emit lib sink ''model.tool_delta''
        (JObj [(''arguments'', JStr added), (''id'', JStr (bk_id b)), (''index'', JInt (int i)),
          (''name'', JStr (bk_name b))])
        (put_block i (b1\<lparr>bk_value := all\<rparr>) t))))))"

definition grow_thinking :: "nat \<Rightarrow> json \<Rightarrow> 'k claude_step" where
  "grow_thinking i change s =
     (let b = cl_blocks s ! i in
      reads s (claude_fields change [''type'', ''thinking'']) (\<lambda>_.
      reads s (demand (\<not> bk_signature_phase b) ''Claude thinking follows signature'') (\<lambda>_.
      reads s (claude_text change ''thinking'') (\<lambda>added.
      reads s (claude_append (bk_value b) added claude_limit) (\<lambda>all.
      Inr (put_block i (b\<lparr>bk_value := all\<rparr>) s))))))"

definition grow_signature :: "nat \<Rightarrow> json \<Rightarrow> 'k claude_step" where
  "grow_signature i change s =
     reads s (claude_fields change [''type'', ''signature'']) (\<lambda>_.
     let b = (cl_blocks s ! i)\<lparr>bk_signature_phase := True\<rparr>; t = put_block i b s in
     reads t (claude_text change ''signature'') (\<lambda>added.
     reads t (demand (CHR 0x00 \<notin> set added) ''Invalid Claude signature delta'') (\<lambda>_.
     reads t (claude_append (bk_signature b) added signature_limit) (\<lambda>all.
     Inr (put_block i (b\<lparr>bk_signature := all\<rparr>) t)))))"

definition block_delta :: "json_lib \<Rightarrow> 'k chat_sink \<Rightarrow> json \<Rightarrow> 'k claude_step" where
  "block_delta lib sink v s =
     reads s (active s v) (\<lambda>i.
     reads s (must_have v ''delta'') (\<lambda>change.
     reads s (claude_text change ''type'') (\<lambda>how.
     let ty = bk_type (cl_blocks s ! i) in
     if ty = ''text'' \<and> how = ''text_delta'' then grow_text lib sink i change s
     else if ty = ''tool_use'' \<and> how = ''input_json_delta'' then grow_input lib sink i change s
     else if ty = ''thinking'' \<and> how = ''thinking_delta'' then grow_thinking i change s
     else if ty = ''thinking'' \<and> how = ''signature_delta'' then grow_signature i change s
     else Inl (Protocol ''Unsupported Claude block delta'', s))))"

text \<open>A received input replaces the initial one; it is moved out of the block's value.\<close>

definition settle_input :: "json_lib \<Rightarrow> claude_block \<Rightarrow> stream_error + claude_block" where
  "settle_input lib b =
     (if bk_type b = ''tool_use'' \<and> bk_input_delta b \<and> bk_value b \<noteq> []
      then bindE (tool_input lib (bk_value b)) (\<lambda>_. Inr (b\<lparr>bk_input := bk_value b, bk_value := []\<rparr>))
      else Inr b)"

definition block_stop :: "json_lib \<Rightarrow> json \<Rightarrow> 'k claude_step" where
  "block_stop lib v s =
     reads s (active s v) (\<lambda>i.
     reads s (settle_input lib (cl_blocks s ! i)) (\<lambda>b.
     let t = put_block i b s in
     reads t (if bk_type b = ''thinking'' then claude_opaque (bk_signature b) signature_limit else Inr ()) (\<lambda>_.
     Inr (put_block i (b\<lparr>bk_stopped := True\<rparr>) t))))"

section \<open>One event, and the stream\<close>

definition claude_event :: "json_lib \<Rightarrow> 'k chat_sink \<Rightarrow> bytes \<Rightarrow> json \<Rightarrow> 'k claude_step" where
  "claude_event lib sink ty v s =
     (if ty = ''error'' then reads s (provider_error v) (\<lambda>_. Inr s)
      else if ty = ''ping'' then Inr s
      else if ty = ''message_start'' then message_start lib sink v s
      else reads s (demand (cl_started s) ''Claude message has not started'') (\<lambda>_.
        if ty = ''message_delta'' then message_delta lib sink v s
        else if ty = ''message_stop'' then message_stop lib s
        else reads s (demand (\<not> cl_delta s) ''Claude content follows terminal update'') (\<lambda>_.
          if ty = ''content_block_start'' then block_start lib sink v s
          else if ty = ''content_block_delta'' then block_delta lib sink v s
          else if ty = ''content_block_stop'' then block_stop lib v s
          else Inl (Protocol ''Unsupported Claude stream event'', s))))"

definition claude_chunk :: "json_lib \<Rightarrow> 'k chat_sink \<Rightarrow> 'k claude_step" where
  "claude_chunk lib sink s =
     reads s (claude_parse lib (sse_data s) 64) (\<lambda>v.
     reads s (claude_text v ''type'') (\<lambda>ty.
     reads s (demand (sse_event s = ty) ''Claude SSE type differs from payload'') (\<lambda>_.
     reads s (demand (\<not> cl_done s) ''Claude data follows terminal event'') (\<lambda>_.
     claude_event lib sink ty v s))))"

definition claude_rules :: sse_rules where
  "claude_rules = \<lparr>grow = claude_append, data_bound = claude_limit,
     name_too_long = ''Claude SSE event name exceeds limits'',
     stream_invalid = ''Claude stream is invalid'', stream_exceeded = ''Claude stream exceeds limits'',
     json_invalid = ''Invalid Claude JSON event''\<rparr>"

definition claude_feed :: "json_lib \<Rightarrow> 'k chat_sink \<Rightarrow> 'k claude \<Rightarrow> bytes \<Rightarrow> ('k claude, 'k claude) outcome" where
  "claude_feed lib sink = sse_guarded claude_rules cl_acknowledged (claude_chunk lib sink)"

definition claude_finish :: "json_lib \<Rightarrow> 'k chat_sink \<Rightarrow> 'k claude \<Rightarrow>
    ('k claude, completion \<times> 'k claude) outcome" where
  "claude_finish lib sink s =
     (if sse_failed s \<or> \<not> cl_done s \<or> sse_line s \<noteq> [] \<or> sse_has_data s \<or> sse_event s \<noteq> []
      then Inl (Protocol ''Incomplete Claude stream'', s)
      else if cl_acknowledged s then Inr (cl_result s, s)
      else case sse_emit lib sink ''model.done'' (JObj []) s of
          Inl (e, t) \<Rightarrow> Inl (e, t\<lparr>sse_failed := True\<rparr>)
        | Inr t \<Rightarrow> Inr (cl_result t, t\<lparr>cl_acknowledged := True\<rparr>))"

section \<open>The invariant\<close>

definition is_tool :: "claude_block \<Rightarrow> bool" where
  "is_tool b \<longleftrightarrow> bk_type b = ''tool_use''"

definition identity_ok :: "bytes \<Rightarrow> bool" where
  "identity_ok i \<longleftrightarrow> i \<noteq> [] \<and> length i \<le> 256 \<and> CHR 0x00 \<notin> set i"

definition tool_ok :: "json_lib \<Rightarrow> claude_block \<Rightarrow> bool" where
  "tool_ok lib b \<longleftrightarrow> identity_ok (bk_id b) \<and> bk_name b \<noteq> [] \<and> length (bk_name b) \<le> 64 \<and>
     list_all name_char (bk_name b) \<and> (\<exists>v. tool_input lib (bk_input b) = Inr v)"

definition tool_ids :: "claude_block list \<Rightarrow> bytes list" where
  "tool_ids bs = map bk_id (filter is_tool bs)"

definition block_text :: "claude_block list \<Rightarrow> bytes" where
  "block_text bs = concat (map bk_value (filter (\<lambda>b. bk_type b = ''text'') bs))"

definition block_calls :: "claude_block list \<Rightarrow> tool_call list" where
  "block_calls bs = map (\<lambda>b. \<lparr>call_id = bk_id b, call_name = bk_name b, arguments_json = bk_input b\<rparr>)
     (filter (\<lambda>b. is_tool b \<and> \<not> bk_incomplete b) bs)"

definition blocks_ok :: "json_lib \<Rightarrow> 'k claude \<Rightarrow> bool" where
  "blocks_ok lib s \<longleftrightarrow> (\<forall>b \<in> set (cl_blocks s). is_tool b \<longrightarrow> tool_ok lib b) \<and>
     distinct (tool_ids (cl_blocks s)) \<and> set (tool_ids (cl_blocks s)) \<subseteq> cl_calls s \<and>
     length (cl_blocks s) \<le> 64"

definition turn_stopped :: "'k claude \<Rightarrow> bool" where
  "turn_stopped s \<longleftrightarrow> claude_closed s \<and> cl_reason s \<in> stops \<and>
     finish_reason (cl_result s) = plain_reason (cl_reason s)"

definition claude_open :: "json_lib \<Rightarrow> 'k claude \<Rightarrow> bool" where
  "claude_open lib s \<longleftrightarrow> blocks_ok lib s \<and> \<not> cl_done s \<and> content (cl_result s) = [] \<and>
     tool_calls (cl_result s) = [] \<and> (cl_delta s \<longrightarrow> turn_stopped s)"

definition claude_settled :: "json_lib \<Rightarrow> 'k claude \<Rightarrow> bool" where
  "claude_settled lib s \<longleftrightarrow> blocks_ok lib s \<and> cl_done s \<and> turn_stopped s \<and>
     content (cl_result s) = block_text (cl_blocks s) \<and> length (content (cl_result s)) \<le> claude_limit \<and>
     tool_calls (cl_result s) = (if cl_reason s = ''tool_use'' then block_calls (cl_blocks s) else []) \<and>
     (cl_reason s = ''tool_use'' \<longrightarrow> tool_calls (cl_result s) \<noteq> [])"

definition claude_inv :: "json_lib \<Rightarrow> 'k claude \<Rightarrow> bool" where
  "claude_inv lib s \<longleftrightarrow> claude_open lib s \<or> claude_settled lib s"

lemmas claude_facts = claude_open_def blocks_ok_def turn_stopped_def claude_closed_def

text \<open>Steps that leave the blocks and the answer alone.\<close>

lemma counter_step_Inr: "counter_step v s k = Inr t \<Longrightarrow> \<exists>u. t = s\<lparr>cl_usage := u\<rparr>"
  by (auto simp: counter_step_def reads_demand intro: exI [of _ "cl_usage s"] split: if_splits)

lemma counter_steps_Inr: "foldE (counter_step v) s ks = Inr t \<Longrightarrow> \<exists>u. t = s\<lparr>cl_usage := u\<rparr>"
proof (induction ks arbitrary: s)
  case (Cons k ks)
  then obtain u where "foldE (counter_step v) (s\<lparr>cl_usage := u\<rparr>) ks = Inr t"
    by (auto simp: stream_simps dest: counter_step_Inr)
  then show ?case using Cons.IH by fastforce
qed (auto intro: exI [of _ "cl_usage t"])

lemma counters_Inr:
  assumes "counters lib sink v s = Inr t"
  obtains u r told where "t = s\<lparr>cl_usage := u, cl_result := (cl_result s)\<lparr>usage_json := r\<rparr>, sse_sink := told\<rparr>"
  using assms by (auto simp: counters_def reads_demand stream_simps dest!: counter_steps_Inr sse_emit_Inr)

lemma counters_open: "counters lib sink v s = Inr t \<Longrightarrow> claude_open lib s \<Longrightarrow> claude_open lib t"
  by (elim counters_Inr) (simp add: claude_facts)

lemma emit_open: "sse_emit lib' sink k v s = Inr t \<Longrightarrow> claude_open lib s \<Longrightarrow> claude_open lib t"
  by (auto simp: claude_facts dest!: sse_emit_Inr)

lemma message_start_open: "message_start lib sink v s = Inr t \<Longrightarrow> claude_open lib s \<Longrightarrow> claude_open lib t"
proof -
  assume "message_start lib sink v s = Inr t" and s: "claude_open lib s"
  then obtain initial u where "counters lib sink initial s = Inr u" "t = u\<lparr>cl_started := True\<rparr>"
    unfolding message_start_def stream_simps by blast
  then show "claude_open lib t" using counters_open s by (fastforce simp: claude_facts)
qed

lemma tool_ids_map: "(\<And>b. bk_type (f b) = bk_type b) \<Longrightarrow> (\<And>b. bk_id (f b) = bk_id b) \<Longrightarrow>
    tool_ids (map f bs) = tool_ids bs"
  by (induction bs) (auto simp: tool_ids_def is_tool_def)

lemma cut_off_simps [simp]: "bk_type (cut_off b) = bk_type b" "bk_id (cut_off b) = bk_id b"
  "bk_name (cut_off b) = bk_name b" "bk_input (cut_off b) = bk_input b" "bk_stopped (cut_off b)"
  by (auto simp: cut_off_def)

lemma cut_off_ok [simp]: "is_tool (cut_off b) = is_tool b" "tool_ok lib (cut_off b) = tool_ok lib b"
  by (simp_all add: is_tool_def tool_ok_def)

lemma close_blocks_open:
  assumes "close_blocks stop s = Inr t" and "claude_open lib s"
  shows "claude_open lib t" and "claude_closed t" and "cl_delta t = cl_delta s"
  using assms tool_ids_map [of cut_off "cl_blocks s"]
  by (auto simp: close_blocks_def claude_facts list_all_iff split: if_splits)

lemma message_delta_open:
  assumes "message_delta lib sink v s = Inr t" and s: "claude_open lib s"
  shows "claude_open lib t"
proof -
  consider (report) reported where "counters lib sink reported s = Inr t"
    | (stop) reported stop u w where "stop \<in> stops" "\<not> cl_delta s" "close_blocks stop s = Inr u"
      "counters lib sink reported (u\<lparr>cl_reason := stop, cl_delta := True\<rparr>) = Inr w"
      "sse_emit lib sink ''model.finish''
         (JObj [(''provider_reason'', JStr stop), (''reason'', JStr (plain_reason stop))])
         (w\<lparr>cl_result := (cl_result w)\<lparr>finish_reason := plain_reason stop\<rparr>\<rparr>) = Inr t"
    using assms(1) unfolding message_delta_def stream_simps reads_demand demand_Inr
    by (auto simp: stream_simps split: if_splits)
  then show ?thesis
  proof cases
    case report
    then show ?thesis using s by (rule counters_open)
  next
    case stop
    have u: "claude_open lib u" "claude_closed u" using close_blocks_open [OF stop(3) s] by simp_all
    obtain x r told where w: "w = u\<lparr>cl_reason := stop, cl_delta := True, cl_usage := x,
        cl_result := (cl_result u)\<lparr>usage_json := r\<rparr>, sse_sink := told\<rparr>"
      by (rule counters_Inr [OF stop(4)], rule that, simp)
    have "claude_open lib (w\<lparr>cl_result := (cl_result w)\<lparr>finish_reason := plain_reason stop\<rparr>\<rparr>)"
      using u stop(1) by (simp add: w claude_facts)
    with stop(5) show ?thesis by (rule emit_open)
  qed
qed

lemma tool_ids_update: "i < length bs \<Longrightarrow> bk_type b = bk_type (bs ! i) \<Longrightarrow> bk_id b = bk_id (bs ! i) \<Longrightarrow>
    tool_ids (bs[i := b]) = tool_ids bs"
proof (induction bs arbitrary: i)
  case (Cons a bs)
  then show ?case by (cases i) (auto simp: tool_ids_def is_tool_def)
qed simp

text \<open>Replacing a block by one with the same identity, whose input is still an object.\<close>

definition same_block :: "json_lib \<Rightarrow> claude_block \<Rightarrow> claude_block \<Rightarrow> bool" where
  "same_block lib a b \<longleftrightarrow> bk_type b = bk_type a \<and> bk_id b = bk_id a \<and> bk_name b = bk_name a \<and>
     (bk_input b = bk_input a \<or> (\<exists>v. tool_input lib (bk_input b) = Inr v))"

lemma put_block_open:
  assumes "claude_open lib s" and "i < length (cl_blocks s)" and "same_block lib (cl_blocks s ! i) b"
    and "\<not> cl_delta s"
  shows "claude_open lib (put_block i b s)"
proof -
  have "is_tool b \<Longrightarrow> tool_ok lib b"
    using assms nth_mem [OF assms(2)] by (auto simp: claude_facts same_block_def is_tool_def tool_ok_def)
  then have "\<forall>c \<in> set ((cl_blocks s)[i := b]). is_tool c \<longrightarrow> tool_ok lib c"
    using assms(1) set_update_subset_insert [of "cl_blocks s" i b] by (auto simp: claude_facts)
  then show ?thesis using assms by (simp add: claude_facts put_block_def same_block_def tool_ids_update)
qed

lemma put_block_simps [simp]: "cl_delta (put_block i b s) = cl_delta s"
  "length (cl_blocks (put_block i b s)) = length (cl_blocks s)"
  "i < length (cl_blocks s) \<Longrightarrow> cl_blocks (put_block i b s) ! i = b"
  "put_block i b (put_block i c s) = put_block i b s"
  by (simp_all add: put_block_def)

lemma active_Inr: "active s v = Inr i \<Longrightarrow> i < length (cl_blocks s)"
  by (auto simp: active_def stream_simps)

definition edited :: "json_lib \<Rightarrow> nat \<Rightarrow> 'k claude \<Rightarrow> 'k claude \<Rightarrow> bool" where
  "edited lib i s t \<longleftrightarrow> (\<exists>b told. same_block lib (cl_blocks s ! i) b \<and> t = (put_block i b s)\<lparr>sse_sink := told\<rparr>)"

lemma edited_emit:
  "sse_emit lib' sink k v (put_block i b s) = Inr t \<Longrightarrow> same_block lib (cl_blocks s ! i) b \<Longrightarrow> edited lib i s t"
  by (auto simp: edited_def dest!: sse_emit_Inr)

lemma edited_put: "same_block lib (cl_blocks s ! i) b \<Longrightarrow> edited lib i s (put_block i b s)"
  by (auto simp: edited_def put_block_def intro!: exI [of _ b] exI [of _ "sse_sink s"])

lemma edited_open:
  assumes "edited lib i s t" and "i < length (cl_blocks s)" and "claude_open lib s" and "\<not> cl_delta s"
  shows "claude_open lib t"
proof -
  obtain b told where b: "same_block lib (cl_blocks s ! i) b" and t: "t = (put_block i b s)\<lparr>sse_sink := told\<rparr>"
    using assms(1) by (auto simp: edited_def)
  show ?thesis using put_block_open [OF assms(3,2) b assms(4)] by (simp add: t claude_facts)
qed

lemma grow_edits:
  "grow_text lib' sink i change s = Inr t \<Longrightarrow> i < length (cl_blocks s) \<Longrightarrow> edited lib i s t"
  "grow_input lib' sink i change s = Inr t \<Longrightarrow> i < length (cl_blocks s) \<Longrightarrow> edited lib i s t"
  "grow_thinking i change s = Inr t \<Longrightarrow> i < length (cl_blocks s) \<Longrightarrow> edited lib i s t"
  "grow_signature i change s = Inr t \<Longrightarrow> i < length (cl_blocks s) \<Longrightarrow> edited lib i s t"
  unfolding grow_text_def grow_input_def grow_thinking_def grow_signature_def Let_def stream_simps
  by (auto elim!: edited_emit simp: same_block_def intro!: edited_put)

lemma block_delta_open:
  assumes "block_delta lib' sink v s = Inr t" and s: "claude_open lib s" "\<not> cl_delta s"
  shows "claude_open lib t"
proof -
  obtain i change where i: "i < length (cl_blocks s)"
    and step: "grow_text lib' sink i change s = Inr t \<or> grow_input lib' sink i change s = Inr t \<or>
      grow_thinking i change s = Inr t \<or> grow_signature i change s = Inr t"
    using assms(1) by (auto simp: block_delta_def stream_simps Let_def dest!: active_Inr split: if_splits)
  have "edited lib i s t" using step by (elim disjE) (erule grow_edits, rule i)+
  then show ?thesis using i s by (rule edited_open)
qed

lemma settle_input_same: "settle_input lib a = Inr b \<Longrightarrow> same_block lib a b"
  by (auto simp: settle_input_def stream_simps same_block_def split: if_splits)

lemma block_stop_open:
  assumes "block_stop lib v s = Inr t" and s: "claude_open lib s" "\<not> cl_delta s"
  shows "claude_open lib t"
proof -
  obtain i b where i: "i < length (cl_blocks s)" and b: "settle_input lib (cl_blocks s ! i) = Inr b"
    and t: "t = put_block i (b\<lparr>bk_stopped := True\<rparr>) s"
    using assms(1) by (auto simp: block_stop_def stream_simps Let_def dest!: active_Inr)
  have "same_block lib (cl_blocks s ! i) (b\<lparr>bk_stopped := True\<rparr>)"
    using settle_input_same [OF b] by (simp add: same_block_def)
  then show ?thesis using put_block_open [OF s(1) i _ s(2)] t by blast
qed

text \<open>A block added: its identity is new among the calls.\<close>

definition fresh_block :: "json_lib \<Rightarrow> 'k claude \<Rightarrow> claude_block \<Rightarrow> 'k claude \<Rightarrow> bool" where
  "fresh_block lib s b t \<longleftrightarrow> (\<exists>told new. t = s\<lparr>sse_sink := told, cl_calls := new\<rparr> \<and>
     (if is_tool b then tool_ok lib b \<and> bk_id b \<notin> cl_calls s \<and> new = insert (bk_id b) (cl_calls s)
      else new = cl_calls s))"

lemma fresh_plain: "bk_type b \<noteq> ''tool_use'' \<Longrightarrow> fresh_block lib s b s"
  by (auto simp: fresh_block_def is_tool_def intro!: exI [of _ "sse_sink s"])

lemma fresh_told: "bk_type b \<noteq> ''tool_use'' \<Longrightarrow> fresh_block lib s b (s\<lparr>sse_sink := k'\<rparr>)"
  by (auto simp: fresh_block_def is_tool_def)

lemma start_text_fresh:
  assumes "start_text lib' sink body s = Inr (b, t)"
  shows "fresh_block lib s b t"
proof -
  obtain v where b: "b = (block_of_type ''text'')\<lparr>bk_value := v\<rparr>"
    and t: "t = s \<or> sse_emit lib' sink ''model.text'' (text_event v) s = Inr t"
    using assms unfolding start_text_def stream_simps by (auto split: if_splits)
  have "bk_type b \<noteq> ''tool_use''" by (simp add: b block_of_type_def)
  then show ?thesis using t fresh_plain fresh_told by (auto dest!: sse_emit_Inr)
qed

lemma start_tool_fresh:
  assumes "start_tool lib sink body s = Inr (b, t)"
  shows "fresh_block lib s b t"
proof -
  obtain caller i n input v where header: "tool_header lib (sse_data s) (cl_calls s) body = Inr (caller, i, n)"
    and input: "initial_input lib (sse_data s) = Inr (input, v)"
    and emit: "sse_emit lib sink ''model.tool_delta''
       (JObj [(''arguments'', JStr []), (''id'', JStr i), (''index'', JInt (int (length (cl_blocks s)))),
         (''name'', JStr n)]) (s\<lparr>cl_calls := insert i (cl_calls s)\<rparr>) = Inr t"
    and b: "b = (block_of_type ''tool_use'')\<lparr>bk_id := i, bk_name := n, bk_caller := caller, bk_input := input,
       bk_initial_input_empty := (members v = [])\<rparr>"
    using assms by (auto simp: start_tool_def stream_simps Let_def split: prod.splits)
  have i: "identity_ok i" "i \<notin> cl_calls s" and n: "n \<noteq> []" "length n \<le> 64" "list_all name_char n"
    using header by (auto simp: tool_header_def stream_simps claude_identity_def identity_ok_def)
  have v: "tool_input lib input = Inr v" using input by (auto simp: initial_input_def stream_simps)
  obtain told where t: "t = s\<lparr>cl_calls := insert i (cl_calls s), sse_sink := told\<rparr>"
    using sse_emit_Inr [OF emit] by blast
  have facts: "is_tool b" "tool_ok lib b" "bk_id b = i"
    using i n v by (auto simp: b block_of_type_def is_tool_def tool_ok_def)
  show ?thesis unfolding fresh_block_def t using facts i
    by (intro exI [of _ told] exI [of _ "insert i (cl_calls s)"]) simp
qed

lemma start_thinking_type: "start_thinking body = Inr b \<Longrightarrow> bk_type b = ''thinking''"
  by (auto simp: start_thinking_def stream_simps Let_def block_of_type_def split: if_splits)

lemma start_redacted_type: "start_redacted body = Inr b \<Longrightarrow> bk_type b = ''redacted_thinking''"
  by (auto simp: start_redacted_def stream_simps block_of_type_def)

lemma block_start_open:
  assumes "block_start lib sink v s = Inr t" and s: "claude_open lib s" "\<not> cl_delta s"
  shows "claude_open lib t"
proof -
  obtain i body ty b u where few: "length (cl_blocks s) < 64" and t: "t = u\<lparr>cl_blocks := cl_blocks u @ [b]\<rparr>"
    and start: "(if ty = ''text'' then start_text lib sink body s
            else if ty = ''tool_use'' then start_tool lib sink body s
            else if ty = ''thinking'' then reads s (start_thinking body) (\<lambda>b. Inr (b, s))
            else if ty = ''redacted_thinking'' then reads s (start_redacted body) (\<lambda>b. Inr (b, s))
            else Inl (Protocol ''Unsupported Claude content block'', s)) = Inr (b, u)"
    using assms(1) unfolding block_start_def stream_simps claude_position_def Let_def demand_Inr
    by (elim exE conjE) (auto simp del: if_split_asm)
  consider "start_text lib sink body s = Inr (b, u)" | "start_tool lib sink body s = Inr (b, u)"
    | "start_thinking body = Inr b" "u = s" | "start_redacted body = Inr b" "u = s"
    using start by (auto simp: stream_simps split: if_splits)
  then have "fresh_block lib s b u"
    by cases (auto dest: start_text_fresh start_tool_fresh
        dest!: start_thinking_type start_redacted_type intro!: fresh_plain)
  then obtain told new where u: "u = s\<lparr>sse_sink := told, cl_calls := new\<rparr>"
    and new: "if is_tool b then tool_ok lib b \<and> bk_id b \<notin> cl_calls s \<and> new = insert (bk_id b) (cl_calls s)
      else new = cl_calls s"
    by (auto simp: fresh_block_def)
  show ?thesis using s few new by (auto simp: t u claude_facts tool_ids_def split: if_splits)
qed

lemma add_text_Inr: "add_text v s = Inr t \<Longrightarrow>
    t = s\<lparr>cl_result := (cl_result s)\<lparr>content := content (cl_result s) @ v\<rparr>\<rparr> \<and>
    length (content (cl_result t)) \<le> claude_limit"
  by (auto simp: add_text_def stream_simps claude_append_def protocol_def split: if_splits)

definition answered :: "claude_block list \<Rightarrow> 'k claude \<Rightarrow> 'k claude" where
  "answered bs s = s\<lparr>cl_result := (cl_result s)\<lparr>content := content (cl_result s) @ block_text bs,
     tool_calls := tool_calls (cl_result s) @ (if cl_reason s = ''tool_use'' then block_calls bs else [])\<rparr>\<rparr>"

lemma answered_Cons:
  "answered (b # bs) s = answered bs (answered [b] s)"
  by (simp add: answered_def block_text_def block_calls_def)

lemma answered_text: "bk_type b = ''text'' \<Longrightarrow> add_text (bk_value b) s = Inr t \<Longrightarrow> t = answered [b] s"
  by (auto simp: answered_def block_text_def block_calls_def is_tool_def dest!: add_text_Inr)

lemma answered_call: "bk_type b = ''tool_use'' \<Longrightarrow> \<not> bk_incomplete b \<Longrightarrow> add_call b s = answered [b] s"
  by (simp add: answered_def block_text_def block_calls_def is_tool_def add_call_def)

lemma answered_other: "bk_type b \<noteq> ''text'' \<Longrightarrow> bk_type b \<noteq> ''tool_use'' \<or> bk_incomplete b \<Longrightarrow> answered [b] s = s"
  by (auto simp: answered_def block_text_def block_calls_def is_tool_def)

lemma add_call_content [simp]: "content (cl_result (add_call b s)) = content (cl_result s)"
  by (simp add: add_call_def)

lemma stop_loop_Inr:
  "stop_loop lib body first s bs = Inr (body', t) \<Longrightarrow> length (content (cl_result s)) \<le> claude_limit \<Longrightarrow>
   t = answered bs s \<and> length (content (cl_result t)) \<le> claude_limit"
proof (induction bs arbitrary: body first s)
  case Nil
  then show ?case by (simp add: answered_def block_text_def block_calls_def)
next
  case (Cons b bs)
  obtain u body1 first1 where u: "(if bk_type b = ''text'' then add_text (bk_value b) s
      else if bk_type b = ''tool_use'' \<and> \<not> bk_incomplete b then Inr (add_call b s) else Inr s) = Inr u"
    and tail: "stop_loop lib body1 first1 u bs = Inr (body', t)"
    using Cons.prems(1) by (auto simp: stream_simps split: if_splits)
  have u': "u = answered [b] s"
  proof (cases "bk_type b = ''text''")
    case True
    then show ?thesis using u by (intro answered_text) simp_all
  next
    case False
    then show ?thesis using u answered_call [of b s] answered_other [of b s] by (simp split: if_split_asm)
  qed
  have "length (content (cl_result u)) \<le> claude_limit"
  proof (cases "bk_type b = ''text''")
    case True
    then have "add_text (bk_value b) s = Inr u" using u by simp
    then show ?thesis using add_text_Inr by blast
  next
    case False
    then show ?thesis using u Cons.prems(2) add_call_content [of b s] by (auto split: if_split_asm)
  qed
  from Cons.IH [OF tail this] show ?case unfolding answered_Cons [of b bs s] u' .
qed

lemma save_receipt_Inr:
  "save_receipt lib body s = Inr t \<Longrightarrow> \<exists>items. t = s\<lparr>cl_result := (cl_result s)\<lparr>provider_items_json := items\<rparr>\<rparr>"
  by (auto simp: save_receipt_def stream_simps Let_def)

lemma settle_turn_Inr:
  assumes "settle_turn lib body u = Inr t"
  shows "\<not> (cl_reason u = ''tool_use'' \<and> tool_calls (cl_result u) = [])"
    and "t = u\<lparr>cl_done := True\<rparr> \<or>
      (\<exists>items. t = u\<lparr>cl_result := (cl_result u)\<lparr>provider_items_json := items\<rparr>, cl_done := True\<rparr>)"
  using assms unfolding settle_turn_def reads_demand stream_simps
  by (auto split: if_splits dest!: save_receipt_Inr)

lemma message_stop_settles:
  assumes "message_stop lib s = Inr t" and s: "claude_open lib' s"
  shows "claude_settled lib' t"
proof -
  obtain body u where delta: "cl_delta s" and u: "stop_loop lib ''['' True s (cl_blocks s) = Inr (body, u)"
    and turn: "settle_turn lib body u = Inr t"
    using assms(1) by (auto simp: message_stop_def stream_simps)
  have "length (content (cl_result s)) \<le> claude_limit" using s by (simp add: claude_open_def)
  then have "u = answered (cl_blocks s) s" "length (content (cl_result u)) \<le> claude_limit"
    using stop_loop_Inr [OF u] by blast+
  then show ?thesis using settle_turn_Inr [OF turn] s delta
    by (auto simp: claude_settled_def claude_facts answered_def)
qed

lemma claude_event_keeps:
  assumes "claude_event lib sink ty v s = Inr t" and s: "claude_open lib s"
  shows "claude_inv lib t"
proof -
  have "provider_error v \<noteq> Inr ()"
    by (auto simp: provider_error_def protocol_def stream_simps split: if_splits)
  then have "t = s \<or> message_start lib sink v s = Inr t \<or> message_delta lib sink v s = Inr t \<or>
      message_stop lib s = Inr t \<or> \<not> cl_delta s \<and> (block_start lib sink v s = Inr t \<or>
        block_delta lib sink v s = Inr t \<or> block_stop lib v s = Inr t)"
    using assms(1) unfolding claude_event_def
    by (simp add: reads_demand stream_simps split: if_split_asm)
  then show ?thesis unfolding claude_inv_def
    using s message_start_open [OF _ s] message_delta_open [OF _ s] message_stop_settles [OF _ s]
      block_start_open [OF _ s] block_delta_open [OF _ s] block_stop_open [OF _ s] by metis
qed

lemma claude_chunk_keeps: "claude_inv lib s \<Longrightarrow> claude_chunk lib sink s = Inr t \<Longrightarrow> claude_inv lib t"
  by (auto simp: claude_chunk_def stream_simps claude_inv_def [of lib s] claude_settled_def
      dest: claude_event_keeps)

lemma claude_members:
  assumes "sse.more s = sse.more (t :: 'k claude)"
  shows "cl_blocks s = cl_blocks t" "cl_calls s = cl_calls t" "cl_result s = cl_result t"
    "cl_reason s = cl_reason t" "cl_delta s = cl_delta t" "cl_done s = cl_done t"
  using assms by (cases s; cases t; simp)+

lemma claude_own_members:
  assumes "sse.more s = sse.more t" and "claude_inv lib s"
  shows "claude_inv lib (t :: 'k claude)"
  using assms(2) unfolding claude_inv_def claude_facts claude_settled_def
  by (simp only: claude_members [OF assms(1)])

interpretation claude_sse: sse_decoder "claude_chunk lib sink" "claude_inv lib" for lib sink
  by unfold_locales (erule claude_own_members, assumption, erule claude_chunk_keeps, assumption)

lemma claude_new_inv: "claude_inv lib (claude_new k)"
  by (simp add: claude_inv_def claude_facts claude_new_def empty_completion_def tool_ids_def)

lemma claude_feeds_inv: "foldE (claude_feed lib sink) (claude_new k) pieces = Inr s \<Longrightarrow> claude_inv lib s"
  unfolding claude_feed_def by (rule claude_sse.feeds_keep) (auto intro: claude_new_inv)

lemma claude_finish_settled:
  "claude_finish lib sink s = Inr (c, t) \<Longrightarrow> claude_inv lib' s \<Longrightarrow> c = cl_result s \<and> claude_settled lib' s"
  by (auto simp: claude_finish_def claude_inv_def claude_open_def dest!: sse_emit_Inr
      split: if_splits sum.splits)

section \<open>The property\<close>

lemma block_calls_ids: "map call_id (block_calls bs) = map bk_id (filter (\<lambda>b. is_tool b \<and> \<not> bk_incomplete b) bs)"
  by (simp add: block_calls_def)

lemma block_calls_distinct: "distinct (tool_ids bs) \<Longrightarrow> distinct (map call_id (block_calls bs))"
proof -
  have "filter (\<lambda>b. is_tool b \<and> \<not> bk_incomplete b) bs = filter (\<lambda>b. \<not> bk_incomplete b) (filter is_tool bs)"
    by (simp add: conj_commute)
  then show "distinct (tool_ids bs) \<Longrightarrow> distinct (map call_id (block_calls bs))"
    unfolding block_calls_ids tool_ids_def by (simp only: distinct_map_filter)
qed

lemma block_calls_length: "length (block_calls bs) \<le> length bs"
  by (simp add: block_calls_def)

lemma plain_reason_range: "r \<in> stops \<Longrightarrow> plain_reason r \<in> {''stop'', ''tool_calls'', ''length''} \<and>
    (plain_reason r = ''tool_calls'' \<longleftrightarrow> r = ''tool_use'')"
  by (auto simp: plain_reason_def stops_def)

definition sound_call :: "json_lib \<Rightarrow> tool_call \<Rightarrow> bool" where
  "sound_call lib c \<longleftrightarrow> call_id c \<noteq> [] \<and> length (call_id c) \<le> 256 \<and> CHR 0x00 \<notin> set (call_id c) \<and>
     call_name c \<noteq> [] \<and> length (call_name c) \<le> 64 \<and> list_all name_char (call_name c) \<and>
     length (arguments_json c) \<le> object_limit \<and>
     (\<exists>v. claude_parse lib (arguments_json c) 16 = Inr v \<and> is_object v)"

lemma block_calls_sound:
  "\<forall>b \<in> set bs. is_tool b \<longrightarrow> tool_ok lib b \<Longrightarrow> c \<in> set (block_calls bs) \<Longrightarrow> sound_call lib c"
  by (auto simp: block_calls_def tool_ok_def identity_ok_def sound_call_def tool_input_def stream_simps)

text \<open>
  C39. A Claude turn is only returned when it is complete, and is then exactly what its blocks hold:
  the text is the text of the text blocks in order; tool calls are returned exactly for the reason
  \<open>tool_calls\<close>, one per tool block that was not cut off, with distinct bounded identities, legal
  names and arguments that parse to an object; a turn cut off by the token limit returns no call.
\<close>
theorem claude_turn_is_its_blocks:
  assumes "foldE (claude_feed lib sink) (claude_new k) pieces = Inr s"
    and "claude_finish lib sink s = Inr (c, t)"
  shows "content c = concat (map bk_value (filter (\<lambda>b. bk_type b = ''text'') (cl_blocks s))) \<and>
    length (content c) \<le> claude_limit \<and> (\<forall>b \<in> set (cl_blocks s). bk_stopped b) \<and>
    finish_reason c \<in> {''stop'', ''tool_calls'', ''length''} \<and>
    (tool_calls c \<noteq> [] \<longleftrightarrow> finish_reason c = ''tool_calls'') \<and>
    (finish_reason c = ''tool_calls'' \<longrightarrow> tool_calls c = block_calls (cl_blocks s)) \<and>
    distinct (map call_id (tool_calls c)) \<and> length (tool_calls c) \<le> 64 \<and>
    (\<forall>call \<in> set (tool_calls c). sound_call lib call)"
proof -
  have c: "c = cl_result s" and settled: "claude_settled lib s"
    using claude_finish_settled [OF assms(2) claude_feeds_inv [OF assms(1)]] by auto
  have blocks: "\<forall>b \<in> set (cl_blocks s). is_tool b \<longrightarrow> tool_ok lib b" "distinct (tool_ids (cl_blocks s))"
    "length (cl_blocks s) \<le> 64" and stopped: "\<forall>b \<in> set (cl_blocks s). bk_stopped b"
    and reason: "cl_reason s \<in> stops" "finish_reason c = plain_reason (cl_reason s)"
    and said: "content c = block_text (cl_blocks s)" "length (content c) \<le> claude_limit"
    and calls: "tool_calls c = (if cl_reason s = ''tool_use'' then block_calls (cl_blocks s) else [])"
    "cl_reason s = ''tool_use'' \<longrightarrow> tool_calls c \<noteq> []"
    using settled by (auto simp: claude_settled_def claude_facts list_all_iff c)
  have "length (tool_calls c) \<le> 64" using calls(1) blocks(3) block_calls_length [of "cl_blocks s"] by auto
  then show ?thesis
    using blocks stopped reason plain_reason_range [OF reason(1)] said calls
      block_calls_distinct block_calls_sound [OF blocks(1)]
    by (auto simp: block_text_def split: if_splits)
qed

section \<open>A sample turn\<close>

definition claude_tool_text :: bytes where
  "claude_tool_text = ''{\"content_block\":{\"input\":{}}}''"

definition claude_docs :: "bytes \<Rightarrow> json option" where
  "claude_docs = map_of [
     (''a'', JObj [(''message'', JObj [(''content'', JArr []), (''id'', JStr ''m''), (''model'', JStr ''c''),
        (''role'', JStr ''assistant''), (''stop_reason'', JNull), (''stop_sequence'', JNull),
        (''type'', JStr ''message''),
        (''usage'', JObj [(''input_tokens'', JInt 1), (''output_tokens'', JInt 1)])]),
       (''type'', JStr ''message_start'')]),
     (claude_tool_text, JObj [(''content_block'', JObj [(''id'', JStr ''t''), (''input'', JObj []),
        (''name'', JStr ''f''), (''type'', JStr ''tool_use'')]), (''index'', JInt 0),
       (''type'', JStr ''content_block_start'')]),
     (''c'', JObj [(''index'', JInt 0), (''type'', JStr ''content_block_stop'')]),
     (''d'', JObj [(''delta'', JObj [(''stop_reason'', JStr ''tool_use'')]), (''type'', JStr ''message_delta''),
       (''usage'', JObj [(''output_tokens'', JInt 2)])]),
     (''e'', JObj [(''type'', JStr ''message_stop'')]),
     (''{}'', JObj []), (''\"content_block\"'', JStr ''content_block''), (''\"input\"'', JStr ''input'')]"

definition claude_lib :: json_lib where
  "claude_lib = \<lparr>sax = (\<lambda>bs. ([], claude_docs bs)), dump = (\<lambda>_. Some []), same = (=)\<rparr>"

lemma claude_lib_simps [simp]: "sax claude_lib bs = ([], claude_docs bs)" "dump claude_lib v = Some []"
  by (simp_all add: claude_lib_def)

lemma claude_tool_slices:
  "claude_member claude_lib claude_tool_text ''content_block'' = Inr ''{\"input\":{}}''"
  "claude_member claude_lib ''{\"input\":{}}'' ''input'' = Inr ''{}''"
  by code_simp+

lemma claude_rules_append [simp]: "appends claude_rules"
  by (auto simp: appends_def claude_rules_def claude_append_def)

abbreviation accept_all :: "unit \<Rightarrow> model_event \<Rightarrow> unit \<times> bool" where
  "accept_all \<equiv> \<lambda>_ _. ((), True)"

definition claude_after :: "nat \<Rightarrow> unit claude" where
  "claude_after n = (let block = (block_of_type ''tool_use'')\<lparr>bk_id := ''t'', bk_name := ''f'', bk_input := ''{}'',
       bk_initial_input_empty := True, bk_stopped := (n \<ge> 3)\<rparr> in
     (claude_new ())\<lparr>sse_first := (n = 0),
       sse_total := [0, 28, 91, 124, 152, 179] ! n,
       cl_started := (n \<ge> 1), cl_delta := (n \<ge> 4), cl_done := (n \<ge> 5),
       cl_usage := (if n = 0 then JObj [] else if n < 4 then JObj [(''input_tokens'', JInt 1), (''output_tokens'', JInt 1)]
         else JObj [(''input_tokens'', JInt 1), (''output_tokens'', JInt 2)]),
       cl_calls := (if n \<ge> 2 then {''t''} else {}),
       cl_blocks := (if n \<ge> 2 then [block] else []),
       cl_reason := (if n \<ge> 4 then ''tool_use'' else []),
       cl_result := empty_completion\<lparr>usage_json := (if n = 0 then ''null'' else []),
         finish_reason := (if n \<ge> 4 then ''tool_calls'' else []),
         tool_calls := (if n \<ge> 5 then [\<lparr>call_id = ''t'', call_name = ''f'', arguments_json = ''{}''\<rparr>] else []),
         provider_items_json := (if n \<ge> 5 then [] else ''[]'')\<rparr>\<rparr>)"

lemmas claude_evaluation = claude_chunk_def claude_parse_def parse_within_def claude_event_def reads_def
  claude_text_def demand_def guardE_def has_member_def member_def at_key_def must_have_def value_or_null_def
  claude_identity_def claude_fields_def sse_emit_def dump_value_def Let_def claude_new_def block_of_type_def

lemma claude_docs_simps [simp]:
  "claude_docs ''a'' = Some (JObj [(''message'', JObj [(''content'', JArr []), (''id'', JStr ''m''), (''model'', JStr ''c''),
        (''role'', JStr ''assistant''), (''stop_reason'', JNull), (''stop_sequence'', JNull),
        (''type'', JStr ''message''),
        (''usage'', JObj [(''input_tokens'', JInt 1), (''output_tokens'', JInt 1)])]),
       (''type'', JStr ''message_start'')])"
  "claude_docs claude_tool_text = Some (JObj [(''content_block'', JObj [(''id'', JStr ''t''), (''input'', JObj []),
        (''name'', JStr ''f''), (''type'', JStr ''tool_use'')]), (''index'', JInt 0),
       (''type'', JStr ''content_block_start'')])"
  "claude_docs ''c'' = Some (JObj [(''index'', JInt 0), (''type'', JStr ''content_block_stop'')])"
  "claude_docs ''d'' = Some (JObj [(''delta'', JObj [(''stop_reason'', JStr ''tool_use'')]), (''type'', JStr ''message_delta''),
       (''usage'', JObj [(''output_tokens'', JInt 2)])])"
  "claude_docs ''e'' = Some (JObj [(''type'', JStr ''message_stop'')])"
  "claude_docs ''{}'' = Some (JObj [])"
  by (simp_all add: claude_docs_def claude_tool_text_def)

definition framed :: "bytes \<Rightarrow> bytes \<Rightarrow> ('k, 'm) sse_scheme \<Rightarrow> ('k, 'm) sse_scheme" where
  "framed name d s = s\<lparr>sse_total := sse_total s + length (event_text name d), sse_first := False,
     sse_event := name, sse_data := d, sse_has_data := True\<rparr>"

lemmas claude_steps = message_start_def start_checks_def counters_def counter_step_def claude_counters_def
  counter_ok_def counters_max_def empty_completion_def block_start_def claude_position_def start_tool_def
  tool_header_def tool_caller_def initial_input_def name_char_def tool_input_def object_limit_def block_stop_def
  active_def settle_input_def put_block_def message_delta_def close_blocks_def claude_closed_def stops_def
  plain_reason_def message_stop_def settle_turn_def save_receipt_def add_call_def block_receipt_def
  tool_receipt_def claude_append_def receipt_limit_def

lemma claude_handled:
  assumes "claude_chunk claude_lib accept_all (framed name d (claude_after n)) = Inr t"
    and "plain_line name" "unspaced name" "length name \<le> 256" "plain_line d" "unspaced d" "length d < 100"
    and "sse_total (claude_after n) + length (event_text name d) < 1000" and "n < 6"
    and "t\<lparr>sse_data := [], sse_has_data := False, sse_event := [], sse_line := []\<rparr> = claude_after (Suc n)"
  shows "claude_feed claude_lib accept_all (claude_after n) (event_text name d) = Inr (claude_after (Suc n))"
proof -
  have s: "at_rest (claude_after n)" "\<not> cl_acknowledged (claude_after n)"
    by (simp_all add: at_rest_def claude_after_def claude_new_def Let_def)
  have "length d < data_bound claude_rules" "length d + 5 \<le> max_line"
    "sse_total (claude_after n) + length (event_text name d) \<le> max_stream"
    using assms(7,8) by (simp_all add: claude_rules_def claude_limit_def max_line_def max_stream_def)
  from guarded_event [where s = "claude_after n" and closed = cl_acknowledged, OF claude_rules_append assms(2-6) this(1,2) s this(3), of "claude_chunk claude_lib accept_all"]
  show ?thesis using assms(1,10) unfolding claude_feed_def framed_def by simp
qed

lemma claude_turn_start:
  "claude_feed claude_lib accept_all (claude_after 0) (event_text ''message_start'' ''a'') = Inr (claude_after (Suc 0))"
proof (rule claude_handled)
  show "claude_chunk claude_lib accept_all (framed ''message_start'' ''a'' (claude_after 0)) =
    Inr (framed ''message_start'' ''a'' (claude_after 0)\<lparr>
      cl_started := True, cl_usage := cl_usage (claude_after 1), cl_result := cl_result (claude_after 1)\<rparr>)"
    by (simp add: claude_evaluation framed_def claude_after_def claude_steps)
qed (simp_all add: claude_after_def claude_new_def framed_def event_text_def plain_line_def unspaced_def Let_def)

lemma claude_turn_block:
  "claude_feed claude_lib accept_all (claude_after 1) (event_text ''content_block_start'' claude_tool_text) =
   Inr (claude_after (Suc 1))"
proof (rule claude_handled)
  show "claude_chunk claude_lib accept_all (framed ''content_block_start'' claude_tool_text (claude_after 1)) =
    Inr (framed ''content_block_start'' claude_tool_text (claude_after 1)\<lparr>
      cl_blocks := cl_blocks (claude_after 2), cl_calls := {''t''}\<rparr>)"
    using claude_tool_slices
    by (simp add: claude_evaluation framed_def claude_after_def claude_steps)
qed (simp_all add: claude_after_def claude_new_def framed_def event_text_def plain_line_def unspaced_def
    claude_tool_text_def Let_def)

lemma claude_turn_block_stop:
  "claude_feed claude_lib accept_all (claude_after 2) (event_text ''content_block_stop'' ''c'') =
   Inr (claude_after (Suc 2))"
proof (rule claude_handled)
  show "claude_chunk claude_lib accept_all (framed ''content_block_stop'' ''c'' (claude_after 2)) =
    Inr (framed ''content_block_stop'' ''c'' (claude_after 2)\<lparr>cl_blocks := cl_blocks (claude_after 3)\<rparr>)"
    by (simp add: claude_evaluation framed_def claude_after_def claude_steps)
qed (simp_all add: claude_after_def claude_new_def framed_def event_text_def plain_line_def unspaced_def Let_def)

lemma claude_turn_delta:
  "claude_feed claude_lib accept_all (claude_after 3) (event_text ''message_delta'' ''d'') =
   Inr (claude_after (Suc 3))"
proof (rule claude_handled)
  show "claude_chunk claude_lib accept_all (framed ''message_delta'' ''d'' (claude_after 3)) =
    Inr (framed ''message_delta'' ''d'' (claude_after 3)\<lparr>cl_usage := cl_usage (claude_after 4),
      cl_reason := ''tool_use'', cl_delta := True, cl_result := cl_result (claude_after 4)\<rparr>)"
    by (simp add: claude_evaluation framed_def claude_after_def claude_steps)
qed (simp_all add: claude_after_def claude_new_def framed_def event_text_def plain_line_def unspaced_def Let_def)

lemma claude_turn_stop:
  "claude_feed claude_lib accept_all (claude_after 4) (event_text ''message_stop'' ''e'') =
   Inr (claude_after (Suc 4))"
proof (rule claude_handled)
  show "claude_chunk claude_lib accept_all (framed ''message_stop'' ''e'' (claude_after 4)) =
    Inr (framed ''message_stop'' ''e'' (claude_after 4)\<lparr>cl_done := True, cl_result := cl_result (claude_after 5)\<rparr>)"
    by (simp add: claude_evaluation framed_def claude_after_def claude_steps)
qed (simp_all add: claude_after_def claude_new_def framed_def event_text_def plain_line_def unspaced_def Let_def)

definition claude_pieces :: "bytes list" where
  "claude_pieces = [event_text ''message_start'' ''a'', event_text ''content_block_start'' claude_tool_text,
     event_text ''content_block_stop'' ''c'', event_text ''message_delta'' ''d'', event_text ''message_stop'' ''e'']"

lemma claude_sample: "foldE (claude_feed claude_lib accept_all) (claude_new ()) claude_pieces = Inr (claude_after 5)"
proof -
  have "claude_new () = claude_after 0"
    by (simp add: claude_after_def claude_new_def empty_completion_def Let_def)
  then show ?thesis
    using claude_turn_start claude_turn_block claude_turn_block_stop claude_turn_delta claude_turn_stop
    by (simp add: claude_pieces_def del: One_nat_def) (simp add: eval_nat_numeral)
qed

lemma claude_sample_finish: "claude_finish claude_lib accept_all (claude_after 5) =
    Inr (cl_result (claude_after 5), (claude_after 5)\<lparr>cl_acknowledged := True\<rparr>)"
  by (simp add: claude_finish_def claude_after_def claude_new_def sse_emit_def reads_def dump_value_def Let_def)

theorem claude_turn_is_its_blocks_witness:
  "\<exists>s c t. foldE (claude_feed claude_lib accept_all) (claude_new ()) claude_pieces = Inr s \<and>
     claude_finish claude_lib accept_all s = Inr (c, t) \<and>
     tool_calls c = [\<lparr>call_id = ''t'', call_name = ''f'', arguments_json = ''{}''\<rparr>] \<and>
     tool_calls c = block_calls (cl_blocks s)"
  using claude_turn_is_its_blocks [OF claude_sample claude_sample_finish] claude_sample claude_sample_finish
  by (intro exI [of _ "claude_after 5"] exI [of _ "cl_result (claude_after 5)"] exI)
    (auto simp: claude_after_def Let_def)

end
