(* ===== verification/Gemini_Stream.thy ===== *)
theory Gemini_Stream
  imports Event_Stream
begin

text \<open>
  \<open>gemini_stream.cpp\<close>: the incremental decoder of Gemini's streamed \<open>generateContent\<close>. Every event
  carries the next parts of one candidate; the parts are kept as the text they were received as,
  cut out of the validated event by a token walker.
\<close>

section \<open>Helpers\<close>

definition gemini_limit :: nat where "gemini_limit = 8 * 1024 * 1024"

definition gemini_append :: "bytes \<Rightarrow> bytes \<Rightarrow> nat \<Rightarrow> stream_error + bytes" where
  "gemini_append to' from' bound =
     (if length from' > bound - length to' then protocol ''Gemini stream exceeds limits''
      else Inr (to' @ from'))"

definition gemini_parse :: "json_lib \<Rightarrow> bytes \<Rightarrow> nat \<Rightarrow> stream_error + json" where
  "gemini_parse lib source depth = parse_within lib depth
     ''Gemini JSON nesting exceeds limits'' ''Duplicate Gemini JSON field'' source"

definition gemini_text :: "json \<Rightarrow> bytes \<Rightarrow> stream_error + bytes" where
  "gemini_text v k =
     bindE (demand (has_member v k \<and> is_string (at_key v k)) ''Invalid Gemini string field'')
       (\<lambda>_. Inr (str_of (at_key v k)))"

definition gemini_identity :: "bytes \<Rightarrow> nat \<Rightarrow> stream_error + unit" where
  "gemini_identity v bound =
     demand (v \<noteq> [] \<and> length v \<le> bound \<and> CHR 0x00 \<notin> set v) ''Invalid Gemini identity''"

section \<open>The token walker\<close>

text \<open>
  Positions are the rest of the text. \<open>None\<close> is the error of a token boundary, and stands too for the
  reads past the end that the code would make on a text that is not JSON: it only walks texts it
  has parsed. As in the walker of the Claude decoder, the comparisons of lengths never fail.
\<close>

fun walk_string :: "bytes \<Rightarrow> bytes option" where
  "walk_string [] = Some []"
| "walk_string (c # cs) =
     (if c = CHR 0x5C then (case cs of [] \<Rightarrow> None | _ # ds \<Rightarrow> walk_string ds)
      else if c = CHR 0x22 then Some cs else walk_string cs)"

definition skip_one :: "(char \<Rightarrow> bool) \<Rightarrow> bytes \<Rightarrow> bytes" where
  "skip_one P s = (case s of [] \<Rightarrow> [] | c # cs \<Rightarrow> if P c then cs else s)"

lemma skip_one_length: "length (skip_one P s) \<le> length s"
  by (auto simp: skip_one_def split: list.splits)

function walk_value :: "bytes \<Rightarrow> bytes option"
  and walk_items :: "char \<Rightarrow> bytes \<Rightarrow> bytes option" where
  "walk_value s =
     (case s of [] \<Rightarrow> None
      | c # cs \<Rightarrow>
          if c = CHR 0x22 then walk_string cs
          else if c = CHR ''{'' \<or> c = CHR ''['' then walk_items (closing c) (skip_space cs)
          else Some (dropWhile (\<lambda>d. \<not> ends_scalar d) cs))"
| "walk_items close s =
     (case s of [] \<Rightarrow> None
      | d # ds \<Rightarrow>
          if d = close then Some ds
          else Option.bind (walk_value s) (\<lambda>r.
            let after = skip_one (\<lambda>c. c = CHR '':'' \<or> c = CHR '','') (skip_space r) in
            if length after < length s then walk_items close (skip_space after) else None))"
  by pat_completeness auto
termination
proof (relation "measure (\<lambda>x. case x of Inl s \<Rightarrow> 2 * length s | Inr (c, s) \<Rightarrow> 2 * length s + 1)")
  show "wf (measure (\<lambda>x. case x of Inl s \<Rightarrow> 2 * length s | Inr (c :: char, s :: bytes) \<Rightarrow> 2 * length s + 1))"
    by simp
next
  fix s cs and c :: char
  assume "s = c # cs"
  then show "(Inr (closing c, skip_space cs), Inl s) \<in>
      measure (\<lambda>x. case x of Inl s \<Rightarrow> 2 * length s | Inr (c, s) \<Rightarrow> 2 * length s + 1)"
    using skip_space_shorter [of cs] by simp
next
  fix close :: char and s after :: bytes
  assume "length after < length s"
  then show "(Inr (close, skip_space after), Inr (close, s)) \<in>
      measure (\<lambda>x. case x of Inl s \<Rightarrow> 2 * length s | Inr (c, s) \<Rightarrow> 2 * length s + 1)"
    using skip_space_shorter [of after] by simp
qed auto

declare walk_value.simps [simp del] walk_items.simps [simp del]

lemma walk_string_shorter: "walk_string s = Some r \<Longrightarrow> length r \<le> length s"
  by (induction s rule: walk_string.induct) (auto split: if_splits list.splits)

lemma walk_value_shorter: "walk_value s = Some r \<Longrightarrow> length r < length s"
  and walk_items_shorter: "walk_items c s = Some r \<Longrightarrow> length r < length s"
proof (induction s and c s arbitrary: r and r rule: walk_value_walk_items.induct)
  case (1 s)
  show ?case
  proof (cases s)
    case (Cons c cs)
    show ?thesis
    proof (cases "c = CHR 0x22 \<or> \<not> (c = CHR ''{'' \<or> c = CHR ''['')")
      case True
      then show ?thesis using 1(2) Cons walk_string_shorter [of cs r]
          length_dropWhile_le [of "\<lambda>d. \<not> ends_scalar d" cs]
        by (auto simp: walk_value.simps less_Suc_eq_le split: if_splits)
    next
      case False
      then have "walk_items (closing c) (skip_space cs) = Some r"
        using 1(2) Cons by (auto simp: walk_value.simps)
      then have "length r < length (skip_space cs)" using 1(1) [OF Cons] False by auto
      then show ?thesis using skip_space_shorter [of cs] Cons by simp
    qed
  qed (use 1 in \<open>simp add: walk_value.simps\<close>)
next
  case (2 close s)
  show ?case
  proof (cases s)
    case (Cons d ds)
    show ?thesis
    proof (cases "d = close")
      case True
      then show ?thesis using 2(3) Cons unfolding walk_items.simps [of close s] by simp
    next
      case False
      let ?after = "\<lambda>q. skip_one (\<lambda>c. c = CHR '':'' \<or> c = CHR '','') (skip_space q)"
      obtain q where q: "walk_value s = Some q" "length (?after q) < length s"
        "walk_items close (skip_space (?after q)) = Some r"
        using 2(3) Cons False unfolding walk_items.simps [of close s]
        by (auto simp: Option.bind_eq_Some_conv Let_def split: if_splits)
      have "length r < length (skip_space (?after q))"
        using 2(2) [OF Cons False q(1) refl q(2) q(3)] .
      then show ?thesis using q(2) skip_space_shorter [of "?after q"] by simp
    qed
  qed (use 2 in \<open>simp add: walk_items.simps\<close>)
qed

text \<open>A value with the spaces before it removed, and what follows it.\<close>

definition walk_token :: "bytes \<Rightarrow> stream_error + bytes \<times> bytes" where
  "walk_token s = (let t = skip_space s in
     case walk_value t of None \<Rightarrow> protocol ''Invalid Gemini token boundary''
     | Some r \<Rightarrow> Inr (take (length t - length r) t, r))"

lemma walk_token_shorter: "walk_token s = Inr (a, r) \<Longrightarrow> length r < length s"
  using walk_value_shorter [of "skip_space s" r] skip_space_shorter [of s]
  by (auto simp: walk_token_def Let_def protocol_def split: option.splits)

function gemini_member_loop :: "json_lib \<Rightarrow> bytes \<Rightarrow> bytes \<Rightarrow> stream_error + bytes" where
  "gemini_member_loop lib key s =
     (case s of [] \<Rightarrow> Inr []
      | c # _ \<Rightarrow>
          if c = CHR ''}'' then Inr []
          else bindE (walk_token s) (\<lambda>(name_text, r1).
            bindE (parse_name lib name_text) (\<lambda>name.
            bindE (walk_token (drop 1 (skip_space r1))) (\<lambda>(found, r2).
            if name = key then Inr found
            else gemini_member_loop lib key
              (skip_space (skip_one (\<lambda>c. c = CHR '','') (skip_space r2)))))))"
  by pat_completeness auto
termination
proof (relation "measure (\<lambda>(_, _, s). length s)")
  fix lib :: json_lib and key s x name_text r1 y found r2 and c :: char and cs :: bytes
  assume "walk_token s = Inr x" "(name_text, r1) = x"
    "walk_token (drop 1 (skip_space r1)) = Inr y" "(found, r2) = y"
  then have "length r1 < length s" "length r2 < length (drop 1 (skip_space r1))"
    by (auto dest: walk_token_shorter)
  moreover have "length (skip_space r1) \<le> length r1" by (rule skip_space_shorter)
  ultimately have "length r2 < length s" by simp
  then have "length (skip_space (skip_one (\<lambda>c. c = CHR '','') (skip_space r2))) < length s"
    using skip_space_shorter [of r2] skip_one_length [of "\<lambda>c. c = CHR '',''" "skip_space r2"]
      skip_space_shorter [of "skip_one (\<lambda>c. c = CHR '','') (skip_space r2)"] by linarith
  then show "((lib, key, skip_space (skip_one (\<lambda>c. c = CHR '','') (skip_space r2))), lib, key, s)
      \<in> measure (\<lambda>(_, _, s). length s)" by simp
qed simp

declare gemini_member_loop.simps [simp del]

definition gemini_member :: "json_lib \<Rightarrow> bytes \<Rightarrow> bytes \<Rightarrow> stream_error + bytes" where
  "gemini_member lib source key =
     (case skip_space source of [] \<Rightarrow> protocol ''Invalid Gemini object slice''
      | c # cs \<Rightarrow> if c \<noteq> CHR ''{'' then protocol ''Invalid Gemini object slice''
          else gemini_member_loop lib key (skip_space cs))"

function gemini_element_loop :: "bytes \<Rightarrow> stream_error + bytes list" where
  "gemini_element_loop s =
     (case s of [] \<Rightarrow> Inr []
      | c # _ \<Rightarrow>
          if c = CHR '']'' then Inr []
          else bindE (walk_token s) (\<lambda>(found, r).
            bindE (gemini_element_loop (skip_space (skip_one (\<lambda>c. c = CHR '','') (skip_space r))))
              (\<lambda>rest. Inr (found # rest))))"
  by pat_completeness auto
termination
proof (relation "measure length")
  fix s x found r and c :: char and cs :: bytes
  assume "walk_token s = Inr x" "(found, r) = x"
  then have "length r < length s" by (auto dest: walk_token_shorter)
  then have "length (skip_space (skip_one (\<lambda>c. c = CHR '','') (skip_space r))) < length s"
    using skip_space_shorter [of r] skip_one_length [of "\<lambda>c. c = CHR '',''" "skip_space r"]
      skip_space_shorter [of "skip_one (\<lambda>c. c = CHR '','') (skip_space r)"] by linarith
  then show "(skip_space (skip_one (\<lambda>c. c = CHR '','') (skip_space r)), s) \<in> measure length" by simp
qed simp

declare gemini_element_loop.simps [simp del]

definition gemini_elements :: "bytes \<Rightarrow> stream_error + bytes list" where
  "gemini_elements source =
     (case skip_space source of [] \<Rightarrow> protocol ''Invalid Gemini array slice''
      | c # cs \<Rightarrow> if c \<noteq> CHR ''['' then protocol ''Invalid Gemini array slice''
          else gemini_element_loop (skip_space cs))"

section \<open>The decoder state\<close>

record gemini_call =
  gc_name :: bytes
  gc_id :: "bytes option"
  gc_arguments :: "bytes option"

record gemini_completion =
  gm_content :: bytes
  gm_parts_json :: bytes
  gm_finish_reason :: bytes
  gm_provider_finish_reason :: bytes
  gm_usage_json :: bytes
  gm_model_version :: bytes
  gm_response_id :: bytes
  gm_function_calls :: "gemini_call list"

record 'k gemini = "'k sse" +
  gem_result :: gemini_completion
  gem_usage :: json
  gem_parts :: "bytes list"
  gem_ids :: "bytes set"
  gem_parts_bytes :: nat
  gem_terminal :: bool
  gem_acknowledged :: bool

type_synonym 'k gemini_step = "'k gemini \<Rightarrow> ('k gemini, 'k gemini) outcome"

definition empty_gemini :: gemini_completion where
  "empty_gemini = \<lparr>gm_content = [], gm_parts_json = ''[]'', gm_finish_reason = [],
     gm_provider_finish_reason = [], gm_usage_json = ''null'', gm_model_version = [], gm_response_id = [],
     gm_function_calls = []\<rparr>"

definition gemini_new :: "'k \<Rightarrow> 'k gemini" where
  "gemini_new k = \<lparr>sse_sink = k, sse_line = [], sse_data = [], sse_event = [], sse_total = 0,
     sse_first = True, sse_skip = False, sse_has_data = False, sse_failed = False,
     gem_result = empty_gemini, gem_usage = JObj [], gem_parts = [], gem_ids = {}, gem_parts_bytes = 2,
     gem_terminal = False, gem_acknowledged = False\<rparr>"

text \<open>An identity that every event repeats or omits.\<close>

definition gemini_metadata :: "json \<Rightarrow> bytes \<Rightarrow> bytes \<Rightarrow> stream_error + bytes" where
  "gemini_metadata v field target =
     (if \<not> has_member v field then Inr target
      else bindE (gemini_text v field) (\<lambda>observed.
        bindE (gemini_identity observed 256) (\<lambda>_.
        bindE (demand (target = [] \<or> target = observed) ''Gemini response identity changed'') (\<lambda>_.
        Inr observed))))"

definition gemini_counters :: "bytes list" where
  "gemini_counters = [''promptTokenCount'', ''candidatesTokenCount'', ''totalTokenCount'',
     ''thoughtsTokenCount'', ''cachedContentTokenCount'', ''toolUsePromptTokenCount'']"

definition gemini_counter_ok :: "json \<Rightarrow> bytes \<Rightarrow> json \<Rightarrow> bool" where
  "gemini_counter_ok usage k count \<longleftrightarrow> is_integer count \<and> 0 \<le> int_of count \<and> int_of count \<le> counters_max \<and>
     (has_member usage k \<longrightarrow> int_of (at_key usage k) \<le> int_of count)"

definition gemini_counter_step :: "json \<Rightarrow> 'k gemini \<Rightarrow> bytes \<Rightarrow> ('k gemini, 'k gemini) outcome" where
  "gemini_counter_step v s k =
     (if \<not> has_member v k then Inr s
      else reads s (demand (gemini_counter_ok (gem_usage s) k (at_key v k)) ''Invalid Gemini cumulative usage'') (\<lambda>_.
        Inr (s\<lparr>gem_usage := JObj (put_member k (at_key v k) (members (gem_usage s)))\<rparr>)))"

definition gemini_usage :: "json_lib \<Rightarrow> 'k chat_sink \<Rightarrow> json \<Rightarrow> 'k gemini_step" where
  "gemini_usage lib sink v s =
     reads s (demand (is_object v) ''Invalid Gemini usage'') (\<lambda>_.
     bindE (foldE (gemini_counter_step v) s gemini_counters) (\<lambda>t.
     if members (gem_usage t) = [] then Inr t
     else reads t (dump_value lib (gem_usage t)) (\<lambda>dumped.
       sse_emit lib sink ''model.usage'' (gem_usage t)
         (t\<lparr>gem_result := (gem_result t)\<lparr>gm_usage_json := dumped\<rparr>\<rparr>))))"

section \<open>The parts of a candidate\<close>

definition part_fields :: "bytes list" where
  "part_fields = [''text'', ''functionCall'', ''thought'', ''thoughtSignature'', ''partMetadata'']"

definition part_metadata :: "json_lib \<Rightarrow> json \<Rightarrow> bytes \<Rightarrow> stream_error + unit" where
  "part_metadata lib v raw_part =
     (if \<not> has_member v ''partMetadata'' then Inr ()
      else bindE (demand (is_object (at_key v ''partMetadata'')) ''Invalid Gemini part metadata'') (\<lambda>_.
        bindE (gemini_member lib raw_part ''partMetadata'') (\<lambda>slice.
        bindE (demand (length slice \<le> 1024 * 1024) ''Gemini part metadata exceeds limits'') (\<lambda>_.
        bindE (gemini_parse lib slice 16) (\<lambda>_. Inr ())))))"

definition part_checks :: "json_lib \<Rightarrow> json \<Rightarrow> bytes \<Rightarrow> stream_error + unit" where
  "part_checks lib v raw_part =
     bindE (demand (list_all (\<lambda>(k, _). k \<in> set part_fields) (members v)) ''Unsupported Gemini content part'') (\<lambda>_.
     bindE (demand (has_member v ''thought'' \<longrightarrow> is_boolean (at_key v ''thought'')) ''Invalid Gemini thought flag'') (\<lambda>_.
     bindE (if has_member v ''thoughtSignature''
       then bindE (gemini_text v ''thoughtSignature'') (\<lambda>sig. gemini_identity sig 65536) else Inr ()) (\<lambda>_.
     bindE (part_metadata lib v raw_part) (\<lambda>_.
     demand (\<not> (has_member v ''text'' \<and> has_member v ''functionCall'')) ''Conflicting Gemini part data''))))"

definition part_text :: "json_lib \<Rightarrow> 'k chat_sink \<Rightarrow> json \<Rightarrow> 'k gemini_step" where
  "part_text lib sink v s =
     reads s (gemini_text v ''text'') (\<lambda>added.
     if at_key v ''thought'' = JBool True then Inr s
     else reads s (gemini_append (gm_content (gem_result s)) added gemini_limit) (\<lambda>all.
       let t = s\<lparr>gem_result := (gem_result s)\<lparr>gm_content := all\<rparr>\<rparr> in
       if added = [] then Inr t else sse_emit lib sink ''model.text'' (text_event added) t))"

definition function_name_char :: "char \<Rightarrow> bool" where
  "function_name_char c \<longleftrightarrow>
     c \<in> set ''abcdefghijklmnopqrstuvwxyzABCDEFGHIJKLMNOPQRSTUVWXYZ0123456789_-''"

definition call_arguments :: "json_lib \<Rightarrow> json \<Rightarrow> bytes \<Rightarrow> stream_error + bytes option" where
  "call_arguments lib call raw_part =
     (if \<not> has_member call ''args'' then Inr None
      else bindE (demand (is_object (at_key call ''args'')) ''Invalid Gemini function arguments'') (\<lambda>_.
        bindE (gemini_member lib raw_part ''functionCall'') (\<lambda>function.
        bindE (gemini_member lib function ''args'') (\<lambda>args.
        bindE (demand (length args \<le> 1024 * 1024) ''Gemini function arguments exceed limits'') (\<lambda>_.
        bindE (gemini_parse lib args 16) (\<lambda>_. Inr (Some args)))))))"

definition call_name_of :: "json \<Rightarrow> stream_error + bytes" where
  "call_name_of call =
     bindE (demand (list_all (\<lambda>(k, _). k \<in> {''id'', ''name'', ''args''}) (members call))
       ''Unsupported Gemini function field'') (\<lambda>_.
     bindE (gemini_text call ''name'') (\<lambda>name.
     bindE (demand (name \<noteq> [] \<and> length name \<le> 128 \<and> list_all function_name_char name)
       ''Invalid Gemini function name'') (\<lambda>_. Inr name)))"

definition call_identity :: "json \<Rightarrow> bytes set \<Rightarrow> stream_error + bytes option \<times> bytes set" where
  "call_identity call known =
     (if \<not> has_member call ''id'' then Inr (None, known)
      else bindE (gemini_text call ''id'') (\<lambda>i.
        bindE (gemini_identity i 256) (\<lambda>_.
        bindE (demand (i \<notin> known) ''Duplicate Gemini function identity'') (\<lambda>_.
        Inr (Some i, insert i known)))))"

definition add_function :: "gemini_call \<Rightarrow> 'k gemini \<Rightarrow> 'k gemini" where
  "add_function c s = s\<lparr>gem_result := (gem_result s)\<lparr>gm_function_calls := gm_function_calls (gem_result s) @ [c]\<rparr>\<rparr>"

definition part_call :: "json_lib \<Rightarrow> json \<Rightarrow> bytes \<Rightarrow> 'k gemini_step" where
  "part_call lib v raw_part s =
     (let call = at_key v ''functionCall'' in
      reads s (demand (is_object call \<and> length (gm_function_calls (gem_result s)) < 64)
        ''Invalid Gemini function call'') (\<lambda>_.
      reads s (call_name_of call) (\<lambda>name.
      reads s (call_identity call (gem_ids s)) (\<lambda>(identity, ids).
      let t = s\<lparr>gem_ids := ids\<rparr> in
      reads t (call_arguments lib call raw_part) (\<lambda>arguments.
      Inr (add_function \<lparr>gc_name = name, gc_id = identity, gc_arguments = arguments\<rparr> t))))))"

definition part_body :: "json_lib \<Rightarrow> 'k chat_sink \<Rightarrow> json \<Rightarrow> bytes \<Rightarrow> 'k gemini_step" where
  "part_body lib sink v raw_part s =
     (if has_member v ''text'' then part_text lib sink v s
      else if has_member v ''functionCall'' then part_call lib v raw_part s
      else reads s (demand (has_member v ''thoughtSignature'') ''Gemini part has no supported data'') (\<lambda>_. Inr s))"

definition gemini_part :: "json_lib \<Rightarrow> 'k chat_sink \<Rightarrow> 'k gemini \<Rightarrow> json \<times> bytes \<Rightarrow> ('k gemini, 'k gemini) outcome" where
  "gemini_part lib sink s part = (case part of (v, raw_part) \<Rightarrow>
     reads s (demand (is_object v \<and> members v \<noteq> []) ''Invalid Gemini content part'') (\<lambda>_.
     let stored = length raw_part + (if gem_parts s = [] then 0 else 1) in
     reads s (demand (stored \<le> gemini_limit - gem_parts_bytes s) ''Gemini part history exceeds limits'') (\<lambda>_.
     reads s (part_checks lib v raw_part) (\<lambda>_.
     bindE (part_body lib sink v raw_part s) (\<lambda>t.
     reads t (demand (length (gem_parts t) < 4096) ''Gemini part count exceeds limits'') (\<lambda>_.
     Inr (t\<lparr>gem_parts := gem_parts t @ [raw_part], gem_parts_bytes := gem_parts_bytes t + stored\<rparr>)))))))"

section \<open>One event\<close>

definition blocked_prompt :: "json \<Rightarrow> stream_error + unit" where
  "blocked_prompt v =
     (if \<not> has_member v ''promptFeedback'' then Inr ()
      else let feedback = at_key v ''promptFeedback'' in
        bindE (demand (is_object feedback) ''Invalid Gemini prompt feedback'') (\<lambda>_.
        if \<not> has_member feedback ''blockReason'' then Inr ()
        else bindE (gemini_text feedback ''blockReason'') (\<lambda>r.
          demand (r = ''BLOCK_REASON_UNSPECIFIED'') ''Gemini prompt was blocked'')))"

definition content_ok :: "json \<Rightarrow> stream_error + unit" where
  "content_ok body =
     (let bad = ''Invalid Gemini model content'' in
      bindE (demand (is_object body) bad) (\<lambda>_.
      bindE (if has_member body ''role''
        then bindE (gemini_text body ''role'') (\<lambda>r. demand (r = ''model'') bad) else Inr ()) (\<lambda>_.
      demand (has_member body ''parts'' \<and> is_array (at_key body ''parts'')) bad)))"

text \<open>The raw texts of the parts: one per part of the parsed event, whose text they are cut from.\<close>

definition raw_parts :: "json_lib \<Rightarrow> bytes \<Rightarrow> stream_error + bytes list" where
  "raw_parts lib event =
     bindE (gemini_member lib event ''candidates'') (\<lambda>cs.
     bindE (gemini_elements cs) (\<lambda>candidates.
     bindE (case candidates of [] \<Rightarrow> protocol ''Invalid Gemini token boundary'' | c # _ \<Rightarrow> Inr c) (\<lambda>candidate.
     bindE (gemini_member lib candidate ''content'') (\<lambda>body.
     bindE (gemini_member lib body ''parts'') (\<lambda>ps. gemini_elements ps)))))"

definition gemini_content :: "json_lib \<Rightarrow> 'k chat_sink \<Rightarrow> json \<Rightarrow> 'k gemini_step" where
  "gemini_content lib sink candidate s =
     (if \<not> has_member candidate ''content'' then Inr s
      else let body = at_key candidate ''content'' in
        reads s (content_ok body) (\<lambda>_.
        reads s (raw_parts lib (sse_data s)) (\<lambda>slices.
        foldE (gemini_part lib sink) s (zip (elements (at_key body ''parts'')) slices))))"

definition gemini_reason :: "bytes \<Rightarrow> 'k gemini \<Rightarrow> 'k gemini" where
  "gemini_reason reason s = (let r = gem_result s in
     s\<lparr>gem_result := r\<lparr>gm_provider_finish_reason := reason,
         gm_finish_reason := (if reason = ''MAX_TOKENS'' then ''length''
           else if gm_function_calls r = [] then ''stop'' else ''tool_calls''),
         gm_function_calls := (if reason = ''MAX_TOKENS'' then [] else gm_function_calls r)\<rparr>,
       gem_terminal := True\<rparr>)"

definition gemini_finish_reason :: "json \<Rightarrow> 'k gemini_step" where
  "gemini_finish_reason candidate s =
     (if \<not> has_member candidate ''finishReason'' then Inr s
      else reads s (gemini_text candidate ''finishReason'') (\<lambda>reason.
        if reason = [] \<or> reason = ''FINISH_REASON_UNSPECIFIED'' then Inr s
        else reads s (demand (reason = ''STOP'' \<or> reason = ''MAX_TOKENS'')
          ''Gemini candidate did not complete successfully'') (\<lambda>_. Inr (gemini_reason reason s))))"

definition gemini_candidate :: "json_lib \<Rightarrow> 'k chat_sink \<Rightarrow> json \<Rightarrow> 'k gemini_step" where
  "gemini_candidate lib sink candidate s =
     reads s (demand (\<not> gem_terminal s) ''Gemini candidate follows terminal response'') (\<lambda>_.
     reads s (demand (is_object candidate) ''Invalid Gemini candidate'') (\<lambda>_.
     reads s (demand (has_member candidate ''index'' \<longrightarrow> at_key candidate ''index'' = JInt 0)
       ''Unsupported Gemini candidate index'') (\<lambda>_.
     bindE (gemini_content lib sink candidate s) (gemini_finish_reason candidate))))"

definition gemini_candidates :: "json_lib \<Rightarrow> 'k chat_sink \<Rightarrow> json \<Rightarrow> 'k gemini_step" where
  "gemini_candidates lib sink v s =
     (if \<not> has_member v ''candidates'' then Inr s
      else let candidates = at_key v ''candidates'' in
        reads s (demand (is_array candidates \<and> length (elements candidates) \<le> 1)
          ''Unsupported Gemini candidate count'') (\<lambda>_.
        case elements candidates of [] \<Rightarrow> Inr s | candidate # _ \<Rightarrow> gemini_candidate lib sink candidate s))"

definition gemini_identities :: "json \<Rightarrow> 'k gemini_step" where
  "gemini_identities v s =
     reads s (gemini_metadata v ''modelVersion'' (gm_model_version (gem_result s))) (\<lambda>version.
     let t = s\<lparr>gem_result := (gem_result s)\<lparr>gm_model_version := version\<rparr>\<rparr> in
     reads t (gemini_metadata v ''responseId'' (gm_response_id (gem_result t))) (\<lambda>response.
     Inr (t\<lparr>gem_result := (gem_result t)\<lparr>gm_response_id := response\<rparr>\<rparr>)))"

definition gemini_chunk :: "json_lib \<Rightarrow> 'k chat_sink \<Rightarrow> 'k gemini_step" where
  "gemini_chunk lib sink s =
     reads s (demand (sse_event s = [] \<or> sse_event s = ''message'') ''Unsupported Gemini SSE event'') (\<lambda>_.
     reads s (gemini_parse lib (sse_data s) 32) (\<lambda>v.
     reads s (demand (is_object v) ''Invalid Gemini response'') (\<lambda>_.
     reads s (demand (\<not> has_member v ''error'') ''Gemini provider returned an error'') (\<lambda>_.
     bindE (gemini_identities v s) (\<lambda>t.
     reads t (blocked_prompt v) (\<lambda>_.
     bindE (if has_member v ''usageMetadata'' then gemini_usage lib sink (at_key v ''usageMetadata'') t else Inr t)
       (gemini_candidates lib sink v)))))))"

section \<open>The stream\<close>

definition gemini_rules :: sse_rules where
  "gemini_rules = \<lparr>grow = gemini_append, data_bound = gemini_limit,
     name_too_long = ''Gemini SSE event exceeds limits'',
     stream_invalid = ''Gemini stream is invalid'', stream_exceeded = ''Gemini stream exceeds limits'',
     json_invalid = ''Invalid Gemini JSON event''\<rparr>"

definition gemini_feed :: "json_lib \<Rightarrow> 'k chat_sink \<Rightarrow> 'k gemini \<Rightarrow> bytes \<Rightarrow> ('k gemini, 'k gemini) outcome" where
  "gemini_feed lib sink = sse_guarded gemini_rules gem_acknowledged (gemini_chunk lib sink)"

fun parts_text :: "bool \<Rightarrow> bytes \<Rightarrow> bytes list \<Rightarrow> stream_error + bytes" where
  "parts_text first acc [] = gemini_append acc '']'' gemini_limit"
| "parts_text first acc (p # ps) =
     bindE (if first then Inr acc else gemini_append acc '','' gemini_limit) (\<lambda>acc1.
     bindE (gemini_append acc1 p gemini_limit) (\<lambda>acc2. parts_text False acc2 ps))"

definition gemini_settle :: "json_lib \<Rightarrow> 'k chat_sink \<Rightarrow> 'k gemini_step" where
  "gemini_settle lib sink s =
     reads s (parts_text True ''['' (gem_parts s)) (\<lambda>ps.
     let t = s\<lparr>gem_result := (gem_result s)\<lparr>gm_parts_json := ps\<rparr>\<rparr> in
     bindE (sse_emit lib sink ''model.finish''
       (JObj [(''provider_reason'', JStr (gm_provider_finish_reason (gem_result t))),
         (''reason'', JStr (gm_finish_reason (gem_result t)))]) t) (\<lambda>u.
     bindE (sse_emit lib sink ''model.done'' (JObj []) u) (\<lambda>w. Inr (w\<lparr>gem_acknowledged := True\<rparr>))))"

definition gemini_finish :: "json_lib \<Rightarrow> 'k chat_sink \<Rightarrow> 'k gemini \<Rightarrow>
    ('k gemini, gemini_completion \<times> 'k gemini) outcome" where
  "gemini_finish lib sink s =
     (if sse_failed s \<or> \<not> gem_terminal s \<or> sse_line s \<noteq> [] \<or> sse_has_data s \<or> sse_event s \<noteq> []
      then Inl (Protocol ''Incomplete Gemini stream'', s)
      else if gem_acknowledged s then Inr (gem_result s, s)
      else case gemini_settle lib sink s of
          Inl (e, t) \<Rightarrow> Inl (e, t\<lparr>sse_failed := True\<rparr>)
        | Inr t \<Rightarrow> Inr (gem_result t, t))"

section \<open>The invariant\<close>

text \<open>
  The bytes counted for the parts are those of the history \<open>finish\<close> will build, so that its appends
  cannot fail; function calls are legal, at most 64, and their identities are distinct.
\<close>

definition function_ok :: "json_lib \<Rightarrow> gemini_call \<Rightarrow> bool" where
  "function_ok lib c \<longleftrightarrow> gc_name c \<noteq> [] \<and> length (gc_name c) \<le> 128 \<and> list_all function_name_char (gc_name c) \<and>
     (\<forall>i. gc_id c = Some i \<longrightarrow> i \<noteq> [] \<and> length i \<le> 256) \<and>
     (\<forall>a. gc_arguments c = Some a \<longrightarrow> length a \<le> 1024 * 1024 \<and> (\<exists>v. gemini_parse lib a 16 = Inr v))"

definition history :: "bytes list \<Rightarrow> bytes" where
  "history ps = ''['' @ join_with (CHR '','') ps @ '']''"

definition gemini_parts_ok :: "'k gemini \<Rightarrow> bool" where
  "gemini_parts_ok s \<longleftrightarrow> gem_parts_bytes s = length (history (gem_parts s)) \<and>
     length (history (gem_parts s)) \<le> gemini_limit \<and> length (gem_parts s) \<le> 4096"

definition gemini_calls_ok :: "json_lib \<Rightarrow> 'k gemini \<Rightarrow> bool" where
  "gemini_calls_ok lib s \<longleftrightarrow> (let cs = gm_function_calls (gem_result s) in
     length cs \<le> 64 \<and> (\<forall>c \<in> set cs. function_ok lib c) \<and>
     distinct (List.map_filter gc_id cs) \<and> set (List.map_filter gc_id cs) \<subseteq> gem_ids s)"

definition gemini_reason_ok :: "'k gemini \<Rightarrow> bool" where
  "gemini_reason_ok s \<longleftrightarrow> (let r = gem_result s in gem_terminal s \<longrightarrow>
     gm_finish_reason r \<in> {''stop'', ''length'', ''tool_calls''} \<and>
     (gm_function_calls r \<noteq> [] \<longleftrightarrow> gm_finish_reason r = ''tool_calls''))"

definition gemini_inv :: "json_lib \<Rightarrow> 'k gemini \<Rightarrow> bool" where
  "gemini_inv lib s \<longleftrightarrow> gemini_parts_ok s \<and> gemini_calls_ok lib s \<and> gemini_reason_ok s \<and>
     \<not> gem_acknowledged s"

lemmas gemini_facts = gemini_inv_def gemini_parts_ok_def gemini_calls_ok_def gemini_reason_ok_def Let_def

lemma join_length_snoc: "length (join_with c (ps @ [p])) =
    length (join_with c ps) + (if ps = [] then 0 else 1) + length p"
proof (induction ps)
  case (Cons q ps)
  then show ?case by (cases ps) simp_all
qed simp

lemma history_snoc: "length (history (ps @ [p])) = length (history ps) + (length p + (if ps = [] then 0 else 1))"
  by (simp add: history_def join_length_snoc)

lemma gemini_frame [simp]:
  "gemini_inv lib (s\<lparr>gem_usage := u\<rparr>) = gemini_inv lib s" "gemini_inv lib (s\<lparr>sse_sink := k\<rparr>) = gemini_inv lib s"
  by (simp_all add: gemini_facts)

lemma gemini_result_frame [simp]:
  "gm_function_calls r = gm_function_calls (gem_result s) \<Longrightarrow> gm_finish_reason r = gm_finish_reason (gem_result s) \<Longrightarrow>
   gemini_inv lib (s\<lparr>gem_result := r\<rparr>) = gemini_inv lib s"
  by (simp add: gemini_facts)

lemma gemini_counter_steps: "foldE (gemini_counter_step v) s ks = Inr t \<Longrightarrow> \<exists>u. t = s\<lparr>gem_usage := u\<rparr>"
proof (induction ks arbitrary: s)
  case (Cons k ks)
  have "gemini_counter_step v s k = Inr w \<Longrightarrow> \<exists>u. w = s\<lparr>gem_usage := u\<rparr>" for w
    by (auto simp: gemini_counter_step_def reads_demand intro: exI [of _ "gem_usage s"] split: if_splits)
  then obtain u where "foldE (gemini_counter_step v) (s\<lparr>gem_usage := u\<rparr>) ks = Inr t"
    using Cons.prems by (auto simp: stream_simps)
  then show ?case using Cons.IH by fastforce
qed (auto intro: exI [of _ "gem_usage t"])

lemma gemini_usage_inv: "gemini_usage lib' sink v s = Inr t \<Longrightarrow> gemini_inv lib s \<Longrightarrow>
    gemini_inv lib t \<and> gem_terminal t = gem_terminal s"
  by (auto simp: gemini_usage_def stream_simps split: if_splits
      dest!: gemini_counter_steps sse_emit_Inr)

definition unfinished :: "json_lib \<Rightarrow> 'k gemini \<Rightarrow> bool" where
  "unfinished lib s \<longleftrightarrow> gemini_inv lib s \<and> \<not> gem_terminal s"

lemma part_text_unfinished:
  assumes "part_text lib' sink v s = Inr t" and "unfinished lib s"
  shows "unfinished lib t \<and> gem_parts t = gem_parts s \<and> gem_parts_bytes t = gem_parts_bytes s"
proof -
  obtain added where added: "(if at_key v ''thought'' = JBool True then Inr s
     else reads s (gemini_append (gm_content (gem_result s)) added gemini_limit) (\<lambda>all.
       let t = s\<lparr>gem_result := (gem_result s)\<lparr>gm_content := all\<rparr>\<rparr> in
       if added = [] then Inr t else sse_emit lib' sink ''model.text'' (text_event added) t)) = Inr t"
    using assms(1) unfolding part_text_def reads_Inr by blast
  obtain all where "t = s \<or> (let u = s\<lparr>gem_result := (gem_result s)\<lparr>gm_content := all\<rparr>\<rparr> in
      t = u \<or> sse_emit lib' sink ''model.text'' (text_event added) u = Inr t)"
  proof (cases "at_key v ''thought'' = JBool True")
    case True
    then have "t = s" using added by simp
    then show ?thesis using that by blast
  next
    case False
    then obtain all where "(let t = s\<lparr>gem_result := (gem_result s)\<lparr>gm_content := all\<rparr>\<rparr> in
       if added = [] then Inr t else sse_emit lib' sink ''model.text'' (text_event added) t) = Inr t"
      using added unfolding if_not_P [OF False] reads_Inr by blast
    then show ?thesis using that [of all] unfolding Let_def by (cases "added = []") simp_all
  qed
  then consider "t = s" | "t = s\<lparr>gem_result := (gem_result s)\<lparr>gm_content := all\<rparr>\<rparr>"
    | k' where "t = s\<lparr>gem_result := (gem_result s)\<lparr>gm_content := all\<rparr>, sse_sink := k'\<rparr>"
    unfolding Let_def using sse_emit_Inr by metis
  then show ?thesis
  proof cases
    case 1
    then show ?thesis using assms(2) by simp
  next
    case 2
    show ?thesis unfolding 2 using assms(2) by (simp add: unfinished_def)
  next
    case 3
    show ?thesis unfolding 3 using assms(2) by (simp add: unfinished_def)
  qed
qed

lemma call_arguments_ok: "call_arguments lib call raw_part = Inr (Some a) \<Longrightarrow>
    length a \<le> 1024 * 1024 \<and> (\<exists>v. gemini_parse lib a 16 = Inr v)"
  by (auto simp: call_arguments_def stream_simps split: if_splits)

lemma map_filter_snoc: "List.map_filter f (xs @ [x]) = List.map_filter f xs @ (case f x of None \<Rightarrow> [] | Some y \<Rightarrow> [y])"
  by (auto simp: List.map_filter_def split: option.splits)

lemma function_added:
  assumes "function_ok lib c" and "gemini_calls_ok lib s" and "length (gm_function_calls (gem_result s)) < 64"
    and "gc_id c = None \<and> ids = gem_ids s \<or> (\<exists>i. gc_id c = Some i \<and> i \<notin> gem_ids s \<and> ids = insert i (gem_ids s))"
  shows "gemini_calls_ok lib (add_function c (s\<lparr>gem_ids := ids\<rparr>))"
  using assms(4)
proof (elim disjE exE conjE)
  assume "gc_id c = None" "ids = gem_ids s"
  then show ?thesis using assms(1-3) by (simp add: add_function_def gemini_calls_ok_def Let_def map_filter_snoc)
next
  fix i assume "gc_id c = Some i" "i \<notin> gem_ids s" "ids = insert i (gem_ids s)"
  moreover have "set (List.map_filter gc_id (gm_function_calls (gem_result s))) \<subseteq> gem_ids s"
    using assms(2) by (simp add: gemini_calls_ok_def Let_def)
  ultimately show ?thesis
    using assms(1-3) by (auto simp add: add_function_def gemini_calls_ok_def Let_def map_filter_snoc)
qed

lemma part_call_unfinished:
  assumes "part_call lib v raw_part s = Inr t" and "unfinished lib s"
  shows "unfinished lib t \<and> gem_parts t = gem_parts s \<and> gem_parts_bytes t = gem_parts_bytes s"
proof -
  let ?call = "at_key v ''functionCall''"
  obtain name identity ids arguments where few: "length (gm_function_calls (gem_result s)) < 64"
    and named: "call_name_of ?call = Inr name"
    and identity: "call_identity ?call (gem_ids s) = Inr (identity, ids)"
    and arguments: "call_arguments lib ?call raw_part = Inr arguments"
    and t: "t = add_function \<lparr>gc_name = name, gc_id = identity, gc_arguments = arguments\<rparr> (s\<lparr>gem_ids := ids\<rparr>)"
    using assms(1) by (auto simp: part_call_def stream_simps Let_def split: prod.splits)
  have name: "name \<noteq> [] \<and> length name \<le> 128 \<and> list_all function_name_char name"
    using named by (auto simp: call_name_of_def stream_simps)
  have args: "\<forall>a. arguments = Some a \<longrightarrow> length a \<le> 1024 * 1024 \<and> (\<exists>v. gemini_parse lib a 16 = Inr v)"
    using arguments call_arguments_ok by blast
  let ?c = "\<lparr>gc_name = name, gc_id = identity, gc_arguments = arguments\<rparr>"
  have ids: "identity = None \<and> ids = gem_ids s \<or> (\<exists>i. identity = Some i \<and> i \<noteq> [] \<and> length i \<le> 256 \<and>
      i \<notin> gem_ids s \<and> ids = insert i (gem_ids s))"
    using identity by (auto simp: call_identity_def stream_simps gemini_identity_def split: if_splits)
  then have "function_ok lib ?c" using name args by (auto simp: function_ok_def)
  then have "gemini_calls_ok lib t" unfolding t
    by (rule function_added) (use ids few assms(2) in \<open>auto simp: unfinished_def gemini_inv_def\<close>)
  then show ?thesis using assms(2)
    by (simp add: t add_function_def unfinished_def gemini_inv_def gemini_parts_ok_def gemini_reason_ok_def)
qed

lemma gemini_part_unfinished:
  assumes "gemini_part lib sink s part = Inr t" and "unfinished lib s"
  shows "unfinished lib t"
proof -
  obtain v raw_part where part: "part = (v, raw_part)" by (cases part)
  define stored where "stored = length raw_part + (if gem_parts s = [] then 0 else 1)"
  obtain u where fits: "stored \<le> gemini_limit - gem_parts_bytes s" and body: "part_body lib sink v raw_part s = Inr u"
    and few: "length (gem_parts u) < 4096"
    and t: "t = u\<lparr>gem_parts := gem_parts u @ [raw_part], gem_parts_bytes := gem_parts_bytes u + stored\<rparr>"
    using assms(1) by (auto simp: gemini_part_def part stream_simps Let_def stored_def)
  have "unfinished lib u \<and> gem_parts u = gem_parts s \<and> gem_parts_bytes u = gem_parts_bytes s"
    using body assms(2) part_text_unfinished [of lib sink v s u lib] part_call_unfinished [of lib v raw_part s u]
    by (auto simp: part_body_def stream_simps split: if_splits)
  then show ?thesis using fits few history_snoc [of "gem_parts s" raw_part]
    by (auto simp: t unfinished_def gemini_facts stored_def)
qed

lemma gemini_parts_unfinished:
  "foldE (gemini_part lib sink) s ps = Inr t \<Longrightarrow> unfinished lib s \<Longrightarrow> unfinished lib t"
  by (erule foldE_keeps) (auto intro: gemini_part_unfinished)

lemma gemini_reason_keeps: "gemini_inv lib s \<Longrightarrow> gemini_inv lib (gemini_reason reason s)"
  by (cases "reason = ''MAX_TOKENS''"; cases "gm_function_calls (gem_result s) = []")
    (simp_all add: gemini_facts gemini_reason_def List.map_filter_def)

lemma gemini_candidate_inv:
  assumes "gemini_candidate lib sink candidate s = Inr t" and "gemini_inv lib s"
  shows "gemini_inv lib t"
proof -
  obtain u where s: "unfinished lib s" and u: "gemini_content lib sink candidate s = Inr u"
    and t: "gemini_finish_reason candidate u = Inr t"
    using assms by (auto simp: gemini_candidate_def stream_simps unfinished_def)
  have "unfinished lib u"
    using u s by (auto simp: gemini_content_def stream_simps Let_def split: if_splits
        intro: gemini_parts_unfinished)
  then show ?thesis using t
    by (auto simp: gemini_finish_reason_def stream_simps unfinished_def split: if_splits
        intro!: gemini_reason_keeps)
qed

lemma gemini_chunk_keeps: "gemini_inv lib s \<Longrightarrow> gemini_chunk lib sink s = Inr t \<Longrightarrow> gemini_inv lib t"
proof -
  assume s: "gemini_inv lib s" and step: "gemini_chunk lib sink s = Inr t"
  obtain v u w where u: "gemini_identities v s = Inr u"
    and w: "(if has_member v ''usageMetadata'' then gemini_usage lib sink (at_key v ''usageMetadata'') u
      else Inr u) = Inr w" and t: "gemini_candidates lib sink v w = Inr t"
    using step unfolding gemini_chunk_def stream_simps by blast
  have "gemini_inv lib u" using s u by (auto simp: gemini_identities_def stream_simps Let_def)
  then have "gemini_inv lib w" using w gemini_usage_inv by (fastforce split: if_splits)
  then show "gemini_inv lib t" using t gemini_candidate_inv
    by (auto simp: gemini_candidates_def stream_simps Let_def split: if_splits list.splits)
qed

lemma gemini_members:
  assumes "sse.more s = sse.more (t :: 'k gemini)"
  shows "gem_result s = gem_result t" "gem_parts s = gem_parts t" "gem_ids s = gem_ids t"
    "gem_parts_bytes s = gem_parts_bytes t" "gem_terminal s = gem_terminal t"
    "gem_acknowledged s = gem_acknowledged t"
  using assms by (cases s; cases t; simp)+

lemma gemini_own_members:
  assumes "sse.more s = sse.more t" and "gemini_inv lib s"
  shows "gemini_inv lib (t :: 'k gemini)"
  using assms(2) unfolding gemini_facts gemini_members [OF assms(1)] .

interpretation gemini_sse: sse_decoder "gemini_chunk lib sink" "gemini_inv lib" for lib sink
  by unfold_locales (erule gemini_own_members, assumption, erule gemini_chunk_keeps, assumption)

lemma gemini_new_inv: "gemini_inv lib (gemini_new k)"
  by (simp add: gemini_facts gemini_new_def empty_gemini_def history_def gemini_limit_def List.map_filter_def)

lemma gemini_feeds_inv: "foldE (gemini_feed lib sink) (gemini_new k) pieces = Inr s \<Longrightarrow> gemini_inv lib s"
  unfolding gemini_feed_def by (rule gemini_sse.feeds_keep) (auto intro: gemini_new_inv)

text \<open>Building the history: it fails only beyond the bound, which the counted bytes exclude.\<close>

lemma gemini_append_fits: "length a + length b \<le> n \<Longrightarrow> gemini_append a b n = Inr (a @ b)"
  by (auto simp: gemini_append_def)

lemma parts_text_rest:
  "length acc + length (concat (map (\<lambda>p. CHR '','' # p) ps)) < gemini_limit \<Longrightarrow>
   parts_text False acc ps = Inr (acc @ concat (map (\<lambda>p. CHR '','' # p) ps) @ '']'')"
  by (induction ps arbitrary: acc) (simp_all add: gemini_append_fits)

lemma join_with_concat: "join_with c (p # ps) = p @ concat (map (\<lambda>q. c # q) ps)"
  by (induction ps arbitrary: p) simp_all

lemma parts_text_history:
  "length (history ps) \<le> gemini_limit \<Longrightarrow> parts_text True ''['' ps = Inr (history ps)"
proof (cases ps)
  case Nil
  then show ?thesis by (simp add: history_def gemini_append_fits gemini_limit_def)
next
  case (Cons p qs)
  assume "length (history ps) \<le> gemini_limit"
  then show ?thesis
    by (simp add: Cons history_def join_with_concat gemini_append_fits parts_text_rest)
qed

lemma gemini_settle_Inr:
  assumes "gemini_settle lib sink s = Inr t" and "gemini_parts_ok s"
  shows "gem_result t = (gem_result s)\<lparr>gm_parts_json := history (gem_parts s)\<rparr>"
  using assms parts_text_history [of "gem_parts s"]
  by (auto simp: gemini_settle_def stream_simps Let_def gemini_parts_ok_def dest!: sse_emit_Inr)

section \<open>The property\<close>


definition gemini_text_sample :: bytes where
  "gemini_text_sample =
     ''{\"candidates\":[{\"content\":{\"parts\":[{\"text\":\"hi\"}]},\"finishReason\":\"STOP\"}]}''"

definition gemini_docs :: "bytes \<Rightarrow> json option" where
  "gemini_docs = map_of [
     (gemini_text_sample, JObj [(''candidates'', JArr [JObj [
        (''content'', JObj [(''parts'', JArr [JObj [(''text'', JStr ''hi'')]])]),
        (''finishReason'', JStr ''STOP'')]])]),
     (''\"candidates\"'', JStr ''candidates''), (''\"content\"'', JStr ''content''),
     (''\"parts\"'', JStr ''parts'')]"

definition gemini_lib :: json_lib where
  "gemini_lib = \<lparr>sax = (\<lambda>bs. ([], gemini_docs bs)), dump = (\<lambda>_. Some []), same = (=)\<rparr>"

lemma gemini_lib_simps [simp]: "sax gemini_lib bs = ([], gemini_docs bs)" "dump gemini_lib v = Some []"
  by (simp_all add: gemini_lib_def)

lemma gemini_docs_sample [simp]: "gemini_docs gemini_text_sample = Some (JObj [(''candidates'', JArr [JObj [
        (''content'', JObj [(''parts'', JArr [JObj [(''text'', JStr ''hi'')]])]),
        (''finishReason'', JStr ''STOP'')]])])"
  by (simp add: gemini_docs_def)

lemma gemini_slices: "raw_parts gemini_lib gemini_text_sample = Inr [''{\"text\":\"hi\"}'']"
  by code_simp

lemma gemini_rules_append: "appends gemini_rules"
  by (auto simp: appends_def gemini_rules_def gemini_append_def)

definition gemini_sample_end :: "unit gemini" where
  "gemini_sample_end = (gemini_new ())\<lparr>sse_total := length (event_text ''message'' gemini_text_sample),
     sse_first := False, gem_result := empty_gemini\<lparr>gm_content := ''hi'', gm_finish_reason := ''stop'',
       gm_provider_finish_reason := ''STOP''\<rparr>,
     gem_parts := [''{\"text\":\"hi\"}''], gem_parts_bytes := 15, gem_terminal := True\<rparr>"

lemma gemini_sample_chunk:
  "gemini_chunk gemini_lib (\<lambda>_ _. ((), True)) ((gemini_new ())\<lparr>
     sse_total := length (event_text ''message'' gemini_text_sample), sse_first := False,
     sse_event := ''message'', sse_data := gemini_text_sample, sse_has_data := True\<rparr>) =
   Inr (gemini_sample_end\<lparr>sse_event := ''message'', sse_data := gemini_text_sample, sse_has_data := True\<rparr>)"
  using gemini_slices
  by (simp add: gemini_chunk_def gemini_new_def gemini_parse_def parse_within_def gemini_identities_def
      gemini_metadata_def blocked_prompt_def gemini_candidates_def gemini_candidate_def gemini_content_def
      content_ok_def gemini_part_def part_checks_def part_fields_def part_metadata_def part_body_def
      part_text_def gemini_text_def gemini_append_def gemini_limit_def gemini_finish_reason_def
      gemini_reason_def gemini_sample_end_def has_member_def member_def at_key_def demand_def guardE_def
      sse_emit_def dump_value_def empty_gemini_def Let_def)


end
