(* ===== verification/Responses_Stream.thy ===== *)
theory Responses_Stream
  imports Event_Stream
begin

text \<open>
  \<open>responses_stream.cpp\<close>: the incremental decoder of Responses streams. Output items open, receive
  parts, deltas and summaries, and complete; the terminal event repeats every item, which must agree
  with what was streamed. Positions are below 1024, and the maps by position are walked in order.
\<close>

section \<open>Helpers\<close>

definition responses_limit :: nat where "responses_limit = 4 * 1024 * 1024"
definition max_diagnostic :: nat where "max_diagnostic = 4096"

definition diagnostic_fields :: "bytes list" where
  "diagnostic_fields = [''id'', ''type'', ''status'', ''call_id'', ''name'', ''arguments'', ''role'', ''content'',
     ''summary'', ''encrypted_content'', ''channel'', ''phase'']"

definition opt_field :: "json option \<Rightarrow> bytes \<Rightarrow> json option" where
  "opt_field v k = Option.bind v (\<lambda>x. member x k)"

text \<open>A number the library parsed: negative ones are its signed integers, the others unsigned.\<close>

fun diagnostic_type :: "json option \<Rightarrow> bytes" where
  "diagnostic_type None = ''absent''"
| "diagnostic_type (Some JNull) = ''null''"
| "diagnostic_type (Some (JObj _)) = ''object''"
| "diagnostic_type (Some (JArr _)) = ''array''"
| "diagnostic_type (Some (JStr _)) = ''string''"
| "diagnostic_type (Some (JBool _)) = ''boolean''"
| "diagnostic_type (Some (JInt i)) = (if i < 0 then ''integer'' else ''unsigned_integer'')"
| "diagnostic_type (Some (JFloat _)) = ''number''"

definition diagnostic_field :: "bytes \<Rightarrow> bool" where
  "diagnostic_field k \<longleftrightarrow> k \<in> set diagnostic_fields"

text \<open>Equality of two optional documents; the library compares the documents.\<close>

fun same_option :: "json_lib \<Rightarrow> json option \<Rightarrow> json option \<Rightarrow> bool" where
  "same_option lib None None = True"
| "same_option lib (Some a) (Some b) = same lib a b"
| "same_option lib _ _ = False"

definition unlisted_fields_equal :: "json_lib \<Rightarrow> json option \<Rightarrow> json \<Rightarrow> bool" where
  "unlisted_fields_equal lib completed final =
     (case completed of None \<Rightarrow> False
      | Some c \<Rightarrow>
          if \<not> is_object c \<or> \<not> is_object final then same lib c final
          else list_all (\<lambda>(k, v). diagnostic_field k \<or> same_option lib (Some v) (member final k)) (members c) \<and>
            list_all (\<lambda>(k, _). diagnostic_field k \<or> has_member c k) (members final))"

definition responses_parse :: "json_lib \<Rightarrow> bytes \<Rightarrow> stream_error + json" where
  "responses_parse lib source = parse_within lib 64
     ''Responses JSON exceeds nesting limits'' ''Duplicate Responses JSON field'' source"

definition responses_append :: "bytes \<Rightarrow> bytes \<Rightarrow> nat \<Rightarrow> stream_error + bytes" where
  "responses_append target v limit =
     (if length v > limit - length target then protocol ''Responses stream exceeds limits''
      else Inr (target @ v))"

definition responses_text :: "json \<Rightarrow> bytes \<Rightarrow> stream_error + bytes" where
  "responses_text v k =
     bindE (demand (has_member v k \<and> is_string (at_key v k)) ''Missing Responses string field'')
       (\<lambda>_. Inr (str_of (at_key v k)))"

text \<open>The library compares an unsigned number with zero as a signed one of 64 bits.\<close>

definition below_zero :: "json \<Rightarrow> bool" where
  "below_zero v \<longleftrightarrow> int_of v < 0 \<or> int_of v \<ge> 2 ^ 63"

definition responses_index :: "json \<Rightarrow> bytes \<Rightarrow> stream_error + nat" where
  "responses_index v k =
     bindE (demand (has_member v k \<and> is_integer (at_key v k) \<and> \<not> below_zero (at_key v k) \<and>
       int_of (at_key v k) < 1024) ''Invalid Responses item position'') (\<lambda>_. Inr (nat (int_of (at_key v k))))"

definition responses_identity :: "bytes \<Rightarrow> stream_error + unit" where
  "responses_identity v = demand (v \<noteq> [] \<and> length v \<le> 256 \<and> CHR 0x00 \<notin> set v) ''Invalid Responses identity''"

text \<open>A check that a string member has the expected value.\<close>

definition has_text :: "json \<Rightarrow> bytes \<Rightarrow> bytes \<Rightarrow> bytes \<Rightarrow> stream_error + unit" where
  "has_text v k expected message = bindE (responses_text v k) (\<lambda>t. demand (t = expected) message)"

section \<open>The decoder state\<close>

record response_part =
  pt_type :: bytes
  pt_value :: bytes
  pt_done :: bool

record response_item =
  it_id :: bytes
  it_type :: bytes
  it_call_id :: bytes
  it_name :: bytes
  it_arguments :: bytes
  it_parts :: "nat \<rightharpoonup> response_part"
  it_summaries :: "nat \<rightharpoonup> response_part"
  it_final :: json
  it_done :: bool
  it_args_done :: bool
  it_incomplete :: bool

record 'k responses = "'k sse" +
  rs_items :: "nat \<rightharpoonup> response_item"
  rs_ids :: "bytes set"
  rs_calls :: "bytes list"
  rs_response_id :: bytes
  rs_model :: bytes
  rs_sequence :: int
  rs_created :: bool
  rs_done :: bool
  rs_completion :: completion

type_synonym 'k responses_step = "'k responses \<Rightarrow> ('k responses, 'k responses) outcome"

definition responses_new :: "'k \<Rightarrow> 'k responses" where
  "responses_new k = \<lparr>sse_sink = k, sse_line = [], sse_data = [], sse_event = [], sse_total = 0,
     sse_first = True, sse_skip = False, sse_has_data = False, sse_failed = False,
     rs_items = Map.empty, rs_ids = {}, rs_calls = [], rs_response_id = [], rs_model = [],
     rs_sequence = -1, rs_created = False, rs_done = False, rs_completion = empty_completion\<rparr>"

definition positions :: "(nat \<rightharpoonup> 'a) \<Rightarrow> nat list" where
  "positions m = filter (\<lambda>i. m i \<noteq> None) [0..<1024]"

definition in_order :: "(nat \<rightharpoonup> 'a) \<Rightarrow> 'a list" where
  "in_order m = map (\<lambda>i. the (m i)) (positions m)"

definition put_item :: "nat \<Rightarrow> response_item \<Rightarrow> 'k responses \<Rightarrow> 'k responses" where
  "put_item i x s = s\<lparr>rs_items := (rs_items s)(i \<mapsto> x)\<rparr>"

definition active_item :: "'k responses \<Rightarrow> json \<Rightarrow> stream_error + nat \<times> response_item" where
  "active_item s v =
     bindE (responses_index v ''output_index'') (\<lambda>i.
     case rs_items s i of None \<Rightarrow> protocol ''Responses event has no active item''
     | Some x \<Rightarrow>
         bindE (demand (\<not> it_done x) ''Responses event has no active item'') (\<lambda>_.
         bindE (if has_member v ''item_id''
           then has_text v ''item_id'' (it_id x) ''Responses item identity changed'' else Inr ()) (\<lambda>_.
         Inr (i, x))))"

definition response_identity :: "json \<Rightarrow> 'k responses_step" where
  "response_identity response s =
     reads s (demand (is_object response) ''Responses response identity changed'') (\<lambda>_.
     reads s (has_text response ''id'' (rs_response_id s) ''Responses response identity changed'') (\<lambda>_.
     if \<not> has_member response ''model'' then Inr s
     else reads s (responses_text response ''model'') (\<lambda>current.
       reads s (demand (rs_model s = [] \<or> rs_model s = current) ''Responses model identity changed'') (\<lambda>_.
       Inr (s\<lparr>rs_model := current\<rparr>)))))"

section \<open>A completed item\<close>

definition part_key :: "bytes \<Rightarrow> bytes" where
  "part_key how = (if how = ''output_text'' then ''text'' else ''refusal'')"

definition final_part :: "response_item \<Rightarrow> nat \<times> json \<Rightarrow> stream_error + unit" where
  "final_part x p = (case p of (i, v) \<Rightarrow>
     case it_parts x i of None \<Rightarrow> protocol ''Responses content did not complete''
     | Some part \<Rightarrow>
         bindE (demand (pt_done part) ''Responses content did not complete'') (\<lambda>_.
         bindE (responses_text v ''type'') (\<lambda>how.
         bindE (demand (how = pt_type part) ''Responses final text differs from stream'') (\<lambda>_.
         has_text v (part_key how) (pt_value part) ''Responses final text differs from stream''))))"

definition final_message :: "response_item \<Rightarrow> json \<Rightarrow> stream_error + unit" where
  "final_message x v =
     bindE (demand (at_key v ''role'' = JStr ''assistant'' \<and> has_member v ''content'' \<and>
         is_array (at_key v ''content'') \<and>
         length (elements (at_key v ''content'')) = length (positions (it_parts x)))
       ''Responses final message differs from stream'') (\<lambda>_.
     forE (final_part x) (enumerate 0 (elements (at_key v ''content''))))"

definition final_function :: "json_lib \<Rightarrow> response_item \<Rightarrow> json \<Rightarrow> stream_error + unit" where
  "final_function lib x v =
     (let bad = ''Responses final function differs from stream'' in
      bindE (demand (it_args_done x) bad) (\<lambda>_.
      bindE (has_text v ''call_id'' (it_call_id x) bad) (\<lambda>_.
      bindE (has_text v ''name'' (it_name x) bad) (\<lambda>_.
      bindE (has_text v ''arguments'' (it_arguments x) bad) (\<lambda>_.
      bindE (responses_parse lib (it_arguments x)) (\<lambda>args. demand (is_object args) bad))))))"

definition final_summary :: "response_item \<Rightarrow> nat \<times> json \<Rightarrow> stream_error + unit" where
  "final_summary x p = (case p of (i, v) \<Rightarrow>
     let bad = ''Responses summary differs from stream'' in
     case it_summaries x i of None \<Rightarrow> protocol bad
     | Some part \<Rightarrow>
         bindE (demand (pt_done part) bad) (\<lambda>_.
         bindE (value_or_null v ''type'') (\<lambda>how.
         bindE (demand (how = JStr ''summary_text'') bad) (\<lambda>_.
         has_text v ''text'' (pt_value part) bad))))"

definition final_reasoning :: "response_item \<Rightarrow> json \<Rightarrow> stream_error + unit" where
  "final_reasoning x v =
     bindE (demand ((has_member v ''content'' \<longrightarrow> at_key v ''content'' = JArr []) \<and>
         has_member v ''summary'' \<and> is_array (at_key v ''summary'') \<and>
         length (elements (at_key v ''summary'')) = length (positions (it_summaries x)))
       ''Unsupported or incomplete Responses reasoning'') (\<lambda>_.
     bindE (forE (final_summary x) (enumerate 0 (elements (at_key v ''summary'')))) (\<lambda>_.
     demand (has_member v ''encrypted_content'' \<and> is_string (at_key v ''encrypted_content'') \<and>
         str_of (at_key v ''encrypted_content'') \<noteq> [])
       ''Responses reasoning lacks stateless continuation''))"

definition final_item :: "json_lib \<Rightarrow> response_item \<Rightarrow> json \<Rightarrow> stream_error + response_item" where
  "final_item lib x v =
     (let changed = ''Responses final item identity changed'' in
      bindE (has_text v ''id'' (it_id x) changed) (\<lambda>_.
      bindE (has_text v ''type'' (it_type x) changed) (\<lambda>_.
      if at_key v ''status'' = JStr ''incomplete''
      then Inr (x\<lparr>it_final := v, it_incomplete := True, it_done := True\<rparr>)
      else
        bindE (demand (has_member v ''status'' \<longrightarrow> at_key v ''status'' = JStr ''completed'')
          ''Responses item did not complete'') (\<lambda>_.
        bindE (if it_type x = ''message'' then final_message x v
               else if it_type x = ''function_call'' then final_function lib x v
               else if it_type x = ''reasoning'' then final_reasoning x v
               else Inr ()) (\<lambda>_.
        Inr (x\<lparr>it_final := v, it_done := True\<rparr>))))))"

section \<open>The terminal event\<close>

definition terminal_matches :: "json_lib \<Rightarrow> response_item \<Rightarrow> json \<Rightarrow> bool" where
  "terminal_matches lib x final =
     (same lib (it_final x) final \<or>
      (it_type x = ''reasoning'' \<and> is_object (it_final x) \<and> is_object final \<and>
       length (members (it_final x)) = length (members final) \<and>
       is_string (at_key (it_final x) ''encrypted_content'') \<and> is_string (at_key final ''encrypted_content'') \<and>
       str_of (at_key (it_final x) ''encrypted_content'') \<noteq> [] \<and>
       str_of (at_key final ''encrypted_content'') \<noteq> [] \<and>
       list_all (\<lambda>(k, v). k = ''encrypted_content'' \<or> same_option lib (Some v) (member final k))
         (members (it_final x))))"

definition field_report :: "json_lib \<Rightarrow> json option \<Rightarrow> json \<Rightarrow> bytes \<Rightarrow> bool \<times> json" where
  "field_report lib completed final k =
     (let before = opt_field completed k; after = member final k; equal = same_option lib before after in
      (equal, JObj [(''completed_present'', JBool (before \<noteq> None)), (''completed_type'', JStr (diagnostic_type before)),
        (''equal'', JBool equal), (''field'', JStr k), (''terminal_present'', JBool (after \<noteq> None)),
        (''terminal_type'', JStr (diagnostic_type after))]))"

definition terminal_report :: "json_lib \<Rightarrow> nat \<Rightarrow> response_item option \<Rightarrow> json \<Rightarrow> json" where
  "terminal_report lib i current final =
     (let finished = (case current of None \<Rightarrow> False | Some x \<Rightarrow> it_done x);
          completed = (if finished then map_option it_final current else None);
          reports = map (\<lambda>k. (k, field_report lib completed final k)) diagnostic_fields in
      JObj [(''changed_fields'', JArr (map (\<lambda>(k, _). JStr k) (filter (\<lambda>(_, equal, _). \<not> equal) reports))),
        (''code'', JStr ''responses_terminal_mismatch''),
        (''completed_snapshot_type'', JStr (diagnostic_type completed)),
        (''fields'', JArr (map (\<lambda>(_, _, report). report) reports)),
        (''item_done'', JBool finished), (''item_present'', JBool (current \<noteq> None)),
        (''output_index'', JInt (int i)),
        (''terminal_snapshot_type'', JStr (diagnostic_type (Some final))),
        (''unlisted_fields_equal'', JBool (unlisted_fields_equal lib completed final))])"

definition terminal_diagnostic :: "json_lib \<Rightarrow> 'k chat_sink \<Rightarrow> nat \<Rightarrow> response_item option \<Rightarrow> json \<Rightarrow>
    'k responses_step" where
  "terminal_diagnostic lib sink i current final s =
     (let report = terminal_report lib i current final in
      reads s (dump_value lib report) (\<lambda>encoded.
      reads s (demand (length encoded \<le> max_diagnostic)
        ''Responses terminal output differs from completed items'') (\<lambda>_.
      sse_emit lib sink ''model.protocol_diagnostic'' report s)))"

definition add_part :: "completion \<Rightarrow> response_part \<Rightarrow> stream_error + completion" where
  "add_part c p =
     (if pt_type p = ''output_text''
      then bindE (responses_append (content c) (pt_value p) responses_limit) (\<lambda>t. Inr (c\<lparr>content := t\<rparr>))
      else bindE (responses_append (refusal c) (pt_value p) responses_limit) (\<lambda>t. Inr (c\<lparr>refusal := t\<rparr>)))"

definition add_item :: "completion \<Rightarrow> response_item \<Rightarrow> stream_error + completion" where
  "add_item c x =
     (if it_type x = ''message'' then foldE add_part c (in_order (it_parts x))
      else if it_type x = ''function_call'' then Inr (c\<lparr>tool_calls := tool_calls c @
        [\<lparr>call_id = it_call_id x, call_name = it_name x, arguments_json = it_arguments x\<rparr>]\<rparr>)
      else Inr c)"

definition terminal_output :: "json_lib \<Rightarrow> 'k chat_sink \<Rightarrow> 'k responses \<Rightarrow> nat \<times> json \<Rightarrow>
    ('k responses, 'k responses) outcome" where
  "terminal_output lib sink s p = (case p of (i, final) \<Rightarrow>
     let found = rs_items s i in
     reads s (demand (\<not> (case found of None \<Rightarrow> False | Some x \<Rightarrow> it_incomplete x))
       ''Responses item did not complete'') (\<lambda>_.
     case found of
       Some x \<Rightarrow>
         if it_done x \<and> terminal_matches lib x final
         then reads s (add_item (rs_completion s) x) (\<lambda>c. Inr (s\<lparr>rs_completion := c\<rparr>))
         else bindE (terminal_diagnostic lib sink i found final s) (\<lambda>t.
           Inl (Protocol ''Responses terminal output differs from completed items'', t))
     | None \<Rightarrow> bindE (terminal_diagnostic lib sink i found final s) (\<lambda>t.
           Inl (Protocol ''Responses terminal output differs from completed items'', t))))"

definition receipt_append :: "bytes \<Rightarrow> bytes \<Rightarrow> stream_error + bytes" where
  "receipt_append acc v =
     (if length v > responses_limit - length acc then protocol ''Responses continuation exceeds limits''
      else Inr (acc @ v))"

fun completed_loop :: "json_lib \<Rightarrow> bool \<Rightarrow> bytes \<Rightarrow> response_item list \<Rightarrow> stream_error + bytes" where
  "completed_loop lib separator acc [] = receipt_append acc '']''"
| "completed_loop lib separator acc (x # xs) =
     bindE (if separator then receipt_append acc '','' else Inr acc) (\<lambda>acc1.
     bindE (dump_value lib (it_final x)) (\<lambda>text'.
     bindE (receipt_append acc1 text') (\<lambda>acc2. completed_loop lib True acc2 xs)))"

definition completed_items :: "json_lib \<Rightarrow> 'k responses \<Rightarrow> stream_error + bytes" where
  "completed_items lib s = completed_loop lib False ''['' (in_order (rs_items s))"

definition put :: "bytes \<Rightarrow> json \<Rightarrow> json \<Rightarrow> json" where
  "put k v x = JObj (put_member k v (members x))"

text \<open>The names of the chat interface beside those of the provider.\<close>

definition chat_names :: "json \<Rightarrow> json" where
  "chat_names u =
     (let u1 = put ''prompt_tokens'' (at_key u ''input_tokens'') u;
          u2 = put ''completion_tokens'' (at_key u1 ''output_tokens'') u1;
          u3 = (if has_member u2 ''input_tokens_details''
            then put ''prompt_tokens_details'' (at_key u2 ''input_tokens_details'') u2 else u2) in
      if has_member u3 ''output_tokens_details''
      then put ''completion_tokens_details'' (at_key u3 ''output_tokens_details'') u3 else u3)"

definition detail_ok :: "json \<Rightarrow> bytes \<times> bytes \<Rightarrow> bool" where
  "detail_ok usage p = (case p of (grp, k) \<Rightarrow> has_member usage grp \<longrightarrow>
     is_object (at_key usage grp) \<and>
     (has_member (at_key usage grp) k \<longrightarrow> is_integer (at_key (at_key usage grp) k) \<and>
        \<not> below_zero (at_key (at_key usage grp) k)))"

definition terminal_usage :: "json_lib \<Rightarrow> 'k chat_sink \<Rightarrow> json \<Rightarrow> 'k responses_step" where
  "terminal_usage lib sink response s =
     (if \<not> present response ''usage'' then Inr s
      else let usage = at_key response ''usage'' in
        reads s (demand (is_object usage) ''Invalid Responses usage'') (\<lambda>_.
        reads s (demand (list_all (\<lambda>k. has_member usage k \<and> is_integer (at_key usage k) \<and>
            \<not> below_zero (at_key usage k)) [''input_tokens'', ''output_tokens'', ''total_tokens''])
          ''Invalid Responses token count'') (\<lambda>_.
        reads s (demand (list_all (detail_ok usage) [(''input_tokens_details'', ''cached_tokens''),
            (''output_tokens_details'', ''reasoning_tokens'')]) ''Invalid Responses token details'') (\<lambda>_.
        let reported = chat_names usage in
        reads s (dump_value lib reported) (\<lambda>dumped.
        sse_emit lib sink ''model.usage'' reported
          (s\<lparr>rs_completion := (rs_completion s)\<lparr>usage_json := dumped\<rparr>\<rparr>))))))"

definition settle_responses :: "json_lib \<Rightarrow> 'k chat_sink \<Rightarrow> 'k responses_step" where
  "settle_responses lib sink s =
     (let reason = (if tool_calls (rs_completion s) = [] then ''stop'' else ''tool_calls'') in
      bindE (sse_emit lib sink ''model.finish'' (JObj [(''reason'', JStr reason)])
        (s\<lparr>rs_completion := (rs_completion s)\<lparr>finish_reason := reason\<rparr>\<rparr>)) (\<lambda>t.
      sse_emit lib sink ''model.done'' (JObj []) (t\<lparr>rs_done := True\<rparr>)))"

definition terminal :: "json_lib \<Rightarrow> 'k chat_sink \<Rightarrow> json \<Rightarrow> 'k responses_step" where
  "terminal lib sink event s =
     reads s (must_have event ''response'') (\<lambda>response.
     bindE (response_identity response s) (\<lambda>t.
     reads t (demand (at_key response ''status'' = JStr ''completed'' \<and>
         \<not> present response ''error'' \<and> has_member response ''output'' \<and>
         is_array (at_key response ''output'') \<and>
         length (elements (at_key response ''output'')) = length (positions (rs_items t)))
       ''Responses turn did not complete'') (\<lambda>_.
     bindE (foldE (terminal_output lib sink) t (enumerate 0 (elements (at_key response ''output'')))) (\<lambda>u.
     reads u (completed_items lib u) (\<lambda>receipt.
     bindE (terminal_usage lib sink response
       (u\<lparr>rs_completion := (rs_completion u)\<lparr>provider_items_json := receipt\<rparr>\<rparr>))
       (settle_responses lib sink))))))"

section \<open>Failures of the provider\<close>

definition count_ok :: "json \<Rightarrow> bool" where
  "count_ok v \<longleftrightarrow> is_integer v \<and> 0 \<le> int_of v \<and> int_of v \<le> counters_max"

definition failure_details :: "int \<Rightarrow> int \<Rightarrow> json \<Rightarrow> json \<Rightarrow> bytes \<times> bytes list \<Rightarrow> json option" where
  "failure_details input output' supplied usage p = (case p of (grp, ks) \<Rightarrow>
     case member supplied grp of
       None \<Rightarrow> Some usage
     | Some JNull \<Rightarrow> Some usage
     | Some details \<Rightarrow>
         if \<not> is_object details then None
         else fold (\<lambda>k acc. Option.bind acc (\<lambda>u.
             case member details k of None \<Rightarrow> Some u
             | Some n \<Rightarrow>
                 if \<not> count_ok n \<or> int_of n > (if grp = ''input_tokens_details'' then input else output')
                 then None else Some (put grp (put k n (at_key u grp)) u)))
           ks (Some usage))"

definition failure_counts :: "json \<Rightarrow> json option" where
  "failure_counts supplied =
     fold (\<lambda>k acc. Option.bind acc (\<lambda>u. case member supplied k of None \<Rightarrow> None
         | Some n \<Rightarrow> if count_ok n then Some (put k n u) else None))
       [''input_tokens'', ''output_tokens'', ''total_tokens''] (Some (JObj []))"

definition failure_usage :: "json option \<Rightarrow> json option" where
  "failure_usage supplied =
     (case supplied of None \<Rightarrow> None
      | Some v \<Rightarrow>
          if \<not> is_object v then None
          else Option.bind (failure_counts v) (\<lambda>u.
            let input = int_of (at_key u ''input_tokens''); output' = int_of (at_key u ''output_tokens'') in
            if int_of (at_key u ''total_tokens'') \<noteq> input + output' then None
            else Option.bind (failure_details input output' v u
                (''input_tokens_details'', [''cached_tokens'', ''cache_write_tokens''])) (\<lambda>u1.
              Option.bind (failure_details input output' v u1
                (''output_tokens_details'', [''reasoning_tokens''])) (\<lambda>u2. Some (chat_names u2)))))"

definition failure_class :: "json \<Rightarrow> bytes \<Rightarrow> json option \<Rightarrow> json option" where
  "failure_class event ty response =
     (if ty = ''response.incomplete'' then opt_field (opt_field response ''incomplete_details'') ''reason''
      else if ty = ''response.failed'' then opt_field (opt_field response ''error'') ''code''
      else member event ''code'')"

definition known_reasons :: "bytes \<Rightarrow> bytes list" where
  "known_reasons ty =
     (if ty = ''response.incomplete''
      then [''max_output_tokens'', ''max_messages'', ''content_filter'', ''steered'']
      else [''server_error'', ''rate_limit_exceeded'', ''invalid_prompt''])"

definition failure_reason :: "bytes \<Rightarrow> json option \<Rightarrow> bytes" where
  "failure_reason ty c =
     (case c of Some (JStr r) \<Rightarrow> if r \<in> set (known_reasons ty) then r else ''other'' | _ \<Rightarrow> ''unspecified'')"

definition failure_message :: "bytes \<Rightarrow> bytes \<Rightarrow> bytes" where
  "failure_message ty reason =
     (if ty = ''response.incomplete'' \<and> reason = ''max_output_tokens'' then ''Responses output token limit reached''
      else if ty = ''response.incomplete'' \<and> reason = ''content_filter''
      then ''Responses provider content filter stopped output''
      else if ty \<noteq> ''response.incomplete'' \<and> reason = ''server_error'' then ''Responses provider server error''
      else if ty \<noteq> ''response.incomplete'' \<and> reason = ''rate_limit_exceeded''
      then ''Responses provider rate limit reached''
      else ''Provider response failed or was incomplete'')"

definition usage_state :: "json option \<Rightarrow> bytes" where
  "usage_state supplied =
     (case supplied of None \<Rightarrow> ''absent'' | Some JNull \<Rightarrow> ''unavailable''
      | Some v \<Rightarrow> if failure_usage supplied = None then ''invalid'' else ''supplied'')"

definition publish_failure :: "json_lib \<Rightarrow> 'k chat_sink \<Rightarrow> json \<Rightarrow> bytes \<Rightarrow> json option \<Rightarrow> 'k responses_step" where
  "publish_failure lib sink event ty response s =
     (let supplied = opt_field response ''usage'';
          reason = failure_reason ty (failure_class event ty response) in
      bindE (sse_emit lib sink ''model.protocol_diagnostic''
        (JObj [(''code'', JStr ''responses_provider_incomplete''), (''event'', JStr ty),
          (''reason'', JStr reason), (''usage_state'', JStr (usage_state supplied))]) s) (\<lambda>t.
      bindE (case failure_usage supplied of None \<Rightarrow> Inr t
        | Some u \<Rightarrow> sse_emit lib sink ''model.usage'' u t) (\<lambda>w.
      Inl (Protocol (failure_message ty reason), w))))"

definition provider_failure :: "json_lib \<Rightarrow> 'k chat_sink \<Rightarrow> json \<Rightarrow> bytes \<Rightarrow> 'k responses_step" where
  "provider_failure lib sink event ty s =
     (if ty = ''error'' then publish_failure lib sink event ty None s
      else case member event ''response'' of
          None \<Rightarrow> Inl (Protocol ''Invalid Responses failure event'', s)
        | Some response \<Rightarrow>
            bindE (response_identity response s) (\<lambda>t.
            reads t (demand (at_key response ''status'' =
                JStr (if ty = ''response.failed'' then ''failed'' else ''incomplete''))
              ''Invalid Responses failure event'') (\<lambda>_.
            publish_failure lib sink event ty (Some response) t)))"

section \<open>Events\<close>

definition responses_created :: "json \<Rightarrow> 'k responses_step" where
  "responses_created v s =
     reads s (demand (\<not> rs_created s) ''Duplicate Responses creation'') (\<lambda>_.
     reads s (must_have v ''response'') (\<lambda>response.
     reads s (responses_text response ''id'') (\<lambda>i.
     let t = s\<lparr>rs_response_id := i\<rparr> in
     reads t (responses_identity i) (\<lambda>_.
     bindE (response_identity response (t\<lparr>rs_created := True\<rparr>)) (\<lambda>u.
     reads u (demand (at_key response ''status'' = JStr ''in_progress'')
       ''Responses creation state is unsupported'') (\<lambda>_. Inr u))))))"

definition responses_progress :: "json \<Rightarrow> 'k responses_step" where
  "responses_progress v s =
     reads s (must_have v ''response'') (\<lambda>response.
     bindE (response_identity response s) (\<lambda>t.
     reads t (demand (at_key response ''status'' = JStr ''in_progress'') ''Invalid Responses progress'')
       (\<lambda>_. Inr t)))"

definition empty_item :: "bytes \<Rightarrow> bytes \<Rightarrow> response_item" where
  "empty_item i ty = \<lparr>it_id = i, it_type = ty, it_call_id = [], it_name = [], it_arguments = [],
     it_parts = Map.empty, it_summaries = Map.empty, it_final = JNull, it_done = False, it_args_done = False,
     it_incomplete = False\<rparr>"

definition start_function :: "json \<Rightarrow> response_item \<Rightarrow> 'k responses \<Rightarrow>
    ('k responses, response_item \<times> 'k responses) outcome" where
  "start_function added x s =
     reads s (responses_text added ''call_id'') (\<lambda>c. reads s (responses_identity c) (\<lambda>_.
     reads s (responses_text added ''name'') (\<lambda>n. reads s (responses_identity n) (\<lambda>_.
     let excessive = ''Duplicate or excessive Responses calls'' in
     reads s (demand (c \<notin> set (rs_calls s)) excessive) (\<lambda>_.
     let t = s\<lparr>rs_calls := c # rs_calls s\<rparr> in
     reads t (demand (length (rs_calls t) \<le> 64) excessive) (\<lambda>_.
     reads t (has_text added ''arguments'' [] ''Responses function starts with unexpected arguments'') (\<lambda>_.
     Inr (x\<lparr>it_call_id := c, it_name := n\<rparr>, t))))))))"

definition start_message_item :: "json \<Rightarrow> stream_error + unit" where
  "start_message_item added =
     demand (at_key added ''role'' = JStr ''assistant'' \<and> at_key added ''content'' = JArr [])
       ''Invalid Responses message start''"

definition start_reasoning_item :: "json \<Rightarrow> stream_error + unit" where
  "start_reasoning_item added =
     demand (at_key added ''summary'' = JArr [] \<and> (has_member added ''content'' \<longrightarrow> at_key added ''content'' = JArr []))
       ''Unsupported Responses reasoning start''"

definition item_added :: "json \<Rightarrow> 'k responses_step" where
  "item_added v s =
     (let twice = ''Duplicate Responses output item'' in
      reads s (responses_index v ''output_index'') (\<lambda>pos.
      reads s (must_have v ''item'') (\<lambda>added.
      reads s (responses_text added ''id'') (\<lambda>i. reads s (responses_identity i) (\<lambda>_.
      reads s (responses_text added ''type'') (\<lambda>ty.
      reads s (demand (rs_items s pos = None \<and> i \<notin> rs_ids s) twice) (\<lambda>_.
      let t = s\<lparr>rs_ids := insert i (rs_ids s)\<rparr>; x = empty_item i ty in
      bindE (if ty = ''function_call'' then start_function added x t
             else if ty = ''message'' then reads t (start_message_item added) (\<lambda>_. Inr (x, t))
             else if ty = ''reasoning'' then reads t (start_reasoning_item added) (\<lambda>_. Inr (x, t))
             else Inl (Protocol ''Unsupported Responses output item'', t)) (\<lambda>(y, u).
      Inr (put_item pos y u)))))))))"

definition function_arguments :: "json_lib \<Rightarrow> 'k chat_sink \<Rightarrow> bytes \<Rightarrow> json \<Rightarrow> nat \<Rightarrow> response_item \<Rightarrow>
    'k responses_step" where
  "function_arguments lib sink ty v pos x s =
     reads s (demand (it_type x = ''function_call'' \<and> \<not> it_args_done x) ''Invalid Responses function lifecycle'') (\<lambda>_.
     if ty = ''response.function_call_arguments.delta'' then
       reads s (responses_text v ''delta'') (\<lambda>delta.
       reads s (responses_append (it_arguments x) delta responses_limit) (\<lambda>all.
       sse_emit lib sink ''model.tool_delta''
         (JObj [(''arguments'', JStr delta), (''id'', JStr (it_call_id x)), (''index'', JInt (int pos)),
           (''name'', JStr (it_name x))])
         (put_item pos (x\<lparr>it_arguments := all\<rparr>) s)))
     else
       reads s (has_text v ''arguments'' (it_arguments x) ''Responses final arguments differ from deltas'') (\<lambda>_.
       Inr (put_item pos (x\<lparr>it_args_done := True\<rparr>) s)))"

text \<open>The parts of a message, or the summaries of a reasoning item.\<close>

definition parts_of :: "bool \<Rightarrow> response_item \<Rightarrow> nat \<rightharpoonup> response_part" where
  "parts_of summary x = (if summary then it_summaries x else it_parts x)"

definition put_part :: "bool \<Rightarrow> nat \<Rightarrow> nat \<Rightarrow> response_part \<Rightarrow> response_item \<Rightarrow> 'k responses \<Rightarrow> 'k responses" where
  "put_part summary pos i p x s = put_item pos
     (if summary then x\<lparr>it_summaries := (it_summaries x)(i \<mapsto> p)\<rparr> else x\<lparr>it_parts := (it_parts x)(i \<mapsto> p)\<rparr>) s"

definition text_key :: "bytes \<Rightarrow> bytes" where
  "text_key how = (if how = ''refusal'' then ''refusal'' else ''text'')"

definition part_added :: "bool \<Rightarrow> json \<Rightarrow> nat \<Rightarrow> nat \<Rightarrow> response_item \<Rightarrow> 'k responses_step" where
  "part_added summary v pos i x s =
     (let bad = ''Invalid Responses content start'' in
      reads s (must_have v ''part'') (\<lambda>part.
      reads s (responses_text part ''type'') (\<lambda>how.
      reads s (demand (parts_of summary x i = None \<and>
        (if summary then how = ''summary_text'' else how = ''output_text'' \<or> how = ''refusal'')) bad) (\<lambda>_.
      reads s (has_text part (text_key how) [] bad) (\<lambda>_.
      Inr (put_part summary pos i \<lparr>pt_type = how, pt_value = [], pt_done = False\<rparr> x s))))))"

definition expected_type :: "bool \<Rightarrow> bytes \<Rightarrow> bytes \<Rightarrow> bytes" where
  "expected_type summary refusal_event ty =
     (if summary then ''summary_text'' else if ty = refusal_event then ''refusal'' else ''output_text'')"

definition text_kind :: "bool \<Rightarrow> response_part \<Rightarrow> bytes" where
  "text_kind summary p = (if summary then ''model.reasoning''
     else if pt_type p = ''refusal'' then ''model.refusal'' else ''model.text'')"

definition text_delta :: "json_lib \<Rightarrow> 'k chat_sink \<Rightarrow> bool \<Rightarrow> bytes \<Rightarrow> json \<Rightarrow> nat \<Rightarrow> nat \<Rightarrow> response_item \<Rightarrow>
    response_part \<Rightarrow> 'k responses_step" where
  "text_delta lib sink summary ty v pos i x p s =
     reads s (demand (pt_type p = expected_type summary ''response.refusal.delta'' ty \<and> \<not> pt_done p)
       ''Invalid Responses text lifecycle'') (\<lambda>_.
     reads s (responses_text v ''delta'') (\<lambda>delta.
     reads s (responses_append (pt_value p) delta responses_limit) (\<lambda>all.
     sse_emit lib sink (text_kind summary p) (text_event delta)
       (put_part summary pos i (p\<lparr>pt_value := all\<rparr>) x s))))"

definition text_done :: "bool \<Rightarrow> bytes \<Rightarrow> json \<Rightarrow> nat \<Rightarrow> nat \<Rightarrow> response_item \<Rightarrow> response_part \<Rightarrow> 'k responses_step" where
  "text_done summary ty v pos i x p s =
     (let how = expected_type summary ''response.refusal.done'' ty;
          differs = ''Responses completed text differs from deltas'' in
      reads s (demand (pt_type p = how \<and> \<not> pt_done p) differs) (\<lambda>_.
      reads s (has_text v (text_key how) (pt_value p) differs) (\<lambda>_.
      Inr (put_part summary pos i (p\<lparr>pt_done := True\<rparr>) x s))))"

definition part_done :: "json \<Rightarrow> response_part \<Rightarrow> 'k responses_step" where
  "part_done v p s =
     (let differs = ''Responses final content differs from stream'' in
      reads s (must_have v ''part'') (\<lambda>final.
      reads s (demand (pt_done p) differs) (\<lambda>_.
      reads s (has_text final ''type'' (pt_type p) differs) (\<lambda>_.
      reads s (has_text final (text_key (pt_type p)) (pt_value p) differs) (\<lambda>_. Inr s)))))"

definition known_part :: "json_lib \<Rightarrow> 'k chat_sink \<Rightarrow> bool \<Rightarrow> bytes \<Rightarrow> json \<Rightarrow> nat \<Rightarrow> nat \<Rightarrow> response_item \<Rightarrow>
    response_part \<Rightarrow> 'k responses_step" where
  "known_part lib sink summary ty v pos i x p s =
     (if ty \<in> {''response.output_text.delta'', ''response.refusal.delta'', ''response.reasoning_summary_text.delta''}
      then text_delta lib sink summary ty v pos i x p s
      else if ty \<in> {''response.output_text.done'', ''response.refusal.done'', ''response.reasoning_summary_text.done''}
      then text_done summary ty v pos i x p s
      else if ty \<in> {''response.content_part.done'', ''response.reasoning_summary_part.done''} then part_done v p s
      else if ty = ''response.output_text.annotation.added'' \<and> pt_type p = ''output_text'' \<and> \<not> pt_done p
      then Inr s
      else Inl (Protocol ''Unsupported Responses event'', s))"

definition content_event :: "json_lib \<Rightarrow> 'k chat_sink \<Rightarrow> bytes \<Rightarrow> json \<Rightarrow> nat \<Rightarrow> response_item \<Rightarrow> 'k responses_step" where
  "content_event lib sink ty v pos x s =
     (let summary = starts_with ty ''response.reasoning_summary_'' in
      reads s (demand (it_type x = (if summary then ''reasoning'' else ''message''))
        ''Responses content belongs to wrong item type'') (\<lambda>_.
      reads s (responses_index v (if summary then ''summary_index'' else ''content_index'')) (\<lambda>i.
      if ty = ''response.content_part.added'' \<or> ty = ''response.reasoning_summary_part.added''
      then part_added summary v pos i x s
      else case parts_of summary x i of
          None \<Rightarrow> Inl (Protocol ''Responses delta has no content part'', s)
        | Some p \<Rightarrow> known_part lib sink summary ty v pos i x p s)))"

definition item_event :: "json_lib \<Rightarrow> 'k chat_sink \<Rightarrow> bytes \<Rightarrow> json \<Rightarrow> 'k responses_step" where
  "item_event lib sink ty v s =
     reads s (active_item s v) (\<lambda>(pos, x).
     if ty = ''response.output_item.done'' then
       reads s (must_have v ''item'') (\<lambda>final.
       reads s (final_item lib x final) (\<lambda>y. Inr (put_item pos y s)))
     else if ty = ''response.function_call_arguments.delta'' \<or> ty = ''response.function_call_arguments.done''
     then function_arguments lib sink ty v pos x s
     else content_event lib sink ty v pos x s)"

definition responses_event :: "json_lib \<Rightarrow> 'k chat_sink \<Rightarrow> bytes \<Rightarrow> json \<Rightarrow> 'k responses_step" where
  "responses_event lib sink ty v s =
     (if ty = ''response.created'' then responses_created v s
      else reads s (demand (rs_created s) ''Responses event before creation'') (\<lambda>_.
        if ty = ''response.in_progress'' then responses_progress v s
        else if ty = ''response.failed'' \<or> ty = ''response.incomplete'' \<or> ty = ''error''
        then provider_failure lib sink v ty s
        else if ty = ''response.completed'' then terminal lib sink v s
        else if ty = ''response.output_item.added'' then item_added v s
        else item_event lib sink ty v s))"

definition sequence_ok :: "int \<Rightarrow> json \<Rightarrow> bool" where
  "sequence_ok last' v \<longleftrightarrow> has_member v ''sequence_number'' \<and> is_integer (at_key v ''sequence_number'') \<and>
     \<not> below_zero (at_key v ''sequence_number'') \<and> last' < int_of (at_key v ''sequence_number'')"

definition responses_chunk :: "json_lib \<Rightarrow> 'k chat_sink \<Rightarrow> 'k responses_step" where
  "responses_chunk lib sink s =
     reads s (demand (\<not> rs_done s) ''Responses data after terminal event'') (\<lambda>_.
     reads s (responses_parse lib (sse_data s)) (\<lambda>v.
     reads s (demand (is_object v) ''Invalid Responses event'') (\<lambda>_.
     reads s (responses_text v ''type'') (\<lambda>ty.
     reads s (demand (sse_event s = [] \<or> sse_event s = ty) ''Responses SSE event type differs from payload'') (\<lambda>_.
     reads s (demand (sequence_ok (rs_sequence s) v) ''Invalid Responses event sequence'') (\<lambda>_.
     responses_event lib sink ty v (s\<lparr>rs_sequence := int_of (at_key v ''sequence_number'')\<rparr>)))))))"

section \<open>The stream\<close>

definition responses_rules :: sse_rules where
  "responses_rules = \<lparr>grow = responses_append, data_bound = responses_limit,
     name_too_long = ''Responses event name exceeds limits'',
     stream_invalid = ''Responses stream is invalid'', stream_exceeded = ''Responses stream exceeds limits'',
     json_invalid = ''Invalid Responses JSON event''\<rparr>"

definition responses_feed :: "json_lib \<Rightarrow> 'k chat_sink \<Rightarrow> 'k responses \<Rightarrow> bytes \<Rightarrow> ('k responses, 'k responses) outcome" where
  "responses_feed lib sink = sse_guarded responses_rules (\<lambda>_. False) (responses_chunk lib sink)"

definition responses_finish :: "'k responses \<Rightarrow> stream_error + completion" where
  "responses_finish s =
     (if sse_failed s \<or> \<not> rs_done s \<or> sse_line s \<noteq> [] \<or> sse_has_data s
      then protocol ''Incomplete Responses stream'' else Inr (rs_completion s))"

end
