(* ===== verification/Mcp_Session.thy ===== *)
theory Mcp_Session
  imports Mcp_Wire "HOL-Library.Multiset"
begin

text \<open>
  The client side of an MCP session upon the wire codec. \<open>mcp_requests.cpp\<close>: the tracker that
  gives requests their identities and matches replies with them. \<open>mcp_handshake.cpp\<close>: the
  negotiation of protocol era and version, which shares the tracker by reference, so its
  operations take and return both states. \<open>mcp_subscriptions.cpp\<close>: what a subscription stream may
  carry. An exception is \<open>Refused\<close> with the text of the \<open>McpProtocolError\<close>, \<open>Bad_argument\<close>, or an
  error of the codec.
\<close>

datatype session_error = Refused bytes | Bad_argument bytes | Wire mcp_error

abbreviation wired :: "mcp_error + 'a \<Rightarrow> session_error + 'a" where
  "wired r \<equiv> map_error Wire r"

section \<open>The request tracker\<close>

record pending_request =
  request_id :: bytes
  request_method :: bytes

record prepared_request =
  prepared :: pending_request
  request_frame :: bytes

record correlated_reply =
  reply_request :: pending_request
  reply_response :: mcp_message

datatype retirement = Completed | Cancelled | Abandoned

text \<open>\<open>active\<close> is in the order of its keys. \<open>salt\<close> is the random prefix of the identities.\<close>

record tracker =
  active :: "(bytes \<times> pending_request) list"
  retired :: "bytes \<rightharpoonup> retirement"
  retired_order :: "bytes list"
  capacity :: nat
  sequence :: nat
  salt :: bytes

definition tracker_new :: "bytes \<Rightarrow> nat \<Rightarrow> session_error + tracker" where
  "tracker_new chosen limit =
     (if limit = 0 \<or> limit > 128 then Inl (Bad_argument ''MCP pending capacity must be 1-128'')
      else Inr \<lparr>active = [], retired = Map.empty, retired_order = [], capacity = limit,
                sequence = 0, salt = chosen\<rparr>)"

fun put_sorted :: "bytes \<Rightarrow> 'a \<Rightarrow> (bytes \<times> 'a) list \<Rightarrow> (bytes \<times> 'a) list" where
  "put_sorted k v [] = [(k, v)]"
| "put_sorted k v ((k', v') # kvs) =
     (if bytes_less k k' then (k, v) # (k', v') # kvs else (k', v') # put_sorted k v kvs)"

definition emplace :: "bytes \<Rightarrow> 'a \<Rightarrow> (bytes \<times> 'a) list \<Rightarrow> (bytes \<times> 'a) list" where
  "emplace k v kvs = (if map_of kvs k \<noteq> None then kvs else put_sorted k v kvs)"

definition erase :: "bytes \<Rightarrow> (bytes \<times> 'a) list \<Rightarrow> (bytes \<times> 'a) list" where
  "erase k kvs = filter (\<lambda>kv. fst kv \<noteq> k) kvs"

text \<open>The loop that forgets the oldest retired identities beyond 256.\<close>

fun evict :: "bytes list \<Rightarrow> (bytes \<rightharpoonup> retirement) \<Rightarrow> bytes list \<times> (bytes \<rightharpoonup> retirement)" where
  "evict [] m = ([], m)"
| "evict (k # ks) m = (if length (k # ks) > 256 then evict ks (m(k := None)) else (k # ks, m))"

definition retire :: "bytes \<Rightarrow> retirement \<Rightarrow> tracker \<Rightarrow> tracker" where
  "retire key reason t =
     (let (order, m) = evict (retired_order t @ [key])
            (if retired t key = None then (retired t)(key \<mapsto> reason) else retired t) in
      t\<lparr>retired := m, retired_order := order\<rparr>)"

definition tracker_prepare :: "json_lib \<Rightarrow> bytes \<Rightarrow> bytes \<Rightarrow> mcp_era \<Rightarrow> client_identity \<Rightarrow> tracker \<Rightarrow>
    session_error + prepared_request \<times> tracker" where
  "tracker_prepare lib m params era ident t =
     (if length (active t) \<ge> capacity t then Inl (Refused ''MCP pending request capacity exhausted'')
      else if sequence t = 2 ^ 64 - 1 then Inl (Refused ''MCP request identity sequence exhausted'')
      else let i = salt t @ decimal (sequence t + 1); request = \<lparr>request_id = i, request_method = m\<rparr> in
        bindE (wired (mcp_request lib i m params era ident)) (\<lambda>encoded.
        bindE (wired (dumpE lib (JStr i))) (\<lambda>key.
          Inr (\<lparr>prepared = request, request_frame = encoded\<rparr>,
               t\<lparr>active := emplace key request (active t), sequence := sequence t + 1\<rparr>))))"

definition tracker_receive :: "mcp_message \<Rightarrow> tracker \<Rightarrow> session_error + correlated_reply option \<times> tracker" where
  "tracker_receive message t =
     (if kind message \<noteq> Result \<and> kind message \<noteq> Error
      then Inl (Refused ''MCP request tracker accepts responses only'')
      else case map_of (active t) (msg_id message) of
        None \<Rightarrow>
          (case retired t (msg_id message) of
            None \<Rightarrow> Inl (Refused ''MCP response has an unknown request ID'')
          | Some reason \<Rightarrow>
              if reason \<noteq> Completed then Inr (None, t) else Inl (Refused ''Duplicate MCP response''))
      | Some request \<Rightarrow>
          Inr (Some \<lparr>reply_request = request, reply_response = message\<rparr>,
               (retire (msg_id message) Completed t)\<lparr>active := erase (msg_id message) (active t)\<rparr>))"

definition tracker_cancel :: "json_lib \<Rightarrow> bytes \<Rightarrow> tracker \<Rightarrow> session_error + bytes \<times> tracker" where
  "tracker_cancel lib i t =
     bindE (wired (dumpE lib (JStr i))) (\<lambda>key.
       case map_of (active t) key of
         None \<Rightarrow> Inl (Refused ''MCP cancellation has no pending request'')
       | Some request \<Rightarrow>
           if request_method request = ''initialize''
           then Inl (Refused ''MCP initialize cannot be cancelled on the wire'')
           else bindE (wired (dumpE lib (JObj [(''requestId'', JStr i)]))) (\<lambda>params.
             bindE (wired (mcp_notification lib ''notifications/cancelled'' params)) (\<lambda>notice.
               Inr (notice, (retire key Cancelled t)\<lparr>active := erase key (active t)\<rparr>))))"

text \<open>The loop of \<open>abandon_all\<close> goes over the pending requests in the order of their keys.\<close>

definition tracker_abandon_all :: "tracker \<Rightarrow> pending_request list \<times> tracker" where
  "tracker_abandon_all t =
     (map snd (active t), (fold (\<lambda>kr. retire (fst kr) Abandoned) (active t) t)\<lparr>active := []\<rparr>)"

definition tracker_abandon :: "json_lib \<Rightarrow> bytes \<Rightarrow> tracker \<Rightarrow> session_error + pending_request \<times> tracker" where
  "tracker_abandon lib i t =
     bindE (wired (dumpE lib (JStr i))) (\<lambda>key.
       case map_of (active t) key of
         None \<Rightarrow> Inl (Refused ''MCP abandonment has no pending request'')
       | Some request \<Rightarrow>
           Inr (request, (retire key Abandoned t)\<lparr>active := erase key (active t)\<rparr>))"

definition tracker_pending :: "tracker \<Rightarrow> nat" where
  "tracker_pending t = length (active t)"

section \<open>Every request is settled once\<close>

text \<open>
  The calls of the tracker's owner and what they tell it: a request sent, a reply matched with
  its request, an identity given up. A call that throws leaves the tracker as it was.
\<close>

datatype tracker_call = Prepare bytes bytes mcp_era client_identity | Receive mcp_message
  | Cancel bytes | Abandon bytes | Abandon_all

datatype tracker_event = Sent pending_request | Answered correlated_reply | Dropped bytes

fun call_tracker :: "json_lib \<Rightarrow> tracker_call \<Rightarrow> tracker \<Rightarrow> tracker_event list \<times> tracker" where
  "call_tracker lib (Prepare m params era ident) t =
     (case tracker_prepare lib m params era ident t of Inl _ \<Rightarrow> ([], t)
      | Inr (p, t') \<Rightarrow> ([Sent (prepared p)], t'))"
| "call_tracker lib (Receive message) t =
     (case tracker_receive message t of Inl _ \<Rightarrow> ([], t)
      | Inr (None, t') \<Rightarrow> ([], t')
      | Inr (Some reply, t') \<Rightarrow> ([Answered reply], t'))"
| "call_tracker lib (Cancel i) t =
     (case tracker_cancel lib i t of Inl _ \<Rightarrow> ([], t) | Inr (_, t') \<Rightarrow> ([Dropped i], t'))"
| "call_tracker lib (Abandon i) t =
     (case tracker_abandon lib i t of Inl _ \<Rightarrow> ([], t)
      | Inr (request, t') \<Rightarrow> ([Dropped (request_id request)], t'))"
| "call_tracker lib Abandon_all t =
     (case tracker_abandon_all t of (requests, t') \<Rightarrow> (map (\<lambda>r. Dropped (request_id r)) requests, t'))"

fun run_tracker :: "json_lib \<Rightarrow> tracker_call list \<Rightarrow> tracker \<Rightarrow> tracker_event list \<times> tracker" where
  "run_tracker lib [] t = ([], t)"
| "run_tracker lib (c # cs) t =
     (case call_tracker lib c t of (es, t') \<Rightarrow>
        case run_tracker lib cs t' of (fs, t'') \<Rightarrow> (es @ fs, t''))"

fun sent_id :: "tracker_event \<Rightarrow> bytes list" where
  "sent_id (Sent r) = [request_id r]" | "sent_id _ = []"

fun settled_id :: "tracker_event \<Rightarrow> bytes list" where
  "settled_id (Sent r) = []"
| "settled_id (Answered c) = [request_id (reply_request c)]"
| "settled_id (Dropped i) = [i]"

definition sent_ids :: "tracker_event list \<Rightarrow> bytes list" where
  "sent_ids es = concat (map sent_id es)"

definition settled_ids :: "tracker_event list \<Rightarrow> bytes list" where
  "settled_ids es = concat (map settled_id es)"

definition pending_ids :: "tracker \<Rightarrow> bytes list" where
  "pending_ids t = map (\<lambda>kr. request_id (snd kr)) (active t)"

lemma event_ids [simp]:
  "sent_ids [] = []" "settled_ids [] = []"
  "sent_ids (e # es) = sent_id e @ sent_ids es" "settled_ids (e # es) = settled_id e @ settled_ids es"
  "sent_ids (es @ fs) = sent_ids es @ sent_ids fs" "settled_ids (es @ fs) = settled_ids es @ settled_ids fs"
  "sent_ids (map (\<lambda>r. Dropped (f r)) rs) = []" "settled_ids (map (\<lambda>r. Dropped (f r)) rs) = map f rs"
  by (simp_all add: sent_ids_def settled_ids_def comp_def)

text \<open>The document library writes different strings differently, as a reader of its output needs.\<close>

definition dump_separates :: "json_lib \<Rightarrow> bool" where
  "dump_separates lib \<longleftrightarrow>
     (\<forall>a b k. dump lib (JStr a) = Some k \<longrightarrow> dump lib (JStr b) = Some k \<longrightarrow> a = b)"

text \<open>The keys of the pending requests are the identities as the library writes them.\<close>

definition keyed :: "json_lib \<Rightarrow> (bytes \<times> pending_request) list \<Rightarrow> bool" where
  "keyed lib kvs \<longleftrightarrow> distinct (map fst kvs) \<and>
     (\<forall>(k, r) \<in> set kvs. dump lib (JStr (request_id r)) = Some k)"

lemma dumpE_Inr [result_simps]: "dumpE lib v = Inr s \<longleftrightarrow> dump lib v = Some s"
  by (simp add: dumpE_def split: option.splits)

lemma put_sorted_mset: "mset (put_sorted k v kvs) = add_mset (k, v) (mset kvs)"
  by (induction k v kvs rule: put_sorted.induct) auto

lemma put_sorted_set [simp]: "set (put_sorted k v kvs) = insert (k, v) (set kvs)"
  using arg_cong [OF put_sorted_mset, of set_mset k v kvs] by simp

lemma put_sorted_distinct: "distinct (map fst (put_sorted k v kvs)) \<longleftrightarrow> k \<notin> fst ` set kvs \<and> distinct (map fst kvs)"
  by (induction k v kvs rule: put_sorted.induct) auto

lemma put_sorted_length: "length (put_sorted k v kvs) = Suc (length kvs)"
  using arg_cong [OF put_sorted_mset, of size k v kvs] by simp

lemma erase_mset:
  "distinct (map fst kvs) \<Longrightarrow> map_of kvs k = Some r \<Longrightarrow> mset kvs = add_mset (k, r) (mset (erase k kvs))"
proof (induction kvs)
  case (Cons kv kvs)
  show ?case
  proof (cases "fst kv = k")
    case True
    then have "erase k kvs = kvs" using Cons.prems(1) unfolding erase_def
      by (intro filter_True) (metis distinct.simps(2) image_eqI list.set_map list.simps(9))
    then show ?thesis using Cons.prems True by (cases kv) (simp add: erase_def)
  next
    case False
    then show ?thesis using Cons by (cases kv) (simp add: erase_def)
  qed
qed simp

lemma erase_keyed: "keyed lib kvs \<Longrightarrow> keyed lib (erase k kvs)"
  by (auto simp: keyed_def erase_def distinct_map_filter)

lemma erase_length: "length (erase k kvs) \<le> length kvs"
  by (simp add: erase_def)

lemma keyed_find: "keyed lib kvs \<Longrightarrow> map_of kvs k = Some r \<Longrightarrow> dump lib (JStr (request_id r)) = Some k"
  by (auto simp: keyed_def dest!: map_of_SomeD)

lemma keyed_emplace:
  assumes "dump_separates lib" and "keyed lib kvs" and "dump lib (JStr (request_id r)) = Some k"
    and "request_id r \<notin> (\<lambda>kr. request_id (snd kr)) ` set kvs"
  shows "keyed lib (emplace k r kvs)" "mset (emplace k r kvs) = add_mset (k, r) (mset kvs)"
proof -
  have "map_of kvs k \<noteq> Some q" for q
    using keyed_find [OF assms(2), of k q] assms(1,3,4) unfolding dump_separates_def
    by (metis image_eqI map_of_SomeD snd_conv)
  then have "map_of kvs k = None" by auto
  then show "keyed lib (emplace k r kvs)" "mset (emplace k r kvs) = add_mset (k, r) (mset kvs)"
    using assms(2,3) by (auto simp: emplace_def keyed_def put_sorted_distinct put_sorted_mset map_of_eq_None_iff)
qed

text \<open>Retired identities: a window of 256, and no memory outside it.\<close>

definition window :: "tracker \<Rightarrow> bool" where
  "window t \<longleftrightarrow> length (retired_order t) \<le> 256 \<and> dom (retired t) \<subseteq> set (retired_order t)"

lemma evict_window:
  "dom m \<subseteq> set ks \<Longrightarrow> evict ks m = (ks', m') \<Longrightarrow> length ks' \<le> 256 \<and> dom m' \<subseteq> set ks'"
  by (induction ks m arbitrary: ks' m' rule: evict.induct) (auto split: if_splits)

lemma retire_window:
  assumes "window t"
  shows "window (retire k reason t)"
proof -
  define m where "m = (if retired t k = None then (retired t)(k \<mapsto> reason) else retired t)"
  obtain ks m' where e: "evict (retired_order t @ [k]) m = (ks, m')" by fastforce
  have "dom m \<subseteq> set (retired_order t @ [k])" using assms by (auto simp: m_def window_def)
  from evict_window [OF this e] show ?thesis using e by (simp add: window_def retire_def m_def)
qed

lemma retire_frame [simp]:
  "active (retire k reason t) = active t" "capacity (retire k reason t) = capacity t"
  "sequence (retire k reason t) = sequence t" "salt (retire k reason t) = salt t"
  by (simp_all add: retire_def split: prod.split)

lemma window_active [simp]:
  "window (t\<lparr>active := a\<rparr>) = window t" "window (t\<lparr>sequence := n\<rparr>) = window t"
  by (simp_all add: window_def)

lemma retire_all_window: "window t \<Longrightarrow> window (fold (\<lambda>kr. retire (f kr) reason) kvs t)"
  by (induction kvs arbitrary: t) (simp_all add: retire_window)

lemma retire_all_frame [simp]:
  "active (fold (\<lambda>kr. retire (f kr) reason) kvs t) = active t"
  "capacity (fold (\<lambda>kr. retire (f kr) reason) kvs t) = capacity t"
  "sequence (fold (\<lambda>kr. retire (f kr) reason) kvs t) = sequence t"
  "salt (fold (\<lambda>kr. retire (f kr) reason) kvs t) = salt t"
  by (induction kvs arbitrary: t) simp_all

text \<open>
  The history \<open>es\<close> agrees with the tracker: identities are numbered, sent once, and each is either
  pending or settled once; a reply carries the identity of the request it was matched with.
\<close>

definition numbered :: "tracker \<Rightarrow> bytes \<Rightarrow> bool" where
  "numbered t i \<longleftrightarrow> (\<exists>n. 1 \<le> n \<and> n \<le> sequence t \<and> i = salt t @ decimal n)"

definition agrees :: "json_lib \<Rightarrow> tracker_event list \<Rightarrow> tracker \<Rightarrow> bool" where
  "agrees lib es t \<longleftrightarrow> keyed lib (active t) \<and> length (active t) \<le> capacity t \<and> window t \<and>
     distinct (sent_ids es) \<and> list_all (numbered t) (sent_ids es) \<and>
     mset (sent_ids es) = mset (pending_ids t) + mset (settled_ids es) \<and>
     (\<forall>(k, r) \<in> set (active t). Sent r \<in> set es) \<and>
     (\<forall>c. Answered c \<in> set es \<longrightarrow> Sent (reply_request c) \<in> set es \<and>
        dump lib (JStr (request_id (reply_request c))) = Some (msg_id (reply_response c)))"

lemma prepare_agrees:
  assumes "dump_separates lib" and "agrees lib es t"
    and "tracker_prepare lib m params era ident t = Inr (p, t')"
  shows "agrees lib (es @ [Sent (prepared p)]) t'"
proof -
  define i where "i = salt t @ decimal (sequence t + 1)"
  define r where "r = \<lparr>request_id = i, request_method = m\<rparr>"
  obtain key where room: "length (active t) < capacity t" and key: "dump lib (JStr i) = Some key"
    and p: "prepared p = r" and t': "t' = t\<lparr>active := emplace key r (active t), sequence := sequence t + 1\<rparr>"
    using assms(3) unfolding tracker_prepare_def Let_def i_def r_def
    by (auto simp: result_simps split: if_splits)
  have old: "list_all (numbered t) (sent_ids es)" and split: "mset (sent_ids es) = mset (pending_ids t) + mset (settled_ids es)"
    using assms(2) by (simp_all add: agrees_def)
  have fresh: "i \<notin> set (sent_ids es)"
    using old by (auto simp: list_all_iff numbered_def i_def dest!: decimal_inj)
  then have "i \<notin> set (pending_ids t)"
    using arg_cong [OF split, of set_mset] by auto
  then have "request_id r \<notin> (\<lambda>kr. request_id (snd kr)) ` set (active t)"
    by (simp add: r_def pending_ids_def)
  then have put: "keyed lib (emplace key r (active t))"
      "mset (emplace key r (active t)) = add_mset (key, r) (mset (active t))"
    using keyed_emplace [OF assms(1), of "active t" r key] assms(2) key by (simp_all add: agrees_def r_def)
  have ids: "mset (pending_ids t') = add_mset i (mset (pending_ids t))"
    using arg_cong [OF put(2), of "image_mset (\<lambda>kr. request_id (snd kr))"] by (simp add: pending_ids_def t' r_def)
  have "list_all (numbered t') (sent_ids es)" "numbered t' i"
    using old by (force simp: list_all_iff numbered_def t' i_def)+
  moreover have "length (active t') = Suc (length (active t))"
    using arg_cong [OF put(2), of size] by (simp add: t')
  moreover have "set (active t') = insert (key, r) (set (active t))"
    using arg_cong [OF put(2), of set_mset] by (simp add: t')
  ultimately show ?thesis
    using assms(2) put(1) ids fresh room split by (auto simp: agrees_def p r_def t')
qed

lemma settle_agrees:
  assumes "agrees lib es t" and "map_of (active t) key = Some r"
    and "settled_id e = [request_id r]" and "sent_id e = []"
    and "\<And>c. e = Answered c \<Longrightarrow> reply_request c = r \<and> msg_id (reply_response c) = key"
  shows "agrees lib (es @ [e]) ((retire key reason t)\<lparr>active := erase key (active t)\<rparr>)"
    (is "agrees lib _ ?t")
proof -
  have keys: "keyed lib (active t)" and split: "mset (sent_ids es) = mset (pending_ids t) + mset (settled_ids es)"
    using assms(1) by (simp_all add: agrees_def)
  have "mset (active t) = add_mset (key, r) (mset (erase key (active t)))"
    using keys by (intro erase_mset assms(2)) (simp add: keyed_def)
  from arg_cong [OF this, of "image_mset (\<lambda>kr. request_id (snd kr))"]
  have "mset (pending_ids t) = add_mset (request_id r) (mset (pending_ids ?t))"
    by (simp add: pending_ids_def)
  then have "mset (sent_ids es) = mset (pending_ids ?t) + add_mset (request_id r) (mset (settled_ids es))"
    using split by simp
  moreover have "length (erase key (active t)) \<le> capacity t"
    using erase_length [of key "active t"] assms(1) by (simp add: agrees_def)
  moreover have "numbered ?t = numbered t"
    by (simp add: fun_eq_iff numbered_def)
  moreover have "set (erase key (active t)) \<subseteq> set (active t)" "(key, r) \<in> set (active t)"
    using map_of_SomeD [OF assms(2)] by (auto simp: erase_def)
  ultimately show ?thesis
    using assms keyed_find [OF keys assms(2)] by (auto simp: agrees_def erase_keyed retire_window)
qed

lemma abandon_all_agrees:
  assumes "agrees lib es t"
  shows "agrees lib (es @ map (\<lambda>r. Dropped (request_id r)) (fst (tracker_abandon_all t)))
    (snd (tracker_abandon_all t))"
proof -
  have "numbered (snd (tracker_abandon_all t)) = numbered t"
    by (simp add: fun_eq_iff numbered_def tracker_abandon_all_def)
  then show ?thesis using assms
    by (auto simp: agrees_def tracker_abandon_all_def keyed_def pending_ids_def retire_all_window comp_def)
qed

lemma call_agrees:
  assumes law: "dump_separates lib" and now: "agrees lib es t" and "call_tracker lib c t = (fs, t')"
  shows "agrees lib (es @ fs) t'"
proof (cases c)
  case (Prepare m params era ident)
  then show ?thesis using assms prepare_agrees [OF law now, of m params era ident]
    by (auto split: sum.splits prod.splits)
next
  case (Receive message)
  have "agrees lib (es @ [Answered \<lparr>reply_request = r, reply_response = message\<rparr>])
      ((retire (msg_id message) Completed t)\<lparr>active := erase (msg_id message) (active t)\<rparr>)"
    if "map_of (active t) (msg_id message) = Some r" for r
    by (intro settle_agrees [OF now that]) simp_all
  then show ?thesis using assms Receive
    by (auto simp: tracker_receive_def split: sum.splits prod.splits option.splits if_splits)
next
  case (Cancel i)
  have "agrees lib (es @ [Dropped i]) ((retire key Cancelled t)\<lparr>active := erase key (active t)\<rparr>)"
    if "dump lib (JStr i) = Some key" "map_of (active t) key = Some r" for key r
  proof -
    have "request_id r = i"
      using keyed_find [OF _ that(2)] that(1) law now unfolding dump_separates_def agrees_def by blast
    then show ?thesis by (intro settle_agrees [OF now that(2)]) simp_all
  qed
  then show ?thesis using assms Cancel
    by (auto simp: tracker_cancel_def result_simps split: sum.splits prod.splits option.splits if_splits)
next
  case (Abandon i)
  have "agrees lib (es @ [Dropped (request_id r)])
      ((retire key Abandoned t)\<lparr>active := erase key (active t)\<rparr>)"
    if "map_of (active t) key = Some r" for key r
    by (intro settle_agrees [OF now that]) simp_all
  then show ?thesis using assms Abandon
    by (auto simp: tracker_abandon_def result_simps split: sum.splits prod.splits option.splits)
next
  case Abandon_all
  then show ?thesis using assms abandon_all_agrees [OF now]
    by (auto split: prod.splits)
qed

lemma run_agrees:
  "dump_separates lib \<Longrightarrow> agrees lib es t \<Longrightarrow> run_tracker lib cs t = (fs, t') \<Longrightarrow> agrees lib (es @ fs) t'"
proof (induction cs arbitrary: es fs t)
  case (Cons c cs)
  obtain gs u hs where "call_tracker lib c t = (gs, u)" "run_tracker lib cs u = (hs, t')" "fs = gs @ hs"
    using Cons.prems(3) by (auto split: prod.splits)
  then show ?case using Cons.IH [of "es @ gs" u hs] call_agrees [OF Cons.prems(1,2)] Cons.prems(1) by simp
qed simp

lemma call_capacity: "call_tracker lib c t = (fs, t') \<Longrightarrow> capacity t' = capacity t"
  by (cases c) (auto simp: tracker_prepare_def tracker_receive_def tracker_cancel_def tracker_abandon_def
    tracker_abandon_all_def Let_def result_simps split: sum.splits prod.splits option.splits if_splits)

lemma run_capacity: "run_tracker lib cs t = (fs, t') \<Longrightarrow> capacity t' = capacity t"
  by (induction cs arbitrary: fs t) (auto dest: call_capacity split: prod.splits)

lemma new_agrees: "tracker_new chosen limit = Inr t \<Longrightarrow> agrees lib [] t"
  by (auto simp: tracker_new_def agrees_def keyed_def window_def pending_ids_def split: if_splits)

text \<open>
  C40. Whatever its owner calls and whatever replies arrive, a tracker numbers its requests apart,
  every request sent is either still pending or was settled exactly once (answered, cancelled or
  abandoned), a reply is matched with a request that was sent and whose identity it carries, no
  more than the configured number is pending, and at most 256 retired identities are remembered.
\<close>
theorem mcp_requests_settle_once:
  assumes "dump_separates lib" and "tracker_new chosen limit = Inr t0" and "run_tracker lib cs t0 = (es, t)"
  shows "distinct (sent_ids es) \<and>
    mset (sent_ids es) = mset (pending_ids t) + mset (settled_ids es) \<and>
    (\<forall>c. Answered c \<in> set es \<longrightarrow> Sent (reply_request c) \<in> set es \<and>
       dump lib (JStr (request_id (reply_request c))) = Some (msg_id (reply_response c))) \<and>
    tracker_pending t \<le> limit \<and> limit \<le> 128 \<and>
    length (retired_order t) \<le> 256 \<and> dom (retired t) \<subseteq> set (retired_order t)"
proof -
  have "agrees lib es t" using run_agrees [OF assms(1) new_agrees [OF assms(2)] assms(3)] by simp
  moreover have "capacity t = limit" "limit \<le> 128"
    using run_capacity [OF assms(3)] assms(2) by (auto simp: tracker_new_def split: if_splits)
  ultimately show ?thesis by (simp add: agrees_def window_def tracker_pending_def)
qed

text \<open>A library that quotes strings and reads one document, and a session: one request answered twice, one cancelled late.\<close>

definition session_document :: json where
  "session_document = JObj [(''capabilities'', JObj [(''tools'', JObj [])]), (''jsonrpc'', JStr ''2.0''),
     (''method'', JStr ''ping''), (''supportedVersions'', JArr [JStr ''2026-07-28''])]"

definition session_lib :: json_lib where
  "session_lib = \<lparr>sax = (\<lambda>_. ([], Some session_document)),
     dump = (\<lambda>v. case v of JStr s \<Rightarrow> Some (quoted s) | _ \<Rightarrow> Some ''{}''), same = (=)\<rparr>"

definition session_reply :: "nat \<Rightarrow> mcp_message" where
  "session_reply n = \<lparr>kind = Result, msg_id = quoted (''x-'' @ decimal n), msg_method = [],
     payload = ''{}'', raw = []\<rparr>"

definition session_calls :: "tracker_call list" where
  "session_calls = [Prepare ''ping'' ''{}'' Legacy wire_ident, Receive (session_reply 1),
     Receive (session_reply 1), Prepare ''tools/list'' ''{}'' Legacy wire_ident, Cancel ''x-2'',
     Receive (session_reply 2), Prepare ''ping'' ''{}'' Legacy wire_ident]"

definition session_tracker :: tracker where
  "session_tracker = \<lparr>active = [], retired = Map.empty, retired_order = [], capacity = 1,
     sequence = 0, salt = ''x-''\<rparr>"

lemma session_lib_separates: "dump_separates session_lib"
  by (simp add: dump_separates_def session_lib_def quoted_def)

lemma session_lib_simps [simp]:
  "sax session_lib bs = ([], Some session_document)"
  "dump session_lib (JStr s) = Some (quoted s)"
  "dump session_lib (JObj kvs) = Some ''{}''"
  by (simp_all add: session_lib_def)

lemma session_parse [simp]: "bs \<noteq> [] \<Longrightarrow> length bs \<le> message_limit \<Longrightarrow>
    mcp_parse session_lib bs = Inr session_document"
  by (simp add: mcp_parse_def)

lemma session_members [simp]: "is_object session_document" "has_member session_document k \<longleftrightarrow>
    k \<in> {''capabilities'', ''jsonrpc'', ''method'', ''supportedVersions''}"
    "at_key session_document ''jsonrpc'' = JStr ''2.0''" "at_key session_document ''method'' = JStr ''ping''"
    "at_key session_document ''capabilities'' = JObj [(''tools'', JObj [])]"
    "at_key session_document ''supportedVersions'' = JArr [JStr ''2026-07-28'']"
    "members session_document \<noteq> []"
  by (simp_all add: session_document_def has_member_def member_def at_key_def)

lemma session_decode [simp]: "bs \<noteq> [] \<Longrightarrow> length bs \<le> message_limit \<Longrightarrow>
    decode session_lib bs = Inr \<lparr>kind = Notification, msg_id = [], msg_method = ''ping'',
      payload = ''{}'', raw = bs\<rparr>"
  by (simp add: decode_def decode_call_def check_text_def guardE_def)

lemma session_request:
  assumes "check_text i 128 Invalid_id = Inr ()" "check_text m 256 Invalid_method = Inr ()"
  shows "mcp_request session_lib i m ''{}'' Legacy ident = Inr (request_text (quoted i) (quoted m) ''{}'' @ [newline])"
proof -
  have "length i \<le> 128" "length m \<le> 256"
    using assms by (auto simp: check_text_def)
  then show ?thesis using assms
    by (simp add: mcp_request_def parameters_def mcp_compact_object_def message_limit_def json_space_def
      request_params_def dumpE_def catch_json_def request_text_def quoted_def)
qed

lemma session_notice: "mcp_notification session_lib ''notifications/cancelled'' ''{}'' = Inr (''{}'' @ [newline])"
  by (simp add: mcp_notification_def check_text_def guardE_def parameters_def message_limit_def frame_def
    catch_json_def dumpE_def)

lemma session_digits [simp]: "decimal (Suc 0) = ''1''" "decimal 2 = ''2''" "decimal 3 = ''3''"
  by (simp_all add: decimal.simps)

lemma session_run:
  "run_tracker session_lib session_calls session_tracker =
    ([Sent \<lparr>request_id = ''x-1'', request_method = ''ping''\<rparr>,
      Answered \<lparr>reply_request = \<lparr>request_id = ''x-1'', request_method = ''ping''\<rparr>, reply_response = session_reply 1\<rparr>,
      Sent \<lparr>request_id = ''x-2'', request_method = ''tools/list''\<rparr>, Dropped ''x-2'',
      Sent \<lparr>request_id = ''x-3'', request_method = ''ping''\<rparr>],
     \<lparr>active = [(quoted ''x-3'', \<lparr>request_id = ''x-3'', request_method = ''ping''\<rparr>)],
      retired = [quoted ''x-1'' \<mapsto> Completed, quoted ''x-2'' \<mapsto> Cancelled],
      retired_order = [quoted ''x-1'', quoted ''x-2''], capacity = 1, sequence = 3, salt = ''x-''\<rparr>)"
  by (simp add: session_calls_def session_tracker_def session_reply_def tracker_prepare_def
    session_request check_text_def guardE_def dumpE_def emplace_def tracker_receive_def quoted_def
    Let_def retire_def erase_def tracker_cancel_def session_notice numeral_2_eq_2 [symmetric] numeral_3_eq_3 [symmetric])

theorem mcp_requests_settle_once_witness:
  "mset (sent_ids (fst (run_tracker session_lib session_calls session_tracker))) = {#''x-1'', ''x-2'', ''x-3''#} \<and>
   length (settled_ids (fst (run_tracker session_lib session_calls session_tracker))) = 2"
proof -
  have "tracker_new ''x-'' 1 = Inr session_tracker" by (simp add: tracker_new_def session_tracker_def)
  from mcp_requests_settle_once [OF session_lib_separates this session_run]
  have "size (mset (sent_ids (fst (run_tracker session_lib session_calls session_tracker)))) =
     1 + length (settled_ids (fst (run_tracker session_lib session_calls session_tracker)))"
    by (simp add: session_run pending_ids_def)
  then show ?thesis by (simp add: session_run)
qed

section \<open>The handshake\<close>

datatype handshake_phase = Idle | Probe | Initialize | Ack | Modern_ready | Legacy_ready | Broken

record server_description =
  server_era :: mcp_era
  protocol_version :: bytes
  capabilities_json :: bytes
  server_info_json :: bytes
  instructions :: bytes

record handshake =
  client :: client_identity
  phase :: handshake_phase
  expected_id :: bytes
  expected_method :: bytes
  description :: server_description

record handshake_action =
  action_request :: "prepared_request option"
  action_notification :: bytes

text \<open>An exception carries the states it leaves behind.\<close>

type_synonym 'a handshake_result =
  "(session_error \<times> handshake \<times> tracker) + ('a \<times> handshake \<times> tracker)"

definition needing :: "session_error + 'b \<Rightarrow> handshake \<Rightarrow> tracker \<Rightarrow> ('b \<Rightarrow> 'a handshake_result) \<Rightarrow>
    'a handshake_result" where
  "needing r h t f = (case r of Inl e \<Rightarrow> Inl (e, h, t) | Inr x \<Rightarrow> f x)"

text \<open>\<open>catch(...){state.phase=Impl::Phase::failed;throw;}\<close>.\<close>

definition broken_on_throw :: "'a handshake_result \<Rightarrow> 'a handshake_result" where
  "broken_on_throw r = (case r of Inl (e, h, t) \<Rightarrow> Inl (e, h\<lparr>phase := Broken\<rparr>, t) | Inr x \<Rightarrow> Inr x)"

fun negotiation_event_error :: "event_error \<Rightarrow> session_error" where
  "negotiation_event_error Too_deep = Refused ''MCP negotiation nesting exceeds limits''"
| "negotiation_event_error Duplicate_key = Refused ''Duplicate MCP negotiation field''"
| "negotiation_event_error No_open_object = Wire Out_of_range"

definition negotiation_object :: "json_lib \<Rightarrow> bytes \<Rightarrow> session_error + json" where
  "negotiation_object lib source =
     (if length source > 1024 * 1024 then Inl (Refused ''MCP negotiation payload exceeds limits'')
      else bindE (map_error negotiation_event_error (foldE parse_event [] (fst (sax lib source)))) (\<lambda>_.
        case snd (sax lib source) of None \<Rightarrow> Inl (Refused ''Invalid MCP negotiation JSON'')
        | Some v \<Rightarrow> if is_object v then Inr v
            else Inl (Refused ''MCP negotiation payload must be an object'')))"

definition negotiation_text :: "json \<Rightarrow> bytes \<Rightarrow> nat \<Rightarrow> session_error + bytes" where
  "negotiation_text v k limit =
     (if \<not> has_member v k \<or> \<not> is_string (at_key v k) then Inl (Refused ''Missing MCP negotiation text field'')
      else let s = str_of (at_key v k) in
        if s = [] \<or> length s > limit \<or> CHR 0x00 \<in> set s then Inl (Refused ''MCP negotiation text exceeds limits'')
        else Inr s)"

definition capability_names :: "bytes list" where
  "capability_names = [''tools'', ''resources'', ''prompts'', ''logging'', ''completions'', ''tasks'',
     ''extensions'', ''experimental'']"

definition server_capabilities :: "json \<Rightarrow> session_error + json" where
  "server_capabilities v =
     (let c = at_key v ''capabilities'' in
      if \<not> is_object c then Inl (Refused ''Missing MCP server capabilities'')
      else if list_ex (\<lambda>n. has_member c n \<and> \<not> is_object (at_key c n)) capability_names
      then Inl (Refused ''Invalid MCP server capability'')
      else Inr c)"

definition server_identity :: "json \<Rightarrow> session_error + json" where
  "server_identity v =
     (if \<not> is_object v then Inl (Refused ''Invalid MCP server identity'')
      else bindE (negotiation_text v ''name'' 128) (\<lambda>_.
        bindE (negotiation_text v ''version'' 64) (\<lambda>_. Inr v)))"

definition negotiation_complete :: "json \<Rightarrow> session_error + unit" where
  "negotiation_complete v =
     guardE (has_member v ''resultType'' \<longrightarrow> at_key v ''resultType'' = JStr ''complete'')
       (Refused ''MCP discovery/initialization did not complete'')"

definition server_instructions :: "json \<Rightarrow> session_error + bytes" where
  "server_instructions v =
     (if \<not> has_member v ''instructions'' then Inr []
      else if \<not> is_string (at_key v ''instructions'') then Inl (Refused ''Invalid MCP server instructions'')
      else let s = str_of (at_key v ''instructions'') in
        if length s > 65536 \<or> CHR 0x00 \<in> set s then Inl (Refused ''MCP instructions exceed limits'')
        else Inr s)"

definition handshake_new :: "client_identity \<Rightarrow> handshake" where
  "handshake_new ident = \<lparr>client = ident, phase = Idle, expected_id = [], expected_method = [],
     description = \<lparr>server_era = Modern, protocol_version = [], capabilities_json = ''{}'',
       server_info_json = ''{}'', instructions = []\<rparr>\<rparr>"

definition handshake_start :: "json_lib \<Rightarrow> bytes \<Rightarrow> bytes \<Rightarrow> mcp_era \<Rightarrow> handshake_phase \<Rightarrow> handshake \<Rightarrow>
    tracker \<Rightarrow> prepared_request handshake_result" where
  "handshake_start lib m params era following h t =
     needing (tracker_prepare lib m params era (client h) t) h t (\<lambda>(request, t').
       Inr (request, h\<lparr>expected_id := request_id (prepared request), expected_method := m,
                       phase := following\<rparr>, t'))"

definition handshake_legacy :: "json_lib \<Rightarrow> handshake \<Rightarrow> tracker \<Rightarrow> prepared_request handshake_result" where
  "handshake_legacy lib h t =
     needing (negotiation_object lib (capabilities (client h))) h t (\<lambda>caps.
     needing (wired (dumpE lib (JObj [
         (''capabilities'', caps),
         (''clientInfo'', JObj [(''name'', JStr (client_name (client h))),
                               (''version'', JStr (client_version (client h)))]),
         (''protocolVersion'', JStr ''2025-11-25'')]))) h t (\<lambda>params.
       handshake_start lib ''initialize'' params Legacy Initialize h t))"

definition handshake_begin :: "json_lib \<Rightarrow> handshake \<Rightarrow> tracker \<Rightarrow> prepared_request handshake_result" where
  "handshake_begin lib h t =
     (if phase h \<noteq> Idle \<or> tracker_pending t \<noteq> 0
      then Inl (Refused ''MCP negotiation must start on an idle request tracker'', h, t)
      else broken_on_throw (handshake_start lib ''server/discover'' ''{}'' Modern Probe h t))"

text \<open>The reply to the discovery: an array of distinct dates, ours among them.\<close>

definition version_format :: "bytes \<Rightarrow> bool" where
  "version_format s \<longleftrightarrow> list_all (\<lambda>(i, c). if i = 4 \<or> i = 7 then c = CHR ''-''
     else 48 \<le> byte c \<and> byte c \<le> 57) (enumerate 0 s)"

fun version_step :: "bytes list \<Rightarrow> json \<Rightarrow> session_error + bytes list" where
  "version_step seen v =
     (if \<not> is_string v then Inl (Refused ''Invalid MCP discovery version'')
      else if length (str_of v) \<noteq> 10 \<or> str_of v \<in> set seen
      then Inl (Refused ''Invalid/duplicate MCP discovery version'')
      else if \<not> version_format (str_of v) then Inl (Refused ''Invalid MCP discovery version format'')
      else Inr (seen @ [str_of v]))"

definition discovery_versions :: "json \<Rightarrow> session_error + unit" where
  "discovery_versions v =
     (let vs = at_key v ''supportedVersions'' in
      if \<not> is_array vs \<or> elements vs = [] \<or> length (elements vs) > 16
      then Inl (Refused ''Invalid MCP discovery versions'')
      else bindE (foldE version_step [] (elements vs)) (\<lambda>versions.
        guardE (''2026-07-28'' \<in> set versions) (Refused ''No mutually supported modern MCP version'')))"

definition discovery_server :: "json \<Rightarrow> session_error + json" where
  "discovery_server v =
     (if \<not> has_member v ''_meta'' then Inr (JObj [])
      else let meta = at_key v ''_meta'' in
        if \<not> is_object meta then Inl (Refused ''Invalid MCP discovery metadata'')
        else if has_member meta ''io.modelcontextprotocol/serverInfo''
        then server_identity (at_key meta ''io.modelcontextprotocol/serverInfo'')
        else Inr (JObj []))"

definition describe :: "json_lib \<Rightarrow> mcp_era \<Rightarrow> bytes \<Rightarrow> json \<Rightarrow> (session_error + json) \<Rightarrow> json \<Rightarrow>
    session_error + server_description" where
  "describe lib era version declared server v =
     bindE (wired (dumpE lib declared)) (\<lambda>caps.
     bindE server (\<lambda>info. bindE (wired (dumpE lib info)) (\<lambda>dumped.
     bindE (server_instructions v) (\<lambda>told.
       Inr \<lparr>server_era = era, protocol_version = version, capabilities_json = caps,
            server_info_json = dumped, instructions = told\<rparr>))))"

definition discovery :: "json_lib \<Rightarrow> json \<Rightarrow> json \<Rightarrow> session_error + server_description" where
  "discovery lib declared v =
     bindE (discovery_versions v) (\<lambda>_. bindE (discovery_server v) (\<lambda>server.
       describe lib Modern ''2026-07-28'' declared (Inr server) v))"

definition legacy_versions :: "bytes list" where
  "legacy_versions = [''2025-11-25'', ''2025-06-18'', ''2024-11-05'']"

definition initialization :: "json_lib \<Rightarrow> json \<Rightarrow> json \<Rightarrow> session_error + server_description" where
  "initialization lib declared v =
     bindE (negotiation_text v ''protocolVersion'' 10) (\<lambda>version.
       if version \<notin> set legacy_versions then Inl (Refused ''Unsupported MCP legacy initialization version'')
       else if \<not> has_member v ''serverInfo'' then Inl (Refused ''Missing MCP legacy server identity'')
       else describe lib Legacy version declared (server_identity (at_key v ''serverInfo'')) v)"

text \<open>A JSON-RPC error of the peer: a discovery it does not know falls back to the legacy era.\<close>

definition modern_rejection :: "json \<Rightarrow> bool" where
  "modern_rejection code \<longleftrightarrow> code \<in> {JInt (- 32020), JInt (- 32021), JInt (- 32022)}"

definition accept_error :: "json_lib \<Rightarrow> json \<Rightarrow> handshake \<Rightarrow> tracker \<Rightarrow> handshake_action handshake_result" where
  "accept_error lib v h t =
     (if \<not> is_integer (at_key v ''code'') then Inl (Refused ''Invalid MCP negotiation error'', h, t)
      else let modern = modern_rejection (at_key v ''code'') in
        if phase h = Probe \<and> \<not> modern
        then (case handshake_legacy lib h t of Inl err \<Rightarrow> Inl err
          | Inr (request, h', t') \<Rightarrow>
              Inr (\<lparr>action_request = Some request, action_notification = []\<rparr>, h', t'))
        else Inl (Refused (if modern
               then ''Modern MCP server rejected the supported discovery version/capabilities''
               else ''MCP legacy initialization was rejected''), h, t))"

definition accept_result :: "json_lib \<Rightarrow> json \<Rightarrow> handshake \<Rightarrow> tracker \<Rightarrow> handshake_action handshake_result" where
  "accept_result lib v h t =
     needing (bindE (negotiation_complete v) (\<lambda>_. server_capabilities v)) h t (\<lambda>declared.
       if phase h = Probe then
         needing (discovery lib declared v) h t (\<lambda>d.
           Inr (\<lparr>action_request = None, action_notification = []\<rparr>,
                h\<lparr>description := d, phase := Modern_ready\<rparr>, t))
       else
         needing (initialization lib declared v) h t (\<lambda>d.
           let h' = h\<lparr>description := d\<rparr> in
           needing (wired (mcp_notification lib ''notifications/initialized'' ''{}'')) h' t (\<lambda>notice.
             Inr (\<lparr>action_request = None, action_notification = notice\<rparr>, h'\<lparr>phase := Ack\<rparr>, t))))"

definition reply_expected :: "json_lib \<Rightarrow> correlated_reply \<Rightarrow> handshake \<Rightarrow> session_error + unit" where
  "reply_expected lib reply h =
     (let refused = Refused ''MCP negotiation response does not match its phase/request'' in
      if (phase h \<noteq> Probe \<and> phase h \<noteq> Initialize) \<or> request_id (reply_request reply) \<noteq> expected_id h
        \<or> request_method (reply_request reply) \<noteq> expected_method h then Inl refused
      else bindE (wired (dumpE lib (JStr (expected_id h)))) (\<lambda>key.
        guardE (msg_id (reply_response reply) = key) refused))"

definition handshake_accept :: "json_lib \<Rightarrow> correlated_reply \<Rightarrow> handshake \<Rightarrow> tracker \<Rightarrow>
    handshake_action handshake_result" where
  "handshake_accept lib reply h t = broken_on_throw (
     needing (reply_expected lib reply h) h t (\<lambda>_.
     needing (negotiation_object lib (payload (reply_response reply))) h t (\<lambda>v.
       if kind (reply_response reply) = Error then accept_error lib v h t
       else if kind (reply_response reply) \<noteq> Result
       then Inl (Refused ''MCP negotiation requires a result or error'', h, t)
       else accept_result lib v h t)))"

text \<open>
  \<open>probe_timeout\<close> and \<open>probe_unrecognized_response\<close> differ in the text of their refusal only.
\<close>

definition probe_fallback :: "bytes \<Rightarrow> json_lib \<Rightarrow> handshake \<Rightarrow> tracker \<Rightarrow> prepared_request handshake_result" where
  "probe_fallback refusal lib h t =
     (if phase h \<noteq> Probe then Inl (Refused refusal, h, t)
      else broken_on_throw (needing (tracker_abandon lib (expected_id h) t) h t
        (\<lambda>(request, t'). handshake_legacy lib h t')))"

definition probe_timeout :: "json_lib \<Rightarrow> handshake \<Rightarrow> tracker \<Rightarrow> prepared_request handshake_result" where
  "probe_timeout = probe_fallback ''Only MCP discovery timeout can trigger legacy fallback''"

definition probe_unrecognized_response :: "json_lib \<Rightarrow> handshake \<Rightarrow> tracker \<Rightarrow> prepared_request handshake_result" where
  "probe_unrecognized_response =
     probe_fallback ''Only an unrecognized MCP discovery response can trigger legacy fallback''"

definition initialized_sent :: "handshake \<Rightarrow> session_error + handshake" where
  "initialized_sent h =
     (if phase h \<noteq> Ack then Inl (Refused ''MCP initialization acknowledgement is not pending'')
      else Inr (h\<lparr>phase := Legacy_ready\<rparr>))"

definition handshake_ready :: "handshake \<Rightarrow> bool" where
  "handshake_ready h \<longleftrightarrow> phase h = Modern_ready \<or> phase h = Legacy_ready"

definition handshake_server :: "handshake \<Rightarrow> session_error + server_description" where
  "handshake_server h =
     (if \<not> handshake_ready h then Inl (Refused ''MCP negotiation is not ready'') else Inr (description h))"

section \<open>What a negotiation ends in\<close>

text \<open>
  The calls of the connection's owner: the handshake's own, and any call on the tracker it shares.
  A call that throws leaves the states its exception carries.
\<close>

fun left_by :: "'a handshake_result \<Rightarrow> handshake \<times> tracker" where
  "left_by (Inl (e, h, t)) = (h, t)" | "left_by (Inr (x, h, t)) = (h, t)"

inductive handshake_step :: "json_lib \<Rightarrow> handshake \<times> tracker \<Rightarrow> handshake \<times> tracker \<Rightarrow> bool" for lib where
  begins: "handshake_step lib (h, t) (left_by (handshake_begin lib h t))"
| accepts: "handshake_step lib (h, t) (left_by (handshake_accept lib reply h t))"
| times_out: "handshake_step lib (h, t) (left_by (probe_timeout lib h t))"
| unrecognized: "handshake_step lib (h, t) (left_by (probe_unrecognized_response lib h t))"
| confirms: "initialized_sent h = Inr h' \<Longrightarrow> handshake_step lib (h, t) (h', t)"
| tracks: "handshake_step lib (h, t) (h, snd (call_tracker lib c t))"

text \<open>A server the client can talk to, in the era its revision belongs to.\<close>

definition supported :: "server_description \<Rightarrow> bool" where
  "supported d \<longleftrightarrow> length (instructions d) \<le> 65536 \<and>
     (if server_era d = Modern then protocol_version d = ''2026-07-28''
      else protocol_version d \<in> set legacy_versions)"

definition negotiated :: "handshake \<Rightarrow> bool" where
  "negotiated h \<longleftrightarrow> (phase h \<in> {Ack, Modern_ready, Legacy_ready} \<longrightarrow> supported (description h))"

lemma needing_simps [simp]: "needing (Inl e) h t f = Inl (e, h, t)" "needing (Inr x) h t f = f x"
  by (simp_all add: needing_def)

lemma broken_simps [simp]:
  "broken_on_throw (Inl (e, h, t)) = Inl (e, h\<lparr>phase := Broken\<rparr>, t)" "broken_on_throw (Inr x) = Inr x"
  by (simp_all add: broken_on_throw_def)

lemma negotiated_early [simp]: "phase h \<in> {Idle, Probe, Initialize, Broken} \<Longrightarrow> negotiated h"
  by (auto simp: negotiated_def)

lemma start_phase: "handshake_start lib m params era following h t = Inr (x, h', t') \<Longrightarrow> phase h' = following"
  by (auto simp: handshake_start_def needing_def split: sum.splits)

lemma legacy_phase: "handshake_legacy lib h t = Inr (x, h', t') \<Longrightarrow> phase h' = Initialize"
  by (auto simp: handshake_legacy_def needing_def split: sum.splits dest: start_phase)

lemma instructions_bounded: "server_instructions v = Inr s \<Longrightarrow> length s \<le> 65536"
  by (auto simp: server_instructions_def Let_def split: if_splits)

lemma describe_fields:
  "describe lib era version declared srv v = Inr d \<Longrightarrow>
    server_era d = era \<and> protocol_version d = version \<and> length (instructions d) \<le> 65536"
  by (auto simp: describe_def result_simps dest: instructions_bounded)

lemma discovery_supported: "discovery lib declared v = Inr d \<Longrightarrow> supported d"
  by (auto simp: discovery_def result_simps supported_def dest!: describe_fields)

lemma initialization_supported: "initialization lib declared v = Inr d \<Longrightarrow> supported d"
  by (auto simp: initialization_def result_simps supported_def split: if_splits dest!: describe_fields)

lemma accept_negotiated:
  "handshake_accept lib reply h t = Inr (x, h', t') \<Longrightarrow> negotiated h'"
  using discovery_supported initialization_supported
  by (auto simp: handshake_accept_def broken_on_throw_def accept_error_def accept_result_def needing_def
      negotiated_def Let_def split: sum.splits if_splits prod.splits dest: legacy_phase)

lemma throw_broken: "broken_on_throw r = Inl (e, h, t) \<Longrightarrow> phase h = Broken"
  by (auto simp: broken_on_throw_def split: sum.splits)

lemma accept_throws: "handshake_accept lib reply h t = Inl (e, h', t') \<Longrightarrow> phase h' = Broken"
  unfolding handshake_accept_def by (rule throw_broken)

lemma begin_throws:
  "handshake_begin lib h t = Inl (e, h', t') \<Longrightarrow> phase h' = Broken \<or> (h', t') = (h, t)"
  by (auto simp: handshake_begin_def split: if_splits dest: throw_broken)

lemma fallback_throws:
  "probe_fallback refusal lib h t = Inl (e, h', t') \<Longrightarrow> phase h' = Broken \<or> (h', t') = (h, t)"
  by (auto simp: probe_fallback_def split: if_splits dest: throw_broken)

lemma begin_phase: "handshake_begin lib h t = Inr (x, h', t') \<Longrightarrow> phase h = Idle \<and> phase h' = Probe"
  by (auto simp: handshake_begin_def broken_on_throw_def split: if_splits sum.splits dest: start_phase)

lemma fallback_phase:
  "probe_fallback refusal lib h t = Inr (x, h', t') \<Longrightarrow> phase h = Probe \<and> phase h' = Initialize"
  by (auto simp: probe_fallback_def broken_on_throw_def needing_def split: if_splits sum.splits prod.splits
    dest: legacy_phase)

lemma accept_phase: "handshake_accept lib reply h t = Inr (x, h', t') \<Longrightarrow> phase h \<in> {Probe, Initialize}"
  by (auto simp: handshake_accept_def broken_on_throw_def needing_def reply_expected_def Let_def
    split: sum.splits if_splits)

lemmas negotiation_throws = accept_throws begin_throws fallback_throws
lemmas negotiation_phases = accept_phase begin_phase fallback_phase

lemma step_negotiated:
  assumes "handshake_step lib s s'" and "negotiated (fst s)"
  shows "negotiated (fst s')"
  using assms
proof cases
  case (begins h t)
  then show ?thesis using assms(2)
    by (cases "handshake_begin lib h t" rule: left_by.cases) (auto dest!: begin_phase begin_throws)
next
  case (accepts h t reply)
  then show ?thesis
    by (cases "handshake_accept lib reply h t" rule: left_by.cases) (auto dest: accept_negotiated accept_throws)
next
  case (times_out h t)
  then show ?thesis using assms(2) unfolding probe_timeout_def
    by (cases "probe_fallback ''Only MCP discovery timeout can trigger legacy fallback'' lib h t" rule: left_by.cases)
      (auto dest!: fallback_phase fallback_throws)
next
  case (unrecognized h t)
  then show ?thesis using assms(2) unfolding probe_unrecognized_response_def
    by (cases "probe_fallback ''Only an unrecognized MCP discovery response can trigger legacy fallback'' lib h t" rule: left_by.cases)
      (auto dest!: fallback_phase fallback_throws)
qed (auto simp: initialized_sent_def negotiated_def split: if_splits)

lemma step_broken:
  assumes "handshake_step lib s s'" and "phase (fst s) = Broken"
  shows "phase (fst s') = Broken"
  using assms
proof cases
  case (begins h t)
  then show ?thesis using assms(2) by (simp add: handshake_begin_def)
next
  case (accepts h t reply)
  then show ?thesis using assms(2)
    by (cases "handshake_accept lib reply h t" rule: left_by.cases) (auto dest: accept_phase accept_throws)
qed (auto simp: probe_timeout_def probe_unrecognized_response_def probe_fallback_def initialized_sent_def
  split: if_splits)

interpretation negotiation: invariant_system "\<lambda>s. \<exists>ident t. s = (handshake_new ident, t)"
    "handshake_step lib" "\<lambda>s. negotiated (fst s)" for lib
  by unfold_locales (auto simp: handshake_new_def intro: step_negotiated)


text \<open>A discovery that a modern server answers.\<close>

definition discovered :: correlated_reply where
  "discovered = \<lparr>reply_request = \<lparr>request_id = ''x-1'', request_method = ''server/discover''\<rparr>,
     reply_response = session_reply 1\<rparr>"

definition modern_server :: server_description where
  "modern_server = \<lparr>server_era = Modern, protocol_version = ''2026-07-28'', capabilities_json = ''{}'',
     server_info_json = ''{}'', instructions = []\<rparr>"

definition probing :: "handshake \<times> tracker" where
  "probing = left_by (handshake_begin session_lib (handshake_new wire_ident) session_tracker)"

definition answered :: "handshake \<times> tracker" where
  "answered = left_by (handshake_accept session_lib discovered (fst probing) (snd probing))"

lemma session_probing: "fst probing = (handshake_new wire_ident)\<lparr>phase := Probe, expected_id := ''x-1'',
    expected_method := ''server/discover''\<rparr>"
  by (simp add: probing_def handshake_begin_def handshake_new_def tracker_pending_def session_tracker_def
    handshake_start_def tracker_prepare_def Let_def mcp_request_def check_text_def guardE_def parameters_def
    mcp_compact_object_def message_limit_def json_space_def request_params_def request_metadata_def wire_ident_def
    dumpE_def catch_json_def request_text_def quoted_def)

lemma session_capabilities: "server_capabilities session_document = Inr (JObj [(''tools'', JObj [])])"
  by (simp add: server_capabilities_def capability_names_def) (simp add: has_member_def member_def at_key_def)

lemma session_discovery: "discovery session_lib (JObj kvs) session_document = Inr modern_server"
  by (simp add: discovery_def discovery_versions_def version_format_def discovery_server_def describe_def
    server_instructions_def modern_server_def dumpE_def numeral_nat)

lemma session_answered: "fst answered = (fst probing)\<lparr>description := modern_server, phase := Modern_ready\<rparr>"
  by (simp add: answered_def session_probing discovered_def session_reply_def handshake_accept_def reply_expected_def
    handshake_new_def dumpE_def negotiation_object_def accept_result_def negotiation_complete_def guardE_def
    session_capabilities session_discovery)


end
