(* ===== verification/Mcp_Subscriptions.thy ===== *)
theory Mcp_Subscriptions
  imports Mcp_Session
begin

text \<open>
  \<open>mcp_subscriptions.cpp\<close>: the request of a subscription and the validation of what its stream
  carries: an acknowledgement within the request, notifications within the acknowledgement, a
  completion. An operation that throws leaves the tracker as it was.
\<close>

record subscription_filter =
  tools_list_changed :: bool
  prompts_list_changed :: bool
  resources_list_changed :: bool
  resource_subscriptions :: "bytes list"

record subscription_acknowledgement =
  subscription_id :: bytes
  notifications :: subscription_filter

record subscription_tracker =
  requested :: subscription_filter
  server :: server_description
  listen_id :: bytes
  acknowledgement :: "subscription_acknowledgement option"

fun insert_bytes :: "bytes \<Rightarrow> bytes list \<Rightarrow> bytes list" where
  "insert_bytes s [] = [s]"
| "insert_bytes s (t # ts) = (if bytes_less t s then t # insert_bytes s ts else s # t # ts)"

definition sort_bytes :: "bytes list \<Rightarrow> bytes list" where
  "sort_bytes ss = foldr insert_bytes ss []"

definition checked_uris :: "subscription_filter \<Rightarrow> session_error + bytes list" where
  "checked_uris f =
     (let uris = sort_bytes (resource_subscriptions f) in
      if length (resource_subscriptions f) > 128
      then Inl (Refused ''MCP resource subscription count exceeds limits'')
      else if list_ex (\<lambda>u. u = [] \<or> length u > 8192 \<or> CHR 0x00 \<in> set u) (resource_subscriptions f)
      then Inl (Refused ''Invalid MCP resource subscription URI'')
      else if \<not> distinct_adj uris then Inl (Refused ''Duplicate MCP resource subscription URI'')
      else if \<not> tools_list_changed f \<and> \<not> prompts_list_changed f \<and> \<not> resources_list_changed f \<and> uris = []
      then Inl (Refused ''MCP subscriptions/listen requires at least one notification filter'')
      else Inr uris)"

definition has_subscription_id :: "json \<Rightarrow> bytes \<Rightarrow> bool" where
  "has_subscription_id metadata i \<longleftrightarrow>
     member metadata ''io.modelcontextprotocol/subscriptionId'' = Some (JStr i)"

definition advertised :: "json \<Rightarrow> bytes \<Rightarrow> bytes \<Rightarrow> bool" where
  "advertised caps part k \<longleftrightarrow> at_key (at_key caps part) k = JBool True"

definition put_if :: "bool \<Rightarrow> bytes \<Rightarrow> json \<Rightarrow> (bytes \<times> json) list \<Rightarrow> (bytes \<times> json) list" where
  "put_if b k v ms = (if b then put_member k v ms else ms)"

definition subscription_request_params :: "json_lib \<Rightarrow> subscription_filter \<Rightarrow> session_error + bytes" where
  "subscription_request_params lib f =
     bindE (checked_uris f) (\<lambda>uris.
       wired (dumpE lib (JObj [(''notifications'', JObj (
         put_if (uris \<noteq> []) ''resourceSubscriptions'' (JArr (map JStr uris)) (
         put_if (resources_list_changed f) ''resourcesListChanged'' (JBool True) (
         put_if (prompts_list_changed f) ''promptsListChanged'' (JBool True) (
         put_if (tools_list_changed f) ''toolsListChanged'' (JBool True) [])))))])))"

definition subscription_new :: "subscription_filter \<Rightarrow> server_description \<Rightarrow> bytes \<Rightarrow>
    session_error + subscription_tracker" where
  "subscription_new f srv i =
     bindE (checked_uris f) (\<lambda>_.
       if server_era srv \<noteq> Modern \<or> protocol_version srv \<noteq> ''2026-07-28''
       then Inl (Refused ''MCP subscriptions/listen requires protocol 2026-07-28'')
       else if i = [] \<or> length i > 256 then Inl (Refused ''Invalid MCP subscription request identity'')
       else Inr \<lparr>requested = f, server = srv, listen_id = i, acknowledgement = None\<rparr>)"

definition parse_plain :: "json_lib \<Rightarrow> bytes \<Rightarrow> session_error + json" where
  "parse_plain lib s = (case json_text lib s of None \<Rightarrow> Inl (Wire Json_exception) | Some v \<Rightarrow> Inr v)"

text \<open>The acknowledgement: nothing that was not asked for, nothing the server did not advertise.\<close>

definition filter_names :: "bytes list" where
  "filter_names = [''toolsListChanged'', ''promptsListChanged'', ''resourcesListChanged'', ''resourceSubscriptions'']"

definition accepted_flag :: "json \<Rightarrow> bytes \<Rightarrow> bool \<Rightarrow> session_error + bool" where
  "accepted_flag accepted k asked =
     (if \<not> has_member accepted k then Inr False
      else if at_key accepted k \<noteq> JBool True \<or> \<not> asked
      then Inl (Refused ''MCP server acknowledged an unrequested subscription filter'')
      else Inr True)"

fun accepted_uri :: "bytes list \<Rightarrow> bytes list \<Rightarrow> json \<Rightarrow> session_error + bytes list" where
  "accepted_uri uris seen v =
     (if \<not> is_string v then Inl (Refused ''Invalid acknowledged MCP resource subscription URI'')
      else if str_of v \<notin> set uris \<or> str_of v \<in> set seen
      then Inl (Refused ''MCP server acknowledged an unrequested resource subscription'')
      else Inr (seen @ [str_of v]))"

definition accepted_uris :: "subscription_filter \<Rightarrow> json \<Rightarrow> session_error + bytes list" where
  "accepted_uris f accepted =
     (if \<not> has_member accepted ''resourceSubscriptions'' then Inr []
      else let vs = at_key accepted ''resourceSubscriptions'' in
        bindE (checked_uris f) (\<lambda>uris.
          if \<not> is_array vs \<or> length (elements vs) > length uris
          then Inl (Refused ''Invalid acknowledged MCP resource subscription list'')
          else foldE (accepted_uri uris) [] (elements vs)))"

definition accepted_filter :: "subscription_filter \<Rightarrow> json \<Rightarrow> session_error + subscription_filter" where
  "accepted_filter f accepted =
     bindE (accepted_flag accepted ''toolsListChanged'' (tools_list_changed f)) (\<lambda>a.
     bindE (accepted_flag accepted ''promptsListChanged'' (prompts_list_changed f)) (\<lambda>b.
     bindE (accepted_flag accepted ''resourcesListChanged'' (resources_list_changed f)) (\<lambda>c.
     bindE (accepted_uris f accepted) (\<lambda>uris.
       Inr \<lparr>tools_list_changed = a, prompts_list_changed = b, resources_list_changed = c,
            resource_subscriptions = uris\<rparr>))))"

definition check_advertised :: "json \<Rightarrow> subscription_filter \<Rightarrow> session_error + unit" where
  "check_advertised caps f =
     bindE (guardE (tools_list_changed f \<longrightarrow> advertised caps ''tools'' ''listChanged'')
       (Refused ''MCP server acknowledged an unadvertised tools-list subscription'')) (\<lambda>_.
     bindE (guardE (prompts_list_changed f \<longrightarrow> advertised caps ''prompts'' ''listChanged'')
       (Refused ''MCP server acknowledged an unadvertised prompts-list subscription'')) (\<lambda>_.
     bindE (guardE (resources_list_changed f \<longrightarrow> advertised caps ''resources'' ''listChanged'')
       (Refused ''MCP server acknowledged an unadvertised resources-list subscription'')) (\<lambda>_.
     guardE (resource_subscriptions f \<noteq> [] \<longrightarrow> advertised caps ''resources'' ''subscribe'')
       (Refused ''MCP server acknowledged unadvertised resource subscriptions''))))"

definition acknowledge :: "json_lib \<Rightarrow> mcp_message \<Rightarrow> json \<Rightarrow> subscription_tracker \<Rightarrow>
    session_error + subscription_tracker" where
  "acknowledge lib message params t =
     (let accepted = at_key params ''notifications'' in
      if msg_method message \<noteq> ''notifications/subscriptions/acknowledged''
      then Inl (Refused ''MCP subscription notification arrived before its acknowledgement'')
      else if \<not> has_subscription_id (at_key params ''_meta'') (listen_id t) \<or> \<not> is_object accepted
      then Inl (Refused ''Invalid MCP subscription acknowledgement'')
      else if list_ex (\<lambda>kv. fst kv \<notin> set filter_names) (members accepted)
      then Inl (Refused ''MCP subscription acknowledgement contains an unknown filter'')
      else bindE (accepted_filter (requested t) accepted) (\<lambda>f.
        bindE (parse_plain lib (capabilities_json (server t))) (\<lambda>caps.
        bindE (check_advertised caps f) (\<lambda>_.
          Inr (t\<lparr>acknowledgement := Some \<lparr>subscription_id = listen_id t, notifications = f\<rparr>\<rparr>)))))"

definition check_notification :: "mcp_message \<Rightarrow> json \<Rightarrow> bytes \<Rightarrow> subscription_filter \<Rightarrow> session_error + unit" where
  "check_notification message params i f =
     (if msg_method message = ''notifications/subscriptions/acknowledged''
      then Inl (Refused ''Duplicate MCP subscription acknowledgement'')
      else if \<not> has_subscription_id (at_key params ''_meta'') i
      then Inl (Refused ''MCP subscription notification has the wrong subscription ID'')
      else if msg_method message = ''notifications/tools/list_changed''
      then guardE (tools_list_changed f) (Refused ''MCP server sent an unrequested tools-list notification'')
      else if msg_method message = ''notifications/prompts/list_changed''
      then guardE (prompts_list_changed f) (Refused ''MCP server sent an unrequested prompts-list notification'')
      else if msg_method message = ''notifications/resources/list_changed''
      then guardE (resources_list_changed f) (Refused ''MCP server sent an unrequested resources-list notification'')
      else if msg_method message = ''notifications/resources/updated''
      then guardE (is_string (at_key params ''uri'') \<and> str_of (at_key params ''uri'') \<in> set (resource_subscriptions f))
        (Refused ''MCP server sent an unrequested resource update'')
      else Inl (Refused ''MCP server sent an unsupported subscription notification''))"

definition subscription_notification :: "json_lib \<Rightarrow> mcp_message \<Rightarrow> subscription_tracker \<Rightarrow>
    session_error + subscription_tracker" where
  "subscription_notification lib message t =
     (if kind message \<noteq> Notification
      then Inl (Refused ''MCP subscription stream received a non-notification event'')
      else bindE (parse_plain lib (payload message)) (\<lambda>params.
        case acknowledgement t of
          None \<Rightarrow> acknowledge lib message params t
        | Some a \<Rightarrow> bindE (check_notification message params (listen_id t) (notifications a)) (\<lambda>_. Inr t)))"

definition subscription_complete :: "json_lib \<Rightarrow> mcp_message \<Rightarrow> subscription_tracker \<Rightarrow> session_error + unit" where
  "subscription_complete lib response t =
     (if acknowledgement t = None then Inl (Refused ''MCP subscription stream closed before acknowledgement'')
      else if kind response \<noteq> Result then Inl (Refused ''MCP subscription completion is not a result'')
      else bindE (parse_plain lib (payload response)) (\<lambda>result.
        guardE (member result ''resultType'' = Some (JStr ''complete'') \<and>
            has_subscription_id (at_key result ''_meta'') (listen_id t))
          (Refused ''Invalid MCP graceful subscription completion'')))"

section \<open>What a subscription lets through\<close>

text \<open>An acknowledged filter stays within what was requested.\<close>

definition within :: "subscription_filter \<Rightarrow> subscription_filter \<Rightarrow> bool" where
  "within f g \<longleftrightarrow> (tools_list_changed f \<longrightarrow> tools_list_changed g) \<and>
     (prompts_list_changed f \<longrightarrow> prompts_list_changed g) \<and>
     (resources_list_changed f \<longrightarrow> resources_list_changed g) \<and>
     distinct (resource_subscriptions f) \<and> set (resource_subscriptions f) \<subseteq> set (resource_subscriptions g)"

lemma insert_bytes_set [simp]: "set (insert_bytes s ts) = insert s (set ts)"
  by (induction s ts rule: insert_bytes.induct) auto

lemma sort_bytes_set [simp]: "set (sort_bytes ss) = set ss"
  by (induction ss) (simp_all add: sort_bytes_def)

lemma checked_uris_set: "checked_uris f = Inr uris \<Longrightarrow> set uris = set (resource_subscriptions f)"
  by (auto simp: checked_uris_def Let_def split: if_splits)

lemma accepted_flag_asked: "accepted_flag accepted k asked = Inr b \<Longrightarrow> b \<longrightarrow> asked"
  by (auto simp: accepted_flag_def split: if_splits)

lemma accepted_uris_within:
  "accepted_uris f accepted = Inr us \<Longrightarrow> distinct us \<and> set us \<subseteq> set (resource_subscriptions f)"
proof -
  assume eq: "accepted_uris f accepted = Inr us"
  have "distinct seen' \<and> set seen' \<subseteq> set uris" if "foldE (accepted_uri uris) [] vs = Inr seen'" for uris vs seen'
    by (rule foldE_invariant [OF _ _ that]) (auto split: if_splits)
  then show ?thesis using eq checked_uris_set
    by (auto simp: accepted_uris_def Let_def result_simps split: if_splits; blast)
qed

lemma accepted_within: "accepted_filter f accepted = Inr g \<Longrightarrow> within g f"
  using accepted_uris_within
  by (auto simp: accepted_filter_def within_def result_simps dest!: accepted_flag_asked; blast)

definition subscribed :: "subscription_tracker \<Rightarrow> bool" where
  "subscribed t \<longleftrightarrow> (\<forall>a. acknowledgement t = Some a \<longrightarrow>
     within (notifications a) (requested t) \<and> subscription_id a = listen_id t)"

lemma notification_subscribed:
  assumes "subscribed t" and "subscription_notification lib message t = Inr t'"
  shows "subscribed t'"
  using assms accepted_within
  by (auto simp: subscription_notification_def acknowledge_def subscribed_def Let_def result_simps
    split: if_splits option.splits)

text \<open>A resource update that passes is of a resource that was requested.\<close>

lemma update_was_requested:
  assumes "subscribed t" and "subscription_notification lib message t = Inr t'"
    and "msg_method message = ''notifications/resources/updated''"
  shows "\<exists>params. json_text lib (payload message) = Some params \<and>
    (\<exists>u. member params ''uri'' = Some (JStr u) \<and> u \<in> set (resource_subscriptions (requested t)))"
  using assms
  by (auto simp: subscription_notification_def acknowledge_def parse_plain_def check_notification_def
    subscribed_def within_def result_simps at_key_def is_string_iff
    split: if_splits option.splits)

end
