(* ===== verification/Mcp_Http.thy ===== *)
theory Mcp_Http
  imports Mcp_Session
begin

text \<open>
  The HTTP binding of MCP, the parts that do no input or output. \<open>mcp_http_stream.cpp\<close>: the
  decoder of a response body, one document or server-sent events. \<open>mcp_http_metadata.cpp\<close>: the headers
  computed from a request and from the arguments of a tool call.
\<close>

section \<open>The response body\<close>

definition http_message_limit :: nat where "http_message_limit = 1024 * 1024"
definition http_stream_limit :: nat where "http_stream_limit = 8 * 1024 * 1024"

record 'k http_stream =
  http_sink :: 'k
  sse_media :: bool
  first_line :: bool
  skip_lf :: bool
  http_failed :: bool
  http_closed :: bool
  has_data :: bool
  received :: nat
  delivered :: nat
  http_line :: bytes
  http_data :: bytes
  http_event :: bytes

type_synonym 'k http_result = "(session_error \<times> 'k http_stream) + 'k http_stream"

definition http_stream_new :: "bytes \<Rightarrow> 'k \<Rightarrow> session_error + 'k http_stream" where
  "http_stream_new media k =
     (if media \<noteq> ''text/event-stream'' \<and> media \<noteq> ''application/json''
      then Inl (Refused ''Unsupported MCP HTTP message media'')
      else Inr \<lparr>http_sink = k, sse_media = (media = ''text/event-stream''), first_line = True,
        skip_lf = False, http_failed = False, http_closed = False, has_data = False, received = 0,
        delivered = 0, http_line = [], http_data = [], http_event = []\<rparr>)"

definition http_append :: "bytes \<Rightarrow> bytes \<Rightarrow> session_error + bytes" where
  "http_append target bs =
     (if length bs > http_message_limit - length target then Inl (Refused ''MCP HTTP message exceeds limits'')
      else Inr (target @ bs))"

definition within_http :: "'k http_stream \<Rightarrow> session_error + 'a \<Rightarrow> ('a \<Rightarrow> 'k http_result) \<Rightarrow> 'k http_result" where
  "within_http s r f = (case r of Inl e \<Rightarrow> Inl (e, s) | Inr x \<Rightarrow> f x)"

definition http_deliver :: "json_lib \<Rightarrow> ('k \<Rightarrow> mcp_message \<Rightarrow> 'k \<times> bool) \<Rightarrow> 'k http_stream \<Rightarrow> 'k http_result" where
  "http_deliver lib sink s =
     (let s = s\<lparr>delivered := delivered s + 1\<rparr> in
      if delivered s > 256 then Inl (Refused ''MCP HTTP response message count exceeds limits'', s)
      else within_http s (wired (decode lib (http_data s))) (\<lambda>message.
        case sink (http_sink s) message of (k, returned) \<Rightarrow>
          if returned then Inr (s\<lparr>http_sink := k\<rparr>) else Inl (Wire Sink_exception, s\<lparr>http_sink := k\<rparr>)))"

definition http_dispatch :: "json_lib \<Rightarrow> ('k \<Rightarrow> mcp_message \<Rightarrow> 'k \<times> bool) \<Rightarrow> 'k http_stream \<Rightarrow> 'k http_result" where
  "http_dispatch lib sink s =
     bindE (if \<not> has_data s then Inr s
       else if http_event s \<noteq> [] \<and> http_event s \<noteq> ''message''
       then Inl (Refused ''Unsupported MCP HTTP SSE event'', s)
       else http_deliver lib sink (s\<lparr>http_data := butlast (http_data s)\<rparr>))
     (\<lambda>s. Inr (s\<lparr>http_data := [], http_event := [], has_data := False\<rparr>))"

definition http_field :: "'k http_stream \<Rightarrow> 'k http_result" where
  "http_field s =
     (let name = takeWhile (\<lambda>c. c \<noteq> CHR '':'') (http_line s);
          after = tl (dropWhile (\<lambda>c. c \<noteq> CHR '':'') (http_line s));
          v = (if starts_with after '' '' then tl after else after) in
      if name = ''data'' then
        within_http s (http_append (http_data s) v) (\<lambda>d.
        within_http (s\<lparr>http_data := d\<rparr>) (http_append d [newline]) (\<lambda>d'.
          Inr (s\<lparr>http_data := d', has_data := True\<rparr>)))
      else if name = ''event'' then
        (if length v > 128 then Inl (Refused ''MCP HTTP SSE event name exceeds limits'', s)
         else Inr (s\<lparr>http_event := v\<rparr>))
      else Inr s)"

definition byte_order_mark :: bytes where
  "byte_order_mark = [CHR 0xEF, CHR 0xBB, CHR 0xBF]"

definition http_end_line :: "json_lib \<Rightarrow> ('k \<Rightarrow> mcp_message \<Rightarrow> 'k \<times> bool) \<Rightarrow> 'k http_stream \<Rightarrow> 'k http_result" where
  "http_end_line lib sink s =
     (if dump lib (JStr (http_line s)) = None then Inl (Refused ''Invalid MCP HTTP UTF-8'', s)
      else let s = (if \<not> first_line s then s
             else s\<lparr>http_line := (if starts_with (http_line s) byte_order_mark then drop 3 (http_line s)
                                  else http_line s), first_line := False\<rparr>) in
        bindE (if http_line s = [] then http_dispatch lib sink s
               else if hd (http_line s) \<noteq> CHR '':'' then http_field s else Inr s)
          (\<lambda>s. Inr (s\<lparr>http_line := []\<rparr>)))"

definition http_byte :: "json_lib \<Rightarrow> ('k \<Rightarrow> mcp_message \<Rightarrow> 'k \<times> bool) \<Rightarrow> 'k http_stream \<Rightarrow> char \<Rightarrow> 'k http_result" where
  "http_byte lib sink s c =
     (let skipped = skip_lf s; s = s\<lparr>skip_lf := False\<rparr> in
      if skipped \<and> c = newline then Inr s
      else if c = CHR 0x0D then bindE (http_end_line lib sink s) (\<lambda>s. Inr (s\<lparr>skip_lf := True\<rparr>))
      else if c = newline then http_end_line lib sink s
      else within_http s (http_append (http_line s) [c]) (\<lambda>l. Inr (s\<lparr>http_line := l\<rparr>)))"

definition failed_on_throw :: "'k http_result \<Rightarrow> 'k http_result" where
  "failed_on_throw r = (case r of Inl (e, s) \<Rightarrow> Inl (e, s\<lparr>http_failed := True\<rparr>) | Inr s \<Rightarrow> Inr s)"

definition http_feed :: "json_lib \<Rightarrow> ('k \<Rightarrow> mcp_message \<Rightarrow> 'k \<times> bool) \<Rightarrow> 'k http_stream \<Rightarrow> bytes \<Rightarrow> 'k http_result" where
  "http_feed lib sink s bs =
     (if http_failed s \<or> http_closed s then Inl (Refused ''MCP HTTP stream is retired'', s)
      else failed_on_throw (
        if length bs > http_stream_limit - received s then Inl (Refused ''MCP HTTP stream exceeds limits'', s)
        else let s = s\<lparr>received := received s + length bs\<rparr> in
          if \<not> sse_media s then within_http s (http_append (http_data s) bs) (\<lambda>d. Inr (s\<lparr>http_data := d\<rparr>))
          else foldE (http_byte lib sink) s bs))"

definition http_finish :: "json_lib \<Rightarrow> ('k \<Rightarrow> mcp_message \<Rightarrow> 'k \<times> bool) \<Rightarrow> 'k http_stream \<Rightarrow> 'k http_result" where
  "http_finish lib sink s =
     (if http_failed s \<or> http_closed s then Inl (Refused ''MCP HTTP stream is retired'', s)
      else failed_on_throw (bindE (
          if \<not> sse_media s then http_deliver lib sink s
          else if http_line s \<noteq> [] \<or> has_data s \<or> http_event s \<noteq> []
          then Inl (Refused ''Incomplete MCP HTTP SSE event at EOF'', s)
          else Inr s)
        (\<lambda>s. Inr (s\<lparr>http_closed := True\<rparr>))))"

section \<open>Header values\<close>

definition header_limit :: nat where "header_limit = 16 * 1024"
definition header_total_limit :: nat where "header_total_limit = 64 * 1024"

definition bad_header :: "session_error + 'a" where
  "bad_header = Inl (Refused ''Invalid MCP HTTP metadata'')"

definition compact_document :: "json_lib \<Rightarrow> bytes \<Rightarrow> session_error + json" where
  "compact_document lib source =
     bindE (wired (mcp_compact_object lib source)) (\<lambda>compact.
       case json_text lib compact of None \<Rightarrow> Inl (Wire Json_exception) | Some v \<Rightarrow> Inr v)"

definition between :: "nat \<Rightarrow> nat \<Rightarrow> char \<Rightarrow> bool" where
  "between lo hi c \<longleftrightarrow> lo \<le> byte c \<and> byte c \<le> hi"

definition token_char :: "char \<Rightarrow> bool" where
  "token_char c \<longleftrightarrow> between 97 122 c \<or> between 65 90 c \<or> between 48 57 c \<or>
     c \<in> set (''!#$%&'' @ [CHR 0x27] @ ''*+-.^_'' @ [CHR 0x60] @ ''|~'')"

definition header_token :: "bytes \<Rightarrow> bool" where
  "header_token s \<longleftrightarrow> s \<noteq> [] \<and> length s \<le> 128 \<and> list_all token_char s"

definition folded :: "bytes \<Rightarrow> bytes" where
  "folded s = map (\<lambda>c. if between 65 90 c then char_of (byte c + 32) else c) s"

definition plain_header :: "bytes \<Rightarrow> bool" where
  "plain_header s \<longleftrightarrow>
     \<not> (starts_with s ''=?base64?'' \<and> suffix ''?='' s) \<and>
     \<not> (s \<noteq> [] \<and> (hd s \<in> {CHR '' '', CHR 0x09} \<or> last s \<in> {CHR '' '', CHR 0x09})) \<and>
     list_all (\<lambda>c. c = CHR 0x09 \<or> between 32 126 c) s"

definition base64_alphabet :: bytes where
  "base64_alphabet = ''ABCDEFGHIJKLMNOPQRSTUVWXYZabcdefghijklmnopqrstuvwxyz0123456789+/''"

definition sextet :: "nat \<Rightarrow> char" where
  "sextet k = base64_alphabet ! k"

text \<open>One turn of the loop takes three bytes, a missing one as zero, and writes four characters.\<close>

fun base64 :: "bytes \<Rightarrow> bytes" where
  "base64 [] = []"
| "base64 (x # rest) =
     (let a = byte x; b = (case rest of [] \<Rightarrow> 0 | y # _ \<Rightarrow> byte y);
          c = (case rest of y # z # _ \<Rightarrow> byte z | _ \<Rightarrow> 0) in
      [sextet (a div 4), sextet ((a mod 4) * 16 + b div 16),
       if rest \<noteq> [] then sextet ((b mod 16) * 4 + c div 64) else CHR ''='',
       if length rest > 1 then sextet (c mod 64) else CHR ''='']
      @ base64 (drop 2 rest))"

definition encoded_header :: "bytes \<Rightarrow> session_error + bytes" where
  "encoded_header s =
     (if length s > header_limit then bad_header
      else if plain_header s then Inr s
      else let result = ''=?base64?'' @ base64 s @ ''?='' in
        if length result > header_limit then bad_header else Inr result)"

type_synonym http_header = "bytes \<times> bytes"

definition add_header :: "http_header list \<Rightarrow> bytes \<Rightarrow> bytes \<Rightarrow> session_error + http_header list" where
  "add_header hs n v =
     (let size_of = (\<lambda>(n, v). length n + length v); all = size_of (n, v) + sum_list (map size_of hs) in
      if length v > header_limit \<or> all > header_total_limit \<or> length hs \<ge> 67 then bad_header
      else Inr (hs @ [(n, v)]))"

definition header_string :: "json \<Rightarrow> session_error + bytes" where
  "header_string v = (if is_string v then Inr (str_of v) else bad_header)"

text \<open>
  \<open>integer\<close>: the digits before an exponent and how many of them follow the point, the exponent,
  then the digits scaled by it.
\<close>

definition exponent_char :: "char \<Rightarrow> bool" where
  "exponent_char c \<longleftrightarrow> c = CHR ''e'' \<or> c = CHR ''E''"

fun scan_digits :: "bool \<Rightarrow> bytes \<Rightarrow> bytes \<times> nat \<times> bytes" where
  "scan_digits decimal_seen [] = ([], 0, [])"
| "scan_digits decimal_seen (c # cs) =
     (if exponent_char c then ([], 0, c # cs)
      else if c = CHR ''.'' then scan_digits True cs
      else case scan_digits decimal_seen cs of (ds, n, rest) \<Rightarrow>
        (c # ds, if decimal_seen then n + 1 else n, rest))"

fun exponent_step :: "int \<Rightarrow> char \<Rightarrow> session_error + int" where
  "exponent_step n c =
     (if n > 1000000 then bad_header else Inr (n * 10 + (int (byte c) - 48)))"

definition scan_exponent :: "bytes \<Rightarrow> session_error + int" where
  "scan_exponent rest =
     (case rest of [] \<Rightarrow> Inr 0
      | e # after \<Rightarrow>
         (case after of [] \<Rightarrow> Inl (Wire Out_of_range)
          | c # cs \<Rightarrow>
              if c = CHR ''+'' then foldE exponent_step 0 cs
              else if c = CHR ''-'' then bindE (foldE exponent_step 0 cs) (\<lambda>n. Inr (- n))
              else foldE exponent_step 0 after))"

definition scale_digits :: "bytes \<Rightarrow> int \<Rightarrow> session_error + bytes" where
  "scale_digits ds scale =
     (if scale < 0 then
        (let keep = length ds - nat (- scale) in
         if nat (- scale) \<ge> length ds \<or> \<not> list_all (\<lambda>c. c = CHR ''0'') (drop keep ds) then bad_header
         else Inr (take keep ds))
      else if scale > 16 \<or> length ds + nat scale > 16 then bad_header
      else Inr (ds @ replicate (nat scale) (CHR ''0'')))"

definition integer_header :: "bytes \<Rightarrow> session_error + bytes" where
  "integer_header text =
     (let negative = starts_with text ''-'';
          (all, fraction, rest) = scan_digits False (if negative then tl text else text);
          ds = dropWhile (\<lambda>c. c = CHR ''0'') all in
      bindE (scan_exponent rest) (\<lambda>exponent.
        if ds = [] then Inr ''0''
        else bindE (scale_digits ds (exponent - int fraction)) (\<lambda>digits.
          if length digits > 16 \<or> (length digits = 16 \<and> bytes_less ''9007199254740991'' digits)
          then bad_header else Inr (if negative then CHR ''-'' # digits else digits))))"

section \<open>The headers of a request\<close>

definition http_legacy_version :: "bytes \<Rightarrow> bool" where
  "http_legacy_version v \<longleftrightarrow> v = ''2025-11-25'' \<or> v = ''2025-06-18''"

definition request_protocol :: "mcp_era \<Rightarrow> bytes \<Rightarrow> json \<Rightarrow> session_error + bytes" where
  "request_protocol era legacy_protocol params =
     (if era = Modern then
        (let meta = at_key params ''_meta''; k = ''io.modelcontextprotocol/protocolVersion'' in
         if \<not> is_object meta \<or> \<not> has_member meta k then bad_header
         else bindE (header_string (at_key meta k)) (\<lambda>protocol.
           if protocol \<noteq> ''2026-07-28'' then bad_header else Inr protocol))
      else if \<not> http_legacy_version legacy_protocol then bad_header
      else Inr legacy_protocol)"

definition modern_headers :: "bytes \<Rightarrow> json \<Rightarrow> http_header list \<Rightarrow> session_error + http_header list" where
  "modern_headers m params hs =
     bindE (add_header hs ''Mcp-Method'' m) (\<lambda>hs.
       if m \<in> {''tools/call'', ''prompts/get'', ''resources/read''} then
         (let k = (if m = ''resources/read'' then ''uri'' else ''name'') in
          if \<not> has_member params k then bad_header
          else bindE (header_string (at_key params k)) (\<lambda>n.
            if n = [] then bad_header
            else bindE (encoded_header n) (\<lambda>v. add_header hs ''Mcp-Name'' v)))
       else Inr hs)"

definition request_headers :: "json_lib \<Rightarrow> bytes \<Rightarrow> mcp_era \<Rightarrow> bytes \<Rightarrow> session_error + http_header list" where
  "request_headers lib request era legacy_protocol =
     bindE (wired (decode lib request)) (\<lambda>decoded.
       if era = Legacy \<and> (kind decoded = Result \<or> kind decoded = Error) then
         (if \<not> http_legacy_version legacy_protocol then bad_header
          else add_header [] ''MCP-Protocol-Version'' legacy_protocol)
       else bindE (compact_document lib request) (\<lambda>v.
         if at_key v ''jsonrpc'' \<noteq> JStr ''2.0'' \<or> \<not> has_member v ''method'' \<or> has_member v ''result''
           \<or> has_member v ''error'' then bad_header
         else bindE (header_string (at_key v ''method'')) (\<lambda>m.
           let params = (if has_member v ''params'' then at_key v ''params'' else JObj []) in
           if m = [] \<or> length m > 256 \<or> \<not> list_all (between 33 126) m \<or> \<not> is_object params then bad_header
           else bindE (request_protocol era legacy_protocol params) (\<lambda>protocol.
             bindE (add_header [] ''MCP-Protocol-Version'' protocol) (\<lambda>hs.
               if era = Modern then modern_headers m params hs else Inr hs)))))"

section \<open>The headers of a tool call\<close>

record tool_parameter =
  parameter_path :: "bytes list"
  parameter_header :: bytes
  parameter_type :: bytes

type_synonym header_scan = "bytes set \<times> tool_parameter list"

definition visit_mark :: "json \<Rightarrow> bytes list \<Rightarrow> bool \<Rightarrow> header_scan \<Rightarrow> session_error + header_scan" where
  "visit_mark node path reachable scan =
     (if \<not> has_member node ''x-mcp-header'' then Inr scan
      else if \<not> reachable \<or> path = [] \<or> \<not> has_member node ''type'' then bad_header
      else bindE (header_string (at_key node ''x-mcp-header'')) (\<lambda>n.
        bindE (header_string (at_key node ''type'')) (\<lambda>type.
          if \<not> header_token n \<or> folded n \<in> fst scan \<or> type \<notin> {''string'', ''integer'', ''boolean''}
            \<or> length (snd scan) \<ge> 64 then bad_header
          else Inr (insert (folded n) (fst scan), snd scan @
            [\<lparr>parameter_path = path, parameter_header = ''Mcp-Param-'' @ n, parameter_type = type\<rparr>]))))"

lemma foldE_cong [fundef_cong]:
  "s = s' \<Longrightarrow> xs = ys \<Longrightarrow> (\<And>u x. x \<in> set ys \<Longrightarrow> f u x = g u x) \<Longrightarrow> foldE f s xs = foldE g s' ys"
  by (induction ys arbitrary: xs s s') (auto cong: bindE_cong)

lemma item_size: "v \<in> set (elements node) \<Longrightarrow> size v < size node"
  by (cases node) (auto dest: size_list_estimation' [of _ _ _ size] simp: less_Suc_eq_le)

lemma member_size: "kv \<in> set (members node) \<Longrightarrow> size (snd kv) < size node"
proof (induction node)
  case (JObj ms)
  then have "size_prod (\<lambda>_. 0) size kv \<le> size_list (size_prod (\<lambda>_. 0) size) ms"
    by (intro size_list_estimation') auto
  then show ?case by (cases kv) simp
qed simp_all

function visit :: "json \<Rightarrow> bytes list \<Rightarrow> bool \<Rightarrow> header_scan \<Rightarrow> session_error + header_scan" where
  "visit node path reachable scan =
     (if is_array node then foldE (\<lambda>scan item. visit item path False scan) scan (elements node)
      else if \<not> is_object node then Inr scan
      else bindE (visit_mark node path reachable scan) (\<lambda>scan.
        foldE (\<lambda>scan kv.
          if fst kv = ''properties'' \<and> is_object (snd kv)
          then foldE (\<lambda>scan p. visit (snd p) (path @ [fst p]) reachable scan) scan (members (snd kv))
          else if fst kv \<noteq> ''x-mcp-header'' then visit (snd kv) path False scan
          else Inr scan) scan (members node)))"
  by pat_completeness auto
termination
  by (relation "measure (\<lambda>(node, path, reachable, scan). size node)")
    (auto dest: item_size member_size intro: less_trans [OF member_size member_size])

declare visit.simps [simp del]

definition tool_headers :: "json_lib \<Rightarrow> bytes \<Rightarrow> session_error + tool_parameter list" where
  "tool_headers lib source =
     bindE (compact_document lib source) (\<lambda>schema.
     bindE (visit schema [] True ({}, [])) (\<lambda>scan. Inr (snd scan)))"

text \<open>The text of the argument a path leads to, or nothing where the path ends early.\<close>

fun argument_text :: "json_lib \<Rightarrow> bytes list \<Rightarrow> bytes option \<Rightarrow> session_error + bytes option" where
  "argument_text lib [] found = Inr found"
| "argument_text lib (k # ks) found =
     (case found of None \<Rightarrow> Inr None
      | Some s \<Rightarrow> if s = ''null'' then Inr None
          else if \<not> starts_with s ''{'' then bad_header
          else bindE (wired (mcp_object_member lib s k)) (\<lambda>inner. argument_text lib ks inner))"

definition parameter_text :: "json_lib \<Rightarrow> bytes \<Rightarrow> bytes \<Rightarrow> session_error + bytes" where
  "parameter_text lib type s =
     (case json_text lib s of None \<Rightarrow> Inl (Wire Json_exception)
      | Some v \<Rightarrow>
          if type = ''string'' then header_string v
          else if type = ''boolean'' then
            (case v of JBool b \<Rightarrow> Inr (if b then ''true'' else ''false'') | _ \<Rightarrow> bad_header)
          else (case v of JInt _ \<Rightarrow> integer_header s | JFloat _ \<Rightarrow> integer_header s | _ \<Rightarrow> bad_header))"

definition project_parameter :: "json_lib \<Rightarrow> bytes \<Rightarrow> http_header list \<Rightarrow> tool_parameter \<Rightarrow>
    session_error + http_header list" where
  "project_parameter lib root hs p =
     bindE (argument_text lib (parameter_path p) (Some root)) (\<lambda>found.
       case found of None \<Rightarrow> Inr hs
       | Some s \<Rightarrow> if s = ''null'' then Inr hs
           else bindE (parameter_text lib (parameter_type p) s) (\<lambda>t.
             bindE (encoded_header t) (\<lambda>v. add_header hs (parameter_header p) v)))"

definition project :: "json_lib \<Rightarrow> bytes \<Rightarrow> tool_parameter list \<Rightarrow> session_error + http_header list" where
  "project lib arguments ps =
     bindE (wired (mcp_compact_object lib arguments)) (\<lambda>root. foldE (project_parameter lib root) [] ps)"

section \<open>Headers stay one line\<close>

text \<open>No control character but the tab: neither a line break nor a second header fits in a value.\<close>

definition visible :: "char \<Rightarrow> bool" where
  "visible c \<longleftrightarrow> c = CHR 0x09 \<or> between 32 126 c"

lemma visible_literals: "list_all visible base64_alphabet" "visible (CHR ''='')"
  "list_all visible ''=?base64?''" "list_all visible ''?=''"
  by (simp_all add: visible_def between_def base64_alphabet_def)

lemma visible_sextet: "k < 64 \<Longrightarrow> visible (sextet k)"
  using visible_literals(1) unfolding sextet_def by (simp add: list_all_length base64_alphabet_def)

lemma visible_group:
  assumes "a < 256" "b < 256" "c < 256"
  shows "list_all visible [sextet (a div 4), sextet ((a mod 4) * 16 + b div 16),
    if p then sextet ((b mod 16) * 4 + c div 64) else CHR ''='', if q then sextet (c mod 64) else CHR ''='']"
proof -
  have "a div 4 < 64" "b div 16 < 16" "c div 64 < 4" "c mod 64 < 64" "a mod 4 < 4" "b mod 16 < 16"
    using assms by (simp_all add: less_mult_imp_div_less)
  then have "a div 4 < 64" "(a mod 4) * 16 + b div 16 < 64" "(b mod 16) * 4 + c div 64 < 64" "c mod 64 < 64"
    by linarith+
  then show ?thesis by (simp add: visible_sextet visible_literals(2))
qed

lemma byte_small: "byte c < 256"
  by (simp add: of_char_def)

lemma visible_base64: "list_all visible (base64 s)"
proof (induction s rule: base64.induct)
  case (2 x rest)
  have "(case rest of [] \<Rightarrow> 0 | y # _ \<Rightarrow> byte y) < 256"
    "(case rest of y # z # _ \<Rightarrow> byte z | _ \<Rightarrow> 0) < 256"
    by (simp_all add: byte_small split: list.split)
  from visible_group [OF byte_small [of x] this] 2 show ?case
    unfolding base64.simps(2) Let_def list_all_append by blast
qed simp

lemma encoded_visible: "encoded_header s = Inr r \<Longrightarrow> list_all visible r \<and> length r \<le> header_limit"
  using visible_base64 [of s] visible_literals(3,4)
  unfolding encoded_header_def plain_header_def bad_header_def Let_def visible_def [symmetric, abs_def]
  by (auto simp only: list_all_append split: if_splits)

lemma header_limits: "bad_header \<noteq> Inr x"
  by (simp add: bad_header_def)

text \<open>The parameters a schema marks: tokens under the common prefix, apart whatever the case.\<close>

definition sound_scan :: "header_scan \<Rightarrow> bool" where
  "sound_scan scan \<longleftrightarrow> length (snd scan) \<le> 64 \<and>
     (\<forall>p \<in> set (snd scan). \<exists>n. header_token n \<and> parameter_header p = ''Mcp-Param-'' @ n \<and> folded n \<in> fst scan) \<and>
     distinct (map (\<lambda>p. folded (parameter_header p)) (snd scan))"

lemma folded_append: "folded (s @ t) = folded s @ folded t"
  by (simp add: folded_def)

lemma mark_sound:
  assumes "sound_scan scan" and "visit_mark node path reachable scan = Inr scan'"
  shows "sound_scan scan'"
proof (cases "has_member node ''x-mcp-header''")
  case False
  then show ?thesis using assms by (simp add: visit_mark_def)
next
  case True
  obtain n type where n: "header_token n" "folded n \<notin> fst scan" "length (snd scan) < 64"
    and scan': "scan' = (insert (folded n) (fst scan), snd scan @
      [\<lparr>parameter_path = path, parameter_header = ''Mcp-Param-'' @ n, parameter_type = type\<rparr>])"
    using assms(2) True unfolding visit_mark_def
    by (auto simp: bindE_Inr header_limits split: if_splits)
  have "folded (parameter_header p) \<noteq> folded (''Mcp-Param-'' @ n)" if "p \<in> set (snd scan)" for p
    using assms(1) n(2) that unfolding sound_scan_def folded_append by (metis folded_append same_append_eq)
  then show ?thesis using assms(1) n unfolding sound_scan_def scan' by force
qed

lemma foldE_element_keeps:
  assumes "\<And>s x t. x \<in> set xs \<Longrightarrow> P s \<Longrightarrow> f s x = Inr t \<Longrightarrow> P t" and "P s" and "foldE f s xs = Inr t"
  shows "P t"
  using assms by (induction xs arbitrary: s) (auto simp: result_simps)

lemma visit_sound: "sound_scan scan \<Longrightarrow> visit node path reachable scan = Inr scan' \<Longrightarrow> sound_scan scan'"
proof (induction node path reachable scan arbitrary: scan' rule: visit.induct)
  case (1 node path reachable scan)
  note result = "1.prems"(2) [unfolded visit.simps [of node]]
  show ?case
  proof (cases "is_array node")
    case True
    have "sound_scan t" if "item \<in> set (elements node)" "sound_scan s" "visit item path False s = Inr t" for s item t
      using "1.IH"(1) [OF True that(1)] that(2,3) by blast
    from foldE_element_keeps [where P = sound_scan and f = "\<lambda>s v. visit v path False s", OF this] show ?thesis
      using result True "1.prems"(1) by simp
  next
    case array: False
    show ?thesis
    proof (cases "is_object node")
      case False
      then show ?thesis using result array "1.prems"(1) by simp
    next
      case True
      obtain marked where marked: "visit_mark node path reachable scan = Inr marked"
        and rest: "foldE (\<lambda>scan kv.
            if fst kv = ''properties'' \<and> is_object (snd kv)
            then foldE (\<lambda>scan p. visit (snd p) (path @ [fst p]) reachable scan) scan (members (snd kv))
            else if fst kv \<noteq> ''x-mcp-header'' then visit (snd kv) path False scan
            else Inr scan) marked (members node) = Inr scan'"
        using result array True by (auto simp: bindE_Inr)
      note IH = "1.IH"(2,3) [OF array _ marked]
      have inner: "sound_scan t" if kv: "kv \<in> set (members node)" "fst kv = ''properties'' \<and> is_object (snd kv)"
        and "sound_scan s" "foldE (\<lambda>scan p. visit (snd p) (path @ [fst p]) reachable scan) s (members (snd kv)) = Inr t"
        for s kv t
        using IH(1) [OF _ kv] True by (intro foldE_element_keeps [where P = sound_scan, OF _ that(3,4)]) blast
      show ?thesis
      proof (rule foldE_element_keeps [where P = sound_scan, OF _ mark_sound [OF "1.prems"(1) marked] rest])
        fix s kv t
        assume kv: "kv \<in> set (members node)" and s: "sound_scan s" and eq: "(if fst kv = ''properties'' \<and> is_object (snd kv)
            then foldE (\<lambda>scan p. visit (snd p) (path @ [fst p]) reachable scan) s (members (snd kv))
            else if fst kv \<noteq> ''x-mcp-header'' then visit (snd kv) path False s
            else Inr s) = Inr t"
        show "sound_scan t"
        proof (cases "fst kv = ''properties'' \<and> is_object (snd kv)")
          case object: True
          then show ?thesis using inner [OF kv object s] eq by simp
        next
          case plain: False
          show ?thesis
          proof (cases "fst kv = ''x-mcp-header''")
            case True
            then show ?thesis using eq s by simp
          next
            case False
            then show ?thesis using IH(2) [OF _ kv plain] True s eq plain by auto
          qed
        qed
      qed
    qed
  qed
qed

definition header_bytes :: "http_header list \<Rightarrow> nat" where
  "header_bytes hs = sum_list (map (\<lambda>(n, v). length n + length v) hs)"

definition sound_headers :: "http_header list \<Rightarrow> bool" where
  "sound_headers hs \<longleftrightarrow> header_bytes hs \<le> header_total_limit \<and>
     (\<forall>(n, v) \<in> set hs. list_all visible v \<and> length v \<le> header_limit)"

lemma add_header_sound: "add_header hs n v = Inr hs' \<Longrightarrow> sound_headers hs \<Longrightarrow> list_all visible v \<Longrightarrow>
    hs' = hs @ [(n, v)] \<and> sound_headers hs'"
  by (auto simp: add_header_def sound_headers_def header_bytes_def header_limits Let_def split: if_splits)

lemma parameter_projected:
  assumes "project_parameter lib root hs p = Inr hs'" and "sound_headers hs"
  shows "hs' = hs \<and> sound_headers hs \<or> (\<exists>v. hs' = hs @ [(parameter_header p, v)] \<and> sound_headers hs')"
  using assms add_header_sound encoded_visible
  by (auto simp: project_parameter_def result_simps split: option.splits if_splits; blast)

lemma projection_sound:
  "foldE (project_parameter lib root) hs ps = Inr hs' \<Longrightarrow> sound_headers hs \<Longrightarrow>
    sound_headers hs' \<and> (\<exists>added. hs' = hs @ added \<and> subseq (map fst added) (map parameter_header ps))"
proof (induction ps arbitrary: hs)
  case (Cons p ps)
  obtain us where us: "project_parameter lib root hs p = Inr us" and rest: "foldE (project_parameter lib root) us ps = Inr hs'"
    using Cons.prems(1) by (auto simp: result_simps)
  from parameter_projected [OF us Cons.prems(2)] show ?case
  proof (elim disjE exE conjE)
    assume "us = hs" "sound_headers hs"
    then show ?thesis using Cons.IH [OF rest] by auto
  next
    fix v
    assume v: "us = hs @ [(parameter_header p, v)]" "sound_headers us"
    then show ?thesis using Cons.IH [OF rest] by (force simp: v(1))
  qed
qed simp

lemma subseq_distinct_map: "subseq xs ys \<Longrightarrow> distinct (map f ys) \<Longrightarrow> distinct (map f xs)"
  by (induction rule: list_emb.induct) (auto dest: list_emb_set)


text \<open>A tool with one string parameter, called with a line break as its argument.\<close>

definition header_schema :: json where
  "header_schema = JObj [(''properties'', JObj [(''a'',
     JObj [(''type'', JStr ''string''), (''x-mcp-header'', JStr ''zone'')])])]"

definition header_arguments :: bytes where
  "header_arguments = ''{'' @ quoted ''a'' @ '':'' @ quoted ''v'' @ ''}''"

definition header_lib :: json_lib where
  "header_lib = \<lparr>sax = (\<lambda>s. ([], if s = ''{}'' then Some header_schema
       else if s = header_arguments then Some (JObj [(''a'', JStr [newline])])
       else if s = quoted ''a'' then Some (JStr ''a'')
       else if s = quoted ''v'' then Some (JStr [newline]) else None)),
     dump = (\<lambda>_. None), same = (=)\<rparr>"

lemma header_schema_scan: "visit header_schema [] True ({}, []) = Inr ({''zone''},
    [\<lparr>parameter_path = [''a''], parameter_header = ''Mcp-Param-zone'', parameter_type = ''string''\<rparr>])"
  by (simp add: header_schema_def visit.simps visit_mark_def has_member_def member_def at_key_def
    header_string_def header_token_def token_char_def between_def folded_def)

lemma header_documents:
  "tool_headers header_lib ''{}'' = Inr
    [\<lparr>parameter_path = [''a''], parameter_header = ''Mcp-Param-zone'', parameter_type = ''string''\<rparr>]"
  by (simp add: tool_headers_def compact_document_def mcp_compact_object_def parameters_def mcp_parse_def
    header_lib_def message_limit_def json_text_def json_space_def header_schema_scan header_schema_def
    header_schema_scan [unfolded header_schema_def])

lemma header_projection: "project header_lib header_arguments
    [\<lparr>parameter_path = [''a''], parameter_header = ''Mcp-Param-zone'', parameter_type = ''string''\<rparr>]
    = Inr [(''Mcp-Param-zone'', ''=?base64?Cg==?='')]"
  by (simp add: project_def mcp_compact_object_def parameters_def mcp_parse_def header_lib_def header_arguments_def
    quoted_def message_limit_def json_space_def project_parameter_def mcp_object_member_def skip_space_def
    object_members.simps json_text_def raw_value_def opens_def closes_def trim_end_def parameter_text_def header_string_def
    encoded_header_def plain_header_def between_def newline_def header_limit_def sextet_def base64_alphabet_def
    add_header_def header_total_limit_def Let_def)


end
