(* ===== verification/Context_Selection.thy ===== *)
theory Context_Selection
  imports XM_Prelude
begin

text \<open>
  \<open>context_selection.cpp\<close>: which prefix of a conversation may be compacted, the framing that binds
  it, and whether a request fits a verified capacity. It works on metadata only. An int64 is an
  \<open>int\<close>; where the code guards against overflow the guard is modelled. \<open>digest\<close>, the hash of
  \<open>context_digest\<close>, is a parameter: no proof here needs to know it, and the function the code
  passes is the one of \<open>Context_Digest\<close>.
\<close>

datatype context_error = Bad_metadata | Bad_capacity bytes | Capacity_exceeded bytes

definition metadata_group_limit :: nat where "metadata_group_limit = 4096"
definition metadata_byte_limit :: nat where "metadata_byte_limit = 1024 * 1024"
definition max_int64 :: int where "max_int64 = 2 ^ 63 - 1"
definition max_uint64 :: int where "max_uint64 = 2 ^ 64 - 1"

section \<open>Records\<close>

datatype scope_kind = Session_scope | Execution_scope

record context_scope =
  scope_kind :: scope_kind
  scope_id :: bytes

record context_binding =
  provider_identity :: bytes
  authority_identity :: bytes
  policy_id :: bytes
  policy_revision :: int
  strategy_id :: bytes
  strategy_revision :: int

record context_policy =
  pol_id :: bytes
  pol_revision :: int
  pol_strategy :: bytes
  pol_strategy_revision :: int
  automatic :: bool
  max_groups :: nat
  max_messages :: nat
  max_request_bytes :: nat
  max_checkpoint_bytes :: nat
  max_maintenance_calls :: int
  max_count_requests :: int
  maintenance_deadline_ms :: int
  retain_recent_groups :: nat

datatype group_kind = User_group | Assistant_group | Tool_turn

record conversation_group =
  group_scope :: context_scope
  ordinal :: int
  first_message :: int
  last_message :: int
  execution_owner :: "bytes option"
  committed_event :: "int option"
  group_kind :: group_kind
  message_count :: int
  payload_bytes :: int
  source_binding :: bytes
  legacy_unattributed :: bool

record context_head =
  head_scope :: context_scope
  head_binding :: context_binding
  revision :: int
  covered_through :: int
  checkpoint_id :: "bytes option"

record context_snapshot =
  head :: context_head
  source_watermark :: int
  latest_user :: int
  snapshot_groups :: "conversation_group list"
  protected_users :: "conversation_group list"

record context_selection =
  covered_ordinal :: int
  protected_from :: int
  source_manifest :: bytes
  protected_tail :: bytes
  protected_ordinals :: "int list"
  protected_user_binding :: bytes

section \<open>Text fields\<close>

text \<open>The number of continuation bytes, the bits of the lead byte and the least code point.\<close>

definition lead_byte :: "nat \<Rightarrow> (nat \<times> nat \<times> nat) option" where
  "lead_byte a =
     (if 0xC2 \<le> a \<and> a \<le> 0xDF then Some (1, a mod 32, 0x80)
      else if 0xE0 \<le> a \<and> a \<le> 0xEF then Some (2, a mod 16, 0x800)
      else if 0xF0 \<le> a \<and> a \<le> 0xF4 then Some (3, a mod 8, 0x10000)
      else None)"

fun code_point :: "nat \<Rightarrow> bytes \<Rightarrow> nat option" where
  "code_point v [] = Some v"
| "code_point v (c # cs) = (if byte c div 64 \<noteq> 2 then None else code_point (v * 64 + byte c mod 64) cs)"

function utf8 :: "bytes \<Rightarrow> bool" where
  "utf8 [] = True"
| "utf8 (c # cs) =
     (if byte c < 0x80 then utf8 cs
      else case lead_byte (byte c) of None \<Rightarrow> False
        | Some (count, v, least) \<Rightarrow>
            if length cs < count then False
            else case code_point v (take count cs) of None \<Rightarrow> False
              | Some u \<Rightarrow> if u < least \<or> u > 0x10FFFF \<or> (0xD800 \<le> u \<and> u \<le> 0xDFFF) then False
                  else utf8 (drop count cs))"
  by pat_completeness auto
termination
  by (relation "measure length") auto

definition text_field :: "bytes \<Rightarrow> context_error + unit" where
  "text_field s = guardE (s \<noteq> [] \<and> length s \<le> metadata_byte_limit \<and> utf8 s) Bad_metadata"

definition checked :: "bool \<Rightarrow> context_error + unit" where
  "checked b = guardE b Bad_metadata"

definition check_scope :: "context_scope \<Rightarrow> context_error + unit" where
  "check_scope v = text_field (scope_id v)"

definition check_binding :: "context_binding \<Rightarrow> context_error + unit" where
  "check_binding v =
     bindE (text_field (provider_identity v)) (\<lambda>_. bindE (text_field (authority_identity v)) (\<lambda>_.
     bindE (text_field (policy_id v)) (\<lambda>_. bindE (text_field (strategy_id v)) (\<lambda>_.
       checked (policy_revision v > 0 \<and> strategy_revision v > 0)))))"

definition optional_text :: "bytes option \<Rightarrow> context_error + unit" where
  "optional_text v = (case v of None \<Rightarrow> Inr () | Some s \<Rightarrow> text_field s)"

definition check_group :: "conversation_group \<Rightarrow> context_scope \<Rightarrow> context_error + unit" where
  "check_group g expected =
     bindE (checked (group_scope g = expected \<and> ordinal g > 0 \<and> first_message g > 0 \<and>
       last_message g \<ge> first_message g \<and> message_count g > 0 \<and>
       message_count g \<le> last_message g - first_message g + 1 \<and> payload_bytes g > 0)) (\<lambda>_.
     bindE (checked (if group_kind g = Tool_turn then message_count g \<ge> 2 else message_count g = 1)) (\<lambda>_.
     bindE (optional_text (execution_owner g)) (\<lambda>_.
     bindE (checked (case committed_event g of None \<Rightarrow> True | Some e \<Rightarrow> e > 0)) (\<lambda>_.
     bindE (checked (group_kind g = User_group \<or> legacy_unattributed g \<or>
       (execution_owner g \<noteq> None \<and> committed_event g \<noteq> None))) (\<lambda>_.
       text_field (source_binding g))))))"

section \<open>Snapshots\<close>

text \<open>
  \<open>validate\<close> walks the groups and the pinned users, counting what it keeps; \<open>users\<close> is the map from
  ordinals to user groups.
\<close>

record walk =
  walk_ordinal :: int
  walk_seq :: int
  walk_bytes :: nat
  walk_messages :: int
  users :: "(int \<times> conversation_group) list"

definition optional_length :: "bytes option \<Rightarrow> nat" where
  "optional_length v = (case v of None \<Rightarrow> 0 | Some s \<Rightarrow> length s)"

definition put_user :: "conversation_group \<Rightarrow> walk \<Rightarrow> walk" where
  "put_user g w = (if map_of (users w) (ordinal g) = None then w\<lparr>users := users w @ [(ordinal g, g)]\<rparr> else w)"

definition account :: "conversation_group \<Rightarrow> walk \<Rightarrow> context_error + walk" where
  "account g w =
     (let sz = length (source_binding g) + length (scope_id (group_scope g))
            + optional_length (execution_owner g) + 128 in
      bindE (checked (sz \<le> metadata_byte_limit \<and> walk_bytes w \<le> metadata_byte_limit - sz \<and>
        message_count g \<le> max_uint64 - walk_messages w)) (\<lambda>_.
        Inr (w\<lparr>walk_bytes := walk_bytes w + sz, walk_messages := walk_messages w + message_count g\<rparr>)))"

definition walk_group :: "context_scope \<Rightarrow> walk \<Rightarrow> conversation_group \<Rightarrow> context_error + walk" where
  "walk_group scope w g =
     bindE (checked (walk_ordinal w \<noteq> max_int64)) (\<lambda>_.
     bindE (check_group g scope) (\<lambda>_.
     bindE (checked (ordinal g = walk_ordinal w + 1 \<and> first_message g > walk_seq w)) (\<lambda>_.
     bindE (account g (w\<lparr>walk_ordinal := walk_ordinal w + 1, walk_seq := last_message g\<rparr>)) (\<lambda>w'.
       Inr (if group_kind g = User_group then put_user g w' else w')))))"

text \<open>The second loop keeps the ordinal of the last pinned user in \<open>walk_ordinal\<close>.\<close>

definition walk_pinned :: "context_snapshot \<Rightarrow> walk \<Rightarrow> conversation_group \<Rightarrow> context_error + walk" where
  "walk_pinned s w g =
     bindE (check_group g (head_scope (head s))) (\<lambda>_.
     bindE (checked (group_kind g = User_group \<and> ordinal g > walk_ordinal w \<and> ordinal g \<le> source_watermark s)) (\<lambda>_.
     let w = w\<lparr>walk_ordinal := ordinal g\<rparr>; current = map_of (users w) (ordinal g) in
     bindE (if ordinal g > covered_through (head s) then bindE (checked (current = Some g)) (\<lambda>_. Inr w)
            else account g w) (\<lambda>w'.
       Inr (put_user g w'))))"

definition head_bytes :: "context_head \<Rightarrow> nat" where
  "head_bytes h = length (scope_id (head_scope h)) + length (provider_identity (head_binding h))
     + length (authority_identity (head_binding h)) + length (policy_id (head_binding h))
     + length (strategy_id (head_binding h)) + optional_length (checkpoint_id h)"

definition check_head :: "context_snapshot \<Rightarrow> context_error + unit" where
  "check_head s = (let h = head s in
     bindE (check_scope (head_scope h)) (\<lambda>_. bindE (check_binding (head_binding h)) (\<lambda>_.
     bindE (checked (revision h \<ge> 0 \<and> covered_through h \<ge> 0 \<and> source_watermark s \<ge> covered_through h \<and>
       latest_user s \<ge> 0 \<and> latest_user s \<le> source_watermark s)) (\<lambda>_.
     bindE (checked (if revision h = 0 then covered_through h = 0 \<and> checkpoint_id h = None
       else checkpoint_id h \<noteq> None)) (\<lambda>_.
     bindE (optional_text (checkpoint_id h)) (\<lambda>_.
     bindE (checked (source_watermark s - covered_through h = int (length (snapshot_groups s)) \<and>
       length (snapshot_groups s) \<le> metadata_group_limit \<and>
       length (protected_users s) \<le> metadata_group_limit)) (\<lambda>_.
       checked (head_bytes h \<le> metadata_byte_limit))))))))"

definition check_latest :: "context_snapshot \<Rightarrow> walk \<Rightarrow> context_error + unit" where
  "check_latest s w =
     checked (if source_watermark s = 0 then latest_user s = 0 \<and> users w = []
       else latest_user s \<noteq> 0 \<and> users w \<noteq> [] \<and> Max (fst ` set (users w)) = latest_user s)"

definition validate :: "context_snapshot \<Rightarrow> context_error + walk" where
  "validate s =
     bindE (check_head s) (\<lambda>_.
     bindE (foldE (walk_group (head_scope (head s)))
       \<lparr>walk_ordinal = covered_through (head s), walk_seq = 0, walk_bytes = head_bytes (head s),
        walk_messages = 0, users = []\<rparr> (snapshot_groups s)) (\<lambda>w.
     bindE (foldE (walk_pinned s) (w\<lparr>walk_ordinal := 0\<rparr>) (protected_users s)) (\<lambda>w'.
     bindE (check_latest s w') (\<lambda>_. Inr w'))))"

section \<open>Framing\<close>

definition big_endian :: "nat \<Rightarrow> bytes" where
  "big_endian n = map (\<lambda>shift. char_of (n div 2 ^ shift mod 256)) [56, 48, 40, 32, 24, 16, 8, 0]"

definition field :: "bytes \<Rightarrow> bytes" where
  "field s = big_endian (length s) @ s"

definition signed_decimal :: "int \<Rightarrow> bytes" where
  "signed_decimal n = (if n < 0 then CHR ''-'' # decimal (nat (- n)) else decimal (nat n))"

text \<open>A frame is the list of its fields; its bytes are what \<open>digest\<close> is given.\<close>

definition frame_bytes :: "bytes list \<Rightarrow> bytes" where
  "frame_bytes fs = concat (map field fs)"

definition optional_field :: "bytes option \<Rightarrow> bytes list" where
  "optional_field v = (case v of None \<Rightarrow> [''absent''] | Some s \<Rightarrow> [''present'', s])"

definition frame_scope :: "context_scope \<Rightarrow> bytes list" where
  "frame_scope v = [case scope_kind v of Session_scope \<Rightarrow> ''session'' | Execution_scope \<Rightarrow> ''execution'', scope_id v]"

definition kind_name :: "group_kind \<Rightarrow> bytes" where
  "kind_name k = (case k of User_group \<Rightarrow> ''user'' | Assistant_group \<Rightarrow> ''assistant'' | Tool_turn \<Rightarrow> ''tool_turn'')"

definition frame_group :: "conversation_group \<Rightarrow> bytes list" where
  "frame_group g = frame_scope (group_scope g)
     @ [signed_decimal (ordinal g), signed_decimal (first_message g), signed_decimal (last_message g)]
     @ optional_field (execution_owner g)
     @ optional_field (map_option signed_decimal (committed_event g))
     @ [kind_name (group_kind g), signed_decimal (message_count g), signed_decimal (payload_bytes g),
        source_binding g, if legacy_unattributed g then ''true'' else ''false'']"

definition frame_head :: "context_snapshot \<Rightarrow> bytes \<Rightarrow> bytes list" where
  "frame_head s domain = (let h = head s; b = head_binding h in
     [''native.context.metadata.v1'', domain] @ frame_scope (head_scope h)
     @ [provider_identity b, authority_identity b, policy_id b, signed_decimal (policy_revision b),
        strategy_id b, signed_decimal (strategy_revision b), signed_decimal (revision h)]
     @ optional_field (checkpoint_id h)
     @ [signed_decimal (covered_through h), signed_decimal (source_watermark s), signed_decimal (latest_user s)])"

definition source_frame :: "context_snapshot \<Rightarrow> int \<Rightarrow> context_error + bytes list" where
  "source_frame s covered =
     bindE (validate s) (\<lambda>_.
     bindE (checked (covered_through (head s) < covered \<and> covered \<le> source_watermark s)) (\<lambda>_.
       Inr (frame_head s ''source'' @ [signed_decimal covered, signed_decimal (covered - covered_through (head s))]
         @ concat (map frame_group (filter (\<lambda>g. ordinal g \<le> covered) (snapshot_groups s))))))"

definition tail_frame :: "context_snapshot \<Rightarrow> int \<Rightarrow> context_error + bytes list" where
  "tail_frame s start =
     bindE (validate s) (\<lambda>_.
     bindE (checked (covered_through (head s) < start \<and> start \<le> source_watermark s)) (\<lambda>_.
       Inr (frame_head s ''tail'' @ [signed_decimal start, signed_decimal (source_watermark s - start + 1)]
         @ concat (map frame_group (filter (\<lambda>g. ordinal g \<ge> start) (snapshot_groups s))))))"

fun user_groups :: "(int \<times> conversation_group) list \<Rightarrow> int \<Rightarrow> int list \<Rightarrow> context_error + conversation_group list" where
  "user_groups us previous [] = Inr []"
| "user_groups us previous (n # ns) =
     (if n \<le> previous then Inl Bad_metadata
      else case map_of us n of None \<Rightarrow> Inl Bad_metadata
        | Some g \<Rightarrow> bindE (user_groups us n ns) (\<lambda>gs. Inr (g # gs)))"

definition user_frame :: "context_snapshot \<Rightarrow> int list \<Rightarrow> context_error + bytes list" where
  "user_frame s ns =
     bindE (validate s) (\<lambda>w.
     bindE (checked (length ns \<le> metadata_group_limit)) (\<lambda>_.
     bindE (user_groups (users w) 0 ns) (\<lambda>gs.
     bindE (checked ((latest_user s > 0 \<longrightarrow> latest_user s \<in> set ns) \<and>
         (\<forall>g \<in> set (protected_users s). ordinal g \<in> set ns))) (\<lambda>_.
       Inr (frame_head s ''users'' @ [signed_decimal (int (length ns))] @ concat (map frame_group gs))))))"

definition digest_frame :: "(bytes \<Rightarrow> bytes) \<Rightarrow> context_error + bytes list \<Rightarrow> context_error + bytes" where
  "digest_frame digest r = bindE r (\<lambda>fs. Inr (digest (frame_bytes fs)))"

definition context_source_binding :: "(bytes \<Rightarrow> bytes) \<Rightarrow> context_snapshot \<Rightarrow> int \<Rightarrow> context_error + bytes" where
  "context_source_binding digest s covered = digest_frame digest (source_frame s covered)"

definition context_tail_binding :: "(bytes \<Rightarrow> bytes) \<Rightarrow> context_snapshot \<Rightarrow> int \<Rightarrow> context_error + bytes" where
  "context_tail_binding digest s start = digest_frame digest (tail_frame s start)"

definition context_user_binding :: "(bytes \<Rightarrow> bytes) \<Rightarrow> context_snapshot \<Rightarrow> int list \<Rightarrow> context_error + bytes" where
  "context_user_binding digest s ns = digest_frame digest (user_frame s ns)"

section \<open>Selection\<close>

definition policy_ok :: "context_snapshot \<Rightarrow> context_policy \<Rightarrow> walk \<Rightarrow> bool" where
  "policy_ok s p w \<longleftrightarrow> (let b = head_binding (head s) in
     pol_id p = policy_id b \<and> pol_revision p = policy_revision b \<and> pol_strategy p = strategy_id b \<and>
     pol_strategy_revision p = strategy_revision b \<and> max_groups p \<noteq> 0 \<and>
     max_groups p \<le> metadata_group_limit \<and> max_messages p \<noteq> 0 \<and> retain_recent_groups p \<noteq> 0 \<and>
     retain_recent_groups p \<le> max_groups p \<and> max_request_bytes p \<noteq> 0 \<and> max_checkpoint_bytes p \<noteq> 0 \<and>
     max_maintenance_calls p > 0 \<and> max_count_requests p > 0 \<and> maintenance_deadline_ms p > 0 \<and>
     length (snapshot_groups s) \<le> max_groups p \<and> walk_messages w \<le> int (max_messages p))"

definition selected_users :: "context_snapshot \<Rightarrow> int \<Rightarrow> int list" where
  "selected_users s covered = remdups_adj (sort (map ordinal (protected_users s)
     @ map ordinal (filter (\<lambda>g. group_kind g = User_group \<and> (ordinal g \<le> covered \<or> ordinal g = latest_user s))
         (snapshot_groups s))))"

definition select_context :: "(bytes \<Rightarrow> bytes) \<Rightarrow> context_snapshot \<Rightarrow> context_policy \<Rightarrow>
    context_error + context_selection option" where
  "select_context digest s p =
     bindE (validate s) (\<lambda>w.
     bindE (checked (policy_ok s p w)) (\<lambda>_.
       let gs = snapshot_groups s in
       if length gs \<le> retain_recent_groups p then Inr None
       else let start = ordinal (gs ! (length gs - retain_recent_groups p)); covered = start - 1;
                ns = selected_users s covered in
         bindE (context_source_binding digest s covered) (\<lambda>source.
         bindE (context_tail_binding digest s start) (\<lambda>rear.
         bindE (context_user_binding digest s ns) (\<lambda>pinned.
           Inr (Some \<lparr>covered_ordinal = covered, protected_from = start, source_manifest = source,
             protected_tail = rear, protected_ordinals = ns, protected_user_binding = pinned\<rparr>))))))"

section \<open>Capacity\<close>

datatype measure_semantics = Provider_exact | Provider_estimate | Serialized_bytes

record input_measure =
  meas_payload :: bytes
  meas_model :: bytes
  meas_scope :: context_scope
  meas_binding :: context_binding
  meas_revision :: int
  meas_watermark :: int
  semantics :: measure_semantics
  meas_value :: int
  meas_bytes :: int
  meas_elapsed :: int

record verified_capacity =
  cap_provider :: bytes
  cap_wire :: bytes
  cap_model :: bytes
  cap_route :: bytes
  cap_revision :: int
  cap_source :: bytes
  verified :: bool
  input_tokens :: "int option"
  output_tokens :: "int option"
  context_tokens :: "int option"
  default_output_tokens :: "int option"

record capacity_request =
  req_scope :: context_scope
  req_binding :: context_binding
  req_revision :: int
  req_watermark :: int
  req_payload :: bytes
  req_wire :: bytes
  req_model :: bytes
  req_route :: bytes
  capacity_revision :: int
  capacity_source :: bytes
  measured :: "input_measure option"
  requested_output :: "int option"
  buffer_tokens :: int
  serialized_bytes :: int
  max_serialized_bytes :: int
  automatic_enabled :: bool

datatype trigger_scope = Unknown_scope | Input_only | Total_context

text \<open>The two percentages are reported and never compared; their double expressions are parameters.\<close>

record 'd capacity_evaluation =
  bytes_fit :: bool
  compatible_measure :: bool
  matched_capacity :: bool
  ev_semantics :: "measure_semantics option"
  output_allowance :: "int option"
  trigger_tokens :: "int option"
  input_percentage :: "'d option"
  context_percentage :: "'d option"
  input_fit :: "bool option"
  token_fit :: "bool option"
  trigger :: trigger_scope
  automatic_compaction :: bool

definition positive :: "int option \<Rightarrow> context_error + unit" where
  "positive v = guardE (\<forall>n \<in> set_option v. n > 0) (Bad_capacity ''Invalid context capacity metadata'')"

definition route_identity :: "bytes \<Rightarrow> bool" where
  "route_identity s \<longleftrightarrow> length s = 64 \<and> set s \<subseteq> set ''0123456789abcdef''"

definition compatible :: "input_measure \<Rightarrow> capacity_request \<Rightarrow> context_error + bool" where
  "compatible m r =
     (if meas_value m < 0 \<or> meas_bytes m < 0 \<or> meas_elapsed m < 0 \<or> meas_revision m < 0 \<or> meas_watermark m < 0
      then Inl (Bad_capacity ''Invalid context measure metadata'')
      else Inr (meas_scope m = req_scope r \<and> meas_binding m = req_binding r \<and> meas_revision m = req_revision r \<and>
        meas_watermark m = req_watermark r \<and> meas_payload m = req_payload r \<and> meas_model m = req_model r \<and>
        meas_bytes m = serialized_bytes r))"

definition check_request :: "capacity_request \<Rightarrow> context_error + unit" where
  "check_request r =
     bindE (check_scope (req_scope r)) (\<lambda>_. bindE (check_binding (req_binding r)) (\<lambda>_.
     bindE (text_field (req_payload r)) (\<lambda>_. bindE (text_field (req_wire r)) (\<lambda>_.
     bindE (text_field (req_model r)) (\<lambda>_.
     bindE (guardE (req_revision r \<ge> 0 \<and> req_watermark r \<ge> 0 \<and> capacity_revision r \<ge> 0 \<and> buffer_tokens r \<ge> 0 \<and>
         serialized_bytes r \<ge> 0 \<and> max_serialized_bytes r > 0) (Bad_capacity ''Invalid context capacity request'')) (\<lambda>_.
     bindE (guardE (req_route r = [] \<or> route_identity (req_route r))
         (Bad_capacity ''Invalid context capacity route'')) (\<lambda>_.
       positive (requested_output r))))))))"

definition unmeasured :: "capacity_request \<Rightarrow> 'd capacity_evaluation" where
  "unmeasured r = \<lparr>bytes_fit = (serialized_bytes r \<le> max_serialized_bytes r), compatible_measure = False,
     matched_capacity = False, ev_semantics = None, output_allowance = None, trigger_tokens = None,
     input_percentage = None, context_percentage = None, input_fit = None, token_fit = None,
     trigger = Unknown_scope, automatic_compaction = False\<rparr>"

definition measure_request :: "capacity_request \<Rightarrow> context_error + 'd capacity_evaluation" where
  "measure_request r =
     (case measured r of None \<Rightarrow> Inr (unmeasured r)
      | Some m \<Rightarrow> bindE (compatible m r) (\<lambda>same. Inr (if same
          then (unmeasured r)\<lparr>ev_semantics := Some (semantics m), compatible_measure := semantics m \<noteq> Serialized_bytes\<rparr>
          else unmeasured r)))"

definition check_capacity :: "verified_capacity \<Rightarrow> context_error + unit" where
  "check_capacity c =
     bindE (positive (input_tokens c)) (\<lambda>_. bindE (positive (output_tokens c)) (\<lambda>_.
     bindE (positive (context_tokens c)) (\<lambda>_. bindE (positive (default_output_tokens c)) (\<lambda>_.
       guardE (cap_revision c \<ge> 0 \<and> (\<forall>d \<in> set_option (default_output_tokens c).
           \<forall>n \<in> set_option (output_tokens c). d \<le> n)) (Bad_capacity ''Invalid context capacity metadata'')))))"

definition match_capacity :: "verified_capacity \<Rightarrow> capacity_request \<Rightarrow> context_error + bool" where
  "match_capacity c r =
     bindE (text_field (cap_provider c)) (\<lambda>_. bindE (text_field (cap_wire c)) (\<lambda>_.
     bindE (text_field (cap_model c)) (\<lambda>_. bindE (text_field (cap_source c)) (\<lambda>_.
     bindE (guardE (cap_revision c > 0 \<and> route_identity (cap_route c))
       (Bad_capacity ''Invalid context capacity metadata'')) (\<lambda>_.
       Inr (cap_provider c = provider_identity (req_binding r) \<and> cap_wire c = req_wire r \<and>
         cap_model c = req_model r \<and> cap_revision c = capacity_revision r \<and> cap_source c = capacity_source r \<and>
         route_identity (req_route r) \<and> cap_route c = req_route r))))))"

definition exceeds :: "int option \<Rightarrow> int \<Rightarrow> bool" where
  "exceeds limit n \<longleftrightarrow> (\<exists>l \<in> set_option limit. n \<ge> l)"

definition allow_output :: "verified_capacity \<Rightarrow> capacity_request \<Rightarrow> context_error + int option" where
  "allow_output c r =
     (if exceeds (input_tokens c) (buffer_tokens r)
      then Inl (Capacity_exceeded ''Context input buffer leaves no usable capacity'')
      else if exceeds (context_tokens c) (buffer_tokens r)
      then Inl (Capacity_exceeded ''Context buffer leaves no usable capacity'')
      else case (if requested_output r \<noteq> None then requested_output r else default_output_tokens c, output_tokens c) of
        (Some n, Some limit) \<Rightarrow>
          if n > limit then Inl (Capacity_exceeded ''Requested output exceeds verified capacity'')
          else if exceeds (context_tokens c) (max n (buffer_tokens r))
          then Inl (Capacity_exceeded ''Output reservation leaves no usable context capacity'')
          else Inr (Some n)
      | _ \<Rightarrow> Inr None)"

definition fit_input :: "(int \<Rightarrow> int \<Rightarrow> 'd) \<Rightarrow> verified_capacity \<Rightarrow> capacity_request \<Rightarrow> int \<Rightarrow>
    'd capacity_evaluation \<Rightarrow> 'd capacity_evaluation" where
  "fit_input ratio c r n ev =
     (case input_tokens c of None \<Rightarrow> ev
      | Some limit \<Rightarrow> ev\<lparr>trigger_tokens := Some (limit - buffer_tokens r), trigger := Input_only,
          input_percentage := Some (ratio n limit), input_fit := Some (n \<le> limit)\<rparr>)"

definition fit_context :: "(int \<Rightarrow> int \<Rightarrow> int \<Rightarrow> 'd) \<Rightarrow> capacity_request \<Rightarrow> int \<Rightarrow> int \<Rightarrow> int \<Rightarrow>
    'd capacity_evaluation \<Rightarrow> 'd capacity_evaluation" where
  "fit_context ratio r n allowance limit ev =
     (let threshold = limit - max allowance (buffer_tokens r) in
      ev\<lparr>trigger_tokens := Some (case trigger_tokens ev of None \<Rightarrow> threshold | Some k \<Rightarrow> min k threshold),
         trigger := Total_context, context_percentage := Some (ratio n allowance limit),
         token_fit := Some (n \<le> limit - allowance \<and> (case input_fit ev of None \<Rightarrow> True | Some b \<Rightarrow> b))\<rparr>)"

definition compact_now :: "capacity_request \<Rightarrow> int \<Rightarrow> 'd capacity_evaluation \<Rightarrow> 'd capacity_evaluation" where
  "compact_now r n ev =
     (case trigger_tokens ev of None \<Rightarrow> ev
      | Some k \<Rightarrow> ev\<lparr>automatic_compaction := automatic_enabled r \<and> bytes_fit ev \<and> n \<ge> k\<rparr>)"

definition evaluate_capacity :: "(int \<Rightarrow> int \<Rightarrow> 'd) \<Rightarrow> (int \<Rightarrow> int \<Rightarrow> int \<Rightarrow> 'd) \<Rightarrow> capacity_request \<Rightarrow>
    verified_capacity option \<Rightarrow> context_error + 'd capacity_evaluation" where
  "evaluate_capacity ratio ratio' r capacity =
     bindE (check_request r) (\<lambda>_. bindE (measure_request r) (\<lambda>ev.
     case capacity of None \<Rightarrow> Inr ev
     | Some c \<Rightarrow> bindE (check_capacity c) (\<lambda>_.
         if \<not> verified c then Inr ev
         else bindE (match_capacity c r) (\<lambda>same.
           let ev = ev\<lparr>matched_capacity := same\<rparr> in
           if \<not> same then Inr ev
           else bindE (allow_output c r) (\<lambda>allowance.
             let ev = ev\<lparr>output_allowance := allowance\<rparr> in
             case measured r of None \<Rightarrow> Inr ev
             | Some m \<Rightarrow>
                 if \<not> compatible_measure ev then Inr ev
                 else let n = meas_value m; ev = fit_input ratio c r n ev in
                   case (context_tokens c, allowance) of
                     (None, _) \<Rightarrow> Inr (compact_now r n ev)
                   | (Some limit, None) \<Rightarrow> Inr ev
                   | (Some limit, Some k) \<Rightarrow> Inr (compact_now r n (fit_context ratio' r n k limit ev)))))))"

section \<open>Frames determine what they bind\<close>

lemma digits_determine:
  fixes m n :: nat
  assumes "\<forall>i < k. m div 256 ^ i mod 256 = n div 256 ^ i mod 256"
  shows "m mod 256 ^ k = n mod 256 ^ k"
  using assms
proof (induction k)
  case (Suc k)
  then have "m mod 256 ^ k = n mod 256 ^ k" "m div 256 ^ k mod 256 = n div 256 ^ k mod 256" by simp_all
  then show ?case
    using mod_mult2_eq [of m "256 ^ k" 256] mod_mult2_eq [of n "256 ^ k" 256] by (simp add: mult.commute)
qed simp

lemma big_endian_nth: "i < 8 \<Longrightarrow> big_endian n ! (7 - i) = char_of (n div 256 ^ i mod 256)"
proof -
  assume "i < 8"
  then have "[56, 48, 40, 32, 24, 16, 8, 0 :: nat] ! (7 - i) = 8 * i"
    by (simp add: less_Suc_eq numeral_nat) auto
  moreover have "(2 :: nat) ^ (8 * i) = 256 ^ i" by (simp add: power_mult)
  moreover have "big_endian n ! (7 - i) = char_of (n div 2 ^ ([56, 48, 40, 32, 24, 16, 8, 0] ! (7 - i)) mod 256)"
    unfolding big_endian_def by (rule nth_map) simp
  ultimately show ?thesis by simp
qed

lemma big_endian_inj:
  assumes "m < 2 ^ 64" and "n < 2 ^ 64" and eq: "big_endian m = big_endian n"
  shows "m = n"
proof -
  have "m div 256 ^ i mod 256 = n div 256 ^ i mod 256" if "i < 8" for i
  proof -
    have "(char_of (m div 256 ^ i mod 256) :: char) = char_of (n div 256 ^ i mod 256)"
      using big_endian_nth [OF that, of m] big_endian_nth [OF that, of n] eq by simp
    from arg_cong [OF this, of "of_char :: char \<Rightarrow> nat"] show ?thesis by simp
  qed
  then show ?thesis using digits_determine [of 8 m n] assms(1,2) by simp
qed

text \<open>Every string of the program is shorter than its own length counter.\<close>

definition sized :: "bytes list \<Rightarrow> bool" where
  "sized fs \<longleftrightarrow> (\<forall>f \<in> set fs. length f < 2 ^ 64)"

lemma big_endian_length [simp]: "length (big_endian n) = 8"
  by (simp add: big_endian_def)

lemma field_prefix:
  assumes "length s < 2 ^ 64" and "length t < 2 ^ 64" and "field s @ r = field t @ r'"
  shows "s = t \<and> r = r'"
proof -
  have "big_endian (length s) = big_endian (length t)" "s @ r = t @ r'"
    using assms(3) by (simp_all add: field_def append_eq_append_conv)
  then show ?thesis using big_endian_inj [OF assms(1,2)] by simp
qed

lemma field_nonempty: "field s \<noteq> []"
  using big_endian_length [of "length s"] unfolding field_def by (metis append_is_Nil_conv list.size(3) zero_neq_numeral)

lemma frame_bytes_inj: "sized fs \<Longrightarrow> sized gs \<Longrightarrow> frame_bytes fs = frame_bytes gs \<Longrightarrow> fs = gs"
proof (induction fs arbitrary: gs)
  case Nil
  then show ?case by (cases gs) (simp_all add: frame_bytes_def field_nonempty)
next
  case (Cons f fs)
  then obtain g hs where gs: "gs = g # hs" by (cases gs) (auto simp: frame_bytes_def field_nonempty)
  have "f = g \<and> frame_bytes fs = frame_bytes hs"
    using Cons.prems field_prefix [of f g "frame_bytes fs" "frame_bytes hs"] by (simp add: gs sized_def frame_bytes_def)
  then show ?case using Cons by (simp add: gs sized_def)
qed

lemma signed_decimal_inj: "signed_decimal m = signed_decimal n \<Longrightarrow> m = n"
proof -
  have minus: "CHR ''-'' \<notin> set (decimal k)" for k using decimal_chars [of k] by auto
  have "decimal i \<noteq> CHR ''-'' # s" "CHR ''-'' # s \<noteq> decimal i" for i s
    using minus [of i] by (metis list.set_intros(1))+
  then show "signed_decimal m = signed_decimal n \<Longrightarrow> m = n"
    by (auto simp: signed_decimal_def split: if_splits dest!: decimal_inj)
qed

lemma signed_decimal_eq [simp]: "signed_decimal m = signed_decimal n \<longleftrightarrow> m = n"
  using signed_decimal_inj by blast

lemma kind_name_eq [simp]: "kind_name k = kind_name l \<longleftrightarrow> k = l"
  by (cases k; cases l) (simp_all add: kind_name_def)

lemma optional_prefix: "optional_field a @ r = optional_field b @ r' \<longleftrightarrow> a = b \<and> r = r'"
  by (auto simp: optional_field_def split: option.splits)

lemma scope_prefix: "frame_scope a @ r = frame_scope b @ r' \<longleftrightarrow> a = b \<and> r = r'"
  by (cases a; cases b) (auto simp: frame_scope_def split: scope_kind.splits)

lemma decimal_option_eq: "map_option signed_decimal a = map_option signed_decimal b \<longleftrightarrow> a = b"
  by (cases a; cases b) auto

lemma group_prefix: "frame_group g @ r = frame_group h @ r' \<longleftrightarrow> g = h \<and> r = r'"
proof -
  have "g = h" if "group_scope g = group_scope h" "ordinal g = ordinal h" "first_message g = first_message h"
    "last_message g = last_message h" "execution_owner g = execution_owner h" "committed_event g = committed_event h"
    "group_kind g = group_kind h" "message_count g = message_count h" "payload_bytes g = payload_bytes h"
    "source_binding g = source_binding h" "legacy_unattributed g = legacy_unattributed h"
    using that by (cases g; cases h) simp
  then show ?thesis
    by (auto simp: frame_group_def scope_prefix optional_prefix decimal_option_eq split: if_splits)
qed

lemma group_nonempty: "frame_group g \<noteq> []"
  by (simp add: frame_group_def)

lemma groups_inj: "concat (map frame_group gs) = concat (map frame_group hs) \<Longrightarrow> gs = hs"
proof (induction gs arbitrary: hs)
  case Nil
  then show ?case by (cases hs) (simp_all add: group_nonempty)
next
  case (Cons g gs)
  then obtain h ks where "hs = h # ks" by (cases hs) (simp_all add: group_nonempty)
  then show ?case using Cons by (simp add: group_prefix)
qed

lemma head_prefix: "frame_head s d @ r = frame_head s' d' @ r' \<longleftrightarrow>
    d = d' \<and> head s = head s' \<and> source_watermark s = source_watermark s' \<and> latest_user s = latest_user s' \<and> r = r'"
proof -
  have "h = h'" if "head_scope h = head_scope h'" "provider_identity (head_binding h) = provider_identity (head_binding h')"
    "authority_identity (head_binding h) = authority_identity (head_binding h')"
    "policy_id (head_binding h) = policy_id (head_binding h')"
    "policy_revision (head_binding h) = policy_revision (head_binding h')"
    "strategy_id (head_binding h) = strategy_id (head_binding h')"
    "strategy_revision (head_binding h) = strategy_revision (head_binding h')"
    "revision h = revision h'" "covered_through h = covered_through h'" "checkpoint_id h = checkpoint_id h'" for h h' :: context_head
    using that by (cases h; cases h'; cases "head_binding h"; cases "head_binding h'") simp
  then show ?thesis
    by (auto simp: frame_head_def Let_def scope_prefix optional_prefix)
qed

lemma source_frame_Inr: "source_frame s covered = Inr fs \<Longrightarrow> fs = frame_head s ''source'' @
    [signed_decimal covered, signed_decimal (covered - covered_through (head s))]
    @ concat (map frame_group (filter (\<lambda>g. ordinal g \<le> covered) (snapshot_groups s)))"
  by (auto simp: source_frame_def checked_def result_simps split: if_splits)

lemma tail_frame_Inr: "tail_frame s start = Inr fs \<Longrightarrow> fs = frame_head s ''tail'' @
    [signed_decimal start, signed_decimal (source_watermark s - start + 1)]
    @ concat (map frame_group (filter (\<lambda>g. ordinal g \<ge> start) (snapshot_groups s)))"
  by (auto simp: tail_frame_def checked_def result_simps split: if_splits)

text \<open>
  C18. The bytes hashed for a prefix of a conversation determine it: two accepted requests with the
  same bytes have the same scope, binding, revision, checkpoint and boundaries and the same
  metadata for every group of the prefix, and no bytes of a prefix are those of a tail.
\<close>
theorem source_frame_determines:
  assumes "source_frame s covered = Inr fs" and "sized fs"
    and "source_frame s' covered' = Inr fs'" and "sized fs'"
    and "tail_frame u start = Inr ts" and "sized ts"
  shows "(frame_bytes fs = frame_bytes fs' \<longrightarrow>
      head s = head s' \<and> source_watermark s = source_watermark s' \<and> latest_user s = latest_user s' \<and>
      covered = covered' \<and> filter (\<lambda>g. ordinal g \<le> covered) (snapshot_groups s) =
        filter (\<lambda>g. ordinal g \<le> covered) (snapshot_groups s')) \<and>
    frame_bytes fs \<noteq> frame_bytes ts"
proof (rule conjI, rule impI)
  assume "frame_bytes fs = frame_bytes fs'"
  then have "fs = fs'" by (rule frame_bytes_inj [OF assms(2,4)])
  then show "head s = head s' \<and> source_watermark s = source_watermark s' \<and> latest_user s = latest_user s' \<and>
      covered = covered' \<and> filter (\<lambda>g. ordinal g \<le> covered) (snapshot_groups s) =
        filter (\<lambda>g. ordinal g \<le> covered) (snapshot_groups s')"
    unfolding source_frame_Inr [OF assms(1)] source_frame_Inr [OF assms(3)] head_prefix
    by (auto intro: groups_inj)
next
  have "fs \<noteq> ts"
    unfolding source_frame_Inr [OF assms(1)] tail_frame_Inr [OF assms(5)] head_prefix by simp
  then show "frame_bytes fs \<noteq> frame_bytes ts" using frame_bytes_inj [OF assms(2,6)] by blast
qed

section \<open>What a selection protects\<close>

lemma checked_simps [simp]: "checked b = Inr u \<longleftrightarrow> b" "bindE (checked b) f = (if b then f () else Inl Bad_metadata)"
  by (simp_all add: checked_def)

lemma put_user_frame [simp]:
  "walk_ordinal (put_user g w) = walk_ordinal w" "walk_messages (put_user g w) = walk_messages w"
  by (simp_all add: put_user_def)

definition keys :: "walk \<Rightarrow> int set" where
  "keys w = fst ` set (users w)"

definition user_ordinals :: "conversation_group list \<Rightarrow> int set" where
  "user_ordinals gs = ordinal ` {g \<in> set gs. group_kind g = User_group}"

lemma user_ordinals_simps [simp]: "user_ordinals [] = {}"
  "user_ordinals (g # gs) = (if group_kind g = User_group then {ordinal g} else {}) \<union> user_ordinals gs"
  by (auto simp: user_ordinals_def)

lemma put_user_keys: "keys (put_user g w) = insert (ordinal g) (keys w)"
  by (auto simp: put_user_def keys_def map_of_eq_None_iff)

lemma keys_find: "n \<in> keys w \<longleftrightarrow> map_of (users w) n \<noteq> None"
  by (simp add: keys_def map_of_eq_None_iff)

lemma account_Inr: "account g w = Inr w' \<Longrightarrow> keys w' = keys w \<and> walk_ordinal w' = walk_ordinal w"
  by (auto simp: account_def Let_def keys_def split: if_splits)

lemma keys_frame [simp]: "keys (w\<lparr>walk_ordinal := n\<rparr>) = keys w" "keys (w\<lparr>walk_seq := n\<rparr>) = keys w"
  by (simp_all add: keys_def)

text \<open>The groups are numbered without a gap, and every user group is a key of the map.\<close>

lemma check_group_positive: "check_group g sc = Inr u \<Longrightarrow> ordinal g > 0"
  by (simp add: check_group_def split: if_splits)

lemma walk_group_Inr:
  assumes "walk_group sc w g = Inr w'"
  shows "ordinal g = walk_ordinal w + 1" "walk_ordinal w' = ordinal g" "ordinal g > 0"
    "keys w' = keys w \<union> user_ordinals [g]"
proof -
  obtain u where at: "ordinal g = walk_ordinal w + 1" and pos: "\<exists>x. check_group g sc = Inr x"
    and u: "account g (w\<lparr>walk_ordinal := walk_ordinal w + 1, walk_seq := last_message g\<rparr>) = Inr u"
    and w': "w' = (if group_kind g = User_group then put_user g u else u)"
    using assms unfolding walk_group_def
    by (cases "check_group g sc";
        cases "account g (w\<lparr>walk_ordinal := walk_ordinal w + 1, walk_seq := last_message g\<rparr>)")
      (simp_all split: if_splits)
  show "ordinal g = walk_ordinal w + 1" by (rule at)
  show "ordinal g > 0" using pos check_group_positive by blast
  show "walk_ordinal w' = ordinal g" "keys w' = keys w \<union> user_ordinals [g]"
    using account_Inr [OF u] by (simp_all add: w' at put_user_keys)
qed

lemma walk_groups_Inr:
  "foldE (walk_group sc) w gs = Inr w' \<Longrightarrow>
    (\<forall>i < length gs. ordinal (gs ! i) = walk_ordinal w + 1 + int i) \<and> (\<forall>g \<in> set gs. ordinal g > 0) \<and>
    keys w' = keys w \<union> user_ordinals gs"
proof (induction gs arbitrary: w)
  case (Cons g gs)
  obtain u where u: "walk_group sc w g = Inr u" and rest: "foldE (walk_group sc) u gs = Inr w'"
    using Cons.prems by (auto simp: result_simps)
  note step = walk_group_Inr [OF u] and IH = Cons.IH [OF rest]
  have "ordinal ((g # gs) ! i) = walk_ordinal w + 1 + int i" if "i < length (g # gs)" for i
    using that IH step(1,2) by (cases i) auto
  then show ?case using IH step(3,4) by auto
qed simp

text \<open>The pinned users are in order and every one of them is a key.\<close>

lemma walk_pinned_Inr:
  assumes "walk_pinned s w g = Inr w'"
  shows "walk_ordinal w < ordinal g" "walk_ordinal w' = ordinal g" "ordinal g > 0"
    "keys w' = insert (ordinal g) (keys w)" "group_kind g = User_group"
proof -
  define v where "v = w\<lparr>walk_ordinal := ordinal g\<rparr>"
  obtain u where at: "walk_ordinal w < ordinal g" "group_kind g = User_group"
    and pos: "\<exists>x. check_group g (head_scope (head s)) = Inr x"
    and u: "account g v = Inr u \<or> u = v" and w': "w' = put_user g u"
    using assms unfolding walk_pinned_def Let_def v_def [symmetric]
    by (cases "check_group g (head_scope (head s))"; cases "account g v") (auto split: if_splits)
  have u: "keys u = keys w" "walk_ordinal u = ordinal g" using u account_Inr [of g v u] by (auto simp: v_def)
  show "walk_ordinal w < ordinal g" "group_kind g = User_group" by (rule at)+
  show "ordinal g > 0" using pos check_group_positive by blast
  show "walk_ordinal w' = ordinal g" "keys w' = insert (ordinal g) (keys w)"
    by (simp_all add: w' u put_user_keys)
qed

lemma walk_pinneds_Inr:
  "foldE (walk_pinned s) w gs = Inr w' \<Longrightarrow> (\<forall>g \<in> set gs. ordinal g > 0) \<and> keys w' = keys w \<union> ordinal ` set gs"
proof (induction gs arbitrary: w)
  case (Cons g gs)
  obtain u where u: "walk_pinned s w g = Inr u" and rest: "foldE (walk_pinned s) u gs = Inr w'"
    using Cons.prems by (auto simp: result_simps)
  show ?case using walk_pinned_Inr [OF u] Cons.IH [OF rest] by auto
qed simp

lemma validate_facts:
  assumes "validate s = Inr w"
  shows "\<forall>i < length (snapshot_groups s). ordinal (snapshot_groups s ! i) = covered_through (head s) + 1 + int i"
    and "\<forall>g \<in> set (snapshot_groups s @ protected_users s). ordinal g > 0"
    and "keys w = user_ordinals (snapshot_groups s) \<union> ordinal ` set (protected_users s)"
    and "source_watermark s - covered_through (head s) = int (length (snapshot_groups s))"
    and "latest_user s > 0 \<Longrightarrow> latest_user s \<in> keys w"
    and "source_watermark s > 0 \<Longrightarrow> latest_user s > 0" and "covered_through (head s) \<ge> 0"
proof -
  obtain u where heads: "check_head s = Inr ()" and gs: "foldE (walk_group (head_scope (head s)))
      \<lparr>walk_ordinal = covered_through (head s), walk_seq = 0, walk_bytes = head_bytes (head s),
       walk_messages = 0, users = []\<rparr> (snapshot_groups s) = Inr u"
    and ps: "foldE (walk_pinned s) (u\<lparr>walk_ordinal := 0\<rparr>) (protected_users s) = Inr w"
    and latest: "check_latest s w = Inr ()"
    using assms by (auto simp: validate_def result_simps)
  note G = walk_groups_Inr [OF gs] and P = walk_pinneds_Inr [OF ps]
  show "\<forall>i < length (snapshot_groups s). ordinal (snapshot_groups s ! i) = covered_through (head s) + 1 + int i"
    using G by simp
  show "\<forall>g \<in> set (snapshot_groups s @ protected_users s). ordinal g > 0" using G P by auto
  show "keys w = user_ordinals (snapshot_groups s) \<union> ordinal ` set (protected_users s)"
    using G P by (simp add: keys_def [of "walk.make _ _ _ _ _"] keys_def)
  show "source_watermark s - covered_through (head s) = int (length (snapshot_groups s))"
      "covered_through (head s) \<ge> 0"
    using heads by (auto simp: check_head_def Let_def result_simps split: if_splits)
  show "latest_user s \<in> keys w" if "latest_user s > 0"
  proof -
    have "users w \<noteq> []" "Max (keys w) = latest_user s"
      using latest that by (auto simp: check_latest_def keys_def split: if_splits)
    then show ?thesis using Max_in [of "keys w"] by (simp add: keys_def)
  qed
  have "latest_user s \<ge> 0" using heads by (auto simp: check_head_def Let_def result_simps split: if_splits)
  then show "latest_user s > 0" if "source_watermark s > 0"
    using latest that by (auto simp: check_latest_def split: if_splits)
qed

lemma strictly_sorted_remdups: "sorted xs \<Longrightarrow> sorted_wrt (<) (remdups_adj (xs :: int list))"
  by (induction xs rule: remdups_adj.induct) (auto simp: less_le)

lemma selected_users_sorted: "sorted_wrt (<) (selected_users s covered)"
  unfolding selected_users_def by (rule strictly_sorted_remdups) simp

lemma selected_users_set: "set (selected_users s covered) = ordinal ` set (protected_users s) \<union>
    {n \<in> user_ordinals (snapshot_groups s). n \<le> covered \<or> n = latest_user s}"
  by (auto simp: selected_users_def user_ordinals_def)

lemma user_groups_Inr:
  "sorted_wrt (<) (previous # ns) \<Longrightarrow> set ns \<subseteq> keys w \<Longrightarrow> \<exists>gs. user_groups (users w) previous ns = Inr gs"
proof (induction ns arbitrary: previous)
  case (Cons n ns)
  then obtain g where "map_of (users w) n = Some g" by (auto simp: keys_find)
  moreover obtain gs where "user_groups (users w) n ns = Inr gs" using Cons.IH [of n] Cons.prems by auto
  ultimately show ?case using Cons.prems(1) by simp
qed simp

lemma user_frame_decides:
  assumes "validate s = Inr w" and "ns = selected_users s covered"
  shows "if length ns \<le> metadata_group_limit then \<exists>us. user_frame s ns = Inr us
    else user_frame s ns = Inl Bad_metadata"
proof -
  note facts = validate_facts [OF assms(1)]
  have keys: "set ns \<subseteq> keys w" by (auto simp: assms(2) selected_users_set facts(3))
  have "\<forall>n \<in> set ns. n > 0" using facts(2) by (auto simp: assms(2) selected_users_set user_ordinals_def)
  then obtain gs where "user_groups (users w) 0 ns = Inr gs"
    using user_groups_Inr [of 0 ns w] selected_users_sorted [of s covered] keys by (auto simp: assms(2))
  moreover have "latest_user s > 0 \<longrightarrow> latest_user s \<in> set ns"
    using facts(3,5) by (auto simp: assms(2) selected_users_set)
  moreover have "\<forall>g \<in> set (protected_users s). ordinal g \<in> set ns"
    by (simp add: assms(2) selected_users_set)
  ultimately show ?thesis using assms(1) by (simp add: user_frame_def)
qed


section \<open>A conversation of three groups\<close>

definition sample_scope :: context_scope where
  "sample_scope = \<lparr>scope_kind = Session_scope, scope_id = ''s''\<rparr>"

definition sample_group :: "int \<Rightarrow> group_kind \<Rightarrow> conversation_group" where
  "sample_group n k = \<lparr>group_scope = sample_scope, ordinal = n, first_message = n, last_message = n,
     execution_owner = Some ''o'', committed_event = Some n, group_kind = k, message_count = 1,
     payload_bytes = 1, source_binding = ''b'', legacy_unattributed = False\<rparr>"

definition sample_snapshot :: context_snapshot where
  "sample_snapshot = \<lparr>head = \<lparr>head_scope = sample_scope, head_binding = \<lparr>provider_identity = ''p'',
       authority_identity = ''a'', policy_id = ''c'', policy_revision = 1, strategy_id = ''r'',
       strategy_revision = 1\<rparr>, revision = 0, covered_through = 0, checkpoint_id = None\<rparr>,
     source_watermark = 3, latest_user = 3,
     snapshot_groups = [sample_group 1 User_group, sample_group 2 Assistant_group, sample_group 3 User_group],
     protected_users = []\<rparr>"

definition sample_policy :: context_policy where
  "sample_policy = \<lparr>pol_id = ''c'', pol_revision = 1, pol_strategy = ''r'', pol_strategy_revision = 1,
     automatic = True, max_groups = 8, max_messages = 8, max_request_bytes = 1, max_checkpoint_bytes = 1,
     max_maintenance_calls = 1, max_count_requests = 1, maintenance_deadline_ms = 1, retain_recent_groups = 1\<rparr>"

lemma sample_fields [simp]: "ordinal (sample_group n k) = n" "first_message (sample_group n k) = n"
    "last_message (sample_group n k) = n" "group_kind (sample_group n k) = k"
  by (simp_all add: sample_group_def)

lemma sample_check: "check_group (sample_group n k) sample_scope =
    checked (n > 0 \<and> k \<noteq> Tool_turn)"
  by (auto simp: check_group_def sample_group_def optional_text_def text_field_def checked_def metadata_byte_limit_def
    guardE_def)

definition sample_walk :: "nat \<Rightarrow> (int \<times> conversation_group) list \<Rightarrow> walk" where
  "sample_walk n us = \<lparr>walk_ordinal = int n, walk_seq = int n, walk_bytes = 5 + 131 * n, walk_messages = int n, users = us\<rparr>"

lemma sample_step:
  assumes "n < 8" and "k \<noteq> Tool_turn" and "map_of us (int n + 1) = None"
  shows "walk_group sample_scope (sample_walk n us) (sample_group (int n + 1) k) =
    Inr (sample_walk (n + 1) (if k = User_group then us @ [(int n + 1, sample_group (int n + 1) k)] else us))"
proof -
  have account: "account (sample_group i k) (w\<lparr>walk_bytes := 5 + 131 * n, walk_messages := int n\<rparr>) =
      Inr (w\<lparr>walk_bytes := 5 + 131 * (n + 1), walk_messages := int n + 1\<rparr>)" for i w
    using assms(1) by (simp add: account_def sample_group_def sample_scope_def optional_length_def
      metadata_byte_limit_def max_uint64_def)
  show ?thesis
    using assms account [of "int n + 1" "(sample_walk n us)\<lparr>walk_ordinal := int n + 1, walk_seq := int n + 1\<rparr>"]
    by (simp add: walk_group_def sample_check sample_walk_def max_int64_def put_user_def)
qed

lemma sample_valid: "\<exists>w. validate sample_snapshot = Inr w \<and> policy_ok sample_snapshot sample_policy w"
proof -
  have "check_head sample_snapshot = Inr ()"
    by (simp add: check_head_def sample_snapshot_def sample_scope_def check_scope_def check_binding_def text_field_def
      metadata_byte_limit_def metadata_group_limit_def optional_text_def head_bytes_def optional_length_def)
  moreover obtain w where "foldE (walk_group sample_scope) (sample_walk 0 []) (snapshot_groups sample_snapshot) = Inr w"
      "users w = [(1, sample_group 1 User_group), (3, sample_group 3 User_group)]" "walk_messages w = 3"
    using sample_step [of 0 User_group "[]"] sample_step [of 1 Assistant_group "[(1, sample_group 1 User_group)]"]
      sample_step [of 2 User_group "[(1, sample_group 1 User_group)]"]
    by (simp add: sample_snapshot_def) (simp add: sample_walk_def)
  moreover have "\<lparr>walk_ordinal = covered_through (head sample_snapshot), walk_seq = 0,
      walk_bytes = head_bytes (head sample_snapshot), walk_messages = 0, users = []\<rparr> = sample_walk 0 []"
    "head_scope (head sample_snapshot) = sample_scope" "protected_users sample_snapshot = []"
    by (simp_all add: sample_walk_def sample_snapshot_def head_bytes_def optional_length_def sample_scope_def)
  moreover have "check_latest sample_snapshot (w\<lparr>walk_ordinal := 0\<rparr>) = Inr ()"
    using calculation(3) by (simp add: check_latest_def) (simp add: sample_snapshot_def)
  ultimately have "validate sample_snapshot = Inr (w\<lparr>walk_ordinal := 0\<rparr>)" "walk_messages w = 3"
    by (simp_all add: validate_def)
  then show ?thesis
    by (auto simp: policy_ok_def sample_policy_def metadata_group_limit_def) (simp_all add: sample_snapshot_def)
qed


lemma sample_decimal:
  assumes "0 \<le> n" and "n < 100"
  shows "length (signed_decimal n) < 18446744073709551616"
proof -
  have "length (decimal (nat n)) \<le> 2" using assms by (intro decimal_length) simp
  then show ?thesis using assms by (simp add: signed_decimal_def)
qed

lemma sized_simps: "sized []" "sized (f # fs) \<longleftrightarrow> length f < 18446744073709551616 \<and> sized fs"
  "sized (fs @ gs) \<longleftrightarrow> sized fs \<and> sized gs"
  by (auto simp: sized_def)

lemma sample_sized:
  "sized (frame_head sample_snapshot d) \<longleftrightarrow> length d < 2 ^ 64"
  "0 \<le> n \<Longrightarrow> n < 100 \<Longrightarrow> sized (frame_group (sample_group n k))"
  by (simp_all add: sized_def frame_head_def frame_group_def frame_scope_def optional_field_def sample_snapshot_def
    sample_scope_def sample_group_def sample_decimal kind_name_def Let_def split: group_kind.split)

theorem source_frame_determines_witness:
  "\<exists>fs ts. source_frame sample_snapshot 2 = Inr fs \<and> tail_frame sample_snapshot 3 = Inr ts \<and> frame_bytes fs \<noteq> frame_bytes ts"
proof -
  obtain w where w: "validate sample_snapshot = Inr w" using sample_valid by blast
  define fs where "fs = frame_head sample_snapshot ''source'' @ [signed_decimal 2, signed_decimal 2]
    @ frame_group (sample_group 1 User_group) @ frame_group (sample_group 2 Assistant_group)"
  define ts where "ts = frame_head sample_snapshot ''tail'' @ [signed_decimal 3, signed_decimal 1]
    @ frame_group (sample_group 3 User_group)"
  have frames: "source_frame sample_snapshot 2 = Inr fs" "tail_frame sample_snapshot 3 = Inr ts"
    using w by (simp_all add: source_frame_def tail_frame_def fs_def ts_def)
      (simp_all add: sample_snapshot_def sample_group_def)
  have "sized fs" "sized ts"
    by (simp_all add: fs_def ts_def sized_simps sample_sized sample_decimal)
  then show ?thesis using source_frame_determines [OF frames(1) _ frames(1) _ frames(2)] frames by blast
qed

end
