(* ===== verification/Context_Digest.thy ===== *)
theory Context_Digest
  imports XM_Prelude "HOL-Library.Word"
begin

text \<open>
  \<open>context_digest.cpp\<close>: the digest the backend binds contexts, grants and snapshots with, a SHA-256 of its
  own. Words are \<open>uint32_t\<close>, kept at their width; the arrays are lists updated by index. The second half is
  the algorithm as the standard states it, and the proof that the code computes it.
\<close>

unbundle bit_operations_syntax

type_synonym w32 = "32 word"
type_synonym octet = "8 word"
type_synonym eight = "w32 \<times> w32 \<times> w32 \<times> w32 \<times> w32 \<times> w32 \<times> w32 \<times> w32"

section \<open>The code\<close>

text \<open>One row of the table per line of the code.\<close>

definition round_constants :: "w32 list" where
  "round_constants = concat [
     [0x428a2f98, 0x71374491, 0xb5c0fbcf, 0xe9b5dba5, 0x3956c25b, 0x59f111f1, 0x923f82a4, 0xab1c5ed5],
     [0xd807aa98, 0x12835b01, 0x243185be, 0x550c7dc3, 0x72be5d74, 0x80deb1fe, 0x9bdc06a7, 0xc19bf174],
     [0xe49b69c1, 0xefbe4786, 0x0fc19dc6, 0x240ca1cc, 0x2de92c6f, 0x4a7484aa, 0x5cb0a9dc, 0x76f988da],
     [0x983e5152, 0xa831c66d, 0xb00327c8, 0xbf597fc7, 0xc6e00bf3, 0xd5a79147, 0x06ca6351, 0x14292967],
     [0x27b70a85, 0x2e1b2138, 0x4d2c6dfc, 0x53380d13, 0x650a7354, 0x766a0abb, 0x81c2c92e, 0x92722c85],
     [0xa2bfe8a1, 0xa81a664b, 0xc24b8b70, 0xc76c51a3, 0xd192e819, 0xd6990624, 0xf40e3585, 0x106aa070],
     [0x19a4c116, 0x1e376c08, 0x2748774c, 0x34b0bcb5, 0x391c0cb3, 0x4ed8aa4a, 0x5b9cca4f, 0x682e6ff3],
     [0x748f82ee, 0x78a5636f, 0x84c87814, 0x8cc70208, 0x90befffa, 0xa4506ceb, 0xbef9a3f7, 0xc67178f2]]"

definition initial_hash :: eight where
  "initial_hash = (0x6a09e667, 0xbb67ae85, 0x3c6ef372, 0xa54ff53a, 0x510e527f, 0x9b05688c, 0x1f83d9ab, 0x5be0cd19)"

definition rotate_right :: "w32 \<Rightarrow> nat \<Rightarrow> w32" where
  "rotate_right x n = drop_bit n x OR push_bit (32 - n) x"

text \<open>\<open>w\<close>: sixteen words of the block, most significant byte first, and forty-eight computed from them.\<close>

definition block_word :: "octet list \<Rightarrow> nat \<Rightarrow> w32" where
  "block_word p i = push_bit 24 (ucast (p ! (i * 4))) OR push_bit 16 (ucast (p ! (i * 4 + 1))) OR
     push_bit 8 (ucast (p ! (i * 4 + 2))) OR ucast (p ! (i * 4 + 3))"

definition extend_schedule :: "nat \<Rightarrow> w32 list \<Rightarrow> w32 list" where
  "extend_schedule i w =
     (let a = w ! (i - 15); b = w ! (i - 2) in
      w[i := w ! (i - 16) + (rotate_right a 7 XOR rotate_right a 18 XOR drop_bit 3 a) + w ! (i - 7) +
         (rotate_right b 17 XOR rotate_right b 19 XOR drop_bit 10 b)])"

definition schedule :: "octet list \<Rightarrow> w32 list" where
  "schedule p = fold extend_schedule [16..<64] (fold (\<lambda>i w. w[i := block_word p i]) [0..<16] (replicate 64 0))"

fun digest_round :: "w32 list \<Rightarrow> nat \<Rightarrow> eight \<Rightarrow> eight" where
  "digest_round w i (a, b, c, d, e, f, g, z) =
     (let t1 = z + (rotate_right e 6 XOR rotate_right e 11 XOR rotate_right e 25) + ((e AND f) XOR (NOT e AND g)) +
            round_constants ! i + w ! i;
          t2 = (rotate_right a 2 XOR rotate_right a 13 XOR rotate_right a 22) +
            ((a AND b) XOR (a AND c) XOR (b AND c)) in
      (t1 + t2, a, b, c, d + t1, e, f, g))"

fun add_eight :: "eight \<Rightarrow> eight \<Rightarrow> eight" where
  "add_eight (a, b, c, d, e, f, g, z) (a', b', c', d', e', f', g', z') =
     (a + a', b + b', c + c', d + d', e + e', f + f', g + g', z + z')"

definition digest_block :: "eight \<Rightarrow> octet list \<Rightarrow> eight" where
  "digest_block h p = add_eight h (fold (digest_round (schedule p)) [0..<64] h)"

function whole_blocks :: "eight \<Rightarrow> octet list \<Rightarrow> eight \<times> octet list" where
  "whole_blocks h bs = (if length bs < 64 then (h, bs) else whole_blocks (digest_block h (take 64 bs)) (drop 64 bs))"
  by pat_completeness auto
termination by (relation "measure (\<lambda>(_, bs). length bs)") auto

declare whole_blocks.simps [simp del]

definition tail_size :: "nat \<Rightarrow> nat" where
  "tail_size remainder = (if remainder < 56 then 64 else 128)"

definition tail_bytes :: "octet list \<Rightarrow> 64 word \<Rightarrow> octet list" where
  "tail_bytes rest bits =
     (let r = length rest; padded = tail_size r;
          marked = (fold (\<lambda>i t. t[i := rest ! i]) [0..<r] (replicate 128 0))[r := 0x80] in
      fold (\<lambda>i t. t[padded - 1 - i := ucast (drop_bit (i * 8) bits)]) [0..<8] marked)"

fun hex_word :: "w32 \<Rightarrow> bytes" where
  "hex_word v = map (\<lambda>shift. ''0123456789abcdef'' ! unat (drop_bit shift v AND 15)) [28, 24, 20, 16, 12, 8, 4, 0]"

fun hex_eight :: "eight \<Rightarrow> bytes" where
  "hex_eight (a, b, c, d, e, f, g, z) = concat (map hex_word [a, b, c, d, e, f, g, z])"

datatype digest_error = Digest_input_too_long

definition octets :: "bytes \<Rightarrow> octet list" where
  "octets = map (\<lambda>c. of_nat (of_char c))"

definition digest_text :: "bytes \<Rightarrow> bytes" where
  "digest_text bs =
     (let (h, rest) = whole_blocks initial_hash (octets bs);
          tail = tail_bytes rest (of_nat (length bs) * 8);
          h' = digest_block h (take 64 tail);
          h'' = (if tail_size (length rest) = 128 then digest_block h' (drop 64 tail) else h') in
      hex_eight h'')"

definition context_digest :: "bytes \<Rightarrow> digest_error + bytes" where
  "context_digest bs =
     bindE (guardE (length bs \<le> (2 ^ 64 - 1) div 8) Digest_input_too_long) (\<lambda>_. Inr (digest_text bs))"

section \<open>The standard\<close>

text \<open>SHA-256 as FIPS 180-4 gives it: the functions, the message schedule as a recurrence, padding and blocks.\<close>

definition big_sigma0 :: "w32 \<Rightarrow> w32" where "big_sigma0 x = word_rotr 2 x XOR word_rotr 13 x XOR word_rotr 22 x"
definition big_sigma1 :: "w32 \<Rightarrow> w32" where "big_sigma1 x = word_rotr 6 x XOR word_rotr 11 x XOR word_rotr 25 x"
definition small_sigma0 :: "w32 \<Rightarrow> w32" where "small_sigma0 x = word_rotr 7 x XOR word_rotr 18 x XOR drop_bit 3 x"
definition small_sigma1 :: "w32 \<Rightarrow> w32" where "small_sigma1 x = word_rotr 17 x XOR word_rotr 19 x XOR drop_bit 10 x"
definition select_word :: "w32 \<Rightarrow> w32 \<Rightarrow> w32 \<Rightarrow> w32" where "select_word x y z = (x AND y) XOR (NOT x AND z)"
definition majority :: "w32 \<Rightarrow> w32 \<Rightarrow> w32 \<Rightarrow> w32" where "majority x y z = (x AND y) XOR (x AND z) XOR (y AND z)"

function message_word :: "octet list \<Rightarrow> nat \<Rightarrow> w32" where
  "message_word p t = (if t < 16 then block_word p t
     else small_sigma1 (message_word p (t - 2)) + message_word p (t - 7) + small_sigma0 (message_word p (t - 15)) +
       message_word p (t - 16))"
  by pat_completeness auto
termination by (relation "measure snd") auto

declare message_word.simps [simp del]

fun standard_round :: "octet list \<Rightarrow> nat \<Rightarrow> eight \<Rightarrow> eight" where
  "standard_round p t (a, b, c, d, e, f, g, h) =
     (let t1 = h + big_sigma1 e + select_word e f g + round_constants ! t + message_word p t;
          t2 = big_sigma0 a + majority a b c in
      (t1 + t2, a, b, c, d + t1, e, f, g))"

definition standard_block :: "eight \<Rightarrow> octet list \<Rightarrow> eight" where
  "standard_block h p = add_eight h (fold (standard_round p) [0..<64] h)"

definition length_octets :: "nat \<Rightarrow> octet list" where
  "length_octets n = map (\<lambda>i. word_of_nat (n div 256 ^ i)) [7, 6, 5, 4, 3, 2, 1, 0]"

definition standard_suffix :: "nat \<Rightarrow> octet list" where
  "standard_suffix n = 0x80 # replicate ((119 - n mod 64) mod 64) 0 @ length_octets (8 * n)"

definition standard_padding :: "octet list \<Rightarrow> octet list" where
  "standard_padding m = m @ standard_suffix (length m)"

fun blocks_of :: "octet list \<Rightarrow> octet list list" where
  "blocks_of m = (if length m < 64 then [] else take 64 m # blocks_of (drop 64 m))"

declare blocks_of.simps [simp del]

definition sha256 :: "octet list \<Rightarrow> eight" where
  "sha256 m = foldl standard_block initial_hash (blocks_of (standard_padding m))"

section \<open>The code computes it\<close>

lemma rotate_right_rotr:
  assumes "0 < n" "n < 32"
  shows "rotate_right x n = word_rotr n x"
proof (rule bit_word_eqI)
  fix i assume i: "i < LENGTH(32)"
  show "bit (rotate_right x n) i = bit (word_rotr n x) i"
  proof (cases "i + n < 32")
    case True
    then show ?thesis using assms i
      by (auto simp: rotate_right_def bit_or_iff bit_drop_bit_eq bit_push_bit_iff bit_word_rotr_iff ac_simps)
  next
    case False
    then have "(i + n) mod 32 = i + n - 32" using assms i by (simp add: mod_if)
    moreover have "\<not> bit x (n + i)" using False bit_imp_le_length [of x "n + i"] by auto
    ultimately show ?thesis using assms i False
      by (auto simp: rotate_right_def bit_or_iff bit_drop_bit_eq bit_push_bit_iff bit_word_rotr_iff ac_simps)
  qed
qed

lemma copied_words:
  "j \<le> 16 \<Longrightarrow> length (fold (\<lambda>i w. w[i := block_word p i]) [0..<j] (replicate 64 0)) = 64 \<and>
     (\<forall>t < j. fold (\<lambda>i w. w[i := block_word p i]) [0..<j] (replicate 64 0) ! t = block_word p t)"
  by (induction j) (auto simp: nth_list_update less_Suc_eq)

lemma extended_word:
  assumes "16 \<le> n" "n < length w" "\<forall>t < n. w ! t = message_word p t" "t < Suc n"
  shows "extend_schedule n w ! t = message_word p t"
proof (cases "t = n")
  case True
  have "w ! (n - 2) = message_word p (n - 2)" "w ! (n - 7) = message_word p (n - 7)"
    "w ! (n - 15) = message_word p (n - 15)" "w ! (n - 16) = message_word p (n - 16)"
    using assms(1,3) by simp_all
  then show ?thesis using assms(1,2) True
    by (simp add: extend_schedule_def Let_def message_word.simps [of p n] rotate_right_rotr small_sigma0_def
        small_sigma1_def add.commute add.left_commute)
next
  case False
  then show ?thesis using assms by (simp add: extend_schedule_def Let_def)
qed

lemma extended_words:
  assumes "length w = 64" "\<forall>t < 16. w ! t = block_word p t"
  shows "16 \<le> j \<Longrightarrow> j \<le> 64 \<Longrightarrow> length (fold extend_schedule [16..<j] w) = 64 \<and>
    (\<forall>t < j. fold extend_schedule [16..<j] w ! t = message_word p t)"
proof (induction j rule: dec_induct)
  case base
  then show ?case using assms by (simp add: message_word.simps [of p])
next
  case (step n)
  define v where "v = fold extend_schedule [16..<n] w"
  have v: "length v = 64" "\<forall>t < n. v ! t = message_word p t" using step by (simp_all add: v_def)
  have "\<forall>t < Suc n. extend_schedule n v ! t = message_word p t"
    using extended_word [of n v p] v step by simp
  moreover have "length (extend_schedule n v) = 64" using v(1) by (simp add: extend_schedule_def Let_def)
  ultimately show ?case using step by (simp add: v_def)
qed

lemma schedule_words: "t < 64 \<Longrightarrow> schedule p ! t = message_word p t"
  using extended_words [of "fold (\<lambda>i w. w[i := block_word p i]) [0..<16] (replicate 64 0)" p 64] copied_words [of 16 p]
  by (simp add: schedule_def)

lemma digest_round_standard:
  assumes "t < 64"
  shows "digest_round (schedule p) t h = standard_round p t h"
proof -
  obtain a b c d e f g z where "h = (a, b, c, d, e, f, g, z)" by (metis surj_pair)
  then show ?thesis
    using assms by (simp add: schedule_words rotate_right_rotr big_sigma0_def big_sigma1_def select_word_def majority_def Let_def)
qed

lemma digest_block_standard: "digest_block h p = standard_block h p"
proof -
  have "fold (digest_round (schedule p)) [0..<64] h = fold (standard_round p) [0..<64] h"
    by (rule fold_cong) (auto simp: fun_eq_iff digest_round_standard)
  then show ?thesis by (simp add: digest_block_def standard_block_def)
qed

lemma whole_blocks_standard:
  "whole_blocks h m = (foldl standard_block h (blocks_of m), drop (64 * (length m div 64)) m)"
proof (induction h m rule: whole_blocks.induct)
  case (1 h m)
  show ?case
  proof (cases "length m < 64")
    case False
    moreover have "64 * (length m div 64) = 64 + 64 * ((length m - 64) div 64)"
      using False by (simp add: le_div_geq)
    ultimately show ?thesis
      using 1 by (simp add: whole_blocks.simps [of h m] blocks_of.simps [of m] digest_block_standard add.commute)
  qed (simp add: whole_blocks.simps [of h m] blocks_of.simps [of m])
qed

lemma blocks_of_append: "blocks_of (m @ s) = blocks_of m @ blocks_of (drop (64 * (length m div 64)) m @ s)"
proof (induction m rule: blocks_of.induct)
  case (1 m)
  show ?case
  proof (cases "length m < 64")
    case False
    moreover have "64 * (length m div 64) = 64 + 64 * ((length m - 64) div 64)"
      using False by (simp add: le_div_geq)
    ultimately show ?thesis
      using 1 by (simp add: blocks_of.simps [of m] blocks_of.simps [of "m @ s"] add.commute)
  qed (simp add: blocks_of.simps [of m])
qed

lemma copied_bytes:
  "j \<le> length rest \<Longrightarrow> length rest \<le> n \<Longrightarrow>
   fold (\<lambda>i t. t[i := rest ! i]) [0..<j] (replicate n 0) = take j rest @ replicate (n - j) 0"
proof (induction j)
  case (Suc j)
  have "replicate (n - j) 0 = 0 # replicate (n - Suc j) (0 :: 'a)"
    using Suc.prems by (metis Suc_diff_Suc Suc_le_lessD order_less_le_trans replicate_Suc)
  then show ?case using Suc by (simp add: list_update_append take_Suc_conv_app_nth)
qed simp

lemma tail_bytes_prefix:
  assumes "length rest < 64"
  shows "take (tail_size (length rest)) (tail_bytes rest bits) =
    rest @ 0x80 # replicate (tail_size (length rest) - 9 - length rest) 0 @
      map (\<lambda>i. ucast (drop_bit (i * 8) bits)) [7, 6, 5, 4, 3, 2, 1, 0]"
proof -
  define r where "r = length rest"
  define k where "k = tail_size r - 9 - r"
  have sizes: "tail_size r = r + 1 + k + 8" "tail_size r \<le> 128" using assms by (auto simp: tail_size_def k_def r_def)
  define front where "front = rest @ 0x80 # replicate k (0 :: octet)"
  define z where "z = replicate (128 - tail_size r) (0 :: octet)"
  have split: "replicate (127 - r) (0 :: octet) = replicate k 0 @ [0, 0, 0, 0, 0, 0, 0, 0] @ z"
    using sizes by (simp add: z_def flip: replicate_Suc replicate_add)
  have copied: "fold (\<lambda>i t. t[i := rest ! i]) [0..<r] (replicate 128 0) = rest @ replicate (128 - r) 0"
    using copied_bytes [of r rest 128] assms by (simp add: r_def)
  have "replicate (128 - r) (0 :: octet) = 0 # replicate (127 - r) 0"
    using assms by (simp add: r_def flip: replicate_Suc)
  then have zeros: "replicate (128 - r) (0 :: octet) = 0 # replicate k 0 @ [0, 0, 0, 0, 0, 0, 0, 0] @ z"
    using split by simp
  have marked: "(fold (\<lambda>i t. t[i := rest ! i]) [0..<r] (replicate 128 0))[r := 0x80] =
      front @ [0, 0, 0, 0, 0, 0, 0, 0] @ z"
    unfolding copied zeros by (simp add: front_def list_update_append r_def [symmetric])
  have put: "(front @ xs @ z)[tail_size r - Suc i := v] = front @ xs[7 - i := v] @ z"
    if "length xs = 8" "i < 8" for xs i and v :: octet
  proof -
    have "tail_size r - Suc i = length front + (7 - i)" using that sizes by (simp add: front_def r_def)
    then show ?thesis using that by (auto simp: list_update_append)
  qed
  have moved: "fold (\<lambda>i t. t[tail_size r - 1 - i := f i]) js (front @ xs @ z) =
      front @ fold (\<lambda>i x. x[7 - i := f i]) js xs @ z" if "length xs = 8" "set js \<subseteq> {..<8}" for js xs and f :: "nat \<Rightarrow> octet"
    using that by (induction js arbitrary: xs) (simp_all add: put)
  have "tail_bytes rest bits = fold (\<lambda>i t. t[tail_size r - 1 - i := ucast (drop_bit (i * 8) bits)]) [0, 1, 2, 3, 4, 5, 6, 7]
      (front @ [0, 0, 0, 0, 0, 0, 0, 0] @ z)"
    using marked by (simp add: tail_bytes_def Let_def r_def upt_conv_Cons numeral_eq_Suc)
  also have "\<dots> = front @ map (\<lambda>i. ucast (drop_bit (i * 8) bits)) [7, 6, 5, 4, 3, 2, 1, 0] @ z"
    by (subst moved) simp_all
  finally have tail: "tail_bytes rest bits = (front @ map (\<lambda>i. ucast (drop_bit (i * 8) bits)) [7, 6, 5, 4, 3, 2, 1, 0]) @ z"
    by (simp only: append_assoc)
  have "take (length p) (p @ z) = p" for p by simp
  moreover have "length (front @ map (\<lambda>i. ucast (drop_bit (i * 8) bits) :: octet) [7, 6, 5, 4, 3, 2, 1, 0]) = tail_size r"
    using sizes by (simp add: front_def r_def)
  ultimately have "take (tail_size r) (tail_bytes rest bits) = front @ map (\<lambda>i. ucast (drop_bit (i * 8) bits)) [7, 6, 5, 4, 3, 2, 1, 0]"
    unfolding tail by metis
  then show ?thesis unfolding front_def k_def r_def by (simp only: append_assoc append_Cons)
qed

lemma length_octet:
  assumes "n < 2 ^ 64"
  shows "ucast (drop_bit (i * 8) (of_nat n :: 64 word)) = (word_of_nat (n div 256 ^ i) :: octet)"
proof -
  have n: "unat (of_nat n :: 64 word) = n" using assms by (simp add: unat_of_nat take_bit_nat_eq_self)
  have "(2 :: nat) ^ (i * 8) = 256 ^ i" by (simp add: mult.commute [of i] power_mult)
  moreover have "unat (drop_bit (i * 8) (of_nat n :: 64 word)) = drop_bit (i * 8) n"
    by (simp only: unat_drop_bit_eq n)
  ultimately have "unat (drop_bit (i * 8) (of_nat n :: 64 word)) = n div 256 ^ i"
    by (simp only: drop_bit_eq_div)
  then show ?thesis by (metis of_nat_unat)
qed

lemma zero_count: "r < 64 \<Longrightarrow> tail_size r - 9 - r = (119 - r) mod 64"
  by (cases "r < 56") (simp_all add: tail_size_def mod_if)

lemma padded_tail:
  assumes "length rest = n mod 64" "8 * n < 2 ^ 64"
  shows "take (tail_size (length rest)) (tail_bytes rest (of_nat n * 8)) = rest @ standard_suffix n"
proof -
  have short: "length rest < 64" using assms(1) by simp
  have bits: "of_nat n * 8 = (of_nat (8 * n) :: 64 word)" by simp
  show ?thesis
    unfolding bits tail_bytes_prefix [OF short] zero_count [OF short]
    by (simp only: assms(1) standard_suffix_def length_octets_def length_octet [OF assms(2)])
qed

lemma tail_bytes_length: "length (tail_bytes rest bits) = 128"
proof -
  have "length (fold (\<lambda>i t. t[f i := g i]) is t) = length t" for f g :: "nat \<Rightarrow> _" and "is" and t :: "octet list"
    by (induction "is" arbitrary: t) auto
  then show ?thesis by (simp add: tail_bytes_def Let_def)
qed

lemma digest_text_standard:
  assumes "8 * length bs < 2 ^ 64"
  shows "digest_text bs = hex_eight (sha256 (octets bs))"
proof -
  let ?m = "octets bs"
  define n where "n = length bs"
  define rest where "rest = drop (64 * (n div 64)) ?m"
  define tail where "tail = tail_bytes rest (of_nat n * 8)"
  define h where "h = foldl standard_block initial_hash (blocks_of ?m)"
  have size128: "length tail = 128" by (simp add: tail_def tail_bytes_length)
  have size: "length ?m = n" by (simp add: octets_def n_def)
  have rest: "length rest = n mod 64" using size by (simp add: rest_def minus_mult_div_eq_mod)
  have suffix: "take (tail_size (length rest)) tail = rest @ standard_suffix n"
    unfolding tail_def using padded_tail [OF rest] assms n_def by simp
  have "sha256 ?m = foldl standard_block h (blocks_of (rest @ standard_suffix n))"
    by (simp add: sha256_def standard_padding_def blocks_of_append [of ?m] size rest_def h_def)
  also have "\<dots> = (if tail_size (length rest) = 128 then standard_block (standard_block h (take 64 tail)) (drop 64 tail)
      else standard_block h (take 64 tail))"
  proof (cases "tail_size (length rest) = 128")
    case True
    then have "rest @ standard_suffix n = tail" using suffix size128 by simp
    then show ?thesis using True size128
      by (simp add: blocks_of.simps [of tail] blocks_of.simps [of "drop 64 tail"] blocks_of.simps [of "[]"])
  next
    case False
    then have "tail_size (length rest) = 64" by (simp add: tail_size_def split: if_splits)
    then show ?thesis using suffix size128
      by (simp add: blocks_of.simps [of "take 64 tail"] blocks_of.simps [of "[]"] flip: suffix)
  qed
  finally show ?thesis
    by (simp add: digest_text_def whole_blocks_standard digest_block_standard size Let_def h_def tail_def rest_def
        n_def [symmetric])
qed

lemma hex_word_form: "length (hex_word v) = 8 \<and> set (hex_word v) \<subseteq> set ''0123456789abcdef''"
proof -
  have "''0123456789abcdef'' ! unat (x AND 15) \<in> set ''0123456789abcdef''" for x :: w32
  proof (rule nth_mem)
    have "unat (x AND 15) \<le> unat (15 :: w32)" using word_and_le1 [of x 15] by (simp only: word_le_nat_alt)
    then show "unat (x AND 15) < length ''0123456789abcdef''" by simp
  qed
  then show ?thesis unfolding hex_word.simps by (simp add: image_subset_iff del: set_simps list.map)
qed

lemma hex_eight_form: "length (hex_eight h) = 64 \<and> set (hex_eight h) \<subseteq> set ''0123456789abcdef''"
proof -
  obtain a b c d e f g z where "h = (a, b, c, d, e, f, g, z)" by (metis surj_pair)
  then show ?thesis using hex_word_form by (simp del: hex_word.simps set_simps)
qed

lemma digest_text_hex: "\<exists>h. digest_text bs = hex_eight h"
  unfolding digest_text_def Let_def split_def by blast

lemma context_digest_form:
  assumes "context_digest bs = Inr d"
  shows "length d = 64 \<and> set d \<subseteq> set ''0123456789abcdef''"
proof -
  have "d = digest_text bs" using assms by (simp add: context_digest_def split: if_splits)
  then show ?thesis using digest_text_hex [of bs] hex_eight_form by metis
qed

text \<open>
  C16. The digest of a text is its SHA-256 in hexadecimal, for every text whose length in bits is a 64-bit number;
  a longer one is refused.
\<close>

theorem context_digest_is_sha256:
  "context_digest bs = (if 8 * length bs < 2 ^ 64 then Inr (hex_eight (sha256 (octets bs))) else Inl Digest_input_too_long)"
  by (auto simp: context_digest_def digest_text_standard)

section \<open>A known answer\<close>

definition abc_block :: "octet list" where
  "abc_block = octets ''abc'' @ [0x80] @ replicate 52 0 @ [0, 0, 0, 0, 0, 0, 0, 0x18]"

definition abc_schedule :: "w32 list" where
  "abc_schedule = [
     0x61626380, 0x0, 0x0, 0x0, 0x0, 0x0, 0x0, 0x0,
     0x0, 0x0, 0x0, 0x0, 0x0, 0x0, 0x0, 0x18,
     0x61626380, 0xf0000, 0x7da86405, 0x600003c6, 0x3e9d7b78, 0x183fc00, 0x12dcbfdb, 0xe2e2c38e,
     0xc8215c1a, 0xb73679a2, 0xe5bc3909, 0x32663c5b, 0x9d209d67, 0xec8726cb, 0x702138a4, 0xd3b7973b,
     0x93f5997f, 0x3b68ba73, 0xaff4ffc1, 0xf10a5c62, 0xa8b3996, 0x72af830a, 0x9409e33e, 0x24641522,
     0x9f47bf94, 0xf0a64f5a, 0x3e246a79, 0x27333ba3, 0xc4763f2, 0x840abf27, 0x7a290d5d, 0x65c43da,
     0xfb3e89cb, 0xcc7617db, 0xb9e66c34, 0xa9993667, 0x84badedd, 0xc21462bc, 0x1487472c, 0xb20f7a99,
     0xef57b9cd, 0xebe6b238, 0x9fe3095e, 0x78bc8d4b, 0xa43fcf15, 0x668b2ff8, 0xeeaba2cc, 0x12b1edeb]"

lemma abc_tail: "take 64 (tail_bytes (octets ''abc'') 24) = abc_block"
  by code_simp

lemma abc_words: "schedule abc_block = abc_schedule"
  by code_simp

lemma abc_rounds_half: "fold (digest_round abc_schedule) [0..<32] initial_hash = (0x73b33bf5, 0xea992a22, 0xa0060b30, 0x363482c9, 0xba591112, 0x109ab3a, 0xade79437, 0x6112a3b7)"
  by code_simp

lemma abc_rounds: "hex_eight (add_eight initial_hash (fold (digest_round abc_schedule) [32..<64] (0x73b33bf5, 0xea992a22, 0xa0060b30, 0x363482c9, 0xba591112, 0x109ab3a, 0xade79437, 0x6112a3b7))) =
    ''ba7816bf8f01cfea414140de5dae2223b00361a396177a9cb410ff61f20015ad''"
  by code_simp

text \<open>The standard's example: the digest of \<open>abc\<close>.\<close>

lemma digest_of_abc: "context_digest ''abc'' = Inr ''ba7816bf8f01cfea414140de5dae2223b00361a396177a9cb410ff61f20015ad''"
proof -
  have "[0..<64] = [0..<32] @ [32..<64::nat]" by (simp add: upt_add_eq_append [of 0 32 32, simplified])
  then have "hex_eight (digest_block initial_hash abc_block) = ''ba7816bf8f01cfea414140de5dae2223b00361a396177a9cb410ff61f20015ad''"
    using abc_rounds by (simp only: digest_block_def abc_words fold_append comp_apply abc_rounds_half)
  moreover have "whole_blocks initial_hash (octets ''abc'') = (initial_hash, octets ''abc'')"
    by (simp add: whole_blocks.simps octets_def)
  moreover have "length (octets ''abc'') = 3" by (simp add: octets_def)
  ultimately show ?thesis
    using abc_tail by (simp add: context_digest_def digest_text_def tail_size_def)
qed

end
