(* ===== verification/Model_Request.thy ===== *)
theory Model_Request
  imports Chat_Stream "HOL-Library.Multiset"
begin

text \<open>
  The conversation handed to a provider (\<open>model_provider.hpp\<close>) and its serialisation for the Chat
  Completions wire (\<open>model_request.cpp\<close>). The serialiser checks the protocol of tool calls as it goes:
  every call is answered once, before anything else is said.
\<close>

section \<open>The conversation\<close>

datatype support = Unknown_support | Unsupported | Supported

datatype provider_wire = Chat_completions | Responses_wire | Anthropic_messages | Gemini_generate_content

datatype reasoning_effort = No_effort | Minimal | Low | Medium | High | Xhigh | Max_effort

datatype message_role = System_role | Developer_role | User_message | Assistant_role | Tool_role

record model_message =
  msg_role :: message_role
  msg_content :: bytes
  msg_calls :: "tool_call list"
  msg_answers :: bytes
  msg_refusal :: bytes
  msg_items :: bytes

record tool_definition =
  tool_name :: bytes
  tool_description :: bytes
  tool_schema :: bytes

text \<open>Of the canonical window only its presence matters here.\<close>

record 'w model_request =
  request_messages :: "model_message list"
  request_tools :: "tool_definition list"
  include_usage :: bool
  max_output_tokens :: "int option"
  canonical_window :: "'w option"

record provider_config =
  endpoint :: bytes
  model_name :: bytes
  tools_support :: support
  usage_support :: support
  limit_support :: support
  wire :: provider_wire
  reasoning_support :: support
  configured_effort :: "reasoning_effort option"
  dialect :: chat_dialect

text \<open>The exceptions: \<open>invalid_argument\<close> and the two classes derived from it, and the library's own.\<close>

datatype request_error = Invalid_request bytes | Capacity_exceeded | Incompatible_history bytes | Request_json_failure

abbreviation insists :: "bool \<Rightarrow> bytes \<Rightarrow> request_error + unit" where
  "insists b message \<equiv> guardE b (Invalid_request message)"

section \<open>Checked parts\<close>

definition request_limit :: nat where "request_limit = 8 * 1024 * 1024"

definition require_capability :: "support \<Rightarrow> bytes \<Rightarrow> request_error + unit" where
  "require_capability c feature = insists (c = Supported) (''Model capability is unknown or unsupported: '' @ feature)"

definition function_char :: "char \<Rightarrow> bool" where
  "function_char c \<longleftrightarrow> (97 \<le> byte c \<and> byte c \<le> 122) \<or> (65 \<le> byte c \<and> byte c \<le> 90) \<or>
     (48 \<le> byte c \<and> byte c \<le> 57) \<or> c = CHR ''_'' \<or> c = CHR ''-''"

definition function_name :: "bytes \<Rightarrow> request_error + unit" where
  "function_name s = bindE (insists (s \<noteq> [] \<and> length s \<le> 64) ''Invalid function name'') (\<lambda>_.
     insists (list_all function_char s) ''Invalid function name'')"

fun role_name :: "message_role \<Rightarrow> bytes" where
  "role_name System_role = ''system''" | "role_name Developer_role = ''developer''"
| "role_name User_message = ''user''" | "role_name Assistant_role = ''assistant''" | "role_name Tool_role = ''tool''"

fun effort_name :: "reasoning_effort \<Rightarrow> bytes" where
  "effort_name No_effort = ''none''" | "effort_name Minimal = ''minimal''" | "effort_name Low = ''low''"
| "effort_name Medium = ''medium''" | "effort_name High = ''high''" | "effort_name Xhigh = ''xhigh''"
| "effort_name Max_effort = ''max''"

definition object_json :: "json_lib \<Rightarrow> bytes \<Rightarrow> bytes \<Rightarrow> request_error + json" where
  "object_json lib source message =
     (if length source > 1024 * 1024 then Inl (Invalid_request message)
      else case json_text lib source of
        Some v \<Rightarrow> if is_object v then Inr v else Inl (Invalid_request message)
      | None \<Rightarrow> Inl (Invalid_request message))"

section \<open>The serialiser\<close>

text \<open>\<open>seen_calls\<close> and \<open>waiting\<close> are sets in the code; here lists, whose elements are distinct.\<close>

record request_state =
  input_bytes :: nat
  seen_calls :: "bytes list"
  waiting :: "bytes list"

fun account_for :: "nat list \<Rightarrow> request_state \<Rightarrow> request_error + request_state" where
  "account_for [] s = Inr s"
| "account_for (n # ns) s = (if n > request_limit - input_bytes s then Inl Capacity_exceeded
     else account_for ns (s\<lparr>input_bytes := input_bytes s + n\<rparr>))"

definition tool_json :: "tool_definition \<Rightarrow> json \<Rightarrow> json" where
  "tool_json t schema = JObj [(''function'', JObj [(''description'', JStr (tool_description t)),
     (''name'', JStr (tool_name t)), (''parameters'', schema)]), (''type'', JStr ''function'')]"

fun request_tools_loop :: "json_lib \<Rightarrow> bytes list \<Rightarrow> tool_definition list \<Rightarrow> request_state \<Rightarrow>
    request_error + json list \<times> request_state" where
  "request_tools_loop lib names [] s = Inr ([], s)"
| "request_tools_loop lib names (t # ts) s =
     bindE (account_for [length (tool_name t), length (tool_description t), length (tool_schema t)] s) (\<lambda>s.
     bindE (function_name (tool_name t)) (\<lambda>_.
     bindE (insists (tool_name t \<notin> set names \<and> length (tool_description t) \<le> 65536)
       ''Invalid or duplicate tool definition'') (\<lambda>_.
     bindE (object_json lib (tool_schema t) ''Invalid tool schema JSON'') (\<lambda>schema.
     bindE (request_tools_loop lib (tool_name t # names) ts s) (\<lambda>(rest, s).
       Inr (tool_json t schema # rest, s))))))"

definition call_json :: "tool_call \<Rightarrow> json" where
  "call_json c = JObj [(''function'', JObj [(''arguments'', JStr (arguments_json c)), (''name'', JStr (call_name c))]),
     (''id'', JStr (call_id c)), (''type'', JStr ''function'')]"

definition message_json :: "model_message \<Rightarrow> json" where
  "message_json m =
     (let base = [(''content'', JStr (msg_content m)), (''role'', JStr (role_name (msg_role m)))];
          said = (if msg_refusal m = [] then base else put_member ''refusal'' (JStr (msg_refusal m)) base) in
      JObj (if msg_role m = Tool_role then put_member ''tool_call_id'' (JStr (msg_answers m)) said
            else if msg_calls m = [] then said
            else put_member ''tool_calls'' (JArr (map call_json (msg_calls m))) said))"

fun request_calls :: "json_lib \<Rightarrow> tool_call list \<Rightarrow> request_state \<Rightarrow> request_error + request_state" where
  "request_calls lib [] s = Inr s"
| "request_calls lib (c # cs) s =
     bindE (account_for [length (call_id c), length (call_name c), length (arguments_json c)] s) (\<lambda>s.
     bindE (function_name (call_name c)) (\<lambda>_.
     bindE (insists (call_id c \<noteq> [] \<and> length (call_id c) \<le> 256 \<and> CHR 0x00 \<notin> set (call_id c) \<and>
         call_id c \<notin> set (seen_calls s)) ''Invalid or duplicate tool call identity'') (\<lambda>_.
     bindE (object_json lib (arguments_json c) ''Invalid tool argument JSON'') (\<lambda>_.
       request_calls lib cs (s\<lparr>seen_calls := call_id c # seen_calls s, waiting := waiting s @ [call_id c]\<rparr>)))))"

definition tool_answer :: "provider_config \<Rightarrow> model_message \<Rightarrow> request_state \<Rightarrow> request_error + request_state" where
  "tool_answer cfg m s =
     bindE (require_capability (tools_support cfg) ''function calls'') (\<lambda>_.
     bindE (insists (msg_calls m = [] \<and> msg_answers m \<noteq> [] \<and> msg_answers m \<in> set (waiting s))
       ''Tool response does not match a pending call'') (\<lambda>_.
       Inr (s\<lparr>waiting := remove1 (msg_answers m) (waiting s)\<rparr>)))"

definition other_message :: "json_lib \<Rightarrow> provider_config \<Rightarrow> model_message \<Rightarrow> request_state \<Rightarrow>
    request_error + request_state" where
  "other_message lib cfg m s =
     bindE (insists (waiting s = []) ''Tool results must precede the next message'') (\<lambda>_.
     bindE (insists (msg_answers m = []) ''Only tool responses carry tool_call_id'') (\<lambda>_.
     if msg_calls m = [] then Inr s
     else bindE (require_capability (tools_support cfg) ''function calls'') (\<lambda>_.
       bindE (insists (msg_role m = Assistant_role) ''Only assistant messages carry tool calls'') (\<lambda>_.
         request_calls lib (msg_calls m) s))))"

definition request_message :: "json_lib \<Rightarrow> provider_config \<Rightarrow> model_message \<Rightarrow> request_state \<Rightarrow>
    request_error + request_state" where
  "request_message lib cfg m s =
     bindE (guardE (msg_items m = ''[]'') (Incompatible_history ''Responses continuation requires the Responses wire'')) (\<lambda>_.
     bindE (account_for [length (msg_content m), length (msg_answers m), length (msg_refusal m)] s) (\<lambda>s.
     bindE (guardE (length (msg_content m) \<le> 4 * 1024 * 1024 \<and> length (msg_calls m) \<le> 64) Capacity_exceeded) (\<lambda>_.
     bindE (insists (msg_refusal m = [] \<or> msg_role m = Assistant_role) ''Only assistant messages carry refusals'') (\<lambda>_.
       if msg_role m = Tool_role then tool_answer cfg m s else other_message lib cfg m s))))"

fun request_loop :: "json_lib \<Rightarrow> provider_config \<Rightarrow> model_message list \<Rightarrow> request_state \<Rightarrow>
    request_error + request_state" where
  "request_loop lib cfg [] s = Inr s"
| "request_loop lib cfg (m # ms) s =
     bindE (request_message lib cfg m s) (\<lambda>s. request_loop lib cfg ms s)"

section \<open>The body\<close>

type_synonym fields = "(bytes \<times> json) list"

definition first_fields :: "provider_config \<Rightarrow> fields" where
  "first_fields cfg = [(''messages'', JArr []), (''model'', JStr (model_name cfg)), (''n'', JInt 1), (''stream'', JBool True)]"

definition effort_field :: "provider_config \<Rightarrow> fields \<Rightarrow> request_error + fields" where
  "effort_field cfg fs = (case configured_effort cfg of None \<Rightarrow> Inr fs
     | Some e \<Rightarrow> bindE (require_capability (reasoning_support cfg) ''reasoning effort'') (\<lambda>_.
         Inr (put_member ''reasoning_effort'' (JStr (effort_name e)) fs)))"

definition tools_field :: "json_lib \<Rightarrow> provider_config \<Rightarrow> 'w model_request \<Rightarrow> fields \<Rightarrow> request_state \<Rightarrow>
    request_error + fields \<times> request_state" where
  "tools_field lib cfg r fs s =
     (if request_tools r = [] then Inr (fs, s)
      else bindE (require_capability (tools_support cfg) ''function calls'') (\<lambda>_.
        bindE (request_tools_loop lib [] (request_tools r) s) (\<lambda>(ts, s). Inr (put_member ''tools'' (JArr ts) fs, s))))"

definition option_fields :: "provider_config \<Rightarrow> 'w model_request \<Rightarrow> fields \<Rightarrow> request_error + fields" where
  "option_fields cfg r fs =
     bindE (if include_usage r
       then bindE (require_capability (usage_support cfg) ''streaming usage'') (\<lambda>_.
         Inr (put_member ''stream_options'' (JObj [(''include_usage'', JBool True)]) fs))
       else Inr fs) (\<lambda>fs.
     case max_output_tokens r of None \<Rightarrow> Inr fs
     | Some n \<Rightarrow> bindE (require_capability (limit_support cfg) ''output token limit'') (\<lambda>_.
         bindE (insists (n > 0) ''Invalid output token limit'') (\<lambda>_.
         Inr (put_member ''max_completion_tokens'' (JInt n) fs))))"

definition encode_fields :: "json_lib \<Rightarrow> fields \<Rightarrow> request_error + bytes" where
  "encode_fields lib fs = (case dump lib (JObj fs) of None \<Rightarrow> Inl (Invalid_request ''Invalid UTF-8 model request'')
     | Some b \<Rightarrow> if length b > request_limit then Inl Capacity_exceeded else Inr b)"

definition request_checks :: "nat \<Rightarrow> provider_config \<Rightarrow> 'w model_request \<Rightarrow> request_error + unit" where
  "request_checks limit cfg r =
     bindE (guardE (canonical_window r = None) (Incompatible_history ''Canonical context requires the Responses wire'')) (\<lambda>_.
     bindE (insists (model_name cfg \<noteq> [] \<and> length (model_name cfg) \<le> 512 \<and> CHR 0x00 \<notin> set (model_name cfg) \<and>
       endpoint cfg \<noteq> []) ''Missing or invalid model configuration'') (\<lambda>_.
     bindE (insists (request_messages r \<noteq> []) ''Model request requires original messages'') (\<lambda>_.
     guardE (length (request_messages r) \<le> limit \<and> length (request_tools r) \<le> 64) Capacity_exceeded)))"

definition serialize_request_fields :: "json_lib \<Rightarrow> nat \<Rightarrow> provider_config \<Rightarrow> 'w model_request \<Rightarrow> request_error + bytes" where
  "serialize_request_fields lib limit cfg r =
     bindE (request_checks limit cfg r) (\<lambda>_.
     bindE (effort_field cfg (first_fields cfg)) (\<lambda>fs.
     bindE (tools_field lib cfg r fs \<lparr>input_bytes = length (model_name cfg), seen_calls = [], waiting = []\<rparr>) (\<lambda>(fs, s).
     bindE (request_loop lib cfg (request_messages r) s) (\<lambda>s.
     bindE (insists (waiting s = []) ''Model continuation requires all pending tool results'') (\<lambda>_.
     bindE (option_fields cfg r (put_member ''messages'' (JArr (map message_json (request_messages r))) fs)) (\<lambda>fs.
       encode_fields lib fs))))))"

definition serialize_chat_request :: "json_lib \<Rightarrow> provider_config \<Rightarrow> 'w model_request \<Rightarrow> request_error + bytes" where
  "serialize_chat_request lib cfg r = serialize_request_fields lib 4096 cfg r"

definition serialize_responses_request_fields :: "json_lib \<Rightarrow> provider_config \<Rightarrow> 'w model_request \<Rightarrow> request_error + bytes" where
  "serialize_responses_request_fields lib cfg r = serialize_request_fields lib 8192 cfg r"

definition mistral_limit :: "fields \<Rightarrow> fields" where
  "mistral_limit fs = (case map_of fs ''max_completion_tokens'' of None \<Rightarrow> fs
     | Some n \<Rightarrow> filter (\<lambda>(k, _). k \<noteq> ''max_completion_tokens'') (put_member ''max_tokens'' n fs))"

definition serialize_mistral_request :: "json_lib \<Rightarrow> provider_config \<Rightarrow> 'w model_request \<Rightarrow> request_error + bytes" where
  "serialize_mistral_request lib cfg r =
     bindE (insists (wire cfg = Chat_completions \<and> dialect cfg = Mistral)
       ''Mistral requires its explicit native chat policy'') (\<lambda>_.
     bindE (serialize_chat_request lib cfg r) (\<lambda>b.
     case json_text lib b of None \<Rightarrow> Inl Request_json_failure
     | Some v \<Rightarrow>
         (case dump lib (case v of JObj fs \<Rightarrow> JObj (mistral_limit fs) | _ \<Rightarrow> v) of
            None \<Rightarrow> Inl (Invalid_request ''Invalid UTF-8 Mistral request'') | Some c \<Rightarrow> Inr c)))"

section \<open>Calls are answered before anything else is said\<close>

definition called :: "model_message \<Rightarrow> bytes list" where
  "called m = map call_id (if msg_role m = Tool_role then [] else msg_calls m)"

inductive well_answered :: "model_message list \<Rightarrow> bool" where
  Said_nothing: "well_answered []"
| Said: "msg_role m \<noteq> Tool_role \<Longrightarrow> called m \<noteq> [] \<longrightarrow> msg_role m = Assistant_role \<Longrightarrow>
    list_all (\<lambda>a. msg_role a = Tool_role) answers \<Longrightarrow> mset (map msg_answers answers) = mset (called m) \<Longrightarrow>
    well_answered rest \<Longrightarrow> well_answered (m # answers @ rest)"

inductive_simps well_answered_simps: "well_answered []" "well_answered (m # ms)"

lemma account_for_keeps:
  "account_for ns s = Inr s' \<Longrightarrow> seen_calls s' = seen_calls s \<and> waiting s' = waiting s"
  by (induction ns arbitrary: s) (auto split: if_splits)

lemma request_calls_effect:
  "request_calls lib cs s = Inr s' \<Longrightarrow> seen_calls s' = rev (map call_id cs) @ seen_calls s \<and>
     waiting s' = waiting s @ map call_id cs \<and> (distinct (seen_calls s) \<longrightarrow> distinct (seen_calls s'))"
proof (induction cs arbitrary: s)
  case (Cons c cs)
  then obtain t where t: "seen_calls t = seen_calls s" "waiting t = waiting s" "call_id c \<notin> set (seen_calls t)"
    and rest: "request_calls lib cs (t\<lparr>seen_calls := call_id c # seen_calls t, waiting := waiting t @ [call_id c]\<rparr>) = Inr s'"
    by (auto simp: result_simps simp del: account_for.simps dest: account_for_keeps split: if_splits)
  show ?case using Cons.IH [OF rest] t by (auto simp: disjoint_iff)
qed simp

lemma tool_answer_effect:
  "tool_answer cfg m s = Inr s' \<Longrightarrow> msg_answers m \<in> set (waiting s) \<and> waiting s' = remove1 (msg_answers m) (waiting s) \<and>
     seen_calls s' = seen_calls s"
  by (auto simp: tool_answer_def require_capability_def split: if_splits)

lemma other_message_effect:
  assumes "other_message lib cfg m s = Inr s'"
  shows "waiting s = []" "waiting s' = map call_id (msg_calls m)"
    "seen_calls s' = rev (map call_id (msg_calls m)) @ seen_calls s"
    "distinct (seen_calls s) \<longrightarrow> distinct (seen_calls s')" "msg_calls m \<noteq> [] \<longrightarrow> msg_role m = Assistant_role"
proof -
  have facts: "waiting s = []" "request_calls lib (msg_calls m) s = Inr s'" "msg_calls m \<noteq> [] \<longrightarrow> msg_role m = Assistant_role"
    using assms by (auto simp: other_message_def require_capability_def split: if_splits)
  show "waiting s = []" "waiting s' = map call_id (msg_calls m)"
    "seen_calls s' = rev (map call_id (msg_calls m)) @ seen_calls s"
    "distinct (seen_calls s) \<longrightarrow> distinct (seen_calls s')" "msg_calls m \<noteq> [] \<longrightarrow> msg_role m = Assistant_role"
    using facts(1,3) request_calls_effect [OF facts(2)] unfolding facts(1) append_Nil by blast+
qed

lemma request_message_cases:
  assumes "request_message lib cfg m s = Inr s'"
  obtains (answer) t where "msg_role m = Tool_role" "tool_answer cfg m t = Inr s'" "waiting t = waiting s" "seen_calls t = seen_calls s"
  | (other) t where "msg_role m \<noteq> Tool_role" "other_message lib cfg m t = Inr s'" "waiting t = waiting s" "seen_calls t = seen_calls s"
  using assms by (auto simp: request_message_def result_simps dest!: account_for_keeps split: if_splits)

lemma request_loop_answered:
  "request_loop lib cfg ms s = Inr s' \<Longrightarrow> waiting s' = [] \<Longrightarrow>
   \<exists>answers rest. ms = answers @ rest \<and> list_all (\<lambda>a. msg_role a = Tool_role) answers \<and>
     mset (map msg_answers answers) = mset (waiting s) \<and> well_answered rest"
proof (induction ms arbitrary: s)
  case Nil
  then show ?case by (auto intro: Said_nothing)
next
  case (Cons m ms)
  obtain t where step: "request_message lib cfg m s = Inr t" and tail: "request_loop lib cfg ms t = Inr s'"
    using Cons.prems(1) by (auto simp: result_simps)
  obtain answers rest where IH: "ms = answers @ rest" "list_all (\<lambda>a. msg_role a = Tool_role) answers"
     "mset (map msg_answers answers) = mset (waiting t)" "well_answered rest"
    using Cons.IH [OF tail Cons.prems(2)] by blast
  from step show ?case
  proof (cases rule: request_message_cases)
    case (answer u)
    then have "mset (map msg_answers (m # answers)) = mset (waiting s)"
      using IH(3) tool_answer_effect [OF answer(2)] by simp
    then show ?thesis
      using IH answer(1) by (intro exI [of _ "m # answers"] exI [of _ rest]) simp
  next
    case (other u)
    note effect = other_message_effect [OF other(2)]
    have "well_answered (m # answers @ rest)"
      using IH other(1) effect(2,5) by (intro Said) (simp_all add: called_def)
    then show ?thesis
      using IH(1) effect(1) other(3) by (intro exI [of _ "[]"] exI [of _ "m # ms"]) simp
  qed
qed

lemma request_loop_ids:
  "request_loop lib cfg ms s = Inr s' \<Longrightarrow> distinct (seen_calls s) \<Longrightarrow>
   seen_calls s' = rev (concat (map called ms)) @ seen_calls s \<and> distinct (seen_calls s')"
proof (induction ms arbitrary: s)
  case (Cons m ms)
  obtain t where step: "request_message lib cfg m s = Inr t" and tail: "request_loop lib cfg ms t = Inr s'"
    using Cons.prems(1) by (auto simp: result_simps)
  have "seen_calls t = rev (called m) @ seen_calls s \<and> distinct (seen_calls t)"
    using step
  proof (cases rule: request_message_cases)
    case (answer u)
    then show ?thesis using Cons.prems(2) tool_answer_effect [OF answer(2)] by (simp add: called_def)
  next
    case (other u)
    have "called m = map call_id (msg_calls m)" using other(1) by (simp add: called_def)
    then show ?thesis using Cons.prems(2) other_message_effect(3,4) [OF other(2)] other(4) by metis
  qed
  then have step: "seen_calls t = rev (called m) @ seen_calls s" "distinct (seen_calls t)" by blast+
  have "seen_calls s' = rev (concat (map called ms)) @ seen_calls t" "distinct (seen_calls s')"
    using Cons.IH [OF tail step(2)] by blast+
  then show ?case unfolding step(1) by simp
qed simp

lemma request_tools_keep:
  "request_tools_loop lib names ts s = Inr (js, s') \<Longrightarrow> seen_calls s' = seen_calls s \<and> waiting s' = waiting s"
  by (induction ts arbitrary: names s js) (auto simp: result_simps dest!: account_for_keeps split: if_splits)

lemma tools_field_keeps:
  "tools_field lib cfg r fs s = Inr (gs, s') \<Longrightarrow> seen_calls s' = seen_calls s \<and> waiting s' = waiting s"
  by (auto simp: tools_field_def result_simps dest: request_tools_keep split: if_splits)

lemma option_fields_keep:
  "option_fields cfg r fs = Inr gs \<Longrightarrow> map_of gs ''messages'' = map_of fs ''messages''"
  by (auto simp: option_fields_def result_simps split: if_splits option.splits)

text \<open>
  C21. An accepted conversation is sent whole and in order, within the bound; in it every call of an assistant
  message is answered exactly once by the tool messages that follow it at once, no tool message stands
  anywhere else, and no call identity is used twice.
\<close>

theorem chat_request_is_answered:
  assumes "serialize_chat_request lib cfg r = Inr b"
  shows "well_answered (request_messages r) \<and> distinct (concat (map called (request_messages r))) \<and>
    length b \<le> request_limit \<and>
    (\<exists>v. dump lib v = Some b \<and> at_key v ''messages'' = JArr (map message_json (request_messages r)))"
proof -
  obtain fs s s' gs hs where
    tools: "tools_field lib cfg r fs \<lparr>input_bytes = length (model_name cfg), seen_calls = [], waiting = []\<rparr> = Inr (gs, s)"
    and run: "request_loop lib cfg (request_messages r) s = Inr s'" "waiting s' = []"
    and options: "option_fields cfg r (put_member ''messages'' (JArr (map message_json (request_messages r))) gs) = Inr hs"
    and encoded: "encode_fields lib hs = Inr b"
    using assms by (auto simp: serialize_chat_request_def serialize_request_fields_def result_simps split: if_splits)
  have start: "seen_calls s = []" "waiting s = []" using tools_field_keeps [OF tools] by simp_all
  have "well_answered (request_messages r)"
    using request_loop_answered [OF run] start(2) by auto
  moreover have "distinct (rev (concat (map called (request_messages r))))"
    using request_loop_ids [OF run(1)] start(1) by (metis append_Nil2 distinct.simps(1))
  moreover have "dump lib (JObj hs) = Some b" "length b \<le> request_limit"
    using encoded by (auto simp: encode_fields_def split: option.splits if_splits)
  moreover have "at_key (JObj hs) ''messages'' = JArr (map message_json (request_messages r))"
    using option_fields_keep [OF options] by (simp add: at_key_def member_def)
  ultimately show ?thesis by (metis distinct_rev)
qed

text \<open>An instance: a question, a call, its answer.\<close>

definition demo_conversation :: "model_message list" where
  "demo_conversation = [
     \<lparr>msg_role = User_message, msg_content = ''hi'', msg_calls = [], msg_answers = [], msg_refusal = [], msg_items = ''[]''\<rparr>,
     \<lparr>msg_role = Assistant_role, msg_content = [], msg_calls = [\<lparr>call_id = ''a'', call_name = ''f'', arguments_json = ''{}''\<rparr>],
        msg_answers = [], msg_refusal = [], msg_items = ''[]''\<rparr>,
     \<lparr>msg_role = Tool_role, msg_content = ''ok'', msg_calls = [], msg_answers = ''a'', msg_refusal = [], msg_items = ''[]''\<rparr>]"

definition demo_request :: "unit model_request" where
  "demo_request = \<lparr>request_messages = demo_conversation, request_tools = [], include_usage = False,
     max_output_tokens = None, canonical_window = None\<rparr>"

definition demo_config :: provider_config where
  "demo_config = \<lparr>endpoint = ''https://a.b'', model_name = ''m'', tools_support = Supported, usage_support = Unknown_support,
     limit_support = Unknown_support, wire = Chat_completions, reasoning_support = Unknown_support, configured_effort = None,
     dialect = Openai\<rparr>"

definition demo_request_text :: bytes where
  "demo_request_text = ''{\"messages\":[{\"content\":\"hi\",\"role\":\"user\"},{\"content\":\"\",\"role\":\"assistant\",'' @
     ''\"tool_calls\":[{\"function\":{\"arguments\":\"{}\",\"name\":\"f\"},\"id\":\"a\",\"type\":\"function\"}]},'' @
     ''{\"content\":\"ok\",\"role\":\"tool\",\"tool_call_id\":\"a\"}],\"model\":\"m\",\"n\":1,\"stream\":true}''"

definition demo_request_lib :: json_lib where
  "demo_request_lib = \<lparr>sax = (\<lambda>t. ([], if t = ''{}'' then Some (JObj []) else None)),
     dump = (\<lambda>v. if v = JObj (put_member ''messages'' (JArr (map message_json demo_conversation)) (first_fields demo_config))
       then Some demo_request_text else None), same = (=)\<rparr>"

lemma demo_request_accepted: "serialize_chat_request demo_request_lib demo_config demo_request = Inr demo_request_text"
proof -
  have "request_checks 4096 demo_config demo_request = Inr ()"
    by (simp add: request_checks_def demo_config_def demo_request_def demo_conversation_def guardE_def)
  moreover have "request_loop demo_request_lib demo_config demo_conversation
      \<lparr>input_bytes = 1, seen_calls = [], waiting = []\<rparr> = Inr \<lparr>input_bytes = 10, seen_calls = [''a''], waiting = []\<rparr>"
    by (simp add: demo_conversation_def request_message_def other_message_def tool_answer_def require_capability_def
        demo_config_def request_limit_def function_name_def function_char_def object_json_def json_text_def demo_request_lib_def)
  moreover have "length demo_request_text \<le> request_limit"
    by (simp add: demo_request_text_def request_limit_def)
  ultimately show ?thesis
    by (simp add: serialize_chat_request_def serialize_request_fields_def effort_field_def tools_field_def option_fields_def
        encode_fields_def demo_request_def demo_config_def demo_request_lib_def)
qed

theorem chat_request_is_answered_witness:
  "well_answered demo_conversation \<and> distinct (concat (map called demo_conversation)) \<and>
    length demo_request_text \<le> request_limit \<and> (\<exists>v. dump demo_request_lib v = Some demo_request_text \<and>
      at_key v ''messages'' = JArr (map message_json demo_conversation))"
proof -
  have "request_messages demo_request = demo_conversation" by (simp add: demo_request_def)
  then show ?thesis using chat_request_is_answered [OF demo_request_accepted] by simp
qed

end
