(* ===== verification/Gemini_Request.thy ===== *)
theory Gemini_Request
  imports Event_Stream Model_Request
begin

text \<open>
  \<open>gemini_request.cpp\<close>: the serialisation of a conversation as the body of a \<open>generateContent\<close>
  request. Function calls of a model turn must be answered, each once, in the user turn that follows.
  Every exception is a \<open>std::invalid_argument\<close>, given by its text.
\<close>

datatype invalid = Invalid bytes

abbreviation insist :: "bool \<Rightarrow> bytes \<Rightarrow> invalid + unit" where
  "insist b message \<equiv> guardE b (Invalid message)"

datatype gemini_role = User_role | Model_role

datatype part_kind = Text_part | Call_part | Response_part | Signature_part

record request_part =
  part_kind :: part_kind
  text_of :: bytes
  name_of :: bytes
  object_of :: bytes
  id_of :: "bytes option"
  signature_of :: "bytes option"
  thought_of :: "bool option"
  arguments_omitted :: bool
  metadata_of :: "bytes option"

record request_content =
  role_of :: gemini_role
  parts_of :: "request_part list"

record gemini_request =
  system_instructions :: "bytes list"
  contents :: "request_content list"
  declared_tools :: "tool_definition list"
  function_calls :: support
  output_limit :: "int option"

section \<open>Checked texts\<close>

definition body_limit :: nat where "body_limit = 8 * 1024 * 1024"

definition json_string :: "json_lib \<Rightarrow> bytes \<Rightarrow> invalid + bytes" where
  "json_string lib s = (case dump lib (JStr s) of None \<Rightarrow> Inl (Invalid ''Invalid Gemini UTF-8 text'') | Some t \<Rightarrow> Inr t)"

definition gemini_name_char :: "char \<Rightarrow> bool" where
  "gemini_name_char c \<longleftrightarrow> c \<in> set ''abcdefghijklmnopqrstuvwxyzABCDEFGHIJKLMNOPQRSTUVWXYZ0123456789_-''"

definition check_name :: "bytes \<Rightarrow> invalid + unit" where
  "check_name s = insist (s \<noteq> [] \<and> length s \<le> 128 \<and> list_all gemini_name_char s) ''Invalid Gemini function name''"

definition check_identity :: "bytes \<Rightarrow> invalid + unit" where
  "check_identity s = insist (s \<noteq> [] \<and> length s \<le> 256 \<and> CHR 0x00 \<notin> set s) ''Invalid Gemini call identity''"

fun object_event_error :: "event_error \<Rightarrow> invalid" where
  "object_event_error Too_deep = Invalid ''Gemini JSON nesting exceeds limits''"
| "object_event_error Duplicate_key = Invalid ''Duplicate Gemini JSON field''"
| "object_event_error No_open_object = Invalid ''Gemini requires a valid JSON object''"

definition object_text :: "json_lib \<Rightarrow> bytes \<Rightarrow> nat \<Rightarrow> invalid + bytes" where
  "object_text lib source limit =
     bindE (insist (length source \<le> limit) ''Gemini JSON object exceeds limits'') (\<lambda>_.
     bindE (map_error object_event_error (foldE (event_within 16) [] (fst (sax lib source)))) (\<lambda>_.
       case json_text lib source of
         Some v \<Rightarrow> if is_object v then Inr source else Inl (Invalid ''Gemini requires a valid JSON object'')
       | None \<Rightarrow> Inl (Invalid ''Gemini requires a valid JSON object'')))"

section \<open>The serialiser's state\<close>

text \<open>\<open>pending\<close>: the names and identities of the calls that wait for their results.\<close>

type_synonym pending_call = "bytes \<times> bytes option"

record serial =
  pending_calls :: "pending_call list"
  seen_ids :: "bytes list"
  accounted :: nat
  body :: bytes

type_synonym 'a serial_result = "invalid + 'a \<times> serial"

definition account :: "nat \<Rightarrow> serial \<Rightarrow> invalid + serial" where
  "account n s = (if n > body_limit - accounted s then Inl (Invalid ''Gemini input exceeds limits'')
     else Inr (s\<lparr>accounted := accounted s + n\<rparr>))"

definition account_text :: "json_lib \<Rightarrow> bytes \<Rightarrow> serial \<Rightarrow> bytes serial_result" where
  "account_text lib t s =
     bindE (insist (t \<noteq> [] \<and> length t \<le> 4 * 1024 * 1024) ''Gemini text exceeds limits'') (\<lambda>_.
     bindE (account (length t) s) (\<lambda>s. bindE (json_string lib t) (\<lambda>q. Inr (q, s))))"

definition need_functions :: "gemini_request \<Rightarrow> invalid + unit" where
  "need_functions r = insist (function_calls r = Supported) ''Gemini function capability is unknown or unsupported''"

definition quote :: "bytes \<Rightarrow> bytes" where
  "quote s = CHR 0x22 # s @ [CHR 0x22]"

definition bare :: "request_part \<Rightarrow> bool" where
  "bare p \<longleftrightarrow> name_of p = [] \<and> id_of p = None \<and> object_of p = ''{}'' \<and> \<not> arguments_omitted p"

section \<open>One part\<close>

definition serialize_text :: "json_lib \<Rightarrow> gemini_role \<Rightarrow> bool \<Rightarrow> request_part \<Rightarrow> serial \<Rightarrow> bytes serial_result" where
  "serialize_text lib role answering p s =
     bindE (insist (\<not> answering \<and> bare p) ''Invalid Gemini text part'') (\<lambda>_.
     bindE (if text_of p = [] \<and> role = Model_role then bindE (json_string lib []) (\<lambda>q. Inr (q, s))
            else account_text lib (text_of p) s) (\<lambda>(q, s).
       Inr (''{'' @ quote ''text'' @ '':'' @ q, s)))"

definition serialize_signature :: "gemini_role \<Rightarrow> bool \<Rightarrow> request_part \<Rightarrow> serial \<Rightarrow> bytes serial_result" where
  "serialize_signature role answering p s =
     bindE (insist (\<not> answering \<and> role = Model_role \<and> signature_of p \<noteq> None \<and> text_of p = [] \<and> bare p)
       ''Invalid Gemini signature-only part'') (\<lambda>_. Inr (''{'', s))"

definition serialize_call :: "json_lib \<Rightarrow> gemini_role \<Rightarrow> bool \<Rightarrow> request_part \<Rightarrow> bytes \<Rightarrow> serial \<Rightarrow> bytes serial_result" where
  "serialize_call lib role answering p payload s =
     bindE (insist (role = Model_role \<and> \<not> answering) ''Gemini function call requires a model turn'') (\<lambda>_.
     bindE (insist (length (pending_calls s) < 64) ''Gemini function call count exceeds limits'') (\<lambda>_.
     bindE (insist (\<forall>i \<in> set_option (id_of p). i \<notin> set (seen_ids s)) ''Duplicate Gemini call identity'') (\<lambda>_.
     bindE (json_string lib (name_of p)) (\<lambda>n.
       Inr (''{'' @ quote ''functionCall'' @ '':{'' @ quote ''name'' @ '':'' @ n
              @ (if arguments_omitted p then [] else '','' @ quote ''args'' @ '':'' @ payload),
            s\<lparr>pending_calls := pending_calls s @ [(name_of p, id_of p)],
              seen_ids := (case id_of p of None \<Rightarrow> seen_ids s | Some i \<Rightarrow> i # seen_ids s)\<rparr>)))))"

definition serialize_response :: "json_lib \<Rightarrow> gemini_role \<Rightarrow> bool \<Rightarrow> request_part \<Rightarrow> bytes \<Rightarrow> serial \<Rightarrow> bytes serial_result" where
  "serialize_response lib role answering p payload s =
     bindE (insist (role = User_role \<and> answering \<and> signature_of p = None)
       ''Gemini function response requires a pending user turn'') (\<lambda>_.
     bindE (insist ((name_of p, id_of p) \<in> set (pending_calls s))
       ''Gemini function response does not match a pending call'') (\<lambda>_.
     bindE (json_string lib (name_of p)) (\<lambda>n.
       Inr (''{'' @ quote ''functionResponse'' @ '':{'' @ quote ''name'' @ '':'' @ n @ '','' @ quote ''response''
              @ '':'' @ payload,
            s\<lparr>pending_calls := remove1 (name_of p, id_of p) (pending_calls s)\<rparr>))))"

definition function_checks :: "json_lib \<Rightarrow> gemini_request \<Rightarrow> request_part \<Rightarrow> serial \<Rightarrow> bytes serial_result" where
  "function_checks lib r p s =
     bindE (need_functions r) (\<lambda>_. bindE (check_name (name_of p)) (\<lambda>_.
     bindE (account (length (name_of p)) s) (\<lambda>s. bindE (account (length (object_of p)) s) (\<lambda>s.
     bindE (insist (arguments_omitted p \<longrightarrow> part_kind p = Call_part \<and> object_of p = ''{}'')
       ''Conflicting omitted Gemini arguments'') (\<lambda>_.
     bindE (object_text lib (object_of p) (if part_kind p = Response_part then body_limit else 1024 * 1024)) (\<lambda>payload.
     bindE (insist (text_of p = []) ''Function part cannot also carry text'') (\<lambda>_.
     bindE (case id_of p of None \<Rightarrow> Inr s
       | Some i \<Rightarrow> bindE (check_identity i) (\<lambda>_. account (length i) s)) (\<lambda>s.
       Inr (payload, s)))))))))"

definition serialize_function :: "json_lib \<Rightarrow> gemini_request \<Rightarrow> gemini_role \<Rightarrow> bool \<Rightarrow> request_part \<Rightarrow> serial \<Rightarrow>
    bytes serial_result" where
  "serialize_function lib r role answering p s =
     bindE (function_checks lib r p s) (\<lambda>(payload, s).
     bindE (if part_kind p = Call_part then serialize_call lib role answering p payload s
            else serialize_response lib role answering p payload s) (\<lambda>(encoded, s).
     bindE (case id_of p of None \<Rightarrow> Inr []
       | Some i \<Rightarrow> bindE (json_string lib i) (\<lambda>q. Inr ('','' @ quote ''id'' @ '':'' @ q))) (\<lambda>i.
       Inr (encoded @ i @ ''}'', s))))"

definition add_field :: "bytes \<Rightarrow> bytes \<Rightarrow> bytes \<Rightarrow> bytes" where
  "add_field k v encoded = encoded @ (if length encoded > 1 then '','' else []) @ quote k @ '':'' @ v"

definition add_signature :: "json_lib \<Rightarrow> gemini_role \<Rightarrow> request_part \<Rightarrow> bytes \<times> serial \<Rightarrow> bytes serial_result" where
  "add_signature lib role p es = (case signature_of p of None \<Rightarrow> Inr es
     | Some sig \<Rightarrow>
         bindE (insist (role = Model_role \<and> sig \<noteq> [] \<and> length sig \<le> 65536 \<and> CHR 0x00 \<notin> set sig)
           ''Invalid Gemini thought signature'') (\<lambda>_.
         bindE (account (length sig) (snd es)) (\<lambda>s.
         bindE (json_string lib sig) (\<lambda>q. Inr (add_field ''thoughtSignature'' q (fst es), s)))))"

definition add_thought :: "gemini_role \<Rightarrow> request_part \<Rightarrow> bytes \<times> serial \<Rightarrow> bytes serial_result" where
  "add_thought role p es = (case thought_of p of None \<Rightarrow> Inr es
     | Some b \<Rightarrow> bindE (insist (role = Model_role) ''Thought metadata requires a model part'') (\<lambda>_.
         Inr (add_field ''thought'' (if b then ''true'' else ''false'') (fst es), snd es)))"

definition add_metadata :: "json_lib \<Rightarrow> gemini_role \<Rightarrow> request_part \<Rightarrow> bytes \<times> serial \<Rightarrow> bytes serial_result" where
  "add_metadata lib role p es = (case metadata_of p of None \<Rightarrow> Inr es
     | Some raw \<Rightarrow> bindE (insist (role = Model_role) ''Gemini replay metadata requires a model part'') (\<lambda>_.
         bindE (account (length raw) (snd es)) (\<lambda>s.
         bindE (object_text lib raw (1024 * 1024)) (\<lambda>t. Inr (add_field ''partMetadata'' t (fst es), s)))))"

definition serialize_part :: "json_lib \<Rightarrow> gemini_request \<Rightarrow> gemini_role \<Rightarrow> bool \<Rightarrow> bool \<Rightarrow> request_part \<Rightarrow> serial \<Rightarrow>
    invalid + serial" where
  "serialize_part lib r role answering first p s =
     bindE (case part_kind p of
         Text_part \<Rightarrow> serialize_text lib role answering p s
       | Signature_part \<Rightarrow> serialize_signature role answering p s
       | _ \<Rightarrow> serialize_function lib r role answering p s) (\<lambda>es.
     bindE (add_signature lib role p es) (\<lambda>es. bindE (add_thought role p es) (\<lambda>es.
     bindE (add_metadata lib role p es) (\<lambda>(encoded, s).
       let b = body s @ (if first then [] else '','') @ encoded @ ''}'' in
       bindE (insist (length b \<le> body_limit) ''Gemini serialized request exceeds limits'') (\<lambda>_.
         Inr (s\<lparr>body := b\<rparr>))))))"

fun serialize_parts :: "json_lib \<Rightarrow> gemini_request \<Rightarrow> gemini_role \<Rightarrow> bool \<Rightarrow> bool \<Rightarrow> request_part list \<Rightarrow> serial \<Rightarrow>
    invalid + serial" where
  "serialize_parts lib r role answering first [] s = Inr s"
| "serialize_parts lib r role answering first (p # ps) s =
     bindE (serialize_part lib r role answering first p s) (\<lambda>s.
       serialize_parts lib r role answering False ps s)"

section \<open>The request\<close>

definition content_head :: "json_lib \<Rightarrow> bool \<Rightarrow> request_content \<Rightarrow> serial \<Rightarrow> invalid + serial" where
  "content_head lib first c s =
     bindE (json_string lib (if role_of c = User_role then ''user'' else ''model'')) (\<lambda>q.
       Inr (s\<lparr>body := body s @ (if first then [] else '','') @ ''{'' @ quote ''role'' @ '':'' @ q @ '','' @ quote ''parts'' @ '':[''\<rparr>))"

definition serialize_content :: "json_lib \<Rightarrow> gemini_request \<Rightarrow> bool \<Rightarrow> request_content \<Rightarrow> serial \<Rightarrow> invalid + serial" where
  "serialize_content lib r first c s =
     (let answering = pending_calls s \<noteq> [] in
      bindE (insist (parts_of c \<noteq> [] \<and> length (parts_of c) \<le> (if role_of c = Model_role then 4096 else 128))
        ''Gemini content parts exceed limits'') (\<lambda>_.
      bindE (insist (answering \<longrightarrow> role_of c = User_role) ''Gemini function results must precede model continuation'') (\<lambda>_.
      bindE (content_head lib first c s) (\<lambda>s.
      bindE (serialize_parts lib r (role_of c) answering True (parts_of c) s) (\<lambda>s.
      bindE (insist (answering \<longrightarrow> pending_calls s = [])
        ''Gemini continuation requires all function results in one user turn'') (\<lambda>_.
        Inr (s\<lparr>body := body s @ '']}''\<rparr>)))))))"

fun serialize_contents :: "json_lib \<Rightarrow> gemini_request \<Rightarrow> bool \<Rightarrow> request_content list \<Rightarrow> serial \<Rightarrow> invalid + serial" where
  "serialize_contents lib r first [] s = Inr s"
| "serialize_contents lib r first (c # cs) s =
     bindE (serialize_content lib r first c s) (\<lambda>s. serialize_contents lib r False cs s)"

fun serialize_instructions :: "json_lib \<Rightarrow> bool \<Rightarrow> bytes list \<Rightarrow> serial \<Rightarrow> invalid + serial" where
  "serialize_instructions lib first [] s = Inr s"
| "serialize_instructions lib first (t # ts) s =
     bindE (account_text lib t s) (\<lambda>(q, s).
       serialize_instructions lib False ts
         (s\<lparr>body := body s @ (if first then [] else '','') @ ''{'' @ quote ''text'' @ '':'' @ q @ ''}''\<rparr>))"

definition serialize_tool :: "json_lib \<Rightarrow> bool \<Rightarrow> bytes list \<Rightarrow> tool_definition \<Rightarrow> serial \<Rightarrow> invalid + serial" where
  "serialize_tool lib first names t s =
     bindE (check_name (tool_name t)) (\<lambda>_.
     bindE (insist (tool_name t \<notin> set names \<and> length (tool_description t) \<le> 65536)
       ''Invalid or duplicate Gemini function declaration'') (\<lambda>_.
     bindE (account (length (tool_name t)) s) (\<lambda>s. bindE (account (length (tool_description t)) s) (\<lambda>s.
     bindE (account (length (tool_schema t)) s) (\<lambda>s.
     bindE (json_string lib (tool_name t)) (\<lambda>n. bindE (json_string lib (tool_description t)) (\<lambda>d.
     bindE (object_text lib (tool_schema t) (1024 * 1024)) (\<lambda>schema.
       Inr (s\<lparr>body := body s @ (if first then [] else '','') @ ''{'' @ quote ''name'' @ '':'' @ n @ '','' @ quote ''description''
         @ '':'' @ d @ '','' @ quote ''parametersJsonSchema'' @ '':'' @ schema @ ''}''\<rparr>)))))))))"

fun serialize_tools :: "json_lib \<Rightarrow> bool \<Rightarrow> bytes list \<Rightarrow> tool_definition list \<Rightarrow> serial \<Rightarrow> invalid + serial" where
  "serialize_tools lib first names [] s = Inr s"
| "serialize_tools lib first names (t # ts) s =
     bindE (serialize_tool lib first names t s) (\<lambda>s. serialize_tools lib False (tool_name t # names) ts s)"

definition wrapped :: "bytes \<Rightarrow> bytes \<Rightarrow> (serial \<Rightarrow> invalid + serial) \<Rightarrow> serial \<Rightarrow> invalid + serial" where
  "wrapped opening ending f s =
     bindE (f (s\<lparr>body := body s @ opening\<rparr>)) (\<lambda>s. Inr (s\<lparr>body := body s @ ending\<rparr>))"

definition serialize_options :: "json_lib \<Rightarrow> gemini_request \<Rightarrow> serial \<Rightarrow> invalid + serial" where
  "serialize_options lib r s =
     bindE (if system_instructions r = [] then Inr s
       else wrapped ('','' @ quote ''systemInstruction'' @ '':{'' @ quote ''parts'' @ '':['') '']}''
         (serialize_instructions lib True (system_instructions r)) s) (\<lambda>s.
     bindE (if declared_tools r = [] then Inr s
       else bindE (need_functions r) (\<lambda>_.
         wrapped ('','' @ quote ''tools'' @ '':[{'' @ quote ''functionDeclarations'' @ '':['') '']}]''
           (serialize_tools lib True [] (declared_tools r)) s)) (\<lambda>s.
     case output_limit r of None \<Rightarrow> Inr s
     | Some n \<Rightarrow> bindE (insist (1 \<le> n \<and> n \<le> 2147483647) ''Invalid Gemini output token limit'') (\<lambda>_.
         Inr (s\<lparr>body := body s @ '','' @ quote ''generationConfig'' @ '':{'' @ quote ''maxOutputTokens'' @ '':''
           @ decimal (nat n) @ ''}''\<rparr>))))"

definition serialize_request :: "json_lib \<Rightarrow> gemini_request \<Rightarrow> invalid + bytes" where
  "serialize_request lib r =
     bindE (insist (contents r \<noteq> [] \<and> length (contents r) \<le> 4096 \<and> length (system_instructions r) \<le> 128 \<and>
       length (declared_tools r) \<le> 64) ''Gemini request exceeds limits'') (\<lambda>_.
     bindE (serialize_contents lib r True (contents r)
       \<lparr>pending_calls = [], seen_ids = [], accounted = 0, body = ''{'' @ quote ''contents'' @ '':[''\<rparr>) (\<lambda>s.
     bindE (insist (pending_calls s = []) ''Gemini continuation requires all function results'') (\<lambda>_.
     bindE (serialize_options lib r (s\<lparr>body := body s @ '']''\<rparr>)) (\<lambda>s.
       let b = body s @ ''}'' in
       bindE (insist (length b \<le> body_limit) ''Gemini serialized request exceeds limits'') (\<lambda>_. Inr b)))))"

section \<open>Calls and their answers\<close>

definition part_keys :: "part_kind \<Rightarrow> request_part list \<Rightarrow> pending_call list" where
  "part_keys k ps = map (\<lambda>p. (name_of p, id_of p)) (filter (\<lambda>p. part_kind p = k) ps)"

definition key_ids :: "pending_call list \<Rightarrow> bytes list" where
  "key_ids ks = concat (map (\<lambda>(n, i). case i of None \<Rightarrow> [] | Some i \<Rightarrow> [i]) ks)"

text \<open>\<open>settled unanswered cs\<close>: each content answers exactly the calls of the one before it, and none waits at the end.\<close>

fun settled :: "pending_call list \<Rightarrow> request_content list \<Rightarrow> bool" where
  "settled unanswered [] \<longleftrightarrow> unanswered = []"
| "settled unanswered (c # cs) \<longleftrightarrow> mset (part_keys Response_part (parts_of c)) = mset unanswered \<and>
     (unanswered \<noteq> [] \<longrightarrow> role_of c = User_role \<and> part_keys Call_part (parts_of c) = []) \<and>
     settled (part_keys Call_part (parts_of c)) cs"

definition request_call_ids :: "request_content list \<Rightarrow> bytes list" where
  "request_call_ids cs = key_ids (concat (map (\<lambda>c. part_keys Call_part (parts_of c)) cs))"

lemma part_keys_simps [simp]:
  "part_keys k [] = []"
  "part_keys k (p # ps) = (if part_kind p = k then [(name_of p, id_of p)] else []) @ part_keys k ps"
  by (simp_all add: part_keys_def)

lemma key_ids_simps [simp]:
  "key_ids [] = []" "key_ids (ks @ js) = key_ids ks @ key_ids js"
  "key_ids ((n, None) # ks) = key_ids ks" "key_ids ((n, Some i) # ks) = i # key_ids ks"
  by (simp_all add: key_ids_def)

lemma request_call_ids_Cons:
  "request_call_ids (c # cs) = key_ids (part_keys Call_part (parts_of c)) @ request_call_ids cs"
  by (simp add: request_call_ids_def)

text \<open>The part of the state that the calls decide.\<close>

definition calls_state :: "serial \<Rightarrow> pending_call list \<times> bytes list" where
  "calls_state s = (pending_calls s, seen_ids s)"

lemma account_calls: "account n s = Inr s' \<Longrightarrow> calls_state s' = calls_state s"
  by (auto simp: account_def calls_state_def split: if_splits)

lemma account_text_calls: "account_text lib t s = Inr (q, s') \<Longrightarrow> calls_state s' = calls_state s"
  by (auto simp: account_text_def result_simps dest: account_calls split: if_splits)

lemma function_checks_calls: "function_checks lib r p s = Inr (q, s') \<Longrightarrow> calls_state s' = calls_state s"
  by (auto simp: function_checks_def result_simps dest!: account_calls split: if_splits option.splits)

lemma serialize_text_calls: "serialize_text lib role answering p s = Inr (q, s') \<Longrightarrow> calls_state s' = calls_state s"
  by (auto simp: serialize_text_def result_simps dest: account_text_calls split: if_splits)

lemma serialize_signature_calls:
  "serialize_signature role answering p s = Inr (q, s') \<Longrightarrow> calls_state s' = calls_state s"
  by (auto simp: serialize_signature_def split: if_splits)

lemma metadata_calls:
  "add_signature lib role p es = Inr fs \<Longrightarrow> calls_state (snd fs) = calls_state (snd es)"
  "add_thought role p es = Inr fs \<Longrightarrow> calls_state (snd fs) = calls_state (snd es)"
  "add_metadata lib role p es = Inr fs \<Longrightarrow> calls_state (snd fs) = calls_state (snd es)"
  by (auto simp: add_signature_def add_thought_def add_metadata_def result_simps dest: account_calls
      split: option.splits if_splits)

text \<open>What a run of parts \<open>ps\<close> does to that state.\<close>

definition moves_calls :: "gemini_role \<Rightarrow> bool \<Rightarrow> request_part list \<Rightarrow> serial \<Rightarrow> serial \<Rightarrow> bool" where
  "moves_calls role answering ps s s' \<longleftrightarrow>
     mset (pending_calls s') + mset (part_keys Response_part ps) = mset (pending_calls s) + mset (part_keys Call_part ps) \<and>
     (part_keys Call_part ps \<noteq> [] \<longrightarrow> role = Model_role \<and> \<not> answering) \<and>
     (part_keys Response_part ps \<noteq> [] \<longrightarrow> role = User_role \<and> answering) \<and>
     (part_keys Response_part ps = [] \<longrightarrow> pending_calls s' = pending_calls s @ part_keys Call_part ps) \<and>
     seen_ids s' = rev (key_ids (part_keys Call_part ps)) @ seen_ids s \<and>
     (distinct (seen_ids s) \<longrightarrow> distinct (seen_ids s'))"

lemma serialize_call_moves:
  assumes "serialize_call lib role answering p payload s = Inr (q, s')" "part_kind p = Call_part"
  shows "moves_calls role answering [p] s s'"
  using assms by (cases "id_of p") (auto simp: serialize_call_def moves_calls_def result_simps split: if_splits)

lemma serialize_response_moves:
  assumes "serialize_response lib role answering p payload s = Inr (q, s')" "part_kind p = Response_part"
  shows "moves_calls role answering [p] s s'"
  using assms by (auto simp: serialize_response_def moves_calls_def result_simps split: if_splits)

lemma moves_same:
  assumes "calls_state s' = calls_state s" "calls_state t' = calls_state t" "moves_calls role answering ps s t"
  shows "moves_calls role answering ps s' t'"
  using assms by (auto simp: moves_calls_def calls_state_def)

lemma moves_none:
  "calls_state s' = calls_state s \<Longrightarrow> part_kind p \<noteq> Call_part \<Longrightarrow> part_kind p \<noteq> Response_part \<Longrightarrow>
   moves_calls role answering [p] s s'"
  by (simp add: moves_calls_def calls_state_def)

lemma serialize_function_moves:
  assumes "serialize_function lib r role answering p s = Inr (q, s')" "part_kind p \<in> {Call_part, Response_part}"
  shows "moves_calls role answering [p] s s'"
proof -
  obtain payload s1 where checks: "function_checks lib r p s = Inr (payload, s1)"
    and body: "\<exists>e. (if part_kind p = Call_part then serialize_call lib role answering p payload s1
            else serialize_response lib role answering p payload s1) = Inr (e, s')"
    using assms(1) by (auto simp: serialize_function_def result_simps)
  have "moves_calls role answering [p] s1 s'"
    using body assms(2) by (auto intro: serialize_call_moves serialize_response_moves split: if_splits)
  then show ?thesis
    using moves_same [of s s1 s' s'] function_checks_calls [OF checks] by simp
qed

lemma serialize_part_moves:
  assumes "serialize_part lib r role answering first p s = Inr s'"
  shows "moves_calls role answering [p] s s'"
proof -
  obtain e0 e1 e2 e3 where
    run: "(case part_kind p of
         Text_part \<Rightarrow> serialize_text lib role answering p s
       | Signature_part \<Rightarrow> serialize_signature role answering p s
       | _ \<Rightarrow> serialize_function lib r role answering p s) = Inr e0"
    and rest: "add_signature lib role p e0 = Inr e1" "add_thought role p e1 = Inr e2" "add_metadata lib role p e2 = Inr e3"
    and last: "calls_state s' = calls_state (snd e3)"
    using assms by (auto simp: serialize_part_def result_simps Let_def calls_state_def split: if_splits)
  have same: "calls_state s' = calls_state (snd e0)"
    using last rest by (simp add: metadata_calls)
  have "moves_calls role answering [p] s (snd e0)"
    using run by (cases "part_kind p"; cases e0)
      (auto intro: moves_none serialize_function_moves dest: serialize_text_calls serialize_signature_calls)
  then show ?thesis using same moves_same [of s s] by blast
qed

lemma moves_step:
  assumes "moves_calls role answering [p] s t" "moves_calls role answering ps t u"
  shows "moves_calls role answering (p # ps) s u"
  using assms unfolding moves_calls_def
  by (cases "part_kind p"; cases "id_of p") (auto simp: union_commute add_mset_commute)

lemma serialize_parts_moves:
  "serialize_parts lib r role answering first ps s = Inr s' \<Longrightarrow> moves_calls role answering ps s s'"
proof (induction ps arbitrary: first s)
  case Nil
  then show ?case by (simp add: moves_calls_def)
next
  case (Cons p ps)
  then show ?case by (auto simp: result_simps intro: moves_step serialize_part_moves)
qed

lemma serialize_content_moves:
  assumes "serialize_content lib r first c s = Inr s'"
  shows "moves_calls (role_of c) (pending_calls s \<noteq> []) (parts_of c) s s'"
    and "pending_calls s \<noteq> [] \<Longrightarrow> role_of c = User_role \<and> pending_calls s' = []"
proof -
  obtain s1 s2 where head: "content_head lib first c s = Inr s1"
    and parts: "serialize_parts lib r (role_of c) (pending_calls s \<noteq> []) True (parts_of c) s1 = Inr s2"
    and last: "calls_state s' = calls_state s2"
    and ends: "pending_calls s \<noteq> [] \<longrightarrow> role_of c = User_role \<and> pending_calls s2 = []"
    using assms unfolding serialize_content_def Let_def bindE_Inr guardE_Inr calls_state_def by fastforce
  have "calls_state s = calls_state s1"
    using head by (auto simp: content_head_def result_simps calls_state_def)
  then show "moves_calls (role_of c) (pending_calls s \<noteq> []) (parts_of c) s s'"
    using serialize_parts_moves [OF parts] moves_same last by blast
  show "pending_calls s \<noteq> [] \<Longrightarrow> role_of c = User_role \<and> pending_calls s' = []"
    using ends last by (simp add: calls_state_def)
qed

lemma content_settles:
  assumes "serialize_content lib r first c s = Inr s'"
  shows "mset (part_keys Response_part (parts_of c)) = mset (pending_calls s)"
    and "pending_calls s' = part_keys Call_part (parts_of c)"
    and "pending_calls s \<noteq> [] \<Longrightarrow> role_of c = User_role \<and> part_keys Call_part (parts_of c) = []"
proof -
  note moves = serialize_content_moves(1) [OF assms, unfolded moves_calls_def]
  note ends = serialize_content_moves(2) [OF assms]
  show "mset (part_keys Response_part (parts_of c)) = mset (pending_calls s)"
    using moves ends by (cases "pending_calls s = []") auto
  show "pending_calls s' = part_keys Call_part (parts_of c)"
    using moves ends by (cases "pending_calls s = []") auto
  show "pending_calls s \<noteq> [] \<Longrightarrow> role_of c = User_role \<and> part_keys Call_part (parts_of c) = []"
    using moves ends by auto
qed

lemma contents_settled:
  assumes "serialize_contents lib r first cs s = Inr s'" "pending_calls s' = []"
  shows "settled (pending_calls s) cs"
  using assms(1)
proof (induction cs arbitrary: first s)
  case Nil
  then show ?case using assms(2) by simp
next
  case (Cons c cs)
  then obtain t where head: "serialize_content lib r first c s = Inr t" and tail: "serialize_contents lib r False cs t = Inr s'"
    by (auto simp: result_simps)
  then show ?case
    using Cons.IH [OF tail] content_settles [OF head] by auto
qed

lemma contents_ids:
  "serialize_contents lib r first cs s = Inr s' \<Longrightarrow> distinct (seen_ids s) \<Longrightarrow>
   seen_ids s' = rev (request_call_ids cs) @ seen_ids s \<and> distinct (seen_ids s')"
proof (induction cs arbitrary: first s)
  case Nil
  then show ?case by (simp add: request_call_ids_def)
next
  case (Cons c cs)
  then obtain t where head: "serialize_content lib r first c s = Inr t" and tail: "serialize_contents lib r False cs t = Inr s'"
    by (auto simp: result_simps)
  have step: "seen_ids t = rev (key_ids (part_keys Call_part (parts_of c))) @ seen_ids s" "distinct (seen_ids t)"
    using serialize_content_moves(1) [OF head] Cons.prems(2) unfolding moves_calls_def by blast+
  have "seen_ids s' = rev (request_call_ids cs) @ seen_ids t" "distinct (seen_ids s')"
    using Cons.IH [OF tail step(2)] by blast+
  then show ?case unfolding step(1) request_call_ids_Cons rev_append append_assoc by blast
qed

text \<open>
  A serialised request is within 8 MiB, every content of it answers exactly the calls of the content before
  it, each by its name and identity, no call is left open, and no provider identity is used for two calls.
\<close>

theorem gemini_calls_answered:
  assumes "serialize_request lib r = Inr b"
  shows "settled [] (contents r) \<and> distinct (request_call_ids (contents r)) \<and> length b \<le> body_limit"
proof -
  obtain s where run: "serialize_contents lib r True (contents r)
       \<lparr>pending_calls = [], seen_ids = [], accounted = 0, body = ''{'' @ quote ''contents'' @ '':[''\<rparr> = Inr s"
    and none: "pending_calls s = []" and size: "length b \<le> body_limit"
    using assms by (auto simp: serialize_request_def result_simps Let_def split: if_splits)
  have "distinct (rev (request_call_ids (contents r)))"
    using contents_ids [OF run] by (metis append_Nil2 distinct.simps(1) serial.select_convs(2))
  then show ?thesis
    using contents_settled [OF run none] size by simp
qed

end
