(* ===== verification/Anthropic_History.thy ===== *)
theory Anthropic_History
  imports Claude_Stream Model_Request
begin

text \<open>
  \<open>anthropic_history.cpp\<close>: the receipt kept with a Claude turn, and its reading when the turn is sent back.
  The receipt holds the content blocks as text; a turn is replayed only if they still say what the message
  says: the same visible text and the same calls, arguments byte for byte. The lexer \<open>Tokens\<close> of this file is
  the one of \<open>anthropic_stream.cpp\<close>, whose model \<open>rest_of_value\<close> and \<open>token\<close> is used here.
\<close>

text \<open>
  \<open>Receipt_json_failure\<close> is an exception of the JSON library that is not caught; \<open>Receipt_out_of_range\<close> stands for
  a read past the end of the element slices, which C++ leaves undefined.
\<close>

datatype receipt_error = Invalid_receipt | Receipt_json_failure | Receipt_out_of_range | Incompatible_receipt

abbreviation require :: "bool \<Rightarrow> receipt_error + unit" where
  "require b \<equiv> guardE b Invalid_receipt"

definition history_content_limit :: nat where "history_content_limit = 8 * 1024 * 1024"
definition history_text_limit :: nat where "history_text_limit = 4 * 1024 * 1024"
definition history_input_limit :: nat where "history_input_limit = 1024 * 1024"

section \<open>Reading values\<close>

definition receipt_parse :: "json_lib \<Rightarrow> nat \<Rightarrow> nat \<Rightarrow> bytes \<Rightarrow> receipt_error + json" where
  "receipt_parse lib limit depth source =
     bindE (require (length source \<le> limit)) (\<lambda>_.
     bindE (map_error (\<lambda>_. Invalid_receipt) (foldE (event_within depth) [] (fst (sax lib source)))) (\<lambda>_.
       case snd (sax lib source) of None \<Rightarrow> Inl Invalid_receipt | Some v \<Rightarrow> Inr v))"

definition receipt_utf8 :: "json_lib \<Rightarrow> nat \<Rightarrow> bytes \<Rightarrow> receipt_error + unit" where
  "receipt_utf8 lib bound s = require (length s \<le> bound \<and> dump lib (JStr s) \<noteq> None)"

definition receipt_string :: "json_lib \<Rightarrow> nat \<Rightarrow> bytes \<Rightarrow> json \<Rightarrow> receipt_error + bytes" where
  "receipt_string lib bound field v =
     bindE (require (is_object v \<and> has_member v field \<and> is_string (at_key v field))) (\<lambda>_.
     bindE (receipt_utf8 lib bound (str_of (at_key v field))) (\<lambda>_. Inr (str_of (at_key v field))))"

definition receipt_fields :: "bytes list \<Rightarrow> json \<Rightarrow> receipt_error + unit" where
  "receipt_fields allowed v = require (is_object v \<and> list_all (\<lambda>(k, _). k \<in> set allowed) (members v))"

definition receipt_opaque :: "json_lib \<Rightarrow> nat \<Rightarrow> bytes \<Rightarrow> receipt_error + unit" where
  "receipt_opaque lib bound s = bindE (receipt_utf8 lib bound s) (\<lambda>_. require (s \<noteq> [] \<and> CHR 0x00 \<notin> set s))"

definition receipt_name :: "bytes \<Rightarrow> receipt_error + unit" where
  "receipt_name s = require (s \<noteq> [] \<and> length s \<le> 64 \<and> list_all name_char s)"

section \<open>Slices of the text\<close>

definition slice :: "bytes \<Rightarrow> receipt_error + bytes \<times> bytes" where
  "slice s = (case token s of None \<Rightarrow> Inl Invalid_receipt | Some x \<Rightarrow> Inr x)"

definition next_byte :: "bytes \<Rightarrow> receipt_error + char \<times> bytes" where
  "next_byte s = (case skip_space s of [] \<Rightarrow> Inl Invalid_receipt | c # cs \<Rightarrow> Inr (c, cs))"

fun receipt_failure :: "stream_error \<Rightarrow> receipt_error" where
  "receipt_failure (Protocol _) = Invalid_receipt"
| "receipt_failure _ = Receipt_json_failure"

definition receipt_member :: "json_lib \<Rightarrow> bytes \<Rightarrow> bytes \<Rightarrow> receipt_error + bytes" where
  "receipt_member lib source wanted = map_error receipt_failure (claude_member lib source wanted)"

lemma slice_shorter: "slice s = Inr (a, r) \<Longrightarrow> length r < length s"
  by (auto simp: slice_def token_shorter split: option.splits)

lemma next_byte_shorter: "next_byte s = Inr (c, r) \<Longrightarrow> length r < length s"
  using skip_space_shorter [of s] by (auto simp: next_byte_def split: list.splits)

function slices :: "bytes \<Rightarrow> receipt_error + bytes list" where
  "slices s =
     bindE (slice s) (\<lambda>(a, r). bindE (next_byte r) (\<lambda>(c, r').
       if c = CHR '']'' then Inr [a]
       else if c \<noteq> CHR '','' then Inl Invalid_receipt
       else bindE (slices r') (\<lambda>rest. Inr (a # rest))))"
  by pat_completeness auto
termination
proof (relation "measure length")
  fix s x a r y c r'
  assume "slice s = Inr x" "(a, r) = x" "next_byte r = Inr y" "(c, r') = y"
  then show "(r', s) \<in> measure length"
    using slice_shorter [of s a r] next_byte_shorter [of r c r'] by auto
qed simp

declare slices.simps [simp del]

definition receipt_elements :: "bytes \<Rightarrow> receipt_error + bytes list" where
  "receipt_elements source =
     bindE (next_byte source) (\<lambda>(c, s). bindE (require (c = CHR ''['')) (\<lambda>_.
     bindE (next_byte s) (\<lambda>(d, _). if d = CHR '']'' then Inr [] else slices s)))"

section \<open>The content blocks\<close>

record receipt_content =
  receipt_blocks :: nat
  visible :: bytes
  receipt_calls :: "tool_call list"

definition text_block :: "json_lib \<Rightarrow> json \<Rightarrow> receipt_content \<Rightarrow> receipt_error + receipt_content" where
  "text_block lib b c =
     bindE (receipt_fields [''type'', ''text''] b) (\<lambda>_.
     bindE (receipt_string lib history_text_limit ''text'' b) (\<lambda>t.
     bindE (require (length t \<le> history_text_limit - length (visible c))) (\<lambda>_.
       Inr (c\<lparr>visible := visible c @ t\<rparr>))))"

definition direct_caller :: "json_lib \<Rightarrow> json \<Rightarrow> receipt_error + unit" where
  "direct_caller lib b =
     (if has_member b ''caller'' then
        bindE (receipt_fields [''type''] (at_key b ''caller'')) (\<lambda>_.
        bindE (receipt_string lib 32 ''type'' (at_key b ''caller'')) (\<lambda>t. require (t = ''direct'')))
      else Inr ())"

definition tool_block :: "json_lib \<Rightarrow> json \<Rightarrow> bytes option \<Rightarrow> receipt_content \<Rightarrow> receipt_error + receipt_content" where
  "tool_block lib b source c =
     bindE (receipt_fields [''type'', ''id'', ''name'', ''input'', ''caller''] b) (\<lambda>_.
     bindE (direct_caller lib b) (\<lambda>_.
     bindE (receipt_string lib 256 ''id'' b) (\<lambda>i. bindE (receipt_opaque lib 256 i) (\<lambda>_.
     bindE (receipt_string lib 64 ''name'' b) (\<lambda>n. bindE (receipt_name n) (\<lambda>_.
     bindE (require (i \<notin> set (map call_id (receipt_calls c)))) (\<lambda>_.
     bindE (case source of None \<Rightarrow> Inl Receipt_out_of_range | Some t \<Rightarrow> receipt_member lib t ''input'') (\<lambda>input.
     bindE (receipt_parse lib history_input_limit 16 input) (\<lambda>v. bindE (require (is_object v)) (\<lambda>_.
       Inr (c\<lparr>receipt_calls := receipt_calls c @ [\<lparr>call_id = i, call_name = n, arguments_json = input\<rparr>]\<rparr>)))))))))))"

definition thinking_block :: "json_lib \<Rightarrow> json \<Rightarrow> receipt_error + unit" where
  "thinking_block lib b =
     bindE (receipt_fields [''type'', ''thinking'', ''signature''] b) (\<lambda>_.
     bindE (receipt_string lib history_text_limit ''thinking'' b) (\<lambda>_.
     bindE (receipt_string lib 65536 ''signature'' b) (\<lambda>s. receipt_opaque lib 65536 s)))"

definition redacted_block :: "json_lib \<Rightarrow> json \<Rightarrow> receipt_error + unit" where
  "redacted_block lib b =
     bindE (receipt_fields [''type'', ''data''] b) (\<lambda>_.
     bindE (receipt_string lib history_text_limit ''data'' b) (\<lambda>s. receipt_opaque lib history_text_limit s))"

definition content_block :: "json_lib \<Rightarrow> json \<Rightarrow> bytes option \<Rightarrow> receipt_content \<Rightarrow> receipt_error + receipt_content" where
  "content_block lib b source c =
     bindE (require (is_object b)) (\<lambda>_.
     bindE (receipt_string lib 32 ''type'' b) (\<lambda>kind_text.
       if kind_text = ''text'' then text_block lib b c
       else if kind_text = ''tool_use'' then tool_block lib b source c
       else if kind_text = ''thinking'' then bindE (thinking_block lib b) (\<lambda>_. Inr c)
       else if kind_text = ''redacted_thinking'' then bindE (redacted_block lib b) (\<lambda>_. Inr c)
       else Inl Invalid_receipt))"

fun content_loop :: "json_lib \<Rightarrow> json list \<Rightarrow> bytes list \<Rightarrow> receipt_content \<Rightarrow> receipt_error + receipt_content" where
  "content_loop lib [] sources c = Inr c"
| "content_loop lib (b # bs) sources c =
     bindE (content_block lib b (case sources of [] \<Rightarrow> None | s # _ \<Rightarrow> Some s) c) (\<lambda>c.
       content_loop lib bs (case sources of [] \<Rightarrow> [] | _ # ss \<Rightarrow> ss) c)"

definition receipt_content_of :: "json_lib \<Rightarrow> bytes \<Rightarrow> receipt_error + receipt_content" where
  "receipt_content_of lib source =
     bindE (receipt_parse lib history_content_limit 32 source) (\<lambda>v.
     bindE (require (is_array v \<and> length (elements v) \<le> 64)) (\<lambda>_.
     bindE (receipt_elements source) (\<lambda>sources.
       content_loop lib (elements v) sources
         \<lparr>receipt_blocks = length (elements v), visible = [], receipt_calls = []\<rparr>)))"

definition receipt_finish :: "bytes \<Rightarrow> bytes \<Rightarrow> nat \<Rightarrow> receipt_error + unit" where
  "receipt_finish native provider found =
     (if provider = ''tool_use'' then require (native = ''tool_calls'' \<and> found \<noteq> 0)
      else if provider = ''end_turn'' \<or> provider = ''stop_sequence'' then require (native = ''stop'' \<and> found = 0)
      else if provider = ''max_tokens'' then require (native = ''length'' \<and> found = 0)
      else Inl Invalid_receipt)"

section \<open>Receipts\<close>

definition receipt_json :: "bytes \<Rightarrow> bytes \<Rightarrow> bytes \<Rightarrow> json" where
  "receipt_json source native provider = JArr [JObj [(''content_json'', JStr source),
     (''finish_reason'', JStr native), (''provider_finish_reason'', JStr provider), (''type'', JStr ''anthropic_content'')]]"

definition anthropic_content_receipt :: "json_lib \<Rightarrow> bytes \<Rightarrow> bytes \<Rightarrow> bytes \<Rightarrow> receipt_error + bytes" where
  "anthropic_content_receipt lib source native provider =
     bindE (receipt_content_of lib source) (\<lambda>c.
     bindE (receipt_finish native provider (length (receipt_calls c))) (\<lambda>_.
     case dump lib (receipt_json source native provider) of None \<Rightarrow> Inl Receipt_json_failure
     | Some r \<Rightarrow> bindE (require (length r \<le> history_content_limit)) (\<lambda>_. Inr r)))"

definition receipt_item :: "json_lib \<Rightarrow> bytes \<Rightarrow> receipt_error + json" where
  "receipt_item lib items =
     bindE (receipt_parse lib history_content_limit 4 items) (\<lambda>v.
     bindE (require (is_array v \<and> length (elements v) = 1)) (\<lambda>_.
     bindE (receipt_fields [''type'', ''content_json'', ''finish_reason'', ''provider_finish_reason''] (hd (elements v))) (\<lambda>_.
     bindE (receipt_string lib 32 ''type'' (hd (elements v))) (\<lambda>t.
     bindE (require (t = ''anthropic_content'')) (\<lambda>_. Inr (hd (elements v)))))))"

definition history_content :: "json_lib \<Rightarrow> model_message \<Rightarrow> receipt_error + bytes" where
  "history_content lib m =
     bindE (require (msg_role m = Assistant_role \<and> msg_refusal m = [] \<and> msg_answers m = [])) (\<lambda>_.
     bindE (receipt_utf8 lib history_text_limit (msg_content m)) (\<lambda>_.
     bindE (receipt_item lib (msg_items m)) (\<lambda>item.
     bindE (receipt_string lib history_content_limit ''content_json'' item) (\<lambda>source.
     bindE (receipt_content_of lib source) (\<lambda>c.
     bindE (receipt_string lib 32 ''finish_reason'' item) (\<lambda>native.
     bindE (receipt_string lib 32 ''provider_finish_reason'' item) (\<lambda>provider.
     bindE (receipt_finish native provider (length (receipt_calls c))) (\<lambda>_.
     bindE (require (receipt_blocks c \<noteq> 0 \<and> visible c = msg_content m \<and> receipt_calls c = msg_calls m)) (\<lambda>_.
       Inr source)))))))))"

fun incompatible :: "receipt_error \<Rightarrow> receipt_error" where
  "incompatible Invalid_receipt = Incompatible_receipt" | "incompatible e = e"

definition anthropic_history_content :: "json_lib \<Rightarrow> model_message \<Rightarrow> receipt_error + bytes" where
  "anthropic_history_content lib m = map_error incompatible (history_content lib m)"

section \<open>What a receipt says\<close>

definition receipt_call_ok :: "json_lib \<Rightarrow> tool_call \<Rightarrow> bool" where
  "receipt_call_ok lib c \<longleftrightarrow> call_id c \<noteq> [] \<and> length (call_id c) \<le> 256 \<and> receipt_name (call_name c) = Inr () \<and>
     (\<exists>v. receipt_parse lib history_input_limit 16 (arguments_json c) = Inr v \<and> is_object v)"

definition receipt_sound :: "json_lib \<Rightarrow> receipt_content \<Rightarrow> bool" where
  "receipt_sound lib c \<longleftrightarrow> length (visible c) \<le> history_text_limit \<and> distinct (map call_id (receipt_calls c)) \<and>
     list_all (receipt_call_ok lib) (receipt_calls c)"

lemma text_block_sound:
  "text_block lib b c = Inr c' \<Longrightarrow> receipt_sound lib c \<Longrightarrow> receipt_sound lib c' \<and> receipt_blocks c' = receipt_blocks c"
  by (auto simp: text_block_def receipt_sound_def result_simps split: if_splits)

lemma tool_block_sound:
  "tool_block lib b source c = Inr c' \<Longrightarrow> receipt_sound lib c \<Longrightarrow> receipt_sound lib c' \<and> receipt_blocks c' = receipt_blocks c"
  by (auto simp: tool_block_def receipt_sound_def receipt_call_ok_def receipt_opaque_def receipt_utf8_def result_simps
      split: if_splits option.splits)

lemma content_block_sound:
  "content_block lib b source c = Inr c' \<Longrightarrow> receipt_sound lib c \<Longrightarrow> receipt_sound lib c' \<and> receipt_blocks c' = receipt_blocks c"
  by (auto simp: content_block_def result_simps dest: text_block_sound tool_block_sound split: if_splits)

lemma content_loop_sound:
  "content_loop lib bs sources c = Inr c' \<Longrightarrow> receipt_sound lib c \<Longrightarrow> receipt_sound lib c' \<and> receipt_blocks c' = receipt_blocks c"
proof (induction bs arbitrary: sources c)
  case (Cons b bs)
  obtain d where "content_block lib b (case sources of [] \<Rightarrow> None | s # _ \<Rightarrow> Some s) c = Inr d"
    and rest: "content_loop lib bs (case sources of [] \<Rightarrow> [] | _ # ss \<Rightarrow> ss) d = Inr c'"
    using Cons.prems(1) by (auto simp: result_simps)
  then show ?case using Cons.IH [OF rest] content_block_sound Cons.prems(2) by metis
qed simp

lemma receipt_content_sound:
  "receipt_content_of lib source = Inr c \<Longrightarrow> receipt_sound lib c \<and> length source \<le> history_content_limit"
  by (auto simp: receipt_content_of_def receipt_parse_def result_simps receipt_sound_def
      dest!: content_loop_sound split: if_splits option.splits)

text \<open>
  What is sent back for a turn is the receipt's text, and it says what the message says: the same visible
  text, and the same calls, with distinct identities and arguments that are JSON objects.
\<close>

theorem replayed_turn_is_the_message:
  assumes "anthropic_history_content lib m = Inr source"
  shows "\<exists>c. receipt_content_of lib source = Inr c \<and> receipt_sound lib c \<and> visible c = msg_content m \<and>
    receipt_calls c = msg_calls m"
proof -
  have run: "history_content lib m = Inr source"
    using assms by (cases "history_content lib m") (simp_all add: anthropic_history_content_def map_error_def)
  obtain c where "receipt_content_of lib source = Inr c" "visible c = msg_content m" "receipt_calls c = msg_calls m"
    using run by (auto simp: history_content_def result_simps split: if_splits)
  then show ?thesis using receipt_content_sound by blast
qed

text \<open>
  The laws of the library for the receipt: what it wrote it reads back, without nesting deeper than four, and the
  texts involved are UTF-8.
\<close>

definition reads_back :: "json_lib \<Rightarrow> json \<Rightarrow> bool" where
  "reads_back lib v \<longleftrightarrow> (case dump lib v of None \<Rightarrow> True
     | Some t \<Rightarrow> snd (sax lib t) = Some v \<and> (case foldE (event_within 4) [] (fst (sax lib t)) of Inl _ \<Rightarrow> False | Inr _ \<Rightarrow> True))"

definition encodable :: "json_lib \<Rightarrow> bytes \<Rightarrow> bool" where
  "encodable lib s \<longleftrightarrow> dump lib (JStr s) \<noteq> None"

lemma receipt_reads_back:
  assumes "dump lib v = Some t" "reads_back lib v" "length t \<le> history_content_limit"
  shows "receipt_parse lib history_content_limit 4 t = Inr v"
  using assms by (auto simp: receipt_parse_def reads_back_def map_error_def split: sum.splits)

lemma receipt_finish_texts:
  "receipt_finish native provider n = Inr () \<Longrightarrow> native \<in> {''tool_calls'', ''stop'', ''length''} \<and>
     provider \<in> {''tool_use'', ''end_turn'', ''stop_sequence'', ''max_tokens''}"
  by (auto simp: receipt_finish_def split: if_splits)


text \<open>An instance: a turn of one text block.\<close>

definition demo_source :: bytes where "demo_source = ''[{\"text\":\"hi\",\"type\":\"text\"}]''"

definition demo_content :: json where "demo_content = JArr [JObj [(''text'', JStr ''hi''), (''type'', JStr ''text'')]]"

definition demo_items :: bytes where
  "demo_items = ''[{\"content_json\":\"'' @ concat (map (\<lambda>c. if c = CHR 0x22 then [CHR 0x5C, c] else [c]) demo_source) @
     ''\",\"finish_reason\":\"stop\",\"provider_finish_reason\":\"end_turn\",\"type\":\"anthropic_content\"}]''"

definition demo_history_lib :: json_lib where
  "demo_history_lib = \<lparr>sax = (\<lambda>t. ([], if t = demo_source then Some demo_content
       else if t = demo_items then Some (receipt_json demo_source ''stop'' ''end_turn'') else None)),
     dump = (\<lambda>v. case v of JStr s \<Rightarrow> Some (CHR 0x22 # s @ [CHR 0x22])
       | _ \<Rightarrow> if v = receipt_json demo_source ''stop'' ''end_turn'' then Some demo_items else None), same = (=)\<rparr>"

lemma demo_elements: "receipt_elements demo_source = Inr [''{\"text\":\"hi\",\"type\":\"text\"}'']"
  by code_simp

lemma demo_receipt_content:
  "receipt_content_of demo_history_lib demo_source = Inr \<lparr>receipt_blocks = 1, visible = ''hi'', receipt_calls = []\<rparr>"
proof -
  have "receipt_parse demo_history_lib history_content_limit 32 demo_source = Inr demo_content"
    by (simp add: receipt_parse_def demo_history_lib_def map_error_def demo_source_def history_content_limit_def)
  then show ?thesis
    by (simp add: receipt_content_of_def demo_elements demo_content_def content_block_def text_block_def receipt_fields_def
        receipt_string_def receipt_utf8_def has_member_def at_key_def member_def demo_history_lib_def history_text_limit_def)
qed

lemma demo_sources_differ: "demo_items \<noteq> demo_source"
  by (simp add: demo_items_def demo_source_def)

lemma demo_receipt: "anthropic_content_receipt demo_history_lib demo_source ''stop'' ''end_turn'' = Inr demo_items"
proof -
  have "length demo_items \<le> history_content_limit"
    by (simp add: demo_items_def demo_source_def history_content_limit_def)
  moreover have "dump demo_history_lib (receipt_json demo_source ''stop'' ''end_turn'') = Some demo_items"
    by (simp add: demo_history_lib_def receipt_json_def)
  ultimately show ?thesis
    by (simp add: anthropic_content_receipt_def demo_receipt_content receipt_finish_def)
qed

lemma demo_items_read_back: "reads_back demo_history_lib (receipt_json demo_source ''stop'' ''end_turn'')"
  using demo_sources_differ by (simp add: reads_back_def demo_history_lib_def receipt_json_def)


end
