(* ===== verification/Remote_Records.thy ===== *)
theory Remote_Records
  imports Event_Stream
begin

text \<open>
  The records that the observation of a remote run keeps (\<open>remote_connection_client.hpp\<close>,
  \<open>remote_event_checkpoint.hpp\<close>), the checks on them, and the store they are kept in. The two stores of
  \<open>remote_event_checkpoint.cpp\<close> and \<open>remote_snapshot_store.cpp\<close> repeat these helpers.
\<close>

text \<open>
  \<open>invalid_argument\<close>, \<open>DatabaseError\<close>, \<open>Conflict\<close>, \<open>NotFound\<close>, \<open>RemoteEventCursorGap\<close>, and exceptions of the JSON
  library that are not caught.
\<close>

datatype remote_error = Invalid_remote bytes | Stored_invalid | Remote_conflict bytes | Remote_missing | Cursor_gap
  | Remote_json_failure | Remote_digest_failure

definition remote_maximum :: int where "remote_maximum = 9007199254740991"

section \<open>Cursors and consumers\<close>

record remote_cursor =
  connection_id :: bytes
  server_id :: bytes
  scope_id :: bytes
  session_id :: bytes
  run_id :: bytes
  epoch :: bytes
  sequence :: int

record event_consumer =
  consumer_id :: bytes
  consumer_origin :: bytes
  initial_cursor :: remote_cursor

definition id_char :: "char \<Rightarrow> bool" where
  "id_char c \<longleftrightarrow> c \<in> set ''abcdefghijklmnopqrstuvwxyzABCDEFGHIJKLMNOPQRSTUVWXYZ0123456789_.-:''"

definition remote_identifier :: "bytes \<Rightarrow> bool" where
  "remote_identifier s \<longleftrightarrow> s \<noteq> [] \<and> length s \<le> 256 \<and> s \<noteq> ''.'' \<and> s \<noteq> ''..'' \<and> list_all id_char s"

definition same_scope :: "remote_cursor \<Rightarrow> remote_cursor \<Rightarrow> bool" where
  "same_scope a b \<longleftrightarrow> connection_id a = connection_id b \<and> server_id a = server_id b \<and> scope_id a = scope_id b \<and>
     session_id a = session_id b \<and> run_id a = run_id b"

definition cursor_valid :: "remote_cursor \<Rightarrow> bool" where
  "cursor_valid c \<longleftrightarrow> remote_identifier (connection_id c) \<and> remote_identifier (server_id c) \<and>
     remote_identifier (scope_id c) \<and> remote_identifier (session_id c) \<and> remote_identifier (run_id c) \<and>
     0 \<le> sequence c \<and> sequence c \<le> remote_maximum \<and> (epoch c \<noteq> [] \<longrightarrow> remote_identifier (epoch c)) \<and>
     (epoch c = [] \<longrightarrow> sequence c = 0)"

section \<open>Origins\<close>

text \<open>
  \<open>connection_profiles.cpp\<close>, \<open>origin\<close>: every failure is an \<open>invalid_argument\<close>, so the check is a truth value. The
  character classes are those of the C locale.
\<close>

definition ascii_alnum :: "char \<Rightarrow> bool" where
  "ascii_alnum c \<longleftrightarrow> (48 \<le> byte c \<and> byte c \<le> 57) \<or> (65 \<le> byte c \<and> byte c \<le> 90) \<or> (97 \<le> byte c \<and> byte c \<le> 122)"

definition ascii_xdigit :: "char \<Rightarrow> bool" where
  "ascii_xdigit c \<longleftrightarrow> (48 \<le> byte c \<and> byte c \<le> 57) \<or> (65 \<le> byte c \<and> byte c \<le> 70) \<or> (97 \<le> byte c \<and> byte c \<le> 102)"

definition label_ok :: "bytes \<Rightarrow> bool" where
  "label_ok l \<longleftrightarrow> l \<noteq> [] \<and> length l \<le> 63 \<and> hd l \<noteq> CHR ''-'' \<and> last l \<noteq> CHR ''-'' \<and>
     list_all (\<lambda>c. ascii_alnum c \<or> c = CHR ''-'') l"

definition host_ok :: "bytes \<Rightarrow> bool" where
  "host_ok h \<longleftrightarrow> h \<noteq> [] \<and> length h \<le> 253 \<and> hd h \<noteq> CHR ''.'' \<and> last h \<noteq> CHR ''.'' \<and> list_all label_ok (split_on (CHR ''.'') h)"

definition digits_value :: "bytes \<Rightarrow> nat" where
  "digits_value = foldl (\<lambda>n c. 10 * n + (byte c - 48)) 0"

definition port_ok :: "bytes \<Rightarrow> bytes \<Rightarrow> bool" where
  "port_ok authority p \<longleftrightarrow>
     (if p = [] then last authority \<noteq> CHR '':''
      else list_all (\<lambda>c. 48 \<le> byte c \<and> byte c \<le> 57) p \<and> 0 < digits_value p \<and> digits_value p \<le> 65535)"

text \<open>\<open>[host]:port\<close>: the bracketed text holds a colon; what follows the bracket is empty or a port.\<close>

definition bracketed_ok :: "bytes \<Rightarrow> bool" where
  "bracketed_ok a =
     (let host = takeWhile (\<lambda>c. c \<noteq> CHR '']'') (tl a); rest = dropWhile (\<lambda>c. c \<noteq> CHR '']'') (tl a) in
      rest \<noteq> [] \<and> 2 \<le> length host \<and> CHR '':'' \<in> set host \<and>
      list_all (\<lambda>c. ascii_xdigit c \<or> c = CHR '':'' \<or> c = CHR ''.'') host \<and>
      (tl rest \<noteq> [] \<longrightarrow> hd (tl rest) = CHR '':'') \<and> port_ok a (tl (tl rest)))"

definition plain_ok :: "bytes \<Rightarrow> bool" where
  "plain_ok a =
     (let host = takeWhile (\<lambda>c. c \<noteq> CHR '':'') a; rest = tl (dropWhile (\<lambda>c. c \<noteq> CHR '':'') a) in
      CHR '':'' \<notin> set rest \<and> host_ok host \<and> port_ok a rest)"

definition origin_ok :: "bytes \<Rightarrow> bool" where
  "origin_ok v =
     (let authority = takeWhile (\<lambda>c. c \<noteq> CHR ''/'') (drop 8 v); path = dropWhile (\<lambda>c. c \<noteq> CHR ''/'') (drop 8 v) in
      length v \<le> 8192 \<and> starts_with v ''https://'' \<and>
      list_all (\<lambda>c. c \<notin> set [CHR ''?'', CHR ''#'', CHR ''@'', CHR ''%'', CHR 0x5C, CHR '' '', CHR 0x09, CHR 0x0D, CHR 0x0A]) v \<and>
      authority \<noteq> [] \<and> (if hd authority = CHR ''['' then bracketed_ok authority else plain_ok authority) \<and>
      list_all (\<lambda>c. ascii_alnum c \<or> c \<in> set ''/._~!$&'' \<or> c = CHR 0x27 \<or> c \<in> set ''()*+,;=:-'') path \<and>
      last v \<noteq> CHR ''/'')"

definition consumer_valid :: "event_consumer \<Rightarrow> bool" where
  "consumer_valid c \<longleftrightarrow> cursor_valid (initial_cursor c) \<and> origin_ok (consumer_origin c) \<and> remote_identifier (consumer_id c) \<and>
     epoch (initial_cursor c) = [] \<and> sequence (initial_cursor c) = 0"

section \<open>JSON of cursors\<close>

definition cursor_json :: "remote_cursor \<Rightarrow> json" where
  "cursor_json c = JObj [(''connection_id'', JStr (connection_id c)), (''epoch'', JStr (epoch c)),
     (''run_id'', JStr (run_id c)), (''scope_id'', JStr (scope_id c)), (''sequence'', JInt (sequence c)),
     (''server_id'', JStr (server_id c)), (''session_id'', JStr (session_id c))]"

text \<open>
  Reading stored values: every failure, of the checks or of the library's accessors, ends as the same
  \<open>DatabaseError\<close>, here \<open>None\<close>.
\<close>

definition string_at :: "json \<Rightarrow> bytes \<Rightarrow> bytes option" where
  "string_at v k = (case member v k of Some (JStr s) \<Rightarrow> Some s | _ \<Rightarrow> None)"

definition int_at :: "json \<Rightarrow> bytes \<Rightarrow> int option" where
  "int_at v k = (case member v k of Some (JInt n) \<Rightarrow> Some n | _ \<Rightarrow> None)"

definition fields_count :: "nat \<Rightarrow> json \<Rightarrow> unit option" where
  "fields_count n v = (if is_object v \<and> length (members v) = n then Some () else None)"

definition ensure :: "bool \<Rightarrow> unit option" where
  "ensure b = (if b then Some () else None)"

lemma ensure_bind [simp]: "Option.bind (ensure b) f = (if b then f () else None)"
  by (simp add: ensure_def)

lemma ensure_Some [simp]: "ensure b = Some u \<longleftrightarrow> b"
  by (simp add: ensure_def)

definition cursor_of :: "json \<Rightarrow> remote_cursor option" where
  "cursor_of v =
     Option.bind (fields_count 7 v) (\<lambda>_. Option.bind (int_at v ''sequence'') (\<lambda>n.
     Option.bind (ensure (0 \<le> n \<and> n \<le> remote_maximum)) (\<lambda>_.
     Option.bind (string_at v ''connection_id'') (\<lambda>c. Option.bind (string_at v ''server_id'') (\<lambda>s.
     Option.bind (string_at v ''scope_id'') (\<lambda>sc. Option.bind (string_at v ''session_id'') (\<lambda>se.
     Option.bind (string_at v ''run_id'') (\<lambda>r. Option.bind (string_at v ''epoch'') (\<lambda>e.
     let result = \<lparr>connection_id = c, server_id = s, scope_id = sc, session_id = se, run_id = r, epoch = e, sequence = n\<rparr> in
     Option.bind (ensure (cursor_valid result)) (\<lambda>_. Some result))))))))))"

lemma member_JObj [simp]: "member (JObj ms) k = map_of ms k"
  by (simp add: member_def)

lemma cursor_roundtrip: "cursor_valid c \<Longrightarrow> cursor_of (cursor_json c) = Some c"
  by (simp add: cursor_of_def cursor_json_def fields_count_def int_at_def string_at_def Let_def)
    (simp add: cursor_valid_def)

lemma cursor_of_valid: "cursor_of v = Some c \<Longrightarrow> cursor_valid c"
  by (auto simp: cursor_of_def Let_def bind_eq_Some_conv split: if_splits)

section \<open>The store\<close>

text \<open>
  \<open>information\<close> reads the payload of a category and identity; \<open>compare_information\<close> replaces it only if it is still
  \<open>before\<close>, where \<open>None\<close> means that it must not exist.
\<close>

type_synonym payloads = "bytes \<Rightarrow> bytes option"

definition compare_information :: "bytes \<Rightarrow> bytes option \<Rightarrow> bytes \<Rightarrow> payloads \<Rightarrow> remote_error + payloads" where
  "compare_information key before after store =
     (if store key = before then Inr (store(key \<mapsto> after))
      else Inl (Remote_conflict ''Information changed before publication''))"

definition information :: "payloads \<Rightarrow> bytes \<Rightarrow> remote_error + bytes" where
  "information store key = (case store key of None \<Rightarrow> Inl Remote_missing | Some p \<Rightarrow> Inr p)"

text \<open>
  An operation reads the store once, decides, and publishes by comparing with what it read. Between the two,
  other operations may publish: so its decision is a value of its own.
\<close>

datatype 'a effect = Settled 'a | Publish bytes "bytes option" bytes 'a

fun perform :: "'a effect \<Rightarrow> payloads \<Rightarrow> remote_error + 'a \<times> payloads" where
  "perform (Settled r) store = Inr (r, store)"
| "perform (Publish key before after r) store =
     bindE (compare_information key before after store) (\<lambda>store'. Inr (r, store'))"

text \<open>
  Any number of callers share the store: a step decides on what is stored now, or publishes a decision made
  earlier, or finds that what it read has changed.
\<close>

record store_system =
  st_store :: payloads
  st_flight :: "(bytes \<times> bytes option \<times> bytes) set"

type_synonym proposals = "payloads \<Rightarrow> bytes \<Rightarrow> bytes option \<Rightarrow> bytes \<Rightarrow> bool"

inductive store_step :: "proposals \<Rightarrow> store_system \<Rightarrow> store_system \<Rightarrow> bool" for proposes :: proposals where
  Decides: "proposes (st_store s) key before after \<Longrightarrow>
    store_step proposes s (s\<lparr>st_flight := insert (key, before, after) (st_flight s)\<rparr>)"
| Publishes: "(key, before, after) \<in> st_flight s \<Longrightarrow> compare_information key before after (st_store s) = Inr store' \<Longrightarrow>
    store_step proposes s (s\<lparr>st_store := store', st_flight := st_flight s - {(key, before, after)}\<rparr>)"
| Finds_changed: "(key, before, after) \<in> st_flight s \<Longrightarrow> compare_information key before after (st_store s) = Inl e \<Longrightarrow>
    store_step proposes s (s\<lparr>st_flight := st_flight s - {(key, before, after)}\<rparr>)"

text \<open>
  What holds of every decision, whatever was stored when it was made, holds of every change of the store.
\<close>

locale optimistic_store =
  fixes proposes :: proposals and lawful :: "bytes \<Rightarrow> bytes option \<Rightarrow> bytes \<Rightarrow> bool"
  assumes decisions_lawful: "proposes store key before after \<Longrightarrow> lawful key before after"
begin

lemma flight_lawful:
  assumes "(store_step proposes)\<^sup>*\<^sup>* s t" "st_flight s = {}"
  shows "(key, before, after) \<in> st_flight t \<Longrightarrow> lawful key before after"
  using assms
proof (induction arbitrary: key before after rule: rtranclp_induct)
  case (step u v)
  from step(2) show ?case
    by (cases rule: store_step.cases) (use step decisions_lawful in auto)
qed simp

lemma changes_lawful:
  assumes "(store_step proposes)\<^sup>*\<^sup>* s t" "st_flight s = {}" "store_step proposes t u" "st_store u key \<noteq> st_store t key"
  shows "\<exists>after. st_store u key = Some after \<and> lawful key (st_store t key) after"
  using assms(3)
proof (cases rule: store_step.cases)
  case (Publishes k before after store')
  then have "st_store t k = before" "store' = (st_store t)(k \<mapsto> after)"
    by (auto simp: compare_information_def split: if_splits)
  moreover have "k = key" using Publishes calculation assms(4) by (auto split: if_splits)
  ultimately show ?thesis using flight_lawful [OF assms(1,2)] Publishes by auto
qed (use assms(4) in auto)

lemma never_deleted:
  assumes "(store_step proposes)\<^sup>*\<^sup>* s t" "st_store s key \<noteq> None"
  shows "st_store t key \<noteq> None"
  using assms
proof (induction rule: rtranclp_induct)
  case (step u v)
  from step(2) show ?case
    by (cases rule: store_step.cases) (use step in \<open>auto simp: compare_information_def split: if_splits\<close>)
qed simp

end

end
