(* ===== verification/Remote_Snapshot.thy ===== *)
theory Remote_Snapshot
  imports Remote_Records Context_Digest
begin

text \<open>
  \<open>remote_snapshot_store.cpp\<close>: the assembly of a snapshot of a remote run from its pages. Pages are appended at the
  offset reached so far, under an optimistic revision; a page sent again is recognised by its digest.
\<close>

record snapshot_record =
  rec_kind :: bytes
  rec_id :: bytes
  rec_payload :: bytes
  rec_revision :: int

record snapshot_base =
  base_consumer :: event_consumer
  base_revision :: int
  base_accepted :: remote_cursor

record snapshot_page =
  page_at :: remote_cursor
  page_snapshot :: bytes
  page_epoch :: bytes
  page_sequence :: int
  page_total :: int
  page_offset :: int
  page_records :: "snapshot_record list"
  page_complete :: bool

record snapshot_assembly =
  asm_base :: snapshot_base
  asm_snapshot :: bytes
  asm_revision :: int
  asm_total :: int
  asm_cursor :: remote_cursor
  asm_records :: "snapshot_record list"
  asm_complete :: bool
  asm_digest :: bytes

definition snapshot_limit :: nat where "snapshot_limit = 4 * 1024 * 1024"

abbreviation valid_if :: "bool \<Rightarrow> bytes \<Rightarrow> remote_error + unit" where
  "valid_if b message \<equiv> guardE b (Invalid_remote message)"

section \<open>Checks\<close>

text \<open>The texts of a refused origin are one here.\<close>

definition base_valid :: "snapshot_base \<Rightarrow> remote_error + unit" where
  "base_valid b =
     bindE (valid_if (cursor_valid (initial_cursor (base_consumer b)) \<and> cursor_valid (base_accepted b)) ''Invalid snapshot cursor'') (\<lambda>_.
     bindE (valid_if (origin_ok (consumer_origin (base_consumer b))) ''Invalid Nexus origin'') (\<lambda>_.
     valid_if (remote_identifier (consumer_id (base_consumer b)) \<and> epoch (initial_cursor (base_consumer b)) = [] \<and>
       sequence (initial_cursor (base_consumer b)) = 0 \<and> same_scope (initial_cursor (base_consumer b)) (base_accepted b) \<and>
       1 \<le> base_revision b \<and> base_revision b \<le> remote_maximum) ''Invalid snapshot base''))"

definition snapshot_kinds :: "bytes list" where
  "snapshot_kinds = [''run'', ''message'', ''operation'', ''decision'', ''worker'', ''budget'']"

definition payload_valid :: "json_lib \<Rightarrow> bytes \<Rightarrow> remote_error + unit" where
  "payload_valid lib p =
     bindE (map_error (\<lambda>_. Invalid_remote ''Invalid snapshot payload'') (foldE (event_within 24) [] (fst (sax lib p)))) (\<lambda>_.
     valid_if (\<exists>v \<in> set_option (snd (sax lib p)). is_object v) ''Invalid snapshot payload'')"

text \<open>\<open>seen\<close>: the pairs of kind and identity met so far; \<open>used\<close>: the bytes.\<close>

fun records_loop :: "json_lib \<Rightarrow> bytes \<Rightarrow> nat \<Rightarrow> int \<Rightarrow> nat \<Rightarrow> (bytes \<times> bytes) list \<Rightarrow> snapshot_record list \<Rightarrow>
    remote_error + unit" where
  "records_loop lib run limit offset used seen [] = Inr ()"
| "records_loop lib run limit offset used seen (r # rs) =
     (let used = used + length (rec_payload r) + length (rec_kind r) + length (rec_id r) in
      bindE (valid_if (used \<le> limit \<and> remote_identifier (rec_id r) \<and> rec_kind r \<in> set snapshot_kinds \<and>
          1 \<le> rec_revision r \<and> rec_revision r \<le> remote_maximum \<and> (rec_kind r, rec_id r) \<notin> set seen \<and>
          (rec_kind r = ''run'' \<longleftrightarrow> offset = 0) \<and> (rec_kind r = ''run'' \<longrightarrow> rec_id r = run)) ''Invalid snapshot record'') (\<lambda>_.
      bindE (payload_valid lib (rec_payload r)) (\<lambda>_.
        records_loop lib run limit (offset + 1) used ((rec_kind r, rec_id r) # seen) rs)))"

definition records_valid :: "json_lib \<Rightarrow> snapshot_record list \<Rightarrow> bytes \<Rightarrow> int \<Rightarrow> nat \<Rightarrow> remote_error + unit" where
  "records_valid lib rs run offset limit =
     bindE (valid_if (rs \<noteq> [] \<and> length rs \<le> 4096 \<and> 0 \<le> offset) ''Invalid snapshot records'') (\<lambda>_.
       records_loop lib run limit offset 0 [] rs)"

definition digest_form :: "bytes \<Rightarrow> bool" where
  "digest_form d \<longleftrightarrow> length d = 64 \<and> set d \<subseteq> set ''0123456789abcdef''"

definition assembly_valid :: "json_lib \<Rightarrow> snapshot_assembly \<Rightarrow> remote_error + unit" where
  "assembly_valid lib v =
     bindE (base_valid (asm_base v)) (\<lambda>_.
     bindE (valid_if (cursor_valid (asm_cursor v)) ''Invalid snapshot cursor'') (\<lambda>_.
     bindE (valid_if (remote_identifier (asm_snapshot v) \<and> epoch (asm_cursor v) \<noteq> [] \<and>
         same_scope (base_accepted (asm_base v)) (asm_cursor v) \<and> 1 \<le> asm_revision v \<and> asm_revision v \<le> remote_maximum \<and>
         1 \<le> asm_total v \<and> asm_total v \<le> 4096 \<and> int (length (asm_records v)) \<le> asm_total v \<and>
         (asm_complete v \<longleftrightarrow> int (length (asm_records v)) = asm_total v) \<and> digest_form (asm_digest v) \<and>
         (epoch (asm_cursor v) = epoch (base_accepted (asm_base v)) \<longrightarrow>
            sequence (base_accepted (asm_base v)) \<le> sequence (asm_cursor v))) ''Invalid snapshot assembly'') (\<lambda>_.
       records_valid lib (asm_records v) (run_id (asm_cursor v)) 0 snapshot_limit)))"

section \<open>JSON\<close>

definition base_json :: "snapshot_base \<Rightarrow> json" where
  "base_json b = JObj [(''accepted'', cursor_json (base_accepted b)), (''checkpoint_revision'', JInt (base_revision b)),
     (''consumer_id'', JStr (consumer_id (base_consumer b))), (''initial'', cursor_json (initial_cursor (base_consumer b))),
     (''origin'', JStr (consumer_origin (base_consumer b)))]"

definition record_json :: "snapshot_record \<Rightarrow> json" where
  "record_json r = JObj [(''id'', JStr (rec_id r)), (''kind'', JStr (rec_kind r)),
     (''payload_json'', JStr (rec_payload r)), (''revision'', JInt (rec_revision r))]"

definition records_json :: "snapshot_record list \<Rightarrow> json" where
  "records_json rs = JArr (map record_json rs)"

definition assembly_json :: "snapshot_assembly \<Rightarrow> json" where
  "assembly_json v = JObj [(''base'', base_json (asm_base v)), (''complete'', JBool (asm_complete v)),
     (''cursor'', cursor_json (asm_cursor v)), (''id'', JStr (asm_snapshot v)), (''last_page_digest'', JStr (asm_digest v)),
     (''records'', records_json (asm_records v)), (''revision'', JInt (asm_revision v)),
     (''total_records'', JInt (asm_total v)), (''version'', JInt 1)]"

definition remote_dump :: "json_lib \<Rightarrow> json \<Rightarrow> remote_error + bytes" where
  "remote_dump lib v = (case dump lib v of None \<Rightarrow> Inl Remote_json_failure | Some t \<Rightarrow> Inr t)"

definition encode_assembly :: "json_lib \<Rightarrow> snapshot_assembly \<Rightarrow> remote_error + bytes" where
  "encode_assembly lib v =
     bindE (remote_dump lib (assembly_json v)) (\<lambda>t.
     bindE (valid_if (length t \<le> snapshot_limit) ''Snapshot assembly exceeds its byte limit'') (\<lambda>_. Inr t))"

definition json_digest :: "json_lib \<Rightarrow> json \<Rightarrow> remote_error + bytes" where
  "json_digest lib v = bindE (remote_dump lib v) (\<lambda>t. map_error (\<lambda>_. Remote_digest_failure) (context_digest t))"

lemma json_digest_form:
  assumes "json_digest lib v = Inr d"
  shows "digest_form d"
proof -
  obtain source where "context_digest source = Inr d"
    using assms by (cases "remote_dump lib v") (auto simp: json_digest_def map_error_def split: sum.splits)
  then show ?thesis using context_digest_form by (simp only: digest_form_def)
qed

definition snapshot_key :: "json_lib \<Rightarrow> snapshot_base \<Rightarrow> bytes \<Rightarrow> remote_error + bytes" where
  "snapshot_key lib b snapshot = json_digest lib (JArr [JStr (consumer_id (base_consumer b)), JStr snapshot])"

definition remote_snapshot_digest :: "json_lib \<Rightarrow> snapshot_assembly \<Rightarrow> remote_error + bytes" where
  "remote_snapshot_digest lib v =
     bindE (assembly_valid lib v) (\<lambda>_.
     json_digest lib (JObj [(''base'', base_json (asm_base v)), (''complete'', JBool (asm_complete v)),
       (''cursor'', cursor_json (asm_cursor v)), (''id'', JStr (asm_snapshot v)),
       (''records'', records_json (asm_records v)), (''total_records'', JInt (asm_total v))]))"

definition bool_at :: "json \<Rightarrow> bytes \<Rightarrow> bool option" where
  "bool_at v k = (case member v k of Some (JBool b) \<Rightarrow> Some b | _ \<Rightarrow> None)"

definition base_of :: "json \<Rightarrow> snapshot_base option" where
  "base_of b =
     Option.bind (fields_count 5 b) (\<lambda>_. Option.bind (int_at b ''checkpoint_revision'') (\<lambda>n.
     Option.bind (string_at b ''consumer_id'') (\<lambda>i. Option.bind (string_at b ''origin'') (\<lambda>o'.
     Option.bind (Option.bind (member b ''initial'') cursor_of) (\<lambda>first.
     Option.bind (Option.bind (member b ''accepted'') cursor_of) (\<lambda>accepted.
     Some \<lparr>base_consumer = \<lparr>consumer_id = i, consumer_origin = o', initial_cursor = first\<rparr>, base_revision = n,
       base_accepted = accepted\<rparr>))))))"

definition record_of :: "json \<Rightarrow> snapshot_record option" where
  "record_of r =
     Option.bind (fields_count 4 r) (\<lambda>_. Option.bind (int_at r ''revision'') (\<lambda>n.
     Option.bind (string_at r ''kind'') (\<lambda>k. Option.bind (string_at r ''id'') (\<lambda>i.
     Option.bind (string_at r ''payload_json'') (\<lambda>p.
     Some \<lparr>rec_kind = k, rec_id = i, rec_payload = p, rec_revision = n\<rparr>)))))"

fun records_of :: "json list \<Rightarrow> snapshot_record list option" where
  "records_of [] = Some []"
| "records_of (v # vs) = Option.bind (record_of v) (\<lambda>r. map_option (\<lambda>rs. r # rs) (records_of vs))"

definition assembly_of :: "json \<Rightarrow> snapshot_assembly option" where
  "assembly_of j =
     Option.bind (fields_count 9 j) (\<lambda>_. Option.bind (int_at j ''version'') (\<lambda>version. Option.bind (ensure (version = 1)) (\<lambda>_.
     Option.bind (int_at j ''revision'') (\<lambda>n. Option.bind (int_at j ''total_records'') (\<lambda>total.
     Option.bind (bool_at j ''complete'') (\<lambda>complete. Option.bind (Option.bind (member j ''base'') base_of) (\<lambda>b.
     Option.bind (string_at j ''id'') (\<lambda>i. Option.bind (Option.bind (member j ''cursor'') cursor_of) (\<lambda>c.
     Option.bind (string_at j ''last_page_digest'') (\<lambda>d. Option.bind (member j ''records'') (\<lambda>rs.
     Option.bind (ensure (is_array rs \<and> length (elements rs) \<le> 4096)) (\<lambda>_.
     Option.bind (records_of (elements rs)) (\<lambda>records.
     Some \<lparr>asm_base = b, asm_snapshot = i, asm_revision = n, asm_total = total, asm_cursor = c, asm_records = records,
       asm_complete = complete, asm_digest = d\<rparr>)))))))))))))"

definition decode_assembly :: "json_lib \<Rightarrow> bytes \<Rightarrow> remote_error + snapshot_assembly" where
  "decode_assembly lib text =
     (case Option.bind (ensure (length text \<le> snapshot_limit)) (\<lambda>_. Option.bind (json_text lib text) assembly_of) of
        None \<Rightarrow> Inl Stored_invalid
      | Some v \<Rightarrow> if assembly_valid lib v = Inr () \<and> encode_assembly lib v = Inr text then Inr v else Inl Stored_invalid)"

section \<open>Operations\<close>

definition observe_consumer :: "json_lib \<Rightarrow> event_consumer \<Rightarrow> bytes \<Rightarrow> payloads \<Rightarrow> remote_error + snapshot_assembly" where
  "observe_consumer lib c snapshot store =
     (let b = \<lparr>base_consumer = c, base_revision = 1, base_accepted = initial_cursor c\<rparr> in
      bindE (base_valid b) (\<lambda>_.
      bindE (valid_if (remote_identifier snapshot) ''Invalid snapshot identity'') (\<lambda>_.
      bindE (snapshot_key lib b snapshot) (\<lambda>key. bindE (information store key) (\<lambda>text.
      bindE (decode_assembly lib text) (\<lambda>v.
      bindE (guardE (asm_snapshot v = snapshot \<and> base_consumer (asm_base v) = c) (Remote_conflict ''Snapshot consumer binding changed'')) (\<lambda>_.
        Inr v)))))))"

definition observe_snapshot :: "json_lib \<Rightarrow> snapshot_base \<Rightarrow> bytes \<Rightarrow> payloads \<Rightarrow> remote_error + snapshot_assembly" where
  "observe_snapshot lib b snapshot store =
     bindE (base_valid b) (\<lambda>_. bindE (observe_consumer lib (base_consumer b) snapshot store) (\<lambda>v.
     bindE (guardE (base_json (asm_base v) = base_json b) (Remote_conflict ''Snapshot base binding changed'')) (\<lambda>_. Inr v)))"

definition page_valid :: "json_lib \<Rightarrow> snapshot_base \<Rightarrow> int \<Rightarrow> snapshot_page \<Rightarrow> remote_error + unit" where
  "page_valid lib b expected p =
     bindE (base_valid b) (\<lambda>_. bindE (valid_if (cursor_valid (page_at p)) ''Invalid snapshot cursor'') (\<lambda>_.
     bindE (valid_if (0 \<le> expected \<and> expected < remote_maximum \<and> remote_identifier (page_snapshot p) \<and>
         page_epoch p = epoch (page_at p) \<and> page_sequence p = sequence (page_at p) \<and> epoch (page_at p) \<noteq> [] \<and>
         same_scope (base_accepted b) (page_at p) \<and> 1 \<le> page_total p \<and> page_total p \<le> 4096 \<and> 0 \<le> page_offset p \<and>
         page_offset p < page_total p \<and> length (page_records p) \<le> 256 \<and>
         page_offset p + int (length (page_records p)) \<le> page_total p \<and>
         (page_complete p \<longleftrightarrow> page_offset p + int (length (page_records p)) = page_total p)) ''Invalid snapshot assembly page'') (\<lambda>_.
       records_valid lib (page_records p) (run_id (page_at p)) (page_offset p) 65536)))"

definition page_digest :: "json_lib \<Rightarrow> snapshot_page \<Rightarrow> remote_error + bytes" where
  "page_digest lib p = json_digest lib (JObj [(''complete'', JBool (page_complete p)), (''cursor'', cursor_json (page_at p)),
     (''id'', JStr (page_snapshot p)), (''offset'', JInt (page_offset p)), (''records'', records_json (page_records p)),
     (''total'', JInt (page_total p))])"

text \<open>The assembly a page is added to, and its text in the store: a fresh one has revision 0 and no text.\<close>

definition fresh_assembly :: "snapshot_base \<Rightarrow> snapshot_page \<Rightarrow> snapshot_assembly" where
  "fresh_assembly b p = \<lparr>asm_base = b, asm_snapshot = page_snapshot p, asm_revision = 0, asm_total = page_total p,
     asm_cursor = page_at p, asm_records = [], asm_complete = False, asm_digest = []\<rparr>"

definition found_assembly :: "json_lib \<Rightarrow> snapshot_base \<Rightarrow> int \<Rightarrow> snapshot_page \<Rightarrow> payloads \<Rightarrow>
    remote_error + snapshot_assembly \<times> bytes option" where
  "found_assembly lib b expected p store =
     (case bindE (observe_snapshot lib b (page_snapshot p) store) (\<lambda>v. bindE (encode_assembly lib v) (\<lambda>t. Inr (v, Some t))) of
        Inl Remote_missing \<Rightarrow>
          if expected \<noteq> 0 then Inl (Remote_conflict ''Snapshot assembly is absent'') else Inr (fresh_assembly b p, None)
      | r \<Rightarrow> r)"

definition extended_assembly :: "snapshot_assembly \<Rightarrow> snapshot_page \<Rightarrow> bytes \<Rightarrow> snapshot_assembly" where
  "extended_assembly v p digest = v\<lparr>asm_records := asm_records v @ page_records p, asm_complete := page_complete p,
     asm_digest := digest, asm_revision := asm_revision v + 1\<rparr>"

definition stage_snapshot :: "json_lib \<Rightarrow> snapshot_base \<Rightarrow> int \<Rightarrow> snapshot_page \<Rightarrow> payloads \<Rightarrow>
    remote_error + snapshot_assembly effect" where
  "stage_snapshot lib b expected p store =
     bindE (page_valid lib b expected p) (\<lambda>_. bindE (page_digest lib p) (\<lambda>digest.
     bindE (found_assembly lib b expected p store) (\<lambda>(v, before).
     if asm_revision v = expected + 1 \<and> asm_digest v = digest then Inr (Settled v)
     else
       bindE (guardE (asm_revision v = expected \<and> \<not> asm_complete v \<and> asm_cursor v = page_at p \<and>
           asm_total v = page_total p \<and> page_offset p = int (length (asm_records v))) (Remote_conflict ''Snapshot assembly changed'')) (\<lambda>_.
       let v' = extended_assembly v p digest in
       bindE (assembly_valid lib v') (\<lambda>_. bindE (snapshot_key lib b (page_snapshot p)) (\<lambda>key.
       bindE (encode_assembly lib v') (\<lambda>after. Inr (Publish key before after v')))))))) "

section \<open>Round trip\<close>

lemma records_roundtrip: "records_of (map record_json rs) = Some rs"
  by (induction rs) (simp_all add: record_of_def record_json_def fields_count_def int_at_def string_at_def)

lemma base_roundtrip:
  assumes "base_valid b = Inr ()"
  shows "base_of (base_json b) = Some b"
proof -
  have "cursor_valid (initial_cursor (base_consumer b))" "cursor_valid (base_accepted b)"
    using assms by (auto simp: base_valid_def split: if_splits)
  then show ?thesis
    by (cases b; cases "base_consumer b")
      (simp add: base_of_def base_json_def fields_count_def int_at_def string_at_def cursor_roundtrip)
qed

lemma assembly_roundtrip:
  assumes "assembly_valid lib v = Inr ()"
  shows "assembly_of (assembly_json v) = Some v"
proof -
  have "base_valid (asm_base v) = Inr ()" "cursor_valid (asm_cursor v)" "length (asm_records v) \<le> 4096"
    using assms by (auto simp: assembly_valid_def records_valid_def result_simps split: if_splits)
  then show ?thesis
    by (cases v) (simp add: assembly_of_def assembly_json_def fields_count_def int_at_def string_at_def bool_at_def
        base_roundtrip cursor_roundtrip records_json_def records_roundtrip)
qed

text \<open>A valid assembly that was written within the limit reads back, if the library reads what it writes.\<close>

lemma assembly_reads_back:
  assumes "encode_assembly lib v = Inr t" "assembly_valid lib v = Inr ()" "json_text lib t = Some (assembly_json v)"
  shows "decode_assembly lib t = Inr v"
  using assms assembly_roundtrip [OF assms(2)]
  by (auto simp: decode_assembly_def encode_assembly_def result_simps split: if_splits)

lemma decode_assembly_text: "decode_assembly lib t = Inr v \<Longrightarrow> encode_assembly lib v = Inr t \<and> assembly_valid lib v = Inr ()"
  by (auto simp: decode_assembly_def split: option.splits if_splits)

section \<open>Publications\<close>

inductive snapshot_grows :: "snapshot_assembly \<Rightarrow> snapshot_assembly \<Rightarrow> bool" where
  "\<not> asm_complete v \<Longrightarrow> page_records p \<noteq> [] \<Longrightarrow> page_offset p = int (length (asm_records v)) \<Longrightarrow> asm_cursor v = page_at p \<Longrightarrow>
   snapshot_grows v (extended_assembly v p d)"

inductive snapshot_decides :: "json_lib \<Rightarrow> proposals" for lib where
  "stage_snapshot lib b expected p store = Inr (Publish key before after v) \<Longrightarrow> snapshot_decides lib store key before after"

definition snapshot_lawful :: "json_lib \<Rightarrow> bytes \<Rightarrow> bytes option \<Rightarrow> bytes \<Rightarrow> bool" where
  "snapshot_lawful lib key before after \<longleftrightarrow> (\<exists>v'. encode_assembly lib v' = Inr after \<and> assembly_valid lib v' = Inr () \<and>
     (case before of None \<Rightarrow> \<exists>b p. snapshot_grows (fresh_assembly b p) v'
      | Some t \<Rightarrow> \<exists>v. decode_assembly lib t = Inr v \<and> snapshot_grows v v'))"

lemma observed_text:
  "observe_snapshot lib b snapshot store = Inr v \<Longrightarrow> \<exists>t. decode_assembly lib t = Inr v"
  by (auto simp: observe_snapshot_def observe_consumer_def result_simps Let_def split: if_splits)

lemma found_assembly_cases:
  assumes "found_assembly lib b expected p store = Inr (v, before)"
  obtains "v = fresh_assembly b p" "before = None"
  | t where "before = Some t" "decode_assembly lib t = Inr v"
proof (cases "bindE (observe_snapshot lib b (page_snapshot p) store) (\<lambda>v. bindE (encode_assembly lib v) (\<lambda>t. Inr (v, Some t)))")
  case (Inl e)
  then show ?thesis using assms that(1) by (cases e) (simp_all add: found_assembly_def split: if_splits)
next
  case (Inr x)
  then obtain t where "observe_snapshot lib b (page_snapshot p) store = Inr v" "encode_assembly lib v = Inr t" "before = Some t"
    using assms by (auto simp: found_assembly_def result_simps)
  then show ?thesis using observed_text decode_assembly_text that(2) by (metis sum.inject(2))
qed

lemma stage_snapshot_lawful:
  assumes "stage_snapshot lib b expected p store = Inr (Publish key before after r)"
  shows "snapshot_lawful lib key before after"
proof -
  obtain v digest where page: "page_valid lib b expected p = Inr ()"
    and found: "found_assembly lib b expected p store = Inr (v, before)"
    and open': "\<not> asm_complete v" "page_offset p = int (length (asm_records v))" "asm_cursor v = page_at p"
    and written: "assembly_valid lib (extended_assembly v p digest) = Inr ()"
      "encode_assembly lib (extended_assembly v p digest) = Inr after"
    using assms by (auto simp: stage_snapshot_def result_simps Let_def split: if_splits)
  have "page_records p \<noteq> []" using page by (auto simp: page_valid_def records_valid_def result_simps split: if_splits)
  then have "snapshot_grows v (extended_assembly v p digest)" using open' by (auto intro: snapshot_grows.intros)
  then show ?thesis
    using written found_assembly_cases [OF found] by (fastforce simp: snapshot_lawful_def)
qed

interpretation snapshots: optimistic_store "snapshot_decides lib" "snapshot_lawful lib" for lib
  by unfold_locales (erule snapshot_decides.cases, blast intro: stage_snapshot_lawful)

text \<open>
  Every change of a stored assembly, under any interleaving of callers, appends one non-empty page at the offset
  reached; what was there stays, and a complete assembly never changes again.
\<close>

theorem snapshot_changes_append:
  assumes "(store_step (snapshot_decides lib))\<^sup>*\<^sup>* s t" "st_flight s = {}"
    and "store_step (snapshot_decides lib) t u" "st_store u key \<noteq> st_store t key" "st_store t key = Some before"
  shows "\<exists>after v v'. st_store u key = Some after \<and> decode_assembly lib before = Inr v \<and> encode_assembly lib v' = Inr after \<and>
    assembly_valid lib v' = Inr () \<and> \<not> asm_complete v \<and> strict_prefix (asm_records v) (asm_records v') \<and>
    asm_revision v' = asm_revision v + 1 \<and> asm_cursor v' = asm_cursor v \<and> asm_total v' = asm_total v"
proof -
  obtain after v v' where facts: "st_store u key = Some after" "decode_assembly lib before = Inr v" "encode_assembly lib v' = Inr after"
    "assembly_valid lib v' = Inr ()" and grows: "snapshot_grows v v'"
    using snapshots.changes_lawful [OF assms(1-4)] assms(5) by (auto simp: snapshot_lawful_def)
  from grows obtain p d where p: "v' = extended_assembly v p d" "\<not> asm_complete v" "page_records p \<noteq> []"
    by (cases rule: snapshot_grows.cases) blast
  moreover have "strict_prefix (asm_records v) (asm_records v @ page_records p)"
    using p(3) by (simp add: strict_prefix_def)
  ultimately have "\<not> asm_complete v" "strict_prefix (asm_records v) (asm_records v')" "asm_revision v' = asm_revision v + 1"
    "asm_cursor v' = asm_cursor v" "asm_total v' = asm_total v"
    by (simp_all add: extended_assembly_def)
  with facts show ?thesis by blast
qed

end
