(* ===== verification/Remote_Checkpoint.thy ===== *)
theory Remote_Checkpoint
  imports Remote_Snapshot
begin

text \<open>
  \<open>remote_event_checkpoint.cpp\<close>: how far a consumer has accepted the events of a remote run. A page of events is
  staged, then accepted; or the cursor is set by a complete snapshot. Each operation reads the stored checkpoint and
  publishes its successor only if the stored text is still the one it read.
\<close>

record remote_event =
  ev_sequence :: int
  ev_run :: bytes
  ev_kind :: bytes
  ev_json :: bytes

record observed_events =
  events_cursor :: remote_cursor
  observed_list :: "remote_event list"

record reset_receipt =
  reset_snapshot :: bytes
  reset_digest :: bytes
  reset_snapshot_revision :: int
  reset_checkpoint_revision :: int

record event_checkpoint =
  cp_consumer :: event_consumer
  cp_revision :: int
  cp_accepted :: remote_cursor
  cp_pending :: "observed_events option"
  cp_reset :: "reset_receipt option"

section \<open>Checks\<close>

definition revision_valid :: "int \<Rightarrow> remote_error + unit" where
  "revision_valid n = valid_if (1 \<le> n \<and> n < remote_maximum) ''Invalid remote event checkpoint revision''"

text \<open>The three texts that a refused consumer can have are one here.\<close>

definition consumer_check :: "event_consumer \<Rightarrow> remote_error + unit" where
  "consumer_check c = valid_if (consumer_valid c) ''Invalid remote event consumer''"

fun events_loop :: "json_lib \<Rightarrow> bytes \<Rightarrow> int \<Rightarrow> nat \<Rightarrow> remote_event list \<Rightarrow> remote_error + int" where
  "events_loop lib run last_sequence used [] = Inr last_sequence"
| "events_loop lib run last_sequence used (e # es) =
     (let used = used + (length (ev_json e) + length (ev_run e) + length (ev_kind e) + 8) in
      bindE (valid_if (used \<le> 65536 \<and> last_sequence < ev_sequence e \<and> ev_sequence e \<le> remote_maximum \<and> ev_run e = run \<and>
        remote_identifier (ev_kind e) \<and> length (ev_kind e) \<le> 128) ''Invalid remote event checkpoint event'') (\<lambda>_.
      case json_text lib (ev_json e) of
        None \<Rightarrow> Inl (Invalid_remote ''Invalid remote event checkpoint payload'')
      | Some v \<Rightarrow> bindE (valid_if (is_object v) ''Invalid remote event checkpoint event'') (\<lambda>_.
          events_loop lib run (ev_sequence e) used es)))"

definition page_check :: "json_lib \<Rightarrow> remote_cursor \<Rightarrow> observed_events \<Rightarrow> remote_error + unit" where
  "page_check lib after v =
     bindE (valid_if (cursor_valid (events_cursor v)) ''Invalid remote event checkpoint cursor'') (\<lambda>_.
     bindE (valid_if (same_scope after (events_cursor v) \<and> epoch (events_cursor v) \<noteq> [] \<and> length (observed_list v) \<le> 256)
       ''Invalid remote event checkpoint page'') (\<lambda>_.
     bindE (guardE (epoch after \<noteq> [] \<longrightarrow> epoch after = epoch (events_cursor v)) Cursor_gap) (\<lambda>_.
     bindE (events_loop lib (run_id after) (sequence after) 0 (observed_list v)) (\<lambda>n.
       valid_if (sequence (events_cursor v) = n) ''Remote checkpoint skips unobserved events''))))"

section \<open>JSON\<close>

definition event_json :: "remote_event \<Rightarrow> json" where
  "event_json e = JObj [(''json'', JStr (ev_json e)), (''kind'', JStr (ev_kind e)), (''run_id'', JStr (ev_run e)),
     (''sequence'', JInt (ev_sequence e))]"

definition page_json :: "observed_events \<Rightarrow> json" where
  "page_json v = JObj [(''cursor'', cursor_json (events_cursor v)), (''events'', JArr (map event_json (observed_list v)))]"

definition receipt_fields_json :: "reset_receipt \<Rightarrow> json" where
  "receipt_fields_json r = JObj [(''checkpoint_revision'', JInt (reset_checkpoint_revision r)), (''digest'', JStr (reset_digest r)),
     (''snapshot_id'', JStr (reset_snapshot r)), (''snapshot_revision'', JInt (reset_snapshot_revision r))]"

definition checkpoint_json :: "event_checkpoint \<Rightarrow> json" where
  "checkpoint_json c = JObj ([(''accepted'', cursor_json (cp_accepted c)), (''id'', JStr (consumer_id (cp_consumer c))),
     (''initial'', cursor_json (initial_cursor (cp_consumer c))), (''origin'', JStr (consumer_origin (cp_consumer c))),
     (''pending'', case cp_pending c of None \<Rightarrow> JNull | Some p \<Rightarrow> page_json p), (''revision'', JInt (cp_revision c))] @
     (case cp_reset c of None \<Rightarrow> [] | Some r \<Rightarrow> [(''snapshot_reset'', receipt_fields_json r)]) @ [(''version'', JInt 1)])"

definition encode_checkpoint :: "json_lib \<Rightarrow> event_checkpoint \<Rightarrow> remote_error + bytes" where
  "encode_checkpoint lib c = remote_dump lib (checkpoint_json c)"

definition event_of :: "json \<Rightarrow> remote_event option" where
  "event_of e =
     Option.bind (fields_count 4 e) (\<lambda>_. Option.bind (int_at e ''sequence'') (\<lambda>n.
     Option.bind (ensure (0 \<le> n \<and> n \<le> remote_maximum)) (\<lambda>_. Option.bind (string_at e ''run_id'') (\<lambda>r.
     Option.bind (string_at e ''kind'') (\<lambda>k. Option.bind (string_at e ''json'') (\<lambda>j.
     Some \<lparr>ev_sequence = n, ev_run = r, ev_kind = k, ev_json = j\<rparr>))))))"

fun events_of :: "json list \<Rightarrow> remote_event list option" where
  "events_of [] = Some []"
| "events_of (v # vs) = Option.bind (event_of v) (\<lambda>e. map_option (\<lambda>es. e # es) (events_of vs))"

definition pending_of :: "json_lib \<Rightarrow> remote_cursor \<Rightarrow> json \<Rightarrow> observed_events option option" where
  "pending_of lib accepted p =
     (if is_null p then Some None
      else Option.bind (fields_count 2 p) (\<lambda>_. Option.bind (member p ''events'') (\<lambda>es.
        Option.bind (ensure (is_array es \<and> length (elements es) \<le> 256)) (\<lambda>_.
        Option.bind (Option.bind (member p ''cursor'') cursor_of) (\<lambda>c. Option.bind (events_of (elements es)) (\<lambda>events.
        let v = \<lparr>events_cursor = c, observed_list = events\<rparr> in
        Option.bind (ensure (page_check lib accepted v = Inr ())) (\<lambda>_. Some (Some v))))))))"

definition receipt_of :: "int \<Rightarrow> json \<Rightarrow> reset_receipt option option" where
  "receipt_of revision v = (case member v ''snapshot_reset'' of None \<Rightarrow> Some None
     | Some r \<Rightarrow>
         Option.bind (fields_count 4 r) (\<lambda>_. Option.bind (int_at r ''snapshot_revision'') (\<lambda>sn.
         Option.bind (int_at r ''checkpoint_revision'') (\<lambda>cn. Option.bind (string_at r ''snapshot_id'') (\<lambda>i.
         Option.bind (string_at r ''digest'') (\<lambda>d.
         Option.bind (ensure (remote_identifier i \<and> digest_form d \<and> 1 \<le> sn \<and> sn \<le> remote_maximum \<and> 1 \<le> cn \<and> cn < revision)) (\<lambda>_.
         Some (Some \<lparr>reset_snapshot = i, reset_digest = d, reset_snapshot_revision = sn, reset_checkpoint_revision = cn\<rparr>))))))))"

definition checkpoint_of :: "json_lib \<Rightarrow> json \<Rightarrow> event_checkpoint option" where
  "checkpoint_of lib v =
     Option.bind (ensure (is_object v \<and> (length (members v) = 7 \<or> length (members v) = 8))) (\<lambda>_.
     Option.bind (int_at v ''version'') (\<lambda>version. Option.bind (int_at v ''revision'') (\<lambda>n.
     Option.bind (ensure (version = 1 \<and> 1 \<le> n \<and> n \<le> remote_maximum)) (\<lambda>_.
     Option.bind (string_at v ''id'') (\<lambda>i. Option.bind (string_at v ''origin'') (\<lambda>o'.
     Option.bind (Option.bind (member v ''initial'') cursor_of) (\<lambda>first.
     let consumer = \<lparr>consumer_id = i, consumer_origin = o', initial_cursor = first\<rparr> in
     Option.bind (ensure (consumer_valid consumer)) (\<lambda>_.
     Option.bind (Option.bind (member v ''accepted'') cursor_of) (\<lambda>accepted.
     Option.bind (ensure (same_scope first accepted)) (\<lambda>_.
     Option.bind (Option.bind (member v ''pending'') (pending_of lib accepted)) (\<lambda>staged.
     Option.bind (receipt_of n v) (\<lambda>receipt.
     Some \<lparr>cp_consumer = consumer, cp_revision = n, cp_accepted = accepted, cp_pending = staged, cp_reset = receipt\<rparr>))))))))))))"

definition decode_checkpoint :: "json_lib \<Rightarrow> bytes \<Rightarrow> remote_error + event_checkpoint" where
  "decode_checkpoint lib text =
     (case Option.bind (json_text lib text) (checkpoint_of lib) of None \<Rightarrow> Inl Stored_invalid
      | Some c \<Rightarrow> if encode_checkpoint lib c = Inr text then Inr c else Inl Stored_invalid)"

section \<open>Operations\<close>

definition matching :: "event_checkpoint \<Rightarrow> event_consumer \<Rightarrow> remote_error + unit" where
  "matching c consumer = guardE (cp_consumer c = consumer) (Remote_conflict ''Remote event consumer binding changed'')"

definition advance :: "event_checkpoint \<Rightarrow> remote_error + event_checkpoint" where
  "advance c = bindE (guardE (cp_revision c < remote_maximum) (Remote_conflict ''Remote event checkpoint revision exhausted''))
     (\<lambda>_. Inr (c\<lparr>cp_revision := cp_revision c + 1\<rparr>))"

definition observe_checkpoint :: "json_lib \<Rightarrow> event_consumer \<Rightarrow> payloads \<Rightarrow> remote_error + event_checkpoint" where
  "observe_checkpoint lib consumer store =
     bindE (consumer_check consumer) (\<lambda>_. bindE (information store (consumer_id consumer)) (\<lambda>text.
     bindE (decode_checkpoint lib text) (\<lambda>c. bindE (matching c consumer) (\<lambda>_. Inr c))))"

definition fresh_checkpoint :: "event_consumer \<Rightarrow> event_checkpoint" where
  "fresh_checkpoint consumer = \<lparr>cp_consumer = consumer, cp_revision = 1, cp_accepted = initial_cursor consumer,
     cp_pending = None, cp_reset = None\<rparr>"

text \<open>\<open>open\<close> first publishes a fresh checkpoint; if one exists already, it is observed.\<close>

definition open_checkpoint :: "json_lib \<Rightarrow> event_consumer \<Rightarrow> remote_error + event_checkpoint effect" where
  "open_checkpoint lib consumer =
     bindE (consumer_check consumer) (\<lambda>_. bindE (encode_checkpoint lib (fresh_checkpoint consumer)) (\<lambda>after.
       Inr (Publish (consumer_id consumer) None after (fresh_checkpoint consumer))))"

definition open_checkpoint_now :: "json_lib \<Rightarrow> event_consumer \<Rightarrow> payloads \<Rightarrow> remote_error + event_checkpoint \<times> payloads" where
  "open_checkpoint_now lib consumer store =
     bindE (open_checkpoint lib consumer) (\<lambda>e. case perform e store of
        Inl (Remote_conflict _) \<Rightarrow> bindE (observe_checkpoint lib consumer store) (\<lambda>c. Inr (c, store))
      | r \<Rightarrow> r)"

definition publish_checkpoint :: "json_lib \<Rightarrow> event_checkpoint \<Rightarrow> event_checkpoint \<Rightarrow> remote_error + event_checkpoint effect" where
  "publish_checkpoint lib c changed =
     bindE (encode_checkpoint lib c) (\<lambda>before. bindE (advance changed) (\<lambda>c'.
     bindE (encode_checkpoint lib c') (\<lambda>after.
       Inr (Publish (consumer_id (cp_consumer c)) (Some before) after c'))))"

definition stage_events :: "json_lib \<Rightarrow> event_consumer \<Rightarrow> int \<Rightarrow> observed_events \<Rightarrow> payloads \<Rightarrow>
    remote_error + event_checkpoint effect" where
  "stage_events lib consumer expected observed store =
     bindE (revision_valid expected) (\<lambda>_. bindE (observe_checkpoint lib consumer store) (\<lambda>c.
     bindE (page_check lib (cp_accepted c) observed) (\<lambda>_.
     case cp_pending c of
       Some p \<Rightarrow> if cp_revision c = expected + 1 \<and> page_json p = page_json observed then Inr (Settled c)
         else Inl (Remote_conflict ''Remote event page already staged'')
     | None \<Rightarrow>
         bindE (guardE (cp_revision c = expected) (Remote_conflict ''Remote event checkpoint revision changed'')) (\<lambda>_.
         if events_cursor observed = cp_accepted c \<and> observed_list observed = [] then Inr (Settled c)
         else publish_checkpoint lib c (c\<lparr>cp_pending := Some observed\<rparr>)))))"

definition accept_events :: "json_lib \<Rightarrow> event_consumer \<Rightarrow> int \<Rightarrow> remote_cursor \<Rightarrow> payloads \<Rightarrow>
    remote_error + event_checkpoint effect" where
  "accept_events lib consumer expected accepted store =
     bindE (revision_valid expected) (\<lambda>_.
     bindE (valid_if (cursor_valid accepted) ''Invalid remote event checkpoint cursor'') (\<lambda>_.
     bindE (observe_checkpoint lib consumer store) (\<lambda>c.
     case cp_pending c of
       None \<Rightarrow> if cp_revision c = expected + 1 \<and> cp_accepted c = accepted then Inr (Settled c)
         else Inl (Remote_conflict ''No staged remote event page'')
     | Some p \<Rightarrow>
         bindE (guardE (cp_revision c = expected \<and> events_cursor p = accepted)
           (Remote_conflict ''Remote event acknowledgement differs from staged page'')) (\<lambda>_.
         publish_checkpoint lib c (c\<lparr>cp_accepted := accepted, cp_pending := None\<rparr>)))))"

definition reset_checkpoint :: "json_lib \<Rightarrow> snapshot_base \<Rightarrow> bytes \<Rightarrow> int \<Rightarrow> bytes \<Rightarrow> payloads \<Rightarrow> payloads \<Rightarrow>
    remote_error + event_checkpoint effect" where
  "reset_checkpoint lib b snapshot expected digest snapshots store =
     bindE (revision_valid (base_revision b)) (\<lambda>_. bindE (revision_valid expected) (\<lambda>_.
     bindE (valid_if (digest_form digest) ''Invalid snapshot acknowledgement digest'') (\<lambda>_.
     bindE (observe_snapshot lib b snapshot snapshots) (\<lambda>assembly.
     let refused = Remote_conflict ''Snapshot acknowledgement does not name a complete stored assembly'' in
     bindE (guardE (asm_complete assembly \<and> asm_revision assembly = expected) refused) (\<lambda>_.
     bindE (remote_snapshot_digest lib assembly) (\<lambda>found. bindE (guardE (found = digest) refused) (\<lambda>_.
     bindE (observe_checkpoint lib (base_consumer b) store) (\<lambda>c.
     let receipt = \<lparr>reset_snapshot = snapshot, reset_digest = digest, reset_snapshot_revision = expected,
           reset_checkpoint_revision = base_revision b\<rparr> in
     if cp_revision c = base_revision b + 1 \<and> cp_pending c = None \<and> cp_accepted c = asm_cursor assembly \<and>
        cp_reset c = Some receipt then Inr (Settled c)
     else
       bindE (guardE (cp_revision c = base_revision b \<and> cp_accepted c = base_accepted b \<and> cp_pending c = None)
         (Remote_conflict ''Snapshot reset baseline changed or an event page is pending'')) (\<lambda>_.
       publish_checkpoint lib c (c\<lparr>cp_accepted := asm_cursor assembly, cp_reset := Some receipt\<rparr>))))))))))"

section \<open>Round trip\<close>

definition receipt_ok :: "int \<Rightarrow> reset_receipt \<Rightarrow> bool" where
  "receipt_ok n r \<longleftrightarrow> remote_identifier (reset_snapshot r) \<and> digest_form (reset_digest r) \<and> 1 \<le> reset_snapshot_revision r \<and>
     reset_snapshot_revision r \<le> remote_maximum \<and> 1 \<le> reset_checkpoint_revision r \<and> reset_checkpoint_revision r < n"

definition checkpoint_ok :: "json_lib \<Rightarrow> event_checkpoint \<Rightarrow> bool" where
  "checkpoint_ok lib c \<longleftrightarrow> consumer_valid (cp_consumer c) \<and> 1 \<le> cp_revision c \<and> cp_revision c \<le> remote_maximum \<and>
     cursor_valid (cp_accepted c) \<and> same_scope (initial_cursor (cp_consumer c)) (cp_accepted c) \<and>
     (\<forall>p \<in> set_option (cp_pending c). page_check lib (cp_accepted c) p = Inr ()) \<and>
     (\<forall>r \<in> set_option (cp_reset c). receipt_ok (cp_revision c) r)"

lemma events_loop_facts:
  "events_loop lib run n used es = Inr m \<Longrightarrow> n \<le> m \<and> sorted_wrt (<) (map ev_sequence es) \<and>
     (\<forall>e \<in> set es. n < ev_sequence e \<and> ev_sequence e \<le> m \<and> ev_sequence e \<le> remote_maximum \<and> ev_run e = run)"
proof (induction es arbitrary: n used)
  case (Cons e es)
  then have "n < ev_sequence e" "ev_sequence e \<le> remote_maximum" "ev_run e = run"
    and "\<exists>used. events_loop lib run (ev_sequence e) used es = Inr m"
    by (auto simp: Let_def split: if_splits option.splits)
  then show ?case using Cons.IH by fastforce
qed simp

lemma events_roundtrip:
  "\<forall>e \<in> set es. 0 \<le> ev_sequence e \<and> ev_sequence e \<le> remote_maximum \<Longrightarrow> events_of (map event_json es) = Some es"
  by (induction es) (simp_all add: event_of_def event_json_def fields_count_def int_at_def string_at_def)

lemma page_check_facts:
  assumes "page_check lib after p = Inr ()"
  shows "cursor_valid (events_cursor p)" "same_scope after (events_cursor p)" "length (observed_list p) \<le> 256"
    "events_loop lib (run_id after) (sequence after) 0 (observed_list p) = Inr (sequence (events_cursor p))"
    "epoch after = [] \<or> epoch after = epoch (events_cursor p)"
  using assms by (auto simp: page_check_def result_simps split: if_splits)

lemma pending_roundtrip:
  assumes "page_check lib after p = Inr ()" "cursor_valid after"
  shows "pending_of lib after (page_json p) = Some (Some p)"
proof -
  note facts = page_check_facts [OF assms(1)]
  have "0 \<le> sequence after" using assms(2) by (simp add: cursor_valid_def)
  then have "\<forall>e \<in> set (observed_list p). 0 \<le> ev_sequence e \<and> ev_sequence e \<le> remote_maximum"
    using events_loop_facts [OF facts(4)] by fastforce
  then show ?thesis
    using assms(1) facts by (cases p) (simp add: pending_of_def page_json_def fields_count_def cursor_roundtrip events_roundtrip Let_def)
qed

lemma receipt_roundtrip:
  "receipt_ok n r \<Longrightarrow> receipt_of n (JObj (ms @ [(''snapshot_reset'', receipt_fields_json r)] @ ns)) = Some (Some r)"
  if "map_of ms ''snapshot_reset'' = None"
  using that by (simp add: receipt_of_def receipt_fields_json_def receipt_ok_def fields_count_def int_at_def string_at_def
      map_add_def)

lemma checkpoint_roundtrip:
  assumes "checkpoint_ok lib c"
  shows "checkpoint_of lib (checkpoint_json c) = Some c"
proof -
  obtain consumer n accepted staged receipt where c: "c = \<lparr>cp_consumer = consumer, cp_revision = n, cp_accepted = accepted,
      cp_pending = staged, cp_reset = receipt\<rparr>" by (cases c)
  obtain i o' first where consumer: "consumer = \<lparr>consumer_id = i, consumer_origin = o', initial_cursor = first\<rparr>"
    by (cases consumer)
  have first: "cursor_of (cursor_json first) = Some first" "cursor_of (cursor_json accepted) = Some accepted"
    using assms by (simp_all add: c consumer checkpoint_ok_def consumer_valid_def cursor_roundtrip)
  have staged: "pending_of lib accepted (case staged of None \<Rightarrow> JNull | Some p \<Rightarrow> page_json p) = Some staged"
    using assms by (auto simp: c checkpoint_ok_def pending_roundtrip split: option.splits) (simp add: pending_of_def)
  have receipt: "receipt_of n (checkpoint_json c) = Some receipt"
    using assms receipt_roundtrip [of "take 6 (members (checkpoint_json c))" n]
    by (cases receipt) (auto simp: c checkpoint_ok_def checkpoint_json_def receipt_of_def)
  show ?thesis
    using assms first staged receipt
    by (cases receipt) (simp_all add: c consumer checkpoint_of_def checkpoint_json_def int_at_def string_at_def
        checkpoint_ok_def Let_def)
qed

lemma decode_checkpoint_text: "decode_checkpoint lib t = Inr c \<Longrightarrow> encode_checkpoint lib c = Inr t"
  by (auto simp: decode_checkpoint_def split: option.splits if_splits)

lemma encode_checkpoint_text: "encode_checkpoint lib c = Inr t \<longleftrightarrow> dump lib (checkpoint_json c) = Some t"
  by (simp add: encode_checkpoint_def remote_dump_def split: option.splits)

lemma pending_of_checked: "pending_of lib a v = Some (Some p) \<Longrightarrow> page_check lib a p = Inr ()"
  by (auto simp: pending_of_def bind_eq_Some_conv Let_def split: if_splits)

lemma receipt_of_checked: "receipt_of n v = Some (Some r) \<Longrightarrow> receipt_ok n r"
  by (auto simp: receipt_of_def receipt_ok_def bind_eq_Some_conv split: if_splits option.splits)

lemma checkpoint_of_ok: "checkpoint_of lib v = Some c \<Longrightarrow> checkpoint_ok lib c"
  by (auto simp: checkpoint_of_def checkpoint_ok_def bind_eq_Some_conv Let_def
      dest: cursor_of_valid pending_of_checked receipt_of_checked split: if_splits)

lemma decode_checkpoint_ok: "decode_checkpoint lib t = Inr c \<Longrightarrow> checkpoint_ok lib c"
  by (auto simp: decode_checkpoint_def bind_eq_Some_conv intro: checkpoint_of_ok split: option.splits if_splits)

text \<open>What is written for a sound checkpoint reads back as that checkpoint, if the library reads what it writes.\<close>

lemma checkpoint_reads_back:
  assumes "encode_checkpoint lib c = Inr t" "checkpoint_ok lib c" "json_text lib t = Some (checkpoint_json c)"
  shows "decode_checkpoint lib t = Inr c"
  using assms checkpoint_roundtrip by (simp add: decode_checkpoint_def)

section \<open>Publications\<close>

definition resets_to :: "json_lib \<Rightarrow> event_checkpoint \<Rightarrow> snapshot_assembly \<Rightarrow> reset_receipt \<Rightarrow> bool" where
  "resets_to lib c a r \<longleftrightarrow> assembly_valid lib a = Inr () \<and> asm_complete a \<and> base_consumer (asm_base a) = cp_consumer c \<and>
     base_accepted (asm_base a) = cp_accepted c \<and> remote_snapshot_digest lib a = Inr (reset_digest r) \<and>
     reset_snapshot r = asm_snapshot a \<and> reset_snapshot_revision r = asm_revision a \<and> reset_checkpoint_revision r = cp_revision c"

inductive checkpoint_move :: "json_lib \<Rightarrow> event_checkpoint \<Rightarrow> event_checkpoint \<Rightarrow> bool" for lib where
  Staged: "cp_pending c = None \<Longrightarrow> page_check lib (cp_accepted c) p = Inr () \<Longrightarrow>
    checkpoint_move lib c (c\<lparr>cp_pending := Some p, cp_revision := cp_revision c + 1\<rparr>)"
| Accepted: "cp_pending c = Some p \<Longrightarrow>
    checkpoint_move lib c (c\<lparr>cp_accepted := events_cursor p, cp_pending := None, cp_revision := cp_revision c + 1\<rparr>)"
| Reset: "cp_pending c = None \<Longrightarrow> resets_to lib c a r \<Longrightarrow>
    checkpoint_move lib c (c\<lparr>cp_accepted := asm_cursor a, cp_reset := Some r, cp_revision := cp_revision c + 1\<rparr>)"

text \<open>A decision to publish, by any of the operations; \<open>reset\<close> reads the snapshots as they are at that time.\<close>

inductive checkpoint_decides :: "json_lib \<Rightarrow> proposals" for lib where
  "open_checkpoint lib consumer = Inr (Publish key before after r) \<Longrightarrow> checkpoint_decides lib store key before after"
| "stage_events lib consumer expected observed store = Inr (Publish key before after r) \<Longrightarrow>
    checkpoint_decides lib store key before after"
| "accept_events lib consumer expected accepted store = Inr (Publish key before after r) \<Longrightarrow>
    checkpoint_decides lib store key before after"
| "reset_checkpoint lib b snapshot expected digest snapshots store = Inr (Publish key before after r) \<Longrightarrow>
    checkpoint_decides lib store key before after"

definition checkpoint_lawful :: "json_lib \<Rightarrow> bytes \<Rightarrow> bytes option \<Rightarrow> bytes \<Rightarrow> bool" where
  "checkpoint_lawful lib key before after \<longleftrightarrow> (\<exists>c'. encode_checkpoint lib c' = Inr after \<and> checkpoint_ok lib c' \<and>
     consumer_id (cp_consumer c') = key \<and>
     (case before of None \<Rightarrow> c' = fresh_checkpoint (cp_consumer c')
      | Some t \<Rightarrow> \<exists>c. decode_checkpoint lib t = Inr c \<and> checkpoint_move lib c c'))"

lemma observed_checkpoint:
  "observe_checkpoint lib consumer store = Inr c \<Longrightarrow> cp_consumer c = consumer \<and>
     (\<exists>t. store (consumer_id consumer) = Some t \<and> decode_checkpoint lib t = Inr c)"
  by (auto simp: observe_checkpoint_def information_def matching_def result_simps split: option.splits if_splits)

lemma same_scope_trans: "same_scope a b \<Longrightarrow> same_scope b c \<Longrightarrow> same_scope a c"
  by (simp add: same_scope_def)

lemma assembly_facts:
  assumes "assembly_valid lib a = Inr ()"
  shows "cursor_valid (asm_cursor a)" "remote_identifier (asm_snapshot a)" "epoch (asm_cursor a) \<noteq> []"
    "same_scope (base_accepted (asm_base a)) (asm_cursor a)" "1 \<le> asm_revision a" "asm_revision a \<le> remote_maximum"
    "epoch (asm_cursor a) = epoch (base_accepted (asm_base a)) \<longrightarrow>
       sequence (base_accepted (asm_base a)) \<le> sequence (asm_cursor a)"
  using assms by (auto simp: assembly_valid_def result_simps split: if_splits)

lemma move_keeps_ok:
  assumes "checkpoint_move lib c c'" "checkpoint_ok lib c" "cp_revision c < remote_maximum"
  shows "checkpoint_ok lib c'"
  using assms
proof (cases rule: checkpoint_move.cases)
  case (Staged p)
  then show ?thesis using assms(2,3) by (auto simp: checkpoint_ok_def receipt_ok_def)
next
  case (Accepted p)
  then have "page_check lib (cp_accepted c) p = Inr ()" using assms(2) by (simp add: checkpoint_ok_def)
  then show ?thesis
    using Accepted assms(2,3) page_check_facts [of lib "cp_accepted c" p]
    by (auto simp: checkpoint_ok_def receipt_ok_def dest: same_scope_trans)
next
  case (Reset a r)
  have "digest_form (reset_digest r)"
    using Reset(3) json_digest_form by (auto simp: resets_to_def remote_snapshot_digest_def result_simps)
  then show ?thesis
    using Reset assms(2,3) assembly_facts [of lib a]
    by (auto simp: checkpoint_ok_def receipt_ok_def resets_to_def dest: same_scope_trans)
qed

lemma published_lawful:
  assumes "publish_checkpoint lib c changed = Inr (Publish key before after r)"
    and "decode_checkpoint lib t = Inr c" "cp_revision changed = cp_revision c"
    and "checkpoint_move lib c (changed\<lparr>cp_revision := cp_revision c + 1\<rparr>)" "cp_consumer changed = cp_consumer c"
  shows "checkpoint_lawful lib key before after"
proof -
  have facts: "encode_checkpoint lib c = Inr (the before)" "before \<noteq> None" "cp_revision c < remote_maximum"
    "encode_checkpoint lib (changed\<lparr>cp_revision := cp_revision c + 1\<rparr>) = Inr after" "key = consumer_id (cp_consumer c)"
    using assms(1,3) by (auto simp: publish_checkpoint_def advance_def result_simps split: if_splits)
  then have "before = Some t" using decode_checkpoint_text [OF assms(2)] by auto
  moreover have "checkpoint_ok lib (changed\<lparr>cp_revision := cp_revision c + 1\<rparr>)"
    using move_keeps_ok [OF assms(4) decode_checkpoint_ok [OF assms(2)] facts(3)] .
  ultimately show ?thesis using facts assms(2,4,5) by (auto simp: checkpoint_lawful_def)
qed

lemma open_lawful:
  assumes "open_checkpoint lib consumer = Inr (Publish key before after r)"
  shows "checkpoint_lawful lib key before after"
proof -
  have facts: "consumer_valid consumer" "encode_checkpoint lib (fresh_checkpoint consumer) = Inr after" "before = None"
    "key = consumer_id consumer"
    using assms by (auto simp: open_checkpoint_def consumer_check_def result_simps split: if_splits)
  moreover have "checkpoint_ok lib (fresh_checkpoint consumer)"
    using facts(1) by (simp add: checkpoint_ok_def fresh_checkpoint_def consumer_valid_def same_scope_def remote_maximum_def)
  ultimately show ?thesis
    by (auto simp: checkpoint_lawful_def fresh_checkpoint_def intro!: exI [of _ "fresh_checkpoint consumer"])
qed

lemma stage_lawful:
  assumes "stage_events lib consumer expected observed store = Inr (Publish key before after r)"
  shows "checkpoint_lawful lib key before after"
proof -
  obtain c where c: "observe_checkpoint lib consumer store = Inr c" "page_check lib (cp_accepted c) observed = Inr ()"
      "cp_pending c = None"
    and run: "publish_checkpoint lib c (c\<lparr>cp_pending := Some observed\<rparr>) = Inr (Publish key before after r)"
    using assms by (auto simp: stage_events_def result_simps split: if_splits option.splits)
  obtain t where "decode_checkpoint lib t = Inr c" using observed_checkpoint [OF c(1)] by blast
  from published_lawful [OF run this] Staged [OF c(3,2)] show ?thesis by simp
qed

lemma accept_lawful:
  assumes "accept_events lib consumer expected accepted store = Inr (Publish key before after r)"
  shows "checkpoint_lawful lib key before after"
proof -
  obtain c p where c: "observe_checkpoint lib consumer store = Inr c" "cp_pending c = Some p" "events_cursor p = accepted"
    and run: "publish_checkpoint lib c (c\<lparr>cp_accepted := accepted, cp_pending := None\<rparr>) = Inr (Publish key before after r)"
    using assms by (auto simp: accept_events_def result_simps split: if_splits option.splits)
  obtain t where "decode_checkpoint lib t = Inr c" using observed_checkpoint [OF c(1)] by blast
  from published_lawful [OF run this] Accepted [OF c(2)] c(3) show ?thesis by simp
qed

lemma cursor_json_inject [simp]: "cursor_json a = cursor_json b \<longleftrightarrow> a = b"
  by (cases a; cases b) (auto simp: cursor_json_def)

lemma observed_snapshot:
  "observe_snapshot lib b snapshot store = Inr a \<Longrightarrow> assembly_valid lib a = Inr () \<and> asm_snapshot a = snapshot \<and>
     base_consumer (asm_base a) = base_consumer b \<and> base_accepted (asm_base a) = base_accepted b"
  by (auto simp: observe_snapshot_def observe_consumer_def decode_assembly_def base_json_def result_simps Let_def
      split: option.splits if_splits)

lemma reset_lawful:
  assumes "reset_checkpoint lib b snapshot expected digest snapshots store = Inr (Publish key before after r)"
  shows "checkpoint_lawful lib key before after"
proof -
  let ?receipt = "\<lparr>reset_snapshot = snapshot, reset_digest = digest, reset_snapshot_revision = expected,
    reset_checkpoint_revision = base_revision b\<rparr>"
  obtain a c where a: "observe_snapshot lib b snapshot snapshots = Inr a" "asm_complete a" "asm_revision a = expected"
      "remote_snapshot_digest lib a = Inr digest"
    and c: "observe_checkpoint lib (base_consumer b) store = Inr c" "cp_revision c = base_revision b"
      "cp_accepted c = base_accepted b" "cp_pending c = None"
    and run: "publish_checkpoint lib c (c\<lparr>cp_accepted := asm_cursor a, cp_reset := Some ?receipt\<rparr>) =
      Inr (Publish key before after r)"
    using assms by (auto simp: reset_checkpoint_def result_simps Let_def split: if_splits)
  obtain t where t: "decode_checkpoint lib t = Inr c" using observed_checkpoint [OF c(1)] by blast
  have "resets_to lib c a ?receipt"
    using a c observed_snapshot [OF a(1)] observed_checkpoint [OF c(1)] by (simp add: resets_to_def)
  from published_lawful [OF run t] Reset [OF c(4) this] show ?thesis by simp
qed

interpretation checkpoints: optimistic_store "checkpoint_decides lib" "checkpoint_lawful lib" for lib
  by unfold_locales
    (erule checkpoint_decides.cases; blast intro: open_lawful stage_lawful accept_lawful reset_lawful)

text \<open>A move never takes the accepted position back within an epoch, and only a snapshot changes the epoch.\<close>

lemma move_goes_forward:
  assumes "checkpoint_move lib c c'" "checkpoint_ok lib c"
  shows "cp_revision c' = cp_revision c + 1 \<and> cp_consumer c' = cp_consumer c \<and>
    (epoch (cp_accepted c') = epoch (cp_accepted c) \<longrightarrow> sequence (cp_accepted c) \<le> sequence (cp_accepted c')) \<and>
    (epoch (cp_accepted c') \<noteq> epoch (cp_accepted c) \<longrightarrow> epoch (cp_accepted c) = [] \<or> cp_reset c' \<noteq> cp_reset c)"
  using assms(1)
proof (cases rule: checkpoint_move.cases)
  case (Accepted p)
  then have p: "page_check lib (cp_accepted c) p = Inr ()" using assms(2) by (simp add: checkpoint_ok_def)
  then show ?thesis
    using Accepted page_check_facts(5) [OF p] events_loop_facts [OF page_check_facts(4) [OF p]] by auto
next
  case (Reset a r)
  have "cp_reset c \<noteq> Some r"
    using Reset(3) assms(2) by (auto simp: resets_to_def checkpoint_ok_def receipt_ok_def)
  then show ?thesis using Reset assembly_facts(7) [of lib a] by (auto simp: resets_to_def)
qed auto

text \<open>
  C8. However many callers interleave their reads and publications, every change of a stored checkpoint is one
  move of its state machine, from the checkpoint that was stored: a checked page is staged, or the staged page
  is accepted, or a complete snapshot of the same position resets it. No event is skipped or accepted twice.
\<close>

theorem checkpoint_changes_are_moves:
  assumes "(store_step (checkpoint_decides lib))\<^sup>*\<^sup>* s t" "st_flight s = {}"
    and "store_step (checkpoint_decides lib) t u" "st_store u key \<noteq> st_store t key"
  shows "\<exists>after c'. st_store u key = Some after \<and> encode_checkpoint lib c' = Inr after \<and> checkpoint_ok lib c' \<and>
    (case st_store t key of None \<Rightarrow> c' = fresh_checkpoint (cp_consumer c')
     | Some before \<Rightarrow> \<exists>c. decode_checkpoint lib before = Inr c \<and> checkpoint_move lib c c')"
  using checkpoints.changes_lawful [OF assms] by (auto simp: checkpoint_lawful_def)

text \<open>An instance: a stored checkpoint, and a caller that stages a page and publishes it.\<close>

definition demo_cursor :: "bytes \<Rightarrow> remote_cursor" where
  "demo_cursor e = \<lparr>connection_id = ''k'', server_id = ''s'', scope_id = ''w'', session_id = ''e'', run_id = ''r'', epoch = e, sequence = 0\<rparr>"

definition demo_consumer :: event_consumer where
  "demo_consumer = \<lparr>consumer_id = ''c'', consumer_origin = ''https://a.b'', initial_cursor = demo_cursor []\<rparr>"

definition demo_page :: observed_events where
  "demo_page = \<lparr>events_cursor = demo_cursor ''e1'', observed_list = []\<rparr>"

definition demo_staged :: event_checkpoint where
  "demo_staged = (fresh_checkpoint demo_consumer)\<lparr>cp_pending := Some demo_page, cp_revision := 2\<rparr>"

definition demo_cursor_text :: "bytes \<Rightarrow> bytes" where
  "demo_cursor_text e = ''{\"connection_id\":\"k\",\"epoch\":\"'' @ e @
     ''\",\"run_id\":\"r\",\"scope_id\":\"w\",\"sequence\":0,\"server_id\":\"s\",\"session_id\":\"e\"}''"

definition demo_text :: "bytes \<Rightarrow> bytes \<Rightarrow> bytes" where
  "demo_text staged n = ''{\"accepted\":'' @ demo_cursor_text [] @ '',\"id\":\"c\",\"initial\":'' @ demo_cursor_text [] @
     '',\"origin\":\"https://a.b\",\"pending\":'' @ staged @ '',\"revision\":'' @ n @ '',\"version\":1}''"

definition demo_fresh_text :: bytes where "demo_fresh_text = demo_text ''null'' ''1''"

definition demo_staged_text :: bytes where
  "demo_staged_text = demo_text (''{\"cursor\":'' @ demo_cursor_text ''e1'' @ '',\"events\":[]}'') ''2''"

definition demo_lib :: json_lib where
  "demo_lib = \<lparr>sax = (\<lambda>t. ([], if t = demo_fresh_text then Some (checkpoint_json (fresh_checkpoint demo_consumer))
       else if t = demo_staged_text then Some (checkpoint_json demo_staged) else None)),
     dump = (\<lambda>v. if v = checkpoint_json (fresh_checkpoint demo_consumer) then Some demo_fresh_text
       else if v = checkpoint_json demo_staged then Some demo_staged_text else None), same = (=)\<rparr>"

definition demo_store :: payloads where "demo_store = [''c'' \<mapsto> demo_fresh_text]"

lemma demo_cursor_valid: "cursor_valid (demo_cursor [])" "cursor_valid (demo_cursor ''e1'')"
  by (simp_all add: cursor_valid_def demo_cursor_def remote_identifier_def id_char_def remote_maximum_def)

lemma demo_consumer_valid: "consumer_valid demo_consumer"
proof -
  have "origin_ok ''https://a.b''"
    by (simp add: origin_ok_def Let_def plain_ok_def host_ok_def label_ok_def port_ok_def ascii_alnum_def)
  then show ?thesis
    using demo_cursor_valid(1) by (simp add: consumer_valid_def demo_consumer_def demo_cursor_def remote_identifier_def id_char_def)
qed

lemma demo_fresh_ok: "checkpoint_ok lib (fresh_checkpoint demo_consumer)"
  using demo_consumer_valid
  by (simp add: checkpoint_ok_def fresh_checkpoint_def consumer_valid_def same_scope_def remote_maximum_def)

lemma demo_differ: "checkpoint_json demo_staged \<noteq> checkpoint_json (fresh_checkpoint demo_consumer)"
  by (simp add: checkpoint_json_def demo_staged_def fresh_checkpoint_def)

lemma demo_encode:
  "encode_checkpoint demo_lib (fresh_checkpoint demo_consumer) = Inr demo_fresh_text"
  "encode_checkpoint demo_lib demo_staged = Inr demo_staged_text"
  using demo_differ by (simp_all add: encode_checkpoint_text demo_lib_def)

lemma demo_observed: "observe_checkpoint demo_lib demo_consumer demo_store = Inr (fresh_checkpoint demo_consumer)"
proof -
  have "decode_checkpoint demo_lib demo_fresh_text = Inr (fresh_checkpoint demo_consumer)"
    by (rule checkpoint_reads_back [OF demo_encode(1) demo_fresh_ok]) (simp add: json_text_def demo_lib_def)
  moreover have "consumer_id demo_consumer = ''c''" by (simp add: demo_consumer_def)
  ultimately show ?thesis
    using demo_consumer_valid
    by (simp add: observe_checkpoint_def consumer_check_def information_def demo_store_def matching_def fresh_checkpoint_def)
qed

lemma demo_page_checked: "page_check lib (demo_cursor []) demo_page = Inr ()"
  using demo_cursor_valid(2) by (simp add: page_check_def demo_page_def demo_cursor_def same_scope_def)

lemma demo_decides: "checkpoint_decides demo_lib demo_store ''c'' (Some demo_fresh_text) demo_staged_text"
proof (rule checkpoint_decides.intros(2))
  have "publish_checkpoint demo_lib (fresh_checkpoint demo_consumer) ((fresh_checkpoint demo_consumer)\<lparr>cp_pending := Some demo_page\<rparr>) =
      Inr (Publish ''c'' (Some demo_fresh_text) demo_staged_text demo_staged)"
    using demo_encode by (simp add: publish_checkpoint_def advance_def demo_staged_def fresh_checkpoint_def demo_consumer_def
        remote_maximum_def)
  then show "stage_events demo_lib demo_consumer 1 demo_page demo_store =
      Inr (Publish ''c'' (Some demo_fresh_text) demo_staged_text demo_staged)"
    using demo_observed demo_page_checked [of demo_lib]
    by (simp add: stage_events_def revision_valid_def remote_maximum_def fresh_checkpoint_def demo_consumer_def
        demo_page_def demo_cursor_def)
qed

theorem checkpoint_changes_are_moves_witness:
  "\<exists>after c'. (demo_store(''c'' \<mapsto> demo_staged_text)) ''c'' = Some after \<and> encode_checkpoint demo_lib c' = Inr after \<and>
    (\<exists>c. decode_checkpoint demo_lib demo_fresh_text = Inr c \<and> checkpoint_move demo_lib c c')"
proof -
  let ?s = "\<lparr>st_store = demo_store, st_flight = {}\<rparr>"
  let ?t = "\<lparr>st_store = demo_store, st_flight = {(''c'', Some demo_fresh_text, demo_staged_text)}\<rparr>"
  let ?u = "\<lparr>st_store = demo_store(''c'' \<mapsto> demo_staged_text), st_flight = {}\<rparr>"
  have "store_step (checkpoint_decides demo_lib) ?s ?t"
    using store_step.Decides [of "checkpoint_decides demo_lib" ?s] demo_decides by simp
  moreover have "store_step (checkpoint_decides demo_lib) ?t ?u"
    using store_step.Publishes [of "''c''" "Some demo_fresh_text" demo_staged_text ?t "demo_store(''c'' \<mapsto> demo_staged_text)"]
    by (simp add: compare_information_def demo_store_def)
  moreover have "demo_staged_text \<noteq> demo_fresh_text"
    by (simp add: demo_staged_text_def demo_fresh_text_def demo_text_def)
  ultimately show ?thesis
    using checkpoint_changes_are_moves [of demo_lib ?s ?t ?u "''c''"] by (auto simp: demo_store_def)
qed

section \<open>Retries\<close>

lemma publish_checkpoint_facts:
  assumes "publish_checkpoint lib c changed = Inr (Publish key before after c')"
  shows "c' = changed\<lparr>cp_revision := cp_revision changed + 1\<rparr>" "encode_checkpoint lib c' = Inr after"
    "key = consumer_id (cp_consumer c)" "cp_revision changed < remote_maximum"
  using assms by (auto simp: publish_checkpoint_def advance_def result_simps split: if_splits)

lemma observe_published:
  assumes "observe_checkpoint lib consumer store = Inr c" "publish_checkpoint lib c changed = Inr (Publish key before after c')"
    and "checkpoint_ok lib c'" "cp_consumer changed = cp_consumer c" "json_text lib after = Some (checkpoint_json c')"
  shows "observe_checkpoint lib consumer (store(key \<mapsto> after)) = Inr c'"
proof -
  note facts = publish_checkpoint_facts [OF assms(2)]
  have "consumer_check consumer = Inr ()" "cp_consumer c = consumer"
    using assms(1) observed_checkpoint [OF assms(1)] by (auto simp: observe_checkpoint_def result_simps)
  then show ?thesis
    using checkpoint_reads_back [OF facts(2) assms(3,5)] facts(1,3) assms(4)
    by (simp add: observe_checkpoint_def information_def matching_def)
qed

text \<open>A caller that lost the answer repeats its call: it is told the same checkpoint, and nothing is written again.\<close>

theorem retries_settle:
  shows "stage_events lib consumer expected observed store = Inr (Publish key before after c') \<Longrightarrow>
      json_text lib after = Some (checkpoint_json c') \<Longrightarrow>
      stage_events lib consumer expected observed (store(key \<mapsto> after)) = Inr (Settled c')"
    and "accept_events lib consumer expected accepted store = Inr (Publish key before after c') \<Longrightarrow>
      json_text lib after = Some (checkpoint_json c') \<Longrightarrow>
      accept_events lib consumer expected accepted (store(key \<mapsto> after)) = Inr (Settled c')"
proof -
  assume run: "stage_events lib consumer expected observed store = Inr (Publish key before after c')"
    and reads: "json_text lib after = Some (checkpoint_json c')"
  obtain c where c: "observe_checkpoint lib consumer store = Inr c" "page_check lib (cp_accepted c) observed = Inr ()"
      "cp_pending c = None" "cp_revision c = expected" "revision_valid expected = Inr ()"
    and published: "publish_checkpoint lib c (c\<lparr>cp_pending := Some observed\<rparr>) = Inr (Publish key before after c')"
    using run by (auto simp: stage_events_def result_simps split: if_splits option.splits)
  note facts = publish_checkpoint_facts [OF published]
  obtain t where "decode_checkpoint lib t = Inr c" using observed_checkpoint [OF c(1)] by blast
  then have "checkpoint_ok lib c'"
    using move_keeps_ok [OF Staged [OF c(3,2)] decode_checkpoint_ok] facts(1,4) by simp
  then have "observe_checkpoint lib consumer (store(key \<mapsto> after)) = Inr c'"
    using observe_published [OF c(1) published _ _ reads] by simp
  then show "stage_events lib consumer expected observed (store(key \<mapsto> after)) = Inr (Settled c')"
    using c(2,4,5) facts(1) by (simp add: stage_events_def)
next
  assume run: "accept_events lib consumer expected accepted store = Inr (Publish key before after c')"
    and reads: "json_text lib after = Some (checkpoint_json c')"
  obtain c p where c: "observe_checkpoint lib consumer store = Inr c" "cp_pending c = Some p" "events_cursor p = accepted"
      "cp_revision c = expected" "revision_valid expected = Inr ()" "cursor_valid accepted"
    and published: "publish_checkpoint lib c (c\<lparr>cp_accepted := accepted, cp_pending := None\<rparr>) = Inr (Publish key before after c')"
    using run by (auto simp: accept_events_def result_simps split: if_splits option.splits)
  note facts = publish_checkpoint_facts [OF published]
  obtain t where "decode_checkpoint lib t = Inr c" using observed_checkpoint [OF c(1)] by blast
  then have "checkpoint_ok lib c'"
    using move_keeps_ok [OF Accepted [OF c(2)] decode_checkpoint_ok] facts(1,4) c(3) by simp
  then have "observe_checkpoint lib consumer (store(key \<mapsto> after)) = Inr c'"
    using observe_published [OF c(1) published _ _ reads] by simp
  then show "accept_events lib consumer expected accepted (store(key \<mapsto> after)) = Inr (Settled c')"
    using c(4-6) facts(1) by (simp add: accept_events_def)
qed

end
