(* ===== verification/Remote_Negotiation.thy ===== *)
theory Remote_Negotiation
  imports Remote_Records
begin

text \<open>
  \<open>remote_negotiation.cpp\<close>: the grant a remote server answers a negotiation with. A grant is taken only from the
  expected server, for a supported version, before it expires, with every required capability.
\<close>

datatype negotiation_error = Malformed | Server_mismatch | Unsupported_version | Missing_capability | Expired_grant
  | Invalid_requirements | Negotiation_json_failure

record negotiation_requirements =
  supported_versions :: "int list"
  required_capabilities :: "(bytes \<times> int) list"
  expected_server :: "bytes option"
  now_seconds :: int

record authorized_scope =
  scope_name :: bytes
  scope_actions :: "bytes list"

record negotiated_grant =
  grant_server :: bytes
  grant_id :: bytes
  grant_version :: int
  grant_revision :: int
  grant_expires :: int
  grant_scopes :: "authorized_scope list"
  grant_capabilities :: "(bytes \<times> int) list"

definition negotiation_identifier :: "bytes \<Rightarrow> bool" where
  "negotiation_identifier s \<longleftrightarrow> s \<noteq> [] \<and> length s \<le> 256 \<and>
     list_all (\<lambda>c. ascii_alnum c \<or> c = CHR ''_'' \<or> c = CHR ''-'' \<or> c = CHR ''.'' \<or> c = CHR '':'') s"

definition negotiated_id :: "json \<Rightarrow> negotiation_error + bytes" where
  "negotiated_id v = bindE (guardE (is_string v \<and> negotiation_identifier (str_of v)) Malformed) (\<lambda>_. Inr (str_of v))"

fun positive_int :: "json \<Rightarrow> negotiation_error + int" where
  "positive_int (JInt n) = (if 0 < n \<and> n < 2 ^ 63 then Inr n else Inl Malformed)"
| "positive_int _ = Inl Malformed"

definition exact_keys :: "bytes list \<Rightarrow> json \<Rightarrow> negotiation_error + unit" where
  "exact_keys ks v = guardE (is_object v \<and> length (members v) = length ks \<and> list_all (has_member v) ks) Malformed"

definition requirements_valid :: "negotiation_requirements \<Rightarrow> negotiation_error + unit" where
  "requirements_valid r =
     bindE (guardE (0 < now_seconds r \<and> supported_versions r \<noteq> [] \<and> length (supported_versions r) \<le> 16 \<and>
       length (required_capabilities r) \<le> 128 \<and> (\<forall>s \<in> set_option (expected_server r). negotiation_identifier s))
       Invalid_requirements) (\<lambda>_.
     bindE (guardE (list_all (\<lambda>v. 0 < v) (supported_versions r) \<and> distinct (supported_versions r)) Invalid_requirements) (\<lambda>_.
     guardE (list_all (\<lambda>(n, v). negotiation_identifier n \<and> 0 < v) (required_capabilities r)) Invalid_requirements))"

definition encode_negotiation_request :: "json_lib \<Rightarrow> negotiation_requirements \<Rightarrow> negotiation_error + bytes" where
  "encode_negotiation_request lib r =
     bindE (requirements_valid r) (\<lambda>_.
     case dump lib (JObj [(''expected_server_id'', case expected_server r of None \<Rightarrow> JNull | Some s \<Rightarrow> JStr s),
         (''required_capabilities'', JObj (map (\<lambda>(n, v). (n, JInt v)) (required_capabilities r))),
         (''supported_versions'', JArr (map JInt (supported_versions r)))]) of
       None \<Rightarrow> Inl Negotiation_json_failure | Some t \<Rightarrow> Inr t)"

definition scope_json :: "authorized_scope \<Rightarrow> json" where
  "scope_json s = JObj [(''actions'', JArr (map JStr (scope_actions s))), (''id'', JStr (scope_name s))]"

definition grant_json :: "negotiated_grant \<Rightarrow> json" where
  "grant_json g = JObj [(''authorized_scopes'', JArr (map scope_json (grant_scopes g))),
     (''capabilities'', JObj (map (\<lambda>(n, v). (n, JInt v)) (grant_capabilities g))), (''expires_at'', JInt (grant_expires g)),
     (''grant_id'', JStr (grant_id g)), (''grant_revision'', JInt (grant_revision g)),
     (''protocol_version'', JInt (grant_version g)), (''server_id'', JStr (grant_server g))]"

definition encode_grant :: "json_lib \<Rightarrow> negotiated_grant \<Rightarrow> negotiation_error + bytes" where
  "encode_grant lib g = (case dump lib (grant_json g) of None \<Rightarrow> Inl Negotiation_json_failure | Some t \<Rightarrow> Inr t)"

definition response_body :: "json_lib \<Rightarrow> bytes \<Rightarrow> negotiation_error + json" where
  "response_body lib response =
     bindE (guardE (response \<noteq> [] \<and> length response \<le> 65536) Malformed) (\<lambda>_.
     bindE (map_error (\<lambda>_. Malformed) (foldE (event_within 8) [] (fst (sax lib response)))) (\<lambda>_.
       case snd (sax lib response) of None \<Rightarrow> Inl Malformed | Some v \<Rightarrow> Inr v))"

fun capabilities_of :: "(bytes \<times> json) list \<Rightarrow> negotiation_error + (bytes \<times> int) list" where
  "capabilities_of [] = Inr []"
| "capabilities_of ((n, v) # ms) =
     bindE (guardE (negotiation_identifier n) Malformed) (\<lambda>_. bindE (positive_int v) (\<lambda>i.
     bindE (capabilities_of ms) (\<lambda>rest. Inr ((n, i) # rest))))"

fun distinct_ids :: "bytes list \<Rightarrow> json list \<Rightarrow> negotiation_error + bytes list" where
  "distinct_ids seen [] = Inr []"
| "distinct_ids seen (v # vs) =
     bindE (negotiated_id v) (\<lambda>i. bindE (guardE (i \<notin> set seen) Malformed) (\<lambda>_.
     bindE (distinct_ids (i # seen) vs) (\<lambda>rest. Inr (i # rest))))"

definition scope_of :: "bytes list \<Rightarrow> json \<Rightarrow> negotiation_error + authorized_scope" where
  "scope_of seen v =
     bindE (exact_keys [''id'', ''actions''] v) (\<lambda>_. bindE (negotiated_id (at_key v ''id'')) (\<lambda>i.
     bindE (guardE (i \<notin> set seen) Malformed) (\<lambda>_.
     let actions = at_key v ''actions'' in
     bindE (guardE (is_array actions \<and> elements actions \<noteq> [] \<and> length (elements actions) \<le> 64) Malformed) (\<lambda>_.
     bindE (distinct_ids [] (elements actions)) (\<lambda>names. Inr \<lparr>scope_name = i, scope_actions = names\<rparr>)))))"

fun scopes_of :: "bytes list \<Rightarrow> json list \<Rightarrow> negotiation_error + authorized_scope list" where
  "scopes_of seen [] = Inr []"
| "scopes_of seen (v # vs) =
     bindE (scope_of seen v) (\<lambda>s. bindE (scopes_of (scope_name s # seen) vs) (\<lambda>rest. Inr (s # rest)))"

definition grant_head :: "json \<Rightarrow> negotiation_error + negotiated_grant" where
  "grant_head body =
     bindE (exact_keys [''server_id'', ''protocol_version'', ''grant_id'', ''grant_revision'', ''expires_at'',
       ''authorized_scopes'', ''capabilities''] body) (\<lambda>_.
     bindE (negotiated_id (at_key body ''server_id'')) (\<lambda>s. bindE (negotiated_id (at_key body ''grant_id'')) (\<lambda>g.
     bindE (positive_int (at_key body ''protocol_version'')) (\<lambda>v. bindE (positive_int (at_key body ''grant_revision'')) (\<lambda>r.
     bindE (positive_int (at_key body ''expires_at'')) (\<lambda>e.
       Inr \<lparr>grant_server = s, grant_id = g, grant_version = v, grant_revision = r, grant_expires = e, grant_scopes = [],
         grant_capabilities = []\<rparr>))))))"

definition validate_negotiation :: "json_lib \<Rightarrow> bytes \<Rightarrow> negotiation_requirements \<Rightarrow> negotiation_error + negotiated_grant" where
  "validate_negotiation lib response r =
     bindE (requirements_valid r) (\<lambda>_. bindE (response_body lib response) (\<lambda>body. bindE (grant_head body) (\<lambda>g.
     bindE (guardE (\<forall>s \<in> set_option (expected_server r). s = grant_server g) Server_mismatch) (\<lambda>_.
     bindE (guardE (grant_version g = 1 \<and> grant_version g \<in> set (supported_versions r)) Unsupported_version) (\<lambda>_.
     bindE (guardE (now_seconds r < grant_expires g) Expired_grant) (\<lambda>_.
     let caps = at_key body ''capabilities'' in
     bindE (guardE (is_object caps \<and> length (members caps) \<le> 128) Malformed) (\<lambda>_.
     bindE (capabilities_of (members caps)) (\<lambda>cs.
     bindE (guardE (list_all (\<lambda>(n, v). map_of cs n = Some v) (required_capabilities r)) Missing_capability) (\<lambda>_.
     let scopes = at_key body ''authorized_scopes'' in
     bindE (guardE (is_array scopes \<and> elements scopes \<noteq> [] \<and> length (elements scopes) \<le> 128) Malformed) (\<lambda>_.
     bindE (scopes_of [] (elements scopes)) (\<lambda>ss.
       Inr (g\<lparr>grant_capabilities := cs, grant_scopes := ss\<rparr>))))))))))))"

section \<open>What a grant says\<close>

definition scope_ok :: "authorized_scope \<Rightarrow> bool" where
  "scope_ok s \<longleftrightarrow> negotiation_identifier (scope_name s) \<and> scope_actions s \<noteq> [] \<and> distinct (scope_actions s) \<and>
     list_all negotiation_identifier (scope_actions s)"

lemma distinct_ids_facts:
  "distinct_ids seen vs = Inr is \<Longrightarrow> distinct is \<and> set is \<inter> set seen = {} \<and> list_all negotiation_identifier is \<and>
     length is = length vs"
proof (induction vs arbitrary: seen "is")
  case (Cons v vs)
  then obtain i rest where "is = i # rest" "negotiation_identifier i" "i \<notin> set seen" "distinct_ids (i # seen) vs = Inr rest"
    by (auto simp: result_simps negotiated_id_def split: if_splits)
  then show ?case using Cons.IH [of "i # seen" rest] by auto
qed simp

lemma scope_of_facts: "scope_of seen v = Inr s \<Longrightarrow> scope_ok s \<and> scope_name s \<notin> set seen"
  by (auto simp: scope_of_def scope_ok_def result_simps Let_def negotiated_id_def dest!: distinct_ids_facts
      split: if_splits)

lemma scopes_of_facts:
  "scopes_of seen vs = Inr ss \<Longrightarrow> distinct (map scope_name ss) \<and> scope_name ` set ss \<inter> set seen = {} \<and> list_all scope_ok ss \<and>
     length ss = length vs"
proof (induction vs arbitrary: seen ss)
  case (Cons v vs)
  then obtain s rest where "ss = s # rest" "scope_of seen v = Inr s" "scopes_of (scope_name s # seen) vs = Inr rest"
    by (auto simp: result_simps)
  then show ?case using Cons.IH [of "scope_name s # seen" rest] scope_of_facts [of seen v s] by auto
qed simp

text \<open>
  A grant is for this backend: from the server expected, of a version both sides support, not expired, with every
  required capability at the required version, and with at least one scope, each with distinct actions.
\<close>

theorem grant_admissible:
  assumes "validate_negotiation lib response r = Inr g"
  shows "(\<forall>s. expected_server r = Some s \<longrightarrow> grant_server g = s) \<and> grant_version g \<in> set (supported_versions r) \<and>
    now_seconds r < grant_expires g \<and> (\<forall>(n, v) \<in> set (required_capabilities r). map_of (grant_capabilities g) n = Some v) \<and>
    grant_scopes g \<noteq> [] \<and> distinct (map scope_name (grant_scopes g)) \<and> list_all scope_ok (grant_scopes g)"
proof -
  obtain body h cs ss where h: "grant_head body = Inr h" "\<forall>s \<in> set_option (expected_server r). s = grant_server h"
      "grant_version h \<in> set (supported_versions r)" "now_seconds r < grant_expires h"
    and cs: "list_all (\<lambda>(n, v). map_of cs n = Some v) (required_capabilities r)"
    and ss: "elements (at_key body ''authorized_scopes'') \<noteq> []" "scopes_of [] (elements (at_key body ''authorized_scopes'')) = Inr ss"
    and g: "g = h\<lparr>grant_capabilities := cs, grant_scopes := ss\<rparr>"
    using assms by (auto simp: validate_negotiation_def result_simps Let_def split: if_splits)
  then show ?thesis
    using scopes_of_facts [OF ss(2)] by (auto simp: list_all_iff)
qed

end
