(* ===== verification/Spec2Isabelle.thy ===== *)
theory Spec2Isabelle
  imports Agent_Permissions Root_Pool Work_Executor Mcp_Wire Chat_Stream Graph_Coordinator Path_Glob Dynamic_Frontier Dynamic_Tools Claude_Stream Gemini_Stream Responses_Stream Mcp_Subscriptions Mcp_Http Context_Selection Context_Digest
    Model_Request Gemini_Request Anthropic_History Remote_Checkpoint Remote_Negotiation
begin

text \<open>
  A verification library for the native agent backend of xMind (\<open>src/Native\<close>, C++): the shared pools
  and workers that run agents, the permission policy their tools are held to, the decoders and
  serialisers that stand between the backend and model providers, the client side of the Model
  Context Protocol, the plans and graphs that agents carry out, the patches and globs their tools
  apply, the metadata a conversation is compacted by, and the records that the observation of a
  remote run keeps. File names are below \<open>src/Native/src\<close> and \<open>src/Native/include/agentflow\<close>;
  definitions have the names of the functions they model where Isabelle allows it.
\<close>

section \<open>How the parts of the program interact\<close>

text \<open>
  A root agent is admitted by \<open>RootAdmissionPool\<close> (a durable lease, a place in the queue, a running
  slot) and its work is run by \<open>RootWorkExecutor\<close>. To make a turn the conversation is serialised
  for its provider (\<open>model_request.cpp\<close>, \<open>gemini_request.cpp\<close>, and, for Claude, the receipts of
  \<open>anthropic_history.cpp\<close>), sent, and the streamed reply decoded event by event
  (\<open>model_stream.cpp\<close>, \<open>anthropic_stream.cpp\<close>, \<open>gemini_stream.cpp\<close>, \<open>responses_stream.cpp\<close>) into text
  and tool calls. A call that reads the workspace passes the layered policy of \<open>agent_permissions.hpp\<close>
  and uses \<open>path_glob.cpp\<close> and \<open>path_ignore.cpp\<close>; one that edits a file goes through \<open>file_patch.cpp\<close>;
  one to an MCP server through the tracker, handshake, subscriptions, wire codec and HTTP
  binding of \<open>mcp_*.cpp\<close>, its arguments against the schemas of \<open>json_schema.cpp\<close>. What agents do
  together is an immutable graph with a coordinator (\<open>graph.cpp\<close>) or a plan that the model changes
  while it runs (\<open>dynamic_plan.cpp\<close>). When a conversation outgrows its provider, \<open>context_selection.cpp\<close>
  decides which prefix may be replaced by a summary, bound by the hash of \<open>context_digest.cpp\<close>.
  A client of a remote backend negotiates a grant (\<open>remote_negotiation.cpp\<close>) and keeps how far it
  has accepted the events of a run and its snapshots (\<open>remote_event_checkpoint.cpp\<close>,
  \<open>remote_snapshot_store.cpp\<close>) in a store shared with other clients.
\<close>

section \<open>Conventions\<close>

text \<open>
  A byte string is a \<open>string\<close>; a cursor into a \<open>string_view\<close> is the suffix it points at, or an index
  where the code computes with indices. A struct or class is a record, an enumeration or variant a
  datatype. A function that may throw returns a sum, \<open>Inl\<close> the exception; where the object outlives
  the exception in a changed state, that state is returned beside the error (\<open>outcome\<close> in
  \<open>Event_Stream\<close>, \<open>line_result\<close> in \<open>Mcp_Wire\<close>, the coordinator's operations). 64-bit integers that the
  code guards are \<open>int\<close> or \<open>nat\<close> with the guard written out; where arithmetic wraps by intention
  (\<open>Context_Digest\<close>) they are words. Mutex-protected sections are functions on the protected state, and
  what several threads do with them is an inductive step relation (\<open>pool_step\<close>, \<open>work_step\<close>, \<open>coord_step\<close>,
  \<open>handshake_step\<close>, \<open>store_step\<close>) whose reachable states the invariants speak of. An exception thrown
  for want of memory is modelled only where the code handles it.

  Parameters stand for code that is not part of the program. The vendored JSON library is the record \<open>json_lib\<close>
  (\<open>Json_Values\<close>): its events and document for a text, its printer, its equality. What a property needs
  of it is a named hypothesis, and each such property has a concrete library for which it holds. The
  schema library is \<open>schema_lib\<close> (\<open>Json_Schema\<close>). Sinks that a decoder hands its results to are functions on
  their owner's state that also say whether they returned. The random salt of the request tracker,
  the polls of a stop token, the two percentages computed in floating point in \<open>Context_Selection\<close>
  and the time in \<open>Remote_Negotiation\<close> are arguments. \<open>Context_Selection\<close> takes the
  digest as an argument as well, since nothing proved there depends on it.
\<close>

section \<open>The theories\<close>

text \<open>
  Foundations. \<open>XM_Prelude\<close>: byte strings, results with errors, splitting and joining, decimal numbers,
  and the locales \<open>byte_machine\<close> and \<open>invariant_system\<close>. \<open>Json_Values\<close>: documents, accessors, the
  library parameter, separators of JSON text.

  Scheduling. \<open>Slot_Pools\<close>: the contract of a bounded set of slots. \<open>Root_Pool\<close>
  (\<open>root_admission_pool.hpp\<close>): leases, dispatch tickets and executions, with every handle a caller may
  hold. \<open>Work_Executor\<close> (\<open>root_work_executor.hpp\<close>): the life of a job from staging to its published
  outcome, the destruction of tickets, closing, and up to sixteen workers.

  Permissions and files. \<open>Agent_Permissions\<close> (\<open>agent_definition_records.hpp\<close>, \<open>agent_permissions.hpp\<close>, the
  policy check of \<open>agent_read_tool_host.cpp\<close>): rules, the memoised matcher, normalisation, enumeration
  of directories, layers. \<open>File_Patch\<close> (\<open>file_patch.cpp\<close>): the patch language and the placement of
  contexts by a prefix table. \<open>Path_Glob\<close> (\<open>path_glob.cpp\<close>, \<open>path_ignore.cpp\<close>): compilation and the tabular
  matcher with its budget, ignore files and their rules.

  Streams of model providers. \<open>Chat_Stream\<close> (\<open>model_stream.cpp\<close>): framing, three dialects, assembly of tool
  calls, usage, diagnostics. \<open>Event_Stream\<close>: the framing of named events that the other three share, and
  the locale \<open>sse_decoder\<close>. \<open>Claude_Stream\<close>, \<open>Gemini_Stream\<close>, \<open>Responses_Stream\<close>: the decoders of
  \<open>anthropic_stream.cpp\<close>, \<open>gemini_stream.cpp\<close>, \<open>responses_stream.cpp\<close>, each an extension of the record \<open>sse\<close>.

  Requests to model providers. \<open>Model_Request\<close> (\<open>model_request.cpp\<close>, the records of \<open>model_provider.hpp\<close>):
  messages, options, capacity, the protocol of tool calls and the body. \<open>Gemini_Request\<close>
  (\<open>gemini_request.cpp\<close>). \<open>Anthropic_History\<close> (\<open>anthropic_history.cpp\<close>): receipts and their replay.

  Model Context Protocol. \<open>Mcp_Wire\<close> (\<open>mcp_wire.cpp\<close>): validated parsing, classification, the scanners that
  keep spellings, outgoing messages, the line stream. \<open>Mcp_Session\<close> (\<open>mcp_requests.cpp\<close>,
  \<open>mcp_handshake.cpp\<close>): tracker and negotiation, which share state. \<open>Mcp_Subscriptions\<close>
  (\<open>mcp_subscriptions.cpp\<close>). \<open>Mcp_Http\<close> (\<open>mcp_http_stream.cpp\<close>, \<open>mcp_http_metadata.cpp\<close>).

  Plans. \<open>Graph_Plan\<close> and \<open>Graph_Coordinator\<close> (\<open>graph.cpp\<close>): the immutable graph with its nested
  snapshots and references, then the state of a run, its transitions and checkpoints. \<open>Json_Schema\<close>
  (\<open>json_schema.cpp\<close>). \<open>Dynamic_Plan\<close>, \<open>Dynamic_Frontier\<close>, \<open>Dynamic_Tools\<close> (\<open>dynamic_plan.cpp\<close>,
  \<open>dynamic_plan_records.hpp\<close>): changes, the snapshot, readiness and decisions, the planning tools.

  Context. \<open>Context_Selection\<close> (\<open>context_selection.cpp\<close>): snapshots, framing, selection, capacity.
  \<open>Context_Digest\<close> (\<open>context_digest.cpp\<close>): the hash on 32-bit words, and SHA-256 as the standard has it.

  Remote runs. \<open>Remote_Records\<close>: cursors, consumers, origins, the store and the locale
  \<open>optimistic_store\<close>. \<open>Remote_Snapshot\<close> (\<open>remote_snapshot_store.cpp\<close>), \<open>Remote_Checkpoint\<close>
  (\<open>remote_event_checkpoint.cpp\<close>), \<open>Remote_Negotiation\<close> (\<open>remote_negotiation.cpp\<close>).
\<close>

section \<open>The interfaces\<close>

text \<open>
  \<open>byte_machine\<close>: feeding a piece is folding a step over its bytes, so no cut of the input can be observed.
  Interpreted by the MCP line stream (\<open>line_bytes\<close>), the chat decoder (\<open>chat_bytes\<close>) and the shared event
  framing (\<open>sse_pieces\<close>).

  \<open>invariant_system\<close>: what holds at the start and is kept by every step holds under every interleaving.
  Interpreted by the admission pool (\<open>pool_system\<close>), the executor (\<open>work_system\<close>), the coordinator
  (\<open>graph_run\<close>) and the handshake with its tracker (\<open>negotiation\<close>).

  \<open>slot_pool\<close>: an acquisition succeeds exactly when a slot is free. Interpreted by the leases
  (\<open>lease_slots\<close>).

  \<open>sse_decoder\<close>: a handler of one event that keeps an invariant of its decoder; then every stream the
  framing can build satisfies it. Interpreted by Claude (\<open>claude_sse\<close>) and Gemini (\<open>gemini_sse\<close>).

  \<open>optimistic_store\<close>: a caller decides on the value it has read and publishes only if that value is still
  there; then what is lawful of each decision is lawful of each change of the store, whatever other
  callers do between. Interpreted by \<open>snapshots\<close> and \<open>checkpoints\<close>.
\<close>

section \<open>What the lemmas show\<close>

text \<open>
  Permissions (C1 to C5). The memoised matcher decides the denotation of its patterns; the last matching rule wins;
  enumeration of a directory is denied when an aligned deny rule reaches below it, and is not when the rule's
  wildcard begins inside a component; layers combine as the read tool host combines them.

  Scheduling (C6, C7, C9 to C12). Counters equal the handles held and stay within capacity; slots are granted in
  the order of the queue; jobs start once and in order; outcomes are final; shutting down settles
  every job; a destroyed ticket leaves no work behind.

  Protocol client (C13, C14, C17, C22, C40). Pieces cannot be observed; what is encoded reaches the peer; headers cannot be
  injected; the handshake fails closed; every request sent is settled at most once.

  Context (C15, C16, C18). What a selection covers and protects; the digest is SHA-256; the framing that is
  hashed determines its content.

  Providers (C19, C20, C21, C38, C39). A finished turn is what its events said and its calls are well formed, for
  three decoders; a request that is sent answers every call exactly once; a receipt is replayed byte
  for byte. The Responses decoder has its invariants as lemmas of its theory.

  Graphs (C23 to C32). Accepted plans are ordered, and are ordered exactly when they have no cycle; nests
  stay within their budget; references are substituted exactly; the coordinator refines an abstract
  machine of node states, respects dependencies, never changes a final state, always ends, always
  offers work until it has ended, and is restored by its checkpoints.

  Patches and globs (C33 to C35). The tabular search is the naive search; preparation returns; the matcher decides
  the denotation of compiled globs.

  Dynamic plans (C36, C37). Accepted changes keep a plan acceptable; inspection offers exactly what is ready and reports
  exactly what is blocked.

  Remote runs (C8). Every change of a stored checkpoint is a move of its state machine. For snapshots
  the same locale gives that pages are only appended, and that a page sent again is settled; for
  negotiation, that a grant accepted is one the client could ask for.
\<close>

section \<open>Bounds and fuel\<close>

text \<open>
  Limits on sizes and counts are the code's and are written as it writes them. Where a
  definition does not follow its data, it cuts no computation of the code short.

  The scanners of \<open>Mcp_Wire\<close> and \<open>Graph_Plan\<close> recurse on the text that is left, which their termination proofs show to be
  shorter. In the token walkers of \<open>Claude_Stream\<close> and \<open>Gemini_Stream\<close>, whose recursion goes through the rest left by a nested
  value, the equations compare the lengths, and the comparison always holds: a value consumes at least one byte.

  \<open>visit_task\<close> and \<open>readiness\<close> walk the dependencies of a dynamic plan with as much fuel as there are tasks, and one
  more. A visit always goes to a task not visited before, or, in an accepted plan, to one of
  smaller rank in an order without cycles, so the error that stands for lack of fuel is never returned: the cycle check
  fails only for the faults the code reports, and inspection of an accepted plan returns (C37).

  \<open>fall_back\<close> in \<open>File_Patch\<close> follows links of a table, which need not end for an arbitrary table. It is a partial
  function, and that it returns on every table it is used with is C34.

  The glob matcher counts its steps as the code does and gives up after fifty million. C35 states that it answers
  whenever the steps left cover the product of tokens and characters.

  \<open>context_digest\<close> refuses texts of 2 to the 61 bytes or more, as the code does, so that the length in bits is a 64-bit number.
  The window of retired identities of the request tracker holds 256.
\<close>

section \<open>What is not modelled\<close>

text \<open>
  Partly modelled: of the read tool host its policy check, not its journal nor the dispatch to the workspace reader; of
  connection profiles the validation of an origin.

  Not modelled. The repository and the persistence service: their meaning is in SQL text and the database, of which only the
  record of an accepted plan change and the compare-and-publish of a stored text are definitions here. The HTTP and
  IPC servers and the applications: input and output around the library. The agent runner and service, the tool
  hosts, the worker processes and the executors of plans, patches and graphs: they sequence calls into the
  repository, the network and the file system; the decisions they follow are the components above. The remaining
  serialisers and history checks of providers, of the same shape as those modelled, and their tables of
  models; transport and configuration of providers. The execution of a compaction. MCP clients, OAuth and the
  registry, the agent-to-agent client, the transport and journal of remote connections: threads, sockets and
  credentials around the protocol objects modelled here. Operating-system interfaces, embedded
  interpreters, third-party libraries, tests, views and samples.
\<close>

end
